(* ===== verification/Prelude.thy ===== *)
theory Prelude
  imports Main "HOL-Library.Word"
begin

text \<open>
  The vocabulary every component shares: names for the machine integers of the RV32 target,
  the named collections the component theories extend, little-endian bytes of a word,
  overwriting a slice of a buffer, and lemmas on single bits that carry the proofs about
  register fields.
\<close>

unbundle bit_operations_syntax

type_synonym u8 = "8 word"
type_synonym u16 = "16 word"
type_synonym u32 = "32 word"
type_synonym u64 = "64 word"

named_theorems reg_defs \<open>register offsets, bit positions and fields of the generated headers\<close>
named_theorems drv_defs \<open>driver operations, to be unfolded into register accesses\<close>

subsection \<open>Little-endian bytes of a 32-bit word\<close>

definition word_bytes :: "u32 \<Rightarrow> u8 list" where
  "word_bytes w = map (\<lambda>i. ucast (drop_bit (8 * i) w)) [0..<4]"

definition word_of_bytes :: "u8 list \<Rightarrow> u32" where
  "word_of_bytes bs = foldr (\<lambda>b acc. ucast b OR push_bit 8 acc) bs 0"

lemma length_word_bytes [simp]: "length (word_bytes w) = 4"
  by (simp add: word_bytes_def)

lemma nth_word_bytes: "i < 4 \<Longrightarrow> word_bytes w ! i = ucast (drop_bit (8 * i) w)"
  by (simp add: word_bytes_def)

lemma list_of_4: "length bs = 4 \<Longrightarrow> bs = [bs ! 0, bs ! 1, bs ! 2, bs ! 3]"
  by (intro nth_equalityI) (auto simp: nth_Cons less_Suc_eq numeral_eq_Suc split: nat.splits)

lemma word_of_4_bytes:
  "word_of_bytes [a, b, c, d] =
     (ucast a OR push_bit 8 (ucast b) OR push_bit 16 (ucast c) OR push_bit 24 (ucast d) :: u32)"
  by (simp add: word_of_bytes_def push_bit_or ac_simps)

lemma word_of_word_bytes [simp]: "word_of_bytes (word_bytes w) = w"
proof -
  have "word_bytes w = [ucast w, ucast (drop_bit 8 w), ucast (drop_bit 16 w), ucast (drop_bit 24 w)]"
    by (simp add: word_bytes_def upt_rec)
  then show ?thesis
    by (simp add: word_of_4_bytes) (rule bit_word_eqI, rename_tac n, case_tac "n < 16",
        case_tac [2] "n < 24", auto simp: bit_simps)
qed

lemma not_bit8: "8 \<le> n \<Longrightarrow> \<not> bit (a::u8) n"
  by (auto dest: bit_imp_le_length)

lemma word_bytes_of_4:
  "word_bytes (word_of_bytes [a, b, c, d]) = [a, b, c, d]"
  by (simp add: word_bytes_def upt_rec word_of_4_bytes)
     (auto intro!: bit_word_eqI simp: bit_simps not_bit8)

lemma word_bytes_word_of_bytes [simp]:
  "length bs = 4 \<Longrightarrow> word_bytes (word_of_bytes bs) = bs"
  by (metis list_of_4 word_bytes_of_4)

text \<open>Masks of consecutive ones, as the register headers write them.\<close>

lemma bit_ones [simp]:
  "bit (0x3::int) n \<longleftrightarrow> n < 2"
    "bit (0x7::int) n \<longleftrightarrow> n < 3"
    "bit (0xf::int) n \<longleftrightarrow> n < 4"
    "bit (0xff::int) n \<longleftrightarrow> n < 8"
    "bit (0xfff::int) n \<longleftrightarrow> n < 12"
    "bit (0xffff::int) n \<longleftrightarrow> n < 16"
    "bit (0xffffff::int) n \<longleftrightarrow> n < 24"
    "bit (0xffffffff::int) n \<longleftrightarrow> n < 32"
proof -
  have m: "bit (mask k :: int) n \<longleftrightarrow> n < k" for k
    by (simp add: bit_mask_iff)
  show "bit (0x3::int) n \<longleftrightarrow> n < 2"
    "bit (0x7::int) n \<longleftrightarrow> n < 3"
    "bit (0xf::int) n \<longleftrightarrow> n < 4"
    "bit (0xff::int) n \<longleftrightarrow> n < 8"
    "bit (0xfff::int) n \<longleftrightarrow> n < 12"
    "bit (0xffff::int) n \<longleftrightarrow> n < 16"
    "bit (0xffffff::int) n \<longleftrightarrow> n < 24"
    "bit (0xffffffff::int) n \<longleftrightarrow> n < 32"
    using m [of 2] m [of 3] m [of 4] m [of 8] m [of 12] m [of 16] m [of 24] m [of 32]
    by (simp_all only: mask_eq_exp_minus_1) (simp_all)
qed

subsection \<open>Overwriting a slice of a buffer\<close>

definition put_at :: "nat \<Rightarrow> 'a list \<Rightarrow> 'a list \<Rightarrow> 'a list" where
  "put_at p xs buf = take p buf @ xs @ drop (p + length xs) buf"

lemma length_put_at [simp]:
  "p + length xs \<le> length buf \<Longrightarrow> length (put_at p xs buf) = length buf"
  by (simp add: put_at_def)

lemma nth_put_at:
  "p + length xs \<le> length buf \<Longrightarrow> i < length buf \<Longrightarrow>
   put_at p xs buf ! i = (if p \<le> i \<and> i < p + length xs then xs ! (i - p) else buf ! i)"
  by (auto simp: put_at_def nth_append)

lemma put_at_Nil [simp]: "put_at p [] buf = buf"
  by (simp add: put_at_def)

lemma put_at_put_at:
  assumes "p + length xs + length ys \<le> length buf"
  shows "put_at (p + length xs) ys (put_at p xs buf) = put_at p (xs @ ys) buf"
  using assms by (intro nth_equalityI) (auto simp: nth_put_at nth_append)

subsection \<open>Arithmetic on 32-bit offsets\<close>

lemma unat_lt32: "unat (a::u32) < 2 ^ 32"
proof -
  have "unsigned a < (2::nat) ^ LENGTH(32)" by (rule unsigned_less)
  then show ?thesis by simp
qed

lemma unat_ucast_32_64: "unat (ucast (a::u32) :: u64) = unat a"
proof -
  have "unat a < 2 ^ 64" using unat_lt32 [of a] by simp
  then show ?thesis by (simp add: unsigned_ucast_eq take_bit_nat_eq_self)
qed

lemma unat_add_of_nat32:
  "unat (a::u32) + n < 2 ^ 32 \<Longrightarrow> unat (a + of_nat n) = unat a + n"
  by (simp add: unat_word_ariths unat_of_nat take_bit_eq_mod)

lemma unat_div4: "unat ((a::u32) div 4) = unat a div 4"
  by (simp add: unat_div_distrib)

lemma unat_mod4: "unat ((a::u32) mod 4) = unat a mod 4"
  by (simp add: unat_mod_distrib)

lemma word_index_inj:
  assumes "(base::u32) + 4 * of_nat k = base + 4 * of_nat l" "k < 2 ^ 30" "l < 2 ^ 30"
  shows "k = l"
proof -
  have "(of_nat (4 * k) :: u32) = of_nat (4 * l)"
    using assms(1) by simp
  then have "unat (of_nat (4 * k) :: u32) = unat (of_nat (4 * l) :: u32)" by simp
  then show ?thesis using assms(2,3)
    by (simp only: unat_of_nat take_bit_eq_mod) (simp add: mod_if)
qed

end
