(* ===== verification/Bitfield.thy ===== *)
theory Bitfield
  imports Prelude
begin

text \<open>
  The bit-field helpers of \<^verbatim>\<open>sw/riscv/lib/base/bitfield.h\<close>. A field is a mask and the
  position of its bit 0. C leaves a shift by 32 or more undefined; the model's shift yields 0
  there, and the lemmas about fields ask for an index below 32 where it matters.
\<close>

record bitfield_field32_t =
  bf_mask :: u32
  bf_index :: u32

definition mk_field :: "u32 \<Rightarrow> u32 \<Rightarrow> bitfield_field32_t" where
  [reg_defs]: "mk_field m i = \<lparr>bf_mask = m, bf_index = i\<rparr>"

definition bitfield_field32_read :: "u32 \<Rightarrow> bitfield_field32_t \<Rightarrow> u32" where
  "bitfield_field32_read bitfield field = drop_bit (unat (bf_index field)) bitfield AND bf_mask field"

definition bitfield_field32_write :: "u32 \<Rightarrow> bitfield_field32_t \<Rightarrow> u32 \<Rightarrow> u32" where
  "bitfield_field32_write bitfield field value =
     (bitfield AND NOT (push_bit (unat (bf_index field)) (bf_mask field)))
       OR push_bit (unat (bf_index field)) (value AND bf_mask field)"

definition bitfield_bit32_to_field32 :: "u32 \<Rightarrow> bitfield_field32_t" where
  "bitfield_bit32_to_field32 bit_index = \<lparr>bf_mask = 0x1, bf_index = bit_index\<rparr>"

definition bitfield_bit32_read :: "u32 \<Rightarrow> u32 \<Rightarrow> bool" where
  "bitfield_bit32_read bitfield bit_index \<longleftrightarrow>
     bitfield_field32_read bitfield (bitfield_bit32_to_field32 bit_index) = 0x1"

definition bitfield_bit32_write :: "u32 \<Rightarrow> u32 \<Rightarrow> bool \<Rightarrow> u32" where
  "bitfield_bit32_write bitfield bit_index value =
     bitfield_field32_write bitfield (bitfield_bit32_to_field32 bit_index) (if value then 0x1 else 0x0)"

text \<open>
  The remaining helpers are one compiler built-in each; they are written over the list of the
  word's bits, least significant first, as the compiler documents them.
\<close>

definition word_bits :: "u32 \<Rightarrow> bool list" where
  "word_bits w = map (bit w) [0..<32]"

definition bitfield_find_first_set32 :: "u32 \<Rightarrow> int" where
  "bitfield_find_first_set32 bitfield =
     (if bitfield = 0 then 0 else int (length (takeWhile Not (word_bits bitfield))) + 1)"

definition bitfield_count_leading_zeroes32 :: "u32 \<Rightarrow> int" where
  "bitfield_count_leading_zeroes32 bitfield =
     (if bitfield \<noteq> 0 then int (length (takeWhile Not (rev (word_bits bitfield)))) else 32)"

definition bitfield_count_trailing_zeroes32 :: "u32 \<Rightarrow> int" where
  "bitfield_count_trailing_zeroes32 bitfield =
     (if bitfield \<noteq> 0 then int (length (takeWhile Not (word_bits bitfield))) else 32)"

definition bitfield_popcount32 :: "u32 \<Rightarrow> int" where
  "bitfield_popcount32 bitfield = int (length (filter (\<lambda>b. b) (word_bits bitfield)))"

definition bitfield_parity32 :: "u32 \<Rightarrow> int" where
  "bitfield_parity32 bitfield = (if odd (length (filter (\<lambda>b. b) (word_bits bitfield))) then 1 else 0)"

definition bitfield_byteswap32 :: "u32 \<Rightarrow> u32" where
  "bitfield_byteswap32 bitfield = word_of_bytes (rev (word_bytes bitfield))"

subsection \<open>Fields\<close>

text \<open>A field fits when shifting its mask to its position loses no bit.\<close>

definition field_fits :: "bitfield_field32_t \<Rightarrow> bool" where
  "field_fits f \<longleftrightarrow> drop_bit (unat (bf_index f)) (push_bit (unat (bf_index f)) (bf_mask f)) = bf_mask f"

definition field_bits :: "bitfield_field32_t \<Rightarrow> u32" where
  "field_bits f = push_bit (unat (bf_index f)) (bf_mask f)"

lemma field_fitsD:
  assumes "field_fits f" "bit (bf_mask f) n"
  shows "unat (bf_index f) + n < 32"
proof -
  have "bit (drop_bit (unat (bf_index f)) (push_bit (unat (bf_index f)) (bf_mask f))) n"
    using assms by (simp add: field_fits_def)
  then show ?thesis by (auto simp: bit_simps)
qed

lemma bit_field32_write:
  assumes "n < 32"
  shows "bit (bitfield_field32_write b f v) n =
    (if bit (field_bits f) n then bit v (n - unat (bf_index f)) else bit b n)"
  using assms by (auto simp: bitfield_field32_write_def field_bits_def bit_simps)

lemma bit_field32_read:
  "bit (bitfield_field32_read b f) n = (bit b (unat (bf_index f) + n) \<and> bit (bf_mask f) n)"
  by (simp add: bitfield_field32_read_def bit_simps)

lemma bit_field_bits:
  "bit (field_bits f) n = (n < 32 \<and> unat (bf_index f) \<le> n \<and> bit (bf_mask f) (n - unat (bf_index f)))"
  by (auto simp: field_bits_def bit_simps)

lemma field32_read_write_same:
  assumes "field_fits f"
  shows "bitfield_field32_read (bitfield_field32_write b f v) f = v AND bf_mask f"
proof (rule bit_word_eqI)
  fix n assume "n < LENGTH(32)"
  show "bit (bitfield_field32_read (bitfield_field32_write b f v) f) n = bit (v AND bf_mask f) n"
  proof (cases "bit (bf_mask f) n")
    case True
    with field_fitsD [OF assms] show ?thesis
      by (simp add: bit_field32_read bit_field32_write bit_field_bits bit_and_iff)
  next
    case False
    then show ?thesis by (simp add: bit_field32_read bit_and_iff)
  qed
qed

lemma field32_read_write_other:
  assumes "field_bits f AND field_bits g = 0"
  shows "bitfield_field32_read (bitfield_field32_write b f v) g = bitfield_field32_read b g"
proof (rule bit_word_eqI)
  fix n assume "n < LENGTH(32)"
  have dis: "\<not> (bit (field_bits f) k \<and> bit (field_bits g) k)" for k
    using assms by (metis bit_and_iff bit_0_eq bot_apply bot_bool_def)
  show "bit (bitfield_field32_read (bitfield_field32_write b f v) g) n =
        bit (bitfield_field32_read b g) n"
  proof (cases "unat (bf_index g) + n < 32")
    case True
    then show ?thesis
      using dis [of "unat (bf_index g) + n"]
      by (auto simp: bit_field32_read bit_field32_write bit_field_bits)
  next
    case False
    then show ?thesis
      by (auto simp: bit_field32_read dest: bit_imp_le_length)
  qed
qed

lemma field32_write_commute:
  assumes "field_bits f AND field_bits g = 0"
  shows "bitfield_field32_write (bitfield_field32_write b f v) g w =
         bitfield_field32_write (bitfield_field32_write b g w) f v"
proof -
  have dis: "\<not> (bit (field_bits f) k \<and> bit (field_bits g) k)" for k
    using assms by (metis bit_and_iff bit_0_eq bot_apply bot_bool_def)
  show ?thesis
    by (rule bit_word_eqI) (use dis in \<open>auto simp: bit_field32_write\<close>)
qed

lemma field32_write_write:
  "bitfield_field32_write (bitfield_field32_write b f v) f w = bitfield_field32_write b f w"
  by (rule bit_word_eqI) (simp add: bit_field32_write)

subsection \<open>Single bits\<close>

lemma bit32_write_bit:
  assumes "n < 32"
  shows "bit (bitfield_bit32_write b i v) n = (if n = unat i then v else bit b n)"
  using assms
  by (auto simp: bitfield_bit32_write_def bit_field32_write bitfield_bit32_to_field32_def
      bit_field_bits bit_1_iff)

lemma bit32_read_bit: "bitfield_bit32_read b i = bit b (unat i)"
proof -
  have "bitfield_field32_read b (bitfield_bit32_to_field32 i) = (if bit b (unat i) then 1 else 0)"
    by (rule bit_word_eqI, rename_tac n, case_tac "n = 0")
       (auto simp: bit_field32_read bitfield_bit32_to_field32_def bit_1_iff)
  then show ?thesis by (simp add: bitfield_bit32_read_def)
qed

end
