(* ===== verification/Mmio.thy ===== *)
theory Mmio
  imports Bitfield
begin

text \<open>
  Memory-mapped register access: \<^verbatim>\<open>sw/riscv/lib/base/mmio.h\<close> and \<^verbatim>\<open>mmio.c\<close>.

  The hardware is not part of the repository. A device is therefore a parameter: a function
  that answers each read from the whole history of bus accesses made so far and the address.
  Nothing is assumed of it; in particular a read may have side effects and a register need not
  read back what was written. The state every driver threads is that history, oldest access
  first, so a statement about a driver is a statement about the exact accesses it makes, their
  order and their values. Where a lemma needs a register to behave as plain storage, the
  locale \<open>storage_reg\<close> says so for that one address.
\<close>

subsection \<open>Bus accesses and devices\<close>

datatype access = Rd32 u32 u32 | Rd8 u32 u8 | Wr32 u32 u32 | Wr8 u32 u8

type_synonym hist = "access list"

record device =
  dev32 :: "hist \<Rightarrow> u32 \<Rightarrow> u32"
  dev8 :: "hist \<Rightarrow> u32 \<Rightarrow> u8"

record mmio_region_t =
  mr_base :: u32

definition mmio_region_from_addr :: "u32 \<Rightarrow> mmio_region_t" where
  "mmio_region_from_addr address = \<lparr>mr_base = address\<rparr>"

text \<open>The 32-bit accessors index an array of words, so the two low offset bits are dropped.\<close>

definition reg_addr :: "mmio_region_t \<Rightarrow> u32 \<Rightarrow> u32" where
  "reg_addr base offset = mr_base base + 4 * (offset div 4)"

definition mmio_region_read8 :: "device \<Rightarrow> mmio_region_t \<Rightarrow> u32 \<Rightarrow> hist \<Rightarrow> u8 \<times> hist" where
  "mmio_region_read8 dev base offset h =
     (let a = mr_base base + offset; v = dev8 dev h a in (v, h @ [Rd8 a v]))"

definition mmio_region_read32 :: "device \<Rightarrow> mmio_region_t \<Rightarrow> u32 \<Rightarrow> hist \<Rightarrow> u32 \<times> hist" where
  "mmio_region_read32 dev base offset h =
     (let a = reg_addr base offset; v = dev32 dev h a in (v, h @ [Rd32 a v]))"

definition mmio_region_write8 :: "mmio_region_t \<Rightarrow> u32 \<Rightarrow> u8 \<Rightarrow> hist \<Rightarrow> hist" where
  "mmio_region_write8 base offset value h = h @ [Wr8 (mr_base base + offset) value]"

definition mmio_region_write32 :: "mmio_region_t \<Rightarrow> u32 \<Rightarrow> u32 \<Rightarrow> hist \<Rightarrow> hist" where
  "mmio_region_write32 base offset value h = h @ [Wr32 (reg_addr base offset) value]"

subsection \<open>Masked and single-bit accesses\<close>

definition mmio_region_read_mask32 :: "device \<Rightarrow> mmio_region_t \<Rightarrow> u32 \<Rightarrow> u32 \<Rightarrow> u32 \<Rightarrow> hist \<Rightarrow> u32 \<times> hist" where
  "mmio_region_read_mask32 dev base offset msk mask_index h =
     (let (v, h1) = mmio_region_read32 dev base offset h
      in (bitfield_field32_read v (mk_field msk mask_index), h1))"

definition mmio_region_get_bit32 :: "device \<Rightarrow> mmio_region_t \<Rightarrow> u32 \<Rightarrow> u32 \<Rightarrow> hist \<Rightarrow> bool \<times> hist" where
  "mmio_region_get_bit32 dev base offset bit_index h =
     (let (v, h1) = mmio_region_read32 dev base offset h
      in (bitfield_bit32_read v bit_index, h1))"

definition mmio_region_nonatomic_clear_mask32 ::
  "device \<Rightarrow> mmio_region_t \<Rightarrow> u32 \<Rightarrow> u32 \<Rightarrow> u32 \<Rightarrow> hist \<Rightarrow> hist" where
  "mmio_region_nonatomic_clear_mask32 dev base offset msk mask_index h =
     (let (v, h1) = mmio_region_read32 dev base offset h
      in mmio_region_write32 base offset (bitfield_field32_write v (mk_field msk mask_index) 0x0) h1)"

definition mmio_region_nonatomic_set_mask32 ::
  "device \<Rightarrow> mmio_region_t \<Rightarrow> u32 \<Rightarrow> u32 \<Rightarrow> u32 \<Rightarrow> hist \<Rightarrow> hist" where
  "mmio_region_nonatomic_set_mask32 dev base offset msk mask_index h =
     (let (v, h1) = mmio_region_read32 dev base offset h
      in mmio_region_write32 base offset (bitfield_field32_write v (mk_field msk mask_index) (NOT 0x0)) h1)"

definition mmio_region_write_only_set_mask32 ::
  "mmio_region_t \<Rightarrow> u32 \<Rightarrow> u32 \<Rightarrow> u32 \<Rightarrow> hist \<Rightarrow> hist" where
  "mmio_region_write_only_set_mask32 base offset msk mask_index h =
     mmio_region_write32 base offset (bitfield_field32_write 0x0 (mk_field msk mask_index) (NOT 0x0)) h"

definition mmio_region_nonatomic_set_field32 ::
  "device \<Rightarrow> mmio_region_t \<Rightarrow> u32 \<Rightarrow> bitfield_field32_t \<Rightarrow> u32 \<Rightarrow> hist \<Rightarrow> hist" where
  "mmio_region_nonatomic_set_field32 dev base offset field value h =
     (let (v, h1) = mmio_region_read32 dev base offset h
      in mmio_region_write32 base offset (bitfield_field32_write v field value) h1)"

definition mmio_region_write_only_set_field32 ::
  "mmio_region_t \<Rightarrow> u32 \<Rightarrow> bitfield_field32_t \<Rightarrow> u32 \<Rightarrow> hist \<Rightarrow> hist" where
  "mmio_region_write_only_set_field32 base offset field value h =
     mmio_region_write32 base offset (bitfield_field32_write 0x0 field value) h"

definition mmio_region_nonatomic_clear_bit32 ::
  "device \<Rightarrow> mmio_region_t \<Rightarrow> u32 \<Rightarrow> u32 \<Rightarrow> hist \<Rightarrow> hist" where
  "mmio_region_nonatomic_clear_bit32 dev base offset bit_index h =
     (let (v, h1) = mmio_region_read32 dev base offset h
      in mmio_region_write32 base offset (bitfield_bit32_write v bit_index False) h1)"

definition mmio_region_nonatomic_set_bit32 ::
  "device \<Rightarrow> mmio_region_t \<Rightarrow> u32 \<Rightarrow> u32 \<Rightarrow> hist \<Rightarrow> hist" where
  "mmio_region_nonatomic_set_bit32 dev base offset bit_index h =
     (let (v, h1) = mmio_region_read32 dev base offset h
      in mmio_region_write32 base offset (bitfield_bit32_write v bit_index True) h1)"

definition mmio_region_write_only_set_bit32 ::
  "mmio_region_t \<Rightarrow> u32 \<Rightarrow> u32 \<Rightarrow> hist \<Rightarrow> hist" where
  "mmio_region_write_only_set_bit32 base offset bit_index h =
     mmio_region_write32 base offset (bitfield_bit32_write 0x0 bit_index True) h"

lemmas mmio_defs =
  mmio_region_read8_def mmio_region_read32_def mmio_region_write8_def mmio_region_write32_def
  mmio_region_read_mask32_def mmio_region_get_bit32_def mmio_region_nonatomic_clear_mask32_def
  mmio_region_nonatomic_set_mask32_def mmio_region_write_only_set_mask32_def
  mmio_region_nonatomic_set_field32_def mmio_region_write_only_set_field32_def
  mmio_region_nonatomic_clear_bit32_def mmio_region_nonatomic_set_bit32_def
  mmio_region_write_only_set_bit32_def Let_def

subsection \<open>Word-aligned copies between registers and memory\<close>

definition misalignment32_of :: "u32 \<Rightarrow> nat" where
  "misalignment32_of addr = unat (addr mod 4)"

text \<open>
  The loop of \<^verbatim>\<open>mmio_region_memcpy32\<close>: \<open>buf\<close> is the memory block, \<open>p\<close> how far the buffer
  pointer has advanced into it, \<open>len\<close> the bytes still to copy.
\<close>

function mmio_copy_words ::
  "device \<Rightarrow> mmio_region_t \<Rightarrow> u32 \<Rightarrow> u8 list \<Rightarrow> nat \<Rightarrow> nat \<Rightarrow> bool \<Rightarrow> hist \<Rightarrow> u8 list \<times> hist" where
  "mmio_copy_words dev base offset buf p len from_mmio h =
     (if len = 0 then (buf, h)
      else let n = min 4 len;
               (current_word, h1) =
                 (if from_mmio \<or> n \<noteq> 4 then mmio_region_read32 dev base offset h else (0, h))
           in if from_mmio
              then mmio_copy_words dev base (offset + of_nat n)
                     (put_at p (take n (word_bytes current_word)) buf) (p + n) (len - n) from_mmio h1
              else mmio_copy_words dev base (offset + of_nat n) buf (p + n) (len - n) from_mmio
                     (mmio_region_write32 base offset
                        (word_of_bytes (put_at 0 (take n (drop p buf)) (word_bytes current_word))) h1))"
  by pat_completeness auto
termination
  by (relation "measure (\<lambda>(dev, base, offset, buf, p, len, fm, h). len)") auto

declare mmio_copy_words.simps [simp del]

lemma mmio_copy_words_0 [simp]: "mmio_copy_words dev base offset buf p 0 from_mmio h = (buf, h)"
  by (simp add: mmio_copy_words.simps)

definition mmio_region_memcpy32 ::
  "device \<Rightarrow> mmio_region_t \<Rightarrow> u32 \<Rightarrow> u8 list \<Rightarrow> nat \<Rightarrow> bool \<Rightarrow> hist \<Rightarrow> u8 list \<times> hist" where
  "mmio_region_memcpy32 dev base offset buf len from_mmio h =
     (if len = 0 then (buf, h)
      else let misalignment = misalignment32_of offset
           in if misalignment \<noteq> 0
              then let realignment = min (4 - misalignment) len;
                       current_word_offset = offset - of_nat misalignment;
                       (current_word, h1) = mmio_region_read32 dev base current_word_offset h
                   in if from_mmio
                      then mmio_copy_words dev base (offset + of_nat realignment)
                             (put_at 0 (take realignment (drop misalignment (word_bytes current_word))) buf)
                             realignment (len - realignment) from_mmio h1
                      else mmio_copy_words dev base (offset + of_nat realignment) buf
                             realignment (len - realignment) from_mmio
                             (mmio_region_write32 base current_word_offset
                                (word_of_bytes (put_at misalignment (take realignment buf)
                                                  (word_bytes current_word))) h1)
              else mmio_copy_words dev base offset buf 0 len from_mmio h)"

definition mmio_region_memcpy_from_mmio32 ::
  "device \<Rightarrow> mmio_region_t \<Rightarrow> u32 \<Rightarrow> u8 list \<Rightarrow> nat \<Rightarrow> hist \<Rightarrow> u8 list \<times> hist" where
  "mmio_region_memcpy_from_mmio32 dev base offset dest len h =
     mmio_region_memcpy32 dev base offset dest len True h"

definition mmio_region_memcpy_to_mmio32 ::
  "device \<Rightarrow> mmio_region_t \<Rightarrow> u32 \<Rightarrow> u8 list \<Rightarrow> nat \<Rightarrow> hist \<Rightarrow> hist" where
  "mmio_region_memcpy_to_mmio32 dev base offset src len h =
     snd (mmio_region_memcpy32 dev base offset src len False h)"

subsection \<open>Registers that are plain storage\<close>

text \<open>
  The contract of one storage register at bus address \<open>a\<close>: it reads back the last word
  written to it, and no access to another word changes what it reads.
\<close>

fun touches :: "u32 \<Rightarrow> access \<Rightarrow> bool" where
  "touches a (Wr32 b v) \<longleftrightarrow> b = a"
| "touches a (Wr8 b v) \<longleftrightarrow> b AND NOT 3 = a"
| "touches a (Rd32 b v) \<longleftrightarrow> False"
| "touches a (Rd8 b v) \<longleftrightarrow> False"

locale storage_reg =
  fixes dev :: device and a :: u32
  assumes read_after_write: "dev32 dev (h @ [Wr32 a v]) a = v"
    and read_untouched: "\<not> touches a e \<Longrightarrow> dev32 dev (h @ [e]) a = dev32 dev h a"
begin

lemma read_untouched_list:
  "list_all (\<lambda>e. \<not> touches a e) es \<Longrightarrow> dev32 dev (h @ es) a = dev32 dev h a"
proof (induction es rule: rev_induct)
  case (snoc e es)
  then show ?case using read_untouched [of e "h @ es"] by simp
qed simp

lemma read_last_write:
  "list_all (\<lambda>e. \<not> touches a e) es \<Longrightarrow> dev32 dev (h @ Wr32 a v # es) a = v"
  using read_untouched_list [of es "h @ [Wr32 a v]"] by (simp add: read_after_write)

lemma set_bit_reads_back:
  assumes "a = reg_addr base off"
  shows "dev32 dev (mmio_region_nonatomic_set_bit32 dev base off i h) a =
         bitfield_bit32_write (dev32 dev h a) i True"
  using assms read_after_write [of "h @ [Rd32 a (dev32 dev h a)]"] by (simp add: mmio_defs)

lemma clear_bit_reads_back:
  assumes "a = reg_addr base off"
  shows "dev32 dev (mmio_region_nonatomic_clear_bit32 dev base off i h) a =
         bitfield_bit32_write (dev32 dev h a) i False"
  using assms read_after_write [of "h @ [Rd32 a (dev32 dev h a)]"] by (simp add: mmio_defs)

lemma set_field_reads_back:
  assumes "a = reg_addr base off" and "field_fits f"
  shows "bitfield_field32_read (dev32 dev (mmio_region_nonatomic_set_field32 dev base off f v h) a) f
         = v AND bf_mask f"
  using assms read_after_write [of "h @ [Rd32 a (dev32 dev h a)]"]
  by (simp add: mmio_defs field32_read_write_same)

end

subsection \<open>A device made of storage registers\<close>

text \<open>
  \<open>storage_dev m0\<close> answers every read from the initial contents \<open>m0\<close> and the writes in the
  history. It is the behaviour of RAM and of configuration registers.
\<close>

fun step_mem :: "access \<Rightarrow> (u32 \<Rightarrow> u32) \<Rightarrow> u32 \<Rightarrow> u32" where
  "step_mem (Wr32 a v) m = m(a := v)"
| "step_mem (Wr8 a v) m =
     m(a AND NOT 3 := word_of_bytes ((word_bytes (m (a AND NOT 3)))[unat (a AND 3) := v]))"
| "step_mem (Rd32 a v) m = m"
| "step_mem (Rd8 a v) m = m"

definition regs_after :: "(u32 \<Rightarrow> u32) \<Rightarrow> hist \<Rightarrow> u32 \<Rightarrow> u32" where
  "regs_after m0 h = fold step_mem h m0"

definition storage_dev :: "(u32 \<Rightarrow> u32) \<Rightarrow> device" where
  "storage_dev m0 = \<lparr>dev32 = (\<lambda>h a. regs_after m0 h a),
     dev8 = (\<lambda>h a. word_bytes (regs_after m0 h (a AND NOT 3)) ! unat (a AND 3))\<rparr>"

lemma regs_after_Nil [simp]: "regs_after m0 [] = m0"
  by (simp add: regs_after_def)

lemma regs_after_append [simp]: "regs_after m0 (h @ es) = fold step_mem es (regs_after m0 h)"
  by (simp add: regs_after_def)

lemma regs_after_Cons [simp]: "regs_after m0 (e # h) = regs_after (step_mem e m0) h"
  by (simp add: regs_after_def)

lemma dev32_storage [simp]: "dev32 (storage_dev m0) h a = regs_after m0 h a"
  by (simp add: storage_dev_def)

lemma step_mem_untouched: "\<not> touches a e \<Longrightarrow> step_mem e m a = m a"
  by (cases e) auto

interpretation mem: storage_reg "storage_dev m0" a for m0 a
  by unfold_locales (auto simp: step_mem_untouched)

subsection \<open>What the copies do to storage\<close>

text \<open>Byte \<open>i\<close> of a region, seen through its words.\<close>

definition region_byte :: "(u32 \<Rightarrow> u32) \<Rightarrow> mmio_region_t \<Rightarrow> nat \<Rightarrow> u8" where
  "region_byte m base i = word_bytes (m (mr_base base + 4 * of_nat (i div 4))) ! (i mod 4)"

lemma reg_addr_of_nat:
  "reg_addr base off = mr_base base + 4 * of_nat (unat off div 4)"
  by (simp add: reg_addr_def flip: unat_div4)

lemma take_drop_word_bytes:
  assumes "k + n \<le> 4" "unat off mod 4 = 0"
  shows "take n (drop k (word_bytes (m (reg_addr base off)))) =
         map (region_byte m base) [unat off + k..<unat off + k + n]"
proof (rule nth_equalityI)
  fix i assume i: "i < length (take n (drop k (word_bytes (m (reg_addr base off)))))"
  then have "i < n" by simp
  with assms(1) have ki: "k + i < 4" by simp
  obtain q where q: "unat off = 4 * q" using assms(2) by auto
  have "(unat off + k + i) div 4 = unat off div 4" "(unat off + k + i) mod 4 = k + i"
    using ki unfolding q by (simp_all add: add.assoc)
  moreover note \<open>i < n\<close>
  ultimately show "take n (drop k (word_bytes (m (reg_addr base off)))) ! i =
      map (region_byte m base) [unat off + k..<unat off + k + n] ! i"
    using assms by (simp add: region_byte_def reg_addr_of_nat)
qed (use assms in simp)

lemma mmio_copy_words_from:
  assumes "dev = storage_dev m0" "unat off mod 4 = 0 \<or> len = 0" "p + len \<le> length buf"
    "unat off + len \<le> 2 ^ 32"
  shows "fst (mmio_copy_words dev base off buf p len True h) =
           put_at p (map (region_byte (regs_after m0 h) base) [unat off..<unat off + len]) buf \<and>
         regs_after m0 (snd (mmio_copy_words dev base off buf p len True h)) = regs_after m0 h"
  using assms
proof (induction len arbitrary: off buf p h rule: less_induct)
  case (less len)
  show ?case
  proof (cases "len = 0")
    case True
    then show ?thesis by auto
  next
    case False
    define n where "n = min 4 len"
    define chunk where "chunk = take n (word_bytes (regs_after m0 h (reg_addr base off)))"
    let ?h1 = "h @ [Rd32 (reg_addr base off) (regs_after m0 h (reg_addr base off))]"
    let ?rb = "region_byte (regs_after m0 h) base"
    have n: "0 < n" "n \<le> 4" "n \<le> len" "n = 4 \<or> len - n = 0" using False by (auto simp: n_def)
    have al: "unat off mod 4 = 0" using less.prems False by simp
    have chunk: "chunk = map ?rb [unat off..<unat off + n]"
      using take_drop_word_bytes [of 0 n off "regs_after m0 h" base] n al by (simp add: chunk_def)
    have len_chunk: "length chunk = n" by (simp add: chunk)
    have unf: "mmio_copy_words dev base off buf p len True h =
        mmio_copy_words dev base (off + of_nat n) (put_at p chunk buf) (p + n) (len - n) True ?h1"
      using False less.prems(1)
      by (subst mmio_copy_words.simps) (simp add: mmio_defs n_def chunk_def)
    show ?thesis
    proof (cases "len - n = 0")
      case True
      with n have "len = n" by simp
      then show ?thesis
        unfolding unf by (simp add: chunk)
    next
      case False
      with n have n4: "n = 4" by blast
      have off': "unat (off + of_nat n) = unat off + n"
        using less.prems(4) False n4 unat_add_of_nat32 [of off n] by simp
      have "(unat off + 4) mod 4 = 0" using al by simp
      then have IH: "fst (mmio_copy_words dev base (off + of_nat n) (put_at p chunk buf) (p + n) (len - n) True ?h1)
          = put_at (p + n) (map ?rb [unat off + n..<unat off + len]) (put_at p chunk buf) \<and>
          regs_after m0 (snd (mmio_copy_words dev base (off + of_nat n) (put_at p chunk buf) (p + n) (len - n) True ?h1))
          = regs_after m0 h"
        using less.IH [of "len - n" "off + of_nat n" "p + n" "put_at p chunk buf" ?h1]
          less.prems n len_chunk off' n4 by simp
      have "put_at (p + n) (map ?rb [unat off + n..<unat off + len]) (put_at p chunk buf) =
            put_at p (chunk @ map ?rb [unat off + n..<unat off + len]) buf"
        using put_at_put_at [of p chunk "map ?rb [unat off + n..<unat off + len]" buf]
          less.prems(3) len_chunk n by simp
      moreover have "chunk @ map ?rb [unat off + n..<unat off + len] = map ?rb [unat off..<unat off + len]"
        using upt_add_eq_append [of "unat off" "unat off + n" "len - n"] n by (simp add: chunk)
      ultimately show ?thesis using IH unfolding unf by simp
    qed
  qed
qed

lemma region_byte_write:
  assumes "i < 2 ^ 32"
  shows "region_byte (m(reg_addr base off := w)) base i =
    (if i div 4 = unat off div 4 then word_bytes w ! (i mod 4) else region_byte m base i)"
proof -
  have "i div 4 < 2 ^ 30" using assms by simp
  moreover have "unat off div 4 < 2 ^ 30" using unat_lt32 [of off] by simp
  ultimately show ?thesis
    using word_index_inj [of "mr_base base" "i div 4" "unat off div 4"]
    by (auto simp: region_byte_def reg_addr_of_nat)
qed

lemma region_byte_splice:
  assumes "i < 2 ^ 32" "k + length bs \<le> 4" "unat off mod 4 = 0"
  shows "region_byte (m(reg_addr base off :=
            word_of_bytes (put_at k bs (word_bytes w)))) base i =
    (if unat off + k \<le> i \<and> i < unat off + k + length bs then bs ! (i - (unat off + k))
     else if i div 4 = unat off div 4 then word_bytes w ! (i mod 4) else region_byte m base i)"
proof -
  obtain q where q: "unat off = 4 * q" using assms(3) by auto
  have same: "i mod 4 = i - 4 * q" if "i div 4 = q"
    using that by (metis minus_mult_div_eq_mod)
  have rng: "(4 * q + k \<le> i \<and> i < 4 * q + k + length bs) \<Longrightarrow> i div 4 = q"
    using assms(2) by (intro div_nat_eqI) auto
  have low: "4 * q \<le> i" if "i div 4 = q" using that by (simp add: less_eq_div_iff_mult_less_eq)
  show ?thesis
    using same rng low assms(1,2)
    by (auto simp: region_byte_write q nth_put_at)
qed

lemma mmio_copy_words_to:
  assumes "dev = storage_dev m0" "unat off mod 4 = 0 \<or> len = 0" "p + len \<le> length buf"
    "unat off + len \<le> 2 ^ 32" "i < 2 ^ 32"
  shows "region_byte (regs_after m0 (snd (mmio_copy_words dev base off buf p len False h))) base i =
    (if unat off \<le> i \<and> i < unat off + len then buf ! (p + (i - unat off))
     else region_byte (regs_after m0 h) base i)"
  using assms
proof (induction len arbitrary: off p h rule: less_induct)
  case (less len)
  show ?case
  proof (cases "len = 0")
    case True
    then show ?thesis by auto
  next
    case False
    define n where "n = min 4 len"
    define m where "m = regs_after m0 h"
    have n: "0 < n" "n \<le> 4" "n \<le> len" "n = 4 \<or> len - n = 0" using False by (auto simp: n_def)
    have al: "unat off mod 4 = 0" using less.prems False by simp
    define h1 where "h1 = (if n \<noteq> 4 then h @ [Rd32 (reg_addr base off) (m (reg_addr base off))] else h)"
    define cw where "cw = (if n \<noteq> 4 then m (reg_addr base off) else 0)"
    define w where "w = word_of_bytes (put_at 0 (take n (drop p buf)) (word_bytes cw))"
    define h2 where "h2 = h1 @ [Wr32 (reg_addr base off) w]"
    have unf: "mmio_copy_words dev base off buf p len False h =
        mmio_copy_words dev base (off + of_nat n) buf (p + n) (len - n) False h2"
      using False less.prems(1)
      by (subst mmio_copy_words.simps)
         (simp add: mmio_defs n_def h1_def h2_def w_def cw_def m_def)
    have h2: "regs_after m0 h2 = m(reg_addr base off := w)"
      by (simp add: h2_def h1_def m_def)
    have lenb: "length (take n (drop p buf)) = n" using less.prems(3) n by simp
    have word: "region_byte (m(reg_addr base off := w)) base i =
        (if unat off \<le> i \<and> i < unat off + n then buf ! (p + (i - unat off))
         else region_byte m base i)"
    proof (cases "n = 4")
      case True
      obtain q where q: "unat off = 4 * q" using al by auto
      have "i div 4 = unat off div 4 \<longrightarrow> unat off \<le> i \<and> i < unat off + 4"
        unfolding q by auto
      then show ?thesis
        using region_byte_splice [OF less.prems(5), of 0 "take n (drop p buf)" off m base cw] al n lenb
          less.prems(3) True by (auto simp: w_def)
    next
      case False
      then have "i div 4 = unat off div 4 \<longrightarrow> word_bytes cw ! (i mod 4) = region_byte m base i"
        by (simp add: cw_def region_byte_def reg_addr_of_nat)
      then show ?thesis
        using region_byte_splice [OF less.prems(5), of 0 "take n (drop p buf)" off m base cw] al n lenb
          less.prems(3) by (auto simp: w_def)
    qed
    have H2: "region_byte (regs_after m0 h2) base i =
        (if unat off \<le> i \<and> i < unat off + n then buf ! (p + (i - unat off))
         else region_byte (regs_after m0 h) base i)"
      using word by (simp only: h2 m_def)
    show ?thesis
    proof (cases "len - n = 0")
      case True
      with n have "len = n" by simp
      then show ?thesis using H2 unfolding unf by simp
    next
      case False
      with n have n4: "n = 4" by blast
      have off': "unat (off + of_nat n) = unat off + n"
        using less.prems(4) False n4 unat_add_of_nat32 [of off n] by simp
      have "(unat off + 4) mod 4 = 0" using al by simp
      then have "region_byte (regs_after m0 (snd (mmio_copy_words dev base (off + of_nat n) buf (p + n)
            (len - n) False h2))) base i =
          (if unat off + n \<le> i \<and> i < unat off + n + (len - n) then buf ! (p + n + (i - (unat off + n)))
           else region_byte (regs_after m0 h2) base i)"
        using less.IH [of "len - n" "off + of_nat n" "p + n" h2] less.prems n off' n4 by simp
      then show ?thesis
        using H2 n unfolding unf by auto
    qed
  qed
qed

subsection \<open>Properties of the copies\<close>

lemma misalignment_parts:
  assumes "misalignment32_of off = k"
  shows "k < 4" "k \<le> unat off" "unat (off - of_nat k) = unat off - k"
    "unat (off - of_nat k) mod 4 = 0"
proof -
  have k: "k = unat off mod 4" using assms by (simp add: misalignment32_of_def unat_mod4)
  then show "k < 4" by simp
  show le: "k \<le> unat off" using k by simp
  have uk: "unat (of_nat k :: u32) = k"
    using k by (simp add: unat_of_nat take_bit_eq_mod)
  then have "(of_nat k :: u32) \<le> off" using le by (simp add: word_le_nat_alt)
  then show *: "unat (off - of_nat k) = unat off - k" using uk by (simp add: unat_sub)
  show "unat (off - of_nat k) mod 4 = 0" unfolding * using k by (simp add: minus_mod_eq_mult_div)
qed

lemma memcpy_from_mmio32:
  assumes "unat off + len \<le> 2 ^ 32" and "len \<le> length dest"
  shows "fst (mmio_region_memcpy_from_mmio32 (storage_dev m0) base off dest len h) =
           put_at 0 (map (region_byte (regs_after m0 h) base) [unat off..<unat off + len]) dest
       \<and> regs_after m0 (snd (mmio_region_memcpy_from_mmio32 (storage_dev m0) base off dest len h))
           = regs_after m0 h"
proof (cases "len = 0 \<or> misalignment32_of off = 0")
  case True
  then show ?thesis
    using mmio_copy_words_from [of "storage_dev m0" m0 off len 0 dest base h] assms
    by (auto simp: mmio_region_memcpy_from_mmio32_def mmio_region_memcpy32_def misalignment32_of_def
        unat_mod4)
next
  case False
  define k where "k = misalignment32_of off"
  note mis = misalignment_parts [OF k_def [symmetric]]
  define r where "r = min (4 - k) len"
  define m where "m = regs_after m0 h"
  let ?cur = "off - of_nat k"
  let ?rb = "region_byte m base"
  let ?h1 = "h @ [Rd32 (reg_addr base ?cur) (m (reg_addr base ?cur))]"
  define chunk where "chunk = take r (drop k (word_bytes (m (reg_addr base ?cur))))"
  have chunk: "chunk = map ?rb [unat off..<unat off + r]"
    using take_drop_word_bytes [of k r ?cur m base] mis by (simp add: chunk_def r_def)
  have r: "0 < r" "r \<le> len" using False mis by (auto simp: r_def)
  have unf: "mmio_region_memcpy_from_mmio32 (storage_dev m0) base off dest len h =
      mmio_copy_words (storage_dev m0) base (off + of_nat r) (put_at 0 chunk dest) r (len - r) True ?h1"
    using False unfolding mmio_region_memcpy_from_mmio32_def mmio_region_memcpy32_def
    by (simp add: mmio_defs k_def r_def chunk_def m_def)
  have al: "unat (off + of_nat r) mod 4 = 0 \<and> unat (off + of_nat r) = unat off + r" if "len - r \<noteq> 0"
  proof -
    have "r = 4 - k" using that by (auto simp: r_def)
    moreover have "unat (off + of_nat r) = unat off + r"
      using that assms unat_add_of_nat32 [of off r] by simp
    moreover obtain q where "unat off - k = 4 * q" using mis by auto
    then have "unat off + (4 - k) = 4 * (q + 1)" using mis(1,2) by arith
    ultimately show ?thesis by simp
  qed
  have "put_at r (map ?rb [unat off + r..<unat off + len]) (put_at 0 chunk dest) =
      put_at 0 (chunk @ map ?rb [unat off + r..<unat off + len]) dest"
    using put_at_put_at [of 0 chunk "map ?rb [unat off + r..<unat off + len]" dest] assms r
    by (simp add: chunk)
  moreover have "chunk @ map ?rb [unat off + r..<unat off + len] = map ?rb [unat off..<unat off + len]"
    using upt_add_eq_append [of "unat off" "unat off + r" "len - r"] r by (simp add: chunk)
  ultimately show ?thesis
    using mmio_copy_words_from [of "storage_dev m0" m0 "off + of_nat r" "len - r" r "put_at 0 chunk dest" base ?h1]
      al r assms unfolding unf
    by (cases "len - r = 0") (auto simp: chunk m_def)
qed

text \<open>Copying into storage registers writes exactly the requested bytes, at any alignment:
  the sub-word head and tail keep the neighbouring bytes of the words they share.\<close>

lemma memcpy_to_mmio32_bytes:
  assumes "unat off + len \<le> 2 ^ 32" and "len \<le> length src" and "i < 2 ^ 32"
  shows "region_byte (regs_after m0
           (mmio_region_memcpy_to_mmio32 (storage_dev m0) base off src len h)) base i =
         (if unat off \<le> i \<and> i < unat off + len then src ! (i - unat off)
          else region_byte (regs_after m0 h) base i)"
proof (cases "len = 0 \<or> misalignment32_of off = 0")
  case True
  then show ?thesis
    using mmio_copy_words_to [of "storage_dev m0" m0 off len 0 src i base h] assms
    by (auto simp: mmio_region_memcpy_to_mmio32_def mmio_region_memcpy32_def misalignment32_of_def
        unat_mod4)
next
  case False
  define k where "k = misalignment32_of off"
  note mis = misalignment_parts [OF k_def [symmetric]]
  define r where "r = min (4 - k) len"
  define m where "m = regs_after m0 h"
  let ?cur = "off - of_nat k"
  define w where "w = word_of_bytes (put_at k (take r src) (word_bytes (m (reg_addr base ?cur))))"
  define h2 where "h2 = h @ [Rd32 (reg_addr base ?cur) (m (reg_addr base ?cur)), Wr32 (reg_addr base ?cur) w]"
  have r: "0 < r" "r \<le> len" "k + r \<le> 4" using False mis by (auto simp: r_def)
  have unf: "mmio_region_memcpy_to_mmio32 (storage_dev m0) base off src len h =
      snd (mmio_copy_words (storage_dev m0) base (off + of_nat r) src r (len - r) False h2)"
    using False unfolding mmio_region_memcpy_to_mmio32_def mmio_region_memcpy32_def
    by (simp add: mmio_defs k_def r_def m_def h2_def w_def)
  have "i div 4 = unat ?cur div 4 \<longrightarrow>
      word_bytes (m (reg_addr base ?cur)) ! (i mod 4) = region_byte m base i"
    by (simp add: region_byte_def reg_addr_of_nat)
  then have H2: "region_byte (regs_after m0 h2) base i =
      (if unat off \<le> i \<and> i < unat off + r then src ! (i - unat off) else region_byte m base i)"
    using region_byte_splice [OF assms(3), of k "take r src" ?cur m base "m (reg_addr base ?cur)"]
      mis r assms by (auto simp: h2_def w_def simp flip: m_def)
  have al: "unat (off + of_nat r) mod 4 = 0 \<and> unat (off + of_nat r) = unat off + r" if "len - r \<noteq> 0"
  proof -
    have "r = 4 - k" using that by (auto simp: r_def)
    moreover have "unat (off + of_nat r) = unat off + r"
      using that assms unat_add_of_nat32 [of off r] by simp
    moreover obtain q where "unat off - k = 4 * q" using mis by auto
    then have "unat off + (4 - k) = 4 * (q + 1)" using mis(1,2) by arith
    ultimately show ?thesis by simp
  qed
  have tail: "region_byte (regs_after m0
      (snd (mmio_copy_words (storage_dev m0) base (off + of_nat r) src r (len - r) False h2))) base i =
     (if unat off + r \<le> i \<and> i < unat off + len then src ! (i - unat off)
      else region_byte (regs_after m0 h2) base i)"
    using mmio_copy_words_to [of "storage_dev m0" m0 "off + of_nat r" "len - r" r src i base h2]
      al r assms by (cases "len - r = 0") auto
  show ?thesis using tail H2 r unfolding unf m_def by auto
qed

text \<open>Copying out of storage registers yields exactly the bytes of the region, at any
  alignment, writes only the requested slice of the buffer and changes no register.\<close>

theorem memcpy_from_mmio32_correct:
  assumes "unat off + len \<le> 2 ^ 32" and "len \<le> length dest"
  shows "fst (mmio_region_memcpy_from_mmio32 (storage_dev m0) base off dest len h) =
           put_at 0 (map (region_byte (regs_after m0 h) base) [unat off..<unat off + len]) dest
       \<and> regs_after m0 (snd (mmio_region_memcpy_from_mmio32 (storage_dev m0) base off dest len h))
           = regs_after m0 h"
  using assms by (rule memcpy_from_mmio32)

text \<open>Three bytes out of the middle of two words.\<close>

lemma memcpy_from_mmio32_correct_witness:
  "fst (mmio_region_memcpy_from_mmio32 (storage_dev (\<lambda>a. a + 0x04030201)) \<lparr>mr_base = 0x100\<rparr> 2 [9, 9, 9, 9] 3 []) =
     put_at 0 (map (region_byte (\<lambda>a. a + 0x04030201) \<lparr>mr_base = 0x100\<rparr>) [2..<5]) [9, 9, 9, 9]"
  using memcpy_from_mmio32_correct [of 2 3 "[9, 9, 9, 9]" "\<lambda>a. a + 0x04030201" "\<lparr>mr_base = 0x100\<rparr>" "[]"]
  by simp

text \<open>Writing a block to storage registers and reading it back returns the block.\<close>

theorem memcpy_mmio32_roundtrip:
  assumes "unat off + length src \<le> 2 ^ 32" and "length dest = length src"
  shows "fst (mmio_region_memcpy_from_mmio32 (storage_dev m0) base off dest (length src)
           (mmio_region_memcpy_to_mmio32 (storage_dev m0) base off src (length src) h)) = src"
proof -
  let ?h = "mmio_region_memcpy_to_mmio32 (storage_dev m0) base off src (length src) h"
  have "map (region_byte (regs_after m0 ?h) base) [unat off..<unat off + length src] = src"
  proof (rule nth_equalityI)
    fix i assume "i < length (map (region_byte (regs_after m0 ?h) base) [unat off..<unat off + length src])"
    then show "map (region_byte (regs_after m0 ?h) base) [unat off..<unat off + length src] ! i = src ! i"
      using memcpy_to_mmio32_bytes [of off "length src" src "unat off + i" m0 base h] assms by simp
  qed simp
  then show ?thesis
    using memcpy_from_mmio32 [of off "length src" dest m0 base ?h] assms
    by (simp add: put_at_def)
qed

lemma memcpy_mmio32_roundtrip_witness:
  "fst (mmio_region_memcpy_from_mmio32 (storage_dev (\<lambda>a. a)) \<lparr>mr_base = 0x100\<rparr> 3 [0, 0, 0, 0, 0] 5
     (mmio_region_memcpy_to_mmio32 (storage_dev (\<lambda>a. a)) \<lparr>mr_base = 0x100\<rparr> 3 [1, 2, 3, 4, 5] 5 [])) = [1, 2, 3, 4, 5]"
proof -
  have l: "length [1, 2, 3, 4, 5 :: u8] = 5" "length [0, 0, 0, 0, 0 :: u8] = 5" by simp_all
  show ?thesis
    by (rule memcpy_mmio32_roundtrip [of 3 "[1, 2, 3, 4, 5]" "[0, 0, 0, 0, 0]", unfolded l]) simp_all
qed

end
