(* ===== verification/Polling.thy ===== *)
theory Polling
  imports Mmio "HOL-Library.Monad_Syntax"
begin

text \<open>
  Busy waiting. A driver loop \<^verbatim>\<open>while (cond());\<close> polls the device until the condition is
  false; it may never stop, so it is a \<open>partial_function (option)\<close> with \<open>None\<close> for not
  returning. The lemmas say when it returns and which accesses it has made by then.
\<close>

partial_function (option) wait_while :: "(hist \<Rightarrow> bool \<times> hist) \<Rightarrow> hist \<Rightarrow> hist option" where
  "wait_while c h = (let (b, h1) = c h in if b then wait_while c h1 else Some h1)"

text \<open>The history after \<open>n\<close> polls.\<close>

fun polled :: "(hist \<Rightarrow> bool \<times> hist) \<Rightarrow> nat \<Rightarrow> hist \<Rightarrow> hist" where
  "polled c 0 h = h"
| "polled c (Suc n) h = polled c n (snd (c h))"

lemma wait_while_step:
  "wait_while c h = (if fst (c h) then wait_while c (snd (c h)) else Some (snd (c h)))"
  by (subst wait_while.simps) (simp add: case_prod_beta Let_def)

lemma wait_while_returns:
  "(\<forall>k<n. fst (c (polled c k h))) \<Longrightarrow> \<not> fst (c (polled c n h)) \<Longrightarrow>
   wait_while c h = Some (polled c (Suc n) h)"
proof (induction n arbitrary: h)
  case 0
  then show ?case by (subst wait_while_step) simp
next
  case (Suc n)
  have "\<forall>k<n. fst (c (polled c k (snd (c h))))"
    using Suc.prems(1) by (metis Suc_less_eq polled.simps(2))
  then have "wait_while c (snd (c h)) = Some (polled c (Suc n) (snd (c h)))"
    using Suc.IH Suc.prems(2) by simp
  moreover have "fst (c h)" using Suc.prems(1) by (metis polled.simps(1) zero_less_Suc)
  ultimately show ?case by (subst wait_while_step) simp
qed

lemma wait_while_SomeD:
  assumes "wait_while c h = Some h'"
  shows "\<exists>n. (\<forall>k<n. fst (c (polled c k h))) \<and> \<not> fst (c (polled c n h)) \<and> h' = polled c (Suc n) h"
proof (rule wait_while.raw_induct [where P = "\<lambda>c h h'. \<exists>n. (\<forall>k<n. fst (c (polled c k h))) \<and>
    \<not> fst (c (polled c n h)) \<and> h' = polled c (Suc n) h", OF _ assms])
  fix ww :: "(hist \<Rightarrow> bool \<times> hist) \<Rightarrow> hist \<Rightarrow> hist option" and c h h'
  assume IH: "\<And>c h h'. ww c h = Some h' \<Longrightarrow> \<exists>n. (\<forall>k<n. fst (c (polled c k h))) \<and>
      \<not> fst (c (polled c n h)) \<and> h' = polled c (Suc n) h"
    and eq: "(let (b, h1) = c h in if b then ww c h1 else Some h1) = Some h'"
  show "\<exists>n. (\<forall>k<n. fst (c (polled c k h))) \<and> \<not> fst (c (polled c n h)) \<and> h' = polled c (Suc n) h"
  proof (cases "fst (c h)")
    case False
    with eq show ?thesis by (intro exI [of _ 0]) (simp add: case_prod_beta Let_def)
  next
    case True
    with eq have "ww c (snd (c h)) = Some h'" by (simp add: case_prod_beta Let_def)
    from IH [OF this] obtain n where "\<forall>k<n. fst (c (polled c k (snd (c h))))"
      "\<not> fst (c (polled c n (snd (c h))))" "h' = polled c (Suc n) (snd (c h))" by blast
    with True show ?thesis
      by (intro exI [of _ "Suc n"]) (auto simp: less_Suc_eq_0_disj)
  qed
qed

subsection \<open>Polling one register\<close>

definition reg_cond :: "device \<Rightarrow> mmio_region_t \<Rightarrow> u32 \<Rightarrow> (u32 \<Rightarrow> bool) \<Rightarrow> hist \<Rightarrow> bool \<times> hist" where
  "reg_cond dev base off P h = (let (v, h1) = mmio_region_read32 dev base off h in (P v, h1))"

lemma fst_reg_cond [simp]: "fst (reg_cond dev base off P h) = P (dev32 dev h (reg_addr base off))"
  by (simp add: reg_cond_def mmio_region_read32_def Let_def)

lemma snd_reg_cond [simp]:
  "snd (reg_cond dev base off P h) = h @ [Rd32 (reg_addr base off) (dev32 dev h (reg_addr base off))]"
  by (simp add: reg_cond_def mmio_region_read32_def Let_def)

lemma polled_reg_cond:
  "polled (reg_cond dev base off P) n h =
   h @ map (\<lambda>k. Rd32 (reg_addr base off) (dev32 dev (polled (reg_cond dev base off P) k h) (reg_addr base off))) [0..<n]"
proof (induction n arbitrary: h)
  case (Suc n)
  have "[0..<Suc n] = 0 # map Suc [0..<n]" by (simp add: map_Suc_upt upt_conv_Cons del: upt_Suc)
  then show ?case
    by (simp add: Suc.IH del: upt_Suc)
qed simp

text \<open>
  What a finished wait leaves behind: reads of that one register, all but the last satisfying
  the condition.
\<close>

lemma wait_reg_trace:
  assumes "wait_while (reg_cond dev base off P) h = Some h'"
  shows "\<exists>vs v. h' = h @ map (Rd32 (reg_addr base off)) vs @ [Rd32 (reg_addr base off) v] \<and>
           (\<forall>x\<in>set vs. P x) \<and> \<not> P v"
proof -
  let ?c = "reg_cond dev base off P"
  let ?v = "\<lambda>k. dev32 dev (polled ?c k h) (reg_addr base off)"
  obtain n where "\<forall>k<n. fst (?c (polled ?c k h))" "\<not> fst (?c (polled ?c n h))"
    "h' = polled ?c (Suc n) h"
    using wait_while_SomeD [OF assms] by blast
  then have "h' = h @ map (Rd32 (reg_addr base off)) (map ?v [0..<n]) @ [Rd32 (reg_addr base off) (?v n)]"
    "\<forall>x\<in>set (map ?v [0..<n]). P x" "\<not> P (?v n)"
    using polled_reg_cond [of dev base off P "Suc n" h] by auto
  then show ?thesis by blast
qed

text \<open>A register is eventually released when every history of polls ends.\<close>

definition eventually_not :: "device \<Rightarrow> mmio_region_t \<Rightarrow> u32 \<Rightarrow> (u32 \<Rightarrow> bool) \<Rightarrow> hist \<Rightarrow> bool" where
  "eventually_not dev base off P h \<longleftrightarrow>
     (\<exists>n. \<not> P (dev32 dev (polled (reg_cond dev base off P) n h) (reg_addr base off)))"

lemma wait_reg_returns_iff:
  "(\<exists>h'. wait_while (reg_cond dev base off P) h = Some h') \<longleftrightarrow> eventually_not dev base off P h"
proof
  let ?c = "reg_cond dev base off P"
  show "eventually_not dev base off P h" if "\<exists>h'. wait_while ?c h = Some h'"
    using that wait_while_SomeD [of ?c h] by (auto simp: eventually_not_def)
  show "\<exists>h'. wait_while ?c h = Some h'" if "eventually_not dev base off P h"
  proof -
    define n where "n = (LEAST n. \<not> fst (?c (polled ?c n h)))"
    have "\<exists>n. \<not> fst (?c (polled ?c n h))" using that by (simp add: eventually_not_def)
    then have "\<not> fst (?c (polled ?c n h))" unfolding n_def by (rule LeastI_ex)
    moreover have "\<forall>k<n. fst (?c (polled ?c k h))" unfolding n_def using not_less_Least by blast
    ultimately show ?thesis using wait_while_returns [of n ?c h] by blast
  qed
qed

subsection \<open>Sinks of bytes\<close>

text \<open>
  The contract of a character device: sending a byte, when it returns, appends that byte to
  what has been sent. Clients send whole strings; what they need is proved here once.
\<close>

fun put_all :: "(u8 \<Rightarrow> 's \<Rightarrow> 's option) \<Rightarrow> u8 list \<Rightarrow> 's \<Rightarrow> 's option" where
  "put_all put [] s = Some s"
| "put_all put (b # bs) s = do { s1 \<leftarrow> put b s; put_all put bs s1 }"

locale byte_sink =
  fixes put :: "u8 \<Rightarrow> 's \<Rightarrow> 's option" and sent :: "'s \<Rightarrow> u8 list" and ok :: "'s \<Rightarrow> bool"
  assumes put_sent: "put b s = Some s' \<Longrightarrow> sent s' = sent s @ [b]"
    and put_ok: "put b s = Some s' \<Longrightarrow> ok s \<Longrightarrow> ok s'"
begin

lemma put_all_sent: "put_all put bs s = Some s' \<Longrightarrow> sent s' = sent s @ bs"
proof (induction bs arbitrary: s)
  case (Cons b bs)
  then obtain s1 where "put b s = Some s1" "put_all put bs s1 = Some s'"
    by (auto split: bind_splits)
  with Cons.IH [of s1] put_sent show ?case by simp
qed simp

lemma put_all_ok: "put_all put bs s = Some s' \<Longrightarrow> ok s \<Longrightarrow> ok s'"
proof (induction bs arbitrary: s)
  case (Cons b bs)
  then show ?case by (auto split: bind_splits dest: put_ok)
qed simp

lemma put_all_returns:
  assumes "\<And>b s. \<exists>s'. put b s = Some s'"
  shows "\<exists>s'. put_all put bs s = Some s'"
proof (induction bs arbitrary: s)
  case (Cons b bs)
  obtain s1 where "put b s = Some s1" using assms by blast
  with Cons.IH [of s1] show ?case by auto
qed simp

end

end
