(* ===== verification/Uart.thy ===== *)
theory Uart
  imports Polling
begin

text \<open>
  The UART driver, \<^verbatim>\<open>sw/riscv/lib/hal/uart/uart.c\<close>, and the system-on-chip control
  registers, \<^verbatim>\<open>sw/riscv/lib/hal/soc_ctrl/soc_ctrl.c\<close>, from which it takes its clock
  frequency. A pointer argument that the code compares with \<^verbatim>\<open>NULL\<close> is an option.
\<close>

subsection \<open>Registers\<close>

definition UART_INTR_STATE_REG_OFFSET :: u32 where [reg_defs]: "UART_INTR_STATE_REG_OFFSET = 0x0"
definition UART_INTR_ENABLE_REG_OFFSET :: u32 where [reg_defs]: "UART_INTR_ENABLE_REG_OFFSET = 0x4"
definition UART_CTRL_REG_OFFSET :: u32 where [reg_defs]: "UART_CTRL_REG_OFFSET = 0xc"
definition UART_CTRL_TX_BIT :: u32 where [reg_defs]: "UART_CTRL_TX_BIT = 0"
definition UART_CTRL_RX_BIT :: u32 where [reg_defs]: "UART_CTRL_RX_BIT = 1"
definition UART_CTRL_PARITY_EN_BIT :: u32 where [reg_defs]: "UART_CTRL_PARITY_EN_BIT = 6"
definition UART_CTRL_NCO_MASK :: u32 where [reg_defs]: "UART_CTRL_NCO_MASK = 0xffff"
definition UART_CTRL_NCO_FIELD :: bitfield_field32_t where [reg_defs]: "UART_CTRL_NCO_FIELD = mk_field UART_CTRL_NCO_MASK 16"
definition UART_STATUS_REG_OFFSET :: u32 where [reg_defs]: "UART_STATUS_REG_OFFSET = 0x10"
definition UART_STATUS_TXFULL_BIT :: u32 where [reg_defs]: "UART_STATUS_TXFULL_BIT = 0"
definition UART_STATUS_TXIDLE_BIT :: u32 where [reg_defs]: "UART_STATUS_TXIDLE_BIT = 3"
definition UART_STATUS_RXEMPTY_BIT :: u32 where [reg_defs]: "UART_STATUS_RXEMPTY_BIT = 5"
definition UART_RDATA_REG_OFFSET :: u32 where [reg_defs]: "UART_RDATA_REG_OFFSET = 0x14"
definition UART_RDATA_RDATA_FIELD :: bitfield_field32_t where [reg_defs]: "UART_RDATA_RDATA_FIELD = mk_field 0xff 0"
definition UART_WDATA_REG_OFFSET :: u32 where [reg_defs]: "UART_WDATA_REG_OFFSET = 0x18"
definition UART_WDATA_WDATA_FIELD :: bitfield_field32_t where [reg_defs]: "UART_WDATA_WDATA_FIELD = mk_field 0xff 0"
definition UART_FIFO_CTRL_REG_OFFSET :: u32 where [reg_defs]: "UART_FIFO_CTRL_REG_OFFSET = 0x1c"
definition UART_FIFO_CTRL_RXRST_BIT :: u32 where [reg_defs]: "UART_FIFO_CTRL_RXRST_BIT = 0"
definition UART_FIFO_CTRL_TXRST_BIT :: u32 where [reg_defs]: "UART_FIFO_CTRL_TXRST_BIT = 1"
definition UART_OVRD_REG_OFFSET :: u32 where [reg_defs]: "UART_OVRD_REG_OFFSET = 0x24"
definition UART_TIMEOUT_CTRL_REG_OFFSET :: u32 where [reg_defs]: "UART_TIMEOUT_CTRL_REG_OFFSET = 0x2c"

definition SOC_CTRL_EXIT_VALID_REG_OFFSET :: u32 where [reg_defs]: "SOC_CTRL_EXIT_VALID_REG_OFFSET = 0x0"
definition SOC_CTRL_EXIT_VALUE_REG_OFFSET :: u32 where [reg_defs]: "SOC_CTRL_EXIT_VALUE_REG_OFFSET = 0x4"
definition SOC_CTRL_USE_SPIMEMIO_REG_OFFSET :: u32 where [reg_defs]: "SOC_CTRL_USE_SPIMEMIO_REG_OFFSET = 0x14"
definition SOC_CTRL_ENABLE_SPI_SEL_REG_OFFSET :: u32 where [reg_defs]: "SOC_CTRL_ENABLE_SPI_SEL_REG_OFFSET = 0x18"
definition SOC_CTRL_SYSTEM_FREQUENCY_HZ_REG_OFFSET :: u32 where [reg_defs]: "SOC_CTRL_SYSTEM_FREQUENCY_HZ_REG_OFFSET = 0x1c"

subsection \<open>SoC control\<close>

record soc_ctrl_t =
  soc_base :: mmio_region_t

definition soc_ctrl_set_valid :: "soc_ctrl_t \<Rightarrow> u8 \<Rightarrow> hist \<Rightarrow> hist" where
  "soc_ctrl_set_valid soc valid h = mmio_region_write8 (soc_base soc) SOC_CTRL_EXIT_VALID_REG_OFFSET valid h"

definition soc_ctrl_set_exit_value :: "soc_ctrl_t \<Rightarrow> u32 \<Rightarrow> hist \<Rightarrow> hist" where
  "soc_ctrl_set_exit_value soc exit_value h =
     mmio_region_write32 (soc_base soc) SOC_CTRL_EXIT_VALUE_REG_OFFSET exit_value h"

definition soc_ctrl_get_frequency :: "device \<Rightarrow> soc_ctrl_t \<Rightarrow> hist \<Rightarrow> u32 \<times> hist" where
  "soc_ctrl_get_frequency dev soc h =
     mmio_region_read32 dev (soc_base soc) SOC_CTRL_SYSTEM_FREQUENCY_HZ_REG_OFFSET h"

definition soc_ctrl_set_frequency :: "soc_ctrl_t \<Rightarrow> u32 \<Rightarrow> hist \<Rightarrow> hist" where
  "soc_ctrl_set_frequency soc frequency h =
     mmio_region_write32 (soc_base soc) SOC_CTRL_SYSTEM_FREQUENCY_HZ_REG_OFFSET frequency h"

definition soc_ctrl_select_spi_memio :: "soc_ctrl_t \<Rightarrow> hist \<Rightarrow> hist" where
  "soc_ctrl_select_spi_memio soc h = mmio_region_write32 (soc_base soc) SOC_CTRL_USE_SPIMEMIO_REG_OFFSET 0x1 h"

definition soc_ctrl_select_spi_host :: "soc_ctrl_t \<Rightarrow> hist \<Rightarrow> hist" where
  "soc_ctrl_select_spi_host soc h =
     mmio_region_write32 (soc_base soc) SOC_CTRL_USE_SPIMEMIO_REG_OFFSET 0x0
       (mmio_region_write32 (soc_base soc) SOC_CTRL_ENABLE_SPI_SEL_REG_OFFSET 0x1 h)"

subsection \<open>Driver operations\<close>

datatype system_error_t = kErrorOk | kErrorUartInvalidArgument | kErrorUartBadBaudRate

record uart_t =
  uart_base :: mmio_region_t
  baudrate :: u32
  clk_freq_hz :: u32

definition uart_reset :: "uart_t \<Rightarrow> hist \<Rightarrow> hist" where
  "uart_reset uart h =
     (let base = uart_base uart;
          h1 = mmio_region_write32 base UART_CTRL_REG_OFFSET 0 h;
          reg = bitfield_bit32_write 0 UART_FIFO_CTRL_RXRST_BIT True;
          reg = bitfield_bit32_write reg UART_FIFO_CTRL_TXRST_BIT True;
          h2 = mmio_region_write32 base UART_FIFO_CTRL_REG_OFFSET reg h1;
          h3 = mmio_region_write32 base UART_OVRD_REG_OFFSET 0 h2;
          h4 = mmio_region_write32 base UART_TIMEOUT_CTRL_REG_OFFSET 0 h3;
          h5 = mmio_region_write32 base UART_INTR_ENABLE_REG_OFFSET 0 h4
      in mmio_region_write32 base UART_INTR_STATE_REG_OFFSET 0xFFFFFFFF h5)"

text \<open>The divisor computation, in 64-bit arithmetic as in the code.\<close>

definition uart_nco :: "u32 \<Rightarrow> u32 \<Rightarrow> u64" where
  "uart_nco baud clk = push_bit (16 + 4) (ucast baud) div ucast clk"

definition uart_init :: "uart_t option \<Rightarrow> hist \<Rightarrow> system_error_t \<times> hist" where
  "uart_init uart_ptr h =
     (case uart_ptr of None \<Rightarrow> (kErrorUartInvalidArgument, h)
      | Some uart \<Rightarrow>
          if baudrate uart = 0 \<or> clk_freq_hz uart = 0 then (kErrorUartInvalidArgument, h)
          else let nco = uart_nco (baudrate uart) (clk_freq_hz uart);
                   nco_masked = (ucast (nco AND ucast UART_CTRL_NCO_MASK) :: u32)
               in if nco \<noteq> ucast nco_masked then (kErrorUartBadBaudRate, h)
                  else let h1 = uart_reset uart h;
                           reg = bitfield_field32_write 0 UART_CTRL_NCO_FIELD nco_masked;
                           reg = bitfield_bit32_write reg UART_CTRL_TX_BIT True;
                           reg = bitfield_bit32_write reg UART_CTRL_PARITY_EN_BIT False;
                           reg = bitfield_bit32_write reg UART_CTRL_RX_BIT True;
                           h2 = mmio_region_write32 (uart_base uart) UART_CTRL_REG_OFFSET reg h1
                       in (kErrorOk, mmio_region_write32 (uart_base uart) UART_INTR_ENABLE_REG_OFFSET 0 h2))"

definition uart_tx_full :: "device \<Rightarrow> uart_t \<Rightarrow> hist \<Rightarrow> bool \<times> hist" where
  "uart_tx_full dev uart h =
     (let (reg, h1) = mmio_region_read32 dev (uart_base uart) UART_STATUS_REG_OFFSET h
      in (bitfield_bit32_read reg UART_STATUS_TXFULL_BIT, h1))"

definition uart_tx_idle :: "device \<Rightarrow> uart_t \<Rightarrow> hist \<Rightarrow> bool \<times> hist" where
  "uart_tx_idle dev uart h =
     (let (reg, h1) = mmio_region_read32 dev (uart_base uart) UART_STATUS_REG_OFFSET h
      in (bitfield_bit32_read reg UART_STATUS_TXIDLE_BIT, h1))"

definition uart_rx_empty :: "device \<Rightarrow> uart_t \<Rightarrow> hist \<Rightarrow> bool \<times> hist" where
  "uart_rx_empty dev uart h =
     (let (reg, h1) = mmio_region_read32 dev (uart_base uart) UART_STATUS_REG_OFFSET h
      in (bitfield_bit32_read reg UART_STATUS_RXEMPTY_BIT, h1))"

definition uart_putchar :: "device \<Rightarrow> uart_t \<Rightarrow> u8 \<Rightarrow> hist \<Rightarrow> hist option" where
  "uart_putchar dev uart byte h =
     do { h1 \<leftarrow> wait_while (uart_tx_full dev uart) h;
          let reg = bitfield_field32_write 0 UART_WDATA_WDATA_FIELD (ucast byte);
          let h2 = mmio_region_write32 (uart_base uart) UART_WDATA_REG_OFFSET reg h1;
          wait_while (\<lambda>g. let (idle, g1) = uart_tx_idle dev uart g in (\<not> idle, g1)) h2 }"

definition uart_rx_fifo_read :: "device \<Rightarrow> uart_t \<Rightarrow> hist \<Rightarrow> u8 \<times> hist" where
  "uart_rx_fifo_read dev uart h =
     (let (reg, h1) = mmio_region_read32 dev (uart_base uart) UART_RDATA_REG_OFFSET h
      in (ucast (bitfield_field32_read reg UART_RDATA_RDATA_FIELD), h1))"

definition uart_getchar :: "device \<Rightarrow> uart_t \<Rightarrow> hist \<Rightarrow> (nat \<times> u8 \<times> hist) option" where
  "uart_getchar dev uart h =
     do { h1 \<leftarrow> wait_while (uart_rx_empty dev uart) h;
          let (data, h2) = uart_rx_fifo_read dev uart h1;
          Some (1, data, h2) }"

fun uart_write_loop :: "device \<Rightarrow> uart_t \<Rightarrow> u8 list \<Rightarrow> hist \<Rightarrow> hist option" where
  "uart_write_loop dev uart [] h = Some h"
| "uart_write_loop dev uart (b # bs) h =
     do { h1 \<leftarrow> uart_putchar dev uart b h; uart_write_loop dev uart bs h1 }"

definition uart_write :: "device \<Rightarrow> uart_t \<Rightarrow> u8 list \<Rightarrow> hist \<Rightarrow> (nat \<times> hist) option" where
  "uart_write dev uart data h =
     do { h1 \<leftarrow> uart_write_loop dev uart data h; Some (length data, h1) }"

fun uart_read_loop :: "device \<Rightarrow> uart_t \<Rightarrow> nat \<Rightarrow> hist \<Rightarrow> (u8 list \<times> hist) option" where
  "uart_read_loop dev uart 0 h = Some ([], h)"
| "uart_read_loop dev uart (Suc len) h =
     do { (_, b, h1) \<leftarrow> uart_getchar dev uart h;
          (bs, h2) \<leftarrow> uart_read_loop dev uart len h1;
          Some (b # bs, h2) }"

definition uart_read :: "device \<Rightarrow> uart_t \<Rightarrow> nat \<Rightarrow> hist \<Rightarrow> (nat \<times> u8 list \<times> hist) option" where
  "uart_read dev uart len h =
     do { (bs, h1) \<leftarrow> uart_read_loop dev uart len h; Some (len, bs, h1) }"

definition uart_sink :: "device \<Rightarrow> uart_t \<Rightarrow> u8 list \<Rightarrow> hist \<Rightarrow> (nat \<times> hist) option" where
  "uart_sink dev uart data h = uart_write dev uart data h"

subsection \<open>Initialisation\<close>

lemma uart_nco_value:
  assumes "clk \<noteq> 0"
  shows "unat (uart_nco baud clk) = unat baud * 2 ^ 20 div unat clk"
proof -
  have "unat baud < 2 ^ 32" by (rule unat_lt32)
  then have "unat (push_bit 20 (ucast baud) :: u64) = unat baud * 2 ^ 20"
    by (simp add: push_bit_eq_mult unat_word_ariths unat_ucast_32_64)
  then show ?thesis
    by (simp add: uart_nco_def unat_div_distrib unat_ucast_32_64)
qed

lemma nco_fits_iff:
  "(n = ucast (ucast (n AND 0xffff) :: u32)) \<longleftrightarrow> unat (n::u64) < 2 ^ 16"
proof -
  have "(n AND 0xffff) = take_bit 16 n" by (simp add: take_bit_eq_mask mask_eq_exp_minus_1)
  then have "ucast (ucast (n AND 0xffff) :: u32) = take_bit 16 n"
    by (auto intro!: bit_word_eqI simp: bit_simps)
  moreover have "n = take_bit 16 n \<longleftrightarrow> unat n < 2 ^ 16"
    by (metis take_bit_nat_eq_self_iff unsigned_take_bit_eq word_unat_eq_iff)
  ultimately show ?thesis by simp
qed

lemma uart_init_trace:
  "uart_init (Some u) h =
    (let nco = unat (baudrate u) * 2 ^ 20 div unat (clk_freq_hz u);
         r = (\<lambda>off. reg_addr (uart_base u) off)
     in if baudrate u = 0 \<or> clk_freq_hz u = 0 then (kErrorUartInvalidArgument, h)
        else if 2 ^ 16 \<le> nco then (kErrorUartBadBaudRate, h)
        else (kErrorOk, h @ [Wr32 (r 0xc) 0, Wr32 (r 0x1c) 3, Wr32 (r 0x24) 0, Wr32 (r 0x2c) 0,
               Wr32 (r 0x4) 0, Wr32 (r 0x0) 0xFFFFFFFF,
               Wr32 (r 0xc) (push_bit 16 (of_nat nco) OR 3), Wr32 (r 0x4) 0]))"
proof (cases "baudrate u = 0 \<or> clk_freq_hz u = 0")
  case True
  then show ?thesis by (auto simp: uart_init_def Let_def)
next
  case False
  define n where "n = uart_nco (baudrate u) (clk_freq_hz u)"
  define w where "w = (ucast (n AND 0xffff) :: u32)"
  have n: "unat n = unat (baudrate u) * 2 ^ 20 div unat (clk_freq_hz u)"
    using uart_nco_value False by (simp add: n_def)
  have fits: "(n \<noteq> ucast w) \<longleftrightarrow> 2 ^ 16 \<le> unat n"
    using nco_fits_iff [of n] by (auto simp: w_def)
  have w: "w = of_nat (unat n)" if "unat n < 2 ^ 16"
  proof -
    have "n = ucast w" using fits that by auto
    then have "unat n = unat w" using unat_ucast_32_64 [of w] by simp
    then show ?thesis by simp
  qed
  have w16: "\<not> bit w k" if "\<not> k < 16" for k
  proof -
    have "n AND 0xffff = take_bit 16 n" by (simp add: take_bit_eq_mask mask_eq_exp_minus_1)
    then show ?thesis using that by (simp add: w_def bit_simps)
  qed
  have reg: "bitfield_bit32_write (bitfield_bit32_write (bitfield_bit32_write
        (bitfield_field32_write 0 UART_CTRL_NCO_FIELD w) UART_CTRL_TX_BIT True)
        UART_CTRL_PARITY_EN_BIT False) UART_CTRL_RX_BIT True = push_bit 16 w OR 3"
    by (rule bit_word_eqI)
       (auto simp: bit32_write_bit bit_field32_write bit_field_bits reg_defs bit_or_iff bit_push_bit_iff w16)
  have fifo: "bitfield_bit32_write (bitfield_bit32_write 0 UART_FIFO_CTRL_RXRST_BIT True)
        UART_FIFO_CTRL_TXRST_BIT True = 3"
    by (rule bit_word_eqI) (auto simp: bit32_write_bit reg_defs)
  have offs: "UART_CTRL_REG_OFFSET = 0xc" "UART_FIFO_CTRL_REG_OFFSET = 0x1c" "UART_OVRD_REG_OFFSET = 0x24"
    "UART_TIMEOUT_CTRL_REG_OFFSET = 0x2c" "UART_INTR_ENABLE_REG_OFFSET = 0x4"
    "UART_INTR_STATE_REG_OFFSET = 0" "UART_CTRL_NCO_MASK = 0xffff"
    by (simp_all add: reg_defs)
  have init: "uart_init (Some u) h =
      (if n \<noteq> ucast w then (kErrorUartBadBaudRate, h)
       else (kErrorOk, h @ [Wr32 (reg_addr (uart_base u) 0xc) 0, Wr32 (reg_addr (uart_base u) 0x1c) 3,
               Wr32 (reg_addr (uart_base u) 0x24) 0, Wr32 (reg_addr (uart_base u) 0x2c) 0,
               Wr32 (reg_addr (uart_base u) 0x4) 0, Wr32 (reg_addr (uart_base u) 0x0) 0xFFFFFFFF,
               Wr32 (reg_addr (uart_base u) 0xc) (push_bit 16 w OR 3), Wr32 (reg_addr (uart_base u) 0x4) 0]))"
  proof -
    have mask: "ucast UART_CTRL_NCO_MASK = (0xffff :: u64)" by (simp add: offs)
    show ?thesis
      unfolding uart_init_def uart_reset_def mmio_region_write32_def Let_def option.case
        n_def [symmetric]
      unfolding mask unfolding w_def [symmetric] unfolding reg fifo unfolding offs
      using False by simp
  qed
  have nn: "unat (baudrate u) * 1048576 div unat (clk_freq_hz u) = unat n" using n by simp
  show ?thesis
  proof (cases "2 ^ 16 \<le> unat n")
    case True
    then show ?thesis using False fits by (simp add: init nn)
  next
    case small: False
    then have "n = ucast w" "w = of_nat (unat n)" using fits w by auto
    then show ?thesis using False small by (simp only: init nn Let_def power_numeral) (simp add: nn)
  qed
qed

text \<open>\<^verbatim>\<open>uart_init\<close> on every branch: a zero baud rate or clock, and a divisor that does not
  fit its 16-bit field, are rejected before any register is touched; otherwise the eight
  register writes happen in this order, and the control word carries the exact divisor
  \<open>16 * 2^16 * baud / clk\<close> with transmit and receive enabled and parity disabled.\<close>

theorem uart_init_spec:
  "uart_init (Some u) h =
    (let nco = unat (baudrate u) * 2 ^ 20 div unat (clk_freq_hz u);
         r = (\<lambda>off. reg_addr (uart_base u) off)
     in if baudrate u = 0 \<or> clk_freq_hz u = 0 then (kErrorUartInvalidArgument, h)
        else if 2 ^ 16 \<le> nco then (kErrorUartBadBaudRate, h)
        else (kErrorOk, h @ [Wr32 (r 0xc) 0, Wr32 (r 0x1c) 3, Wr32 (r 0x24) 0, Wr32 (r 0x2c) 0,
               Wr32 (r 0x4) 0, Wr32 (r 0x0) 0xFFFFFFFF,
               Wr32 (r 0xc) (push_bit 16 (of_nat nco) OR 3), Wr32 (r 0x4) 0]))"
  by (rule uart_init_trace)

subsection \<open>Sending\<close>

definition uart_wdata_addr :: "uart_t \<Rightarrow> u32" where
  "uart_wdata_addr u = reg_addr (uart_base u) UART_WDATA_REG_OFFSET"

definition uart_status_addr :: "uart_t \<Rightarrow> u32" where
  "uart_status_addr u = reg_addr (uart_base u) UART_STATUS_REG_OFFSET"

text \<open>The bytes handed to the transmitter by a history, oldest first.\<close>

fun uart_sent :: "uart_t \<Rightarrow> hist \<Rightarrow> u8 list" where
  "uart_sent u [] = []"
| "uart_sent u (Wr32 a v # es) =
     (if a = uart_wdata_addr u then ucast v # uart_sent u es else uart_sent u es)"
| "uart_sent u (e # es) = uart_sent u es"

text \<open>
  The transmit protocol: every write to the data register is immediately preceded by a status
  read in which the transmit FIFO was not full. \<open>rdy\<close> says whether the access before the
  history was such a read.
\<close>

fun tx_ready :: "uart_t \<Rightarrow> access \<Rightarrow> bool" where
  "tx_ready u (Rd32 a v) \<longleftrightarrow> a = uart_status_addr u \<and> \<not> bitfield_bit32_read v UART_STATUS_TXFULL_BIT"
| "tx_ready u e \<longleftrightarrow> False"

fun tx_write :: "uart_t \<Rightarrow> access \<Rightarrow> bool" where
  "tx_write u (Wr32 a v) \<longleftrightarrow> a = uart_wdata_addr u"
| "tx_write u e \<longleftrightarrow> False"

fun tx_guarded :: "uart_t \<Rightarrow> bool \<Rightarrow> hist \<Rightarrow> bool" where
  "tx_guarded u rdy [] \<longleftrightarrow> True"
| "tx_guarded u rdy (e # es) \<longleftrightarrow> (tx_write u e \<longrightarrow> rdy) \<and> tx_guarded u (tx_ready u e) es"

lemma uart_sent_append [simp]: "uart_sent u (xs @ ys) = uart_sent u xs @ uart_sent u ys"
proof (induction xs)
  case (Cons e xs)
  then show ?case by (cases e) auto
qed simp

lemma uart_sent_reads [simp]: "uart_sent u (map (Rd32 a) vs) = []"
  by (induction vs) auto

lemma tx_guarded_append:
  "tx_guarded u rdy (xs @ ys) \<longleftrightarrow>
   tx_guarded u rdy xs \<and> tx_guarded u (if xs = [] then rdy else tx_ready u (last xs)) ys"
  by (induction xs arbitrary: rdy) auto

lemma tx_guarded_reads [simp]: "tx_guarded u rdy (map (Rd32 a) vs)"
  by (induction vs arbitrary: rdy) auto

lemma uart_conds:
  "uart_tx_full dev u = reg_cond dev (uart_base u) UART_STATUS_REG_OFFSET
     (\<lambda>v. bitfield_bit32_read v UART_STATUS_TXFULL_BIT)"
  "(\<lambda>g. let (idle, g1) = uart_tx_idle dev u g in (\<not> idle, g1)) =
     reg_cond dev (uart_base u) UART_STATUS_REG_OFFSET (\<lambda>v. \<not> bitfield_bit32_read v UART_STATUS_TXIDLE_BIT)"
  "uart_rx_empty dev u = reg_cond dev (uart_base u) UART_STATUS_REG_OFFSET
     (\<lambda>v. bitfield_bit32_read v UART_STATUS_RXEMPTY_BIT)"
  by (rule ext, simp add: uart_tx_full_def uart_tx_idle_def uart_rx_empty_def reg_cond_def
      case_prod_beta Let_def)+

lemma wdata_field [simp]: "ucast (bitfield_field32_write 0 UART_WDATA_WDATA_FIELD (ucast (b::u8))) = b"
  by (rule bit_word_eqI) (auto simp: bit_field32_write bit_field_bits reg_defs bit_simps)

lemma status_not_wdata [simp]: "uart_status_addr u \<noteq> uart_wdata_addr u"
  by (simp add: uart_status_addr_def uart_wdata_addr_def reg_addr_def reg_defs)

lemma uart_putchar_trace:
  assumes "uart_putchar dev u b h = Some h'"
  obtains vs v ws w where
    "h' = h @ map (Rd32 (uart_status_addr u)) vs @ [Rd32 (uart_status_addr u) v,
       Wr32 (uart_wdata_addr u) (bitfield_field32_write 0 UART_WDATA_WDATA_FIELD (ucast b))] @
       map (Rd32 (uart_status_addr u)) ws @ [Rd32 (uart_status_addr u) w]"
    "\<forall>x\<in>set vs. bitfield_bit32_read x UART_STATUS_TXFULL_BIT" "\<not> bitfield_bit32_read v UART_STATUS_TXFULL_BIT"
    "\<forall>x\<in>set ws. \<not> bitfield_bit32_read x UART_STATUS_TXIDLE_BIT" "bitfield_bit32_read w UART_STATUS_TXIDLE_BIT"
proof -
  obtain h1 where h1: "wait_while (uart_tx_full dev u) h = Some h1"
    and h2: "wait_while (\<lambda>g. let (idle, g1) = uart_tx_idle dev u g in (\<not> idle, g1))
      (mmio_region_write32 (uart_base u) UART_WDATA_REG_OFFSET
        (bitfield_field32_write 0 UART_WDATA_WDATA_FIELD (ucast b)) h1) = Some h'"
    using assms by (auto simp: uart_putchar_def Let_def split: bind_splits)
  show thesis
    using wait_reg_trace [OF h1 [unfolded uart_conds]] wait_reg_trace [OF h2 [unfolded uart_conds]]
    by (auto simp: mmio_region_write32_def uart_status_addr_def uart_wdata_addr_def intro!: that)
qed

lemma uart_putchar_sent:
  assumes "uart_putchar dev u b h = Some h'"
  shows "uart_sent u h' = uart_sent u h @ [b]"
    and "tx_guarded u False h \<Longrightarrow> tx_guarded u False h'"
  by (rule uart_putchar_trace [OF assms], simp,
      rule uart_putchar_trace [OF assms], simp add: tx_guarded_append)

text \<open>The UART is a byte sink; its protocol is kept by every send.\<close>

interpretation uart_out: byte_sink "uart_putchar dev u" "uart_sent u" "tx_guarded u False" for dev u
  by unfold_locales (rule uart_putchar_sent, assumption+)+

lemma uart_write_loop_put_all: "uart_write_loop dev u bs h = put_all (uart_putchar dev u) bs h"
proof (induction bs arbitrary: h)
  case (Cons b bs)
  then have "uart_write_loop dev u bs = put_all (uart_putchar dev u) bs" by blast
  then show ?case by simp
qed simp

lemma uart_write_SomeD:
  "uart_write dev u data h = Some (n, h') \<Longrightarrow> n = length data \<and> put_all (uart_putchar dev u) data h = Some h'"
  by (auto simp: uart_write_def uart_write_loop_put_all split: bind_splits)

text \<open>C7: When \<^verbatim>\<open>uart_write\<close> returns, it reports the full length, exactly the given bytes have
  been handed to the transmitter, in order and once each, and every one of those writes came
  right after a status read that showed room in the transmit FIFO.\<close>

theorem uart_write_correct:
  assumes "uart_write dev u data h = Some (n, h')" and "tx_guarded u False h"
  shows "n = length data \<and> uart_sent u h' = uart_sent u h @ data \<and> tx_guarded u False h'"
  using uart_write_SomeD [OF assms(1)] assms(2)
    uart_out.put_all_sent [of dev u data h h'] uart_out.put_all_ok [of dev u data h h']
  by simp

lemma uart_putchar_returns:
  "(\<exists>h'. uart_putchar dev u b h = Some h') \<longleftrightarrow>
   (\<exists>h1. wait_while (uart_tx_full dev u) h = Some h1 \<and>
      eventually_not dev (uart_base u) UART_STATUS_REG_OFFSET
        (\<lambda>v. \<not> bitfield_bit32_read v UART_STATUS_TXIDLE_BIT)
        (mmio_region_write32 (uart_base u) UART_WDATA_REG_OFFSET
           (bitfield_field32_write 0 UART_WDATA_WDATA_FIELD (ucast b)) h1))"
  unfolding uart_putchar_def uart_conds(2)
  by (simp add: Let_def bind_eq_Some_conv flip: wait_reg_returns_iff) blast

text \<open>A device that always frees its FIFO and always goes idle again lets every write return.\<close>

definition uart_responsive :: "device \<Rightarrow> uart_t \<Rightarrow> bool" where
  "uart_responsive dev u \<longleftrightarrow>
     (\<forall>h. eventually_not dev (uart_base u) UART_STATUS_REG_OFFSET
            (\<lambda>v. bitfield_bit32_read v UART_STATUS_TXFULL_BIT) h \<and>
          eventually_not dev (uart_base u) UART_STATUS_REG_OFFSET
            (\<lambda>v. \<not> bitfield_bit32_read v UART_STATUS_TXIDLE_BIT) h)"

lemma uart_putchar_total:
  assumes "uart_responsive dev u"
  shows "\<exists>h'. uart_putchar dev u b h = Some h'"
proof -
  obtain h1 where "wait_while (uart_tx_full dev u) h = Some h1"
    using assms wait_reg_returns_iff unfolding uart_responsive_def uart_conds(1) by blast
  then show ?thesis using assms unfolding uart_responsive_def uart_putchar_returns by blast
qed

text \<open>\<^verbatim>\<open>uart_putchar\<close> returns exactly when the device, polled, first shows a transmit FIFO
  that is not full and then, after the byte is written, an idle transmitter; otherwise the
  call never returns.\<close>

theorem uart_putchar_returns_iff:
  "(\<exists>h'. uart_putchar dev u b h = Some h') \<longleftrightarrow>
   (\<exists>h1. wait_while (uart_tx_full dev u) h = Some h1 \<and>
      eventually_not dev (uart_base u) UART_STATUS_REG_OFFSET
        (\<lambda>v. \<not> bitfield_bit32_read v UART_STATUS_TXIDLE_BIT)
        (mmio_region_write32 (uart_base u) UART_WDATA_REG_OFFSET
           (bitfield_field32_write 0 UART_WDATA_WDATA_FIELD (ucast b)) h1))"
  by (rule uart_putchar_returns)

lemma uart_write_returns:
  assumes "uart_responsive dev u"
  shows "\<exists>h'. uart_write dev u data h = Some (length data, h')"
proof -
  obtain h1 where "put_all (uart_putchar dev u) data h = Some h1"
    using uart_out.put_all_returns [of dev u data h] uart_putchar_total [OF assms] by blast
  then show ?thesis by (simp add: uart_write_def uart_write_loop_put_all)
qed

lemma uart_responsive_cong: "uart_base u = uart_base v \<Longrightarrow> uart_responsive dev u = uart_responsive dev v"
  by (simp add: uart_responsive_def)

text \<open>With a responsive device \<^verbatim>\<open>uart_write\<close> always returns, with the full length, from
  any history.\<close>

theorem uart_write_total:
  assumes "uart_responsive dev u"
  shows "\<exists>h'. uart_write dev u data h = Some (length data, h')"
  by (rule uart_write_returns [OF assms])

subsection \<open>Receiving\<close>

definition uart_rdata_addr :: "uart_t \<Rightarrow> u32" where
  "uart_rdata_addr u = reg_addr (uart_base u) UART_RDATA_REG_OFFSET"

text \<open>When \<^verbatim>\<open>uart_getchar\<close> returns, it has polled the status until the receive FIFO was
  not empty and then read the data register exactly once; its result is the low byte of that
  one read, and nothing was written.\<close>

theorem uart_getchar_correct:
  assumes "uart_getchar dev u h = Some (n, b, h')"
  shows "n = 1 \<and> (\<exists>vs v r.
      h' = h @ map (Rd32 (uart_status_addr u)) vs @ [Rd32 (uart_status_addr u) v, Rd32 (uart_rdata_addr u) r] \<and>
      (\<forall>x\<in>set vs. bitfield_bit32_read x UART_STATUS_RXEMPTY_BIT) \<and>
      \<not> bitfield_bit32_read v UART_STATUS_RXEMPTY_BIT \<and> b = ucast r)"
proof -
  obtain h1 where w: "wait_while (uart_rx_empty dev u) h = Some h1"
    and r: "n = 1" "(b, h') = uart_rx_fifo_read dev u h1"
    using assms by (auto simp: uart_getchar_def Let_def case_prod_beta split: bind_splits)
  define v where "v = dev32 dev h1 (uart_rdata_addr u)"
  have b: "(ucast (bitfield_field32_read v UART_RDATA_RDATA_FIELD) :: u8) = ucast v"
    by (rule bit_word_eqI) (auto simp: bit_field32_read reg_defs bit_simps)
  have "b = ucast v" "h' = h1 @ [Rd32 (uart_rdata_addr u) v]"
    using r(2) b by (simp_all add: uart_rx_fifo_read_def mmio_region_read32_def Let_def v_def
        uart_rdata_addr_def)
  then show ?thesis
    using r(1) wait_reg_trace [OF w [unfolded uart_conds]] by (auto simp: uart_status_addr_def)
qed

text \<open>A byte count per return: \<^verbatim>\<open>uart_read\<close> yields exactly \<open>len\<close> bytes.\<close>

lemma uart_read_length: "uart_read dev u len h = Some (n, bs, h') \<Longrightarrow> n = len \<and> length bs = len"
proof -
  have "length bs = len" if "uart_read_loop dev u len h = Some (bs, h')" for bs h'
    using that by (induction len arbitrary: bs h h') (auto split: bind_splits)
  then show "uart_read dev u len h = Some (n, bs, h') \<Longrightarrow> n = len \<and> length bs = len"
    by (auto simp: uart_read_def split: bind_splits)
qed

subsection \<open>A concrete device\<close>

text \<open>A UART whose status always shows room, an idle transmitter and a waiting byte.\<close>

definition ready_dev :: device where
  "ready_dev = \<lparr>dev32 = (\<lambda>h a. 0x8), dev8 = (\<lambda>h a. 0)\<rparr>"

lemma uart_responsive_ready: "uart_responsive ready_dev u"
  by (auto simp: uart_responsive_def eventually_not_def ready_dev_def bit32_read_bit reg_defs
      bit_numeral_rec)

definition demo_uart :: uart_t where
  "demo_uart = \<lparr>uart_base = \<lparr>mr_base = 0x200B0000\<rparr>, baudrate = 115200, clk_freq_hz = 20000000\<rparr>"

lemma uart_write_total_witness: "\<exists>h'. uart_write ready_dev demo_uart [72, 105] [] = Some (2, h')"
  using uart_write_total [OF uart_responsive_ready, of demo_uart "[72, 105]" "[]"]
  by (simp add: numeral_eq_Suc)

lemma uart_write_correct_witness:
  "\<exists>h'. uart_write ready_dev demo_uart [72] [] = Some (1, h') \<and> uart_sent demo_uart h' = [72] \<and>
     tx_guarded demo_uart False h'"
proof -
  obtain h1 where "uart_putchar ready_dev demo_uart 72 [] = Some h1"
    using uart_putchar_total [OF uart_responsive_ready] by blast
  then have h: "uart_write ready_dev demo_uart [72] [] = Some (1, h1)" by (simp add: uart_write_def)
  have "tx_guarded demo_uart False []" by simp
  from uart_write_correct [OF h this] h show ?thesis by simp
qed

lemma uart_getchar_correct_witness:
  "\<exists>n b h'. uart_getchar ready_dev demo_uart [] = Some (n, b, h') \<and> n = 1"
proof -
  have "\<exists>h1. wait_while (uart_rx_empty ready_dev demo_uart) [] = Some h1"
    unfolding uart_conds(3) wait_reg_returns_iff eventually_not_def
    by (auto simp: ready_dev_def bit32_read_bit reg_defs bit_numeral_rec)
  then obtain n b h' where g: "uart_getchar ready_dev demo_uart [] = Some (n, b, h')"
    by (fastforce simp: uart_getchar_def case_prod_beta Let_def)
  from uart_getchar_correct [OF g] g show ?thesis by blast
qed

end
