(* ===== verification/Scpi_Fifo.thy ===== *)
theory Scpi_Fifo
  imports Prelude
begin

text \<open>
  The error queue's ring buffer, \<^verbatim>\<open>libscpi/src/fifo.c\<close>. The target is a bare-metal build, so
  an error carries its code only; the operations do not look at the entries and are stated for any. The ring is stated against an interface: a bounded queue seen
  as a list, oldest element first.
\<close>

record scpi_error_t =
  error_code :: int

record 'e scpi_fifo_t =
  fifo_wr :: nat
  fifo_rd :: nat
  fifo_cnt :: nat
  fifo_size :: nat
  fifo_data :: "'e list"

definition fifo_init :: "'e list \<Rightarrow> nat \<Rightarrow> 'e scpi_fifo_t" where
  "fifo_init data sz = \<lparr>fifo_wr = 0, fifo_rd = 0, fifo_cnt = 0, fifo_size = sz, fifo_data = data\<rparr>"

definition fifo_clear :: "'e scpi_fifo_t \<Rightarrow> 'e scpi_fifo_t" where
  "fifo_clear f = f\<lparr>fifo_wr := 0, fifo_rd := 0, fifo_cnt := 0\<rparr>"

definition fifo_is_empty :: "'e scpi_fifo_t \<Rightarrow> bool" where
  "fifo_is_empty f \<longleftrightarrow> fifo_cnt f = 0"

definition fifo_is_full :: "'e scpi_fifo_t \<Rightarrow> bool" where
  "fifo_is_full f \<longleftrightarrow> fifo_cnt f = fifo_size f"

definition fifo_add :: "'e scpi_fifo_t \<Rightarrow> 'e option \<Rightarrow> bool \<times> 'e scpi_fifo_t" where
  "fifo_add f value_ptr =
     (if fifo_is_full f then (False, f)
      else case value_ptr of None \<Rightarrow> (False, f)
        | Some v \<Rightarrow> (True, f\<lparr>fifo_data := (fifo_data f)[fifo_wr f := v],
                           fifo_wr := (fifo_wr f + 1) mod fifo_size f,
                           fifo_cnt := fifo_cnt f + 1\<rparr>))"

text \<open>The output parameter is the cell pointed to, \<open>None\<close> for a null pointer.\<close>

definition fifo_remove :: "'e scpi_fifo_t \<Rightarrow> 'e option \<Rightarrow> bool \<times> 'e option \<times> 'e scpi_fifo_t" where
  "fifo_remove f out =
     (if fifo_is_empty f then (False, out, f)
      else (True, map_option (\<lambda>_. fifo_data f ! fifo_rd f) out,
            f\<lparr>fifo_rd := (fifo_rd f + 1) mod fifo_size f, fifo_cnt := fifo_cnt f - 1\<rparr>))"

definition fifo_remove_last :: "'e scpi_fifo_t \<Rightarrow> 'e option \<Rightarrow> bool \<times> 'e option \<times> 'e scpi_fifo_t" where
  "fifo_remove_last f out =
     (if fifo_is_empty f then (False, out, f)
      else let wr' = (fifo_wr f + fifo_size f - 1) mod fifo_size f
           in (True, map_option (\<lambda>_. fifo_data f ! wr') out,
               f\<lparr>fifo_wr := wr', fifo_cnt := fifo_cnt f - 1\<rparr>))"

definition fifo_count :: "'e scpi_fifo_t \<Rightarrow> nat" where
  "fifo_count f = fifo_cnt f"

subsection \<open>Abstract view\<close>

definition fifo_inv :: "'e scpi_fifo_t \<Rightarrow> bool" where
  "fifo_inv f \<longleftrightarrow> length (fifo_data f) = fifo_size f \<and> 0 < fifo_size f \<and> fifo_rd f < fifo_size f \<and>
     fifo_cnt f \<le> fifo_size f \<and> fifo_wr f = (fifo_rd f + fifo_cnt f) mod fifo_size f"

definition fifo_list :: "'e scpi_fifo_t \<Rightarrow> 'e list" where
  "fifo_list f = map (\<lambda>k. fifo_data f ! ((fifo_rd f + k) mod fifo_size f)) [0..<fifo_cnt f]"

lemma length_fifo_list [simp]: "length (fifo_list f) = fifo_cnt f"
  by (simp add: fifo_list_def)

lemma mod_ring_neq:
  assumes "i < j" "j < (n::nat)"
  shows "(r + i) mod n \<noteq> (r + j) mod n"
proof
  assume "(r + i) mod n = (r + j) mod n"
  then have "n dvd (r + j) - (r + i)" using assms(1) by (metis add_le_mono1 less_imp_le mod_eq_dvd_iff_nat add.commute)
  then have "n dvd j - i" by simp
  then show False using assms by (auto dest: dvd_imp_le)
qed

lemma upt_first: "0 < n \<Longrightarrow> [0..<n] = 0 # map Suc [0..<n - 1]"
  by (cases n) (simp_all add: map_Suc_upt upt_conv_Cons del: upt_Suc)

lemma upt_last: "0 < n \<Longrightarrow> [0..<n] = [0..<n - 1] @ [n - 1]"
  by (cases n) simp_all

lemma fifo_init_inv: "0 < n \<Longrightarrow> length data = n \<Longrightarrow> fifo_inv (fifo_init data n)"
  by (simp add: fifo_init_def fifo_inv_def)

lemma fifo_init_list [simp]: "fifo_list (fifo_init data n) = []"
  by (simp add: fifo_init_def fifo_list_def)

lemma fifo_clear_ok: "fifo_inv f \<Longrightarrow> fifo_inv (fifo_clear f) \<and> fifo_list (fifo_clear f) = []"
  by (simp add: fifo_clear_def fifo_inv_def fifo_list_def)

lemma fifo_add_full: "fifo_cnt f = fifo_size f \<Longrightarrow> fifo_add f v = (False, f)"
  by (simp add: fifo_add_def fifo_is_full_def)

lemma fifo_add_room:
  assumes "fifo_inv f" "fifo_cnt f < fifo_size f"
  shows "fst (fifo_add f (Some v))" "fifo_inv (snd (fifo_add f (Some v)))"
    "fifo_list (snd (fifo_add f (Some v))) = fifo_list f @ [v]"
    "fifo_size (snd (fifo_add f (Some v))) = fifo_size f"
proof -
  have inv: "length (fifo_data f) = fifo_size f" "0 < fifo_size f" "fifo_wr f = (fifo_rd f + fifo_cnt f) mod fifo_size f"
    using assms by (auto simp: fifo_inv_def)
  show "fst (fifo_add f (Some v))" "fifo_size (snd (fifo_add f (Some v))) = fifo_size f"
    using assms by (simp_all add: fifo_add_def fifo_is_full_def)
  show "fifo_inv (snd (fifo_add f (Some v)))"
    using assms by (auto simp: fifo_add_def fifo_is_full_def fifo_inv_def mod_simps)
  have "fifo_wr f < fifo_size f" using inv by simp
  moreover have "fifo_wr f \<noteq> (fifo_rd f + k) mod fifo_size f" if "k < fifo_cnt f" for k
    using mod_ring_neq [OF that assms(2), of "fifo_rd f"] inv by metis
  ultimately have "map (\<lambda>k. (fifo_data f)[fifo_wr f := v] ! ((fifo_rd f + k) mod fifo_size f)) [0..<fifo_cnt f]
      = fifo_list f" "(fifo_data f)[fifo_wr f := v] ! ((fifo_rd f + fifo_cnt f) mod fifo_size f) = v"
    using inv(1,2) by (auto simp: fifo_list_def simp flip: inv(3))
  then show "fifo_list (snd (fifo_add f (Some v))) = fifo_list f @ [v]"
    using assms by (simp add: fifo_add_def fifo_is_full_def) (simp add: fifo_list_def)
qed

lemma fifo_remove_ok:
  assumes "fifo_inv f" "fifo_list f = x # xs"
  shows "fst (fifo_remove f out)" "fst (snd (fifo_remove f out)) = map_option (\<lambda>_. x) out"
    "fifo_inv (snd (snd (fifo_remove f out)))" "fifo_list (snd (snd (fifo_remove f out))) = xs"
    "fifo_size (snd (snd (fifo_remove f out))) = fifo_size f"
proof -
  have cnt: "0 < fifo_cnt f" using assms(2) length_fifo_list [of f] by simp
  then have ne: "\<not> fifo_is_empty f" by (simp add: fifo_is_empty_def)
  show "fst (fifo_remove f out)" "fifo_size (snd (snd (fifo_remove f out))) = fifo_size f"
    using ne by (simp_all add: fifo_remove_def)
  show "fifo_inv (snd (snd (fifo_remove f out)))"
  proof -
    obtain c where "fifo_cnt f = Suc c" using cnt by (cases "fifo_cnt f") auto
    then show ?thesis using ne assms(1) by (auto simp: fifo_remove_def fifo_inv_def mod_simps)
  qed
  have up: "[0..<fifo_cnt f] = 0 # map Suc [0..<fifo_cnt f - 1]"
    using cnt by (rule upt_first)
  have l: "fifo_list f = fifo_data f ! (fifo_rd f mod fifo_size f) #
      map (\<lambda>k. fifo_data f ! ((fifo_rd f + Suc k) mod fifo_size f)) [0..<fifo_cnt f - 1]"
    by (simp add: fifo_list_def up)
  show "fst (snd (fifo_remove f out)) = map_option (\<lambda>_. x) out"
    using ne l assms by (cases out) (auto simp: fifo_remove_def fifo_inv_def)
  show "fifo_list (snd (snd (fifo_remove f out))) = xs"
    using ne l assms(2) by (auto simp: fifo_remove_def) (simp add: fifo_list_def mod_simps)
qed

lemma fifo_remove_last_ok:
  assumes "fifo_inv f" "fifo_list f \<noteq> []"
  shows "fst (fifo_remove_last f out)" "fst (snd (fifo_remove_last f out)) = map_option (\<lambda>_. last (fifo_list f)) out"
    "fifo_inv (snd (snd (fifo_remove_last f out)))"
    "fifo_list (snd (snd (fifo_remove_last f out))) = butlast (fifo_list f)"
    "fifo_size (snd (snd (fifo_remove_last f out))) = fifo_size f"
proof -
  have cnt: "0 < fifo_cnt f" using assms(2) by (cases "fifo_cnt f") (auto simp: fifo_list_def)
  then have ne: "\<not> fifo_is_empty f" by (simp add: fifo_is_empty_def)
  have inv: "0 < fifo_size f" "fifo_wr f = (fifo_rd f + fifo_cnt f) mod fifo_size f"
    using assms by (auto simp: fifo_inv_def)
  have wr: "(fifo_wr f + fifo_size f - 1) mod fifo_size f = (fifo_rd f + (fifo_cnt f - 1)) mod fifo_size f"
  proof -
    have "(fifo_wr f + fifo_size f - 1) mod fifo_size f = (fifo_wr f + (fifo_size f - 1)) mod fifo_size f"
      using inv(1) by (simp add: Nat.add_diff_assoc Suc_leI)
    also have "\<dots> = (fifo_rd f + fifo_cnt f + (fifo_size f - 1)) mod fifo_size f"
      unfolding inv(2) by (simp add: mod_simps)
    also have "fifo_rd f + fifo_cnt f + (fifo_size f - 1) = fifo_rd f + (fifo_cnt f - 1) + fifo_size f"
      using cnt inv(1) by simp
    finally show ?thesis by simp
  qed
  have up: "[0..<fifo_cnt f] = [0..<fifo_cnt f - 1] @ [fifo_cnt f - 1]"
    using cnt by (rule upt_last)
  have l: "fifo_list f = map (\<lambda>k. fifo_data f ! ((fifo_rd f + k) mod fifo_size f)) [0..<fifo_cnt f - 1] @
      [fifo_data f ! ((fifo_rd f + (fifo_cnt f - 1)) mod fifo_size f)]"
    by (simp add: fifo_list_def up)
  show "fst (fifo_remove_last f out)" "fifo_size (snd (snd (fifo_remove_last f out))) = fifo_size f"
    using ne by (simp_all add: fifo_remove_last_def Let_def)
  show "fst (snd (fifo_remove_last f out)) = map_option (\<lambda>_. last (fifo_list f)) out"
    using ne by (cases out) (simp_all add: fifo_remove_last_def Let_def wr [unfolded One_nat_def] l)
  show "fifo_inv (snd (snd (fifo_remove_last f out)))"
    using ne cnt assms(1) by (simp add: fifo_remove_last_def Let_def wr [unfolded One_nat_def]) (auto simp: fifo_inv_def)
  show "fifo_list (snd (snd (fifo_remove_last f out))) = butlast (fifo_list f)"
    using ne by (simp add: fifo_remove_last_def Let_def l) (simp add: fifo_list_def)
qed

subsection \<open>The queue interface\<close>

text \<open>
  What the error module relies on: appending at the back while there is room and refusing
  otherwise, dropping the newest element, and the two ends of the list view.
\<close>

locale bounded_queue =
  fixes add :: "'q \<Rightarrow> 'e \<Rightarrow> bool \<times> 'q" and drop_last :: "'q \<Rightarrow> 'q"
    and take_first :: "'q \<Rightarrow> 'e option \<times> 'q"
    and items :: "'q \<Rightarrow> 'e list" and cap :: "'q \<Rightarrow> nat" and inv :: "'q \<Rightarrow> bool"
  assumes add_room: "inv q \<Longrightarrow> length (items q) < cap q \<Longrightarrow>
      fst (add q e) \<and> inv (snd (add q e)) \<and> items (snd (add q e)) = items q @ [e] \<and> cap (snd (add q e)) = cap q"
    and add_full: "inv q \<Longrightarrow> length (items q) = cap q \<Longrightarrow> add q e = (False, q)"
    and drop_last: "inv q \<Longrightarrow> items q \<noteq> [] \<Longrightarrow>
      inv (drop_last q) \<and> items (drop_last q) = butlast (items q) \<and> cap (drop_last q) = cap q"
    and take_first: "inv q \<Longrightarrow> items q = x # xs \<Longrightarrow>
      fst (take_first q) = Some x \<and> inv (snd (take_first q)) \<and> items (snd (take_first q)) = xs \<and>
      cap (snd (take_first q)) = cap q"
    and bounded: "inv q \<Longrightarrow> length (items q) \<le> cap q \<and> 0 < cap q"
begin

text \<open>Adding with the overflow policy: a full queue loses its newest entry to a marker.\<close>

lemma add_or_mark:
  assumes "inv q"
  shows "let q' = (if fst (add q e) then snd (add q e) else snd (add (drop_last q) mark))
         in inv q' \<and> cap q' = cap q \<and>
            items q' = (if length (items q) < cap q then items q @ [e] else butlast (items q) @ [mark])"
proof (cases "length (items q) < cap q")
  case True
  then show ?thesis using add_room [OF assms] by simp
next
  case False
  then have full: "length (items q) = cap q" and ne: "items q \<noteq> []"
    using bounded [OF assms] by auto
  have d: "inv (drop_last q)" "items (drop_last q) = butlast (items q)" "cap (drop_last q) = cap q"
    using drop_last [OF assms ne] by auto
  have "length (items (drop_last q)) < cap (drop_last q)"
    using d full ne by (cases "items q") auto
  then show ?thesis using add_room [OF d(1)] add_full [OF assms full] d full by simp
qed

end

interpretation ring: bounded_queue "\<lambda>f e. fifo_add f (Some e)" "\<lambda>f. snd (snd (fifo_remove_last f out))"
    "\<lambda>f. (fst (snd (fifo_remove f (Some dummy))), snd (snd (fifo_remove f (Some dummy))))"
    fifo_list fifo_size fifo_inv
  for out dummy
proof unfold_locales
  fix q e assume "fifo_inv q" "length (fifo_list q) < fifo_size q"
  then show "fst (fifo_add q (Some e)) \<and> fifo_inv (snd (fifo_add q (Some e))) \<and>
      fifo_list (snd (fifo_add q (Some e))) = fifo_list q @ [e] \<and>
      fifo_size (snd (fifo_add q (Some e))) = fifo_size q"
    using fifo_add_room [of q e] by simp
next
  fix q assume "fifo_inv q"
  then show "length (fifo_list q) \<le> fifo_size q \<and> 0 < fifo_size q" by (simp add: fifo_inv_def)
qed (auto simp: fifo_add_full fifo_remove_last_ok fifo_remove_ok)

end
