(* ===== verification/Scpi_Types.thy ===== *)
theory Scpi_Types
  imports Scpi_Fifo
begin

text \<open>
  The data types of the SCPI library (\<^verbatim>\<open>libscpi/inc/scpi/types.h\<close>). Pointers into the input
  buffer are indices into it. The interface of the context is a structure of function pointers;
  the model keeps which of them are set and records the calls made through them, in order, as
  events, so that the application can give them a meaning. Two further events are for the callbacks of
  an application: text it prints through the C library, and effects on its own state, which it numbers.
\<close>

datatype scpi_reg_name_t =
    SCPI_REG_STB | SCPI_REG_SRE | SCPI_REG_ESR | SCPI_REG_ESE | SCPI_REG_OPER | SCPI_REG_OPERE
  | SCPI_REG_OPERC | SCPI_REG_QUES | SCPI_REG_QUESE | SCPI_REG_QUESC | SCPI_REG_NONE

datatype scpi_reg_class_t =
    SCPI_REG_CLASS_STB | SCPI_REG_CLASS_SRE | SCPI_REG_CLASS_EVEN | SCPI_REG_CLASS_ENAB
  | SCPI_REG_CLASS_COND | SCPI_REG_CLASS_NTR | SCPI_REG_CLASS_PTR

datatype scpi_reg_group_t =
  SCPI_REG_GROUP_STB | SCPI_REG_GROUP_ESR | SCPI_REG_GROUP_OPER | SCPI_REG_GROUP_QUES

record scpi_reg_group_info_t =
  rg_event :: scpi_reg_name_t
  rg_enable :: scpi_reg_name_t
  rg_condition :: scpi_reg_name_t
  rg_ptfilt :: scpi_reg_name_t
  rg_ntfilt :: scpi_reg_name_t
  rg_parent_reg :: scpi_reg_name_t
  rg_parent_bit :: u16

datatype scpi_token_type_t =
    SCPI_TOKEN_COMMA | SCPI_TOKEN_SEMICOLON | SCPI_TOKEN_COLON | SCPI_TOKEN_SPECIFIC_CHARACTER
  | SCPI_TOKEN_QUESTION | SCPI_TOKEN_NL | SCPI_TOKEN_HEXNUM | SCPI_TOKEN_OCTNUM | SCPI_TOKEN_BINNUM
  | SCPI_TOKEN_PROGRAM_MNEMONIC | SCPI_TOKEN_DECIMAL_NUMERIC_PROGRAM_DATA
  | SCPI_TOKEN_DECIMAL_NUMERIC_PROGRAM_DATA_WITH_SUFFIX | SCPI_TOKEN_SUFFIX_PROGRAM_DATA
  | SCPI_TOKEN_ARBITRARY_BLOCK_PROGRAM_DATA | SCPI_TOKEN_SINGLE_QUOTE_PROGRAM_DATA
  | SCPI_TOKEN_DOUBLE_QUOTE_PROGRAM_DATA | SCPI_TOKEN_PROGRAM_EXPRESSION
  | SCPI_TOKEN_COMPOUND_PROGRAM_HEADER | SCPI_TOKEN_INCOMPLETE_COMPOUND_PROGRAM_HEADER
  | SCPI_TOKEN_COMMON_PROGRAM_HEADER | SCPI_TOKEN_INCOMPLETE_COMMON_PROGRAM_HEADER
  | SCPI_TOKEN_COMPOUND_QUERY_PROGRAM_HEADER | SCPI_TOKEN_COMMON_QUERY_PROGRAM_HEADER
  | SCPI_TOKEN_WS | SCPI_TOKEN_ALL_PROGRAM_DATA | SCPI_TOKEN_INVALID | SCPI_TOKEN_UNKNOWN

record scpi_token_t =
  tok_type :: scpi_token_type_t
  tok_ptr :: "nat option"
  tok_len :: nat

record lex_state_t =
  lex_buffer :: nat
  lex_pos :: nat
  lex_len :: nat

datatype message_termination_t =
  SCPI_MESSAGE_TERMINATION_NONE | SCPI_MESSAGE_TERMINATION_NL | SCPI_MESSAGE_TERMINATION_SEMICOLON

record scpi_parser_state_t =
  programHeader :: scpi_token_t
  programData :: scpi_token_t
  numberOfParameters :: int
  msg_termination :: message_termination_t

record scpi_interface_t =
  has_error :: bool
  has_control :: bool
  has_flush :: bool
  has_reset :: bool

datatype scpi_event = EvWrite string | EvError int | EvControl u16 | EvFlush | EvPrint string | EvUser nat

record scpi_t =
  buf_data :: string
  buf_length :: nat
  buf_position :: nat
  param_cmd :: "nat option"
  param_lex :: lex_state_t
  cmd_raw_data :: nat
  cmd_raw_length :: nat
  interface :: scpi_interface_t
  output_count :: int
  input_count :: int
  first_output :: bool
  cmd_error :: bool
  error_queue :: "scpi_error_t scpi_fifo_t"
  registers :: "scpi_reg_name_t \<Rightarrow> u16"
  parser_state :: scpi_parser_state_t
  idn :: "string option list"
  arbitrary_remaining :: nat
  events :: "scpi_event list"

definition emit :: "scpi_event \<Rightarrow> scpi_t \<Rightarrow> scpi_t" where
  "emit e ctx = ctx\<lparr>events := events ctx @ [e]\<rparr>"


end
