(* ===== verification/Scpi_Status.thy ===== *)
theory Scpi_Status
  imports Scpi_Types
begin

text \<open>
  The IEEE 488.2 status registers, \<^verbatim>\<open>libscpi/src/ieee488.c\<close>: setting a register and the
  summaries it feeds, and the invariant that ties the service request bit to the registers.
\<close>

subsection \<open>Status registers\<close>

definition STB_QMA :: u16 where [reg_defs]: "STB_QMA = 0x04"
definition STB_QES :: u16 where [reg_defs]: "STB_QES = 0x08"
definition STB_ESR :: u16 where [reg_defs]: "STB_ESR = 0x20"
definition STB_SRQ :: u16 where [reg_defs]: "STB_SRQ = 0x40"
definition STB_OPS :: u16 where [reg_defs]: "STB_OPS = 0x80"
definition ESR_OPC :: u16 where [reg_defs]: "ESR_OPC = 0x01"
definition ESR_REQ :: u16 where [reg_defs]: "ESR_REQ = 0x02"
definition ESR_QER :: u16 where [reg_defs]: "ESR_QER = 0x04"
definition ESR_DER :: u16 where [reg_defs]: "ESR_DER = 0x08"
definition ESR_EER :: u16 where [reg_defs]: "ESR_EER = 0x10"
definition ESR_CER :: u16 where [reg_defs]: "ESR_CER = 0x20"
definition ESR_URQ :: u16 where [reg_defs]: "ESR_URQ = 0x40"
definition ESR_PON :: u16 where [reg_defs]: "ESR_PON = 0x80"

fun scpi_reg_details :: "scpi_reg_name_t \<Rightarrow> scpi_reg_class_t \<times> scpi_reg_group_t" where
  "scpi_reg_details SCPI_REG_STB = (SCPI_REG_CLASS_STB, SCPI_REG_GROUP_STB)"
| "scpi_reg_details SCPI_REG_SRE = (SCPI_REG_CLASS_SRE, SCPI_REG_GROUP_STB)"
| "scpi_reg_details SCPI_REG_ESR = (SCPI_REG_CLASS_EVEN, SCPI_REG_GROUP_ESR)"
| "scpi_reg_details SCPI_REG_ESE = (SCPI_REG_CLASS_ENAB, SCPI_REG_GROUP_ESR)"
| "scpi_reg_details SCPI_REG_OPER = (SCPI_REG_CLASS_EVEN, SCPI_REG_GROUP_OPER)"
| "scpi_reg_details SCPI_REG_OPERE = (SCPI_REG_CLASS_ENAB, SCPI_REG_GROUP_OPER)"
| "scpi_reg_details SCPI_REG_OPERC = (SCPI_REG_CLASS_COND, SCPI_REG_GROUP_OPER)"
| "scpi_reg_details SCPI_REG_QUES = (SCPI_REG_CLASS_EVEN, SCPI_REG_GROUP_QUES)"
| "scpi_reg_details SCPI_REG_QUESE = (SCPI_REG_CLASS_ENAB, SCPI_REG_GROUP_QUES)"
| "scpi_reg_details SCPI_REG_QUESC = (SCPI_REG_CLASS_COND, SCPI_REG_GROUP_QUES)"
| "scpi_reg_details SCPI_REG_NONE = (SCPI_REG_CLASS_ENAB, SCPI_REG_GROUP_STB)"

fun scpi_reg_group_details :: "scpi_reg_group_t \<Rightarrow> scpi_reg_group_info_t" where
  "scpi_reg_group_details SCPI_REG_GROUP_STB =
     \<lparr>rg_event = SCPI_REG_STB, rg_enable = SCPI_REG_SRE, rg_condition = SCPI_REG_NONE,
      rg_ptfilt = SCPI_REG_NONE, rg_ntfilt = SCPI_REG_NONE, rg_parent_reg = SCPI_REG_NONE, rg_parent_bit = 0\<rparr>"
| "scpi_reg_group_details SCPI_REG_GROUP_ESR =
     \<lparr>rg_event = SCPI_REG_ESR, rg_enable = SCPI_REG_ESE, rg_condition = SCPI_REG_NONE,
      rg_ptfilt = SCPI_REG_NONE, rg_ntfilt = SCPI_REG_NONE, rg_parent_reg = SCPI_REG_STB, rg_parent_bit = STB_ESR\<rparr>"
| "scpi_reg_group_details SCPI_REG_GROUP_OPER =
     \<lparr>rg_event = SCPI_REG_OPER, rg_enable = SCPI_REG_OPERE, rg_condition = SCPI_REG_OPERC,
      rg_ptfilt = SCPI_REG_NONE, rg_ntfilt = SCPI_REG_NONE, rg_parent_reg = SCPI_REG_STB, rg_parent_bit = STB_OPS\<rparr>"
| "scpi_reg_group_details SCPI_REG_GROUP_QUES =
     \<lparr>rg_event = SCPI_REG_QUES, rg_enable = SCPI_REG_QUESE, rg_condition = SCPI_REG_QUESC,
      rg_ptfilt = SCPI_REG_NONE, rg_ntfilt = SCPI_REG_NONE, rg_parent_reg = SCPI_REG_STB, rg_parent_bit = STB_QES\<rparr>"

definition reg_type :: "scpi_reg_name_t \<Rightarrow> scpi_reg_class_t" where
  "reg_type name = fst (scpi_reg_details name)"

definition reg_group :: "scpi_reg_name_t \<Rightarrow> scpi_reg_group_info_t" where
  "reg_group name = scpi_reg_group_details (snd (scpi_reg_details name))"

definition SCPI_RegGet :: "scpi_t \<Rightarrow> scpi_reg_name_t \<Rightarrow> u16" where
  "SCPI_RegGet ctx name = (if name \<noteq> SCPI_REG_NONE then registers ctx name else 0)"

definition reg_put :: "scpi_reg_name_t \<Rightarrow> u16 \<Rightarrow> scpi_t \<Rightarrow> scpi_t" where
  "reg_put name val ctx = ctx\<lparr>registers := (registers ctx)(name := val)\<rparr>"

definition writeControl :: "u16 \<Rightarrow> scpi_t \<Rightarrow> scpi_t" where
  "writeControl val ctx = (if has_control (interface ctx) then emit (EvControl val) ctx else ctx)"

text \<open>The branch of the status byte and the service request enable register.\<close>

definition update_srq :: "u16 \<Rightarrow> u16 \<Rightarrow> scpi_t \<Rightarrow> scpi_t" where
  "update_srq old_val val ctx =
     (let stb = registers ctx SCPI_REG_STB AND NOT STB_SRQ;
          sre = registers ctx SCPI_REG_SRE AND NOT STB_SRQ
      in if stb AND sre \<noteq> 0
         then let ptrans = (old_val XOR val) AND val;
                  ctx1 = reg_put SCPI_REG_STB (registers ctx SCPI_REG_STB OR STB_SRQ) ctx
              in if ptrans AND val \<noteq> 0 then writeControl (registers ctx1 SCPI_REG_STB) ctx1 else ctx1
         else reg_put SCPI_REG_STB (registers ctx SCPI_REG_STB AND NOT STB_SRQ) ctx)"

text \<open>
  One register is set, then the summary it feeds, until a group without parent is reached: from
  a condition register to its event register to the status byte.
\<close>

fun reg_rank :: "scpi_reg_class_t \<Rightarrow> nat" where
  "reg_rank SCPI_REG_CLASS_COND = 2"
| "reg_rank SCPI_REG_CLASS_EVEN = 1"
| "reg_rank _ = 0"

function SCPI_RegSet :: "scpi_t \<Rightarrow> scpi_reg_name_t \<Rightarrow> u16 \<Rightarrow> scpi_t" where
  "SCPI_RegSet ctx name val =
     (if name = SCPI_REG_NONE then ctx
      else let register_group = reg_group name; old_val = registers ctx name
           in if old_val = val then ctx
              else let ctx1 = reg_put name val ctx
                   in case reg_type name of
                        SCPI_REG_CLASS_STB \<Rightarrow> update_srq old_val val ctx1
                      | SCPI_REG_CLASS_SRE \<Rightarrow> update_srq old_val val ctx1
                      | SCPI_REG_CLASS_EVEN \<Rightarrow>
                          let enable = (if rg_enable register_group \<noteq> SCPI_REG_NONE
                                        then SCPI_RegGet ctx1 (rg_enable register_group) else 0xFFFF);
                              pval = SCPI_RegGet ctx1 (rg_parent_reg register_group);
                              pval = (if val AND enable \<noteq> 0 then pval OR rg_parent_bit register_group
                                      else pval AND NOT (rg_parent_bit register_group))
                          in SCPI_RegSet ctx1 (rg_parent_reg register_group) pval
                      | SCPI_REG_CLASS_COND \<Rightarrow>
                          let event_val = SCPI_RegGet ctx1 (rg_event register_group);
                              transitions = old_val XOR val;
                              ptrans = transitions AND val;
                              ntrans = transitions AND NOT ptrans;
                              ptfilt = (if rg_ptfilt register_group \<noteq> SCPI_REG_NONE
                                        then SCPI_RegGet ctx1 (rg_ptfilt register_group) else 0);
                              ntfilt = (if rg_ntfilt register_group \<noteq> SCPI_REG_NONE
                                        then SCPI_RegGet ctx1 (rg_ntfilt register_group) else 0)
                          in SCPI_RegSet ctx1 (rg_event register_group)
                               (if rg_ptfilt register_group = SCPI_REG_NONE \<and> rg_ntfilt register_group = SCPI_REG_NONE
                                then ptrans OR event_val
                                else ((ptrans AND ptfilt) OR (ntrans AND ntfilt)) OR event_val)
                      | _ \<Rightarrow> ctx1)"
  by pat_completeness auto
termination
proof (relation "measure (\<lambda>(ctx, name, val). reg_rank (reg_type name))", goal_cases)
  case (2 ctx name val rg old ctx1 enable pval pval')
  then show ?case by (cases name) (simp_all add: reg_type_def reg_group_def)
next
  case (3 ctx name val)
  then show ?case by (cases name) (simp_all add: reg_type_def reg_group_def)
qed simp

declare SCPI_RegSet.simps [simp del]

definition SCPI_RegSetBits :: "scpi_t \<Rightarrow> scpi_reg_name_t \<Rightarrow> u16 \<Rightarrow> scpi_t" where
  "SCPI_RegSetBits ctx name bits = SCPI_RegSet ctx name (SCPI_RegGet ctx name OR bits)"

definition SCPI_RegClearBits :: "scpi_t \<Rightarrow> scpi_reg_name_t \<Rightarrow> u16 \<Rightarrow> scpi_t" where
  "SCPI_RegClearBits ctx name bits = SCPI_RegSet ctx name (SCPI_RegGet ctx name AND NOT bits)"

subsection \<open>What setting a register changes\<close>

text \<open>Only the registers and the event log of the context change.\<close>

definition same_but_regs :: "scpi_t \<Rightarrow> scpi_t \<Rightarrow> bool" where
  "same_but_regs c d \<longleftrightarrow> c\<lparr>registers := registers d, events := events d\<rparr> = d"

lemma same_but_regs_refl [simp]: "same_but_regs c c"
  by (simp add: same_but_regs_def)

lemma same_but_regs_trans: "same_but_regs a b \<Longrightarrow> same_but_regs b c \<Longrightarrow> same_but_regs a c"
  by (cases a; cases b; cases c) (simp add: same_but_regs_def)

lemma same_but_regsD:
  assumes "same_but_regs c d"
  shows "error_queue d = error_queue c" "cmd_error d = cmd_error c" "buf_data d = buf_data c"
    "buf_length d = buf_length c" "buf_position d = buf_position c" "parser_state d = parser_state c"
    "interface d = interface c" "output_count d = output_count c" "first_output d = first_output c"
    "input_count d = input_count c" "param_lex d = param_lex c" "arbitrary_remaining d = arbitrary_remaining c"
    "param_cmd d = param_cmd c" "cmd_raw_data d = cmd_raw_data c" "cmd_raw_length d = cmd_raw_length c"
    "idn d = idn c"
  using assms by (cases c; cases d; simp add: same_but_regs_def)+

lemma same_but_regs_put [simp]: "same_but_regs c (reg_put n v d) = same_but_regs c d"
  by (cases c; cases d) (simp add: same_but_regs_def reg_put_def)

lemma same_but_regs_emit [simp]: "same_but_regs c (emit e d) = same_but_regs c d"
  by (cases c; cases d) (simp add: same_but_regs_def emit_def)

lemma same_but_regs_update_srq [simp]: "same_but_regs c (update_srq ov v d) = same_but_regs c d"
  by (simp add: update_srq_def writeControl_def Let_def)

lemma RegSet_frame: "same_but_regs ctx (SCPI_RegSet ctx name val)"
proof (induction ctx name val rule: SCPI_RegSet.induct)
  case (1 ctx name val)
  show ?case
  proof (cases "name = SCPI_REG_NONE \<or> registers ctx name = val")
    case True
    then show ?thesis by (subst SCPI_RegSet.simps) (auto simp: Let_def)
  next
    case False
    have put: "same_but_regs ctx d" if "same_but_regs (reg_put name val ctx) d" for d
      using same_but_regs_trans [OF _ that, of ctx] by simp
    show ?thesis
      using False 1
      by (subst SCPI_RegSet.simps) (auto simp: Let_def intro: put split: scpi_reg_class_t.split)
  qed
qed

lemmas RegSet_fields [simp] = same_but_regsD [OF RegSet_frame]

lemma RegBits_frame:
  "same_but_regs ctx (SCPI_RegSetBits ctx n b)" "same_but_regs ctx (SCPI_RegClearBits ctx n b)"
  by (simp_all add: SCPI_RegSetBits_def SCPI_RegClearBits_def RegSet_frame)

lemmas RegBits_fields [simp] = same_but_regsD [OF RegBits_frame(1)] same_but_regsD [OF RegBits_frame(2)]

lemma emit_fields [simp]:
  "error_queue (emit e c) = error_queue c" "registers (emit e c) = registers c"
  "cmd_error (emit e c) = cmd_error c" "interface (emit e c) = interface c"
  "events (emit e c) = events c @ [e]" "buf_data (emit e c) = buf_data c"
  "buf_length (emit e c) = buf_length c" "buf_position (emit e c) = buf_position c"
  "parser_state (emit e c) = parser_state c" "param_lex (emit e c) = param_lex c"
  by (simp_all add: emit_def)

lemma registers_reg_put [simp]: "registers (reg_put n v c) = (registers c)(n := v)"
  by (simp add: reg_put_def)

lemma update_srq_regs:
  "registers (update_srq ov v c) = (registers c)(SCPI_REG_STB :=
     (if (registers c SCPI_REG_STB AND NOT STB_SRQ) AND (registers c SCPI_REG_SRE AND NOT STB_SRQ) \<noteq> 0
      then registers c SCPI_REG_STB OR STB_SRQ else registers c SCPI_REG_STB AND NOT STB_SRQ))"
  by (simp add: update_srq_def writeControl_def Let_def)

subsection \<open>The service request invariant\<close>

text \<open>
  The request bit of the status byte is set exactly when some other bit is both set in the
  status byte and enabled in the service request enable register.
\<close>

definition srq_ok :: "scpi_t \<Rightarrow> bool" where
  "srq_ok ctx \<longleftrightarrow> (registers ctx SCPI_REG_STB AND STB_SRQ \<noteq> 0) =
     ((registers ctx SCPI_REG_STB AND NOT STB_SRQ) AND (registers ctx SCPI_REG_SRE AND NOT STB_SRQ) \<noteq> 0)"

lemma bit_STB_SRQ: "bit STB_SRQ n \<longleftrightarrow> n = 6"
proof -
  have e: "STB_SRQ = push_bit 6 1" by (simp add: reg_defs)
  show ?thesis unfolding e bit_push_bit_iff bit_1_iff by auto
qed

lemma srq_mask [simp]:
  "(w OR STB_SRQ) AND STB_SRQ = STB_SRQ" "(w AND NOT STB_SRQ) AND STB_SRQ = 0"
  "(w OR STB_SRQ) AND NOT STB_SRQ = w AND NOT STB_SRQ" "(w AND NOT STB_SRQ) AND NOT STB_SRQ = w AND NOT STB_SRQ"
  for w :: u16
  by (rule bit_word_eqI, auto simp: bit_simps bit_STB_SRQ)+

lemma STB_SRQ_nonzero [simp]: "STB_SRQ \<noteq> 0"
  by (simp add: reg_defs)

lemma srq_ok_update: "srq_ok (update_srq ov v c)"
  by (simp add: srq_ok_def update_srq_regs)

lemma srq_ok_put_other:
  "n \<noteq> SCPI_REG_STB \<Longrightarrow> n \<noteq> SCPI_REG_SRE \<Longrightarrow> srq_ok (reg_put n v c) = srq_ok c"
  by (simp add: srq_ok_def)

lemma srq_ok_RegSet: "srq_ok c \<Longrightarrow> srq_ok (SCPI_RegSet c r v)"
proof (induction c r v rule: SCPI_RegSet.induct)
  case (1 ctx name val)
  show ?case
  proof (cases "name = SCPI_REG_NONE \<or> registers ctx name = val")
    case True
    then show ?thesis using 1 by (subst SCPI_RegSet.simps) (auto simp: Let_def)
  next
    case False
    have other: "srq_ok (reg_put name val ctx)" if "reg_type name \<noteq> SCPI_REG_CLASS_STB" "reg_type name \<noteq> SCPI_REG_CLASS_SRE"
      using 1 that by (cases name) (auto simp: reg_type_def srq_ok_put_other)
    show ?thesis
      using False 1 other
      by (subst SCPI_RegSet.simps) (cases "reg_type name"; simp add: Let_def srq_ok_update)
  qed
qed

end
