(* ===== verification/Scpi_Error.thy ===== *)
theory Scpi_Error
  imports Scpi_Status
begin

text \<open>
  The error queue (\<^verbatim>\<open>libscpi/src/error.c\<close>) and the common commands that touch only the
  registers (\<^verbatim>\<open>libscpi/src/ieee488.c\<close>, \<^verbatim>\<open>libscpi/src/minimal.c\<close>). The lemmas show what pushing and
  popping do to the queue, the registers and the application, and that every operation keeps the
  status byte consistent with the queue.
\<close>

subsection \<open>The error queue\<close>

abbreviation "SCPI_ERROR_INVALID_CHARACTER \<equiv> - 101 :: int"
abbreviation "SCPI_ERROR_PARAMETER_NOT_ALLOWED \<equiv> - 108 :: int"
abbreviation "SCPI_ERROR_MISSING_PARAMETER \<equiv> - 109 :: int"
abbreviation "SCPI_ERROR_UNDEFINED_HEADER \<equiv> - 113 :: int"
abbreviation "SCPI_ERROR_EXECUTION_ERROR \<equiv> - 200 :: int"
abbreviation "SCPI_ERROR_QUEUE_OVERFLOW \<equiv> - 350 :: int"
abbreviation "SCPI_ERROR_INPUT_BUFFER_OVERRUN \<equiv> - 363 :: int"

definition SCPI_ErrorInit :: "scpi_t \<Rightarrow> scpi_error_t list \<Rightarrow> nat \<Rightarrow> scpi_t" where
  "SCPI_ErrorInit ctx data sz = ctx\<lparr>error_queue := fifo_init data sz\<rparr>"

definition SCPI_ErrorCount :: "scpi_t \<Rightarrow> nat" where
  "SCPI_ErrorCount ctx = fifo_count (error_queue ctx)"

definition call_error :: "int \<Rightarrow> scpi_t \<Rightarrow> scpi_t" where
  "call_error err ctx = (if has_error (interface ctx) then emit (EvError err) ctx else ctx)"

definition SCPI_ErrorEmitEmpty :: "scpi_t \<Rightarrow> scpi_t" where
  "SCPI_ErrorEmitEmpty ctx =
     (if SCPI_ErrorCount ctx = 0 \<and> SCPI_RegGet ctx SCPI_REG_STB AND STB_QMA \<noteq> 0
      then call_error 0 (SCPI_RegClearBits ctx SCPI_REG_STB STB_QMA) else ctx)"

definition SCPI_ErrorEmit :: "scpi_t \<Rightarrow> int \<Rightarrow> scpi_t" where
  "SCPI_ErrorEmit ctx err = call_error err (SCPI_RegSetBits ctx SCPI_REG_STB STB_QMA)"

definition SCPI_ErrorClear :: "scpi_t \<Rightarrow> scpi_t" where
  "SCPI_ErrorClear ctx = SCPI_ErrorEmitEmpty (ctx\<lparr>error_queue := fifo_clear (error_queue ctx)\<rparr>)"

text \<open>The caller's error cell, if there is one, is returned with the error that was popped.\<close>

definition SCPI_ErrorPop :: "scpi_t \<Rightarrow> scpi_error_t option \<Rightarrow> bool \<times> scpi_error_t option \<times> scpi_t" where
  "SCPI_ErrorPop ctx err =
     (case err of None \<Rightarrow> (False, None, ctx)
      | Some e \<Rightarrow>
          let (_, err', q) = fifo_remove (error_queue ctx) (Some (e\<lparr>error_code := 0\<rparr>))
          in (True, err', SCPI_ErrorEmitEmpty (ctx\<lparr>error_queue := q\<rparr>)))"

definition SCPI_ErrorAddInternal :: "scpi_t \<Rightarrow> int \<Rightarrow> bool \<times> scpi_t" where
  "SCPI_ErrorAddInternal ctx err =
     (let error_value = \<lparr>error_code = err\<rparr>;
          (added, q) = fifo_add (error_queue ctx) (Some error_value)
      in if \<not> added
         then let (_, _, q1) = fifo_remove_last q (Some error_value);
                  (_, q2) = fifo_add q1 (Some \<lparr>error_code = SCPI_ERROR_QUEUE_OVERFLOW\<rparr>)
              in (False, ctx\<lparr>error_queue := q2\<rparr>)
         else (True, ctx\<lparr>error_queue := q\<rparr>))"

definition errs :: "(int \<times> int \<times> u16) list" where
  "errs = [(-100, -199, ESR_CER), (-200, -299, ESR_EER), (-300, -399, ESR_DER), (1, 32767, ESR_DER),
           (-400, -499, ESR_QER), (-500, -599, ESR_PON), (-600, -699, ESR_URQ), (-700, -799, ESR_REQ),
           (-800, -899, ESR_OPC)]"

text \<open>The additional text of an error is dropped in this build, so only the code is passed on.\<close>

definition SCPI_ErrorPushEx :: "scpi_t \<Rightarrow> int \<Rightarrow> scpi_t" where
  "SCPI_ErrorPushEx ctx err =
     (let (added, ctx1) = SCPI_ErrorAddInternal ctx err;
          queue_overflow = (\<not> added);
          ctx2 = fold (\<lambda>(from, to, esrBit) c.
                   if err \<le> from \<and> err \<ge> to then SCPI_RegSetBits c SCPI_REG_ESR esrBit else c) errs ctx1;
          ctx3 = SCPI_ErrorEmit ctx2 err;
          ctx4 = (if queue_overflow then SCPI_ErrorEmit ctx3 SCPI_ERROR_QUEUE_OVERFLOW else ctx3)
      in ctx4\<lparr>cmd_error := True\<rparr>)"

definition SCPI_ErrorPush :: "scpi_t \<Rightarrow> int \<Rightarrow> scpi_t" where
  "SCPI_ErrorPush ctx err = SCPI_ErrorPushEx ctx err"

text \<open>The short error list of the bare-metal build.\<close>

definition SCPI_ErrorTranslate :: "int \<Rightarrow> string" where
  "SCPI_ErrorTranslate err =
     (if err = 0 then ''No error''
      else if err = -101 then ''Invalid character''
      else if err = -103 then ''Invalid separator''
      else if err = -104 then ''Data type error''
      else if err = -108 then ''Parameter not allowed''
      else if err = -109 then ''Missing parameter''
      else if err = -113 then ''Undefined header''
      else if err = -131 then ''Invalid suffix''
      else if err = -138 then ''Suffix not allowed''
      else if err = -151 then ''Invalid string data''
      else if err = -170 then ''Expression error''
      else if err = -200 then ''Execution error''
      else if err = -224 then ''Illegal parameter value''
      else if err = -310 then ''System error''
      else if err = -350 then ''Queue overflow''
      else if err = -363 then ''Input buffer overrun''
      else ''Unknown error'')"

subsection \<open>Common commands on the registers\<close>

datatype scpi_result_t = SCPI_RES_OK | SCPI_RES_ERR

definition SCPI_CoreCls :: "scpi_t \<Rightarrow> scpi_result_t \<times> scpi_t" where
  "SCPI_CoreCls ctx =
     (SCPI_RES_OK,
      fold (\<lambda>g c. let event_reg = rg_event (scpi_reg_group_details g)
                 in if event_reg \<noteq> SCPI_REG_STB then SCPI_RegSet c event_reg 0 else c)
        [SCPI_REG_GROUP_STB, SCPI_REG_GROUP_ESR, SCPI_REG_GROUP_OPER, SCPI_REG_GROUP_QUES]
        (SCPI_ErrorClear ctx))"

definition SCPI_CoreOpc :: "scpi_t \<Rightarrow> scpi_result_t \<times> scpi_t" where
  "SCPI_CoreOpc ctx = (SCPI_RES_OK, SCPI_RegSetBits ctx SCPI_REG_ESR ESR_OPC)"

definition SCPI_CoreWai :: "scpi_t \<Rightarrow> scpi_result_t \<times> scpi_t" where
  "SCPI_CoreWai ctx = (SCPI_RES_OK, ctx)"

definition SCPI_StatusPreset :: "scpi_t \<Rightarrow> scpi_result_t \<times> scpi_t" where
  "SCPI_StatusPreset ctx = (SCPI_RES_OK, SCPI_RegSet ctx SCPI_REG_QUES 0)"

subsection \<open>Lemmas on single registers\<close>

lemma writeControl_fields [simp]:
  "registers (writeControl v c) = registers c" "error_queue (writeControl v c) = error_queue c"
  "interface (writeControl v c) = interface c" "cmd_error (writeControl v c) = cmd_error c"
  by (simp_all add: writeControl_def)

lemma RegSet_STB:
  "registers (SCPI_RegSet c SCPI_REG_STB v) =
     (if registers c SCPI_REG_STB = v then registers c else registers (update_srq (registers c SCPI_REG_STB) v (reg_put SCPI_REG_STB v c)))"
  by (subst SCPI_RegSet.simps) (simp add: Let_def reg_type_def)

lemma RegSet_STB_bit:
  assumes "n \<noteq> 6"
  shows "bit (registers (SCPI_RegSet c SCPI_REG_STB v) SCPI_REG_STB) n = bit v n"
  using assms by (auto simp: RegSet_STB update_srq_regs bit_simps bit_STB_SRQ dest: bit_imp_le_length)

lemma RegSet_STB_other:
  "r \<noteq> SCPI_REG_STB \<Longrightarrow> registers (SCPI_RegSet c SCPI_REG_STB v) r = registers c r"
  by (simp add: RegSet_STB update_srq_regs)

text \<open>An event register feeds one summary bit of the status byte and nothing else.\<close>

lemma RegSet_event:
  assumes "reg_type name = SCPI_REG_CLASS_EVEN"
  shows "registers (SCPI_RegSet c name v) name = v"
    "r \<noteq> name \<Longrightarrow> r \<noteq> SCPI_REG_STB \<Longrightarrow> registers (SCPI_RegSet c name v) r = registers c r"
    "n \<noteq> 6 \<Longrightarrow> \<not> bit (rg_parent_bit (reg_group name)) n \<Longrightarrow>
      bit (registers (SCPI_RegSet c name v) SCPI_REG_STB) n = bit (registers c SCPI_REG_STB) n"
  using assms
  by (subst SCPI_RegSet.simps, cases name;
      auto simp: Let_def reg_type_def reg_group_def RegSet_STB_other RegSet_STB_bit SCPI_RegGet_def bit_simps
           dest: bit_imp_le_length)+

subsection \<open>What the error queue promises\<close>

lemma bit_STB_QMA: "bit STB_QMA n \<longleftrightarrow> n = 2"
proof -
  have e: "STB_QMA = push_bit 2 1" by (simp add: reg_defs)
  show ?thesis unfolding e bit_push_bit_iff bit_1_iff by auto
qed

lemma qma_test: "w AND STB_QMA \<noteq> 0 \<longleftrightarrow> bit w 2"
proof
  assume "w AND STB_QMA \<noteq> 0"
  then obtain n where "bit (w AND STB_QMA) n" by (auto simp: bit_eq_iff)
  then show "bit w 2" by (auto simp: bit_and_iff bit_STB_QMA)
next
  assume "bit w 2"
  then have "bit (w AND STB_QMA) 2" by (simp add: bit_and_iff bit_STB_QMA)
  then show "w AND STB_QMA \<noteq> 0" by (metis bit_0_eq bot_apply bot_bool_def)
qed

text \<open>
  The context is consistent when the queue is well formed, the queue bit of the status byte says
  whether an error is waiting, and the request bit summarises the status byte.
\<close>

definition qma_ok :: "scpi_t \<Rightarrow> bool" where
  "qma_ok ctx \<longleftrightarrow> (registers ctx SCPI_REG_STB AND STB_QMA \<noteq> 0) = (fifo_list (error_queue ctx) \<noteq> [])"

definition status_inv :: "scpi_t \<Rightarrow> bool" where
  "status_inv ctx \<longleftrightarrow> fifo_inv (error_queue ctx) \<and> srq_ok ctx \<and> qma_ok ctx"

definition error_calls :: "scpi_t \<Rightarrow> int list" where
  "error_calls ctx = concat (map (\<lambda>e. case e of EvError n \<Rightarrow> [n] | _ \<Rightarrow> []) (events ctx))"

lemma srq_ok_cong:
  "registers c SCPI_REG_STB = registers d SCPI_REG_STB \<Longrightarrow> registers c SCPI_REG_SRE = registers d SCPI_REG_SRE \<Longrightarrow>
   srq_ok c = srq_ok d"
  by (simp add: srq_ok_def)

lemma fields_update [simp]:
  "srq_ok (c\<lparr>error_queue := q\<rparr>) = srq_ok c" "srq_ok (c\<lparr>cmd_error := b\<rparr>) = srq_ok c"
  "srq_ok (emit e c) = srq_ok c"
  "error_calls (c\<lparr>error_queue := q\<rparr>) = error_calls c" "error_calls (c\<lparr>cmd_error := b\<rparr>) = error_calls c"
  by (simp_all add: srq_ok_def error_calls_def)

lemma error_calls_emit:
  "error_calls (emit e c) = error_calls c @ (case e of EvError n \<Rightarrow> [n] | _ \<Rightarrow> [])"
  by (simp add: error_calls_def)

lemma RegSet_qma_bit:
  assumes "r \<noteq> SCPI_REG_STB"
  shows "bit (registers (SCPI_RegSet c r v) SCPI_REG_STB) 2 = bit (registers c SCPI_REG_STB) 2"
proof (cases "reg_type r")
  case SCPI_REG_CLASS_EVEN
  then have "\<not> bit (rg_parent_bit (reg_group r)) 2"
    by (cases r) (auto simp: reg_type_def reg_group_def reg_defs bit_numeral_rec)
  then show ?thesis using RegSet_event(3) [OF SCPI_REG_CLASS_EVEN, of 2] by simp
next
  case SCPI_REG_CLASS_COND
  then have ev: "reg_type (rg_event (reg_group r)) = SCPI_REG_CLASS_EVEN" "rg_event (reg_group r) \<noteq> SCPI_REG_NONE"
    "\<not> bit (rg_parent_bit (reg_group (rg_event (reg_group r)))) 2"
    by (cases r; auto simp: reg_type_def reg_group_def reg_defs bit_numeral_rec)+
  show ?thesis
    using assms SCPI_REG_CLASS_COND RegSet_event(3) [OF ev(1), of 2] ev
    by (subst SCPI_RegSet.simps) (simp add: Let_def)
qed (use assms in \<open>(subst SCPI_RegSet.simps, cases r; simp add: Let_def reg_type_def update_srq_regs bit_simps bit_STB_SRQ)+\<close>)

lemma qma_ok_iff: "qma_ok ctx \<longleftrightarrow> bit (registers ctx SCPI_REG_STB) 2 = (fifo_list (error_queue ctx) \<noteq> [])"
  by (simp add: qma_ok_def qma_test)

lemma status_inv_RegSet:
  "status_inv c \<Longrightarrow> r \<noteq> SCPI_REG_STB \<Longrightarrow> status_inv (SCPI_RegSet c r v)"
  by (simp add: status_inv_def qma_ok_iff srq_ok_RegSet RegSet_qma_bit)

lemma call_error_fields [simp]:
  "registers (call_error n c) = registers c" "error_queue (call_error n c) = error_queue c"
  "interface (call_error n c) = interface c" "cmd_error (call_error n c) = cmd_error c"
  "srq_ok (call_error n c) = srq_ok c"
  by (simp_all add: call_error_def)

lemma ErrorEmit_fields:
  "error_queue (SCPI_ErrorEmit c n) = error_queue c" "interface (SCPI_ErrorEmit c n) = interface c"
  "bit (registers (SCPI_ErrorEmit c n) SCPI_REG_STB) 2"
  "r \<noteq> SCPI_REG_STB \<Longrightarrow> registers (SCPI_ErrorEmit c n) r = registers c r"
  "srq_ok c \<Longrightarrow> srq_ok (SCPI_ErrorEmit c n)"
  by (simp_all add: SCPI_ErrorEmit_def SCPI_RegSetBits_def RegSet_STB_bit RegSet_STB_other srq_ok_RegSet
      bit_simps bit_STB_QMA)

lemma fifo_list_empty [simp]: "fifo_list f = [] \<longleftrightarrow> fifo_cnt f = 0"
  by (metis length_0_conv length_fifo_list)

lemma ErrorEmitEmpty_inv:
  assumes "fifo_inv (error_queue c)" "srq_ok c" "fifo_list (error_queue c) \<noteq> [] \<Longrightarrow> bit (registers c SCPI_REG_STB) 2"
  shows "status_inv (SCPI_ErrorEmitEmpty c)"
  using assms
  by (auto simp: status_inv_def qma_ok_iff SCPI_ErrorEmitEmpty_def SCPI_ErrorCount_def fifo_count_def qma_test
      SCPI_RegClearBits_def SCPI_RegGet_def RegSet_STB_bit srq_ok_RegSet bit_simps bit_STB_QMA)

lemma ErrorEmitEmpty_fields [simp]:
  "error_queue (SCPI_ErrorEmitEmpty c) = error_queue c"
  "r \<noteq> SCPI_REG_STB \<Longrightarrow> registers (SCPI_ErrorEmitEmpty c) r = registers c r"
  by (simp_all add: SCPI_ErrorEmitEmpty_def SCPI_RegClearBits_def RegSet_STB_other)

lemma status_inv_ErrorClear:
  assumes "status_inv c"
  shows "status_inv (SCPI_ErrorClear c)" "fifo_list (error_queue (SCPI_ErrorClear c)) = []"
proof -
  have f: "fifo_inv (fifo_clear (error_queue c))" "fifo_list (fifo_clear (error_queue c)) = []"
    using assms fifo_clear_ok by (auto simp: status_inv_def)
  show "status_inv (SCPI_ErrorClear c)" unfolding SCPI_ErrorClear_def
    by (rule ErrorEmitEmpty_inv) (use assms f in \<open>auto simp: status_inv_def\<close>)
  show "fifo_list (error_queue (SCPI_ErrorClear c)) = []"
    using f by (simp add: SCPI_ErrorClear_def)
qed

lemma fifo_remove_empty: "fifo_list f = [] \<Longrightarrow> fifo_remove f out = (False, out, f)"
  by (simp add: fifo_remove_def fifo_is_empty_def)

lemma ErrorPop_queue:
  assumes "fifo_inv (error_queue c)" "SCPI_ErrorPop c (Some e) = (b, e', c')"
  shows "b" "fifo_inv (error_queue c')" "fifo_list (error_queue c') = tl (fifo_list (error_queue c))"
    "e' = Some (case fifo_list (error_queue c) of [] \<Rightarrow> e\<lparr>error_code := 0\<rparr> | x # _ \<Rightarrow> x)"
    "\<exists>q. c' = SCPI_ErrorEmitEmpty (c\<lparr>error_queue := q\<rparr>)"
proof -
  let ?r = "fifo_remove (error_queue c) (Some (e\<lparr>error_code := 0\<rparr>))"
  have c': "c' = SCPI_ErrorEmitEmpty (c\<lparr>error_queue := snd (snd ?r)\<rparr>)" "e' = fst (snd ?r)" "b"
    using assms(2) by (auto simp: SCPI_ErrorPop_def split: prod.splits)
  then show "b" "\<exists>q. c' = SCPI_ErrorEmitEmpty (c\<lparr>error_queue := q\<rparr>)" by auto
  show "fifo_inv (error_queue c')" "fifo_list (error_queue c') = tl (fifo_list (error_queue c))"
    "e' = Some (case fifo_list (error_queue c) of [] \<Rightarrow> e\<lparr>error_code := 0\<rparr> | x # _ \<Rightarrow> x)"
    by (cases "fifo_list (error_queue c)"; use assms(1) c' in \<open>simp add: fifo_remove_ok fifo_remove_empty del: fifo_list_empty\<close>)+
qed

lemma status_inv_ErrorPop:
  assumes "status_inv c"
  shows "status_inv (snd (snd (SCPI_ErrorPop c e)))"
proof (cases e)
  case None
  then show ?thesis using assms by (simp add: SCPI_ErrorPop_def)
next
  case (Some e0)
  obtain b e' c' where r: "SCPI_ErrorPop c (Some e0) = (b, e', c')" by (cases "SCPI_ErrorPop c (Some e0)")
  have inv: "fifo_inv (error_queue c)" using assms by (simp add: status_inv_def)
  note pop = ErrorPop_queue [OF inv r]
  from pop(5) obtain q where q: "c' = SCPI_ErrorEmitEmpty (c\<lparr>error_queue := q\<rparr>)" by blast
  have "status_inv c'" unfolding q
    by (rule ErrorEmitEmpty_inv)
       (use pop q assms in \<open>auto simp: status_inv_def qma_ok_iff simp del: fifo_list_empty\<close>)
  then show ?thesis using r Some by simp
qed

lemma AddInternal_queue:
  assumes "fifo_inv (error_queue c)"
  defines "q \<equiv> error_queue c"
  shows "\<exists>q'. SCPI_ErrorAddInternal c err = (fifo_cnt q < fifo_size q, c\<lparr>error_queue := q'\<rparr>) \<and> fifo_inv q' \<and>
    fifo_size q' = fifo_size q \<and>
    fifo_list q' = (if fifo_cnt q < fifo_size q then fifo_list q @ [\<lparr>error_code = err\<rparr>]
                    else butlast (fifo_list q) @ [\<lparr>error_code = SCPI_ERROR_QUEUE_OVERFLOW\<rparr>])"
proof -
  have added: "fst (fifo_add q (Some e)) = (fifo_cnt q < fifo_size q)" for e
    using assms by (auto simp: fifo_add_def fifo_is_full_def fifo_inv_def)
  note m = ring.add_or_mark [of q "\<lparr>error_code = err\<rparr>" "Some \<lparr>error_code = err\<rparr>"
      "\<lparr>error_code = SCPI_ERROR_QUEUE_OVERFLOW\<rparr>", unfolded Let_def]
  have full: "snd (fifo_add q (Some e)) = q" if "\<not> fifo_cnt q < fifo_size q" for e
    using assms that by (auto simp: fifo_add_def fifo_is_full_def fifo_inv_def)
  show ?thesis
    using m assms added full
    by (cases "fifo_cnt q < fifo_size q")
       (auto simp: SCPI_ErrorAddInternal_def Let_def split_beta)
qed

text \<open>The event status bits of an error code: IEEE 488.2 classes of a hundred codes each.\<close>

definition esr_class :: "int \<Rightarrow> u16" where
  "esr_class err =
     (if -199 \<le> err \<and> err \<le> -100 then ESR_CER else if -299 \<le> err \<and> err \<le> -200 then ESR_EER
      else if -399 \<le> err \<and> err \<le> -300 then ESR_DER else if -499 \<le> err \<and> err \<le> -400 then ESR_QER
      else if -599 \<le> err \<and> err \<le> -500 then ESR_PON else if -699 \<le> err \<and> err \<le> -600 then ESR_URQ
      else if -799 \<le> err \<and> err \<le> -700 then ESR_REQ else if -899 \<le> err \<and> err \<le> -800 then ESR_OPC
      else 0)"

definition set_esr :: "int \<Rightarrow> scpi_t \<Rightarrow> scpi_t" where
  "set_esr err ctx = fold (\<lambda>(from, to, esrBit) c.
     if err \<le> from \<and> err \<ge> to then SCPI_RegSetBits c SCPI_REG_ESR esrBit else c) errs ctx"

lemma RegSetBits_0: "SCPI_RegSetBits c r 0 = c"
  by (cases "r = SCPI_REG_NONE") (simp_all add: SCPI_RegSetBits_def SCPI_RegGet_def SCPI_RegSet.simps Let_def)

lemma set_esr_class: "set_esr err c = SCPI_RegSetBits c SCPI_REG_ESR (esr_class err)"
  unfolding set_esr_def esr_class_def errs_def by (auto simp: RegSetBits_0)

lemma ErrorPushEx_alt:
  "SCPI_ErrorPushEx c err =
     (let ctx1 = snd (SCPI_ErrorAddInternal c err);
          ctx3 = SCPI_ErrorEmit (SCPI_RegSetBits ctx1 SCPI_REG_ESR (esr_class err)) err
      in (if fst (SCPI_ErrorAddInternal c err) then ctx3
          else SCPI_ErrorEmit ctx3 SCPI_ERROR_QUEUE_OVERFLOW)\<lparr>cmd_error := True\<rparr>)"
  unfolding set_esr_class [symmetric] set_esr_def
  by (simp add: SCPI_ErrorPushEx_def Let_def split_beta)

lemma error_calls_reg [simp]: "error_calls (reg_put r v c) = error_calls c"
  by (simp add: error_calls_def reg_put_def)

lemma error_calls_writeControl [simp]: "error_calls (writeControl v c) = error_calls c"
  by (simp add: writeControl_def error_calls_emit)

lemma error_calls_update_srq [simp]: "error_calls (update_srq ov v c) = error_calls c"
  by (simp add: update_srq_def Let_def)

lemma error_calls_RegSet [simp]: "error_calls (SCPI_RegSet c r v) = error_calls c"
proof (induction c r v rule: SCPI_RegSet.induct)
  case (1 ctx name val)
  show ?case
  proof (cases "name = SCPI_REG_NONE \<or> registers ctx name = val")
    case True
    then show ?thesis by (subst SCPI_RegSet.simps) (auto simp: Let_def)
  next
    case False
    with 1 show ?thesis
      by (subst SCPI_RegSet.simps) (cases "reg_type name"; simp add: Let_def)
  qed
qed

lemma error_calls_Emit:
  "has_error (interface c) \<Longrightarrow> error_calls (SCPI_ErrorEmit c n) = error_calls c @ [n]"
  by (simp add: SCPI_ErrorEmit_def call_error_def SCPI_RegSetBits_def error_calls_emit)


text \<open>The same at an input with room and one without.\<close>

definition demo_ctx :: "scpi_error_t list \<Rightarrow> scpi_t" where
  "demo_ctx cells = \<lparr>buf_data = [], buf_length = 0, buf_position = 0, param_cmd = None,
     param_lex = \<lparr>lex_buffer = 0, lex_pos = 0, lex_len = 0\<rparr>, cmd_raw_data = 0, cmd_raw_length = 0,
     interface = \<lparr>has_error = True, has_control = True, has_flush = True, has_reset = True\<rparr>,
     output_count = 0, input_count = 0, first_output = False, cmd_error = False,
     error_queue = fifo_init cells (length cells), registers = (\<lambda>_. 0),
     parser_state = \<lparr>programHeader = \<lparr>tok_type = SCPI_TOKEN_COMMA, tok_ptr = None, tok_len = 0\<rparr>,
                     programData = \<lparr>tok_type = SCPI_TOKEN_COMMA, tok_ptr = None, tok_len = 0\<rparr>,
                     numberOfParameters = 0, msg_termination = SCPI_MESSAGE_TERMINATION_NONE\<rparr>,
     idn = [None, None, None, None], arbitrary_remaining = 0, events = []\<rparr>"

lemma demo_ctx_inv: "cells \<noteq> [] \<Longrightarrow> status_inv (demo_ctx cells)"
  by (simp add: demo_ctx_def status_inv_def fifo_init_inv qma_ok_def srq_ok_def)


subsection \<open>Every history of operations keeps the status byte consistent\<close>

datatype status_op =
    OpPush int | OpPop "scpi_error_t option" | OpClear | OpCls | OpOpc | OpPreset
  | OpSet scpi_reg_name_t u16

fun status_step :: "status_op \<Rightarrow> scpi_t \<Rightarrow> scpi_t" where
  "status_step (OpPush err) c = SCPI_ErrorPush c err"
| "status_step (OpPop e) c = snd (snd (SCPI_ErrorPop c e))"
| "status_step OpClear c = SCPI_ErrorClear c"
| "status_step OpCls c = snd (SCPI_CoreCls c)"
| "status_step OpOpc c = snd (SCPI_CoreOpc c)"
| "status_step OpPreset c = snd (SCPI_StatusPreset c)"
| "status_step (OpSet r v) c = (if r = SCPI_REG_STB then c else SCPI_RegSet c r v)"

lemma status_inv_cmd_error [simp]: "status_inv (c\<lparr>cmd_error := b\<rparr>) = status_inv c"
  by (simp add: status_inv_def qma_ok_def)

lemma status_inv_Emit:
  assumes "fifo_inv (error_queue c)" "srq_ok c" "fifo_list (error_queue c) \<noteq> []"
  shows "status_inv (SCPI_ErrorEmit c n)"
  using assms by (simp add: status_inv_def qma_ok_iff ErrorEmit_fields del: fifo_list_empty)

lemma status_inv_ErrorPush:
  assumes "status_inv c"
  shows "status_inv (SCPI_ErrorPush c err)"
proof -
  obtain q' where q': "SCPI_ErrorAddInternal c err =
      (fifo_cnt (error_queue c) < fifo_size (error_queue c), c\<lparr>error_queue := q'\<rparr>)" "fifo_inv q'" "fifo_list q' \<noteq> []"
    using AddInternal_queue [of c err] assms unfolding status_inv_def by (fastforce split: if_splits)
  let ?c = "SCPI_RegSetBits (c\<lparr>error_queue := q'\<rparr>) SCPI_REG_ESR (esr_class err)"
  have c: "fifo_inv (error_queue ?c)" "srq_ok ?c" "fifo_list (error_queue ?c) \<noteq> []"
    using q' assms by (simp_all add: status_inv_def SCPI_RegSetBits_def srq_ok_RegSet del: fifo_list_empty)
  have e: "status_inv (SCPI_ErrorEmit ?c err)" using c by (rule status_inv_Emit)
  then have "status_inv (SCPI_ErrorEmit (SCPI_ErrorEmit ?c err) n)" for n
    by (intro status_inv_Emit) (use c in \<open>auto simp: status_inv_def ErrorEmit_fields simp del: fifo_list_empty\<close>)
  then show ?thesis
    using e q' by (simp add: SCPI_ErrorPush_def ErrorPushEx_alt Let_def)
qed

lemma status_inv_Cls: "status_inv c \<Longrightarrow> status_inv (snd (SCPI_CoreCls c))"
  by (simp add: SCPI_CoreCls_def Let_def status_inv_RegSet status_inv_ErrorClear)

lemma status_step_inv: "status_inv c \<Longrightarrow> status_inv (status_step s c)"
  by (cases s) (simp_all add: status_inv_ErrorPush status_inv_ErrorPop status_inv_ErrorClear status_inv_Cls
      SCPI_CoreOpc_def SCPI_RegSetBits_def SCPI_StatusPreset_def status_inv_RegSet)

text \<open>C5: From a consistent context, every sequence of error pushes, pops, clears, common commands
  and writes to registers other than the status byte leaves the queue bit of the status byte set
  exactly while an error waits in the queue, and the request bit set exactly while an enabled
  status bit is.\<close>

theorem status_history_consistent:
  assumes "status_inv ctx"
  shows "status_inv (fold status_step ops ctx)"
  using assms by (induction ops arbitrary: ctx) (simp_all add: status_step_inv)

lemma status_history_consistent_witness:
  "status_inv (fold status_step [OpSet SCPI_REG_SRE 4, OpPush (-113), OpPop None, OpCls] (demo_ctx [\<lparr>error_code = 0\<rparr>]))"
  by (rule status_history_consistent) (simp add: demo_ctx_inv)

text \<open>Errors are reported oldest first: popping with a cell returns the head of the queue and
  drops it, or the no-error code from an empty queue, and leaves the context consistent; a null
  cell changes nothing.\<close>

theorem ErrorPop_spec:
  assumes "status_inv ctx"
  shows "case SCPI_ErrorPop ctx cell of (ok, cell', ctx') \<Rightarrow>
    ok = (cell \<noteq> None) \<and> status_inv ctx' \<and>
    (case cell of None \<Rightarrow> cell' = None \<and> ctx' = ctx
     | Some e \<Rightarrow> cell' = Some (case fifo_list (error_queue ctx) of [] \<Rightarrow> e\<lparr>error_code := 0\<rparr> | x # _ \<Rightarrow> x) \<and>
                 fifo_list (error_queue ctx') = tl (fifo_list (error_queue ctx)))"
proof (cases cell)
  case None
  then show ?thesis using assms by (simp add: SCPI_ErrorPop_def)
next
  case (Some e)
  obtain b e' c' where r: "SCPI_ErrorPop ctx (Some e) = (b, e', c')" by (cases "SCPI_ErrorPop ctx (Some e)")
  have inv: "fifo_inv (error_queue ctx)" using assms by (simp add: status_inv_def)
  from ErrorPop_queue [OF inv r] status_inv_ErrorPop [OF assms, of "Some e"] r Some
  show ?thesis by simp
qed

lemma ErrorPop_spec_witness:
  "fst (snd (SCPI_ErrorPop (demo_ctx [\<lparr>error_code = 0\<rparr>]) (Some \<lparr>error_code = 5\<rparr>))) = Some \<lparr>error_code = 0\<rparr>"
proof -
  have e: "fifo_list (error_queue (demo_ctx [\<lparr>error_code = 0\<rparr>])) = []" by (simp add: demo_ctx_def fifo_init_def)
  show ?thesis
    using ErrorPop_spec [of "demo_ctx [\<lparr>error_code = 0\<rparr>]" "Some \<lparr>error_code = 5\<rparr>"]
    by (simp add: demo_ctx_inv e split: prod.splits del: fifo_list_empty)
qed

end
