(* ===== verification/Scpi_Lexer.thy ===== *)
theory Scpi_Lexer
  imports Scpi_Types
begin

text \<open>
  The lexer, \<^verbatim>\<open>libscpi/src/lexer.c\<close>. The memory is the character list \<open>m\<close>, the lexer state
  the indices of the buffer, its length and the current position. Every routine returns its
  result, the new state and, for the token routines, the token. The section on the tokenizer
  contract shows that each of them consumes a prefix of the remaining input and returns a token
  inside what it consumed.
\<close>

subsection \<open>Character classes\<close>

abbreviation code :: "char \<Rightarrow> nat" where "code c \<equiv> of_char c"

definition isws :: "char \<Rightarrow> bool" where "isws c \<longleftrightarrow> c = CHR '' '' \<or> c = CHR 0x09"
definition isbdigit :: "char \<Rightarrow> bool" where "isbdigit c \<longleftrightarrow> c = CHR ''0'' \<or> c = CHR ''1''"
definition isqdigit :: "char \<Rightarrow> bool" where
  "isqdigit c \<longleftrightarrow> c = CHR ''0'' \<or> c = CHR ''1'' \<or> c = CHR ''2'' \<or> c = CHR ''3'' \<or> c = CHR ''4'' \<or>
     c = CHR ''5'' \<or> c = CHR ''6'' \<or> c = CHR ''7''"
definition isplusmn :: "char \<Rightarrow> bool" where "isplusmn c \<longleftrightarrow> c = CHR ''+'' \<or> c = CHR ''-''"
definition isH :: "char \<Rightarrow> bool" where "isH c \<longleftrightarrow> c = CHR ''h'' \<or> c = CHR ''H''"
definition isB :: "char \<Rightarrow> bool" where "isB c \<longleftrightarrow> c = CHR ''b'' \<or> c = CHR ''B''"
definition isQ :: "char \<Rightarrow> bool" where "isQ c \<longleftrightarrow> c = CHR ''q'' \<or> c = CHR ''Q''"
definition isE :: "char \<Rightarrow> bool" where "isE c \<longleftrightarrow> c = CHR ''e'' \<or> c = CHR ''E''"

text \<open>The classes of \<^verbatim>\<open>ctype.h\<close> in the C locale.\<close>

definition isdigit :: "char \<Rightarrow> bool" where "isdigit c \<longleftrightarrow> 48 \<le> code c \<and> code c \<le> 57"
definition isupper :: "char \<Rightarrow> bool" where "isupper c \<longleftrightarrow> 65 \<le> code c \<and> code c \<le> 90"
definition islower :: "char \<Rightarrow> bool" where "islower c \<longleftrightarrow> 97 \<le> code c \<and> code c \<le> 122"
definition isalpha :: "char \<Rightarrow> bool" where "isalpha c \<longleftrightarrow> isupper c \<or> islower c"
definition isalnum :: "char \<Rightarrow> bool" where "isalnum c \<longleftrightarrow> isalpha c \<or> isdigit c"
definition isxdigit :: "char \<Rightarrow> bool" where
  "isxdigit c \<longleftrightarrow> isdigit c \<or> (65 \<le> code c \<and> code c \<le> 70) \<or> (97 \<le> code c \<and> code c \<le> 102)"

definition isNonzeroDigit :: "char \<Rightarrow> bool" where "isNonzeroDigit c \<longleftrightarrow> isdigit c \<and> c \<noteq> CHR ''0''"
definition isascii7bit :: "char \<Rightarrow> bool" where "isascii7bit c \<longleftrightarrow> code c \<le> 0x7f"
definition isProgramExpression :: "char \<Rightarrow> bool" where
  "isProgramExpression c \<longleftrightarrow> 0x20 \<le> code c \<and> code c \<le> 0x7e \<and> c \<noteq> CHR 0x22 \<and> c \<noteq> CHR ''#'' \<and> c \<noteq> CHR 0x27 \<and>
     c \<noteq> CHR ''('' \<and> c \<noteq> CHR '')'' \<and> c \<noteq> CHR '';''"

subsection \<open>Skipping\<close>

abbreviation "SKIP_NONE \<equiv> 0 :: int"
abbreviation "SKIP_OK \<equiv> 1 :: int"
abbreviation "SKIP_INCOMPLETE \<equiv> - 1 :: int"

definition iseos :: "lex_state_t \<Rightarrow> bool" where
  "iseos s \<longleftrightarrow> lex_buffer s + lex_len s \<le> lex_pos s"

definition ischr :: "string \<Rightarrow> lex_state_t \<Rightarrow> char \<Rightarrow> bool" where
  "ischr m s chr \<longleftrightarrow> m ! lex_pos s = chr"

definition step :: "nat \<Rightarrow> lex_state_t \<Rightarrow> lex_state_t" where
  "step n s = s\<lparr>lex_pos := lex_pos s + n\<rparr>"

lemma step_fields [simp]:
  "lex_pos (step n s) = lex_pos s + n" "lex_buffer (step n s) = lex_buffer s" "lex_len (step n s) = lex_len s"
  by (simp_all add: step_def)

lemma step_step [simp]: "step a (step b s) = step (b + a) s"
  by (simp add: step_def)

text \<open>The loop of every character-class scanner.\<close>

function skip_while :: "(char \<Rightarrow> bool) \<Rightarrow> string \<Rightarrow> lex_state_t \<Rightarrow> nat \<times> lex_state_t" where
  "skip_while p m s =
     (if \<not> iseos s \<and> p (m ! lex_pos s)
      then let (n, s') = skip_while p m (step 1 s) in (n + 1, s') else (0, s))"
  by pat_completeness auto
termination
  by (relation "measure (\<lambda>(_, _, s). lex_buffer s + lex_len s - lex_pos s)") (auto simp: iseos_def)

declare skip_while.simps [simp del]

definition skip_if :: "(char \<Rightarrow> bool) \<Rightarrow> string \<Rightarrow> lex_state_t \<Rightarrow> int \<times> lex_state_t" where
  "skip_if p m s = (if \<not> iseos s \<and> p (m ! lex_pos s) then (SKIP_OK, step 1 s) else (SKIP_NONE, s))"

definition skipWs :: "string \<Rightarrow> lex_state_t \<Rightarrow> nat \<times> lex_state_t" where "skipWs = skip_while isws"
definition skipDigit :: "string \<Rightarrow> lex_state_t \<Rightarrow> int \<times> lex_state_t" where "skipDigit = skip_if isdigit"
definition skipNumbers :: "string \<Rightarrow> lex_state_t \<Rightarrow> nat \<times> lex_state_t" where "skipNumbers = skip_while isdigit"
definition skipPlusmn :: "string \<Rightarrow> lex_state_t \<Rightarrow> int \<times> lex_state_t" where "skipPlusmn = skip_if isplusmn"
definition skipAlpha :: "string \<Rightarrow> lex_state_t \<Rightarrow> nat \<times> lex_state_t" where "skipAlpha = skip_while isalpha"
definition skipChr :: "string \<Rightarrow> lex_state_t \<Rightarrow> char \<Rightarrow> int \<times> lex_state_t" where
  "skipChr m s chr = (if \<not> iseos s \<and> ischr m s chr then (SKIP_OK, step 1 s) else (SKIP_NONE, s))"
definition skipSlashDot :: "string \<Rightarrow> lex_state_t \<Rightarrow> int \<times> lex_state_t" where
  "skipSlashDot m s = (if \<not> iseos s \<and> (ischr m s (CHR ''/'') \<or> ischr m s (CHR ''.'')) then (SKIP_OK, step 1 s) else (SKIP_NONE, s))"
definition skipStar :: "string \<Rightarrow> lex_state_t \<Rightarrow> int \<times> lex_state_t" where
  "skipStar m s = (if \<not> iseos s \<and> ischr m s (CHR ''*'') then (SKIP_OK, step 1 s) else (SKIP_NONE, s))"
definition skipColon :: "string \<Rightarrow> lex_state_t \<Rightarrow> int \<times> lex_state_t" where
  "skipColon m s = (if \<not> iseos s \<and> ischr m s (CHR '':'') then (SKIP_OK, step 1 s) else (SKIP_NONE, s))"
definition skipHexNum :: "string \<Rightarrow> lex_state_t \<Rightarrow> nat \<times> lex_state_t" where "skipHexNum = skip_while isxdigit"
definition skipOctNum :: "string \<Rightarrow> lex_state_t \<Rightarrow> nat \<times> lex_state_t" where "skipOctNum = skip_while isqdigit"
definition skipBinNum :: "string \<Rightarrow> lex_state_t \<Rightarrow> nat \<times> lex_state_t" where "skipBinNum = skip_while isbdigit"
definition skipProgramExpression :: "string \<Rightarrow> lex_state_t \<Rightarrow> nat \<times> lex_state_t" where "skipProgramExpression = skip_while isProgramExpression"

text \<open>The body of a mnemonic, \<^verbatim>\<open>[a-z][a-z0-9_]*\<close>.\<close>

definition mnemonic_body :: "string \<Rightarrow> lex_state_t \<Rightarrow> lex_state_t" where
  "mnemonic_body m s =
     (if \<not> iseos s \<and> isalpha (m ! lex_pos s)
      then snd (skip_while (\<lambda>c. isalnum c \<or> c = CHR ''_'') m (step 1 s)) else s)"

definition skipProgramMnemonic :: "string \<Rightarrow> lex_state_t \<Rightarrow> int \<times> lex_state_t" where
  "skipProgramMnemonic m s =
     (let startPos = lex_pos s; s1 = mnemonic_body m s
      in if iseos s1 then ((int (lex_pos s1) - int startPos) * SKIP_INCOMPLETE, s1)
         else ((int (lex_pos s1) - int startPos) * SKIP_OK, s1))"

text \<open>Progress of a scanner inside the buffer.\<close>

definition adv :: "lex_state_t \<Rightarrow> lex_state_t \<Rightarrow> bool" where
  "adv s s' \<longleftrightarrow> lex_buffer s' = lex_buffer s \<and> lex_len s' = lex_len s \<and> lex_pos s \<le> lex_pos s' \<and>
     lex_pos s' \<le> max (lex_pos s) (lex_buffer s + lex_len s)"

lemma adv_refl [simp, intro]: "adv s s"
  by (simp add: adv_def)

lemma adv_trans [trans]: "adv a b \<Longrightarrow> adv b c \<Longrightarrow> adv a c"
  by (auto simp: adv_def)

lemma adv_step: "\<not> iseos s \<Longrightarrow> adv s (step 1 s)" "\<not> iseos s \<Longrightarrow> adv s (step (Suc 0) s)"
  by (simp_all add: adv_def iseos_def)

lemma adv_skip_while: "adv s (snd (skip_while p m s))"
proof (induction p m s rule: skip_while.induct)
  case (1 p m s)
  then show ?case
    by (subst skip_while.simps) (auto simp: split_beta intro: adv_trans adv_step)
qed

lemma skip_while_pos: "lex_pos (snd (skip_while p m s)) = lex_pos s + fst (skip_while p m s)"
proof (induction p m s rule: skip_while.induct)
  case (1 p m s)
  then show ?case by (subst (1 2) skip_while.simps) (simp add: split_beta)
qed

lemma adv_skip_if: "adv s (snd (skip_if p m s))"
  by (simp add: skip_if_def adv_step)

lemma adv_skipChr: "adv s (snd (skipChr m s c))"
  by (simp add: skipChr_def adv_step)

lemma adv_skipColon: "adv s (snd (skipColon m s))"
  by (simp add: skipColon_def adv_step)

lemma adv_skipStar: "adv s (snd (skipStar m s))"
  by (simp add: skipStar_def adv_step)

lemma adv_skipSlashDot: "adv s (snd (skipSlashDot m s))"
  by (simp add: skipSlashDot_def adv_step)

lemma adv_mnemonic_body: "adv s (mnemonic_body m s)"
  by (auto simp: mnemonic_body_def intro: adv_trans adv_step adv_skip_while)

lemma adv_skipProgramMnemonic: "adv s (snd (skipProgramMnemonic m s))"
  by (simp add: skipProgramMnemonic_def Let_def adv_mnemonic_body)

lemmas adv_class = adv_skip_while adv_skip_if adv_skipChr adv_skipColon adv_skipStar adv_skipSlashDot
  adv_mnemonic_body adv_skipProgramMnemonic

text \<open>What is left of the buffer, the measure of the scanner loops.\<close>

definition left :: "lex_state_t \<Rightarrow> nat" where
  "left s = lex_buffer s + lex_len s - lex_pos s"

lemma adv_left: "adv s s' \<Longrightarrow> left s' \<le> left s"
  by (auto simp: adv_def left_def)

lemma skipColon_left: "fst (skipColon m s) \<noteq> 0 \<Longrightarrow> left (snd (skipColon m s)) < left s"
  by (auto simp: skipColon_def left_def iseos_def split: if_splits)

lemma skipSlashDot_left: "fst (skipSlashDot m s) \<noteq> 0 \<Longrightarrow> left (snd (skipSlashDot m s)) < left s"
  by (auto simp: skipSlashDot_def left_def iseos_def split: if_splits)

definition skipCommonProgramHeader :: "string \<Rightarrow> lex_state_t \<Rightarrow> int \<times> lex_state_t" where
  "skipCommonProgramHeader m s =
     (case skipStar m s of (star, s1) \<Rightarrow>
        if star \<noteq> 0
        then case skipProgramMnemonic m s1 of (res, s2) \<Rightarrow>
               if res = SKIP_NONE \<and> iseos s2 then (SKIP_INCOMPLETE, s2)
               else if res \<le> SKIP_INCOMPLETE then (SKIP_OK, s2)
               else if res \<ge> SKIP_OK then (SKIP_OK, s2)
               else (SKIP_INCOMPLETE, s2)
        else (SKIP_NONE, s1))"

text \<open>The loop over the further mnemonics of a compound header.\<close>

function compound_loop :: "string \<Rightarrow> lex_state_t \<Rightarrow> int \<times> lex_state_t" where
  "compound_loop m s =
     (case skipColon m s of (colon, s1) \<Rightarrow>
        if colon \<noteq> 0
        then case skipProgramMnemonic m s1 of (res, s2) \<Rightarrow>
               if res \<le> SKIP_INCOMPLETE then (SKIP_OK, s2)
               else if res = SKIP_NONE then (SKIP_INCOMPLETE, s2)
               else compound_loop m s2
        else (SKIP_OK, s1))"
  by pat_completeness auto
termination
proof (relation "measure (\<lambda>(m, s). left s)", goal_cases)
  case (2 m s colon s1 res s2)
  then have "left s1 < left s" "left s2 \<le> left s1"
    using skipColon_left [of m s] adv_left [OF adv_skipProgramMnemonic, of m s1] by (metis fst_conv snd_conv)+
  then show ?case by simp
qed simp

declare compound_loop.simps [simp del]

definition skipCompoundProgramHeader :: "string \<Rightarrow> lex_state_t \<Rightarrow> int \<times> lex_state_t" where
  "skipCompoundProgramHeader m s =
     (let (firstColon, s1) = skipColon m s; (res, s2) = skipProgramMnemonic m s1
      in if res \<ge> SKIP_OK then compound_loop m s2
         else if res \<le> SKIP_INCOMPLETE then (SKIP_OK, s2)
         else if firstColon \<noteq> 0 then (SKIP_INCOMPLETE, s2)
         else (SKIP_NONE, s2))"

text \<open>Decimal numbers.\<close>

definition skipMantisa :: "string \<Rightarrow> lex_state_t \<Rightarrow> nat \<times> lex_state_t" where
  "skipMantisa m s =
     (let (_, s1) = skipPlusmn m s; (n1, s2) = skipNumbers m s1; (dot, s3) = skipChr m s2 (CHR ''.'')
      in if dot \<noteq> 0 then let (n2, s4) = skipNumbers m s3 in (n1 + n2, s4) else (n1, s3))"

definition skipExponent :: "string \<Rightarrow> lex_state_t \<Rightarrow> nat \<times> lex_state_t" where
  "skipExponent m s =
     (if \<not> iseos s \<and> isE (m ! lex_pos s)
      then let (_, s1) = skipWs m (step 1 s); (_, s2) = skipPlusmn m s1 in skipNumbers m s2
      else (0, s))"

text \<open>Strings: a doubled quote stands for itself; the loop stops before the closing quote.\<close>

function skipQuoteProgramData :: "string \<Rightarrow> lex_state_t \<Rightarrow> char \<Rightarrow> lex_state_t" where
  "skipQuoteProgramData m s quote =
     (if \<not> iseos s
      then if isascii7bit (m ! lex_pos s) \<and> \<not> ischr m s quote then skipQuoteProgramData m (step 1 s) quote
           else if ischr m s quote
                then if \<not> iseos (step 1 s) \<and> ischr m (step 1 s) quote
                     then skipQuoteProgramData m (step 2 s) quote
                     else s
                else s
      else s)"
  by pat_completeness auto
termination
  by (relation "measure (\<lambda>(m, s, q). left s)") (auto simp: left_def iseos_def)

declare skipQuoteProgramData.simps [simp del]

lemma adv_skipQuote: "adv s (skipQuoteProgramData m s q)"
proof (induction m s q rule: skipQuoteProgramData.induct)
  case (1 m s q)
  have "adv s (step 2 s)" if "\<not> iseos (step 1 s)" using that by (auto simp: adv_def iseos_def)
  with 1 show ?case
    by (subst skipQuoteProgramData.simps) (auto intro: adv_trans adv_step)
qed

lemma adv_compound_loop: "adv s (snd (compound_loop m s))"
proof (induction m s rule: compound_loop.induct)
  case (1 m s)
  obtain c s1 r s2 where e: "skipColon m s = (c, s1)" "skipProgramMnemonic m s1 = (r, s2)"
    by (metis surj_pair)
  have a: "adv s s1" "adv s1 s2"
    using adv_skipColon [of s m] adv_skipProgramMnemonic [of s1 m] e by auto
  show ?case
    using 1 e a adv_trans [OF a] adv_trans [OF adv_trans [OF a]]
    by (subst compound_loop.simps) (auto split: if_splits)
qed

subsection \<open>Tokens\<close>

text \<open>The out-parameter's previous content is an argument; only the expression routine reads it.\<close>

definition scpiLex_IsEos :: "lex_state_t \<Rightarrow> bool" where
  "scpiLex_IsEos s = iseos s"

definition scpiLex_WhiteSpace :: "string \<Rightarrow> lex_state_t \<Rightarrow> scpi_token_t \<Rightarrow> nat \<times> lex_state_t \<times> scpi_token_t" where
  "scpiLex_WhiteSpace m s t =
     (let ptr = lex_pos s; s1 = snd (skipWs m s); len = lex_pos s1 - ptr
      in (len, s1, \<lparr>tok_type = (if len > 0 then SCPI_TOKEN_WS else SCPI_TOKEN_UNKNOWN), tok_ptr = Some ptr, tok_len = len\<rparr>))"

definition scpiLex_ProgramHeader :: "string \<Rightarrow> lex_state_t \<Rightarrow> scpi_token_t \<Rightarrow> nat \<times> lex_state_t \<times> scpi_token_t" where
  "scpiLex_ProgramHeader m s t =
     (let ptr = lex_pos s; (res, s1) = skipCommonProgramHeader m s;
          (ty, s2) =
            (if res \<ge> SKIP_OK
             then let (q, s2) = skipChr m s1 (CHR ''?'')
                  in (if q \<ge> SKIP_OK then SCPI_TOKEN_COMMON_QUERY_PROGRAM_HEADER else SCPI_TOKEN_COMMON_PROGRAM_HEADER, s2)
             else if res \<le> SKIP_INCOMPLETE then (SCPI_TOKEN_INCOMPLETE_COMMON_PROGRAM_HEADER, s1)
             else let (res, s2) = skipCompoundProgramHeader m s1
                  in if res \<ge> SKIP_OK
                     then let (q, s3) = skipChr m s2 (CHR ''?'')
                          in (if q \<ge> SKIP_OK then SCPI_TOKEN_COMPOUND_QUERY_PROGRAM_HEADER
                              else SCPI_TOKEN_COMPOUND_PROGRAM_HEADER, s3)
                     else if res \<le> SKIP_INCOMPLETE then (SCPI_TOKEN_INCOMPLETE_COMPOUND_PROGRAM_HEADER, s2)
                     else (SCPI_TOKEN_UNKNOWN, s2))
      in if ty \<noteq> SCPI_TOKEN_UNKNOWN
         then (lex_pos s2 - ptr, s2, \<lparr>tok_type = ty, tok_ptr = Some ptr, tok_len = lex_pos s2 - ptr\<rparr>)
         else (0, s2\<lparr>lex_pos := ptr\<rparr>, \<lparr>tok_type = ty, tok_ptr = Some ptr, tok_len = 0\<rparr>))"

definition scpiLex_CharacterProgramData :: "string \<Rightarrow> lex_state_t \<Rightarrow> scpi_token_t \<Rightarrow> nat \<times> lex_state_t \<times> scpi_token_t" where
  "scpiLex_CharacterProgramData m s t =
     (let ptr = lex_pos s; s1 = mnemonic_body m s; len = lex_pos s1 - ptr
      in (len, s1, \<lparr>tok_type = (if len > 0 then SCPI_TOKEN_PROGRAM_MNEMONIC else SCPI_TOKEN_UNKNOWN),
                    tok_ptr = Some ptr, tok_len = len\<rparr>))"

definition scpiLex_DecimalNumericProgramData :: "string \<Rightarrow> lex_state_t \<Rightarrow> scpi_token_t \<Rightarrow> nat \<times> lex_state_t \<times> scpi_token_t" where
  "scpiLex_DecimalNumericProgramData m s t =
     (let ptr = lex_pos s; (mant, s1) = skipMantisa m s;
          s2 = (if mant > 0
                then let rollback = lex_pos s1; (_, sw) = skipWs m s1; (ex, se) = skipExponent m sw
                     in if ex = 0 then se\<lparr>lex_pos := rollback\<rparr> else se
                else s1\<lparr>lex_pos := ptr\<rparr>);
          len = lex_pos s2 - ptr
      in (len, s2, \<lparr>tok_type = (if len > 0 then SCPI_TOKEN_DECIMAL_NUMERIC_PROGRAM_DATA else SCPI_TOKEN_UNKNOWN),
                    tok_ptr = Some ptr, tok_len = len\<rparr>))"

definition suffix_part :: "string \<Rightarrow> lex_state_t \<Rightarrow> lex_state_t" where
  "suffix_part m s = snd (skipDigit m (snd (skipChr m s (CHR ''-''))))"

lemma adv_suffix_part: "adv s (suffix_part m s)"
  unfolding suffix_part_def skipDigit_def by (rule adv_trans [OF adv_skipChr adv_skip_if])

lemma adv_skipAlpha: "adv s (snd (skipAlpha m s))"
  unfolding skipAlpha_def by (rule adv_skip_while)

function suffix_loop :: "string \<Rightarrow> lex_state_t \<Rightarrow> lex_state_t" where
  "suffix_loop m s =
     (case skipSlashDot m s of (sd, s1) \<Rightarrow>
        if sd \<noteq> 0 then suffix_loop m (suffix_part m (snd (skipAlpha m s1))) else s1)"
  by pat_completeness auto
termination
proof (relation "measure (\<lambda>(m, s). left s)", goal_cases)
  case (2 m s sd s1)
  have "left (suffix_part m (snd (skipAlpha m s1))) \<le> left s1"
    by (rule adv_left [OF adv_trans [OF adv_skipAlpha adv_suffix_part]])
  moreover have "left s1 < left s"
    using 2 skipSlashDot_left [of m s] by (metis fst_conv snd_conv)
  ultimately show ?case by simp
qed simp

declare suffix_loop.simps [simp del]

definition scpiLex_SuffixProgramData :: "string \<Rightarrow> lex_state_t \<Rightarrow> scpi_token_t \<Rightarrow> nat \<times> lex_state_t \<times> scpi_token_t" where
  "scpiLex_SuffixProgramData m s t =
     (let ptr = lex_pos s; s1 = snd (skipChr m s (CHR ''/'')); (letters, s2) = skipAlpha m s1;
          s3 = (if letters > 0 then suffix_loop m (suffix_part m s2) else s2);
          len = lex_pos s3 - ptr
      in if len > 0 then (len, s3, \<lparr>tok_type = SCPI_TOKEN_SUFFIX_PROGRAM_DATA, tok_ptr = Some ptr, tok_len = len\<rparr>)
         else (0, s3\<lparr>lex_pos := ptr\<rparr>, \<lparr>tok_type = SCPI_TOKEN_UNKNOWN, tok_ptr = Some ptr, tok_len = 0\<rparr>))"

definition scpiLex_NondecimalNumericData :: "string \<Rightarrow> lex_state_t \<Rightarrow> scpi_token_t \<Rightarrow> nat \<times> lex_state_t \<times> scpi_token_t" where
  "scpiLex_NondecimalNumericData m s t =
     (let ptr = lex_pos s; (hash, s1) = skipChr m s (CHR ''#'');
          (someNumbers, ty, s2) =
            (if hash \<noteq> 0 \<and> \<not> iseos s1
             then if isH (m ! lex_pos s1) then let (n, s2) = skipHexNum m (step 1 s1) in (n, SCPI_TOKEN_HEXNUM, s2)
                  else if isQ (m ! lex_pos s1) then let (n, s2) = skipOctNum m (step 1 s1) in (n, SCPI_TOKEN_OCTNUM, s2)
                  else if isB (m ! lex_pos s1) then let (n, s2) = skipBinNum m (step 1 s1) in (n, SCPI_TOKEN_BINNUM, s2)
                  else (0, tok_type t, s1)
             else (0, tok_type t, s1))
      in if someNumbers > 0
         then let p = ptr + 2; len = lex_pos s2 - p
              in (if len > 0 then len + 2 else 0, s2, \<lparr>tok_type = ty, tok_ptr = Some p, tok_len = len\<rparr>)
         else (0, s2\<lparr>lex_pos := ptr\<rparr>, \<lparr>tok_type = SCPI_TOKEN_UNKNOWN, tok_ptr = Some ptr, tok_len = 0\<rparr>))"

definition quoted :: "string \<Rightarrow> lex_state_t \<Rightarrow> char \<Rightarrow> lex_state_t" where
  "quoted m s quote =
     (let s1 = skipQuoteProgramData m (step 1 s) quote
      in if \<not> iseos s1 \<and> ischr m s1 quote then step 1 s1 else s1\<lparr>lex_pos := lex_pos s\<rparr>)"

definition scpiLex_StringProgramData :: "string \<Rightarrow> lex_state_t \<Rightarrow> scpi_token_t \<Rightarrow> nat \<times> lex_state_t \<times> scpi_token_t" where
  "scpiLex_StringProgramData m s t =
     (let ptr = lex_pos s;
          (ty, s1) =
            (if \<not> iseos s
             then if ischr m s (CHR 0x22) then (SCPI_TOKEN_DOUBLE_QUOTE_PROGRAM_DATA, quoted m s (CHR 0x22))
                  else if ischr m s (CHR 0x27) then (SCPI_TOKEN_SINGLE_QUOTE_PROGRAM_DATA, quoted m s (CHR 0x27))
                  else (tok_type t, s)
             else (tok_type t, s));
          len = lex_pos s1 - ptr
      in if len > 0 then (len, s1, \<lparr>tok_type = ty, tok_ptr = Some ptr, tok_len = len\<rparr>)
         else (0, s1\<lparr>lex_pos := ptr\<rparr>, \<lparr>tok_type = SCPI_TOKEN_UNKNOWN, tok_ptr = Some ptr, tok_len = 0\<rparr>))"

text \<open>The length field of a block: \<open>i\<close> digits, stopping early at anything else.\<close>

fun block_digits :: "string \<Rightarrow> nat \<Rightarrow> nat \<Rightarrow> lex_state_t \<Rightarrow> nat \<times> nat \<times> lex_state_t" where
  "block_digits m 0 len s = (0, len, s)"
| "block_digits m (Suc i) len s =
     (if \<not> iseos s \<and> isdigit (m ! lex_pos s)
      then block_digits m i (len * 10 + (code (m ! lex_pos s) - 48)) (step 1 s)
      else (Suc i, len, s))"

datatype block_validity = Block_valid | Block_incomplete | Block_invalid

definition scpiLex_ArbitraryBlockProgramData :: "string \<Rightarrow> lex_state_t \<Rightarrow> scpi_token_t \<Rightarrow> nat \<times> lex_state_t \<times> scpi_token_t" where
  "scpiLex_ArbitraryBlockProgramData m s t =
     (let ptr = lex_pos s; (hash, s1) = skipChr m s (CHR ''#'');
          (validData, tptr, tlen, s2) =
            (if hash \<noteq> 0
             then if \<not> iseos s1 \<and> isNonzeroDigit (m ! lex_pos s1)
                  then let (i, len, sd) = block_digits m (code (m ! lex_pos s1) - 48) 0 (step 1 s1)
                       in if i = 0
                          then let sb = step len sd
                               in if lex_buffer sb + lex_len sb \<ge> lex_pos sb
                                  then (Block_valid, lex_pos sb - len, len, sb)
                                  else (Block_incomplete, ptr, tok_len t, sb)
                          else if iseos sd then (Block_incomplete, ptr, tok_len t, sd)
                          else (Block_invalid, ptr, tok_len t, sd)
                  else if iseos s1 then (Block_incomplete, ptr, tok_len t, s1)
                  else (Block_invalid, ptr, tok_len t, s1)
             else (Block_invalid, ptr, tok_len t, s1))
      in case validData of
           Block_valid \<Rightarrow>
             (tlen + (tptr - ptr), s2, \<lparr>tok_type = SCPI_TOKEN_ARBITRARY_BLOCK_PROGRAM_DATA, tok_ptr = Some tptr, tok_len = tlen\<rparr>)
         | Block_incomplete \<Rightarrow>
             (tptr - ptr, s2\<lparr>lex_pos := lex_buffer s2 + lex_len s2\<rparr>,
              \<lparr>tok_type = SCPI_TOKEN_UNKNOWN, tok_ptr = Some tptr, tok_len = 0\<rparr>)
         | Block_invalid \<Rightarrow>
             (tptr - ptr, s2\<lparr>lex_pos := tptr\<rparr>, \<lparr>tok_type = SCPI_TOKEN_UNKNOWN, tok_ptr = Some tptr, tok_len = 0\<rparr>))"

definition scpiLex_ProgramExpression :: "string \<Rightarrow> lex_state_t \<Rightarrow> scpi_token_t \<Rightarrow> nat \<times> lex_state_t \<times> scpi_token_t" where
  "scpiLex_ProgramExpression m s t =
     (let ptr = lex_pos s;
          (len, s1) =
            (if \<not> iseos s \<and> ischr m s (CHR ''('')
             then let sx = snd (skipProgramExpression m (step 1 s))
                  in if \<not> iseos sx \<and> ischr m sx (CHR '')'') then (lex_pos (step 1 sx) - ptr, step 1 sx) else (0, sx)
             else (tok_len t, s))
      in if len > 0 then (len, s1, \<lparr>tok_type = SCPI_TOKEN_PROGRAM_EXPRESSION, tok_ptr = Some ptr, tok_len = len\<rparr>)
         else (0, s1\<lparr>lex_pos := ptr\<rparr>, \<lparr>tok_type = SCPI_TOKEN_UNKNOWN, tok_ptr = Some ptr, tok_len = 0\<rparr>))"

definition single_char :: "scpi_token_type_t \<Rightarrow> char \<Rightarrow> string \<Rightarrow> lex_state_t \<Rightarrow> nat \<times> lex_state_t \<times> scpi_token_t" where
  "single_char ty chr m s =
     (case skipChr m s chr of (r, s1) \<Rightarrow>
        if r \<noteq> 0 then (1, s1, \<lparr>tok_type = ty, tok_ptr = Some (lex_pos s), tok_len = 1\<rparr>)
        else (0, s1, \<lparr>tok_type = SCPI_TOKEN_UNKNOWN, tok_ptr = Some (lex_pos s), tok_len = 0\<rparr>))"

definition scpiLex_Comma :: "string \<Rightarrow> lex_state_t \<Rightarrow> scpi_token_t \<Rightarrow> nat \<times> lex_state_t \<times> scpi_token_t" where
  "scpiLex_Comma m s t = single_char SCPI_TOKEN_COMMA (CHR '','') m s"

definition scpiLex_Semicolon :: "string \<Rightarrow> lex_state_t \<Rightarrow> scpi_token_t \<Rightarrow> nat \<times> lex_state_t \<times> scpi_token_t" where
  "scpiLex_Semicolon m s t = single_char SCPI_TOKEN_SEMICOLON (CHR '';'') m s"

definition scpiLex_Colon :: "string \<Rightarrow> lex_state_t \<Rightarrow> scpi_token_t \<Rightarrow> nat \<times> lex_state_t \<times> scpi_token_t" where
  "scpiLex_Colon m s t = single_char SCPI_TOKEN_COLON (CHR '':'') m s"

definition scpiLex_SpecificCharacter :: "char \<Rightarrow> string \<Rightarrow> lex_state_t \<Rightarrow> scpi_token_t \<Rightarrow> nat \<times> lex_state_t \<times> scpi_token_t" where
  "scpiLex_SpecificCharacter chr m s t = single_char SCPI_TOKEN_SPECIFIC_CHARACTER chr m s"

definition scpiLex_NewLine :: "string \<Rightarrow> lex_state_t \<Rightarrow> scpi_token_t \<Rightarrow> nat \<times> lex_state_t \<times> scpi_token_t" where
  "scpiLex_NewLine m s t =
     (let ptr = lex_pos s; s1 = snd (skipChr m s (CHR 0x0D)); s2 = snd (skipChr m s1 (CHR 0x0A));
          len = lex_pos s2 - ptr
      in if len > 0 then (len, s2, \<lparr>tok_type = SCPI_TOKEN_NL, tok_ptr = Some ptr, tok_len = len\<rparr>)
         else (0, s2\<lparr>lex_pos := ptr\<rparr>, \<lparr>tok_type = SCPI_TOKEN_UNKNOWN, tok_ptr = Some ptr, tok_len = 0\<rparr>))"

subsection \<open>The tokenizer contract\<close>

definition in_buf :: "lex_state_t \<Rightarrow> bool" where
  "in_buf s \<longleftrightarrow> lex_buffer s \<le> lex_pos s \<and> lex_pos s \<le> lex_buffer s + lex_len s"

lemma adv_in_buf: "in_buf s \<Longrightarrow> adv s s' \<Longrightarrow> in_buf s'"
  by (auto simp: in_buf_def adv_def)

text \<open>
  A tokenizer moves forward inside the buffer, returns a token inside what it consumed, and
  reports failure by the result 0, the unknown type and an empty token alike.
\<close>

definition tok_contract :: "lex_state_t \<Rightarrow> nat \<times> lex_state_t \<times> scpi_token_t \<Rightarrow> bool" where
  "tok_contract s res = (case res of (r, s', t') \<Rightarrow>
     adv s s' \<and> (\<exists>p. tok_ptr t' = Some p \<and> lex_pos s \<le> p \<and> p + tok_len t' \<le> lex_pos s') \<and>
     lex_pos s + r \<le> lex_pos s' \<and> (r = 0) = (tok_type t' = SCPI_TOKEN_UNKNOWN) \<and> (r = 0 \<longrightarrow> tok_len t' = 0))"

locale tokenizer =
  fixes lex :: "string \<Rightarrow> lex_state_t \<Rightarrow> scpi_token_t \<Rightarrow> nat \<times> lex_state_t \<times> scpi_token_t"
  assumes contract: "tok_contract s (lex m s t)"
begin

lemma progress: "lex m s t = (r, s', t') \<Longrightarrow> adv s s'"
  using contract [of s m t] by (simp add: tok_contract_def)

lemma stays: "in_buf s \<Longrightarrow> lex m s t = (r, s', t') \<Longrightarrow> in_buf s'"
  by (blast intro: adv_in_buf progress)

lemma inside:
  assumes "lex m s t = (r, s', t')"
  obtains p where "tok_ptr t' = Some p" "lex_pos s \<le> p" "p + tok_len t' \<le> lex_pos s'"
  using contract [of s m t] assms by (auto simp: tok_contract_def)

lemma consumed: "lex m s t = (r, s', t') \<Longrightarrow> lex_pos s + r \<le> lex_pos s'"
  using contract [of s m t] by (simp add: tok_contract_def)

lemma failed: "lex m s t = (r, s', t') \<Longrightarrow> (r = 0) = (tok_type t' = SCPI_TOKEN_UNKNOWN)"
  using contract [of s m t] by (simp add: tok_contract_def)

lemma failed_len: "lex m s t = (0, s', t') \<Longrightarrow> tok_len t' = 0"
  using contract [of s m t] by (simp add: tok_contract_def)

end

text \<open>All but the block routine consume exactly what they report, so a failure leaves the position.\<close>

locale exact_tokenizer = tokenizer +
  assumes exact: "lex m s t = (r, s', t') \<Longrightarrow> lex_pos s' = lex_pos s + r"
begin

lemma failed_state: "lex m s t = (0, s', t') \<Longrightarrow> s' = s"
  using exact [of m s t 0 s' t'] progress [of m s t 0 s' t'] by (cases s; cases s') (auto simp: adv_def)

end

lemma adv_sub: "adv s s' \<Longrightarrow> lex_pos s + (lex_pos s' - lex_pos s) = lex_pos s'"
  by (simp add: adv_def)

lemma adv_rollback: "adv s s' \<Longrightarrow> adv s (s'\<lparr>lex_pos := lex_pos s\<rparr>)"
  by (simp add: adv_def)

lemma rollback_id: "adv s s' \<Longrightarrow> s'\<lparr>lex_pos := lex_pos s\<rparr> = s"
  by (cases s; cases s') (simp add: adv_def)

text \<open>The shape most routines share: a scan from the start, an empty scan being a failure.\<close>

lemma contract_scan:
  assumes "adv s s'" "tok_ptr t' = Some (lex_pos s)" "tok_len t' = lex_pos s' - lex_pos s" "r = tok_len t'"
    "(tok_len t' = 0) = (tok_type t' = SCPI_TOKEN_UNKNOWN)"
  shows "tok_contract s (r, s', t')"
  using assms by (auto simp: tok_contract_def adv_def)

interpretation ws: exact_tokenizer scpiLex_WhiteSpace
proof unfold_locales
  show "tok_contract s (scpiLex_WhiteSpace m s t)" for m s t
    unfolding scpiLex_WhiteSpace_def Let_def skipWs_def
    by (rule contract_scan) (simp_all add: adv_skip_while)
  show "lex_pos s' = lex_pos s + r" if "scpiLex_WhiteSpace m s t = (r, s', t')" for m s t r s' t'
    using that by (auto simp: scpiLex_WhiteSpace_def skipWs_def Let_def skip_while_pos)
qed

interpretation chars: exact_tokenizer scpiLex_CharacterProgramData
proof unfold_locales
  show "tok_contract s (scpiLex_CharacterProgramData m s t)" for m s t
    unfolding scpiLex_CharacterProgramData_def Let_def
    by (rule contract_scan) (simp_all add: adv_mnemonic_body)
  show "lex_pos s' = lex_pos s + r" if "scpiLex_CharacterProgramData m s t = (r, s', t')" for m s t r s' t'
    using that adv_sub [OF adv_mnemonic_body [of s m]]
    by (auto simp: scpiLex_CharacterProgramData_def Let_def)
qed

lemma adv_skipMantisa: "adv s (snd (skipMantisa m s))"
proof -
  obtain a s1 b s2 c s3 d s4 where e: "skipPlusmn m s = (a, s1)" "skipNumbers m s1 = (b, s2)"
    "skipChr m s2 (CHR ''.'') = (c, s3)" "skipNumbers m s3 = (d, s4)" by (metis surj_pair)
  have "adv s s1" "adv s1 s2" "adv s2 s3" "adv s3 s4"
    using e adv_skip_if [of s isplusmn m] adv_skip_while [of s1 isdigit m] adv_skipChr [of s2 m "CHR ''.''"]
      adv_skip_while [of s3 isdigit m] by (auto simp: skipPlusmn_def skipNumbers_def)
  then show ?thesis using e by (auto simp: skipMantisa_def intro: adv_trans)
qed

lemma adv_skipExponent: "adv s (snd (skipExponent m s))"
proof -
  obtain a s1 b s2 c s3 where e: "skipWs m (step 1 s) = (a, s1)" "skipPlusmn m s1 = (b, s2)"
    "skipNumbers m s2 = (c, s3)" by (metis surj_pair)
  have "adv (step 1 s) s1" "adv s1 s2" "adv s2 s3"
    using e adv_skip_while [of "step 1 s" isws m] adv_skip_if [of s1 isplusmn m] adv_skip_while [of s2 isdigit m]
    by (auto simp: skipPlusmn_def skipNumbers_def skipWs_def)
  then have "adv s s3" if "\<not> iseos s" using adv_step(1) [OF that] by (meson adv_trans)
  then show ?thesis using e by (auto simp: skipExponent_def)
qed

interpretation decimal: exact_tokenizer scpiLex_DecimalNumericProgramData
proof unfold_locales
  fix m s t
  obtain a s1 b sw c se where e: "skipMantisa m s = (a, s1)" "skipWs m s1 = (b, sw)" "skipExponent m sw = (c, se)"
    by (metis surj_pair)
  have a: "adv s s1" "adv s1 sw" "adv sw se"
    using e adv_skipMantisa [of s m] adv_skip_while [of s1 isws m] adv_skipExponent [of sw m]
    by (auto simp: skipWs_def)
  have roll: "se\<lparr>lex_pos := lex_pos s1\<rparr> = s1" "s1\<lparr>lex_pos := lex_pos s\<rparr> = s"
    using rollback_id a adv_trans by blast+
  define s2 where "s2 = (if a > 0 then if c = 0 then s1 else se else s)"
  have s2: "adv s s2" using a unfolding s2_def by (auto intro: adv_trans)
  have r: "scpiLex_DecimalNumericProgramData m s t = (lex_pos s2 - lex_pos s, s2,
      \<lparr>tok_type = (if lex_pos s2 - lex_pos s > 0 then SCPI_TOKEN_DECIMAL_NUMERIC_PROGRAM_DATA else SCPI_TOKEN_UNKNOWN),
       tok_ptr = Some (lex_pos s), tok_len = lex_pos s2 - lex_pos s\<rparr>)"
    by (simp add: scpiLex_DecimalNumericProgramData_def Let_def e s2_def roll)
  show "tok_contract s (scpiLex_DecimalNumericProgramData m s t)"
    unfolding r by (rule contract_scan) (simp_all add: s2)
  show "lex_pos s' = lex_pos s + r'" if "scpiLex_DecimalNumericProgramData m s t = (r', s', t')" for r' s' t'
    using that adv_sub [OF s2] by (auto simp: r)
qed

lemma adv_suffix_loop: "adv s (suffix_loop m s)"
proof (induction m s rule: suffix_loop.induct)
  case (1 m s)
  obtain sd s1 where e: "skipSlashDot m s = (sd, s1)" by (metis surj_pair)
  have a: "adv s s1" using adv_skipSlashDot [of s m] e by simp
  have b: "adv s1 (suffix_part m (snd (skipAlpha m s1)))"
    by (rule adv_trans [OF adv_skipAlpha adv_suffix_part])
  show ?case
    using 1 e a adv_trans [OF adv_trans [OF a b]] by (subst suffix_loop.simps) auto
qed

interpretation suffix: exact_tokenizer scpiLex_SuffixProgramData
proof unfold_locales
  fix m s t
  define s3 where "s3 = (case skipAlpha m (snd (skipChr m s (CHR ''/''))) of (n, s2) \<Rightarrow>
    if n > 0 then suffix_loop m (suffix_part m s2) else s2)"
  have a: "adv s (snd (skipAlpha m (snd (skipChr m s (CHR ''/'')))))"
    by (rule adv_trans [OF adv_skipChr adv_skipAlpha])
  have s3: "adv s s3"
    unfolding s3_def using a adv_trans [OF a adv_trans [OF adv_suffix_part adv_suffix_loop]]
    by (simp add: split_beta)
  have r: "scpiLex_SuffixProgramData m s t = (lex_pos s3 - lex_pos s, s3,
      \<lparr>tok_type = (if lex_pos s3 - lex_pos s > 0 then SCPI_TOKEN_SUFFIX_PROGRAM_DATA else SCPI_TOKEN_UNKNOWN),
       tok_ptr = Some (lex_pos s), tok_len = lex_pos s3 - lex_pos s\<rparr>)"
    using s3 rollback_id [OF s3]
    by (auto simp: scpiLex_SuffixProgramData_def Let_def split_beta s3_def adv_def)
  show "tok_contract s (scpiLex_SuffixProgramData m s t)"
    unfolding r by (rule contract_scan) (simp_all add: s3)
  show "lex_pos s' = lex_pos s + r'" if "scpiLex_SuffixProgramData m s t = (r', s', t')" for r' s' t'
    using that adv_sub [OF s3] by (auto simp: r)
qed

text \<open>A class scan behind a two-character prefix.\<close>

lemma prefix_scan:
  assumes "skipChr m s c = (h, s1)" "h \<noteq> 0" "\<not> iseos s1" "skip_while p m (step 1 s1) = (n, s2)"
  shows "lex_pos s2 = lex_pos s + 2 + n" "adv s s2"
proof -
  have s1: "s1 = step 1 s" "\<not> iseos s" using assms(1,2) by (auto simp: skipChr_def split: if_splits)
  show "lex_pos s2 = lex_pos s + 2 + n"
    using skip_while_pos [of p m "step 1 s1"] assms(4) s1 by simp
  have "adv s s1" "adv s1 (step 1 s1)" "adv (step 1 s1) s2"
    using s1 assms(3) adv_step(1) [of s] adv_step(1) [of s1] adv_skip_while [of "step 1 s1" p m] assms(4) by auto
  then show "adv s s2" by (meson adv_trans)
qed

interpretation nondecimal: exact_tokenizer scpiLex_NondecimalNumericData
proof unfold_locales
  fix m s t
  obtain h s1 where c: "skipChr m s (CHR ''#'') = (h, s1)" by (metis surj_pair)
  have bk: "s1\<lparr>lex_pos := lex_pos s\<rparr> = s" using rollback_id [OF adv_skipChr [of s m "CHR ''#''"]] c by simp
  have "(\<exists>n s2 ty. n > 0 \<and> adv s s2 \<and> lex_pos s2 = lex_pos s + 2 + n \<and> ty \<noteq> SCPI_TOKEN_UNKNOWN \<and>
      scpiLex_NondecimalNumericData m s t = (n + 2, s2, \<lparr>tok_type = ty, tok_ptr = Some (lex_pos s + 2), tok_len = n\<rparr>)) \<or>
    scpiLex_NondecimalNumericData m s t = (0, s, \<lparr>tok_type = SCPI_TOKEN_UNKNOWN, tok_ptr = Some (lex_pos s), tok_len = 0\<rparr>)"
  proof (cases "h \<noteq> 0 \<and> \<not> iseos s1")
    case False
    then show ?thesis using c bk by (auto simp: scpiLex_NondecimalNumericData_def Let_def)
  next
    case True
    obtain n1 t1 n2 t2 n3 t3 where e: "skipHexNum m (step 1 s1) = (n1, t1)" "skipOctNum m (step 1 s1) = (n2, t2)"
      "skipBinNum m (step 1 s1) = (n3, t3)" by (metis surj_pair)
    note e' = e [unfolded skipHexNum_def skipOctNum_def skipBinNum_def]
    have p: "lex_pos t1 = lex_pos s + 2 + n1" "lex_pos t2 = lex_pos s + 2 + n2" "lex_pos t3 = lex_pos s + 2 + n3"
      "adv s t1" "adv s t2" "adv s t3"
      using prefix_scan [OF c _ _ e'(1)] prefix_scan [OF c _ _ e'(2)] prefix_scan [OF c _ _ e'(3)] True by auto
    have roll: "t1\<lparr>lex_pos := lex_pos s\<rparr> = s" "t2\<lparr>lex_pos := lex_pos s\<rparr> = s" "t3\<lparr>lex_pos := lex_pos s\<rparr> = s"
      using p(4-6) by (simp_all add: rollback_id)
    show ?thesis
      using True p roll bk
      by (simp add: scpiLex_NondecimalNumericData_def Let_def c e [unfolded One_nat_def])
  qed
  note shape = this
  show "tok_contract s (scpiLex_NondecimalNumericData m s t)"
    using shape by (auto simp: tok_contract_def)
  show "lex_pos s' = lex_pos s + r'" if "scpiLex_NondecimalNumericData m s t = (r', s', t')" for r' s' t'
    using shape that by auto
qed

lemma quoted_adv:
  assumes "\<not> iseos s"
  shows "adv s (quoted m s q)"
proof -
  let ?s1 = "skipQuoteProgramData m (step 1 s) q"
  have a: "adv s ?s1" by (rule adv_trans [OF adv_step(1) [OF assms] adv_skipQuote])
  show ?thesis
    using a adv_trans [OF a adv_step(1)] adv_rollback [OF a] by (simp add: quoted_def Let_def)
qed

interpretation strings: exact_tokenizer scpiLex_StringProgramData
proof unfold_locales
  fix m s t
  define s1 where "s1 = (if \<not> iseos s then if ischr m s (CHR 0x22) then quoted m s (CHR 0x22)
    else if ischr m s (CHR 0x27) then quoted m s (CHR 0x27) else s else s)"
  have a: "adv s s1" by (simp add: s1_def quoted_adv)
  have r: "\<exists>ty. ty \<noteq> SCPI_TOKEN_UNKNOWN \<and> scpiLex_StringProgramData m s t = (lex_pos s1 - lex_pos s, s1,
      \<lparr>tok_type = (if lex_pos s1 - lex_pos s > 0 then ty else SCPI_TOKEN_UNKNOWN),
       tok_ptr = Some (lex_pos s), tok_len = lex_pos s1 - lex_pos s\<rparr>)"
    using a rollback_id [OF a]
    by (auto simp: scpiLex_StringProgramData_def Let_def s1_def adv_def)
  show "tok_contract s (scpiLex_StringProgramData m s t)"
    using r a by (auto intro!: contract_scan)
  show "lex_pos s' = lex_pos s + r'" if "scpiLex_StringProgramData m s t = (r', s', t')" for r' s' t'
    using that r adv_sub [OF a] by auto
qed

interpretation expression: exact_tokenizer "\<lambda>m s t. scpiLex_ProgramExpression m s (t\<lparr>tok_len := 0\<rparr>)"
proof unfold_locales
  fix m s t
  define sx where "sx = snd (skipProgramExpression m (step 1 s))"
  define s1 where "s1 = (if \<not> iseos s \<and> ischr m s (CHR ''('') \<and> \<not> iseos sx \<and> ischr m sx (CHR '')'') then step 1 sx else s)"
  have sx: "adv s sx" if "\<not> iseos s"
    using adv_trans [OF adv_step(1) [OF that] adv_skip_while] by (simp add: sx_def skipProgramExpression_def)
  have a: "adv s s1" using sx adv_trans [OF sx adv_step(1)] by (auto simp: s1_def)
  have r: "scpiLex_ProgramExpression m s (t\<lparr>tok_len := 0\<rparr>) = (lex_pos s1 - lex_pos s, s1,
      \<lparr>tok_type = (if lex_pos s1 - lex_pos s > 0 then SCPI_TOKEN_PROGRAM_EXPRESSION else SCPI_TOKEN_UNKNOWN),
       tok_ptr = Some (lex_pos s), tok_len = lex_pos s1 - lex_pos s\<rparr>)"
    using sx rollback_id [OF sx] unfolding scpiLex_ProgramExpression_def Let_def sx_def [symmetric] s1_def
    by (auto simp: adv_def)
  show "tok_contract s (scpiLex_ProgramExpression m s (t\<lparr>tok_len := 0\<rparr>))"
    unfolding r by (rule contract_scan) (simp_all add: a)
  show "lex_pos s' = lex_pos s + r'" if "scpiLex_ProgramExpression m s (t\<lparr>tok_len := 0\<rparr>) = (r', s', t')" for r' s' t'
    using that adv_sub [OF a] by (auto simp: r)
qed

lemma adv_block_digits: "adv s (snd (snd (block_digits m i len s)))"
  by (induction m i len s rule: block_digits.induct) (auto intro: adv_trans adv_step)

interpretation block: tokenizer scpiLex_ArbitraryBlockProgramData
proof unfold_locales
  fix s m t
  obtain h s1 where c: "skipChr m s (CHR ''#'') = (h, s1)" by (metis surj_pair)
  obtain i len sd where d: "block_digits m (code (m ! lex_pos s1) - 48) 0 (step 1 s1) = (i, len, sd)"
    by (metis surj_pair)
  have a1: "adv s s1" using adv_skipChr [of s m "CHR ''#''"] c by simp
  have h: "lex_pos s1 = lex_pos s + 1" if "h \<noteq> 0" using c that by (auto simp: skipChr_def split: if_splits)
  have ad: "adv s1 sd" "lex_pos s1 + 1 \<le> lex_pos sd" if "\<not> iseos s1"
  proof -
    have "adv (step 1 s1) sd" using adv_block_digits [of "step 1 s1" m] d by (metis snd_conv)
    then show "adv s1 sd" "lex_pos s1 + 1 \<le> lex_pos sd" using adv_step(1) [OF that]
      by (auto intro: adv_trans simp: adv_def)
  qed
  have bad: "s1\<lparr>lex_pos := lex_pos s\<rparr> = s" "\<not> iseos s1 \<Longrightarrow> sd\<lparr>lex_pos := lex_pos s\<rparr> = s"
    using rollback_id [OF a1] rollback_id [OF adv_trans [OF a1 ad(1)]] by auto
  have eos: "adv s (x\<lparr>lex_pos := lex_buffer x + lex_len x\<rparr>)"
    if "h \<noteq> 0" "lex_buffer x = lex_buffer s" "lex_len x = lex_len s" for x
    using c that by (auto simp: adv_def skipChr_def iseos_def split: if_splits)
  have buf: "lex_buffer s1 = lex_buffer s" "lex_len s1 = lex_len s" using a1 by (auto simp: adv_def)
  have bufd: "lex_buffer sd = lex_buffer s" "lex_len sd = lex_len s" if "\<not> iseos s1"
    using adv_trans [OF a1 ad(1)] that by (auto simp: adv_def)
  have ok: "adv s (step len sd)" if "\<not> iseos s1" "lex_pos sd + len \<le> lex_buffer s + lex_len s"
    using adv_trans [OF a1 ad(1)] that by (auto simp: adv_def)
  let ?fail = "\<lambda>s'. (0, s', \<lparr>tok_type = SCPI_TOKEN_UNKNOWN, tok_ptr = Some (lex_pos s), tok_len = 0\<rparr>)"
  have fail: "tok_contract s (?fail s')" if "adv s s'" for s'
    using that by (auto simp: tok_contract_def adv_def)
  note defs = scpiLex_ArbitraryBlockProgramData_def Let_def c d d [unfolded One_nat_def] prod.case
  show "tok_contract s (scpiLex_ArbitraryBlockProgramData m s t)"
  proof (cases "h \<noteq> 0 \<and> \<not> iseos s1 \<and> isNonzeroDigit (m ! lex_pos s1)")
    case False
    then consider "h = 0" | "h \<noteq> 0" "iseos s1" | "h \<noteq> 0" "\<not> iseos s1" "\<not> isNonzeroDigit (m ! lex_pos s1)" by blast
    then show ?thesis
      by cases (simp_all add: defs bad buf fail [OF adv_refl] fail [OF eos, OF _ buf, unfolded buf])
  next
    case True
    then have t: "h \<noteq> 0" "\<not> iseos s1" "isNonzeroDigit (m ! lex_pos s1)" by auto
    consider (valid) "i = 0" "lex_pos sd + len \<le> lex_buffer s + lex_len s"
      | (long) "i = 0" "\<not> lex_pos sd + len \<le> lex_buffer s + lex_len s"
      | "i \<noteq> 0" "iseos sd" | "i \<noteq> 0" "\<not> iseos sd" by blast
    then show ?thesis
    proof cases
      case valid
      have "scpiLex_ArbitraryBlockProgramData m s t = (len + (lex_pos sd - lex_pos s), step len sd,
          \<lparr>tok_type = SCPI_TOKEN_ARBITRARY_BLOCK_PROGRAM_DATA, tok_ptr = Some (lex_pos sd), tok_len = len\<rparr>)"
        using valid t by (simp add: defs bufd)
      then show ?thesis using t ok ad h valid by (auto simp: tok_contract_def)
    next
      case long
      have "lex_buffer (step len sd) = lex_buffer s" "lex_len (step len sd) = lex_len s" using bufd t by auto
      from fail [OF eos [OF t(1) this]] show ?thesis using long t by (simp add: defs bufd)
    qed (use t fail [OF eos, OF t(1) bufd [OF t(2)]] in \<open>simp_all add: defs bufd bad fail [OF adv_refl]\<close>)
  qed
qed

lemma single_char_contract: "ty \<noteq> SCPI_TOKEN_UNKNOWN \<Longrightarrow> tok_contract s (single_char ty c m s)"
  "single_char ty c m s = (r, s', t') \<Longrightarrow> lex_pos s' = lex_pos s + r"
  by (auto simp: single_char_def skipChr_def tok_contract_def adv_def iseos_def split: if_splits)

interpretation comma: exact_tokenizer scpiLex_Comma
  by unfold_locales (simp_all add: scpiLex_Comma_def single_char_contract)

interpretation semicolon: exact_tokenizer scpiLex_Semicolon
  by unfold_locales (simp_all add: scpiLex_Semicolon_def single_char_contract)

interpretation colon: exact_tokenizer scpiLex_Colon
  by unfold_locales (simp_all add: scpiLex_Colon_def single_char_contract)

interpretation specific: exact_tokenizer "scpiLex_SpecificCharacter chr" for chr
  by unfold_locales (simp_all add: scpiLex_SpecificCharacter_def single_char_contract)

interpretation newline: exact_tokenizer scpiLex_NewLine
proof unfold_locales
  fix m s t
  define s2 where "s2 = snd (skipChr m (snd (skipChr m s (CHR 0x0D))) (CHR 0x0A))"
  have a: "adv s s2" unfolding s2_def by (rule adv_trans [OF adv_skipChr adv_skipChr])
  have r: "scpiLex_NewLine m s t = (lex_pos s2 - lex_pos s, s2,
      \<lparr>tok_type = (if lex_pos s2 - lex_pos s > 0 then SCPI_TOKEN_NL else SCPI_TOKEN_UNKNOWN),
       tok_ptr = Some (lex_pos s), tok_len = lex_pos s2 - lex_pos s\<rparr>)"
    using a rollback_id [OF a] by (auto simp: scpiLex_NewLine_def Let_def s2_def adv_def)
  show "tok_contract s (scpiLex_NewLine m s t)"
    unfolding r by (rule contract_scan) (simp_all add: a)
  show "lex_pos s' = lex_pos s + r'" if "scpiLex_NewLine m s t = (r', s', t')" for r' s' t'
    using that adv_sub [OF a] by (auto simp: r)
qed

text \<open>Headers: a scan that found anything has moved.\<close>

lemma mnemonic_res:
  assumes "skipProgramMnemonic m s = (res, s')"
  shows "\<bar>res\<bar> = int (lex_pos s') - int (lex_pos s)" "adv s s'"
  using assms adv_mnemonic_body [of s m]
  by (auto simp: skipProgramMnemonic_def Let_def adv_def split: if_splits)

lemma common_res:
  assumes "skipCommonProgramHeader m s = (res, s')"
  shows "adv s s'" "res \<noteq> SKIP_NONE \<Longrightarrow> lex_pos s < lex_pos s'" "res = SKIP_NONE \<Longrightarrow> s' = s"
proof -
  obtain st s1 r s2 where e: "skipStar m s = (st, s1)" "skipProgramMnemonic m s1 = (r, s2)" by (metis surj_pair)
  have s1: "if st \<noteq> 0 then \<not> iseos s \<and> s1 = step 1 s else s1 = s" using e by (auto simp: skipStar_def split: if_splits)
  have a: "adv s1 s2" using mnemonic_res(2) [OF e(2)] .
  have s': "s' = (if st \<noteq> 0 then s2 else s)" "st = 0 \<longleftrightarrow> res = SKIP_NONE"
    using assms e s1 by (auto simp: skipCommonProgramHeader_def split: if_splits)
  show "adv s s'" using s' s1 a by (auto split: if_splits simp: adv_def iseos_def)
  show "lex_pos s < lex_pos s'" if "res \<noteq> SKIP_NONE" using that s' s1 a by (auto simp: adv_def)
  show "s' = s" if "res = SKIP_NONE" using that s' by simp
qed

lemma compound_res:
  assumes "skipCompoundProgramHeader m s = (res, s')"
  shows "adv s s'" "res \<noteq> SKIP_NONE \<Longrightarrow> lex_pos s < lex_pos s'"
proof -
  obtain fc s1 r s2 where e: "skipColon m s = (fc, s1)" "skipProgramMnemonic m s1 = (r, s2)" by (metis surj_pair)
  have s1: "if fc \<noteq> 0 then \<not> iseos s \<and> s1 = step 1 s else s1 = s" using e by (auto simp: skipColon_def split: if_splits)
  have a: "adv s s1" "adv s1 s2" "adv s2 (snd (compound_loop m s2))"
    using s1 mnemonic_res(2) [OF e(2)] adv_step(1) [of s] adv_compound_loop by (auto split: if_splits)
  have r: "\<bar>r\<bar> = int (lex_pos s2) - int (lex_pos s1)" using mnemonic_res(1) [OF e(2)] .
  have s': "s' = (if r \<ge> SKIP_OK then snd (compound_loop m s2) else s2)" "fc = 0 \<and> r = 0 \<Longrightarrow> res = SKIP_NONE"
    using assms e by (auto simp: skipCompoundProgramHeader_def split: if_splits)
  show "adv s s'" using s' adv_trans [OF a(1) a(2)] adv_trans [OF adv_trans [OF a(1) a(2)] a(3)] by (simp split: if_splits)
  have le: "lex_pos s1 \<le> lex_pos s2" "lex_pos s2 \<le> lex_pos s'" using a s'(1) by (auto simp: adv_def)
  show "lex_pos s < lex_pos s'" if "res \<noteq> SKIP_NONE"
  proof (cases "fc = 0")
    case True
    then have "0 < \<bar>r\<bar>" "s1 = s" using that s'(2) s1 by auto
    then have "lex_pos s < lex_pos s2" using r by simp
    then show ?thesis using le by simp
  next
    case False
    then show ?thesis using s1 le by auto
  qed
qed

lemma header_shape:
  obtains s2 ty where "adv s s2" "(ty = SCPI_TOKEN_UNKNOWN) = (lex_pos s2 = lex_pos s)"
    "scpiLex_ProgramHeader m s t =
      (lex_pos s2 - lex_pos s, s2, \<lparr>tok_type = ty, tok_ptr = Some (lex_pos s), tok_len = lex_pos s2 - lex_pos s\<rparr>)"
proof -
  obtain r1 s1 q1 u1 r2 s2 q2 u2 where e: "skipCommonProgramHeader m s = (r1, s1)" "skipChr m s1 (CHR ''?'') = (q1, u1)"
    "skipCompoundProgramHeader m s1 = (r2, s2)" "skipChr m s2 (CHR ''?'') = (q2, u2)" by (metis surj_pair)
  note c = common_res [OF e(1)] and d = compound_res [OF e(3)]
  have q: "adv s1 u1" "adv s2 u2" using e adv_skipChr [of s1 m] adv_skipChr [of s2 m] by (metis snd_conv)+
  have u: "adv s u1" "adv s s2" "adv s u2"
    using c(1) d(1) q adv_trans by blast+
  have roll: "s2\<lparr>lex_pos := lex_pos s\<rparr> = s" by (rule rollback_id [OF u(2)])
  consider "r1 \<ge> SKIP_OK" | "r1 \<le> SKIP_INCOMPLETE" | "r1 = 0" "r2 \<ge> SKIP_OK" | "r1 = 0" "r2 \<le> SKIP_INCOMPLETE" | "r1 = 0" "r2 = 0"
    by linarith
  then show thesis
  proof cases
    case 1
    then show thesis using that [of u1 "if q1 \<ge> SKIP_OK then SCPI_TOKEN_COMMON_QUERY_PROGRAM_HEADER else SCPI_TOKEN_COMMON_PROGRAM_HEADER"]
      c q u by (auto simp: scpiLex_ProgramHeader_def Let_def e adv_def)
  next
    case 2
    then show thesis using that [of s1 SCPI_TOKEN_INCOMPLETE_COMMON_PROGRAM_HEADER] c
      by (auto simp: scpiLex_ProgramHeader_def Let_def e)
  next
    case 3
    then have "s1 = s" using c by simp
    note e = e [unfolded this]
    show thesis using 3 that [of u2 "if q2 \<ge> SKIP_OK then SCPI_TOKEN_COMPOUND_QUERY_PROGRAM_HEADER else SCPI_TOKEN_COMPOUND_PROGRAM_HEADER"]
      c d q u by (auto simp: scpiLex_ProgramHeader_def Let_def e adv_def)
  next
    case 4
    then have "s1 = s" using c by simp
    note e = e [unfolded this]
    show thesis using 4 that [of s2 SCPI_TOKEN_INCOMPLETE_COMPOUND_PROGRAM_HEADER] c d u
      by (auto simp: scpiLex_ProgramHeader_def Let_def e)
  next
    case 5
    then have "s1 = s" using c by simp
    note e = e [unfolded this]
    show thesis using 5 that [of s SCPI_TOKEN_UNKNOWN] roll by (simp add: scpiLex_ProgramHeader_def Let_def e)
  qed
qed

interpretation header: exact_tokenizer scpiLex_ProgramHeader
proof unfold_locales
  fix m s t
  obtain s2 ty where h: "adv s s2" "(ty = SCPI_TOKEN_UNKNOWN) = (lex_pos s2 = lex_pos s)"
    "scpiLex_ProgramHeader m s t =
      (lex_pos s2 - lex_pos s, s2, \<lparr>tok_type = ty, tok_ptr = Some (lex_pos s), tok_len = lex_pos s2 - lex_pos s\<rparr>)"
    by (rule header_shape)
  show "tok_contract s (scpiLex_ProgramHeader m s t)"
    unfolding h(3) by (rule contract_scan) (use h in \<open>auto simp: adv_def\<close>)
  show "lex_pos s' = lex_pos s + r'" if "scpiLex_ProgramHeader m s t = (r', s', t')" for r' s' t'
    using that adv_sub [OF h(1)] by (auto simp: h(3))
qed

end
