(* ===== verification/Scpi_Unit.thy ===== *)
theory Scpi_Unit
  imports Scpi_Lexer
begin

text \<open>
  Detection of one program message unit: a header, its data and its terminator
  (\<^verbatim>\<open>scpiParser_parseProgramData\<close>, \<^verbatim>\<open>scpiParser_parseAllProgramData\<close> and
  \<^verbatim>\<open>scpiParser_detectProgramMessageUnit\<close> of \<^verbatim>\<open>libscpi/src/parser.c\<close>). The lemmas lift the
  tokenizer contract to the unit: it never reads past the buffer, and it always makes progress.
\<close>

definition invalidateToken :: "scpi_token_t \<Rightarrow> nat option \<Rightarrow> scpi_token_t" where
  "invalidateToken t ptr = \<lparr>tok_type = SCPI_TOKEN_UNKNOWN, tok_ptr = ptr, tok_len = 0\<rparr>"

text \<open>A decimal number with the white space and the suffix that may follow it.\<close>

definition decimal_with_suffix :: "string \<Rightarrow> lex_state_t \<Rightarrow> scpi_token_t \<Rightarrow> nat \<times> lex_state_t \<times> scpi_token_t" where
  "decimal_with_suffix m s t =
     (let (result, s, t) = scpiLex_DecimalNumericProgramData m s t
      in if result \<noteq> 0
         then let (wsLen, s, tmp) = scpiLex_WhiteSpace m s t; (suffixLen, s, tmp) = scpiLex_SuffixProgramData m s tmp
              in if suffixLen > 0
                 then let t = t\<lparr>tok_len := tok_len t + (wsLen + suffixLen),
                               tok_type := SCPI_TOKEN_DECIMAL_NUMERIC_PROGRAM_DATA_WITH_SUFFIX\<rparr>
                      in (tok_len t, s, t)
                 else (result, s, t)
         else (result, s, t))"

definition or_else ::
  "nat \<times> lex_state_t \<times> scpi_token_t \<Rightarrow> (lex_state_t \<Rightarrow> scpi_token_t \<Rightarrow> nat \<times> lex_state_t \<times> scpi_token_t) \<Rightarrow>
   nat \<times> lex_state_t \<times> scpi_token_t" where
  "or_else x lx = (case x of (result, s, t) \<Rightarrow> if result = 0 then lx s t else (result, s, t))"

definition scpiParser_parseProgramData :: "string \<Rightarrow> lex_state_t \<Rightarrow> scpi_token_t \<Rightarrow> nat \<times> lex_state_t \<times> scpi_token_t" where
  "scpiParser_parseProgramData m s t =
     (let (ws1, s, tmp) = scpiLex_WhiteSpace m s t;
          x = scpiLex_NondecimalNumericData m s t;
          x = or_else x (scpiLex_CharacterProgramData m);
          x = or_else x (decimal_with_suffix m);
          x = or_else x (scpiLex_StringProgramData m);
          x = or_else x (scpiLex_ArbitraryBlockProgramData m);
          (result, s, t) = or_else x (scpiLex_ProgramExpression m);
          (ws2, s, tmp) = scpiLex_WhiteSpace m s t
      in (result + (ws1 + ws2), s, t))"

subsection \<open>Progress of one parameter\<close>

text \<open>The weaker contract of composed scans: the result may count white space only.\<close>

definition scan_contract :: "lex_state_t \<Rightarrow> nat \<times> lex_state_t \<times> scpi_token_t \<Rightarrow> bool" where
  "scan_contract s res = (case res of (r, s', t') \<Rightarrow>
     adv s s' \<and> (\<exists>p. tok_ptr t' = Some p \<and> lex_pos s \<le> p \<and> p + tok_len t' \<le> lex_pos s') \<and>
     lex_pos s + r \<le> lex_pos s' \<and> (tok_type t' \<noteq> SCPI_TOKEN_UNKNOWN \<longrightarrow> lex_pos s < lex_pos s'))"

lemma tok_contract_scan: "tok_contract s x \<Longrightarrow> scan_contract s x"
  by (auto simp: tok_contract_def scan_contract_def)

lemma or_else_contract:
  assumes "tok_contract s (r, s', t')" "\<And>s t. tok_len t = 0 \<Longrightarrow> tok_contract s (lx s t)"
  shows "tok_contract s (or_else (r, s', t') lx)"
proof (cases "r = 0")
  case True
  then have a: "adv s s'" "tok_len t' = 0" using assms(1) by (auto simp: tok_contract_def)
  obtain r2 s2 t2 where e: "lx s' t' = (r2, s2, t2)" by (metis prod_cases3)
  have c: "tok_contract s' (r2, s2, t2)" using assms(2) [OF a(2), of s'] e by simp
  have "adv s s2" using adv_trans [OF a(1), of s2] c by (auto simp: tok_contract_def)
  moreover have "lex_pos s \<le> lex_pos s'" using a by (simp add: adv_def)
  ultimately show ?thesis using True c e by (auto simp: or_else_def tok_contract_def)
next
  case False
  then show ?thesis using assms by (simp add: or_else_def)
qed

lemma decimal_with_suffix_contract: "tok_contract s (decimal_with_suffix m s t)"
proof -
  obtain r s1 t1 w s2 u f s3 v where e: "scpiLex_DecimalNumericProgramData m s t = (r, s1, t1)"
    "scpiLex_WhiteSpace m s1 t1 = (w, s2, u)" "scpiLex_SuffixProgramData m s2 u = (f, s3, v)"
    by (metis prod_cases3)
  have c: "tok_contract s (r, s1, t1)" using decimal.contract [of s m t] e by simp
  have a: "adv s1 s2" "adv s2 s3" using ws.progress e suffix.progress by blast+
  have x: "lex_pos s1 = lex_pos s + r" "lex_pos s2 = lex_pos s1 + w" "lex_pos s3 = lex_pos s2 + f"
    using decimal.exact ws.exact suffix.exact e by blast+
  obtain p where p: "tok_ptr t1 = Some p" "lex_pos s \<le> p" "p + tok_len t1 \<le> lex_pos s1"
    using decimal.inside [OF e(1)] by blast
  have l: "tok_len t1 = r" "tok_ptr t1 = Some (lex_pos s)"
    using e(1) by (auto simp: scpiLex_DecimalNumericProgramData_def Let_def split: prod.splits if_splits)
  have "adv s s3" using c adv_trans [OF _ adv_trans [OF a]] by (auto simp: tok_contract_def)
  then show ?thesis
    using c x l by (auto simp: decimal_with_suffix_def e tok_contract_def Let_def)
qed

lemma parseProgramData_contract:
  assumes "scpiParser_parseProgramData m s t = (r, s', t')"
  shows "scan_contract s (r, s', t')"
proof -
  obtain w1 s1 u1 where e1: "scpiLex_WhiteSpace m s t = (w1, s1, u1)" by (metis prod_cases3)
  define x where "x = or_else (or_else (or_else (or_else (or_else (scpiLex_NondecimalNumericData m s1 t)
    (scpiLex_CharacterProgramData m)) (decimal_with_suffix m)) (scpiLex_StringProgramData m))
    (scpiLex_ArbitraryBlockProgramData m)) (scpiLex_ProgramExpression m)"
  have ex: "tok_contract s1 (scpiLex_ProgramExpression m s1 t)" if "tok_len t = 0" for s1 t
  proof -
    have "t\<lparr>tok_len := 0\<rparr> = t" using that by (cases t) simp
    then show ?thesis using expression.contract [of s1 m t] by simp
  qed
  note alt = or_else_contract [OF _ chars.contract] or_else_contract [OF _ decimal_with_suffix_contract]
    or_else_contract [OF _ strings.contract] or_else_contract [OF _ block.contract] or_else_contract [OF _ ex]
  have step: "tok_contract s1 (or_else y lx)"
    if "tok_contract s1 y" "\<And>s t. tok_len t = 0 \<Longrightarrow> tok_contract s (lx s t)" for y lx
    using or_else_contract [of s1 "fst y" "fst (snd y)" "snd (snd y)" lx] that by simp
  have x: "tok_contract s1 x"
    unfolding x_def
    by (intro step nondecimal.contract chars.contract decimal_with_suffix_contract strings.contract block.contract ex)
  obtain rx sx tx where ex': "x = (rx, sx, tx)" by (metis prod_cases3)
  obtain w2 s2 u2 where e2: "scpiLex_WhiteSpace m sx tx = (w2, s2, u2)" by (metis prod_cases3)
  have r: "r = rx + (w1 + w2)" "s' = s2" "t' = tx"
    using assms by (auto simp: scpiParser_parseProgramData_def Let_def e1 x_def [symmetric] ex' e2)
  have a: "adv s s1" "adv s1 sx" "adv sx s2"
    using ws.progress [OF e1] ws.progress [OF e2] x ex' by (auto simp: tok_contract_def)
  have "lex_pos s1 = lex_pos s + w1" "lex_pos s2 = lex_pos sx + w2" using ws.exact e1 e2 by blast+
  then show ?thesis
    using adv_trans [OF a(1) adv_trans [OF a(2,3)]] x ex' r by (auto simp: scan_contract_def tok_contract_def)
qed

subsection \<open>The data of a unit\<close>

function parse_all_loop :: "string \<Rightarrow> lex_state_t \<Rightarrow> scpi_token_t \<Rightarrow> nat \<Rightarrow> int \<Rightarrow> int \<Rightarrow> scpi_token_type_t \<times> int \<times> int \<times> lex_state_t" where
  "parse_all_loop m s tmp result len paramCount =
     (let len = len + int result;
          (result, s1, tmp) = scpiParser_parseProgramData m s tmp
      in if tok_type tmp \<noteq> SCPI_TOKEN_UNKNOWN
         then let len = len + int result; paramCount = paramCount + 1;
                  (result, s2, tmp) = scpiLex_Comma m s1 tmp
              in if result \<noteq> 0 then parse_all_loop m s2 tmp result len paramCount
                 else (SCPI_TOKEN_ALL_PROGRAM_DATA, len, paramCount, s2)
         else (SCPI_TOKEN_UNKNOWN, 0, -1, s1))"
  by pat_completeness auto
termination
proof (relation "measure (\<lambda>(m, s, _). left s)", goal_cases)
  case (2 m s tmp result len paramCount len1 x r y s1 tmp1 len2 pc z r2 y2 s2 tmp2)
  then have "scpiParser_parseProgramData m s tmp = (r, s1, tmp1)" "scpiLex_Comma m s1 tmp1 = (r2, s2, tmp2)" by simp_all
  from parseProgramData_contract [OF this(1)] this(2)
  have a: "adv s s1" "scpiLex_Comma m s1 tmp1 = (r2, s2, tmp2)" by (auto simp: scan_contract_def)
  from a(2) have "adv s1 s2" "lex_pos s2 = lex_pos s1 + r2" by (blast intro: comma.progress comma.exact)+
  then show ?case using adv_left [OF a(1)] 2 by (auto simp: left_def adv_def)
qed simp

declare parse_all_loop.simps [simp del]

definition scpiParser_parseAllProgramData ::
  "string \<Rightarrow> lex_state_t \<Rightarrow> scpi_token_t \<Rightarrow> nat \<times> lex_state_t \<times> scpi_token_t \<times> int" where
  "scpiParser_parseAllProgramData m s t =
     (let ptr = lex_pos s; (ty, len, paramCount, s1) = parse_all_loop m s t 1 (-1) 0
      in (nat len, s1, \<lparr>tok_type = ty, tok_ptr = Some ptr, tok_len = nat len\<rparr>, paramCount))"

definition scpiParser_detectProgramMessageUnit ::
  "string \<Rightarrow> scpi_parser_state_t \<Rightarrow> nat \<Rightarrow> nat \<Rightarrow> nat \<times> scpi_parser_state_t" where
  "scpiParser_detectProgramMessageUnit m state buffer len =
     (let lex_state = \<lparr>lex_buffer = buffer, lex_pos = buffer, lex_len = len\<rparr>;
          (_, s1, tmp) = scpiLex_WhiteSpace m lex_state (programData state);
          (_, s2, hdr) = scpiLex_ProgramHeader m s1 (programHeader state);
          (w, s3, tmp) = scpiLex_WhiteSpace m s2 tmp;
          (s4, data, nparams) =
            (if w > 0
             then let (_, s4, data, n) = scpiParser_parseAllProgramData m s3 (programData state) in (s4, data, n)
             else (s3, invalidateToken (programData state) (Some (lex_pos s3)), 0));
          (result, s5, tmp) = scpiLex_NewLine m s4 tmp;
          (result, s6, tmp) = (if result = 0 then scpiLex_Semicolon m s5 tmp else (result, s5, tmp));
          (s7, hdr, data) =
            (if \<not> scpiLex_IsEos s6 \<and> result = 0
             then (step 1 s6, hdr\<lparr>tok_len := 1, tok_type := SCPI_TOKEN_INVALID\<rparr>,
                   invalidateToken data (Some (lex_buffer s6)))
             else (s6, hdr, data));
          term = (if tok_type tmp = SCPI_TOKEN_SEMICOLON then SCPI_MESSAGE_TERMINATION_SEMICOLON
                  else if tok_type tmp = SCPI_TOKEN_NL then SCPI_MESSAGE_TERMINATION_NL
                  else SCPI_MESSAGE_TERMINATION_NONE)
      in (lex_pos s7 - lex_buffer s7,
          \<lparr>programHeader = hdr, programData = data, numberOfParameters = nparams, msg_termination = term\<rparr>))"

subsection \<open>A unit stays in the buffer and makes progress\<close>

lemma parse_all_loop_contract:
  assumes "parse_all_loop m s tmp result len n = (ty, l, n', s')"
  shows "adv s s' \<and> l \<le> max 0 (len + int result + (int (lex_pos s') - int (lex_pos s)))"
  using assms
proof (induction m s tmp result len n arbitrary: l rule: parse_all_loop.induct)
  case (1 m s tmp result len n)
  obtain r s1 t1 where p: "scpiParser_parseProgramData m s tmp = (r, s1, t1)" by (metis prod_cases3)
  obtain r2 s2 t2 where c: "scpiLex_Comma m s1 t1 = (r2, s2, t2)" by (metis prod_cases3)
  have a: "adv s s1" "lex_pos s + r \<le> lex_pos s1" using parseProgramData_contract [OF p] by (auto simp: scan_contract_def)
  have b: "adv s1 s2" "lex_pos s2 = lex_pos s1 + r2" using comma.progress [OF c] comma.exact [OF c] by auto
  show ?case
  proof (cases "tok_type t1 \<noteq> SCPI_TOKEN_UNKNOWN \<and> r2 \<noteq> 0")
    case True
    then have "parse_all_loop m s2 t2 r2 (len + int result + int r) (n + 1) = (ty, l, n', s')"
      using 1(2) p c by (subst (asm) parse_all_loop.simps) (simp add: Let_def)
    then have "adv s2 s' \<and> l \<le> max 0 (len + int result + int r + int r2 + (int (lex_pos s') - int (lex_pos s2)))"
      using 1(1) [OF refl p [symmetric] refl refl] True c by simp
    then show ?thesis using a b adv_trans [OF a(1) adv_trans [OF b(1)]] by auto
  next
    case False
    then show ?thesis
      using 1(2) p c a b adv_trans [OF a(1) b(1)] by (subst (asm) parse_all_loop.simps) (auto simp: Let_def split: if_splits)
  qed
qed

lemma parseAll_contract:
  assumes "scpiParser_parseAllProgramData m s t = (r, s', t', n)"
  shows "adv s s'" "tok_ptr t' = Some (lex_pos s)" "lex_pos s + tok_len t' \<le> lex_pos s'"
proof -
  obtain ty l k u where e: "parse_all_loop m s t 1 (-1) 0 = (ty, l, k, u)" by (metis prod_cases4)
  have "s' = u" "t' = \<lparr>tok_type = ty, tok_ptr = Some (lex_pos s), tok_len = nat l\<rparr>"
    using assms e by (auto simp: scpiParser_parseAllProgramData_def Let_def)
  then show "adv s s'" "tok_ptr t' = Some (lex_pos s)" "lex_pos s + tok_len t' \<le> lex_pos s'"
    using parse_all_loop_contract [OF e] by (auto simp: adv_def)
qed

definition token_in :: "nat \<Rightarrow> nat \<Rightarrow> scpi_token_t \<Rightarrow> bool" where
  "token_in lo hi t \<longleftrightarrow> (\<exists>p. tok_ptr t = Some p \<and> lo \<le> p \<and> p + tok_len t \<le> hi)"

lemma detect_shape:
  assumes "scpiParser_detectProgramMessageUnit m st buf len = (r, st')"
  shows "r \<le> len \<and> (0 < len \<longrightarrow> 0 < r) \<and>
    (msg_termination st' \<noteq> SCPI_MESSAGE_TERMINATION_NONE \<longrightarrow> 0 < r) \<and>
    token_in buf (buf + r) (programHeader st') \<and> token_in buf (buf + r) (programData st')"
proof -
  let ?s = "\<lparr>lex_buffer = buf, lex_pos = buf, lex_len = len\<rparr>"
  obtain w1 s1 t1 where e1: "scpiLex_WhiteSpace m ?s (programData st) = (w1, s1, t1)" by (metis prod_cases3)
  obtain h s2 hdr where e2: "scpiLex_ProgramHeader m s1 (programHeader st) = (h, s2, hdr)" by (metis prod_cases3)
  obtain w s3 t3 where e3: "scpiLex_WhiteSpace m s2 t1 = (w, s3, t3)" by (metis prod_cases3)
  obtain pr p4 pd pn where e4: "scpiParser_parseAllProgramData m s3 (programData st) = (pr, p4, pd, pn)" by (metis prod_cases4)
  define s4 where "s4 = (if w > 0 then p4 else s3)"
  define data where "data = (if w > 0 then pd else invalidateToken (programData st) (Some (lex_pos s3)))"
  obtain r5 s5 t5 where e5: "scpiLex_NewLine m s4 t3 = (r5, s5, t5)" by (metis prod_cases3)
  obtain r6 s6 t6 where e6: "scpiLex_Semicolon m s5 t5 = (r6, s6, t6)" by (metis prod_cases3)
  have a: "adv ?s s1" "adv s1 s2" "adv s2 s3" "adv s3 s4" "adv s4 s5" "adv s5 s6"
    using ws.progress [OF e1] header.progress [OF e2] ws.progress [OF e3] parseAll_contract [OF e4]
      newline.progress [OF e5] semicolon.progress [OF e6] by (auto simp: s4_def)
  have b: "adv ?s s5" "adv ?s s6" using a by (meson adv_trans)+
  have l4: "lex_pos s3 \<le> lex_pos s4" "lex_pos s4 \<le> lex_pos s5" "lex_pos s5 \<le> lex_pos s6" "lex_pos s2 \<le> lex_pos s3"
    "buf \<le> lex_pos s1" "lex_pos s1 \<le> lex_pos s2" using a by (auto simp: adv_def)
  obtain hp where hp: "tok_ptr hdr = Some hp" "lex_pos s1 \<le> hp" "hp + tok_len hdr \<le> lex_pos s2"
    using header.inside [OF e2] by blast
  obtain dp where dp: "tok_ptr data = Some dp" "lex_pos s3 \<le> dp" "dp + tok_len data \<le> lex_pos s4"
    using parseAll_contract [OF e4] by (cases "w > 0") (auto simp: data_def s4_def invalidateToken_def)
  have x: "lex_pos s5 = lex_pos s4 + r5" "lex_pos s6 = lex_pos s5 + r6"
    using newline.exact [OF e5] semicolon.exact [OF e6] by auto
  define s7 where "s7 = (if r5 = 0 then s6 else s5)"
  define res where "res = (if r5 = 0 then r6 else r5)"
  have b7: "adv ?s s7" "lex_pos s4 \<le> lex_pos s7" using b l4 by (auto simp: s7_def)
  let ?bad = "\<not> iseos s7 \<and> res = 0"
  define t7 where "t7 = (if r5 = 0 then t6 else t5)"
  have data: "(if w > 0 then let (uu, s4, data, n) = scpiParser_parseAllProgramData m s3 (programData st) in (s4, data, n)
      else (s3, invalidateToken (programData st) (Some (lex_pos s3)), 0)) = (s4, data, if w > 0 then pn else 0)"
    by (simp add: e4 s4_def data_def)
  have trm: "(if r5 = 0 then scpiLex_Semicolon m s5 t5 else (r5, s5, t5)) = (res, s7, t7)"
    by (simp add: e6 res_def s7_def t7_def)
  have buf7: "lex_buffer s7 = buf" using b7 by (simp add: adv_def)
  have d: "r = (if ?bad then lex_pos s7 + 1 - buf else lex_pos s7 - buf)"
    "programHeader st' = (if ?bad then hdr\<lparr>tok_len := 1, tok_type := SCPI_TOKEN_INVALID\<rparr> else hdr)"
    "programData st' = (if ?bad then invalidateToken data (Some buf) else data)"
    "msg_termination st' = (if tok_type t7 = SCPI_TOKEN_SEMICOLON then SCPI_MESSAGE_TERMINATION_SEMICOLON
       else if tok_type t7 = SCPI_TOKEN_NL then SCPI_MESSAGE_TERMINATION_NL else SCPI_MESSAGE_TERMINATION_NONE)"
    using assms unfolding scpiParser_detectProgramMessageUnit_def Let_def e1 e2 e3 prod.case data [unfolded Let_def] e5 trm scpiLex_IsEos_def
    by (cases ?bad; simp add: buf7; auto)+
  have s7: "lex_buffer s7 = buf" "lex_len s7 = len" "buf \<le> lex_pos s7" "lex_pos s7 \<le> buf + len"
    using b7 by (auto simp: adv_def)
  have "r \<le> len" using s7 d(1) by (auto simp: iseos_def)
  moreover have "0 < r" if "0 < len"
    using that s7 d(1) x l4 by (auto simp: iseos_def s7_def res_def split: if_splits)
  moreover have "0 < r" if "msg_termination st' \<noteq> SCPI_MESSAGE_TERMINATION_NONE"
  proof -
    have "tok_type t7 \<noteq> SCPI_TOKEN_UNKNOWN" using that d(4) by (auto split: if_splits)
    then have "res \<noteq> 0" using newline.failed [OF e5] semicolon.failed [OF e6] by (auto simp: t7_def res_def)
    then show ?thesis using d(1) s7 x l4 by (auto simp: s7_def res_def split: if_splits)
  qed
  moreover have "token_in buf (buf + r) (programHeader st')" "token_in buf (buf + r) (programData st')"
    using hp dp d l4 b7 s7 by (auto simp: token_in_def invalidateToken_def)
  ultimately show ?thesis by simp
qed

text \<open>C4: For every buffer content, start, length and previous parser state, the unit detected lies
  inside the buffer with its header and data, and at least one character is consumed whenever
  there is one, which is what makes the loops that call it end.\<close>

theorem detect_in_bounds_and_progresses:
  "case scpiParser_detectProgramMessageUnit m st buf len of (r, st') \<Rightarrow>
     r \<le> len \<and> (len = 0 \<or> 0 < r) \<and>
     token_in buf (buf + r) (programHeader st') \<and> token_in buf (buf + r) (programData st')"
  using detect_shape [of m st buf len] by (auto split: prod.splits)

definition no_state :: scpi_parser_state_t where
  "no_state = \<lparr>programHeader = invalidateToken \<lparr>tok_type = SCPI_TOKEN_UNKNOWN, tok_ptr = None, tok_len = 0\<rparr> None,
     programData = invalidateToken \<lparr>tok_type = SCPI_TOKEN_UNKNOWN, tok_ptr = None, tok_len = 0\<rparr> None,
     numberOfParameters = 0, msg_termination = SCPI_MESSAGE_TERMINATION_NONE\<rparr>"

text \<open>White space between a decimal number and the comma is consumed but not counted: of the data
  \<^verbatim>\<open>1 ,2\<close> only three characters are handed to the command, so its second parameter is cut off, while
  without the space both are handed over.\<close>

theorem space_after_decimal_loses_data:
  "tok_len (programData (snd (scpiParser_detectProgramMessageUnit ''A 1 ,2'' no_state 0 6))) = 3 \<and>
   numberOfParameters (snd (scpiParser_detectProgramMessageUnit ''A 1 ,2'' no_state 0 6)) = 2 \<and>
   tok_len (programData (snd (scpiParser_detectProgramMessageUnit ''A 1,2'' no_state 0 5))) = 3"
  by code_simp

end
