(* ===== verification/Scpi_Match.thy ===== *)
theory Scpi_Match
  imports Scpi_Lexer
begin

text \<open>
  Matching a program header against a command pattern, \<^verbatim>\<open>libscpi/src/utils.c\<close>. A string with a
  length is the list of its characters; a cursor with a remaining length is the list still to be
  read and the list behind it, which the code may look at. The numeric suffixes are checked but
  not extracted, as in every call from the parser. The last section shows that for plain patterns
  matching is keyword-wise comparison of long and short forms.
\<close>

subsection \<open>Strings\<close>

abbreviation NUL :: char where "NUL \<equiv> CHR 0x00"

text \<open>The character at an index, a terminator behind the end.\<close>

definition at :: "string \<Rightarrow> nat \<Rightarrow> char" where
  "at xs i = (if i < length xs then xs ! i else NUL)"

fun strnpbrk :: "string \<Rightarrow> string \<Rightarrow> nat option" where
  "strnpbrk [] set' = None"
| "strnpbrk (c # cs) set' =
     (if c = NUL then None else if c \<in> set set' then Some 0 else map_option Suc (strnpbrk cs set'))"

fun BSD_strnlen :: "string \<Rightarrow> nat \<Rightarrow> nat" where
  "BSD_strnlen s 0 = 0"
| "BSD_strnlen [] (Suc n) = 0"
| "BSD_strnlen (c # cs) (Suc n) = (if c = NUL then 0 else Suc (BSD_strnlen cs n))"

definition tolower :: "char \<Rightarrow> char" where
  "tolower c = (if isupper c then char_of (code c + 32) else c)"

text \<open>Equality up to the case of letters and up to a common terminator, of strings as long as each other.\<close>

fun same_nocase :: "string \<Rightarrow> string \<Rightarrow> bool" where
  "same_nocase (a # as) (b # bs) =
     (if tolower a \<noteq> tolower b then False else if tolower a = NUL then True else same_nocase as bs)"
| "same_nocase _ _ = True"

definition compareStr :: "string \<Rightarrow> string \<Rightarrow> bool" where
  "compareStr s1 s2 = (if length s1 \<noteq> length s2 then False else same_nocase s1 s2)"

text \<open>A command word may carry a number behind the keyword.\<close>

definition compareStrAndNum :: "string \<Rightarrow> string \<Rightarrow> bool" where
  "compareStrAndNum s1 s2 =
     (if length s2 < length s1 then False
      else same_nocase s1 (take (length s1) s2) \<and> list_all isdigit (drop (length s1) s2))"

fun patternSeparatorShortPos :: "string \<Rightarrow> nat" where
  "patternSeparatorShortPos [] = 0"
| "patternSeparatorShortPos (c # cs) = (if c = NUL then 0 else if islower c then 0 else Suc (patternSeparatorShortPos cs))"

definition patternSeparatorPos :: "string \<Rightarrow> nat" where
  "patternSeparatorPos p = (case strnpbrk p ''?:[]'' of None \<Rightarrow> length p | Some i \<Rightarrow> i)"

definition cmdSeparatorPos :: "string \<Rightarrow> nat" where
  "cmdSeparatorPos c = (case strnpbrk c '':?'' of None \<Rightarrow> length c | Some i \<Rightarrow> i)"

definition matchPattern :: "string \<Rightarrow> string \<Rightarrow> bool" where
  "matchPattern pattern str =
     (if pattern \<noteq> [] \<and> last pattern = CHR ''#''
      then let p = butlast pattern
           in compareStrAndNum p str \<or> compareStrAndNum (take (patternSeparatorShortPos p) p) str
      else compareStr pattern str \<or> compareStr (take (patternSeparatorShortPos pattern) pattern) str)"

lemma strnpbrk_less: "strnpbrk xs s = Some i \<Longrightarrow> i < length xs"
  by (induction xs arbitrary: i) (auto split: if_splits)

lemma patternSeparatorPos_le: "patternSeparatorPos p \<le> length p"
  by (auto simp: patternSeparatorPos_def dest: strnpbrk_less split: option.splits)

lemma cmdSeparatorPos_le: "cmdSeparatorPos c \<le> length c"
  by (auto simp: cmdSeparatorPos_def dest: strnpbrk_less split: option.splits)

subsection \<open>Commands\<close>

text \<open>
  The command is complete: the rest of the pattern must be optional. Running past the end of the
  pattern, which only an unbalanced pattern can do, is \<open>None\<close>.
\<close>

function optional_tail :: "string \<Rightarrow> string \<Rightarrow> int \<Rightarrow> bool option" where
  "optional_tail ps pend brackets =
     (if ps = [] then Some True
      else let sep = patternSeparatorPos ps;
               brackets = (if at (ps @ pend) sep = CHR ''['' then brackets + 1
                           else if at (ps @ pend) sep = CHR '']'' then brackets - 1 else brackets);
               ps' = drop (sep + 1) ps
           in if sep + 1 > length ps then (if brackets = 0 then Some False else None)
              else if brackets = 0
                   then if ps' \<noteq> [] \<and> at (ps' @ pend) 0 = CHR ''['' then optional_tail ps' pend brackets
                        else Some (ps' = [])
                   else optional_tail ps' pend brackets)"
  by pat_completeness auto
termination
  by (relation "measure (\<lambda>(ps, _, _). length ps)") auto

declare optional_tail.simps [simp del]

text \<open>
  What is behind the pattern is at most its question mark, so the code's comparisons with a
  closing bracket and a colon there, made without a length check, imply the lengths written here.
\<close>

function match_loop :: "string \<Rightarrow> string \<Rightarrow> int \<Rightarrow> string \<Rightarrow> string \<Rightarrow> bool option" where
  "match_loop ps pend brackets cs cend =
     (let psep = patternSeparatorPos ps; csep = cmdSeparatorPos cs;
          p = drop psep ps; c = drop csep cs; pp = at (p @ pend); cp = at (c @ cend)
      in if matchPattern (take psep ps) (take csep cs)
         then if p = [] \<and> c = [] then Some True
              else if p = [] \<and> c \<noteq> [] then Some False
              else if c = [] then optional_tail p pend brackets
              else if length p > 0 \<and> pp 0 = cp 0 \<and> pp 0 = CHR '':''
                   then match_loop (drop 1 p) pend brackets (drop 1 c) cend
              else if length p > 1 \<and> pp 1 = cp 0 \<and> pp 0 = CHR ''['' \<and> pp 1 = CHR '':''
                   then match_loop (drop 2 p) pend (brackets + 1) (drop 1 c) cend
              else if length p > 1 \<and> pp 1 = cp 0 \<and> pp 0 = CHR '']'' \<and> pp 1 = CHR '':''
                   then match_loop (drop 2 p) pend (brackets - 1) (drop 1 c) cend
              else if length p > 2 \<and> pp 2 = cp 0 \<and> pp 0 = CHR '']'' \<and> pp 1 = CHR ''['' \<and> pp 2 = CHR '':''
                   then match_loop (drop 3 p) pend brackets (drop 1 c) cend
              else Some False
         else if length p > 1 \<and> pp 0 = CHR '']'' \<and> pp 1 = CHR '':''
              then match_loop (drop 2 p) pend (brackets - 1) cs cend
         else if length p > 2 \<and> pp 0 = CHR '']'' \<and> pp 1 = CHR ''['' \<and> pp 2 = CHR '':''
              then match_loop (drop 3 p) pend brackets cs cend
         else Some False)"
  by pat_completeness auto
termination
  by (relation "measure (\<lambda>(ps, _). length ps)") auto

declare match_loop.simps [simp del]

definition matchCommand :: "string \<Rightarrow> string \<Rightarrow> nat \<Rightarrow> bool option" where
  "matchCommand pattern cmd len =
     (let cmd_len = BSD_strnlen cmd len; cs = take cmd_len cmd; cend = drop cmd_len cmd;
          pq = (pattern \<noteq> [] \<and> last pattern = CHR ''?''); cq = (cs \<noteq> [] \<and> last cs = CHR ''?'')
      in if pq \<and> \<not> cq then Some False
         else let (ps, pend) = (if pq then (butlast pattern, ''?'') else (pattern, []));
                  (cs, cend) = (if pq then (butlast cs, CHR ''?'' # cend) else (cs, cend));
                  (brackets, ps) = (if at (ps @ pend) 0 = CHR ''['' then (1, drop 1 ps) else (0, ps));
                  ps = (if at (ps @ pend) 0 = CHR '':'' then drop 1 ps else ps)
              in if at (cs @ cend) 0 = CHR '':'' \<and> length cs \<ge> 2
                 then if at (cs @ cend) 1 \<noteq> CHR ''*'' then match_loop ps pend brackets (drop 1 cs) cend
                      else Some False
                 else match_loop ps pend brackets cs cend)"

subsection \<open>Plain patterns\<close>

text \<open>
  A plain pattern is a list of keywords joined by colons. A command word fits a keyword when it
  is its long form or its upper-case short form, in either case of letters.
\<close>

definition keyword :: "string \<Rightarrow> bool" where
  "keyword k \<longleftrightarrow> k \<noteq> [] \<and> list_all isalpha k"

definition cmd_word :: "string \<Rightarrow> bool" where
  "cmd_word w \<longleftrightarrow> w \<noteq> [] \<and> list_all (\<lambda>c. isalnum c \<or> c = CHR ''_'') w"

definition short_form :: "string \<Rightarrow> string" where
  "short_form k = takeWhile (\<lambda>c. \<not> islower c) k"

definition nocase_eq :: "string \<Rightarrow> string \<Rightarrow> bool" where
  "nocase_eq a b \<longleftrightarrow> map tolower a = map tolower b"

definition fits :: "string \<Rightarrow> string \<Rightarrow> bool" where
  "fits k w \<longleftrightarrow> nocase_eq k w \<or> nocase_eq (short_form k) w"

fun join :: "string list \<Rightarrow> string" where
  "join [] = []"
| "join [k] = k"
| "join (k # ks) = k @ CHR '':'' # join ks"

lemma alpha_plain: "isalpha c \<Longrightarrow> c \<noteq> NUL \<and> c \<notin> set ''?:[]#''"
  by (auto simp: isalpha_def isupper_def islower_def)

lemma alnum_plain: "isalnum c \<Longrightarrow> c \<noteq> NUL \<and> c \<notin> set '':?*''"
  by (auto simp: isalnum_def isdigit_def isalpha_def isupper_def islower_def)

lemma tolower_NUL [simp]: "tolower c = NUL \<longleftrightarrow> c = NUL"
proof
  assume t: "tolower c = NUL"
  show "c = NUL"
  proof (cases "isupper c")
    case True
    then have "of_char (char_of (code c + 32)) = code c + 32"
      by (simp add: isupper_def)
    moreover have "char_of (code c + 32) = NUL" using t True by (simp add: tolower_def)
    ultimately show ?thesis by simp
  next
    case False
    then show ?thesis using t by (simp add: tolower_def)
  qed
qed (simp add: tolower_def isupper_def)

lemma tolower_of_NUL [simp]: "tolower NUL = NUL"
  by simp

lemma strnpbrk_app:
  "list_all (\<lambda>c. c \<noteq> NUL \<and> c \<notin> set s) xs \<Longrightarrow> strnpbrk (xs @ ys) s = map_option (\<lambda>i. length xs + i) (strnpbrk ys s)"
  by (induction xs) (cases "strnpbrk ys s"; simp)+

lemma same_nocase_eq:
  "length a = length b \<Longrightarrow> NUL \<notin> set a \<Longrightarrow> same_nocase a b = nocase_eq a b"
  by (induction a b rule: list_induct2) (auto simp: nocase_eq_def)

lemma compareStr_eq: "NUL \<notin> set a \<Longrightarrow> compareStr a b = nocase_eq a b"
  using same_nocase_eq [of a b] by (auto simp: compareStr_def nocase_eq_def dest: map_eq_imp_length_eq)

lemma short_pos: "NUL \<notin> set k \<Longrightarrow> take (patternSeparatorShortPos k) k = short_form k"
  by (induction k) (auto simp: short_form_def)

lemma matchPattern_keyword:
  assumes "keyword k"
  shows "matchPattern k w = fits k w"
proof -
  have n: "NUL \<notin> set k" "last k \<noteq> CHR ''#''" "k \<noteq> []"
    using assms alpha_plain last_in_set [of k] by (fastforce simp: keyword_def list_all_iff)+
  have "NUL \<notin> set (short_form k)" using n by (auto simp: short_form_def dest: set_takeWhileD)
  then show ?thesis using n by (simp add: matchPattern_def short_pos compareStr_eq fits_def)
qed

lemma keyword_sep:
  "keyword k \<Longrightarrow> patternSeparatorPos k = length k" "keyword k \<Longrightarrow> patternSeparatorPos (k @ CHR '':'' # r) = length k"
  using strnpbrk_app [of "''?:[]''" k "[]"] strnpbrk_app [of "''?:[]''" k "CHR '':'' # r"] alpha_plain
  by (auto simp: keyword_def patternSeparatorPos_def list_all_iff)

lemma word_sep:
  assumes "cmd_word w"
  shows "cmdSeparatorPos w = length w" "cmdSeparatorPos (w @ CHR '':'' # r) = length w" "cmdSeparatorPos (w @ CHR ''?'' # r) = length w"
proof -
  have l: "list_all (\<lambda>c. c \<noteq> NUL \<and> c \<notin> set '':?'') w"
    using assms alnum_plain by (fastforce simp: cmd_word_def list_all_iff)
  show "cmdSeparatorPos w = length w" "cmdSeparatorPos (w @ CHR '':'' # r) = length w" "cmdSeparatorPos (w @ CHR ''?'' # r) = length w"
    using strnpbrk_app [OF l, of "[]"] strnpbrk_app [OF l, of "CHR '':'' # r"] strnpbrk_app [OF l, of "CHR ''?'' # r"]
    by (simp_all add: cmdSeparatorPos_def)
qed

lemma join_cases:
  "k \<noteq> [] \<Longrightarrow> join (k # ks) = k @ (if ks = [] then [] else CHR '':'' # join ks)"
  by (cases ks) auto

lemma join_nonempty: "ks \<noteq> [] \<Longrightarrow> list_all (\<lambda>k. k \<noteq> []) ks \<Longrightarrow> join ks \<noteq> []"
  by (cases ks) (auto simp: join_cases)

lemma tail_mandatory:
  assumes "ks \<noteq> []" "list_all keyword ks"
  shows "optional_tail (CHR '':'' # join ks) pend 0 = Some False"
proof -
  have ne: "join ks \<noteq> []" using assms by (intro join_nonempty) (auto simp: list_all_iff keyword_def)
  obtain k r where k: "ks = k # r" "keyword k" using assms by (cases ks) auto
  then have "isalpha (hd (join ks))" by (cases k; cases r) (auto simp: keyword_def)
  then have "at (join ks @ pend) 0 \<noteq> CHR ''[''" using ne alpha_plain by (cases "join ks") (auto simp: at_def)
  moreover have "patternSeparatorPos (CHR '':'' # x) = 0" for x by (simp add: patternSeparatorPos_def)
  ultimately show ?thesis using ne by (subst optional_tail.simps) (simp add: Let_def at_def)
qed

text \<open>One word of a plain pattern, the last or one before a colon.\<close>

lemma match_last_word:
  assumes "patternSeparatorPos k = length k" "cmdSeparatorPos (w @ c) = length w" "pend = [] \<or> pend = ''?''"
  shows "match_loop k pend b (w @ c) cend = Some (matchPattern k w \<and> c = [])"
  unfolding match_loop.simps [of k] Let_def assms(1,2)
  using assms(3) by (auto simp: at_def)

lemma match_inner_word:
  assumes "patternSeparatorPos (k @ CHR '':'' # ps) = length k" "cmdSeparatorPos (w @ c) = length w"
  shows "match_loop (k @ CHR '':'' # ps) pend b (w @ c) cend =
    (if \<not> matchPattern k w then Some False
     else if c = [] then optional_tail (CHR '':'' # ps) pend b
     else if hd c = CHR '':'' then match_loop ps pend b (tl c) cend else Some False)"
proof (cases c)
  case Nil
  then show ?thesis
    unfolding match_loop.simps [of "k @ CHR '':'' # ps"] Let_def assms by (simp add: at_def)
next
  case (Cons x xs)
  show ?thesis
    unfolding match_loop.simps [of "k @ CHR '':'' # ps"] Let_def assms unfolding Cons by (simp add: at_def)
qed

lemma match_loop_plain:
  assumes "ks \<noteq> []" "ws \<noteq> []" "list_all keyword ks" "list_all cmd_word ws" "q = [] \<or> q = ''?''" "pend = [] \<or> pend = ''?''"
  shows "match_loop (join ks) pend 0 (join ws @ q) cend = Some (q = [] \<and> list_all2 fits ks ws)"
  using assms
proof (induction ks arbitrary: ws)
  case (Cons k ks)
  obtain w vs where ws: "ws = w # vs" using Cons.prems by (cases ws) auto
  have k: "keyword k" "k \<noteq> []" and w: "cmd_word w" "w \<noteq> []"
    using Cons.prems ws by (auto simp: keyword_def cmd_word_def)
  define c where "c = (if vs = [] then q else CHR '':'' # (join vs @ q))"
  have jw: "join (w # vs) @ q = w @ c" using w by (simp add: join_cases c_def)
  have csep: "cmdSeparatorPos (w @ c) = length w" using word_sep [OF w(1)] Cons.prems(5) by (auto simp: c_def)
  have m: "matchPattern k w = fits k w" by (rule matchPattern_keyword) (rule k)
  have c_nil: "c = [] \<longleftrightarrow> vs = [] \<and> q = []" by (simp add: c_def)
  show ?case
  proof (cases "ks = []")
    case True
    have "match_loop k pend 0 (w @ c) cend = Some (fits k w \<and> c = [])"
      using match_last_word [OF keyword_sep(1) [OF k(1)] csep Cons.prems(6)] m by simp
    then show ?thesis using True ws jw c_nil by auto
  next
    case False
    have jk: "join (k # ks) = k @ CHR '':'' # join ks" using False k by (simp add: join_cases)
    have t: "optional_tail (CHR '':'' # join ks) pend 0 = Some False"
      by (rule tail_mandatory) (use False Cons.prems in auto)
    have ih: "match_loop (join ks) pend 0 (join vs @ q) cend = Some (q = [] \<and> list_all2 fits ks vs)" if "vs \<noteq> []"
      by (rule Cons.IH) (use False that Cons.prems ws in auto)
    have e: "match_loop (k @ CHR '':'' # join ks) pend 0 (w @ c) cend =
      (if \<not> fits k w then Some False else if c = [] then Some False
       else if hd c = CHR '':'' then match_loop (join ks) pend 0 (tl c) cend else Some False)"
      using match_inner_word [OF keyword_sep(2) [OF k(1)] csep] m t by simp
    show ?thesis
    proof (cases "vs = []")
      case True
      then have "hd c \<noteq> CHR '':''" if "c \<noteq> []" using that Cons.prems(5) by (auto simp: c_def)
      then show ?thesis unfolding ws jk jw e using True False by auto
    next
      case v: False
      then have "hd c = CHR '':''" "tl c = join vs @ q" "c \<noteq> []" by (simp_all add: c_def)
      then show ?thesis unfolding ws jk jw e using ih [OF v] by auto
    qed
  qed
qed simp

lemma set_join: "set (join ks) \<subseteq> insert (CHR '':'') (\<Union> (set ` set ks))"
  by (induction ks rule: join.induct) auto

lemma hd_join: "ks \<noteq> [] \<Longrightarrow> hd ks \<noteq> [] \<Longrightarrow> hd (join ks) = hd (hd ks)"
  by (cases ks) (auto simp: join_cases)

lemma strnlen_app: "NUL \<notin> set xs \<Longrightarrow> BSD_strnlen (xs @ ys) (length xs) = length xs"
  by (induction xs) auto

lemma keywords_chars:
  assumes "ks \<noteq> []" "list_all keyword ks"
  shows "join ks \<noteq> []" "CHR ''?'' \<notin> set (join ks)" "hd (join ks) \<notin> set ''?:[]''"
proof -
  have a: "isalpha c" if "k \<in> set ks" "c \<in> set k" for k c
    using assms that by (auto simp: list_all_iff keyword_def)
  show "join ks \<noteq> []" using assms by (intro join_nonempty) (auto simp: list_all_iff keyword_def)
  show "CHR ''?'' \<notin> set (join ks)" using set_join [of ks] a alpha_plain by fastforce
  have "hd ks \<noteq> []" using assms by (cases ks) (auto simp: keyword_def)
  then have "isalpha (hd (join ks))" using a [of "hd ks" "hd (hd ks)"] assms(1) by (simp add: hd_join)
  then show "hd (join ks) \<notin> set ''?:[]''" using alpha_plain by auto
qed

lemma words_chars:
  assumes "ws \<noteq> []" "list_all cmd_word ws"
  shows "join ws \<noteq> []" "CHR ''?'' \<notin> set (join ws)" "NUL \<notin> set (join ws)" "hd (join ws) \<notin> set '':?*''"
proof -
  have a: "isalnum c \<or> c = CHR ''_''" if "w \<in> set ws" "c \<in> set w" for w c
    using assms that by (auto simp: list_all_iff cmd_word_def)
  then have b: "c \<noteq> NUL \<and> c \<notin> set '':?*''" if "w \<in> set ws" "c \<in> set w" for w c
    using that alnum_plain by fastforce
  show "join ws \<noteq> []" using assms by (intro join_nonempty) (auto simp: list_all_iff cmd_word_def)
  show "CHR ''?'' \<notin> set (join ws)" "NUL \<notin> set (join ws)" using set_join [of ws] b by fastforce+
  have "hd ws \<noteq> []" using assms by (cases ws) (auto simp: cmd_word_def)
  then show "hd (join ws) \<notin> set '':?*''" using b [of "hd ws" "hd (hd ws)"] assms(1) by (simp add: hd_join)
qed

lemma at_Cons [simp]: "at (x # xs) 0 = x" "at (x # xs) (Suc n) = at xs n"
  by (simp_all add: at_def)

lemma at_0 [simp]: "xs \<noteq> [] \<Longrightarrow> at (xs @ ys) 0 = hd xs"
  by (cases xs) (simp_all add: at_def)

text \<open>C2: A plain pattern accepts a header exactly when both are queries or neither is, they have the
  same number of words, and every word is the long or the short form of its keyword, whatever the
  case of the letters; a colon in front of the header is ignored and what follows the header in the
  buffer is irrelevant.\<close>

theorem matchCommand_plain:
  assumes "ks \<noteq> []" "list_all keyword ks" and "ws \<noteq> []" "list_all cmd_word ws"
    and "pq = [] \<or> pq = ''?''" "cq = [] \<or> cq = ''?''" "lead = [] \<or> lead = '':''"
  shows "matchCommand (join ks @ pq) (lead @ join ws @ cq @ rest) (length (lead @ join ws @ cq)) =
         Some (pq = cq \<and> list_all2 fits ks ws)"
proof -
  note K = keywords_chars [OF assms(1,2)] and W = words_chars [OF assms(3,4)]
  let ?cmd = "lead @ join ws @ cq"
  have "NUL \<notin> set ?cmd" using W assms(6,7) by auto
  then have len: "BSD_strnlen (?cmd @ rest) (length ?cmd) = length ?cmd" by (rule strnlen_app)
  have l: "last (join ks) \<noteq> CHR ''?''" "last (join ws) \<noteq> CHR ''?''"
    using K(1,2) W(1,2) by (metis last_in_set)+
  then have lastp: "last (join ks @ pq) = CHR ''?'' \<longleftrightarrow> pq = ''?''" "last ?cmd = CHR ''?'' \<longleftrightarrow> cq = ''?''"
    using K(1) W(1) assms(5,6) by auto
  define q where "q = (if pq = ''?'' then [] else cq)"
  define ce where "ce = (if pq = ''?'' then CHR ''?'' # rest else rest)"
  have q: "q = [] \<or> q = ''?''" using assms(6) by (auto simp: q_def)
  have loop: "match_loop (join ks) pq 0 (join ws @ q) ce = Some (q = [] \<and> list_all2 fits ks ws)"
    by (rule match_loop_plain) (use assms q in auto)
  have hdw: "hd (join ws) \<noteq> CHR '':''" "hd (join ws) \<noteq> CHR ''*''" "1 \<le> length (join ws)"
    using W by (auto simp: Suc_le_eq)
  have pat: "at (join ks @ e) 0 \<noteq> CHR ''[''" "at (join ks @ e) 0 \<noteq> CHR '':''" for e using K by auto
  consider (no) "pq = ''?''" "cq = []" | (both) "pq = ''?''" "cq = ''?''" | (plain) "pq = []" using assms(5,6) by blast
  then show ?thesis
  proof cases
    case no
    then show ?thesis using K W lastp len by (simp add: matchCommand_def Let_def)
  next
    case both
    have bl: "butlast (lead @ join ws @ ''?'') = lead @ join ws @ q" using both by (simp add: butlast_append q_def)
    have "matchCommand (join ks @ pq) (?cmd @ rest) (length ?cmd) = match_loop (join ks) pq 0 (join ws @ q) ce"
      using assms(7) len lastp pat bl both W(1) hdw
      unfolding matchCommand_def Let_def by (elim disjE) (simp_all add: ce_def q_def)
    then show ?thesis using loop both by (simp add: q_def)
  next
    case plain
    have "matchCommand (join ks @ pq) (?cmd @ rest) (length ?cmd) = match_loop (join ks) pq 0 (join ws @ q) ce"
      using assms(7) len lastp pat l(1) plain W(1) hdw
      unfolding matchCommand_def Let_def by (elim disjE) (simp_all add: ce_def q_def)
    then show ?thesis using loop plain by (auto simp: q_def)
  qed
qed

lemma matchCommand_plain_witness:
  "matchCommand ''NN:INFEr:EXAMple?'' '':nn:infe:EXAM?;X'' 14 = Some True"
proof -
  have k: "list_all keyword [''NN'', ''INFEr'', ''EXAMple'']" "list_all cmd_word [''nn'', ''infe'', ''EXAM'']"
    "list_all2 fits [''NN'', ''INFEr'', ''EXAMple''] [''nn'', ''infe'', ''EXAM'']" by code_simp+
  have l: "length ('':'' @ join [''nn'', ''infe'', ''EXAM''] @ ''?'') = 14" by simp
  show ?thesis
    using matchCommand_plain [of "[''NN'', ''INFEr'', ''EXAMple'']" "[''nn'', ''infe'', ''EXAM'']" "''?''" "''?''" "'':''" "'';X''"]
    unfolding l using k by simp
qed

subsection \<open>Compound commands\<close>

text \<open>The prefix of the previous header up to its last colon is moved in front of the current one.\<close>

fun last_colon :: "string \<Rightarrow> nat \<Rightarrow> nat \<Rightarrow> nat" where
  "last_colon m p 0 = 0"
| "last_colon m p (Suc i) = (if m ! (p + i) = CHR '':'' then Suc i else last_colon m p i)"

definition composeCompoundCommand :: "string \<Rightarrow> scpi_token_t \<Rightarrow> scpi_token_t \<Rightarrow> bool \<times> scpi_token_t \<times> string" where
  "composeCompoundCommand m prev current =
     (case tok_ptr current of
        None \<Rightarrow> (False, current, m)
      | Some cp \<Rightarrow>
          if tok_len current = 0 then (False, current, m)
          else (case tok_ptr prev of
                  None \<Rightarrow> (True, current, m)
                | Some pp \<Rightarrow>
                    if tok_len prev = 0 then (True, current, m)
                    else if m ! cp = CHR ''*'' \<or> m ! cp = CHR '':'' then (True, current, m)
                    else if m ! pp = CHR ''*'' then (True, current, m)
                    else let i = last_colon m pp (tok_len prev)
                         in if i = 0 then (True, current, m)
                            else (True, current\<lparr>tok_ptr := Some (cp - i), tok_len := tok_len current + i\<rparr>,
                                  put_at (cp - i) (take i (drop pp m)) m)))"

definition text_of :: "string \<Rightarrow> scpi_token_t \<Rightarrow> string" where
  "text_of m t = (case tok_ptr t of None \<Rightarrow> [] | Some p \<Rightarrow> take (tok_len t) (drop p m))"

lemma last_colon_le: "last_colon m p n \<le> n"
  by (induction n) auto

lemma last_colon_spec:
  assumes "p + n \<le> length m"
  shows "take (last_colon m p n) (drop p m) = rev (dropWhile (\<lambda>c. c \<noteq> CHR '':'') (rev (take n (drop p m))))"
  using assms
proof (induction n)
  case (Suc n)
  then have "take (Suc n) (drop p m) = take n (drop p m) @ [m ! (p + n)]"
    by (simp add: take_Suc_conv_app_nth)
  then show ?case using Suc by simp
qed simp

lemma take_put_at:
  assumes "p + length xs + n \<le> length buf"
  shows "take (length xs + n) (drop p (put_at p xs buf)) = xs @ take n (drop (p + length xs) buf)"
  using assms by (simp add: put_at_def)

text \<open>A header that does not start a new path is completed in place by the path of the previous
  header: its text becomes the previous header's text up to the last colon followed by its own, in
  front of where it stood, the rest of the buffer being unchanged; common commands, rooted headers
  and headers after a common command or a pathless one are left alone.\<close>

theorem composeCompoundCommand_spec:
  assumes "tok_ptr prev = Some pp" "tok_ptr cur = Some cp" "0 < tok_len prev" "0 < tok_len cur"
    and "pp + tok_len prev \<le> cp" "cp + tok_len cur \<le> length m"
  defines "path \<equiv> rev (dropWhile (\<lambda>c. c \<noteq> CHR '':'') (rev (text_of m prev)))"
    and "keep \<equiv> hd (text_of m cur) \<in> {CHR ''*'', CHR '':''} \<or> hd (text_of m prev) = CHR ''*''"
  shows "case composeCompoundCommand m prev cur of (ok, cur', m') \<Rightarrow>
    ok \<and> text_of m' cur' = (if keep then text_of m cur else path @ text_of m cur) \<and>
    length m' = length m \<and> drop cp m' = drop cp m \<and> take pp m' = take pp m"
proof -
  let ?i = "last_colon m pp (tok_len prev)"
  have i: "?i \<le> tok_len prev" by (rule last_colon_le)
  have path: "path = take ?i (drop pp m)"
    using last_colon_spec [of pp "tok_len prev" m] assms(1,5,6) by (simp add: path_def text_of_def)
  have hd: "hd (text_of m cur) = m ! cp" "hd (text_of m prev) = m ! pp"
    using assms(1-6) by (simp_all add: text_of_def hd_drop_conv_nth hd_take)
  have len: "length (take ?i (drop pp m)) = ?i" using i assms(5,6) by simp
  define m' where "m' = put_at (cp - ?i) (take ?i (drop pp m)) m"
  have ci: "cp - ?i + ?i = cp" "pp \<le> cp - ?i" using i assms(5) by simp_all
  have "take (?i + tok_len cur) (drop (cp - ?i) m') = take ?i (drop pp m) @ take (tok_len cur) (drop cp m)"
    using take_put_at [of "cp - ?i" "take ?i (drop pp m)" "tok_len cur" m] len ci assms(6)
    by (simp add: m'_def)
  moreover have "length m' = length m" "drop cp m' = drop cp m" "take pp m' = take pp m"
    using len ci assms(6) by (simp_all add: m'_def) (simp_all add: put_at_def min_def)
  ultimately show ?thesis
    using assms(1-6) path hd
    by (auto simp: composeCompoundCommand_def Let_def keep_def m'_def text_of_def add.commute)
qed

lemma composeCompoundCommand_spec_witness:
  "case composeCompoundCommand ''A:B;CC'' \<lparr>tok_type = SCPI_TOKEN_UNKNOWN, tok_ptr = Some 0, tok_len = 3\<rparr>
      \<lparr>tok_type = SCPI_TOKEN_UNKNOWN, tok_ptr = Some 4, tok_len = 2\<rparr> of
     (ok, cur', m') \<Rightarrow> text_of m' cur' = ''A:CC''"
  using composeCompoundCommand_spec [of "\<lparr>tok_type = SCPI_TOKEN_UNKNOWN, tok_ptr = Some 0, tok_len = 3\<rparr>" 0
      "\<lparr>tok_type = SCPI_TOKEN_UNKNOWN, tok_ptr = Some 4, tok_len = 2\<rparr>" 4 "''A:B;CC''"]
  by (simp add: text_of_def split: prod.splits)

end
