(* ===== verification/Scpi_Result.thy ===== *)
theory Scpi_Result
  imports Scpi_Error Scpi_Match
begin

text \<open>
  Writing results (\<^verbatim>\<open>libscpi/src/parser.c\<close> and the integer formatting of
  \<^verbatim>\<open>libscpi/src/utils.c\<close>). A write through the interface is an \<open>EvWrite\<close> event. The byte counts
  that the result functions return are not used by their callers and are left out.
  The lemmas show that integers are printed in positional notation without truncation and that an
  arbitrary block survives the trip through the block lexer.
\<close>

subsection \<open>Integers\<close>

definition digit_chars :: string where
  "digit_chars = ''0123456789ABCDEF''"

text \<open>The first power of the base, and the loops, which the 32-bit and the 64-bit routine share;
  the string has \<open>room\<close> characters left.\<close>

fun start_divisor :: "u32 \<Rightarrow> u32" where
  "start_divisor base =
     (if base = 2 then 0x80000000 else if base = 8 then 0x40000000 else if base = 16 then 0x10000000
      else 1000000000)"

function drop_zeros :: "'a::len word \<Rightarrow> 'a word \<Rightarrow> 'a word \<Rightarrow> 'a word" where
  "drop_zeros base uval x = (if x \<noteq> 0 \<and> 1 < base \<and> uval div x = 0 then drop_zeros base uval (x div base) else x)"
  by pat_completeness auto
termination
  by (relation "measure (\<lambda>(_, _, x). unat x)") (auto simp: word_less_nat_alt unat_div_distrib unat_gt_0 intro!: div_less_dividend)

declare drop_zeros.simps [simp del]

function digits_loop :: "'a::len word \<Rightarrow> 'a word \<Rightarrow> 'a word \<Rightarrow> nat \<Rightarrow> string" where
  "digits_loop base uval x room =
     (if x = 0 \<or> \<not> 1 < base then []
      else let digit = uval div x;
               out = (if 0 < room then [digit_chars ! unat digit] else []);
               room' = room - 1
           in out @ (if x div base \<noteq> 0 \<and> 0 < room' then digits_loop base (uval - digit * x) (x div base) room' else []))"
  by pat_completeness auto
termination
  by (relation "measure (\<lambda>(_, _, x, _). unat x)") (auto simp: word_less_nat_alt unat_div_distrib unat_gt_0 intro!: div_less_dividend)

declare digits_loop.simps [simp del]

definition UInt32ToStrBaseSign :: "u32 \<Rightarrow> nat \<Rightarrow> u32 \<Rightarrow> bool \<Rightarrow> string" where
  "UInt32ToStrBaseSign val len base sign =
     (if val = 0 then (if 0 < len then ''0'' else [])
      else let x = start_divisor base;
               base = (if base = 2 \<or> base = 8 \<or> base = 16 then base else 10);
               neg = (sign \<and> val <s 0 \<and> base = 10);
               uval = (if neg then - val else val);
               str = (if neg \<and> 0 < len then ''-'' else [])
           in str @ digits_loop base uval (drop_zeros base uval x) (len - length str))"

definition SCPI_Int32ToStr :: "u32 \<Rightarrow> nat \<Rightarrow> string" where
  "SCPI_Int32ToStr val len = UInt32ToStrBaseSign val len 10 True"

definition SCPI_UInt32ToStrBase :: "u32 \<Rightarrow> nat \<Rightarrow> u32 \<Rightarrow> string" where
  "SCPI_UInt32ToStrBase val len base = UInt32ToStrBaseSign val len base False"

subsection \<open>Positional notation\<close>

definition digit_value :: "char \<Rightarrow> nat" where
  "digit_value c = (if isdigit c then code c - 48 else code c - 55)"

definition value_of :: "nat \<Rightarrow> string \<Rightarrow> nat" where
  "value_of base s = foldl (\<lambda>acc c. acc * base + digit_value c) 0 s"

lemma value_of_Cons:
  "value_of b (c # s) = digit_value c * b ^ length s + value_of b s"
proof -
  have g: "foldl (\<lambda>acc c. acc * b + digit_value c) a s = a * b ^ length s + value_of b s" for a
  proof (induction s rule: rev_induct)
    case (snoc x xs)
    then show ?case by (simp add: value_of_def algebra_simps)
  qed (simp add: value_of_def)
  show ?thesis using g [of "digit_value c"] by (simp add: value_of_def)
qed

lemma digit_chars_value: "d < 16 \<Longrightarrow> digit_value (digit_chars ! d) = d"
proof -
  assume "d < 16"
  then have "d \<in> set [0..<16]" by simp
  moreover have "\<forall>d \<in> set [0..<16]. digit_value (digit_chars ! d) = d" by code_simp
  ultimately show ?thesis by blast
qed

text \<open>With a power of the base in hand and room for its digits, the loop prints that many digits.\<close>

lemma digits_loop_value:
  assumes "unat x = b ^ k" "unat base = b" "2 \<le> b" "b \<le> 16" "unat uval < b ^ Suc k" "k < room"
  shows "value_of b (digits_loop base uval x room) = unat uval \<and> length (digits_loop base uval x room) = Suc k"
  using assms
proof (induction k arbitrary: uval x room)
  case 0
  then have x: "x = 1" by (simp add: word_unat_eq_iff)
  have b: "1 < base" using 0 by (simp add: word_less_nat_alt)
  have "1 div base = 0" using 0 by (simp add: word_arith_nat_div unat_eq_zero)
  then show ?case using 0 x b digit_chars_value [of "unat uval"]
    by (subst (1 2) digits_loop.simps) (simp add: Let_def value_of_Cons value_of_def)
next
  case (Suc k)
  have b: "1 < base" using Suc.prems by (simp add: word_less_nat_alt)
  have b0: "0 < b" using Suc.prems by simp
  have x0: "x \<noteq> 0" using Suc.prems(1) b0 by (metis unat_0 power_not_zero less_numeral_extra(3))
  have xd: "unat (x div base) = b ^ k" using Suc.prems b0 by (simp add: unat_div_distrib)
  then have xd0: "x div base \<noteq> 0" using b0 by (metis unat_0 power_not_zero less_numeral_extra(3))
  let ?d = "uval div x"
  have d: "unat ?d = unat uval div b ^ Suc k" using Suc.prems(1) by (simp add: unat_div_distrib)
  have dlt: "unat ?d < b" using Suc.prems(5) d by (simp add: less_mult_imp_div_less)
  have rem: "unat (uval - ?d * x) = unat uval mod b ^ Suc k"
    by (simp add: minus_div_mult_eq_mod unat_mod_distrib Suc.prems(1))
  have lt: "unat (uval - ?d * x) < b ^ Suc k" using rem b0 by simp
  have ih: "value_of b (digits_loop base (uval - ?d * x) (x div base) (room - 1)) = unat uval mod b ^ Suc k"
    "length (digits_loop base (uval - ?d * x) (x div base) (room - 1)) = Suc k"
    using Suc.IH [OF xd Suc.prems(2-4) lt] Suc.prems(6) rem by auto
  have step: "digits_loop base uval x room =
      digit_chars ! unat ?d # digits_loop base (uval - ?d * x) (x div base) (room - 1)"
    using x0 b xd0 Suc.prems(6) by (subst digits_loop.simps) (simp add: Let_def)
  have dv: "digit_value (digit_chars ! unat ?d) = unat ?d" using dlt Suc.prems(4) by (intro digit_chars_value) simp
  show ?case unfolding step value_of_Cons dv using ih d div_mult_mod_eq [of "unat uval" "b ^ Suc k"] by simp
qed

lemma drop_zeros_power:
  assumes "unat x = b ^ k" "unat base = b" "2 \<le> b" "0 < unat uval" "unat uval < b ^ Suc k"
  obtains j where "j \<le> k" "unat (drop_zeros base uval x) = b ^ j" "b ^ j \<le> unat uval" "unat uval < b ^ Suc j"
proof -
  have "\<exists>j \<le> k. unat (drop_zeros base uval x) = b ^ j \<and> b ^ j \<le> unat uval \<and> unat uval < b ^ Suc j"
    using assms
  proof (induction k arbitrary: x)
    case 0
    then have x: "x = 1" "uval \<noteq> 0" by (auto simp: word_unat_eq_iff)
    then have "drop_zeros base uval x = 1" by (subst drop_zeros.simps) simp
    then show ?case using 0 by simp
  next
    case (Suc k)
    have b: "1 < base" "0 < b" using Suc.prems by (simp_all add: word_less_nat_alt)
    have x0: "x \<noteq> 0" using Suc.prems(1) b(2) by (metis unat_0 power_not_zero less_numeral_extra(3))
    show ?case
    proof (cases "uval div x = 0")
      case True
      then have lt: "unat uval < b ^ Suc k" using Suc.prems(1) b(2) unat_div_distrib [of uval x]
        by (simp add: div_eq_0_iff)
      have xd: "unat (x div base) = b ^ k" using Suc.prems b(2) by (simp add: unat_div_distrib)
      from Suc.IH [OF xd Suc.prems(2-4) lt] show ?thesis
        using True x0 b by (subst drop_zeros.simps) (auto intro: le_SucI)
    next
      case False
      then have "b ^ Suc k \<le> unat uval"
        using unat_div_distrib [of uval x] Suc.prems(1) by (metis div_less not_le unat_eq_zero)
      then show ?thesis using False Suc.prems by (subst (1) drop_zeros.simps) (auto intro!: exI [of _ "Suc k"])
    qed
  qed
  then show thesis using that by blast
qed

lemma start_power:
  assumes "base \<in> {2, 8, 10, 16}"
  obtains k where "unat (start_divisor base) = unat base ^ k" "2 ^ 32 \<le> unat base ^ Suc k" "k \<le> 31"
  using assms
  by (auto intro: that [of 31] that [of 10] that [of 9] that [of 7])

text \<open>Every 32-bit number is printed in full in each of the four bases: the string has the value of
  the number in positional notation, it has no leading zero, and 33 characters always suffice.\<close>

theorem UInt32ToStr_value:
  assumes "base \<in> {2, 8, 10, 16}" and "32 < len"
  shows "value_of (unat base) (SCPI_UInt32ToStrBase val len base) = unat val \<and>
    length (SCPI_UInt32ToStrBase val len base) \<le> 32 \<and>
    (val \<noteq> 0 \<longrightarrow> unat base ^ (length (SCPI_UInt32ToStrBase val len base) - 1) \<le> unat val)"
proof (cases "val = 0")
  case True
  then show ?thesis using assms
    by (simp add: SCPI_UInt32ToStrBase_def UInt32ToStrBaseSign_def value_of_def digit_value_def isdigit_def)
next
  case False
  obtain k where k: "unat (start_divisor base) = unat base ^ k" "2 ^ 32 \<le> unat base ^ Suc k" "k \<le> 31"
    using start_power [OF assms(1)] by blast
  have b: "2 \<le> unat base" "unat base \<le> 16" using assms(1) by auto
  have v: "0 < unat val" "unat val < unat base ^ Suc k" using False k(2) unat_lt32 [of val] by (auto simp: unat_gt_0)
  obtain j where j: "j \<le> k" "unat (drop_zeros base val (start_divisor base)) = unat base ^ j"
    "unat base ^ j \<le> unat val" "unat val < unat base ^ Suc j"
    using drop_zeros_power [OF k(1) refl b(1) v] by blast
  have base: "(if base = 2 \<or> base = 8 \<or> base = 16 then base else 10) = base" using assms(1) by auto
  have "SCPI_UInt32ToStrBase val len base = digits_loop base val (drop_zeros base val (start_divisor base)) len"
    using False unfolding SCPI_UInt32ToStrBase_def UInt32ToStrBaseSign_def Let_def base by simp
  then show ?thesis
    using digits_loop_value [OF j(2) refl b j(4), of len] j k(3) assms(2) by simp
qed

lemma UInt32ToStr_value_witness:
  "value_of 10 (SCPI_UInt32ToStrBase 1024 33 10) = 1024"
  using UInt32ToStr_value [of 10 33 1024] by simp

subsection \<open>64-bit integers\<close>

fun start_divisor64 :: "u64 \<Rightarrow> u64" where
  "start_divisor64 base =
     (if base = 2 then 0x8000000000000000 else if base = 8 then 0x8000000000000000
      else if base = 16 then 0x1000000000000000 else 10000000000000000000)"

definition UInt64ToStrBaseSign :: "u64 \<Rightarrow> nat \<Rightarrow> u64 \<Rightarrow> bool \<Rightarrow> string" where
  "UInt64ToStrBaseSign val len base sign =
     (if val = 0 then (if 0 < len then ''0'' else [])
      else let x = start_divisor64 base;
               base = (if base = 2 \<or> base = 8 \<or> base = 16 then base else 10);
               neg = (sign \<and> val <s 0 \<and> base = 10);
               uval = (if neg then - val else val);
               str = (if neg \<and> 0 < len then ''-'' else [])
           in str @ digits_loop base uval (drop_zeros base uval x) (len - length str))"

definition SCPI_Int64ToStr :: "u64 \<Rightarrow> nat \<Rightarrow> string" where
  "SCPI_Int64ToStr val len = UInt64ToStrBaseSign val len 10 True"

definition SCPI_UInt64ToStrBase :: "u64 \<Rightarrow> nat \<Rightarrow> u64 \<Rightarrow> string" where
  "SCPI_UInt64ToStrBase val len base = UInt64ToStrBaseSign val len base False"

lemma start_power64:
  assumes "base \<in> {2, 8, 10, 16}"
  obtains k where "unat (start_divisor64 base) = unat base ^ k" "2 ^ 64 \<le> unat base ^ Suc k" "k \<le> 63"
  using assms
  by (auto intro: that [of 63] that [of 21] that [of 19] that [of 15])

text \<open>The 64-bit routine prints in full too: the value of the string is the number, without leading
  zeros, and 65 characters always suffice.\<close>

theorem UInt64ToStr_value:
  assumes "base \<in> {2, 8, 10, 16}" and "64 < len"
  shows "value_of (unat base) (SCPI_UInt64ToStrBase val len base) = unat val \<and>
    length (SCPI_UInt64ToStrBase val len base) \<le> 64 \<and>
    (val \<noteq> 0 \<longrightarrow> unat base ^ (length (SCPI_UInt64ToStrBase val len base) - 1) \<le> unat val)"
proof (cases "val = 0")
  case True
  then show ?thesis using assms
    by (simp add: SCPI_UInt64ToStrBase_def UInt64ToStrBaseSign_def value_of_def digit_value_def isdigit_def)
next
  case False
  obtain k where k: "unat (start_divisor64 base) = unat base ^ k" "2 ^ 64 \<le> unat base ^ Suc k" "k \<le> 63"
    using start_power64 [OF assms(1)] by blast
  have b: "2 \<le> unat base" "unat base \<le> 16" using assms(1) by auto
  have "unat val < 2 ^ LENGTH(64)" by (rule unsigned_less)
  then have v: "0 < unat val" "unat val < unat base ^ Suc k" using False k(2) by (auto simp: unat_gt_0)
  obtain j where j: "j \<le> k" "unat (drop_zeros base val (start_divisor64 base)) = unat base ^ j"
    "unat base ^ j \<le> unat val" "unat val < unat base ^ Suc j"
    using drop_zeros_power [OF k(1) refl b(1) v] by blast
  have base: "(if base = 2 \<or> base = 8 \<or> base = 16 then base else 10) = base" using assms(1) by auto
  have "SCPI_UInt64ToStrBase val len base = digits_loop base val (drop_zeros base val (start_divisor64 base)) len"
    using False unfolding SCPI_UInt64ToStrBase_def UInt64ToStrBaseSign_def Let_def base by simp
  then show ?thesis
    using digits_loop_value [OF j(2) refl b j(4), of len] j k(3) assms(2) by simp
qed

lemma UInt64ToStr_value_witness:
  "value_of 16 (SCPI_UInt64ToStrBase 0x123456789ABCDEF0 65 16) = 0x123456789ABCDEF0"
  using UInt64ToStr_value [of 16 65 "0x123456789ABCDEF0"] by simp

subsection \<open>Writing\<close>

definition writeData :: "scpi_t \<Rightarrow> string \<Rightarrow> scpi_t" where
  "writeData ctx data = (if length data > 0 then emit (EvWrite data) ctx else ctx)"

definition flushData :: "scpi_t \<Rightarrow> scpi_t" where
  "flushData ctx = (if has_flush (interface ctx) then emit EvFlush ctx else ctx)"

definition writeDelimiter :: "scpi_t \<Rightarrow> scpi_t" where
  "writeDelimiter ctx = (if output_count ctx > 0 then writeData ctx '','' else ctx)"

definition SCPI_LINE_ENDING :: string where
  "SCPI_LINE_ENDING = [CHR 0x0D, CHR 0x0A]"

definition writeNewLine :: "scpi_t \<Rightarrow> scpi_t" where
  "writeNewLine ctx = (if \<not> first_output ctx then flushData (writeData ctx SCPI_LINE_ENDING) else ctx)"

definition writeSemicolon :: "scpi_t \<Rightarrow> scpi_t" where
  "writeSemicolon ctx = (if output_count ctx > 0 then writeData ctx '';'' else ctx)"

definition count_output :: "scpi_t \<Rightarrow> scpi_t" where
  "count_output ctx = ctx\<lparr>output_count := output_count ctx + 1\<rparr>"

definition SCPI_ResultCharacters :: "scpi_t \<Rightarrow> string \<Rightarrow> scpi_t" where
  "SCPI_ResultCharacters ctx data = count_output (writeData (writeDelimiter ctx) data)"

definition SCPI_ResultMnemonic :: "scpi_t \<Rightarrow> string \<Rightarrow> scpi_t" where
  "SCPI_ResultMnemonic ctx data = SCPI_ResultCharacters ctx data"

fun getBasePrefix :: "u32 \<Rightarrow> string option" where
  "getBasePrefix base = (if base = 2 then Some ''#B'' else if base = 8 then Some ''#Q''
     else if base = 16 then Some ''#H'' else None)"

definition resultUInt32BaseSign :: "scpi_t \<Rightarrow> u32 \<Rightarrow> u32 \<Rightarrow> bool \<Rightarrow> scpi_t" where
  "resultUInt32BaseSign ctx val base sign =
     (let buffer = UInt32ToStrBaseSign val 33 base sign; ctx1 = writeDelimiter ctx;
          ctx2 = (case getBasePrefix base of None \<Rightarrow> ctx1 | Some p \<Rightarrow> writeData ctx1 p)
      in count_output (writeData ctx2 buffer))"

definition SCPI_ResultInt32 :: "scpi_t \<Rightarrow> u32 \<Rightarrow> scpi_t" where
  "SCPI_ResultInt32 ctx val = resultUInt32BaseSign ctx val 10 True"

definition SCPI_ResultUInt32Base :: "scpi_t \<Rightarrow> u32 \<Rightarrow> u32 \<Rightarrow> scpi_t" where
  "SCPI_ResultUInt32Base ctx val base = resultUInt32BaseSign ctx val base False"

definition resultUInt64BaseSign :: "scpi_t \<Rightarrow> u64 \<Rightarrow> u32 \<Rightarrow> bool \<Rightarrow> scpi_t" where
  "resultUInt64BaseSign ctx val base sign =
     (let buffer = UInt64ToStrBaseSign val 65 (ucast base) sign; ctx1 = writeDelimiter ctx;
          ctx2 = (case getBasePrefix base of None \<Rightarrow> ctx1 | Some p \<Rightarrow> writeData ctx1 p)
      in count_output (writeData ctx2 buffer))"

definition SCPI_ResultInt64 :: "scpi_t \<Rightarrow> u64 \<Rightarrow> scpi_t" where
  "SCPI_ResultInt64 ctx val = resultUInt64BaseSign ctx val 10 True"

definition SCPI_ResultUInt64Base :: "scpi_t \<Rightarrow> u64 \<Rightarrow> u32 \<Rightarrow> scpi_t" where
  "SCPI_ResultUInt64Base ctx val base = resultUInt64BaseSign ctx val base False"

definition SCPI_ResultBool :: "scpi_t \<Rightarrow> bool \<Rightarrow> scpi_t" where
  "SCPI_ResultBool ctx val = resultUInt32BaseSign ctx (if val then 1 else 0) 10 False"

definition quote_char :: string where "quote_char = [CHR 0x22]"

text \<open>Quotes inside a text are doubled.\<close>

function text_loop :: "scpi_t \<Rightarrow> string \<Rightarrow> scpi_t" where
  "text_loop ctx data =
     (case strnpbrk data quote_char of
        None \<Rightarrow> writeData ctx data
      | Some q \<Rightarrow> text_loop (writeData (writeData ctx (take (q + 1) data)) quote_char) (drop (q + 1) data))"
  by pat_completeness auto
termination
  by (relation "measure (\<lambda>(_, d). length d)") (auto dest: strnpbrk_less)

declare text_loop.simps [simp del]

definition SCPI_ResultText :: "scpi_t \<Rightarrow> string \<Rightarrow> scpi_t" where
  "SCPI_ResultText ctx data =
     (let ctx1 = writeData (writeDelimiter ctx) quote_char; ctx2 = text_loop ctx1 data
      in count_output (writeData ctx2 quote_char))"

text \<open>The description of an error, with the same doubling, cut at the length the standard allows.\<close>

definition SCPI_STD_ERROR_DESC_MAX_STRING_LENGTH :: nat where
  "SCPI_STD_ERROR_DESC_MAX_STRING_LENGTH = 255"

function error_text_loop :: "scpi_t \<Rightarrow> string \<Rightarrow> nat \<Rightarrow> scpi_t \<times> string" where
  "error_text_loop ctx data outputlimit =
     (case strnpbrk data quote_char of
        None \<Rightarrow> (ctx, data)
      | Some q \<Rightarrow>
          let st = q + 1
          in if st \<ge> outputlimit then (ctx, butlast data)
             else let ctx1 = writeData (writeData ctx (take st data)) quote_char;
                      outputlimit = outputlimit - (st + 1)
                  in error_text_loop ctx1 (take outputlimit (drop st data)) outputlimit)"
  by pat_completeness auto
termination
  by (relation "measure (\<lambda>(_, d, _). length d)") (auto dest: strnpbrk_less)

declare error_text_loop.simps [simp del]

definition SCPI_ResultError :: "scpi_t \<Rightarrow> scpi_error_t \<Rightarrow> scpi_t" where
  "SCPI_ResultError ctx error =
     (let ctx1 = writeData (writeDelimiter (SCPI_ResultInt32 ctx (word_of_int (error_code error)))) quote_char;
          data = take SCPI_STD_ERROR_DESC_MAX_STRING_LENGTH (SCPI_ErrorTranslate (error_code error));
          (ctx2, rest) = error_text_loop ctx1 data SCPI_STD_ERROR_DESC_MAX_STRING_LENGTH
      in writeData (writeData ctx2 rest) quote_char)"

subsection \<open>Arbitrary blocks\<close>

definition SCPI_ResultArbitraryBlockHeader :: "scpi_t \<Rightarrow> u32 \<Rightarrow> scpi_t" where
  "SCPI_ResultArbitraryBlockHeader ctx len =
     (let digits = SCPI_UInt32ToStrBase len 10 10; header_len = length digits;
          block_header = CHR ''#'' # char_of (header_len + 48) # digits
      in writeData (writeDelimiter (ctx\<lparr>arbitrary_remaining := unat len\<rparr>)) block_header)"

abbreviation "SCPI_ERROR_SYSTEM_ERROR \<equiv> - 310 :: int"
abbreviation "SCPI_ERROR_INVALID_SEPARATOR \<equiv> - 103 :: int"
abbreviation "SCPI_ERROR_DATA_TYPE_ERROR \<equiv> - 104 :: int"
abbreviation "SCPI_ERROR_SUFFIX_NOT_ALLOWED \<equiv> - 138 :: int"
abbreviation "SCPI_ERROR_INVALID_STRING_DATA \<equiv> - 151 :: int"
abbreviation "SCPI_ERROR_ILLEGAL_PARAMETER_VALUE \<equiv> - 224 :: int"

definition SCPI_ResultArbitraryBlockData :: "scpi_t \<Rightarrow> string \<Rightarrow> scpi_t" where
  "SCPI_ResultArbitraryBlockData ctx data =
     (if arbitrary_remaining ctx < length data then SCPI_ErrorPush ctx SCPI_ERROR_SYSTEM_ERROR
      else let ctx1 = ctx\<lparr>arbitrary_remaining := arbitrary_remaining ctx - length data\<rparr>;
               ctx2 = (if arbitrary_remaining ctx1 = 0 then count_output ctx1 else ctx1)
           in writeData ctx2 data)"

definition SCPI_ResultArbitraryBlock :: "scpi_t \<Rightarrow> string \<Rightarrow> scpi_t" where
  "SCPI_ResultArbitraryBlock ctx data =
     SCPI_ResultArbitraryBlockData (SCPI_ResultArbitraryBlockHeader ctx (of_nat (length data))) data"

subsection \<open>A block survives the trip through the lexer\<close>

lemma isdigit_digit_chars: "d < 10 \<Longrightarrow> isdigit (digit_chars ! d)"
proof -
  assume "d < 10"
  then have "d \<in> set [0..<10]" by simp
  moreover have "\<forall>d \<in> set [0..<10]. isdigit (digit_chars ! d)" by code_simp
  ultimately show ?thesis by blast
qed

lemma digits_loop_isdigit:
  assumes "unat (x::u32) = 10 ^ k" "unat uval < 10 ^ Suc k"
  shows "list_all isdigit (digits_loop 10 uval x room)"
  using assms
proof (induction k arbitrary: uval x room)
  case 0
  then have x: "x = 1" by (simp add: word_unat_eq_iff)
  then show ?case using 0 isdigit_digit_chars [of "unat uval"]
    by (subst digits_loop.simps) (simp add: Let_def word_arith_nat_div)
next
  case (Suc k)
  have xd: "unat (x div 10) = 10 ^ k" using Suc.prems by (simp add: unat_div_distrib)
  have d: "unat (uval div x) < 10" using Suc.prems by (simp add: unat_div_distrib less_mult_imp_div_less)
  have "unat (uval - uval div x * x) < 10 ^ Suc k"
    using Suc.prems(1) by (simp add: minus_div_mult_eq_mod unat_mod_distrib)
  then have "list_all isdigit (digits_loop 10 (uval - uval div x * x) (x div 10) r)" for r
    by (rule Suc.IH [OF xd])
  then show ?case using isdigit_digit_chars [OF d] by (subst digits_loop.simps) (simp add: Let_def)
qed

lemma decimal_shape:
  assumes "val \<noteq> 0" "unat val < 10 ^ len"
  shows "\<exists>j. length (SCPI_UInt32ToStrBase val len 10) = Suc j \<and> 10 ^ j \<le> unat val \<and>
    list_all isdigit (SCPI_UInt32ToStrBase val len 10) \<and> value_of 10 (SCPI_UInt32ToStrBase val len 10) = unat val"
proof -
  let ?s = "SCPI_UInt32ToStrBase val len 10"
  have x: "unat (start_divisor 10) = 10 ^ 9" by simp
  have v: "0 < unat val" "unat val < 10 ^ Suc 9" using assms(1) unat_lt32 [of val] by (auto simp: unat_gt_0)
  obtain j where j: "unat (drop_zeros 10 val (start_divisor 10)) = 10 ^ j" "10 ^ j \<le> unat val" "unat val < 10 ^ Suc j"
    using drop_zeros_power [OF x, of 10 val] v by auto
  have "(10::nat) ^ j < 10 ^ len" using j(2) assms(2) by linarith
  then have l: "j < len" by (rule power_less_imp_less_exp [rotated]) simp
  have s: "?s = digits_loop 10 val (drop_zeros 10 val (start_divisor 10)) len"
    using assms(1) by (simp add: SCPI_UInt32ToStrBase_def UInt32ToStrBaseSign_def Let_def)
  show ?thesis
    using digits_loop_value [OF j(1) _ _ _ j(3) l] digits_loop_isdigit [OF j(1,3)] j(2) unfolding s by auto
qed

lemma decimal_digits:
  assumes "9 < len"
  shows "list_all isdigit (SCPI_UInt32ToStrBase val len 10)"
    "value_of 10 (SCPI_UInt32ToStrBase val len 10) = unat val"
    "SCPI_UInt32ToStrBase val len 10 \<noteq> []"
    "unat val < 10 ^ 9 \<Longrightarrow> length (SCPI_UInt32ToStrBase val len 10) \<le> 9"
proof -
  let ?s = "SCPI_UInt32ToStrBase val len 10"
  have "list_all isdigit ?s \<and> value_of 10 ?s = unat val \<and> ?s \<noteq> [] \<and> (unat val < 10 ^ 9 \<longrightarrow> length ?s \<le> 9)"
  proof (cases "val = 0")
    case True
    then show ?thesis using assms
      by (simp add: SCPI_UInt32ToStrBase_def UInt32ToStrBaseSign_def value_of_def digit_value_def isdigit_def)
  next
    case False
    have "unat val < 10 ^ 10" using unat_lt32 [of val] by simp
    also have "(10::nat) ^ 10 \<le> 10 ^ len" using assms by (intro power_increasing) auto
    finally obtain j where j: "length ?s = Suc j" "10 ^ j \<le> unat val" "list_all isdigit ?s" "value_of 10 ?s = unat val"
      using decimal_shape [OF False, of len] by blast
    have "j < 9" if "unat val < 10 ^ 9"
      by (rule power_less_imp_less_exp [of "10::nat"]) (use j(2) that in auto)
    then show ?thesis using j by auto
  qed
  then show "list_all isdigit ?s" "value_of 10 ?s = unat val" "?s \<noteq> []" "unat val < 10 ^ 9 \<Longrightarrow> length ?s \<le> 9" by auto
qed

lemma block_digits_all:
  assumes "drop (lex_pos s) m = ds @ rest" "list_all isdigit ds" "lex_pos s + length ds \<le> lex_buffer s + lex_len s"
  shows "block_digits m (length ds) acc s = (0, acc * 10 ^ length ds + value_of 10 ds, step (length ds) s)"
  using assms
proof (induction ds arbitrary: s acc)
  case Nil
  then show ?case by (simp add: value_of_def step_def)
next
  case (Cons c ds)
  have c: "m ! lex_pos s = c" using Cons.prems(1) by (metis append_Cons nth_via_drop)
  have dr: "drop (lex_pos (step 1 s)) m = ds @ rest"
    using Cons.prems(1) by (simp add: drop_Suc flip: tl_drop)
  have "\<not> iseos s" "isdigit c" "digit_value c = code c - 48"
    using Cons.prems by (auto simp: iseos_def digit_value_def)
  then show ?case using Cons.IH [OF dr, of "acc * 10 + (code c - 48)"] Cons.prems c
    by (simp add: value_of_Cons algebra_simps)
qed

text \<open>What the application has been given to send.\<close>

definition output_of :: "scpi_t \<Rightarrow> string" where
  "output_of ctx = concat (map (\<lambda>e. case e of EvWrite d \<Rightarrow> d | _ \<Rightarrow> []) (events ctx))"

lemma output_of_simps [simp]:
  "output_of (writeData ctx d) = output_of ctx @ d" "output_of (count_output ctx) = output_of ctx"
  "output_of (ctx\<lparr>arbitrary_remaining := n\<rparr>) = output_of ctx"
  by (auto simp: output_of_def writeData_def emit_def count_output_def)

lemma writeData_fields [simp]:
  "arbitrary_remaining (writeData ctx d) = arbitrary_remaining ctx" "output_count (writeData ctx d) = output_count ctx"
  by (simp_all add: writeData_def emit_def)

lemma output_block:
  assumes "output_count ctx \<le> 0" "length data < 10 ^ 9"
  defines "D \<equiv> SCPI_UInt32ToStrBase (of_nat (length data)) 10 10"
  shows "output_of (SCPI_ResultArbitraryBlock ctx data) =
    output_of ctx @ (CHR ''#'' # char_of (length D + 48) # D) @ data"
proof -
  have "unat (of_nat (length data) :: u32) = length data"
    using assms(2) by (simp add: unat_of_nat take_bit_nat_eq_self)
  then show ?thesis using assms(1)
    by (simp add: SCPI_ResultArbitraryBlock_def SCPI_ResultArbitraryBlockData_def SCPI_ResultArbitraryBlockHeader_def
        Let_def writeDelimiter_def D_def)
qed

text \<open>How the block lexer reads a block, on a buffer that goes on after it.\<close>

definition block_of :: "string \<Rightarrow> string" where
  "block_of data =
     (let d = SCPI_UInt32ToStrBase (of_nat (length data)) 10 10 in CHR ''#'' # char_of (length d + 48) # d @ data)"

lemma block_lexed:
  assumes "length data < 10 ^ 9" and m_def: "m = pre @ block_of data @ post"
  shows "scpiLex_ArbitraryBlockProgramData m \<lparr>lex_buffer = 0, lex_pos = length pre, lex_len = length m\<rparr> t =
      (length (block_of data), \<lparr>lex_buffer = 0, lex_pos = length (pre @ block_of data), lex_len = length m\<rparr>,
       \<lparr>tok_type = SCPI_TOKEN_ARBITRARY_BLOCK_PROGRAM_DATA,
        tok_ptr = Some (length pre + length (block_of data) - length data), tok_len = length data\<rparr>)"
    and "isNonzeroDigit (block_of data ! 1)" "length (block_of data) > 2" "hd (block_of data) = CHR ''#''"
proof -
  define D where "D = SCPI_UInt32ToStrBase (of_nat (length data)) 10 10"
  have n: "unat (of_nat (length data) :: u32) = length data"
    using assms(1) by (simp add: unat_of_nat take_bit_nat_eq_self)
  have D: "list_all isdigit D" "value_of 10 D = length data" "D \<noteq> []" "length D \<le> 9"
    using decimal_digits [of 10 "of_nat (length data)"] n assms(1) by (auto simp: D_def)
  define c where "c = (char_of (length D + 48) :: char)"
  have c: "code c = length D + 48" using D(4) by (simp add: c_def)
  have nz: "isNonzeroDigit c"
  proof -
    have "1 \<le> length D" using D(3) by (simp add: Suc_le_eq)
    moreover have "c \<noteq> CHR ''0''" using c D(3) by auto
    ultimately show ?thesis using c D(4) by (simp add: isNonzeroDigit_def isdigit_def)
  qed
  have block: "block_of data = CHR ''#'' # c # D @ data" by (simp add: block_of_def D_def c_def Let_def)
  then show "isNonzeroDigit (block_of data ! 1)" "length (block_of data) > 2" "hd (block_of data) = CHR ''#''"
    using nz D(3) by (cases D; simp)+
  let ?s = "\<lparr>lex_buffer = 0, lex_pos = length pre, lex_len = length m\<rparr>"
  have hash: "skipChr m ?s (CHR ''#'') = (SKIP_OK, step 1 ?s)"
    by (simp add: skipChr_def iseos_def ischr_def block m_def nth_append)
  have cnt: "\<not> iseos (step 1 ?s)" "m ! lex_pos (step 1 ?s) = c"
    by (simp_all add: iseos_def block m_def nth_append)
  have digs: "block_digits m (length D) 0 (step 1 (step 1 ?s)) = (0, length data, step (length D) (step 1 (step 1 ?s)))"
    using block_digits_all [of "step 1 (step 1 ?s)" m D "data @ post" 0] D by (simp add: block m_def)
  have e: "code c - 48 = length D" using c by simp
  show "scpiLex_ArbitraryBlockProgramData m ?s t =
      (length (block_of data), \<lparr>lex_buffer = 0, lex_pos = length (pre @ block_of data), lex_len = length m\<rparr>,
       \<lparr>tok_type = SCPI_TOKEN_ARBITRARY_BLOCK_PROGRAM_DATA,
        tok_ptr = Some (length pre + length (block_of data) - length data), tok_len = length data\<rparr>)"
    unfolding scpiLex_ArbitraryBlockProgramData_def Let_def hash prod.case cnt(2) e digs
    using cnt(1) nz by (simp add: block m_def step_def)
qed

text \<open>C3: A block of fewer than a billion bytes that the device writes as a first result is read back by
  the block lexer as exactly the bytes written, whatever they are and whatever surrounds the block.\<close>

theorem arbitrary_block_roundtrip:
  assumes "length data < 10 ^ 9" "output_count ctx \<le> 0"
    and "output_of (SCPI_ResultArbitraryBlock ctx data) = output_of ctx @ block"
  shows "case scpiLex_ArbitraryBlockProgramData (pre @ block @ post)
      \<lparr>lex_buffer = 0, lex_pos = length pre, lex_len = length (pre @ block @ post)\<rparr> t of
    (r, s', t') \<Rightarrow> r = length block \<and> lex_pos s' = length (pre @ block) \<and>
      tok_type t' = SCPI_TOKEN_ARBITRARY_BLOCK_PROGRAM_DATA \<and> text_of (pre @ block @ post) t' = data"
proof -
  have block: "block = block_of data"
    using output_block [OF assms(2,1)] assms(3) by (simp add: block_of_def Let_def)
  show ?thesis unfolding block block_lexed(1) [OF assms(1) refl]
    by (simp add: text_of_def block_of_def Let_def)
qed

lemma arbitrary_block_roundtrip_witness:
  "case scpiLex_ArbitraryBlockProgramData (''X '' @ ''#12AB'' @ '';'')
      \<lparr>lex_buffer = 0, lex_pos = 2, lex_len = 8\<rparr> \<lparr>tok_type = SCPI_TOKEN_UNKNOWN, tok_ptr = None, tok_len = 0\<rparr> of
    (r, s', t') \<Rightarrow> text_of (''X '' @ ''#12AB'' @ '';'') t' = ''AB''"
proof -
  have d: "SCPI_UInt32ToStrBase (of_nat (length ''AB'')) 10 10 = ''2''" by code_simp
  have c: "char_of (49::nat) = CHR ''1''" by code_simp
  have o: "output_count (demo_ctx []) \<le> 0" by (simp add: demo_ctx_def)
  have "output_of (SCPI_ResultArbitraryBlock (demo_ctx []) ''AB'') = output_of (demo_ctx []) @ ''#12AB''"
    using output_block [OF o, of "''AB''"] unfolding d by (simp add: c)
  note trip = arbitrary_block_roundtrip [OF _ o this, of "''X ''" "'';''"]
  have l: "length ''AB'' < (10::nat) ^ 9" by simp
  have n: "length ''X '' = 2" "length (''X '' @ ''#12AB'' @ '';'') = 8" by simp_all
  show ?thesis
    by (rule case_prodI2, rule case_prodI2)
       (use trip [OF l, of "\<lparr>tok_type = SCPI_TOKEN_UNKNOWN, tok_ptr = None, tok_len = 0\<rparr>", unfolded n] in
         \<open>simp only: prod.case\<close>)
qed

end
