(* ===== verification/Scpi_Param.thy ===== *)
theory Scpi_Param
  imports Scpi_Unit Scpi_Result
begin

text \<open>
  Reading the parameters of a command (\<^verbatim>\<open>libscpi/src/parser.c\<close>): one parameter at a time from the
  lexer state of the context, then its conversion. Output pointers are taken to be non-null, and
  an output that the code leaves unwritten is \<open>None\<close>. The number conversions of the C library are
  modelled for the bases the code passes. The lemmas cover the progress and the errors of reading
  a parameter, and the round trip of quoted text.
\<close>

subsection \<open>One parameter\<close>

definition set_lex :: "lex_state_t \<Rightarrow> scpi_t \<Rightarrow> scpi_t" where
  "set_lex s ctx = ctx\<lparr>param_lex := s\<rparr>"

definition no_token :: scpi_token_t where
  "no_token = \<lparr>tok_type = SCPI_TOKEN_UNKNOWN, tok_ptr = None, tok_len = 0\<rparr>"

fun is_parameter_type :: "scpi_token_type_t \<Rightarrow> bool" where
  "is_parameter_type ty \<longleftrightarrow> ty \<in> {SCPI_TOKEN_HEXNUM, SCPI_TOKEN_OCTNUM, SCPI_TOKEN_BINNUM,
     SCPI_TOKEN_PROGRAM_MNEMONIC, SCPI_TOKEN_DECIMAL_NUMERIC_PROGRAM_DATA,
     SCPI_TOKEN_DECIMAL_NUMERIC_PROGRAM_DATA_WITH_SUFFIX, SCPI_TOKEN_ARBITRARY_BLOCK_PROGRAM_DATA,
     SCPI_TOKEN_SINGLE_QUOTE_PROGRAM_DATA, SCPI_TOKEN_DOUBLE_QUOTE_PROGRAM_DATA, SCPI_TOKEN_PROGRAM_EXPRESSION}"

definition SCPI_Parameter :: "scpi_t \<Rightarrow> bool \<Rightarrow> bool \<times> scpi_token_t \<times> scpi_t" where
  "SCPI_Parameter ctx mandatory =
     (let parameter = no_token; s = param_lex ctx; m = buf_data ctx
      in if lex_pos s \<ge> lex_buffer s + lex_len s
         then if mandatory then (False, parameter, SCPI_ErrorPush ctx SCPI_ERROR_MISSING_PARAMETER)
              else (False, parameter\<lparr>tok_type := SCPI_TOKEN_PROGRAM_MNEMONIC\<rparr>, ctx)
         else let (comma, s1, t1) = (if input_count ctx \<noteq> 0 then scpiLex_Comma m s parameter else (1, s, parameter))
              in if input_count ctx \<noteq> 0 \<and> tok_type t1 \<noteq> SCPI_TOKEN_COMMA
                 then (False, invalidateToken t1 None, SCPI_ErrorPush (set_lex s1 ctx) SCPI_ERROR_INVALID_SEPARATOR)
                 else let ctx1 = (set_lex s1 ctx)\<lparr>input_count := input_count ctx + 1\<rparr>;
                          (_, s2, t2) = scpiParser_parseProgramData m s1 t1;
                          ctx2 = set_lex s2 ctx1
                      in if is_parameter_type (tok_type t2) then (True, t2, ctx2)
                         else (False, invalidateToken t2 None, SCPI_ErrorPush ctx2 SCPI_ERROR_INVALID_STRING_DATA))"

fun SCPI_ParamIsNumber :: "scpi_token_t \<Rightarrow> bool \<Rightarrow> bool" where
  "SCPI_ParamIsNumber parameter suffixAllowed =
     (if tok_type parameter \<in> {SCPI_TOKEN_HEXNUM, SCPI_TOKEN_OCTNUM, SCPI_TOKEN_BINNUM,
          SCPI_TOKEN_DECIMAL_NUMERIC_PROGRAM_DATA} then True
      else if tok_type parameter = SCPI_TOKEN_DECIMAL_NUMERIC_PROGRAM_DATA_WITH_SUFFIX then suffixAllowed
      else False)"

subsection \<open>Number conversions of the C library\<close>

definition isspace :: "char \<Rightarrow> bool" where
  "isspace c \<longleftrightarrow> c = CHR '' '' \<or> (9 \<le> code c \<and> code c \<le> 13)"

definition digit_of :: "char \<Rightarrow> nat" where
  "digit_of c = (if isdigit c then code c - 48 else if isupper c then code c - 55
     else if islower c then code c - 87 else 36)"

text \<open>Sign, magnitude and number of characters used, 0 of them when there is no number.\<close>

definition strto_scan :: "nat \<Rightarrow> string \<Rightarrow> bool \<times> nat \<times> nat" where
  "strto_scan base s =
     (let ws = length (takeWhile isspace s); s1 = drop ws s;
          neg = (at s1 0 = CHR ''-''); sg = (if at s1 0 = CHR ''-'' \<or> at s1 0 = CHR ''+'' then 1 else 0);
          s2 = drop sg s1;
          pre = (if base = 16 \<and> at s2 0 = CHR ''0'' \<and> (at s2 1 = CHR ''x'' \<or> at s2 1 = CHR ''X'') \<and> digit_of (at s2 2) < 16
                 then 2 else 0);
          ds = takeWhile (\<lambda>c. digit_of c < base) (drop pre s2)
      in if ds = [] then (False, 0, 0)
         else (neg, foldl (\<lambda>acc c. acc * base + digit_of c) 0 ds, ws + sg + pre + length ds))"

text \<open>The value is clamped to the range of a 32-bit \<^verbatim>\<open>long\<close>; an unsigned negative number wraps.\<close>

definition strBaseToInt32 :: "string \<Rightarrow> nat \<Rightarrow> u32 \<times> nat" where
  "strBaseToInt32 s base =
     (let (neg, n, used) = strto_scan base s; v = (if neg then - int n else int n)
      in (word_of_int (max (- (2 ^ 31)) (min (2 ^ 31 - 1) v)), used))"

definition strBaseToUInt32 :: "string \<Rightarrow> nat \<Rightarrow> u32 \<times> nat" where
  "strBaseToUInt32 s base =
     (let (neg, n, used) = strto_scan base s
      in (if n > 2 ^ 32 - 1 then - 1 else if neg then - of_nat n else of_nat n, used))"

definition ParamSignToUInt32 :: "scpi_t \<Rightarrow> scpi_token_t \<Rightarrow> bool \<Rightarrow> bool \<times> u32 option" where
  "ParamSignToUInt32 ctx parameter sign =
     (let s = (case tok_ptr parameter of None \<Rightarrow> [] | Some p \<Rightarrow> drop p (buf_data ctx));
          conv = (\<lambda>(v, used). (used > 0, Some v))
      in if tok_type parameter = SCPI_TOKEN_HEXNUM then conv (strBaseToUInt32 s 16)
         else if tok_type parameter = SCPI_TOKEN_OCTNUM then conv (strBaseToUInt32 s 8)
         else if tok_type parameter = SCPI_TOKEN_BINNUM then conv (strBaseToUInt32 s 2)
         else if tok_type parameter \<in> {SCPI_TOKEN_DECIMAL_NUMERIC_PROGRAM_DATA,
                 SCPI_TOKEN_DECIMAL_NUMERIC_PROGRAM_DATA_WITH_SUFFIX}
              then conv (if sign then strBaseToInt32 s 10 else strBaseToUInt32 s 10)
         else (False, None))"

definition ParamSignUInt32 :: "scpi_t \<Rightarrow> bool \<Rightarrow> bool \<Rightarrow> bool \<times> u32 option \<times> scpi_t" where
  "ParamSignUInt32 ctx mandatory sign =
     (let (result, param, ctx) = SCPI_Parameter ctx mandatory
      in if result
         then if SCPI_ParamIsNumber param False
              then let (ok, v) = ParamSignToUInt32 ctx param sign in (ok, v, ctx)
              else if SCPI_ParamIsNumber param True then (False, None, SCPI_ErrorPush ctx SCPI_ERROR_SUFFIX_NOT_ALLOWED)
              else (False, None, SCPI_ErrorPush ctx SCPI_ERROR_DATA_TYPE_ERROR)
         else (False, None, ctx))"

definition SCPI_ParamInt32 :: "scpi_t \<Rightarrow> bool \<Rightarrow> bool \<times> u32 option \<times> scpi_t" where
  "SCPI_ParamInt32 ctx mandatory = ParamSignUInt32 ctx mandatory True"

definition SCPI_ParamUInt32 :: "scpi_t \<Rightarrow> bool \<Rightarrow> bool \<times> u32 option \<times> scpi_t" where
  "SCPI_ParamUInt32 ctx mandatory = ParamSignUInt32 ctx mandatory False"

subsection \<open>Characters, blocks, text and choices\<close>

text \<open>The value is a pointer into the buffer and a length.\<close>

definition SCPI_ParamCharacters :: "scpi_t \<Rightarrow> bool \<Rightarrow> bool \<times> (nat option \<times> nat) option \<times> scpi_t" where
  "SCPI_ParamCharacters ctx mandatory =
     (let (result, param, ctx) = SCPI_Parameter ctx mandatory
      in if result
         then if tok_type param \<in> {SCPI_TOKEN_SINGLE_QUOTE_PROGRAM_DATA, SCPI_TOKEN_DOUBLE_QUOTE_PROGRAM_DATA}
              then (True, Some (map_option (\<lambda>p. p + 1) (tok_ptr param), tok_len param - 2), ctx)
              else (True, Some (tok_ptr param, tok_len param), ctx)
         else (False, None, ctx))"

definition SCPI_ParamArbitraryBlock :: "scpi_t \<Rightarrow> bool \<Rightarrow> bool \<times> (nat option \<times> nat) option \<times> scpi_t" where
  "SCPI_ParamArbitraryBlock ctx mandatory =
     (let (result, param, ctx) = SCPI_Parameter ctx mandatory
      in if result
         then if tok_type param = SCPI_TOKEN_ARBITRARY_BLOCK_PROGRAM_DATA
              then (True, Some (tok_ptr param, tok_len param), ctx)
              else (False, None, SCPI_ErrorPush ctx SCPI_ERROR_DATA_TYPE_ERROR)
         else (False, None, ctx))"

function copy_text_loop :: "string \<Rightarrow> nat \<Rightarrow> nat \<Rightarrow> char \<Rightarrow> nat \<Rightarrow> string" where
  "copy_text_loop txt last_i buffer_len quote i_from =
     (if i_from < last_i \<and> i_from < buffer_len
      then txt ! i_from # copy_text_loop txt last_i buffer_len quote (if txt ! i_from = quote then i_from + 2 else i_from + 1)
      else [])"
  by pat_completeness auto
termination
  by (relation "measure (\<lambda>(_, l, _, _, i). l - i)") auto

declare copy_text_loop.simps [simp del]

text \<open>The text copied, without the terminator that is added when there is room for it.\<close>

definition SCPI_ParamCopyText :: "scpi_t \<Rightarrow> nat \<Rightarrow> bool \<Rightarrow> bool \<times> string option \<times> scpi_t" where
  "SCPI_ParamCopyText ctx buffer_len mandatory =
     (let (result, param, ctx) = SCPI_Parameter ctx mandatory
      in if result
         then if tok_type param \<in> {SCPI_TOKEN_SINGLE_QUOTE_PROGRAM_DATA, SCPI_TOKEN_DOUBLE_QUOTE_PROGRAM_DATA}
              then let quote = (if tok_type param = SCPI_TOKEN_SINGLE_QUOTE_PROGRAM_DATA then CHR 0x27 else CHR 0x22)
                   in (True, Some (copy_text_loop (text_of (buf_data ctx) param) (tok_len param - 1) buffer_len quote 1), ctx)
              else (False, None, SCPI_ErrorPush ctx SCPI_ERROR_DATA_TYPE_ERROR)
         else (False, None, ctx))"

definition SCPI_ParamToChoice :: "scpi_t \<Rightarrow> scpi_token_t \<Rightarrow> (string \<times> int) list \<Rightarrow> bool \<times> int option \<times> scpi_t" where
  "SCPI_ParamToChoice ctx parameter options =
     (if tok_type parameter = SCPI_TOKEN_PROGRAM_MNEMONIC
      then case find (\<lambda>(name, tag). matchPattern name (text_of (buf_data ctx) parameter)) options of
             Some (name, tag) \<Rightarrow> (True, Some tag, ctx)
           | None \<Rightarrow> (False, None, SCPI_ErrorPush ctx SCPI_ERROR_ILLEGAL_PARAMETER_VALUE)
      else (False, None, SCPI_ErrorPush ctx SCPI_ERROR_DATA_TYPE_ERROR))"

definition SCPI_ChoiceToName :: "(string \<times> int) list \<Rightarrow> int \<Rightarrow> string option" where
  "SCPI_ChoiceToName options tag = map_option fst (find (\<lambda>(_, t). t = tag) options)"

definition scpi_bool_def :: "(string \<times> int) list" where
  "scpi_bool_def = [(''OFF'', 0), (''ON'', 1)]"

definition SCPI_ParamBool :: "scpi_t \<Rightarrow> bool \<Rightarrow> bool \<times> bool option \<times> scpi_t" where
  "SCPI_ParamBool ctx mandatory =
     (let (result, param, ctx) = SCPI_Parameter ctx mandatory
      in if result
         then if tok_type param = SCPI_TOKEN_DECIMAL_NUMERIC_PROGRAM_DATA
              then let (_, v) = ParamSignToUInt32 ctx param True in (True, map_option (\<lambda>v. v \<noteq> 0) v, ctx)
              else let (ok, v, ctx) = SCPI_ParamToChoice ctx param scpi_bool_def
                   in (ok, map_option (\<lambda>v. v \<noteq> 0) v, ctx)
         else (False, None, ctx))"

definition SCPI_ParamChoice :: "scpi_t \<Rightarrow> (string \<times> int) list \<Rightarrow> bool \<Rightarrow> bool \<times> int option \<times> scpi_t" where
  "SCPI_ParamChoice ctx options mandatory =
     (let (result, param, ctx) = SCPI_Parameter ctx mandatory
      in if result then SCPI_ParamToChoice ctx param options else (False, None, ctx))"

subsection \<open>What reading a parameter does\<close>

text \<open>C8: Reading a parameter either returns a data token that lies inside the command's data, having
  moved past it and counted it without touching the error queue; or fails, in which case exactly one
  error has been pushed: a missing parameter, a bad separator or invalid data; an optional parameter
  that is not there fails silently and leaves the context as it was.\<close>

theorem SCPI_Parameter_spec:
  assumes "in_buf (param_lex ctx)"
  shows "case SCPI_Parameter ctx mandatory of (ok, t, ctx') \<Rightarrow>
    (if ok then is_parameter_type (tok_type t) \<and> token_in (lex_pos (param_lex ctx)) (lex_pos (param_lex ctx')) t \<and>
        in_buf (param_lex ctx') \<and> lex_pos (param_lex ctx) < lex_pos (param_lex ctx') \<and>
        ctx' = set_lex (param_lex ctx') (ctx\<lparr>input_count := input_count ctx + 1\<rparr>)
     else if iseos (param_lex ctx)
     then ctx' = (if mandatory then SCPI_ErrorPush ctx SCPI_ERROR_MISSING_PARAMETER else ctx)
     else \<exists>s n. in_buf s \<and> ctx' = SCPI_ErrorPush (set_lex s (ctx\<lparr>input_count := n\<rparr>))
        (if n = input_count ctx then SCPI_ERROR_INVALID_SEPARATOR else SCPI_ERROR_INVALID_STRING_DATA))"
proof (cases "iseos (param_lex ctx)")
  case True
  then show ?thesis by (simp add: SCPI_Parameter_def Let_def iseos_def)
next
  case False
  define s where "s = param_lex ctx"
  define m where "m = buf_data ctx"
  obtain c s1 t1 where c: "(if input_count ctx \<noteq> 0 then scpiLex_Comma m s no_token else (1, s, no_token)) = (c, s1, t1)"
    by (metis prod_cases3)
  obtain r s2 t2 where p: "scpiParser_parseProgramData m s1 t1 = (r, s2, t2)" by (metis prod_cases3)
  have a1: "adv s s1" using c comma.progress by (auto split: if_splits)
  have sc: "scan_contract s1 (r, s2, t2)" by (rule parseProgramData_contract [OF p])
  then have a2: "adv s1 s2" and t2: "token_in (lex_pos s1) (lex_pos s2) t2" by (auto simp: scan_contract_def token_in_def)
  have ib: "in_buf s1" "in_buf s2" using assms a1 a2 unfolding s_def by (metis adv_in_buf)+
  have le: "lex_pos s \<le> lex_pos s1" using a1 by (simp add: adv_def)
  show ?thesis
  proof (cases "input_count ctx \<noteq> 0 \<and> tok_type t1 \<noteq> SCPI_TOKEN_COMMA")
    case True
    then show ?thesis
      using False c ib(1) unfolding SCPI_Parameter_def Let_def iseos_def s_def [symmetric] m_def [symmetric] c prod.case
      by (auto simp: set_lex_def intro!: exI [of _ s1] exI [of _ "input_count ctx"])
  next
    case sep: False
    show ?thesis
    proof (cases "is_parameter_type (tok_type t2)")
      case True
      have "lex_pos s1 < lex_pos s2" using sc True by (auto simp: scan_contract_def)
      then show ?thesis
        using False sep True p t2 le ib(2) unfolding SCPI_Parameter_def Let_def iseos_def s_def [symmetric] m_def [symmetric] c prod.case
        by (auto simp: set_lex_def token_in_def)
    next
      case bad: False
      then show ?thesis
        using False sep p ib(2) unfolding SCPI_Parameter_def Let_def iseos_def s_def [symmetric] m_def [symmetric] c prod.case
        by (auto simp: set_lex_def intro!: exI [of _ s2] exI [of _ "input_count ctx + 1"])
    qed
  qed
qed

lemma SCPI_Parameter_spec_witness:
  "snd (snd (SCPI_Parameter (demo_ctx []) True)) = SCPI_ErrorPush (demo_ctx []) SCPI_ERROR_MISSING_PARAMETER"
proof -
  have e: "in_buf (param_lex (demo_ctx []))" "iseos (param_lex (demo_ctx []))" "\<not> fst (SCPI_Parameter (demo_ctx []) True)"
    by (simp_all add: in_buf_def iseos_def demo_ctx_def SCPI_Parameter_def)
  show ?thesis using SCPI_Parameter_spec [OF e(1), of True] e(2,3) by (auto split: prod.splits)
qed

subsection \<open>Quoted text\<close>

text \<open>Doubling every double quote.\<close>

fun dup :: "string \<Rightarrow> string" where
  "dup [] = []"
| "dup (c # cs) = (if c = CHR 0x22 then [c, c] else [c]) @ dup cs"

lemma dup_append [simp]: "dup (a @ b) = dup a @ dup b"
  by (induction a) auto

lemma dup_id: "CHR 0x22 \<notin> set d \<Longrightarrow> dup d = d"
  by (induction d) auto

lemma strnpbrk_quote:
  assumes "NUL \<notin> set d"
  shows "case strnpbrk d quote_char of None \<Rightarrow> CHR 0x22 \<notin> set d
    | Some q \<Rightarrow> q < length d \<and> d ! q = CHR 0x22 \<and> CHR 0x22 \<notin> set (take q d)"
  using assms by (induction d) (auto simp: quote_char_def split: option.splits)

lemma output_text_loop:
  assumes "NUL \<notin> set d"
  shows "output_of (text_loop ctx d) = output_of ctx @ dup d"
  using assms
proof (induction ctx d rule: text_loop.induct)
  case (1 ctx d)
  note q = strnpbrk_quote [OF 1(2)]
  show ?case
  proof (cases "strnpbrk d quote_char")
    case None
    then show ?thesis using q by (subst text_loop.simps) (simp add: dup_id)
  next
    case (Some k)
    then have k: "k < length d" "d ! k = CHR 0x22" "dup (take k d) = take k d" using q by (auto simp: dup_id)
    have d: "take (k + 1) d = take k d @ [CHR 0x22]" using k by (simp add: take_Suc_conv_app_nth)
    have ih: "output_of (text_loop (writeData (writeData ctx (take (k + 1) d)) quote_char) (drop (k + 1) d)) =
        output_of ctx @ take (k + 1) d @ quote_char @ dup (drop (k + 1) d)"
    proof -
      have "NUL \<notin> set (drop (k + 1) d)" using 1(2) by (meson in_set_dropD)
      then show ?thesis using 1(1) [OF Some] by simp
    qed
    have "dup d = dup (take (k + 1) d) @ dup (drop (k + 1) d)" by (metis append_take_drop_id dup_append)
    also have "dup (take (k + 1) d) = take (k + 1) d @ quote_char" unfolding d by (simp add: k quote_char_def)
    finally show ?thesis using ih Some by (subst text_loop.simps) simp
  qed
qed

text \<open>The lexer runs through doubled quotes and stops before a single one.\<close>

lemma skipQuote_dup:
  assumes "drop (lex_pos s) m = dup d @ CHR 0x22 # rest" "list_all isascii7bit d" "rest = [] \<or> hd rest \<noteq> CHR 0x22"
    and "lex_pos s + length (dup d) + 1 + length rest = lex_buffer s + lex_len s"
  shows "skipQuoteProgramData m s (CHR 0x22) = step (length (dup d)) s"
  using assms
proof (induction d arbitrary: s)
  case Nil
  have c: "m ! lex_pos s = CHR 0x22" using Nil(1) by (auto intro: nth_via_drop)
  have n: "\<not> iseos (step 1 s) \<Longrightarrow> rest \<noteq> [] \<and> m ! (lex_pos s + 1) = hd rest"
  proof -
    assume "\<not> iseos (step 1 s)"
    then have r: "rest \<noteq> []" using Nil(4) by (auto simp: iseos_def)
    have "drop (lex_pos s + 1) m = rest" using Nil(1) by (simp add: drop_Suc flip: tl_drop)
    then show ?thesis using r by (metis hd_drop_conv_nth drop_eq_Nil not_le)
  qed
  show ?case using c n Nil(3,4)
    by (subst skipQuoteProgramData.simps) (auto simp: ischr_def step_def iseos_def)
next
  case (Cons c d)
  have "\<exists>X. drop (lex_pos s) m = c # X" using Cons.prems(1) by (cases "c = CHR 0x22") auto
  then have c0: "m ! lex_pos s = c" by (auto intro: nth_via_drop)
  have ne: "\<not> iseos s" using Cons.prems(4) by (auto simp: iseos_def)
  show ?case
  proof (cases "c = CHR 0x22")
    case True
    have dr: "drop (lex_pos (step 2 s)) m = dup d @ CHR 0x22 # rest"
      using Cons.prems(1) True by (simp add: numeral_2_eq_2 drop_Suc flip: tl_drop)
    have "drop (lex_pos s + 1) m = c # dup d @ CHR 0x22 # rest"
      using Cons.prems(1) True by (simp add: drop_Suc flip: tl_drop)
    then have c1: "m ! (lex_pos s + 1) = c" by (rule nth_via_drop)
    have "skipQuoteProgramData m (step 2 s) (CHR 0x22) = step (length (dup d)) (step 2 s)"
      by (rule Cons.IH [OF dr]) (use Cons.prems True in auto)
    then show ?thesis using c0 c1 ne True Cons.prems(4)
      by (subst skipQuoteProgramData.simps) (simp add: ischr_def iseos_def add.commute)
  next
    case False
    have dr: "drop (lex_pos (step 1 s)) m = dup d @ CHR 0x22 # rest"
      using Cons.prems(1) False by (simp add: drop_Suc flip: tl_drop)
    have "skipQuoteProgramData m (step 1 s) (CHR 0x22) = step (length (dup d)) (step 1 s)"
      by (rule Cons.IH [OF dr]) (use Cons.prems False in auto)
    then show ?thesis using c0 ne False Cons.prems(2)
      by (subst skipQuoteProgramData.simps) (simp add: ischr_def)
  qed
qed

lemma copy_dup:
  assumes "drop i txt = dup d @ [CHR 0x22]" "last_i = i + length (dup d)" "last_i \<le> buffer_len" "i \<le> length txt"
  shows "copy_text_loop txt last_i buffer_len (CHR 0x22) i = d"
  using assms
proof (induction d arbitrary: i)
  case Nil
  then show ?case by (subst copy_text_loop.simps) simp
next
  case (Cons c d)
  have "\<exists>X. drop i txt = c # X" using Cons.prems(1) by (cases "c = CHR 0x22") auto
  then have c0: "txt ! i = c" by (auto intro: nth_via_drop)
  have len: "length txt = i + length (dup (c # d)) + 1"
    using arg_cong [OF Cons.prems(1), of length] Cons.prems(4) by simp
  show ?case
  proof (cases "c = CHR 0x22")
    case True
    have "drop (i + 2) txt = dup d @ [CHR 0x22]"
      using Cons.prems(1) True by (simp add: numeral_2_eq_2 drop_Suc flip: tl_drop)
    then have "copy_text_loop txt last_i buffer_len (CHR 0x22) (i + 2) = d"
      by (rule Cons.IH) (use Cons.prems True len in auto)
    then show ?thesis using c0 True Cons.prems by (subst copy_text_loop.simps) simp
  next
    case False
    have "drop (i + 1) txt = dup d @ [CHR 0x22]"
      using Cons.prems(1) False by (simp add: drop_Suc flip: tl_drop)
    then have "copy_text_loop txt last_i buffer_len (CHR 0x22) (i + 1) = d"
      by (rule Cons.IH) (use Cons.prems False len in auto)
    then show ?thesis using c0 False Cons.prems by (subst copy_text_loop.simps) simp
  qed
qed

text \<open>At a double quote, only the string routine finds a token.\<close>

lemma parse_at_quote:
  assumes "\<not> iseos s" "m ! lex_pos s = CHR 0x22" "scpiLex_StringProgramData m s t = (r, s', t')" "r \<noteq> 0" "tok_len t = 0"
    and "\<And>t. scpiLex_StringProgramData m s t = (r, s', t')"
  shows "\<exists>w s2. scpiParser_parseProgramData m s t = (r + w, s2, t')"
proof -
  have ws: "scpiLex_WhiteSpace m s u = (0, s, \<lparr>tok_type = SCPI_TOKEN_UNKNOWN, tok_ptr = Some (lex_pos s), tok_len = 0\<rparr>)" for u
    using assms(2) by (simp add: scpiLex_WhiteSpace_def skipWs_def skip_while.simps [of isws] isws_def Let_def)
  have sw: "skip_while isdigit m s = (0, s)" by (subst skip_while.simps) (simp add: assms(2) isdigit_def)
  have ch: "skipChr m s c = (SKIP_NONE, s)" if "c \<noteq> CHR 0x22" for c
    using that assms(2) by (simp add: skipChr_def ischr_def)
  have n: "fst (scpiLex_NondecimalNumericData m s u) = 0" "fst (scpiLex_CharacterProgramData m s u) = 0"
    "fst (scpiLex_DecimalNumericProgramData m s u) = 0" for u
    using assms(2)
    by (simp_all add: scpiLex_NondecimalNumericData_def ch scpiLex_CharacterProgramData_def mnemonic_body_def isalpha_def
        isupper_def islower_def scpiLex_DecimalNumericProgramData_def skipMantisa_def skipPlusmn_def skip_if_def
        isplusmn_def skipNumbers_def sw Let_def)
  obtain t1 where 1: "scpiLex_NondecimalNumericData m s t = (0, s, t1)"
    using n(1) [of t] nondecimal.failed_state [of m s t] by (metis fst_conv prod_cases3)
  obtain t2 where 2: "scpiLex_CharacterProgramData m s t1 = (0, s, t2)"
    using n(2) [of t1] chars.failed_state [of m s t1] by (metis fst_conv prod_cases3)
  obtain t3 where 3: "scpiLex_DecimalNumericProgramData m s t2 = (0, s, t3)"
    using n(3) [of t2] decimal.failed_state [of m s t2] by (metis fst_conv prod_cases3)
  obtain w s2 u where w: "scpiLex_WhiteSpace m s' t' = (w, s2, u)" by (metis prod_cases3)
  show ?thesis
    using assms(4) by (simp add: scpiParser_parseProgramData_def Let_def ws 1 2 3 or_else_def decimal_with_suffix_def assms(6) w)
qed

lemma output_text:
  assumes "output_count ctx \<le> 0" "NUL \<notin> set d"
  shows "output_of (SCPI_ResultText ctx d) = output_of ctx @ quote_char @ dup d @ quote_char"
  using assms by (simp add: SCPI_ResultText_def Let_def output_text_loop writeDelimiter_def)

text \<open>A text of ASCII characters that the device writes as a first result is read back unchanged as
  a text parameter, quotes included, whatever surrounds it, given room for the quoted form.\<close>

theorem text_roundtrip:
  assumes "NUL \<notin> set d" "list_all isascii7bit d" "output_count ctx \<le> 0"
    and "output_of (SCPI_ResultText ctx d) = output_of ctx @ quoted_text"
    and "buf_data dev = pre @ quoted_text @ post" "post = [] \<or> hd post \<noteq> CHR 0x22"
    and "param_lex dev = \<lparr>lex_buffer = 0, lex_pos = length pre, lex_len = length (buf_data dev)\<rparr>" "input_count dev = 0"
    and "length quoted_text \<le> buffer_len"
  shows "case SCPI_ParamCopyText dev buffer_len mandatory of (ok, text, dev') \<Rightarrow> ok \<and> text = Some d"
proof -
  have q: "quoted_text = CHR 0x22 # dup d @ [CHR 0x22]"
    using output_text [OF assms(3,1)] assms(4) by (simp add: quote_char_def)
  define m where "m = buf_data dev"
  define s where "s = param_lex dev"
  have m: "m = pre @ CHR 0x22 # dup d @ CHR 0x22 # post" using assms(5) q by (simp add: m_def)
  have s: "lex_pos s = length pre" "lex_buffer s = 0" "lex_len s = length m" using assms(7) by (simp_all add: s_def m_def)
  have at: "m ! lex_pos s = CHR 0x22" "\<not> iseos s" using m s by (simp_all add: iseos_def)
  have sq: "skipQuoteProgramData m (step 1 s) (CHR 0x22) = step (length (dup d)) (step 1 s)"
    by (rule skipQuote_dup [where rest = post]) (use m s assms(2,6) in auto)
  have closing: "m ! (length pre + Suc (length (dup d))) = CHR 0x22" "length m = length pre + length (dup d) + 2 + length post"
    using m by (simp_all add: nth_append)
  have qd: "quoted m s (CHR 0x22) = step (length (dup d) + 2) s"
    using s closing by (simp add: quoted_def Let_def sq [unfolded One_nat_def] iseos_def ischr_def)
  have str: "scpiLex_StringProgramData m s t = (length (dup d) + 2, step (length (dup d) + 2) s,
      \<lparr>tok_type = SCPI_TOKEN_DOUBLE_QUOTE_PROGRAM_DATA, tok_ptr = Some (lex_pos s), tok_len = length (dup d) + 2\<rparr>)" for t
    using at by (simp add: scpiLex_StringProgramData_def Let_def ischr_def qd)
  obtain w s2 where p: "scpiParser_parseProgramData m s no_token = (length (dup d) + 2 + w, s2,
      \<lparr>tok_type = SCPI_TOKEN_DOUBLE_QUOTE_PROGRAM_DATA, tok_ptr = Some (lex_pos s), tok_len = length (dup d) + 2\<rparr>)"
  proof -
    have "tok_len no_token = 0" by (simp add: no_token_def)
    from parse_at_quote [OF at(2,1) str _ this str] that show thesis by auto
  qed
  have par: "SCPI_Parameter dev mandatory = (True,
      \<lparr>tok_type = SCPI_TOKEN_DOUBLE_QUOTE_PROGRAM_DATA, tok_ptr = Some (lex_pos s), tok_len = length (dup d) + 2\<rparr>,
      set_lex s2 ((set_lex s dev)\<lparr>input_count := input_count dev + 1\<rparr>))"
    using at(2) p assms(8) by (simp add: SCPI_Parameter_def Let_def iseos_def s_def [symmetric] m_def [symmetric])
  have tx: "text_of m \<lparr>tok_type = SCPI_TOKEN_DOUBLE_QUOTE_PROGRAM_DATA, tok_ptr = Some (lex_pos s), tok_len = length (dup d) + 2\<rparr>
      = quoted_text" using m s q by (simp add: text_of_def)
  have copy: "copy_text_loop quoted_text (length (dup d) + 2 - 1) buffer_len (CHR 0x22) 1 = d"
    by (rule copy_dup) (use q assms(9) in auto)
  show ?thesis
    using par tx copy by (simp add: SCPI_ParamCopyText_def Let_def set_lex_def m_def)
qed

lemma text_roundtrip_witness:
  "fst (SCPI_ParamCopyText (set_lex \<lparr>lex_buffer = 0, lex_pos = 2, lex_len = 8\<rparr> ((demo_ctx [])\<lparr>buf_data := [CHR ''A'', CHR '' '', CHR 0x22, CHR ''x'', CHR 0x22, CHR 0x22, CHR 0x22, CHR '';'']\<rparr>)) 10 True)"
proof -
  let ?dev = "set_lex \<lparr>lex_buffer = 0, lex_pos = 2, lex_len = 8\<rparr> ((demo_ctx [])\<lparr>buf_data := [CHR ''A'', CHR '' '', CHR 0x22, CHR ''x'', CHR 0x22, CHR 0x22, CHR 0x22, CHR '';'']\<rparr>)"
  let ?d = "[CHR ''x'', CHR 0x22]" and ?q = "[CHR 0x22, CHR ''x'', CHR 0x22, CHR 0x22, CHR 0x22]"
  have o: "output_count (demo_ctx []) \<le> 0" by (simp add: demo_ctx_def)
  have t: "output_of (SCPI_ResultText (demo_ctx []) ?d) = output_of (demo_ctx []) @ ?q"
    using output_text [OF o, of ?d] by (simp add: quote_char_def)
  have a: "NUL \<notin> set ?d" "list_all isascii7bit ?d" by (simp_all add: isascii7bit_def)
  have b: "buf_data ?dev = ''A '' @ ?q @ '';''" "param_lex ?dev = \<lparr>lex_buffer = 0, lex_pos = length ''A '', lex_len = length (buf_data ?dev)\<rparr>"
    "input_count ?dev = 0" by (simp_all add: set_lex_def demo_ctx_def)
  show ?thesis
    using text_roundtrip [OF a o t b(1) _ b(2,3), of 10 True] by (auto split: prod.splits)
qed

end
