(* ===== verification/Scpi_Parser.thy ===== *)
theory Scpi_Parser
  imports Scpi_Param
begin

text \<open>
  The parser proper (\<^verbatim>\<open>libscpi/src/parser.c\<close>): collecting input, splitting it into message
  units, finding the command of each and calling it. A command is its pattern and its callback,
  a function on the context; the list of commands is a parameter of the operations, the context
  holds the index of the current one. Since callbacks may do anything to the context, the input
  loop is a partial function; the last section shows that it returns, and keeps the buffer and
  the status consistent, for every list of callbacks that keep them so.
\<close>

type_synonym scpi_command_t = "string \<times> (scpi_t \<Rightarrow> scpi_result_t \<times> scpi_t) option"

definition processCommand :: "scpi_command_t list \<Rightarrow> scpi_t \<Rightarrow> bool \<times> scpi_t" where
  "processCommand cmds ctx =
     (let is_query = (buf_data ctx ! (cmd_raw_data ctx + cmd_raw_length ctx - 1) = CHR ''?'');
          ctx1 = (if \<not> first_output ctx \<and> is_query then writeData ctx '';'' else ctx);
          ctx2 = ctx1\<lparr>cmd_error := False, output_count := 0, input_count := 0, arbitrary_remaining := 0\<rparr>;
          (result, ctx3) =
            (case map_option (\<lambda>i. snd (cmds ! i)) (param_cmd ctx) of
               Some (Some callback) \<Rightarrow>
                 (case callback ctx2 of
                    (SCPI_RES_ERR, c) \<Rightarrow> (False, if \<not> cmd_error c then SCPI_ErrorPush c SCPI_ERROR_EXECUTION_ERROR else c)
                  | (SCPI_RES_OK, c) \<Rightarrow>
                      if cmd_error c then (False, c)
                      else (True, if first_output c \<and> is_query then c\<lparr>first_output := False\<rparr> else c))
             | _ \<Rightarrow> (True, ctx2));
          s = param_lex ctx3
      in if lex_pos s < lex_buffer s + lex_len s \<and> \<not> cmd_error ctx3
         then (False, SCPI_ErrorPush ctx3 SCPI_ERROR_PARAMETER_NOT_ALLOWED) else (result, ctx3))"

text \<open>The first command whose pattern accepts the header.\<close>

fun find_from :: "scpi_command_t list \<Rightarrow> string \<Rightarrow> nat \<Rightarrow> nat \<Rightarrow> nat option" where
  "find_from [] header len i = None"
| "find_from (c # cs) header len i =
     (if matchCommand (fst c) header len = Some True then Some i else find_from cs header len (i + 1))"

definition findCommandHeader :: "scpi_command_t list \<Rightarrow> scpi_t \<Rightarrow> nat \<Rightarrow> nat \<Rightarrow> scpi_t option" where
  "findCommandHeader cmds ctx header len =
     map_option (\<lambda>i. ctx\<lparr>param_cmd := Some i\<rparr>) (find_from cmds (drop header (buf_data ctx)) len 0)"

definition set_state :: "scpi_parser_state_t \<Rightarrow> scpi_t \<Rightarrow> scpi_t" where
  "set_state st ctx = ctx\<lparr>parser_state := st\<rparr>"

text \<open>One unit of a message: the header is completed, looked up and run, or the error reported.\<close>

definition run_unit :: "scpi_command_t list \<Rightarrow> scpi_t \<Rightarrow> scpi_token_t \<Rightarrow> bool \<times> scpi_t \<times> scpi_token_t" where
  "run_unit cmds ctx cmd_prev =
     (let st = parser_state ctx
      in if tok_type (programHeader st) = SCPI_TOKEN_INVALID
         then (False, SCPI_ErrorPush ctx SCPI_ERROR_INVALID_CHARACTER, cmd_prev)
         else if tok_len (programHeader st) > 0
         then let (_, hdr, m) = composeCompoundCommand (buf_data ctx) cmd_prev (programHeader st);
                  st = st\<lparr>programHeader := hdr\<rparr>; ctx = (set_state st ctx)\<lparr>buf_data := m\<rparr>; p = the (tok_ptr hdr)
              in case findCommandHeader cmds ctx p (tok_len hdr) of
                   Some ctx \<Rightarrow>
                     let dp = the (tok_ptr (programData st));
                         ctx = ctx\<lparr>param_lex := \<lparr>lex_buffer = dp, lex_pos = dp, lex_len = tok_len (programData st)\<rparr>,
                                   cmd_raw_data := p, cmd_raw_length := tok_len hdr\<rparr>;
                         (result, ctx) = processCommand cmds ctx
                     in (result, ctx, programHeader (parser_state ctx))
                 | None \<Rightarrow> (False, SCPI_ErrorPushEx ctx SCPI_ERROR_UNDEFINED_HEADER, cmd_prev)
         else (True, ctx, cmd_prev))"

function parse_loop :: "scpi_command_t list \<Rightarrow> scpi_t \<Rightarrow> nat \<Rightarrow> nat \<Rightarrow> scpi_token_t \<Rightarrow> bool \<Rightarrow> bool \<times> scpi_t" where
  "parse_loop cmds ctx data len cmd_prev result =
     (let (r, st) = scpiParser_detectProgramMessageUnit (buf_data ctx) (parser_state ctx) data len;
          (res, ctx1, prev) = run_unit cmds (set_state st ctx) cmd_prev;
          result = (result \<and> res)
      in if r < len then parse_loop cmds ctx1 (data + r) (len - r) prev result else (result, ctx1))"
  by pat_completeness auto
termination
proof (relation "measure (\<lambda>(_, _, _, len, _). len)", goal_cases)
  case (2 cmds ctx data len cmd_prev result x r st y res z ctx1 prev result')
  then have "scpiParser_detectProgramMessageUnit (buf_data ctx) (parser_state ctx) data len = (r, st)" by simp
  from detect_shape [OF this] show ?case using 2 by auto
qed simp

declare parse_loop.simps [simp del]

definition SCPI_Parse :: "scpi_command_t list \<Rightarrow> scpi_t \<Rightarrow> nat \<Rightarrow> nat \<Rightarrow> bool \<times> scpi_t" where
  "SCPI_Parse cmds ctx data len =
     (let (result, ctx) = parse_loop cmds (ctx\<lparr>output_count := 0, first_output := True\<rparr>) data len no_token True
      in (result, writeNewLine ctx))"

definition SCPI_Init :: "scpi_interface_t \<Rightarrow> string option list \<Rightarrow> string \<Rightarrow> scpi_error_t list \<Rightarrow> nat \<Rightarrow> scpi_t" where
  "SCPI_Init iface idns input_buffer error_queue_data error_queue_size =
     SCPI_ErrorInit
      \<lparr>buf_data = input_buffer, buf_length = length input_buffer, buf_position = 0, param_cmd = None,
       param_lex = \<lparr>lex_buffer = 0, lex_pos = 0, lex_len = 0\<rparr>, cmd_raw_data = 0, cmd_raw_length = 0,
       interface = iface, output_count = 0, input_count = 0, first_output = False, cmd_error = False,
       error_queue = fifo_init [] 0, registers = (\<lambda>_. 0),
       parser_state = \<lparr>programHeader = \<lparr>tok_type = SCPI_TOKEN_COMMA, tok_ptr = None, tok_len = 0\<rparr>,
                       programData = \<lparr>tok_type = SCPI_TOKEN_COMMA, tok_ptr = None, tok_len = 0\<rparr>,
                       numberOfParameters = 0, msg_termination = SCPI_MESSAGE_TERMINATION_NONE\<rparr>,
       idn = idns, arbitrary_remaining = 0, events = []\<rparr>
      error_queue_data error_queue_size"

partial_function (option) input_loop :: "scpi_command_t list \<Rightarrow> scpi_t \<Rightarrow> nat \<Rightarrow> bool \<Rightarrow> (bool \<times> scpi_t) option" where
  "input_loop cmds ctx totcmdlen result =
     (let (cmdlen, st) = scpiParser_detectProgramMessageUnit (buf_data ctx) (parser_state ctx) totcmdlen (buf_position ctx - totcmdlen);
          ctx = set_state st ctx; totcmdlen = totcmdlen + cmdlen
      in if msg_termination st = SCPI_MESSAGE_TERMINATION_NL
         then let (result, ctx) = SCPI_Parse cmds ctx 0 totcmdlen;
                  ctx = ctx\<lparr>buf_data := put_at 0 (take (buf_position ctx - totcmdlen) (drop totcmdlen (buf_data ctx))) (buf_data ctx),
                            buf_position := buf_position ctx - totcmdlen\<rparr>
              in input_loop cmds ctx 0 result
         else if tok_type (programHeader st) = SCPI_TOKEN_UNKNOWN \<and> msg_termination st = SCPI_MESSAGE_TERMINATION_NONE
         then Some (result, ctx)
         else if totcmdlen \<ge> buf_position ctx then Some (result, ctx)
         else input_loop cmds ctx totcmdlen result)"

definition SCPI_Input :: "scpi_command_t list \<Rightarrow> scpi_t \<Rightarrow> string \<Rightarrow> (bool \<times> scpi_t) option" where
  "SCPI_Input cmds ctx data =
     (if length data = 0
      then let ctx1 = ctx\<lparr>buf_data := (buf_data ctx)[buf_position ctx := NUL]\<rparr>;
               (result, ctx2) = SCPI_Parse cmds ctx1 0 (buf_position ctx1)
           in Some (result, ctx2\<lparr>buf_position := 0\<rparr>)
      else let buffer_free = int (buf_length ctx) - int (buf_position ctx)
           in if int (length data) > buffer_free - 1
              then Some (False, SCPI_ErrorPush (ctx\<lparr>buf_position := 0, buf_data := (buf_data ctx)[0 := NUL]\<rparr>)
                                  SCPI_ERROR_INPUT_BUFFER_OVERRUN)
              else let p = buf_position ctx + length data;
                       m = (put_at (buf_position ctx) data (buf_data ctx))[p := NUL]
                   in input_loop cmds (ctx\<lparr>buf_data := m, buf_position := p\<rparr>) 0 True)"

subsection \<open>What the parser preserves\<close>

lemma ErrorPush_frame [simp]:
  "buf_data (SCPI_ErrorPush c e) = buf_data c" "buf_length (SCPI_ErrorPush c e) = buf_length c"
  "buf_position (SCPI_ErrorPush c e) = buf_position c" "param_lex (SCPI_ErrorPush c e) = param_lex c"
  "parser_state (SCPI_ErrorPush c e) = parser_state c" "interface (SCPI_ErrorPush c e) = interface c"
  by (simp_all add: SCPI_ErrorPush_def ErrorPushEx_alt SCPI_ErrorAddInternal_def SCPI_ErrorEmit_def call_error_def
      emit_def Let_def split_beta)

lemma status_inv_cong:
  "error_queue c = error_queue d \<Longrightarrow> registers c = registers d \<Longrightarrow> status_inv c = status_inv d"
  by (simp add: status_inv_def qma_ok_def srq_ok_def)

text \<open>The buffer has the size it says, its position is a valid index, and the status is consistent.\<close>

definition ctx_inv :: "scpi_t \<Rightarrow> bool" where
  "ctx_inv c \<longleftrightarrow> length (buf_data c) = buf_length c \<and> buf_position c < buf_length c \<and> status_inv c"

definition keeps :: "scpi_t \<Rightarrow> scpi_t \<Rightarrow> bool" where
  "keeps c d \<longleftrightarrow> buf_position d = buf_position c \<and> buf_length d = buf_length c \<and> (ctx_inv c \<longrightarrow> ctx_inv d)"

lemma keeps_refl [simp]: "keeps c c"
  by (simp add: keeps_def)

lemma keeps_trans: "keeps a b \<Longrightarrow> keeps b c \<Longrightarrow> keeps a c"
  by (simp add: keeps_def)

lemma keepsI:
  "buf_position d = buf_position c \<Longrightarrow> buf_length d = buf_length c \<Longrightarrow> length (buf_data d) = length (buf_data c) \<Longrightarrow>
   error_queue d = error_queue c \<Longrightarrow> registers d = registers c \<Longrightarrow> keeps c d"
  using status_inv_cong [of d c] by (simp add: keeps_def ctx_inv_def)

lemma keeps_ErrorPush: "keeps c (SCPI_ErrorPush c e)"
  by (simp add: keeps_def ctx_inv_def status_inv_ErrorPush)

lemma keeps_ErrorPush_of: "keeps c d \<Longrightarrow> keeps c (SCPI_ErrorPush d e)"
  by (blast intro: keeps_trans keeps_ErrorPush)

lemma writeData_frame [simp]:
  "buf_data (writeData c d) = buf_data c" "buf_length (writeData c d) = buf_length c"
  "buf_position (writeData c d) = buf_position c" "error_queue (writeData c d) = error_queue c"
  "registers (writeData c d) = registers c" "parser_state (writeData c d) = parser_state c"
  "param_lex (writeData c d) = param_lex c" "param_cmd (writeData c d) = param_cmd c"
  "interface (writeData c d) = interface c"
  by (simp_all add: writeData_def emit_def)

lemma keeps_writeNewLine: "keeps c (writeNewLine c)"
  by (rule keepsI) (simp_all add: writeNewLine_def flushData_def emit_def)

text \<open>
  The contract of a list of callbacks: the buffer keeps its size and position, the status stays
  consistent, and the parser's own state is left alone.
\<close>

lemma put_at_within: "p + length xs \<le> length buf \<Longrightarrow> length (put_at p xs buf) = length buf"
  by simp

definition prev_ok :: "nat \<Rightarrow> scpi_token_t \<Rightarrow> bool" where
  "prev_ok data prev \<longleftrightarrow> (case tok_ptr prev of None \<Rightarrow> True | Some p \<Rightarrow> p + tok_len prev \<le> data)"

lemma compose_keeps:
  assumes "composeCompoundCommand m prev cur = (ok, cur', m')" "prev_ok data prev" "token_in data hi cur" "hi \<le> length m"
  shows "length m' = length m" "tok_len cur \<noteq> 0 \<Longrightarrow> \<exists>p. tok_ptr cur' = Some p \<and> p + tok_len cur' \<le> hi"
proof -
  obtain cp where cp: "tok_ptr cur = Some cp" "data \<le> cp" "cp + tok_len cur \<le> hi" using assms(3) by (auto simp: token_in_def)
  have le: "last_colon m pp n \<le> n" for pp n by (rule last_colon_le)
  show "length m' = length m"
  proof (cases "tok_ptr prev")
    case None
    then show ?thesis using assms(1) cp by (auto simp: composeCompoundCommand_def split: if_splits)
  next
    case (Some pp)
    define i where "i = last_colon m pp (tok_len prev)"
    have i: "i \<le> tok_len prev" "pp + tok_len prev \<le> data" using le assms(2) Some by (auto simp: i_def prev_ok_def)
    then have "length (put_at (cp - i) (take i (drop pp m)) m) = length m"
      using cp assms(4) by (intro put_at_within) auto
    then show ?thesis using assms(1) cp Some by (auto simp: composeCompoundCommand_def i_def [symmetric] Let_def split: if_splits)
  qed
  show "\<exists>p. tok_ptr cur' = Some p \<and> p + tok_len cur' \<le> hi" if "tok_len cur \<noteq> 0"
  proof (cases "tok_ptr prev")
    case None
    then show ?thesis using assms(1) cp that by (auto simp: composeCompoundCommand_def split: if_splits)
  next
    case (Some pp)
    then show ?thesis using assms(1,2) cp that le [of pp "tok_len prev"]
      by (fastforce simp: composeCompoundCommand_def Let_def prev_ok_def split: if_splits)
  qed
qed

lemma find_from_less: "find_from cs h n i = Some j \<Longrightarrow> j < i + length cs"
  by (induction cs arbitrary: i) (fastforce split: if_splits)+

locale callbacks =
  fixes cmds :: "scpi_command_t list"
  assumes callback: "(pat, Some f) \<in> set cmds \<Longrightarrow> keeps c (snd (f c)) \<and> parser_state (snd (f c)) = parser_state c"
begin

lemma keeps_callback:
  assumes "i < length cmds" "cmds ! i = (pat, Some f)"
  shows "keeps c (snd (f c))" "parser_state (snd (f c)) = parser_state c"
  using assms callback [of pat f c] nth_mem by metis+

lemma keeps_processCommand:
  assumes "\<And>i. param_cmd c = Some i \<Longrightarrow> i < length cmds"
  shows "keeps c (snd (processCommand cmds c)) \<and> parser_state (snd (processCommand cmds c)) = parser_state c"
proof -
  define q where "q = (buf_data c ! (cmd_raw_data c + cmd_raw_length c - 1) = CHR ''?'')"
  define c2 where "c2 = (if \<not> first_output c \<and> q then writeData c '';'' else c)
      \<lparr>cmd_error := False, output_count := 0, input_count := 0, arbitrary_remaining := 0\<rparr>"
  define r3 where "r3 = (case map_option (\<lambda>i. snd (cmds ! i)) (param_cmd c) of
         Some (Some callback) \<Rightarrow>
           (case callback c2 of
              (SCPI_RES_ERR, c) \<Rightarrow> (False, if \<not> cmd_error c then SCPI_ErrorPush c SCPI_ERROR_EXECUTION_ERROR else c)
            | (SCPI_RES_OK, c) \<Rightarrow> if cmd_error c then (False, c)
                else (True, if first_output c \<and> q then c\<lparr>first_output := False\<rparr> else c))
       | _ \<Rightarrow> (True, c2))"
  have k2: "keeps c c2" "parser_state c2 = parser_state c" by (rule keepsI) (simp_all add: c2_def)
  have k3: "keeps c (snd r3) \<and> parser_state (snd r3) = parser_state c"
  proof (cases "map_option (\<lambda>i. snd (cmds ! i)) (param_cmd c)")
    case None
    then have "param_cmd c = None" by simp
    then show ?thesis using k2 by (simp add: r3_def)
  next
    case (Some cb)
    then obtain i where i: "param_cmd c = Some i" "snd (cmds ! i) = cb" by auto
    show ?thesis
    proof (cases cb)
      case None
      then show ?thesis using k2 i by (simp add: r3_def)
    next
      case (Some f)
      have "keeps c2 (snd (f c2))" "parser_state (snd (f c2)) = parser_state c2"
        using keeps_callback [of i "fst (cmds ! i)" f c2] assms [OF i(1)] i(2) Some by (metis prod.collapse)+
      then have kf: "keeps c (snd (f c2))" "parser_state (snd (f c2)) = parser_state c" using k2 keeps_trans by auto
      obtain res d where d: "f c2 = (res, d)" by (cases "f c2")
      have "keeps d (d\<lparr>first_output := False\<rparr>)" by (rule keepsI) simp_all
      then show ?thesis
        using kf d i Some keeps_trans [of c d] keeps_ErrorPush_of [of c d]
        by (cases res) (auto simp: r3_def)
    qed
  qed
  have "snd (processCommand cmds c) = snd r3 \<or>
      snd (processCommand cmds c) = SCPI_ErrorPush (snd r3) SCPI_ERROR_PARAMETER_NOT_ALLOWED"
    unfolding processCommand_def Let_def q_def [symmetric] c2_def [symmetric] r3_def [symmetric]
    by (simp add: split_beta)
  then show ?thesis using k3 keeps_ErrorPush_of ErrorPush_frame(5) by metis
qed

lemma run_unit_keeps:
  assumes "ctx_inv c" "token_in data hi (programHeader (parser_state c))" "hi \<le> buf_length c" "prev_ok data prev"
    and "run_unit cmds c prev = (res, c', prev')"
  shows "ctx_inv c' \<and> buf_position c' = buf_position c \<and> buf_length c' = buf_length c \<and> prev_ok hi prev'"
proof -
  define st where "st = parser_state c"
  have dh: "data \<le> hi" using assms(2) by (auto simp: token_in_def)
  have pv: "prev_ok hi prev" using assms(4) dh by (auto simp: prev_ok_def split: option.splits)
  have err: "ctx_inv (SCPI_ErrorPush d e)" if "ctx_inv d" for d e
    using keeps_ErrorPush [of d e] that by (simp add: keeps_def)
  consider (invalid) "tok_type (programHeader st) = SCPI_TOKEN_INVALID"
    | (empty) "tok_type (programHeader st) \<noteq> SCPI_TOKEN_INVALID" "tok_len (programHeader st) = 0"
    | (cmd) "tok_type (programHeader st) \<noteq> SCPI_TOKEN_INVALID" "tok_len (programHeader st) > 0" by blast
  then show ?thesis
  proof cases
    case invalid
    then show ?thesis using assms(1,5) pv err by (auto simp: run_unit_def st_def)
  next
    case empty
    then show ?thesis using assms(1,5) pv by (auto simp: run_unit_def st_def)
  next
    case cmd
    obtain ok hdr m where k: "composeCompoundCommand (buf_data c) prev (programHeader st) = (ok, hdr, m)" by (metis prod_cases3)
    have len: "hi \<le> length (buf_data c)" using assms(1,3) by (simp add: ctx_inv_def)
    note ck = compose_keeps [OF k assms(4) assms(2) [folded st_def] len]
    define c1 where "c1 = (set_state (st\<lparr>programHeader := hdr\<rparr>) c)\<lparr>buf_data := m\<rparr>"
    have c1: "keeps c c1" "parser_state c1 = st\<lparr>programHeader := hdr\<rparr>"
      using ck(1) by (auto intro: keepsI simp: c1_def set_state_def)
    then have i1: "ctx_inv c1" using assms(1) by (simp add: keeps_def)
    have hdr: "prev_ok hi hdr" using ck(2) cmd by (auto simp: prev_ok_def)
    show ?thesis
    proof (cases "find_from cmds (drop (the (tok_ptr hdr)) m) (tok_len hdr) 0")
      case None
      then have "c' = SCPI_ErrorPush c1 SCPI_ERROR_UNDEFINED_HEADER" "prev' = prev"
        using assms(5) cmd k by (auto simp: run_unit_def st_def [symmetric] Let_def c1_def [symmetric] findCommandHeader_def SCPI_ErrorPush_def)
      then show ?thesis using err [OF i1] c1 pv by (simp add: keeps_def)
    next
      case (Some i)
      define c2 where "c2 = (c1\<lparr>param_cmd := Some i\<rparr>)\<lparr>param_lex := \<lparr>lex_buffer = the (tok_ptr (programData st)),
          lex_pos = the (tok_ptr (programData st)), lex_len = tok_len (programData st)\<rparr>, cmd_raw_data := the (tok_ptr hdr), cmd_raw_length := tok_len hdr\<rparr>"
      have k2: "keeps c1 c2" "parser_state c2 = parser_state c1" "param_cmd c2 = Some i"
        by (auto intro: keepsI simp: c2_def)
      have il: "i < length cmds" using find_from_less [OF Some] by simp
      have p: "keeps c2 (snd (processCommand cmds c2)) \<and> parser_state (snd (processCommand cmds c2)) = parser_state c2"
        by (rule keeps_processCommand) (use k2 il in simp)
      have "c' = snd (processCommand cmds c2)" "prev' = programHeader (parser_state (snd (processCommand cmds c2)))"
        using assms(5) cmd k Some
        by (auto simp: run_unit_def st_def [symmetric] Let_def c1_def [symmetric] findCommandHeader_def c2_def split: prod.splits)
      then show ?thesis using p k2 c1 i1 hdr by (simp add: keeps_def)
    qed
  qed
qed

lemma parse_loop_keeps:
  assumes "ctx_inv c" "data + len \<le> buf_length c" "prev_ok data prev"
    and "parse_loop cmds c data len prev res = (res', c')"
  shows "ctx_inv c' \<and> buf_position c' = buf_position c \<and> buf_length c' = buf_length c"
  using assms
proof (induction len arbitrary: c data prev res rule: less_induct)
  case (less len)
  obtain r st where d: "scpiParser_detectProgramMessageUnit (buf_data c) (parser_state c) data len = (r, st)" by (metis surj_pair)
  obtain rr c1 prev1 where u: "run_unit cmds (set_state st c) prev = (rr, c1, prev1)" by (metis prod_cases3)
  note D = detect_shape [OF d]
  have i: "ctx_inv (set_state st c)" "buf_length (set_state st c) = buf_length c" "buf_position (set_state st c) = buf_position c"
    "parser_state (set_state st c) = st"
    using less.prems(1) status_inv_cong [of "set_state st c" c] by (auto simp: ctx_inv_def set_state_def)
  have U: "ctx_inv c1 \<and> buf_position c1 = buf_position c \<and> buf_length c1 = buf_length c \<and> prev_ok (data + r) prev1"
    using run_unit_keeps [OF i(1) _ _ less.prems(3) u, of "data + r"] D less.prems(2) i by auto
  have step: "parse_loop cmds c data len prev res =
      (if r < len then parse_loop cmds c1 (data + r) (len - r) prev1 (res \<and> rr) else (res \<and> rr, c1))"
    by (subst parse_loop.simps) (simp add: d u Let_def)
  show ?case
  proof (cases "r < len")
    case True
    then have "parse_loop cmds c1 (data + r) (len - r) prev1 (res \<and> rr) = (res', c')" using less.prems(4) step by simp
    then show ?thesis using less.IH [of "len - r" c1 "data + r" prev1 "res \<and> rr"] True D U less.prems(2) by auto
  next
    case False
    then show ?thesis using less.prems(4) step U by simp
  qed
qed

lemma SCPI_Parse_keeps:
  assumes "ctx_inv c" "data + len \<le> buf_length c" "SCPI_Parse cmds c data len = (res, c')"
  shows "ctx_inv c' \<and> buf_position c' = buf_position c \<and> buf_length c' = buf_length c"
proof -
  let ?c = "c\<lparr>output_count := 0, first_output := True\<rparr>"
  obtain r1 c1 where p: "parse_loop cmds ?c data len no_token True = (r1, c1)" by (metis surj_pair)
  have "keeps c ?c" by (rule keepsI) simp_all
  then have i: "ctx_inv ?c" using assms(1) by (simp add: keeps_def)
  have "ctx_inv c1 \<and> buf_position c1 = buf_position ?c \<and> buf_length c1 = buf_length ?c"
    by (rule parse_loop_keeps [OF i _ _ p]) (use assms(2) in \<open>simp_all add: prev_ok_def no_token_def\<close>)
  moreover have "c' = writeNewLine c1" using assms(3) p by (simp add: SCPI_Parse_def)
  ultimately show ?thesis using keeps_writeNewLine [of c1] by (simp add: keeps_def)
qed

lemma input_loop_returns:
  assumes "ctx_inv c" "tot \<le> buf_position c"
  shows "\<exists>res' c'. input_loop cmds c tot res = Some (res', c') \<and> ctx_inv c' \<and> buf_length c' = buf_length c"
  using assms
proof (induction "buf_position c - tot" arbitrary: c tot res rule: less_induct)
  case less
  obtain r st where d: "scpiParser_detectProgramMessageUnit (buf_data c) (parser_state c) tot (buf_position c - tot) = (r, st)"
    by (metis surj_pair)
  note D = detect_shape [OF d]
  have i: "ctx_inv (set_state st c)" "buf_length (set_state st c) = buf_length c" "buf_position (set_state st c) = buf_position c"
    using less.prems(1) status_inv_cong [of "set_state st c" c] by (auto simp: ctx_inv_def set_state_def)
  show ?case
  proof (cases "msg_termination st = SCPI_MESSAGE_TERMINATION_NL")
    case nl: True
    then have r: "0 < r" using D by simp
    obtain p c1 where p: "SCPI_Parse cmds (set_state st c) 0 (tot + r) = (p, c1)" by (metis surj_pair)
    have le: "0 + (tot + r) \<le> buf_length (set_state st c)" using i less.prems D by (auto simp: ctx_inv_def)
    have P: "ctx_inv c1" "buf_position c1 = buf_position c" "buf_length c1 = buf_length c"
      using SCPI_Parse_keeps [OF i(1) le p] i by auto
    define c2 where "c2 = c1\<lparr>buf_data := put_at 0 (take (buf_position c1 - (tot + r)) (drop (tot + r) (buf_data c1))) (buf_data c1),
        buf_position := buf_position c1 - (tot + r)\<rparr>"
    have "length (put_at 0 (take (buf_position c1 - (tot + r)) (drop (tot + r) (buf_data c1))) (buf_data c1)) = length (buf_data c1)"
      by (rule put_at_within) (use P in \<open>auto simp: ctx_inv_def\<close>)
    then have i2: "ctx_inv c2" "buf_length c2 = buf_length c" "buf_position c2 = buf_position c - (tot + r)"
      using P status_inv_cong [of c2 c1] by (auto simp: ctx_inv_def c2_def)
    have "\<exists>res' c'. input_loop cmds c2 0 p = Some (res', c') \<and> ctx_inv c' \<and> buf_length c' = buf_length c2"
      by (rule less.hyps) (use i2 r less.prems D in auto)
    then show ?thesis using i2
      by (subst input_loop.simps) (simp add: d Let_def nl p c2_def [symmetric])
  next
    case False
    show ?thesis
    proof (cases "tok_type (programHeader st) = SCPI_TOKEN_UNKNOWN \<and> msg_termination st = SCPI_MESSAGE_TERMINATION_NONE \<or>
        buf_position c \<le> tot + r")
      case True
      then show ?thesis using False i by (subst input_loop.simps) (auto simp: d Let_def)
    next
      case go: False
      then have "0 < r" "tot + r \<le> buf_position c" using D less.prems by auto
      then have "\<exists>res' c'. input_loop cmds (set_state st c) (tot + r) res = Some (res', c') \<and> ctx_inv c' \<and>
          buf_length c' = buf_length (set_state st c)"
        by (intro less.hyps) (use i less.prems D go in auto)
      then show ?thesis using False go i by (subst input_loop.simps) (auto simp: d Let_def)
    qed
  qed
qed

lemma SCPI_Input_returns:
  assumes "ctx_inv c"
  shows "\<exists>res c'. SCPI_Input cmds c data = Some (res, c') \<and> ctx_inv c' \<and> buf_length c' = buf_length c"
proof (cases "data = []")
  case True
  let ?c = "c\<lparr>buf_data := (buf_data c)[buf_position c := NUL]\<rparr>"
  obtain r c1 where p: "SCPI_Parse cmds ?c 0 (buf_position ?c) = (r, c1)" by (metis surj_pair)
  have "keeps c ?c" by (rule keepsI) simp_all
  then have i: "ctx_inv ?c" using assms by (simp add: keeps_def)
  have "ctx_inv c1 \<and> buf_position c1 = buf_position ?c \<and> buf_length c1 = buf_length ?c"
    by (rule SCPI_Parse_keeps [OF i _ p]) (use assms in \<open>simp add: ctx_inv_def\<close>)
  moreover have "status_inv (c1\<lparr>buf_position := 0\<rparr>) = status_inv c1" by (rule status_inv_cong) simp_all
  ultimately show ?thesis using True p by (auto simp: SCPI_Input_def Let_def ctx_inv_def)
next
  case ne: False
  show ?thesis
  proof (cases "int (length data) > int (buf_length c) - int (buf_position c) - 1")
    case True
    let ?c = "c\<lparr>buf_position := 0, buf_data := (buf_data c)[0 := NUL]\<rparr>"
    have "status_inv ?c = status_inv c" by (rule status_inv_cong) simp_all
    then have "ctx_inv ?c" using assms by (auto simp: ctx_inv_def)
    then have "ctx_inv (SCPI_ErrorPush ?c SCPI_ERROR_INPUT_BUFFER_OVERRUN)" using keeps_ErrorPush by (simp add: keeps_def)
    then show ?thesis using True ne by (auto simp: SCPI_Input_def intro: exI [of _ False])
  next
    case False
    let ?p = "buf_position c + length data"
    let ?c = "c\<lparr>buf_data := (put_at (buf_position c) data (buf_data c))[?p := NUL], buf_position := ?p\<rparr>"
    have "status_inv ?c = status_inv c" by (rule status_inv_cong) simp_all
    then have "ctx_inv ?c" using assms False by (auto simp: ctx_inv_def)
    from input_loop_returns [OF this, of 0 True] show ?thesis using ne False by (auto simp: SCPI_Input_def Let_def)
  qed
qed

end

text \<open>C1: For every list of callbacks that keep the contract, and every input however long, collecting
  and parsing it returns, and leaves the buffer's position inside the buffer, its size unchanged,
  and the status byte consistent with the error queue.\<close>

theorem SCPI_Input_total:
  assumes "\<And>pat f c. (pat, Some f) \<in> set cmds \<Longrightarrow> keeps c (snd (f c)) \<and> parser_state (snd (f c)) = parser_state c"
    and "ctx_inv ctx"
  shows "\<exists>res ctx'. SCPI_Input cmds ctx data = Some (res, ctx') \<and> ctx_inv ctx' \<and> buf_length ctx' = buf_length ctx"
proof -
  have "callbacks cmds" by unfold_locales (rule assms(1))
  then show ?thesis using assms(2) by (rule callbacks.SCPI_Input_returns)
qed

text \<open>Input that does not fit the buffer together with its terminator is rejected as a whole: the
  buffer is emptied, the overrun error is pushed and nothing is parsed.\<close>

theorem SCPI_Input_overrun:
  assumes "buf_length ctx - buf_position ctx \<le> length data" "data \<noteq> []"
  shows "SCPI_Input cmds ctx data =
    Some (False, SCPI_ErrorPush (ctx\<lparr>buf_position := 0, buf_data := (buf_data ctx)[0 := NUL]\<rparr>) SCPI_ERROR_INPUT_BUFFER_OVERRUN)"
  using assms by (auto simp: SCPI_Input_def)

lemma SCPI_Input_overrun_witness:
  "\<exists>c. SCPI_Input [] (demo_ctx []) ''X'' = Some (False, SCPI_ErrorPush c SCPI_ERROR_INPUT_BUFFER_OVERRUN)"
  using SCPI_Input_overrun [of "demo_ctx []" "''X''" "[]"] by (auto simp: demo_ctx_def)

lemma SCPI_Init_inv:
  assumes "input_buffer \<noteq> []" "cells \<noteq> []"
  shows "ctx_inv (SCPI_Init iface idns input_buffer cells (length cells))"
  using assms
  by (simp add: SCPI_Init_def SCPI_ErrorInit_def ctx_inv_def status_inv_def fifo_init_inv qma_ok_def srq_ok_def)

text \<open>A device with one harmless command.\<close>

definition demo_cmds :: "scpi_command_t list" where
  "demo_cmds = [(''*CLS'', Some (\<lambda>c. (SCPI_RES_OK, c)))]"

interpretation demo: callbacks demo_cmds
  by unfold_locales (simp add: demo_cmds_def)

lemma SCPI_Input_total_witness:
  "\<exists>res c. SCPI_Input demo_cmds (SCPI_Init (interface (demo_ctx [])) [] (replicate 8 NUL) [\<lparr>error_code = 0\<rparr>] 1)
     ''*CLS'' = Some (res, c) \<and> ctx_inv c"
proof -
  have i: "ctx_inv (SCPI_Init (interface (demo_ctx [])) [] (replicate 8 NUL) [\<lparr>error_code = 0\<rparr>] 1)"
    using SCPI_Init_inv [of "replicate 8 NUL" "[\<lparr>error_code = 0\<rparr>]"] by simp
  have "keeps c (snd (f c)) \<and> parser_state (snd (f c)) = parser_state c" if "(pat, Some f) \<in> set demo_cmds" for pat f c
    using that by (simp add: demo_cmds_def)
  then show ?thesis using SCPI_Input_total [of demo_cmds, OF _ i, of "''*CLS''"] by blast
qed

end
