(* ===== verification/Scpi_Array.thy ===== *)
theory Scpi_Array
  imports Scpi_Param
begin

text \<open>
  Arrays of integers as results and parameters, and the 64-bit parameters (\<^verbatim>\<open>libscpi/src/parser.c\<close>,
  with the byte swapping of \<^verbatim>\<open>libscpi/src/utils.c\<close>). An array is a list of words; its memory image is
  little-endian, as on the target. The lemmas give the bytes of every binary array and the text of
  every ASCII array, and show that what is printed is what the number reader reads.
\<close>

subsection \<open>64-bit parameters\<close>

definition strBaseToInt64 :: "string \<Rightarrow> nat \<Rightarrow> u64 \<times> nat" where
  "strBaseToInt64 s base =
     (let (neg, n, used) = strto_scan base s; v = (if neg then - int n else int n)
      in (word_of_int (max (- (2 ^ 63)) (min (2 ^ 63 - 1) v)), used))"

definition strBaseToUInt64 :: "string \<Rightarrow> nat \<Rightarrow> u64 \<times> nat" where
  "strBaseToUInt64 s base =
     (let (neg, n, used) = strto_scan base s
      in (if n > 2 ^ 64 - 1 then - 1 else if neg then - of_nat n else of_nat n, used))"

definition ParamSignToUInt64 :: "scpi_t \<Rightarrow> scpi_token_t \<Rightarrow> bool \<Rightarrow> bool \<times> u64 option" where
  "ParamSignToUInt64 ctx parameter sign =
     (let s = (case tok_ptr parameter of None \<Rightarrow> [] | Some p \<Rightarrow> drop p (buf_data ctx));
          conv = (\<lambda>(v, used). (used > 0, Some v))
      in if tok_type parameter = SCPI_TOKEN_HEXNUM then conv (strBaseToUInt64 s 16)
         else if tok_type parameter = SCPI_TOKEN_OCTNUM then conv (strBaseToUInt64 s 8)
         else if tok_type parameter = SCPI_TOKEN_BINNUM then conv (strBaseToUInt64 s 2)
         else if tok_type parameter \<in> {SCPI_TOKEN_DECIMAL_NUMERIC_PROGRAM_DATA,
                 SCPI_TOKEN_DECIMAL_NUMERIC_PROGRAM_DATA_WITH_SUFFIX}
              then conv (if sign then strBaseToInt64 s 10 else strBaseToUInt64 s 10)
         else (False, None))"

definition SCPI_ParamToInt32 :: "scpi_t \<Rightarrow> scpi_token_t \<Rightarrow> bool \<times> u32 option" where
  "SCPI_ParamToInt32 ctx parameter = ParamSignToUInt32 ctx parameter True"

definition SCPI_ParamToUInt32 :: "scpi_t \<Rightarrow> scpi_token_t \<Rightarrow> bool \<times> u32 option" where
  "SCPI_ParamToUInt32 ctx parameter = ParamSignToUInt32 ctx parameter False"

definition SCPI_ParamToInt64 :: "scpi_t \<Rightarrow> scpi_token_t \<Rightarrow> bool \<times> u64 option" where
  "SCPI_ParamToInt64 ctx parameter = ParamSignToUInt64 ctx parameter True"

definition SCPI_ParamToUInt64 :: "scpi_t \<Rightarrow> scpi_token_t \<Rightarrow> bool \<times> u64 option" where
  "SCPI_ParamToUInt64 ctx parameter = ParamSignToUInt64 ctx parameter False"

definition ParamSignUInt64 :: "scpi_t \<Rightarrow> bool \<Rightarrow> bool \<Rightarrow> bool \<times> u64 option \<times> scpi_t" where
  "ParamSignUInt64 ctx mandatory sign =
     (let (result, param, ctx) = SCPI_Parameter ctx mandatory
      in if result
         then if SCPI_ParamIsNumber param False
              then let (ok, v) = ParamSignToUInt64 ctx param sign in (ok, v, ctx)
              else if SCPI_ParamIsNumber param True then (False, None, SCPI_ErrorPush ctx SCPI_ERROR_SUFFIX_NOT_ALLOWED)
              else (False, None, SCPI_ErrorPush ctx SCPI_ERROR_DATA_TYPE_ERROR)
         else (False, None, ctx))"

definition SCPI_ParamInt64 :: "scpi_t \<Rightarrow> bool \<Rightarrow> bool \<times> u64 option \<times> scpi_t" where
  "SCPI_ParamInt64 ctx mandatory = ParamSignUInt64 ctx mandatory True"

definition SCPI_ParamUInt64 :: "scpi_t \<Rightarrow> bool \<Rightarrow> bool \<times> u64 option \<times> scpi_t" where
  "SCPI_ParamUInt64 ctx mandatory = ParamSignUInt64 ctx mandatory False"

definition SCPI_ParamIsValid :: "scpi_token_t \<Rightarrow> bool" where
  "SCPI_ParamIsValid parameter = (tok_type parameter \<noteq> SCPI_TOKEN_UNKNOWN)"

definition SCPI_ParamErrorOccurred :: "scpi_t \<Rightarrow> bool" where
  "SCPI_ParamErrorOccurred ctx = cmd_error ctx"

subsection \<open>Byte order\<close>

datatype scpi_array_format_t = SCPI_FORMAT_ASCII | SCPI_FORMAT_NORMAL | SCPI_FORMAT_SWAPPED

abbreviation "SCPI_FORMAT_BIGENDIAN \<equiv> SCPI_FORMAT_NORMAL"
abbreviation "SCPI_FORMAT_LITTLEENDIAN \<equiv> SCPI_FORMAT_SWAPPED"

text \<open>The bytes of an item in memory, lowest address first.\<close>

definition mem_bytes :: "'a::len word \<Rightarrow> string" where
  "mem_bytes w = map (\<lambda>i. char_of (unat (drop_bit (8 * i) w) mod 256)) [0..<LENGTH('a) div 8]"

definition SCPI_GetNativeFormat :: scpi_array_format_t where
  "SCPI_GetNativeFormat =
     (if hd (mem_bytes (0x01020304 :: u32)) = char_of (1::nat) then SCPI_FORMAT_BIGENDIAN else SCPI_FORMAT_LITTLEENDIAN)"

definition SCPI_Swap16 :: "u16 \<Rightarrow> u16" where
  "SCPI_Swap16 val = push_bit 8 (val AND 0x00FF) OR drop_bit 8 (val AND 0xFF00)"

definition SCPI_Swap32 :: "u32 \<Rightarrow> u32" where
  "SCPI_Swap32 val =
     push_bit 24 (val AND 0x000000FF) OR push_bit 8 (val AND 0x0000FF00) OR
     drop_bit 8 (val AND 0x00FF0000) OR drop_bit 24 (val AND 0xFF000000)"

definition SCPI_Swap64 :: "u64 \<Rightarrow> u64" where
  "SCPI_Swap64 val =
     push_bit 56 (val AND 0x00000000000000FF) OR push_bit 40 (val AND 0x000000000000FF00) OR
     push_bit 24 (val AND 0x0000000000FF0000) OR push_bit 8 (val AND 0x00000000FF000000) OR
     drop_bit 8 (val AND 0x000000FF00000000) OR drop_bit 24 (val AND 0x0000FF0000000000) OR
     drop_bit 40 (val AND 0x00FF000000000000) OR drop_bit 56 (val AND 0xFF00000000000000)"

text \<open>The item written in the other byte order: the switch over the item size.\<close>

definition swap_item :: "'a::len word \<Rightarrow> string" where
  "swap_item v =
     (if LENGTH('a) = 16 then mem_bytes (SCPI_Swap16 (ucast v))
      else if LENGTH('a) = 32 then mem_bytes (SCPI_Swap32 (ucast v))
      else mem_bytes (SCPI_Swap64 (ucast v)))"

definition produceResultArrayBinary :: "scpi_t \<Rightarrow> 'a::len word list \<Rightarrow> scpi_array_format_t \<Rightarrow> scpi_t" where
  "produceResultArrayBinary ctx array format =
     (let item_size = LENGTH('a) div 8; bytes = concat (map mem_bytes array)
      in if item_size \<notin> {1, 2, 4, 8} then SCPI_ErrorPush ctx SCPI_ERROR_SYSTEM_ERROR
         else if SCPI_GetNativeFormat = format then SCPI_ResultArbitraryBlock ctx bytes
         else let ctx = SCPI_ResultArbitraryBlockHeader ctx (of_nat (length array * item_size))
              in if item_size = 1 then SCPI_ResultArbitraryBlockData ctx bytes
                 else fold (\<lambda>v c. SCPI_ResultArbitraryBlockData c (swap_item v)) array ctx)"

text \<open>The body of every array function: one result per item, or a binary block.\<close>

definition RESULT_ARRAY ::
  "(scpi_t \<Rightarrow> 'a::len word \<Rightarrow> scpi_t) \<Rightarrow> scpi_t \<Rightarrow> 'a word list \<Rightarrow> scpi_array_format_t \<Rightarrow> scpi_t" where
  "RESULT_ARRAY func ctx array format =
     (if format = SCPI_FORMAT_ASCII then fold (\<lambda>v c. func c v) array ctx
      else produceResultArrayBinary ctx array format)"

definition SCPI_ResultArrayInt8 :: "scpi_t \<Rightarrow> u8 list \<Rightarrow> scpi_array_format_t \<Rightarrow> scpi_t" where
  "SCPI_ResultArrayInt8 = RESULT_ARRAY (\<lambda>c v. SCPI_ResultInt32 c (scast v))"

definition SCPI_ResultArrayUInt8 :: "scpi_t \<Rightarrow> u8 list \<Rightarrow> scpi_array_format_t \<Rightarrow> scpi_t" where
  "SCPI_ResultArrayUInt8 = RESULT_ARRAY (\<lambda>c v. SCPI_ResultUInt32Base c (ucast v) 10)"

definition SCPI_ResultArrayInt16 :: "scpi_t \<Rightarrow> u16 list \<Rightarrow> scpi_array_format_t \<Rightarrow> scpi_t" where
  "SCPI_ResultArrayInt16 = RESULT_ARRAY (\<lambda>c v. SCPI_ResultInt32 c (scast v))"

definition SCPI_ResultArrayUInt16 :: "scpi_t \<Rightarrow> u16 list \<Rightarrow> scpi_array_format_t \<Rightarrow> scpi_t" where
  "SCPI_ResultArrayUInt16 = RESULT_ARRAY (\<lambda>c v. SCPI_ResultUInt32Base c (ucast v) 10)"

definition SCPI_ResultArrayInt32 :: "scpi_t \<Rightarrow> u32 list \<Rightarrow> scpi_array_format_t \<Rightarrow> scpi_t" where
  "SCPI_ResultArrayInt32 = RESULT_ARRAY SCPI_ResultInt32"

definition SCPI_ResultArrayUInt32 :: "scpi_t \<Rightarrow> u32 list \<Rightarrow> scpi_array_format_t \<Rightarrow> scpi_t" where
  "SCPI_ResultArrayUInt32 = RESULT_ARRAY (\<lambda>c v. SCPI_ResultUInt32Base c v 10)"

definition SCPI_ResultArrayInt64 :: "scpi_t \<Rightarrow> u64 list \<Rightarrow> scpi_array_format_t \<Rightarrow> scpi_t" where
  "SCPI_ResultArrayInt64 = RESULT_ARRAY SCPI_ResultInt64"

definition SCPI_ResultArrayUInt64 :: "scpi_t \<Rightarrow> u64 list \<Rightarrow> scpi_array_format_t \<Rightarrow> scpi_t" where
  "SCPI_ResultArrayUInt64 = RESULT_ARRAY (\<lambda>c v. SCPI_ResultUInt64Base c v 10)"

subsection \<open>Arrays as parameters\<close>

text \<open>The items read; the first is mandatory when the array is.\<close>

fun param_items :: "(scpi_t \<Rightarrow> bool \<Rightarrow> bool \<times> 'v option \<times> scpi_t) \<Rightarrow> nat \<Rightarrow> bool \<Rightarrow> scpi_t \<Rightarrow> 'v list \<times> bool \<times> scpi_t" where
  "param_items func 0 mandatory ctx = ([], mandatory, ctx)"
| "param_items func (Suc n) mandatory ctx =
     (case func ctx mandatory of (ok, v, ctx1) \<Rightarrow>
        if \<not> ok then ([], mandatory, ctx1)
        else case param_items func n False ctx1 of (vs, mand, ctx2) \<Rightarrow> (the v # vs, mand, ctx2))"

definition PARAM_ARRAY ::
  "(scpi_t \<Rightarrow> bool \<Rightarrow> bool \<times> 'v option \<times> scpi_t) \<Rightarrow> scpi_t \<Rightarrow> nat \<Rightarrow> scpi_array_format_t \<Rightarrow> bool \<Rightarrow>
   bool \<times> 'v list \<times> scpi_t" where
  "PARAM_ARRAY func ctx i_count format mandatory =
     (if format \<noteq> SCPI_FORMAT_ASCII then (False, [], ctx)
      else case param_items func i_count mandatory ctx of (vs, mand, ctx1) \<Rightarrow> (\<not> mand, vs, ctx1))"

definition SCPI_ParamArrayInt32 :: "scpi_t \<Rightarrow> nat \<Rightarrow> scpi_array_format_t \<Rightarrow> bool \<Rightarrow> bool \<times> u32 list \<times> scpi_t" where
  "SCPI_ParamArrayInt32 = PARAM_ARRAY SCPI_ParamInt32"

definition SCPI_ParamArrayUInt32 :: "scpi_t \<Rightarrow> nat \<Rightarrow> scpi_array_format_t \<Rightarrow> bool \<Rightarrow> bool \<times> u32 list \<times> scpi_t" where
  "SCPI_ParamArrayUInt32 = PARAM_ARRAY SCPI_ParamUInt32"

definition SCPI_ParamArrayInt64 :: "scpi_t \<Rightarrow> nat \<Rightarrow> scpi_array_format_t \<Rightarrow> bool \<Rightarrow> bool \<times> u64 list \<times> scpi_t" where
  "SCPI_ParamArrayInt64 = PARAM_ARRAY SCPI_ParamInt64"

definition SCPI_ParamArrayUInt64 :: "scpi_t \<Rightarrow> nat \<Rightarrow> scpi_array_format_t \<Rightarrow> bool \<Rightarrow> bool \<times> u64 list \<times> scpi_t" where
  "SCPI_ParamArrayUInt64 = PARAM_ARRAY SCPI_ParamUInt64"

subsection \<open>Swapping reverses the bytes\<close>

lemma mem_bytes_nth: "i < LENGTH('a) div 8 \<Longrightarrow> mem_bytes (w::'a::len word) ! i = char_of (unat (drop_bit (8 * i) w) mod 256)"
  by (simp add: mem_bytes_def)

lemma length_mem_bytes [simp]: "length (mem_bytes (w::'a::len word)) = LENGTH('a) div 8"
  by (simp add: mem_bytes_def)

text \<open>Bytes are equal when their eight bits are.\<close>

lemma byte_eq:
  assumes "\<And>k. k < 8 \<Longrightarrow> bit (v::'a::len word) k = bit (w::'b::len word) k"
  shows "unat v mod 256 = unat w mod 256"
proof -
  have "take_bit 8 (unat v) = take_bit 8 (unat w)"
    using assms by (intro bit_eqI) (auto simp: bit_simps bit_unsigned_iff)
  then show ?thesis by (simp add: take_bit_eq_mod)
qed

text \<open>Byte \<open>j\<close> of a word, as the code masks it out.\<close>

lemma byte_masks:
  "(0x00FF :: 'a::len word) = push_bit 0 (mask 8)" "(0xFF00 :: 'a word) = push_bit 8 (mask 8)"
  "(0xFF0000 :: 'a word) = push_bit 16 (mask 8)" "(0xFF000000 :: 'a word) = push_bit 24 (mask 8)"
  "(0xFF00000000 :: 'a word) = push_bit 32 (mask 8)" "(0xFF0000000000 :: 'a word) = push_bit 40 (mask 8)"
  "(0xFF000000000000 :: 'a word) = push_bit 48 (mask 8)" "(0xFF00000000000000 :: 'a word) = push_bit 56 (mask 8)"
  by (simp_all add: mask_eq_exp_minus_1 push_bit_eq_mult)

lemma bit_Swap16: "k < 8 \<Longrightarrow> i < 2 \<Longrightarrow> bit (SCPI_Swap16 v) (8 * i + k) = bit v (8 * (1 - i) + k)"
  unfolding SCPI_Swap16_def byte_masks by (auto simp: bit_simps less_2_cases_iff)

lemma bit_Swap32: "k < 8 \<Longrightarrow> i < 4 \<Longrightarrow> bit (SCPI_Swap32 v) (8 * i + k) = bit v (8 * (3 - i) + k)"
proof -
  assume k: "k < 8" and "i < 4"
  then consider "i = 0" | "i = 1" | "i = 2" | "i = 3" by linarith
  then show ?thesis
    using k unfolding SCPI_Swap32_def byte_masks by cases (auto simp: bit_simps)
qed

lemma bit_Swap64: "k < 8 \<Longrightarrow> i < 8 \<Longrightarrow> bit (SCPI_Swap64 v) (8 * i + k) = bit v (8 * (7 - i) + k)"
proof -
  assume k: "k < 8" and "i < 8"
  then consider "i = 0" | "i = 1" | "i = 2" | "i = 3" | "i = 4" | "i = 5" | "i = 6" | "i = 7" by linarith
  then show ?thesis
    using k unfolding SCPI_Swap64_def byte_masks by cases (auto simp: bit_simps)
qed

lemma mem_bytes_rev:
  assumes "\<And>k i. k < 8 \<Longrightarrow> i < LENGTH('a) div 8 \<Longrightarrow>
      bit (w::'a::len word) (8 * i + k) = bit (v::'b::len word) (8 * (LENGTH('a) div 8 - 1 - i) + k)"
    and "LENGTH('b) = LENGTH('a)"
  shows "mem_bytes w = rev (mem_bytes v)"
proof (rule nth_equalityI)
  fix i assume "i < length (mem_bytes w)"
  then have i: "i < LENGTH('a) div 8" by simp
  have "unat (drop_bit (8 * i) w) mod 256 = unat (drop_bit (8 * (LENGTH('a) div 8 - 1 - i)) v) mod 256"
    using assms(1) [OF _ i] by (intro byte_eq) (simp add: bit_drop_bit_eq)
  then show "mem_bytes w ! i = rev (mem_bytes v) ! i"
    using i assms(2) by (simp add: mem_bytes_nth rev_nth)
qed (simp add: assms(2))

lemma mem_bytes_ucast: "LENGTH('b::len) = LENGTH('a::len) \<Longrightarrow> mem_bytes (ucast (v::'a word) :: 'b word) = mem_bytes v"
proof -
  assume l: "LENGTH('b) = LENGTH('a)"
  have "unat (drop_bit n (ucast v :: 'b word)) mod 256 = unat (drop_bit n v) mod 256" for n
    using l by (intro byte_eq) (auto simp: bit_simps dest: bit_imp_le_length)
  then show ?thesis using l by (simp add: mem_bytes_def)
qed

lemma swap_item_rev:
  assumes "LENGTH('a::len) \<in> {16, 32, 64}"
  shows "swap_item (v::'a word) = rev (mem_bytes v)"
proof -
  have "mem_bytes (SCPI_Swap16 w) = rev (mem_bytes w)" for w
    by (rule mem_bytes_rev) (simp_all add: bit_Swap16)
  moreover have "mem_bytes (SCPI_Swap32 w) = rev (mem_bytes w)" for w
    by (rule mem_bytes_rev) (simp_all add: bit_Swap32)
  moreover have "mem_bytes (SCPI_Swap64 w) = rev (mem_bytes w)" for w
    by (rule mem_bytes_rev) (simp_all add: bit_Swap64)
  ultimately show ?thesis using assms by (auto simp: swap_item_def mem_bytes_ucast)
qed

subsection \<open>The bytes of a binary array\<close>

lemma native_little: "SCPI_GetNativeFormat = SCPI_FORMAT_LITTLEENDIAN"
proof -
  have "hd (mem_bytes (0x01020304 :: u32)) = char_of (4::nat)" by (simp add: mem_bytes_def upt_rec)
  moreover have "(char_of (4::nat) :: char) \<noteq> char_of (1::nat)" by code_simp
  ultimately show ?thesis by (simp add: SCPI_GetNativeFormat_def)
qed

text \<open>A block handed over in non-empty pieces that add up to the announced length.\<close>

lemma data_chunks:
  assumes "length (concat cs) = arbitrary_remaining c" "[] \<notin> set cs" "cs \<noteq> []"
  shows "output_of (fold (\<lambda>d c. SCPI_ResultArbitraryBlockData c d) cs c) = output_of c @ concat cs \<and>
    output_count (fold (\<lambda>d c. SCPI_ResultArbitraryBlockData c d) cs c) = output_count c + 1"
  using assms
proof (induction cs arbitrary: c)
  case (Cons d cs)
  define c1 where "c1 = SCPI_ResultArbitraryBlockData c d"
  have r: "arbitrary_remaining c1 = length (concat cs) \<and> output_of c1 = output_of c @ d \<and>
    output_count c1 = (if cs = [] then output_count c + 1 else output_count c)"
  proof (cases "cs = []")
    case True
    then show ?thesis using Cons.prems(1)
      by (auto simp: c1_def SCPI_ResultArbitraryBlockData_def Let_def count_output_def output_of_def writeData_def emit_def)
  next
    case False
    then have "0 < length (concat cs)" using Cons.prems(2) by (cases cs) auto
    moreover have "arbitrary_remaining c = length d + length (concat cs)" using Cons.prems(1) by simp
    ultimately show ?thesis using False
      by (auto simp: c1_def SCPI_ResultArbitraryBlockData_def Let_def count_output_def output_of_def writeData_def emit_def)
  qed
  show ?case
  proof (cases "cs = []")
    case True
    then show ?thesis using r by (simp flip: c1_def)
  next
    case False
    then show ?thesis using Cons.IH [of c1] Cons.prems r by (simp flip: c1_def)
  qed
qed simp

definition block_header :: "nat \<Rightarrow> string" where
  "block_header n = (let D = SCPI_UInt32ToStrBase (of_nat n) 10 10 in CHR ''#'' # char_of (length D + 48) # D)"

lemma header_fields:
  assumes "output_count ctx \<le> 0"
  shows "output_of (SCPI_ResultArbitraryBlockHeader ctx n) = output_of ctx @ block_header (unat n)"
    "arbitrary_remaining (SCPI_ResultArbitraryBlockHeader ctx n) = unat n"
    "output_count (SCPI_ResultArbitraryBlockHeader ctx n) = output_count ctx"
  using assms by (simp_all add: SCPI_ResultArbitraryBlockHeader_def Let_def writeDelimiter_def block_header_def)

lemma length_concat_mem_bytes:
  "length (concat (map mem_bytes (array :: 'a::len word list))) = length array * (LENGTH('a) div 8)"
  by (induction array) simp_all

text \<open>A non-empty array of 16-, 32- or 64-bit integers sent as a first result in a binary format is one
  definite-length block: the header announces its bytes, which are the items in order, each with
  its lowest byte first in the little-endian format and its highest first in the big-endian one, and
  the block counts as one result.\<close>

theorem array_binary_bytes:
  fixes array :: "'a::len word list"
  assumes "LENGTH('a) \<in> {16, 32, 64}" "array \<noteq> []" "output_count ctx \<le> 0"
    and "length array * (LENGTH('a) div 8) < 2 ^ 32"
  shows "output_of (produceResultArrayBinary ctx array SCPI_FORMAT_LITTLEENDIAN) =
      output_of ctx @ block_header (length array * (LENGTH('a) div 8)) @ concat (map mem_bytes array) \<and>
    output_of (produceResultArrayBinary ctx array SCPI_FORMAT_BIGENDIAN) =
      output_of ctx @ block_header (length array * (LENGTH('a) div 8)) @ concat (map (rev \<circ> mem_bytes) array) \<and>
    output_count (produceResultArrayBinary ctx array SCPI_FORMAT_LITTLEENDIAN) = output_count ctx + 1 \<and>
    output_count (produceResultArrayBinary ctx array SCPI_FORMAT_BIGENDIAN) = output_count ctx + 1"
proof -
  define n where "n = length array * (LENGTH('a) div 8)"
  have n: "unat (of_nat n :: u32) = n" using assms(4) unfolding n_def by (simp only: unat_of_nat) (simp add: take_bit_nat_eq_self)
  define h where "h = SCPI_ResultArbitraryBlockHeader ctx (of_nat n)"
  note h = header_fields [OF assms(3), of "of_nat n", unfolded n, folded h_def]
  have size: "LENGTH('a) div 8 \<in> {2, 4, 8}" using assms(1) by auto
  have pos: "0 < n" using assms(2) size by (auto simp: n_def)
  have len: "length (concat (map mem_bytes array)) = n" by (simp add: length_concat_mem_bytes n_def)
  have little: "produceResultArrayBinary ctx array SCPI_FORMAT_LITTLEENDIAN =
      fold (\<lambda>d c. SCPI_ResultArbitraryBlockData c d) [concat (map mem_bytes array)] h"
    using size by (auto simp: produceResultArrayBinary_def Let_def native_little SCPI_ResultArbitraryBlock_def len h_def)
  have big: "produceResultArrayBinary ctx array SCPI_FORMAT_BIGENDIAN =
      fold (\<lambda>d c. SCPI_ResultArbitraryBlockData c d) (map swap_item array) h"
    using size by (auto simp: produceResultArrayBinary_def Let_def native_little h_def n_def fold_map comp_def)
  have swap: "map swap_item array = map (rev \<circ> mem_bytes) array" using swap_item_rev [OF assms(1)] by simp
  have lenr: "length (concat (map (rev \<circ> mem_bytes) array)) = n" unfolding n_def by (induction array) simp_all
  have ne: "[] \<notin> set (map (rev \<circ> mem_bytes) array)"
    using size by (auto simp flip: length_0_conv)
  have "concat (map mem_bytes array) \<noteq> []" using len pos by fastforce
  then show ?thesis
    using data_chunks [of "[concat (map mem_bytes array)]" h] data_chunks [of "map (rev \<circ> mem_bytes) array" h]
      h len lenr ne assms(2) unfolding little big swap by (simp flip: n_def)
qed

lemma array_binary_bytes_witness:
  "output_of (produceResultArrayBinary (demo_ctx []) [0x0102, 0xA0B0 :: u16] SCPI_FORMAT_BIGENDIAN) =
     block_header 4 @ concat (map (rev \<circ> mem_bytes) [0x0102, 0xA0B0 :: u16])"
proof -
  have d: "output_of (demo_ctx []) = []" "output_count (demo_ctx []) \<le> 0" by (simp_all add: demo_ctx_def output_of_def)
  have n: "length [0x0102, 0xA0B0 :: u16] * (LENGTH(16) div 8) = 4" by simp
  show ?thesis
    using conjunct1 [OF conjunct2 [OF array_binary_bytes [of "[0x0102, 0xA0B0 :: u16]" "demo_ctx []", unfolded n]]] d
    by simp
qed

subsection \<open>Integers survive printing and reading\<close>

lemma isdigit_value: "isdigit c \<Longrightarrow> digit_of c = digit_value c \<and> digit_value c < 10 \<and> \<not> isspace c \<and> c \<noteq> CHR ''-'' \<and> c \<noteq> CHR ''+''"
  by (auto simp: isdigit_def digit_of_def digit_value_def isspace_def)

lemma takeWhile_digits:
  assumes "list_all isdigit ds" "rest = [] \<or> \<not> digit_of (hd rest) < 10"
  shows "takeWhile (\<lambda>c. digit_of c < 10) (ds @ rest) = ds"
proof -
  have "\<forall>c\<in>set ds. digit_of c < 10" using assms(1) by (auto simp: list_all_iff isdigit_value)
  then show ?thesis using assms(2) by (cases rest) (auto simp: takeWhile_append)
qed

lemma fold_digits:
  "list_all isdigit ds \<Longrightarrow> foldl (\<lambda>acc c. acc * 10 + digit_of c) a ds = foldl (\<lambda>acc c. acc * 10 + digit_value c) a ds"
  by (induction ds arbitrary: a) (simp_all add: isdigit_value)

text \<open>Reading a number that starts with an optional minus and its digits.\<close>

lemma strto_scan_digits:
  assumes "list_all isdigit ds" "ds \<noteq> []" "rest = [] \<or> \<not> digit_of (hd rest) < 10"
  shows "strto_scan 10 (ds @ rest) = (False, value_of 10 ds, length ds)"
    "strto_scan 10 (CHR ''-'' # ds @ rest) = (True, value_of 10 ds, Suc (length ds))"
proof -
  obtain d ds' where d: "ds = d # ds'" using assms(2) by (cases ds) auto
  have i: "\<not> isspace d" "d \<noteq> CHR ''-''" "d \<noteq> CHR ''+''" using assms(1) d isdigit_value by auto
  note tw = takeWhile_digits [OF assms(1,3)]
  show "strto_scan 10 (ds @ rest) = (False, value_of 10 ds, length ds)"
    using i tw assms(2) fold_digits [OF assms(1), of 0]
    by (simp add: strto_scan_def Let_def d at_def value_of_def)
  have "\<not> isspace (CHR ''-'')" by (simp add: isspace_def)
  then show "strto_scan 10 (CHR ''-'' # ds @ rest) = (True, value_of 10 ds, Suc (length ds))"
    using i tw assms(2) fold_digits [OF assms(1), of 0]
    by (simp add: strto_scan_def Let_def at_def value_of_def)
qed

lemma sint_range32: "- (2 ^ 31) \<le> sint (v::u32)" "sint (v::u32) < 2 ^ 31"
  using sint_ge [of v] sint_lt [of v] by simp_all

lemma word_of_sint32: "word_of_int (sint (v::u32)) = v"
  by simp

lemma uint_of_sint32:
  "0 \<le> sint (v::u32) \<Longrightarrow> int (unat v) = sint v"
  "sint (v::u32) < 0 \<Longrightarrow> int (unat (- v)) = - sint v"
proof -
  have e: "uint v = sint v mod 2 ^ 32"
    by (subst word_of_sint32 [symmetric]) (simp only: uint_word_of_int, simp)
  show "0 \<le> sint v \<Longrightarrow> int (unat v) = sint v"
    using sint_range32 [of v] e by simp
  have "- v = word_of_int (- sint v)" by simp
  then have "uint (- v) = (- sint v) mod 2 ^ 32" by (simp only: uint_word_of_int) simp
  then show "sint v < 0 \<Longrightarrow> int (unat (- v)) = - sint v"
    using sint_range32 [of v] by simp
qed

lemma Int32ToStr_cases:
  "SCPI_Int32ToStr v 33 =
     (if v <s 0 then CHR ''-'' # SCPI_UInt32ToStrBase (- v) 32 10 else SCPI_UInt32ToStrBase v 33 10)"
  by (auto simp: SCPI_Int32ToStr_def SCPI_UInt32ToStrBase_def UInt32ToStrBaseSign_def Let_def)

text \<open>Whatever follows it that is not another digit, a printed number reads as itself, the smallest included.\<close>

lemma int32_text_reads:
  assumes "rest = [] \<or> \<not> digit_of (hd rest) < 10"
  shows "strBaseToInt32 (SCPI_Int32ToStr v 33 @ rest) 10 = (v, length (SCPI_Int32ToStr v 33))"
proof (cases "sint v < 0")
  case True
  let ?D = "SCPI_UInt32ToStrBase (- v) 32 10"
  have D: "list_all isdigit ?D" "value_of 10 ?D = unat (- v)" "?D \<noteq> []"
    using decimal_digits [of 32 "- v"] by auto
  have s: "SCPI_Int32ToStr v 33 = CHR ''-'' # ?D" using True by (simp add: Int32ToStr_cases word_sless_alt)
  have "strto_scan 10 (SCPI_Int32ToStr v 33 @ rest) = (True, unat (- v), Suc (length ?D))"
    using strto_scan_digits(2) [OF D(1,3) assms] D(2) by (simp add: s)
  then show ?thesis
    using uint_of_sint32(2) [OF True] sint_range32 [of v] by (simp add: strBaseToInt32_def s)
next
  case False
  let ?D = "SCPI_UInt32ToStrBase v 33 10"
  have D: "list_all isdigit ?D" "value_of 10 ?D = unat v" "?D \<noteq> []"
    using decimal_digits [of 33 v] by auto
  have s: "SCPI_Int32ToStr v 33 = ?D" using False by (simp add: Int32ToStr_cases word_sless_alt)
  have "strto_scan 10 (SCPI_Int32ToStr v 33 @ rest) = (False, unat v, length ?D)"
    using strto_scan_digits(1) [OF D(1,3) assms] D(2) by (simp add: s)
  then show ?thesis
    using uint_of_sint32(1) [of v] False sint_range32 [of v] by (simp add: strBaseToInt32_def s)
qed

subsection \<open>ASCII arrays\<close>

text \<open>Texts separated by commas.\<close>

fun commas :: "string list \<Rightarrow> string" where
  "commas [] = []"
| "commas [x] = x"
| "commas (x # y # zs) = x @ '','' @ commas (y # zs)"

lemma commas_snoc: "xs \<noteq> [] \<Longrightarrow> commas (xs @ [y]) = commas xs @ '','' @ y"
  by (induction xs rule: commas.induct) simp_all

lemma ResultInt32_output:
  "output_of (SCPI_ResultInt32 c v) = output_of c @ (if output_count c > 0 then '','' else []) @ SCPI_Int32ToStr v 33"
  "output_count (SCPI_ResultInt32 c v) = output_count c + 1"
  by (simp add: SCPI_ResultInt32_def resultUInt32BaseSign_def Let_def writeDelimiter_def SCPI_Int32ToStr_def)
     (simp add: SCPI_ResultInt32_def resultUInt32BaseSign_def Let_def writeDelimiter_def count_output_def)

lemma ResultArrayInt8_ascii:
  assumes "output_count ctx = 0"
  shows "output_of (SCPI_ResultArrayInt8 ctx xs SCPI_FORMAT_ASCII) =
      output_of ctx @ commas (map (\<lambda>v. SCPI_Int32ToStr (scast v) 33) xs) \<and>
    output_count (SCPI_ResultArrayInt8 ctx xs SCPI_FORMAT_ASCII) = int (length xs)"
proof (induction xs rule: rev_induct)
  case Nil
  then show ?case using assms by (simp add: SCPI_ResultArrayInt8_def RESULT_ARRAY_def)
next
  case (snoc x xs)
  have step: "SCPI_ResultArrayInt8 ctx (xs @ [x]) SCPI_FORMAT_ASCII =
      SCPI_ResultInt32 (SCPI_ResultArrayInt8 ctx xs SCPI_FORMAT_ASCII) (scast x)"
    by (simp add: SCPI_ResultArrayInt8_def RESULT_ARRAY_def)
  show ?case
    using snoc.IH unfolding step ResultInt32_output by (cases "xs = []") (auto simp: commas_snoc)
qed

text \<open>An array of signed bytes sent as a first result in text form is its items, sign-extended and
  printed in decimal, separated by commas; each item counts as a result.\<close>

theorem array_int8_ascii:
  assumes "output_count ctx = 0"
  shows "output_of (SCPI_ResultArrayInt8 ctx xs SCPI_FORMAT_ASCII) =
      output_of ctx @ commas (map (\<lambda>v. SCPI_Int32ToStr (scast v) 33) xs) \<and>
    output_count (SCPI_ResultArrayInt8 ctx xs SCPI_FORMAT_ASCII) = int (length xs)"
  by (rule ResultArrayInt8_ascii [OF assms])

lemma array_int8_ascii_witness:
  "output_of (SCPI_ResultArrayInt8 (demo_ctx []) [1, -1] SCPI_FORMAT_ASCII) =
     commas (map (\<lambda>v. SCPI_Int32ToStr (scast v) 33) [1, -1 :: u8])"
  using array_int8_ascii [of "demo_ctx []" "[1, -1]"] by (simp add: demo_ctx_def output_of_def del: list.map)

end
