(* ===== verification/Scpi_Expr.thy ===== *)
theory Scpi_Expr
  imports Scpi_Array
begin

text \<open>
  Expression parameters, \<^verbatim>\<open>libscpi/src/expression.c\<close>: numeric lists such as \<^verbatim>\<open>(1,3:5)\<close> and channel lists such as
  \<^verbatim>\<open>(@1!2:3!4)\<close>, read entry by entry. The entry as doubles is left out. A pointer argument is an option; the memory is the parser's input buffer.
  The lemmas follow the scanners over a printed list.
\<close>

datatype scpi_expr_result_t = SCPI_EXPR_OK | SCPI_EXPR_ERROR | SCPI_EXPR_NO_MORE

abbreviation "SCPI_ERROR_EXPRESSION_PARSING_ERROR \<equiv> - 170 :: int"

subsection \<open>Numeric lists\<close>

text \<open>The position, whether the entry is a range, and the two tokens.\<close>

definition numericRange ::
  "string \<Rightarrow> lex_state_t \<Rightarrow> bool \<Rightarrow> scpi_token_t \<Rightarrow> scpi_token_t \<Rightarrow> scpi_expr_result_t \<times> lex_state_t \<times> bool \<times> scpi_token_t \<times> scpi_token_t" where
  "numericRange m state isRange valueFrom valueTo =
     (let (r, state, valueFrom) = scpiLex_DecimalNumericProgramData m state valueFrom
      in if r \<noteq> 0
         then let (c, state, valueTo) = scpiLex_Colon m state valueTo
              in if c \<noteq> 0
                 then let (r, state, valueTo) = scpiLex_DecimalNumericProgramData m state valueTo
                      in (if r \<noteq> 0 then SCPI_EXPR_OK else SCPI_EXPR_ERROR, state, True, valueFrom, valueTo)
                 else (SCPI_EXPR_OK, state, False, valueFrom, valueTo)
         else (SCPI_EXPR_NO_MORE, state, isRange, valueFrom, valueTo))"

text \<open>The loop, with \<open>n\<close> entries to pass over before the one asked for.\<close>

fun numeric_entries ::
  "string \<Rightarrow> nat \<Rightarrow> lex_state_t \<Rightarrow> bool \<Rightarrow> scpi_token_t \<Rightarrow> scpi_token_t \<Rightarrow> scpi_expr_result_t \<times> bool \<times> scpi_token_t \<times> scpi_token_t" where
  "numeric_entries m n st isRange valueFrom valueTo =
     (case numericRange m st isRange valueFrom valueTo of (res, st, isRange, valueFrom, valueTo) \<Rightarrow>
        if res \<noteq> SCPI_EXPR_OK then (res, isRange, valueFrom, valueTo)
        else case n of
               0 \<Rightarrow> (SCPI_EXPR_OK, isRange, valueFrom, valueTo)
             | Suc k \<Rightarrow>
                 (case scpiLex_Comma m st valueFrom of (c, st, valueFrom) \<Rightarrow>
                    if c = 0
                    then (if scpiLex_IsEos st then SCPI_EXPR_NO_MORE else SCPI_EXPR_ERROR, isRange, valueFrom, valueTo)
                    else numeric_entries m k st isRange valueFrom valueTo))"

declare numeric_entries.simps [simp del]

text \<open>The text between the parentheses.\<close>

definition inside :: "scpi_token_t \<Rightarrow> lex_state_t" where
  "inside param = (let p = the (tok_ptr param) + 1 in \<lparr>lex_buffer = p, lex_pos = p, lex_len = tok_len param - 2\<rparr>)"

definition SCPI_ExprNumericListEntry ::
  "scpi_t \<Rightarrow> scpi_token_t option \<Rightarrow> int \<Rightarrow> bool option \<Rightarrow> scpi_token_t option \<Rightarrow> scpi_token_t option
   \<Rightarrow> scpi_expr_result_t \<times> bool option \<times> scpi_token_t option \<times> scpi_token_t option \<times> scpi_t" where
  "SCPI_ExprNumericListEntry ctx param index isRange valueFrom valueTo =
     (case (isRange, valueFrom, valueTo, param) of
        (Some b, Some f, Some t, Some p) \<Rightarrow>
          if tok_type p \<noteq> SCPI_TOKEN_PROGRAM_EXPRESSION
          then (SCPI_EXPR_ERROR, isRange, valueFrom, valueTo, SCPI_ErrorPush ctx SCPI_ERROR_DATA_TYPE_ERROR)
          else let (res, b, f, t) =
                     (if index < 0 then (SCPI_EXPR_OK, b, f, t) else numeric_entries (buf_data ctx) (nat index) (inside p) b f t)
               in (res, Some b, Some f, Some t,
                   if res = SCPI_EXPR_ERROR then SCPI_ErrorPush ctx SCPI_ERROR_EXPRESSION_PARSING_ERROR else ctx)
      | _ \<Rightarrow> (SCPI_EXPR_ERROR, isRange, valueFrom, valueTo, SCPI_ErrorPush ctx SCPI_ERROR_SYSTEM_ERROR))"

text \<open>A local parameter before it is set, and an integer kept when the conversion has no value.\<close>

definition unset_param :: scpi_token_t where
  "unset_param = \<lparr>tok_type = SCPI_TOKEN_UNKNOWN, tok_ptr = None, tok_len = 0\<rparr>"

definition to_int32 :: "scpi_t \<Rightarrow> scpi_token_t \<Rightarrow> u32 \<Rightarrow> u32" where
  "to_int32 ctx param old = (case snd (SCPI_ParamToInt32 ctx param) of Some v \<Rightarrow> v | None \<Rightarrow> old)"

definition SCPI_ExprNumericListEntryInt ::
  "scpi_t \<Rightarrow> scpi_token_t option \<Rightarrow> int \<Rightarrow> bool \<Rightarrow> u32 \<Rightarrow> u32 \<Rightarrow> scpi_expr_result_t \<times> bool \<times> u32 \<times> u32 \<times> scpi_t" where
  "SCPI_ExprNumericListEntryInt ctx param index isRange valueFrom valueTo =
     (let (res, range, paramFrom, paramTo, ctx) =
            SCPI_ExprNumericListEntry ctx param index (Some False) (Some unset_param) (Some unset_param)
      in if res = SCPI_EXPR_OK
         then (res, the range, to_int32 ctx (the paramFrom) valueFrom,
               if the range then to_int32 ctx (the paramTo) valueTo else valueTo, ctx)
         else (res, isRange, valueFrom, valueTo, ctx))"

subsection \<open>Channel lists\<close>

text \<open>The numbers of one specification from number \<open>i\<close> on; those that fit are stored. \<^verbatim>\<open>dimensions\<close> is \<open>None\<close> where the code leaves it.\<close>

function channel_spec_loop ::
  "scpi_t \<Rightarrow> lex_state_t \<Rightarrow> scpi_token_t \<Rightarrow> u32 list \<Rightarrow> nat \<Rightarrow> nat \<Rightarrow> scpi_expr_result_t \<times> lex_state_t \<times> u32 list \<times> nat option" where
  "channel_spec_loop ctx state param values len i =
     (case scpiLex_DecimalNumericProgramData (buf_data ctx) state param of (r, state, param) \<Rightarrow>
        if r \<noteq> 0
        then let values = (if i < len then values[i := to_int32 ctx param (values ! i)] else values)
             in case scpiLex_SpecificCharacter (CHR 0x21) (buf_data ctx) state param of (c, state, param) \<Rightarrow>
                  if c \<noteq> 0 then channel_spec_loop ctx state param values len (i + 1)
                  else (SCPI_EXPR_OK, state, values, Some (i + 1))
        else (if i = 0 then SCPI_EXPR_NO_MORE else SCPI_EXPR_ERROR, state, values, None))"
  by pat_completeness auto
termination
proof (relation "measure (\<lambda>(ctx, state, param, values, len, i). left state)", goal_cases)
  case (2 ctx state param vals len i r q state1 param1 vals1 c q' state2 param2)
  then have d: "scpiLex_DecimalNumericProgramData (buf_data ctx) state param = (r, state1, param1)"
    and e: "scpiLex_SpecificCharacter (CHR 0x21) (buf_data ctx) state1 param1 = (c, state2, param2)" by auto
  have "left state1 < left state"
    using decimal.consumed [OF d] decimal.progress [OF d] 2 by (auto simp: left_def adv_def)
  moreover have "left state2 \<le> left state1" by (rule adv_left [OF specific.progress [OF e]])
  ultimately show ?case by simp
qed simp

declare channel_spec_loop.simps [simp del]

definition channelSpec :: "scpi_t \<Rightarrow> lex_state_t \<Rightarrow> u32 list \<Rightarrow> nat \<Rightarrow> scpi_expr_result_t \<times> lex_state_t \<times> u32 list \<times> nat option" where
  "channelSpec ctx state values len = channel_spec_loop ctx state unset_param values len 0"

text \<open>One specification, or two of as many dimensions with a colon between them.\<close>

definition channelRange ::
  "scpi_t \<Rightarrow> lex_state_t \<Rightarrow> bool \<Rightarrow> u32 list \<Rightarrow> u32 list \<Rightarrow> nat \<Rightarrow> nat
   \<Rightarrow> scpi_expr_result_t \<times> lex_state_t \<times> bool \<times> u32 list \<times> u32 list \<times> nat" where
  "channelRange ctx state isRange valuesFrom valuesTo len dimensions =
     (let (err, state, valuesFrom, fromDimensions) = channelSpec ctx state valuesFrom len
      in if err = SCPI_EXPR_OK
         then let (c, state, token) = scpiLex_Colon (buf_data ctx) state unset_param
              in if c \<noteq> 0
                 then let (err, state, valuesTo, toDimensions) = channelSpec ctx state valuesTo len
                      in if err \<noteq> SCPI_EXPR_OK then (SCPI_EXPR_ERROR, state, True, valuesFrom, valuesTo, dimensions)
                         else if fromDimensions \<noteq> toDimensions
                         then (SCPI_EXPR_ERROR, state, True, valuesFrom, valuesTo, dimensions)
                         else (err, state, True, valuesFrom, valuesTo, the fromDimensions)
                 else (SCPI_EXPR_OK, state, False, valuesFrom, valuesTo, the fromDimensions)
         else (if err = SCPI_EXPR_NO_MORE then SCPI_EXPR_ERROR else err, state, isRange, valuesFrom, valuesTo, dimensions))"

fun channel_entries ::
  "scpi_t \<Rightarrow> nat \<Rightarrow> lex_state_t \<Rightarrow> bool \<Rightarrow> u32 list \<Rightarrow> u32 list \<Rightarrow> nat \<Rightarrow> nat
   \<Rightarrow> scpi_expr_result_t \<times> lex_state_t \<times> bool \<times> u32 list \<times> u32 list \<times> nat" where
  "channel_entries ctx n st isRange valuesFrom valuesTo len dimensions =
     (case channelRange ctx st isRange valuesFrom valuesTo (if n = 0 then len else 0) dimensions of
        (res, st, isRange, valuesFrom, valuesTo, dimensions) \<Rightarrow>
          if res \<noteq> SCPI_EXPR_OK then (res, st, isRange, valuesFrom, valuesTo, dimensions)
          else case n of
                 0 \<Rightarrow> (SCPI_EXPR_OK, st, isRange, valuesFrom, valuesTo, dimensions)
               | Suc k \<Rightarrow>
                   (case scpiLex_Comma (buf_data ctx) st unset_param of (c, st, token) \<Rightarrow>
                      if c = 0
                      then (if scpiLex_IsEos st then SCPI_EXPR_NO_MORE else SCPI_EXPR_ERROR, st, isRange, valuesFrom, valuesTo, dimensions)
                      else channel_entries ctx k st isRange valuesFrom valuesTo len dimensions))"

declare channel_entries.simps [simp del]

text \<open>Errors are pushed once for a parse error and once more when what follows the last entry is not the end.\<close>

definition SCPI_ExprChannelListEntry ::
  "scpi_t \<Rightarrow> scpi_token_t option \<Rightarrow> int \<Rightarrow> bool option \<Rightarrow> u32 list option \<Rightarrow> u32 list option \<Rightarrow> nat \<Rightarrow> nat option
   \<Rightarrow> scpi_expr_result_t \<times> bool option \<times> u32 list option \<times> u32 list option \<times> nat option \<times> scpi_t" where
  "SCPI_ExprChannelListEntry ctx param index isRange valuesFrom valuesTo len dimensions =
     (case (isRange, param, dimensions) of
        (Some b, Some p, Some d) \<Rightarrow>
          if len \<noteq> 0 \<and> (valuesFrom = None \<or> valuesTo = None)
          then (SCPI_EXPR_ERROR, isRange, valuesFrom, valuesTo, dimensions, SCPI_ErrorPush ctx SCPI_ERROR_SYSTEM_ERROR)
          else if tok_type p \<noteq> SCPI_TOKEN_PROGRAM_EXPRESSION
          then (SCPI_EXPR_ERROR, isRange, valuesFrom, valuesTo, dimensions, SCPI_ErrorPush ctx SCPI_ERROR_DATA_TYPE_ERROR)
          else let (at, st, token) = scpiLex_SpecificCharacter (CHR 0x40) (buf_data ctx) (inside p) unset_param
               in if at = 0
                  then (SCPI_EXPR_ERROR, isRange, valuesFrom, valuesTo, dimensions, SCPI_ErrorPush ctx SCPI_ERROR_EXPRESSION_PARSING_ERROR)
                  else let from = (case valuesFrom of None \<Rightarrow> [] | Some l \<Rightarrow> l); to = (case valuesTo of None \<Rightarrow> [] | Some l \<Rightarrow> l);
                           (res, st, b, from, to, d) =
                             (if index < 0 then (SCPI_EXPR_OK, st, b, from, to, d) else channel_entries ctx (nat index) st b from to len d);
                           ctx = (if res = SCPI_EXPR_ERROR then SCPI_ErrorPush ctx SCPI_ERROR_EXPRESSION_PARSING_ERROR else ctx);
                           (res, ctx) = (if res = SCPI_EXPR_NO_MORE \<and> \<not> scpiLex_IsEos st
                                         then (SCPI_EXPR_ERROR, SCPI_ErrorPush ctx SCPI_ERROR_EXPRESSION_PARSING_ERROR) else (res, ctx))
                       in (res, Some b, map_option (\<lambda>_. from) valuesFrom, map_option (\<lambda>_. to) valuesTo, Some d, ctx)
      | _ \<Rightarrow> (SCPI_EXPR_ERROR, isRange, valuesFrom, valuesTo, dimensions, SCPI_ErrorPush ctx SCPI_ERROR_SYSTEM_ERROR))"

subsection \<open>Scanning a known text\<close>

text \<open>Up to the end of the lexer's buffer the text is \<open>xs\<close>, and \<open>rest\<close> follows it.\<close>

definition ahead :: "string \<Rightarrow> string \<Rightarrow> lex_state_t \<Rightarrow> string \<Rightarrow> bool" where
  "ahead m rest s xs \<longleftrightarrow> drop (lex_pos s) m = xs @ rest \<and> lex_buffer s + lex_len s = lex_pos s + length xs"

lemma ahead_eos: "ahead m rest s xs \<Longrightarrow> iseos s = (xs = [])"
  by (auto simp: ahead_def iseos_def)

lemma ahead_hd: "ahead m rest s (x # xs) \<Longrightarrow> m ! lex_pos s = x"
  by (auto simp: ahead_def intro: nth_via_drop)

lemma ahead_step: "ahead m rest s (x # xs) \<Longrightarrow> ahead m rest (step (Suc 0) s) xs"
  by (simp add: ahead_def drop_Suc flip: tl_drop)

lemma ahead_drop: "ahead m rest s (ds @ xs) \<Longrightarrow> ahead m rest (step (length ds) s) xs"
proof (induction ds arbitrary: s)
  case (Cons d ds)
  then show ?case using Cons.IH [of "step (Suc 0) s"] ahead_step [of m rest s d "ds @ xs"] by simp
qed (simp add: step_def)

lemma skip_while_ahead:
  assumes "ahead m rest s (ds @ xs)" "list_all p ds" "xs = [] \<or> \<not> p (hd xs)"
  shows "skip_while p m s = (length ds, step (length ds) s)"
  using assms(1,2)
proof (induction ds arbitrary: s)
  case Nil
  then show ?case using assms(3) ahead_eos [of m rest s xs] ahead_hd [of m rest s "hd xs" "tl xs"]
    by (cases xs) (auto simp: skip_while.simps [of p m s] step_def)
next
  case (Cons d ds)
  then have "\<not> iseos s" "m ! lex_pos s = d" "ahead m rest (step (Suc 0) s) (ds @ xs)"
    using ahead_eos [of m rest s] ahead_hd [of m rest s] ahead_step [of m rest s] by auto
  then show ?case using Cons by (simp add: skip_while.simps [of p m s])
qed

lemma skip_if_ahead:
  "ahead m rest s (x # xs) \<Longrightarrow> p x \<Longrightarrow> skip_if p m s = (SKIP_OK, step (Suc 0) s)"
  "ahead m rest s xs \<Longrightarrow> xs = [] \<or> \<not> p (hd xs) \<Longrightarrow> skip_if p m s = (SKIP_NONE, s)"
  using ahead_hd [of m rest s x "xs"] ahead_eos [of m rest s "x # xs"]
    ahead_hd [of m rest s "hd xs" "tl xs"] ahead_eos [of m rest s xs]
  by (cases xs; auto simp: skip_if_def)+

lemma skipChr_if: "skipChr m s c = skip_if (\<lambda>x. x = c) m s"
  by (simp add: skipChr_def skip_if_def ischr_def)

lemma single_char_ahead:
  "ahead m rest s (c # xs) \<Longrightarrow>
     single_char ty c m s = (1, step (Suc 0) s, \<lparr>tok_type = ty, tok_ptr = Some (lex_pos s), tok_len = 1\<rparr>)"
  "ahead m rest s xs \<Longrightarrow> xs = [] \<or> hd xs \<noteq> c \<Longrightarrow>
     single_char ty c m s = (0, s, \<lparr>tok_type = SCPI_TOKEN_UNKNOWN, tok_ptr = Some (lex_pos s), tok_len = 0\<rparr>)"
  using skip_if_ahead(1) [of m rest s c xs "\<lambda>x. x = c"] skip_if_ahead(2) [of m rest s xs "\<lambda>x. x = c"]
  by (simp_all add: single_char_def skipChr_if)

subsection \<open>Numbers in a list\<close>

abbreviation num :: "u32 \<Rightarrow> string" where "num v \<equiv> SCPI_Int32ToStr v 33"

abbreviation num_token :: "nat \<Rightarrow> u32 \<Rightarrow> scpi_token_t" where
  "num_token p v \<equiv> \<lparr>tok_type = SCPI_TOKEN_DECIMAL_NUMERIC_PROGRAM_DATA, tok_ptr = Some p, tok_len = length (num v)\<rparr>"

text \<open>What may follow a number: the end, or a separator.\<close>

definition separated :: "string \<Rightarrow> bool" where
  "separated xs \<longleftrightarrow> xs = [] \<or> hd xs \<in> {CHR '','', CHR '':'', CHR 0x21, CHR '')''}"

lemma separated_class:
  assumes "separated xs"
  shows "xs = [] \<or> \<not> isdigit (hd xs)" "xs = [] \<or> hd xs \<noteq> CHR ''.''" "xs = [] \<or> \<not> isws (hd xs)" "xs = [] \<or> \<not> isE (hd xs)"
    "xs = [] \<or> \<not> digit_of (hd xs) < 10"
  using assms by (auto simp: separated_def isdigit_def isws_def isE_def digit_of_def isupper_def islower_def)

text \<open>More generally, white space may come first, and then nothing that continues a number.\<close>

definition ends_number :: "string \<Rightarrow> bool" where
  "ends_number xs \<longleftrightarrow>
     (let ys = dropWhile isws xs in ys = [] \<or> \<not> isdigit (hd ys) \<and> hd ys \<noteq> CHR ''.'' \<and> \<not> isE (hd ys))"

lemma ends_class:
  assumes "ends_number xs"
  shows "xs = [] \<or> \<not> isdigit (hd xs)" "xs = [] \<or> hd xs \<noteq> CHR ''.''"
  using assms by (cases xs; auto simp: ends_number_def isws_def isdigit_def split: if_splits)+

lemma separated_ends: "separated xs \<Longrightarrow> ends_number xs"
  using separated_class [of xs] by (cases xs) (auto simp: ends_number_def)

lemma num_split:
  obtains sg ds where "num v = sg @ ds" "sg = [] \<or> sg = ''-''" "list_all isdigit ds" "ds \<noteq> []"
proof (cases "v <s 0")
  case True
  then have "num v = ''-'' @ SCPI_UInt32ToStrBase (- v) 32 10" by (simp add: Int32ToStr_cases)
  then show thesis using decimal_digits(1,3) [of 32 "- v"] by (intro that [of "''-''"]) auto
next
  case False
  then have "num v = [] @ SCPI_UInt32ToStrBase v 33 10" by (simp add: Int32ToStr_cases)
  then show thesis using decimal_digits(1,3) [of 33 v] by (intro that [of "[]"]) auto
qed

lemma skipMantisa_num:
  assumes "ahead m rest s (num v @ xs)" "ends_number xs"
  obtains n where "skipMantisa m s = (n, step (length (num v)) s)" "0 < n"
proof -
  obtain sg ds where n: "num v = sg @ ds" "sg = [] \<or> sg = ''-''" "list_all isdigit ds" "ds \<noteq> []"
    by (rule num_split)
  have a: "ahead m rest s (sg @ ds @ xs)" using assms(1) n(1) by simp
  note a1 = ahead_drop [OF a] and cls = ends_class [OF assms(2)]
  note a2 = ahead_drop [OF a1]
  obtain d ds' where d: "ds = d # ds'" "isdigit d" using n(3,4) by (cases ds) auto
  have "\<not> isplusmn d" using d(2) by (auto simp: isplusmn_def isdigit_def)
  then have "snd (skipPlusmn m s) = step (length sg) s"
    using n(2) a skip_if_ahead(1) [of m rest s "CHR ''-''" "ds @ xs" isplusmn] skip_if_ahead(2) [of m rest s "ds @ xs" isplusmn]
    by (auto simp: skipPlusmn_def d(1) isplusmn_def step_def)
  moreover have "skipNumbers m (step (length sg) s) = (length ds, step (length (num v)) s)"
    using skip_while_ahead [OF a1 n(3) cls(1)] by (simp add: skipNumbers_def n(1))
  moreover have "skipChr m (step (length (num v)) s) (CHR ''.'') = (0, step (length (num v)) s)"
    using skip_if_ahead(2) [OF a2 cls(2) [THEN disj_forward]] by (simp add: skipChr_if n(1))
  ultimately have "skipMantisa m s = (length ds, step (length (num v)) s)"
    by (simp add: skipMantisa_def split_beta)
  then show thesis using n(4) by (intro that) auto
qed

lemma num_ne [simp]: "num v \<noteq> []"
  using num_split [of v] by (metis append_is_Nil_conv)

text \<open>One number followed by a separator is one token, and its value is the number.\<close>

lemma decimal_num:
  assumes "ahead m rest s (num v @ xs)" "ends_number xs"
  shows "scpiLex_DecimalNumericProgramData m s t = (length (num v), step (length (num v)) s, num_token (lex_pos s) v)"
proof -
  let ?s = "step (length (num v)) s" and ?ys = "dropWhile isws xs"
  obtain n where n: "skipMantisa m s = (n, ?s)" "0 < n" by (rule skipMantisa_num [OF assms])
  let ?w = "step (length (takeWhile isws xs)) ?s"
  have a: "ahead m rest ?s (takeWhile isws xs @ ?ys)" using ahead_drop [OF assms(1)] by simp
  have w: "skipWs m ?s = (length (takeWhile isws xs), ?w)"
    using skip_while_ahead [OF a, of isws] hd_dropWhile [of isws xs] by (auto simp: skipWs_def list_all_iff dest: set_takeWhileD)
  have "skipExponent m ?w = (0, ?w)"
    using assms(2) ahead_eos [OF ahead_drop [OF a]] ahead_hd [of m rest ?w "hd ?ys" "tl ?ys"] ahead_drop [OF a]
    by (cases "?ys") (auto simp: skipExponent_def ends_number_def)
  moreover have "?w\<lparr>lex_pos := lex_pos s + length (num v)\<rparr> = ?s" by (simp add: step_def)
  ultimately show ?thesis using n w by (simp add: scpiLex_DecimalNumericProgramData_def Let_def)
qed

lemma decimal_end:
  assumes "ahead m rest s []"
  shows "scpiLex_DecimalNumericProgramData m s t = (0, s, \<lparr>tok_type = SCPI_TOKEN_UNKNOWN, tok_ptr = Some (lex_pos s), tok_len = 0\<rparr>)"
proof -
  have "skipMantisa m s = (0, s)"
    using ahead_eos [OF assms]
    by (simp add: skipMantisa_def skipPlusmn_def skip_if_def skipNumbers_def skip_while.simps [of _ m s] skipChr_def)
  then show ?thesis by (simp add: scpiLex_DecimalNumericProgramData_def Let_def)
qed

lemma to_int32_num:
  assumes "ahead m rest s (num v @ xs)" "separated (xs @ rest)" "buf_data ctx = m"
  shows "to_int32 ctx (num_token (lex_pos s) v) old = v"
proof -
  have "drop (lex_pos s) m = num v @ (xs @ rest)" using assms(1) by (simp add: ahead_def)
  then show ?thesis
    using int32_text_reads [OF separated_class(5) [OF assms(2)], of v] assms(3)
    by (simp add: to_int32_def SCPI_ParamToInt32_def ParamSignToUInt32_def Let_def)
qed

subsection \<open>A printed numeric list\<close>

datatype entry = Single u32 | Range u32 u32

fun entry_text :: "entry \<Rightarrow> string" where
  "entry_text (Single v) = num v"
| "entry_text (Range v w) = num v @ '':'' @ num w"

fun is_range :: "entry \<Rightarrow> bool" where "is_range (Single v) = False" | "is_range (Range v w) = True"
fun first_of :: "entry \<Rightarrow> u32" where "first_of (Single v) = v" | "first_of (Range v w) = v"
fun last_of :: "entry \<Rightarrow> u32" where "last_of (Single v) = v" | "last_of (Range v w) = w"

definition list_text :: "entry list \<Rightarrow> string" where "list_text es = commas (map entry_text es)"

text \<open>The tokens of an entry denote its values.\<close>

definition denotes :: "string \<Rightarrow> entry \<Rightarrow> scpi_token_t \<Rightarrow> scpi_token_t \<Rightarrow> bool" where
  "denotes m e f t \<longleftrightarrow> (\<forall>ctx old. buf_data ctx = m \<longrightarrow>
     to_int32 ctx f old = first_of e \<and> (is_range e \<longrightarrow> to_int32 ctx t old = last_of e))"

lemma numericRange_entry:
  assumes "ahead m rest s (entry_text e @ xs)" "xs = [] \<or> hd xs = CHR '',''" "separated rest"
  obtains f' t' s' where "numericRange m s b f t = (SCPI_EXPR_OK, s', is_range e, f', t')" "ahead m rest s' xs" "denotes m e f' t'"
proof -
  have sep: "separated xs" "separated (xs @ rest)" using assms(2,3) by (cases xs; auto simp: separated_def)+
  show thesis
  proof (cases e)
    case (Single v)
    then have a: "ahead m rest s (num v @ xs)" using assms(1) by simp
    have "numericRange m s b f t = (SCPI_EXPR_OK, step (length (num v)) s, is_range e, num_token (lex_pos s) v,
        \<lparr>tok_type = SCPI_TOKEN_UNKNOWN, tok_ptr = Some (lex_pos s + length (num v)), tok_len = 0\<rparr>)"
      using decimal_num [OF a separated_ends [OF sep(1)]] single_char_ahead(2) [OF ahead_drop [OF a], of "CHR '':''"] assms(2)
      by (auto simp: numericRange_def scpiLex_Colon_def Single)
    then show thesis
      by (rule that) (simp_all add: ahead_drop [OF a] denotes_def Single to_int32_num [OF a sep(2)])
  next
    case (Range v w)
    then have a: "ahead m rest s (num v @ '':'' @ num w @ xs)" using assms(1) by simp
    let ?s = "step (Suc 0) (step (length (num v)) s)"
    have sa: "separated ('':'' @ num w @ xs)" "separated (('':'' @ num w @ xs) @ rest)" by (simp_all add: separated_def)
    have c: "ahead m rest (step (length (num v)) s) (CHR '':'' # num w @ xs)" using ahead_drop [OF a] by simp
    note d = ahead_step [OF c]
    have "numericRange m s b f t =
        (SCPI_EXPR_OK, step (length (num w)) ?s, is_range e, num_token (lex_pos s) v, num_token (lex_pos ?s) w)"
      using decimal_num [OF a separated_ends [OF sa(1)]] single_char_ahead(1) [OF c] decimal_num [OF d separated_ends [OF sep(1)]]
      by (simp add: numericRange_def scpiLex_Colon_def Range del: step_step)
    then show thesis
      by (rule that)
         (use ahead_drop [OF d] to_int32_num [OF a sa(2)] to_int32_num [OF d sep(2)] in \<open>simp_all add: denotes_def Range\<close>)
  qed
qed

lemma numericRange_end: "ahead m rest s [] \<Longrightarrow> fst (numericRange m s b f t) = SCPI_EXPR_NO_MORE"
  by (simp add: numericRange_def decimal_end)

text \<open>The loop over the list finds the entry asked for, or no more.\<close>

lemma numeric_entries_list:
  assumes "ahead m rest s (list_text es)" "separated rest"
  shows "if n < length es
    then \<exists>f' t'. numeric_entries m n s b f t = (SCPI_EXPR_OK, is_range (es ! n), f', t') \<and> denotes m (es ! n) f' t'
    else fst (numeric_entries m n s b f t) = SCPI_EXPR_NO_MORE"
  using assms(1)
proof (induction es arbitrary: n s b f t)
  case Nil
  then have "ahead m rest s []" by (simp add: list_text_def)
  from numericRange_end [OF this] show ?case
    by (auto simp: numeric_entries.simps [of m n] split_beta)
next
  case (Cons e es)
  define xs where "xs = (if es = [] then [] else CHR '','' # list_text es)"
  have xs: "xs = [] \<or> hd xs = CHR '',''" by (simp add: xs_def)
  have a: "ahead m rest s (entry_text e @ xs)"
    using Cons.prems by (cases es) (simp_all add: xs_def list_text_def)
  obtain f' t' s' where r: "numericRange m s b f t = (SCPI_EXPR_OK, s', is_range e, f', t')" "ahead m rest s' xs" "denotes m e f' t'"
    by (rule numericRange_entry [OF a xs assms(2)])
  show ?case
  proof (cases n)
    case 0
    then show ?thesis using r by (simp add: numeric_entries.simps [of m 0])
  next
    case (Suc k)
    show ?thesis
    proof (cases "es = []")
      case True
      then show ?thesis
        using r Suc single_char_ahead(2) [OF r(2)] ahead_eos [OF r(2)]
        by (simp add: numeric_entries.simps [of m "Suc k"] xs_def scpiLex_Comma_def scpiLex_IsEos_def)
    next
      case False
      then have c: "ahead m rest s' (CHR '','' # list_text es)" using r(2) by (simp add: xs_def)
      show ?thesis
        using Cons.IH [OF ahead_step [OF c], of k] r(1) Suc single_char_ahead(1) [OF c]
        by (simp add: numeric_entries.simps [of m "Suc k"] scpiLex_Comma_def)
    qed
  qed
qed

text \<open>The parameter as the parser hands it over: the text between the parentheses.\<close>

abbreviation expr_token :: "nat \<Rightarrow> nat \<Rightarrow> scpi_token_t" where
  "expr_token p n \<equiv> \<lparr>tok_type = SCPI_TOKEN_PROGRAM_EXPRESSION, tok_ptr = Some p, tok_len = n + 2\<rparr>"

lemma ahead_inside:
  "ahead (pre @ ''('' @ xs @ '')'' @ post) ('')'' @ post) (inside (expr_token (length pre) (length xs))) xs"
  by (simp add: ahead_def inside_def)

text \<open>C25: A list of numbers and ranges printed in decimal between parentheses, anywhere in the input buffer, is read
  back entry by entry: the entry at an index inside the list is reported with its kind and its exact values, the
  index past the last entry reports that there are no more and leaves the results alone; no error is pushed.\<close>

theorem numeric_list_roundtrip:
  fixes ctx pre post es v0 w0 b
  defines "ctx' \<equiv> ctx\<lparr>buf_data := pre @ ''('' @ list_text es @ '')'' @ post\<rparr>"
  shows "SCPI_ExprNumericListEntryInt ctx' (Some (expr_token (length pre) (length (list_text es)))) (int k) b v0 w0 =
    (if k < length es
     then (SCPI_EXPR_OK, is_range (es ! k), first_of (es ! k), if is_range (es ! k) then last_of (es ! k) else w0, ctx')
     else (SCPI_EXPR_NO_MORE, b, v0, w0, ctx'))"
proof -
  define m where "m = pre @ ''('' @ list_text es @ '')'' @ post"
  define p where "p = expr_token (length pre) (length (list_text es))"
  have "ahead m ('')'' @ post) (inside p) (list_text es)" unfolding m_def p_def by (rule ahead_inside)
  moreover have "separated ('')'' @ post)" by (simp add: separated_def)
  ultimately have l: "if k < length es
    then \<exists>f' t'. numeric_entries m k (inside p) False unset_param unset_param = (SCPI_EXPR_OK, is_range (es ! k), f', t') \<and>
      denotes m (es ! k) f' t'
    else fst (numeric_entries m k (inside p) False unset_param unset_param) = SCPI_EXPR_NO_MORE"
    by (rule numeric_entries_list)
  have m: "buf_data ctx' = m" and t: "tok_type p = SCPI_TOKEN_PROGRAM_EXPRESSION" by (simp_all add: ctx'_def m_def p_def)
  have "SCPI_ExprNumericListEntryInt ctx' (Some p) (int k) b v0 w0 =
    (if k < length es
     then (SCPI_EXPR_OK, is_range (es ! k), first_of (es ! k), if is_range (es ! k) then last_of (es ! k) else w0, ctx')
     else (SCPI_EXPR_NO_MORE, b, v0, w0, ctx'))"
    using l m by (auto simp: SCPI_ExprNumericListEntryInt_def SCPI_ExprNumericListEntry_def t denotes_def split_beta split: if_splits)
  then show ?thesis by (simp only: p_def)
qed

subsection \<open>A printed channel list\<close>

fun bangs :: "u32 list \<Rightarrow> string" where
  "bangs [] = []"
| "bangs [v] = num v"
| "bangs (v # w # vs) = num v @ [CHR 0x21] @ bangs (w # vs)"

text \<open>The values stored of a specification, number by number and as a whole.\<close>

fun stored :: "nat \<Rightarrow> u32 list \<Rightarrow> nat \<Rightarrow> u32 list \<Rightarrow> u32 list" where
  "stored len vals i [] = vals"
| "stored len vals i (v # vs) = stored len (if i < len then vals[i := v] else vals) (Suc i) vs"

lemma stored_past: "len \<le> i \<Longrightarrow> stored len vals i vs = vals"
  by (induction vs arbitrary: i) simp_all

lemma stored_none [simp]: "stored 0 vals i vs = vals"
  by (simp add: stored_past)

lemma stored_whole:
  assumes "len \<le> length vals"
  shows "stored len vals 0 vs = take len vs @ drop (min len (length vs)) vals"
proof -
  have "stored len vals i vs = take i vals @ take (len - i) vs @ drop (i + min (len - i) (length vs)) vals"
    if "i \<le> length vals" "len \<le> length vals" for i vals
    using that
  proof (induction vs arbitrary: i vals)
    case (Cons v vs)
    show ?case
    proof (cases "i < len")
      case True
      then show ?thesis using Cons.IH [of "Suc i" "vals[i := v]"] Cons.prems
        by (simp add: take_Suc_conv_app_nth Suc_diff_Suc [symmetric] nth_append)
    next
      case False
      then show ?thesis by (simp add: stored_past)
    qed
  qed simp
  from this [of 0] show ?thesis using assms by simp
qed

lemma channel_spec_text:
  assumes "ahead m rest s (bangs vs @ xs)" "vs \<noteq> []" "xs = [] \<or> hd xs \<in> {CHR '','', CHR '':''}" "separated rest" "buf_data ctx = m"
  shows "channel_spec_loop ctx s p vals len i =
    (SCPI_EXPR_OK, step (length (bangs vs)) s, stored len vals i vs, Some (i + length vs))"
  using assms(1,2)
proof (induction vs arbitrary: s p vals i rule: bangs.induct)
  case (2 v)
  have sep: "separated xs" "separated (xs @ rest)" using assms(3,4) by (cases xs; auto simp: separated_def)+
  have a: "ahead m rest s (num v @ xs)" using 2 by simp
  show ?case
    using decimal_num [OF a separated_ends [OF sep(1)]] to_int32_num [OF a sep(2) assms(5)] single_char_ahead(2) [OF ahead_drop [OF a], of "CHR 0x21"] assms(3,5)
    by (auto simp: channel_spec_loop.simps [of ctx s] scpiLex_SpecificCharacter_def)
next
  case (3 v w vs)
  let ?xs = "CHR 0x21 # bangs (w # vs) @ xs"
  have a: "ahead m rest s (num v @ ?xs)" using 3(2) by simp
  have sep: "separated ?xs" "separated (?xs @ rest)" by (simp_all add: separated_def)
  note c = ahead_drop [OF a]
  show ?case
    using decimal_num [OF a separated_ends [OF sep(1)]] to_int32_num [OF a sep(2) assms(5)] single_char_ahead(1) [OF c] "3.IH" [OF ahead_step [OF c]] assms(5)
    by (simp add: channel_spec_loop.simps [of ctx s] scpiLex_SpecificCharacter_def)
qed simp

datatype channels = Chan "u32 list" | Chans "u32 list" "u32 list"

fun chan_text :: "channels \<Rightarrow> string" where
  "chan_text (Chan vs) = bangs vs"
| "chan_text (Chans vs ws) = bangs vs @ '':'' @ bangs ws"

fun chan_ok :: "channels \<Rightarrow> bool" where
  "chan_ok (Chan vs) = (vs \<noteq> [])"
| "chan_ok (Chans vs ws) = (vs \<noteq> [] \<and> length ws = length vs)"

fun chan_range :: "channels \<Rightarrow> bool" where "chan_range (Chan vs) = False" | "chan_range (Chans vs ws) = True"
fun chan_first :: "channels \<Rightarrow> u32 list" where "chan_first (Chan vs) = vs" | "chan_first (Chans vs ws) = vs"
fun chan_last :: "channels \<Rightarrow> u32 list" where "chan_last (Chan vs) = []" | "chan_last (Chans vs ws) = ws"

lemma channelRange_text:
  assumes "ahead m rest s (chan_text e @ xs)" "chan_ok e" "xs = [] \<or> hd xs = CHR '',''" "separated rest" "buf_data ctx = m"
  shows "channelRange ctx s b vf vt len d =
    (SCPI_EXPR_OK, step (length (chan_text e)) s, chan_range e, stored len vf 0 (chan_first e), stored len vt 0 (chan_last e),
     length (chan_first e))"
proof (cases e)
  case (Chan vs)
  then have a: "ahead m rest s (bangs vs @ xs)" and v: "vs \<noteq> []" using assms(1,2) by auto
  show ?thesis
    using channel_spec_text [OF a v _ assms(4,5)] single_char_ahead(2) [OF ahead_drop [OF a], of "CHR '':''"] assms(3,5)
    by (auto simp: channelRange_def channelSpec_def scpiLex_Colon_def Chan)
next
  case (Chans vs ws)
  then have a: "ahead m rest s (bangs vs @ CHR '':'' # bangs ws @ xs)" and v: "vs \<noteq> []" "ws \<noteq> []" "length ws = length vs"
    using assms(1,2) by auto
  note c = ahead_drop [OF a]
  have x: "xs = [] \<or> hd xs \<in> {CHR '','', CHR '':''}" using assms(3) by auto
  show ?thesis
    using channel_spec_text [OF a v(1) _ assms(4,5)] single_char_ahead(1) [OF c]
      channel_spec_text [OF ahead_step [OF c] v(2) x assms(4,5)] v(3) assms(5)
    by (simp add: channelRange_def channelSpec_def scpiLex_Colon_def Chans)
qed

definition channels_text :: "channels list \<Rightarrow> string" where "channels_text es = commas (map chan_text es)"

text \<open>The loop finds the entry asked for; the entries passed over store nothing.\<close>

lemma channel_entries_text:
  assumes "ahead m rest s (channels_text es)" "es \<noteq> []" "list_all chan_ok es" "separated rest" "buf_data ctx = m"
  shows "\<exists>s'. channel_entries ctx n s b vf vt len d =
    (if n < length es
     then (SCPI_EXPR_OK, s', chan_range (es ! n), stored len vf 0 (chan_first (es ! n)), stored len vt 0 (chan_last (es ! n)),
           length (chan_first (es ! n)))
     else (SCPI_EXPR_NO_MORE, s', chan_range (last es), vf, vt, length (chan_first (last es)))) \<and>
    (length es \<le> n \<longrightarrow> iseos s')"
  using assms(1-3)
proof (induction es arbitrary: n s b d)
  case (Cons e es)
  define xs where "xs = (if es = [] then [] else CHR '','' # channels_text es)"
  have xs: "xs = [] \<or> hd xs = CHR '',''" by (simp add: xs_def)
  have a: "ahead m rest s (chan_text e @ xs)"
    using Cons.prems(1) by (cases es) (simp_all add: xs_def channels_text_def)
  have ok: "chan_ok e" using Cons.prems(3) by simp
  note r = channelRange_text [OF a ok xs assms(4,5)] and a' = ahead_drop [OF a]
  show ?case
  proof (cases n)
    case 0
    then show ?thesis using r [of b vf vt len d] by (simp add: channel_entries.simps [of ctx 0])
  next
    case (Suc k)
    show ?thesis
    proof (cases "es = []")
      case True
      then show ?thesis
        using r [of b vf vt 0 d] Suc single_char_ahead(2) [OF a'] ahead_eos [OF a'] assms(5)
        by (simp add: channel_entries.simps [of ctx "Suc k"] xs_def scpiLex_Comma_def scpiLex_IsEos_def)
    next
      case False
      then have c: "ahead m rest (step (length (chan_text e)) s) (CHR '','' # channels_text es)" using a' by (simp add: xs_def)
      have l: "list_all chan_ok es" using Cons.prems(3) by simp
      have e: "channel_entries ctx (Suc k) s b vf vt len d =
          channel_entries ctx k (step (Suc 0) (step (length (chan_text e)) s)) (chan_range e) vf vt len (length (chan_first e))"
        using r [of b vf vt 0 d] single_char_ahead(1) [OF c] assms(5)
        by (simp add: channel_entries.simps [of ctx "Suc k"] scpiLex_Comma_def)
      note IH = Cons.IH [OF ahead_step [OF c] False l, of k "chan_range e" "length (chan_first e)", folded e]
      have "(n < length (e # es)) = (k < length es)" "(length (e # es) \<le> n) = (length es \<le> k)"
        "(e # es) ! n = es ! k" "last (e # es) = last es" by (simp_all add: Suc False)
      then show ?thesis using IH by (simp only: Suc)
    qed
  qed
qed simp

text \<open>C26: A list of channels and channel ranges of equal dimensions printed as \<^verbatim>\<open>(@1!2,3!4:5!6)\<close>, anywhere in the input buffer, is
  read back entry by entry: the entry at an index inside the list is reported with its kind and its number of dimensions, as many
  of its numbers as the caller has room for are stored and the rest of the arrays is left alone; an index past the last
  entry reports no more and stores no number. No error is pushed.\<close>

theorem channel_list_roundtrip:
  fixes ctx pre post es vf vt
  defines "ctx' \<equiv> ctx\<lparr>buf_data := pre @ ''('' @ (CHR 0x40 # channels_text es) @ '')'' @ post\<rparr>"
  assumes "es \<noteq> []" "list_all chan_ok es" "len \<le> length vf" "len \<le> length vt"
  shows "SCPI_ExprChannelListEntry ctx' (Some (expr_token (length pre) (Suc (length (channels_text es))))) (int k) (Some b)
      (Some vf) (Some vt) len (Some d) =
    (let put = (\<lambda>vs vals. take len vs @ drop (min len (length vs)) vals)
     in if k < length es
        then (SCPI_EXPR_OK, Some (chan_range (es ! k)), Some (put (chan_first (es ! k)) vf), Some (put (chan_last (es ! k)) vt),
              Some (length (chan_first (es ! k))), ctx')
        else (SCPI_EXPR_NO_MORE, Some (chan_range (last es)), Some vf, Some vt, Some (length (chan_first (last es))), ctx'))"
proof -
  define xs where "xs = CHR 0x40 # channels_text es"
  define m where "m = pre @ ''('' @ xs @ '')'' @ post"
  define p where "p = expr_token (length pre) (length xs)"
  have c: "ahead m ('')'' @ post) (inside p) (CHR 0x40 # channels_text es)"
    unfolding m_def p_def xs_def by (rule ahead_inside)
  have m: "buf_data ctx' = m" and t: "tok_type p = SCPI_TOKEN_PROGRAM_EXPRESSION" by (simp_all add: ctx'_def m_def p_def xs_def)
  have "separated ('')'' @ post)" by (simp add: separated_def)
  from channel_entries_text [OF ahead_step [OF c] assms(2,3) this m]
  obtain s' where s: "channel_entries ctx' k (step (Suc 0) (inside p)) b vf vt len d =
    (if k < length es
     then (SCPI_EXPR_OK, s', chan_range (es ! k), stored len vf 0 (chan_first (es ! k)), stored len vt 0 (chan_last (es ! k)),
           length (chan_first (es ! k)))
     else (SCPI_EXPR_NO_MORE, s', chan_range (last es), vf, vt, length (chan_first (last es))))"
    "length es \<le> k \<Longrightarrow> iseos s'" by metis
  have "SCPI_ExprChannelListEntry ctx' (Some p) (int k) (Some b) (Some vf) (Some vt) len (Some d) =
    (let put = (\<lambda>vs vals. take len vs @ drop (min len (length vs)) vals)
     in if k < length es
        then (SCPI_EXPR_OK, Some (chan_range (es ! k)), Some (put (chan_first (es ! k)) vf), Some (put (chan_last (es ! k)) vt),
              Some (length (chan_first (es ! k))), ctx')
        else (SCPI_EXPR_NO_MORE, Some (chan_range (last es)), Some vf, Some vt, Some (length (chan_first (last es))), ctx'))"
    using s single_char_ahead(1) [OF c] m stored_whole [OF assms(4)] stored_whole [OF assms(5)]
    by (simp add: SCPI_ExprChannelListEntry_def t scpiLex_SpecificCharacter_def scpiLex_IsEos_def Let_def)
  then show ?thesis by (simp add: p_def xs_def)
qed

lemma channel_list_roundtrip_witness:
  "SCPI_ExprChannelListEntry ((demo_ctx [])\<lparr>buf_data := ''(@'' @ channels_text [Chan [7], Chans [1, 2] [3, 4]] @ '')''\<rparr>)
      (Some (expr_token 0 (Suc (length (channels_text [Chan [7], Chans [1, 2] [3, 4]]))))) 1 (Some False) (Some [0]) (Some [0]) 1 (Some 0) =
    (SCPI_EXPR_OK, Some True, Some [1], Some [3], Some 2,
     (demo_ctx [])\<lparr>buf_data := ''(@'' @ channels_text [Chan [7], Chans [1, 2] [3, 4]] @ '')''\<rparr>)"
  using channel_list_roundtrip [where es = "[Chan [7], Chans [1, 2] [3, 4]]" and len = 1 and vf = "[0]" and vt = "[0]" and pre = "[]" and post = "[]"
      and k = 1 and d = 0 and b = False and ctx = "demo_ctx []"]
  by (simp add: numeral_2_eq_2)

end
