(* ===== verification/Scpi_Number.thy ===== *)
theory Scpi_Number
  imports Scpi_Expr
begin

text \<open>
  Floating-point numbers and units: \<^verbatim>\<open>libscpi/src/units.c\<close> and the floating-point routines of \<^verbatim>\<open>parser.c\<close>,
  \<^verbatim>\<open>utils.c\<close> and \<^verbatim>\<open>expression.c\<close>. A float is its 32 bits and a double its 64 bits; what the C library and the
  processor do with them, reading, printing, converting and multiplying, is a parameter. The unit table is the one of the bare-metal
  build. A string in a buffer is the text before its terminator, which is written right after it.
\<close>

abbreviation "SCPI_ERROR_INVALID_SUFFIX \<equiv> - 131 :: int"

subsection \<open>Floating point\<close>

text \<open>\<open>fp_read\<close> is \<^verbatim>\<open>strtof\<close> or \<^verbatim>\<open>strtod\<close> with the number of characters used, \<open>fp_text\<close> the conversion that \<^verbatim>\<open>snprintf\<close>
  is asked for, \<open>fp_ten n\<close> the value of the literal \<open>1en\<close>.\<close>

record 'd fp =
  fp_read :: "string \<Rightarrow> 'd \<times> nat"
  fp_text :: "'d \<Rightarrow> string"
  fp_of_nat :: "nat \<Rightarrow> 'd"
  fp_ten :: "int \<Rightarrow> 'd"
  fp_times :: "'d \<Rightarrow> 'd \<Rightarrow> 'd"

definition SCPI_FloatToStr :: "u32 fp \<Rightarrow> u32 \<Rightarrow> nat \<Rightarrow> string" where
  "SCPI_FloatToStr fp val len = take (len - 1) (fp_text fp val)"

definition SCPI_DoubleToStr :: "u64 fp \<Rightarrow> u64 \<Rightarrow> nat \<Rightarrow> string" where
  "SCPI_DoubleToStr fp val len = take (len - 1) (fp_text fp val)"

definition strToFloat :: "u32 fp \<Rightarrow> string \<Rightarrow> u32 \<times> nat" where "strToFloat fp str = fp_read fp str"

definition strToDouble :: "u64 fp \<Rightarrow> string \<Rightarrow> u64 \<times> nat" where "strToDouble fp str = fp_read fp str"

definition SCPI_ResultFloat :: "u32 fp \<Rightarrow> scpi_t \<Rightarrow> u32 \<Rightarrow> scpi_t" where
  "SCPI_ResultFloat fp ctx val = count_output (writeData (writeDelimiter ctx) (SCPI_FloatToStr fp val 32))"

definition SCPI_ResultDouble :: "u64 fp \<Rightarrow> scpi_t \<Rightarrow> u64 \<Rightarrow> scpi_t" where
  "SCPI_ResultDouble fp ctx val = count_output (writeData (writeDelimiter ctx) (SCPI_DoubleToStr fp val 32))"

definition SCPI_ResultArrayFloat :: "u32 fp \<Rightarrow> scpi_t \<Rightarrow> u32 list \<Rightarrow> scpi_array_format_t \<Rightarrow> scpi_t" where
  "SCPI_ResultArrayFloat fp = RESULT_ARRAY (SCPI_ResultFloat fp)"

definition SCPI_ResultArrayDouble :: "u64 fp \<Rightarrow> scpi_t \<Rightarrow> u64 list \<Rightarrow> scpi_array_format_t \<Rightarrow> scpi_t" where
  "SCPI_ResultArrayDouble fp = RESULT_ARRAY (SCPI_ResultDouble fp)"

text \<open>A null pointer for the value is \<open>None\<close>; the result is the value stored, if any.\<close>

definition param_text :: "scpi_t \<Rightarrow> scpi_token_t \<Rightarrow> string" where
  "param_text ctx parameter = (case tok_ptr parameter of None \<Rightarrow> [] | Some p \<Rightarrow> drop p (buf_data ctx))"

definition SCPI_ParamToFloat :: "u32 fp \<Rightarrow> scpi_t \<Rightarrow> scpi_token_t \<Rightarrow> u32 option \<Rightarrow> bool \<times> u32 option \<times> scpi_t" where
  "SCPI_ParamToFloat fp ctx parameter val =
     (if val = None then (False, None, SCPI_ErrorPush ctx SCPI_ERROR_SYSTEM_ERROR)
      else if tok_type parameter \<in> {SCPI_TOKEN_HEXNUM, SCPI_TOKEN_OCTNUM, SCPI_TOKEN_BINNUM}
      then let (result, valint) = SCPI_ParamToUInt32 ctx parameter
           in (result, map_option (\<lambda>v. fp_of_nat fp (unat v)) valint, ctx)
      else if tok_type parameter \<in> {SCPI_TOKEN_DECIMAL_NUMERIC_PROGRAM_DATA, SCPI_TOKEN_DECIMAL_NUMERIC_PROGRAM_DATA_WITH_SUFFIX}
      then let (v, used) = strToFloat fp (param_text ctx parameter) in (used > 0, Some v, ctx)
      else (False, val, ctx))"

definition SCPI_ParamToDouble :: "u64 fp \<Rightarrow> scpi_t \<Rightarrow> scpi_token_t \<Rightarrow> u64 option \<Rightarrow> bool \<times> u64 option \<times> scpi_t" where
  "SCPI_ParamToDouble fp ctx parameter val =
     (if val = None then (False, None, SCPI_ErrorPush ctx SCPI_ERROR_SYSTEM_ERROR)
      else if tok_type parameter \<in> {SCPI_TOKEN_HEXNUM, SCPI_TOKEN_OCTNUM, SCPI_TOKEN_BINNUM}
      then let (result, valint) = SCPI_ParamToUInt64 ctx parameter
           in (result, map_option (\<lambda>v. fp_of_nat fp (unat v)) valint, ctx)
      else if tok_type parameter \<in> {SCPI_TOKEN_DECIMAL_NUMERIC_PROGRAM_DATA, SCPI_TOKEN_DECIMAL_NUMERIC_PROGRAM_DATA_WITH_SUFFIX}
      then let (v, used) = strToDouble fp (param_text ctx parameter) in (used > 0, Some v, ctx)
      else (False, val, ctx))"

definition SCPI_ParamFloat :: "u32 fp \<Rightarrow> scpi_t \<Rightarrow> u32 option \<Rightarrow> bool \<Rightarrow> bool \<times> u32 option \<times> scpi_t" where
  "SCPI_ParamFloat fp ctx val mandatory =
     (if val = None then (False, None, SCPI_ErrorPush ctx SCPI_ERROR_SYSTEM_ERROR)
      else let (result, param, ctx) = SCPI_Parameter ctx mandatory
           in if result
              then if SCPI_ParamIsNumber param False
                   then let (_, v, ctx) = SCPI_ParamToFloat fp ctx param val in (True, v, ctx)
                   else if SCPI_ParamIsNumber param True then (False, val, SCPI_ErrorPush ctx SCPI_ERROR_SUFFIX_NOT_ALLOWED)
                   else (False, val, SCPI_ErrorPush ctx SCPI_ERROR_DATA_TYPE_ERROR)
              else (False, val, ctx))"

definition SCPI_ParamDouble :: "u64 fp \<Rightarrow> scpi_t \<Rightarrow> u64 option \<Rightarrow> bool \<Rightarrow> bool \<times> u64 option \<times> scpi_t" where
  "SCPI_ParamDouble fp ctx val mandatory =
     (if val = None then (False, None, SCPI_ErrorPush ctx SCPI_ERROR_SYSTEM_ERROR)
      else let (result, param, ctx) = SCPI_Parameter ctx mandatory
           in if result
              then if SCPI_ParamIsNumber param False
                   then let (_, v, ctx) = SCPI_ParamToDouble fp ctx param val in (True, v, ctx)
                   else if SCPI_ParamIsNumber param True then (False, val, SCPI_ErrorPush ctx SCPI_ERROR_SUFFIX_NOT_ALLOWED)
                   else (False, val, SCPI_ErrorPush ctx SCPI_ERROR_DATA_TYPE_ERROR)
              else (False, val, ctx))"

text \<open>The elements of an array have an address each; \<open>0\<close> stands for what they hold before.\<close>

definition SCPI_ParamArrayFloat :: "u32 fp \<Rightarrow> scpi_t \<Rightarrow> nat \<Rightarrow> scpi_array_format_t \<Rightarrow> bool \<Rightarrow> bool \<times> u32 list \<times> scpi_t" where
  "SCPI_ParamArrayFloat fp = PARAM_ARRAY (\<lambda>ctx mandatory. SCPI_ParamFloat fp ctx (Some 0) mandatory)"

definition SCPI_ParamArrayDouble :: "u64 fp \<Rightarrow> scpi_t \<Rightarrow> nat \<Rightarrow> scpi_array_format_t \<Rightarrow> bool \<Rightarrow> bool \<times> u64 list \<times> scpi_t" where
  "SCPI_ParamArrayDouble fp = PARAM_ARRAY (\<lambda>ctx mandatory. SCPI_ParamDouble fp ctx (Some 0) mandatory)"

text \<open>An entry of a numeric list as doubles.\<close>

definition to_double :: "u64 fp \<Rightarrow> scpi_t \<Rightarrow> scpi_token_t \<Rightarrow> u64 \<Rightarrow> u64 \<times> scpi_t" where
  "to_double fp ctx param old = (case SCPI_ParamToDouble fp ctx param (Some old) of (_, v, ctx) \<Rightarrow> (case v of Some d \<Rightarrow> d | None \<Rightarrow> old, ctx))"

definition SCPI_ExprNumericListEntryDouble ::
  "u64 fp \<Rightarrow> scpi_t \<Rightarrow> scpi_token_t option \<Rightarrow> int \<Rightarrow> bool \<Rightarrow> u64 \<Rightarrow> u64 \<Rightarrow> scpi_expr_result_t \<times> bool \<times> u64 \<times> u64 \<times> scpi_t" where
  "SCPI_ExprNumericListEntryDouble fp ctx param index isRange valueFrom valueTo =
     (let (res, range, paramFrom, paramTo, ctx) =
            SCPI_ExprNumericListEntry ctx param index (Some False) (Some unset_param) (Some unset_param)
      in if res = SCPI_EXPR_OK
         then let (valueFrom, ctx) = to_double fp ctx (the paramFrom) valueFrom;
                  (valueTo, ctx) = (if the range then to_double fp ctx (the paramTo) valueTo else (valueTo, ctx))
              in (res, the range, valueFrom, valueTo, ctx)
         else (res, isRange, valueFrom, valueTo, ctx))"

subsection \<open>Units\<close>

datatype scpi_unit_t =
    SCPI_UNIT_NONE | SCPI_UNIT_VOLT | SCPI_UNIT_AMPER | SCPI_UNIT_OHM | SCPI_UNIT_HERTZ | SCPI_UNIT_CELSIUS | SCPI_UNIT_SECOND
  | SCPI_UNIT_METER | SCPI_UNIT_GRAY | SCPI_UNIT_BECQUEREL | SCPI_UNIT_MOLE | SCPI_UNIT_DEGREE | SCPI_UNIT_GRADE | SCPI_UNIT_RADIAN
  | SCPI_UNIT_REVOLUTION | SCPI_UNIT_STERADIAN | SCPI_UNIT_SIEVERT | SCPI_UNIT_FARAD | SCPI_UNIT_COULOMB | SCPI_UNIT_SIEMENS
  | SCPI_UNIT_ELECTRONVOLT | SCPI_UNIT_JOULE | SCPI_UNIT_NEWTON | SCPI_UNIT_LUX | SCPI_UNIT_HENRY | SCPI_UNIT_ASTRONOMIC_UNIT
  | SCPI_UNIT_INCH | SCPI_UNIT_FOOT | SCPI_UNIT_PARSEC | SCPI_UNIT_MILE | SCPI_UNIT_NAUTICAL_MILE | SCPI_UNIT_LUMEN | SCPI_UNIT_CANDELA
  | SCPI_UNIT_WEBER | SCPI_UNIT_TESLA | SCPI_UNIT_ATOMIC_MASS | SCPI_UNIT_KILOGRAM | SCPI_UNIT_WATT | SCPI_UNIT_DBM | SCPI_UNIT_ATMOSPHERE
  | SCPI_UNIT_INCH_OF_MERCURY | SCPI_UNIT_MM_OF_MERCURY | SCPI_UNIT_PASCAL | SCPI_UNIT_TORT | SCPI_UNIT_BAR | SCPI_UNIT_DECIBEL
  | SCPI_UNIT_UNITLESS | SCPI_UNIT_FAHRENHEIT | SCPI_UNIT_KELVIN | SCPI_UNIT_DAY | SCPI_UNIT_YEAR | SCPI_UNIT_STROKES | SCPI_UNIT_POISE
  | SCPI_UNIT_LITER

text \<open>The multiplier of a definition is a power of ten, given by its exponent.\<close>

record scpi_unit_def_t =
  ud_name :: string
  ud_unit :: scpi_unit_t
  ud_mult :: int

abbreviation unit_def :: "string \<Rightarrow> scpi_unit_t \<Rightarrow> int \<Rightarrow> scpi_unit_def_t" where
  "unit_def n u e \<equiv> \<lparr>ud_name = n, ud_unit = u, ud_mult = e\<rparr>"

definition units_electric :: "scpi_unit_def_t list" where
  "units_electric =
     [unit_def ''PF'' SCPI_UNIT_FARAD (- 12), unit_def ''NF'' SCPI_UNIT_FARAD (- 9), unit_def ''UF'' SCPI_UNIT_FARAD (- 6),
      unit_def ''MF'' SCPI_UNIT_FARAD (- 3), unit_def ''F'' SCPI_UNIT_FARAD 0,
      unit_def ''UA'' SCPI_UNIT_AMPER (- 6), unit_def ''MA'' SCPI_UNIT_AMPER (- 3), unit_def ''A'' SCPI_UNIT_AMPER 0,
      unit_def ''KA'' SCPI_UNIT_AMPER 3,
      unit_def ''UV'' SCPI_UNIT_VOLT (- 6), unit_def ''MV'' SCPI_UNIT_VOLT (- 3), unit_def ''V'' SCPI_UNIT_VOLT 0,
      unit_def ''KV'' SCPI_UNIT_VOLT 3,
      unit_def ''OHM'' SCPI_UNIT_OHM 0, unit_def ''KOHM'' SCPI_UNIT_OHM 3, unit_def ''MOHM'' SCPI_UNIT_OHM 6,
      unit_def ''UH'' SCPI_UNIT_HENRY (- 6), unit_def ''MH'' SCPI_UNIT_HENRY (- 3), unit_def ''H'' SCPI_UNIT_HENRY 0]"

definition units_frequency :: "scpi_unit_def_t list" where
  "units_frequency =
     [unit_def ''HZ'' SCPI_UNIT_HERTZ 0, unit_def ''KHZ'' SCPI_UNIT_HERTZ 3, unit_def ''MHZ'' SCPI_UNIT_HERTZ 6,
      unit_def ''GHZ'' SCPI_UNIT_HERTZ 9]"

definition units_power :: "scpi_unit_def_t list" where
  "units_power = [unit_def ''W'' SCPI_UNIT_WATT 0, unit_def ''DBM'' SCPI_UNIT_DBM 0, unit_def ''DBMW'' SCPI_UNIT_DBM 0]"

definition scpi_units_def :: "scpi_unit_def_t list" where
  "scpi_units_def = units_electric @ units_frequency @ units_power"

definition SCPI_NUM_MIN :: int where "SCPI_NUM_MIN = 1"
definition SCPI_NUM_MAX :: int where "SCPI_NUM_MAX = 2"
definition SCPI_NUM_DEF :: int where "SCPI_NUM_DEF = 3"
definition SCPI_NUM_UP :: int where "SCPI_NUM_UP = 4"
definition SCPI_NUM_DOWN :: int where "SCPI_NUM_DOWN = 5"
definition SCPI_NUM_NAN :: int where "SCPI_NUM_NAN = 6"
definition SCPI_NUM_INF :: int where "SCPI_NUM_INF = 7"
definition SCPI_NUM_NINF :: int where "SCPI_NUM_NINF = 8"
definition SCPI_NUM_AUTO :: int where "SCPI_NUM_AUTO = 9"

definition scpi_special_numbers_def :: "(string \<times> int) list" where
  "scpi_special_numbers_def =
     [(''MINimum'', SCPI_NUM_MIN), (''MAXimum'', SCPI_NUM_MAX), (''DEFault'', SCPI_NUM_DEF), (''UP'', SCPI_NUM_UP),
      (''DOWN'', SCPI_NUM_DOWN), (''NAN'', SCPI_NUM_NAN), (''INFinity'', SCPI_NUM_INF), (''NINF'', SCPI_NUM_NINF),
      (''AUTO'', SCPI_NUM_AUTO)]"

text \<open>A null table is \<open>None\<close>.\<close>

definition translateUnit :: "scpi_unit_def_t list option \<Rightarrow> string \<Rightarrow> scpi_unit_def_t option" where
  "translateUnit units unit =
     (case units of None \<Rightarrow> None | Some us \<Rightarrow> find (\<lambda>d. compareStr unit (ud_name d)) us)"

definition translateUnitInverse :: "u64 fp \<Rightarrow> scpi_unit_def_t list option \<Rightarrow> scpi_unit_t \<Rightarrow> string option" where
  "translateUnitInverse fp units unit =
     (case units of None \<Rightarrow> None
      | Some us \<Rightarrow> map_option ud_name (find (\<lambda>d. ud_unit d = unit \<and> fp_ten fp (ud_mult d) = fp_ten fp 0) us))"

definition skipWhitespace :: "string \<Rightarrow> nat" where
  "skipWhitespace cmd = length (takeWhile isspace cmd)"

text \<open>The members of the union are two fields, of which the flag says which one counts. A tag that was not found is \<open>None\<close>.\<close>

record scpi_number_t =
  nr_special :: bool
  nr_value :: u64
  nr_tag :: "int option"
  nr_unit :: scpi_unit_t
  nr_base :: nat

definition transformNumber ::
  "u64 fp \<Rightarrow> scpi_unit_def_t list option \<Rightarrow> scpi_t \<Rightarrow> string \<Rightarrow> scpi_number_t \<Rightarrow> bool \<times> scpi_number_t \<times> scpi_t" where
  "transformNumber fp units ctx unit val =
     (let s = skipWhitespace unit
      in if s = length unit then (True, val\<lparr>nr_unit := SCPI_UNIT_NONE\<rparr>, ctx)
         else case translateUnit units (drop s unit) of
                None \<Rightarrow> (False, val, SCPI_ErrorPush ctx SCPI_ERROR_INVALID_SUFFIX)
              | Some d \<Rightarrow> (True, val\<lparr>nr_value := fp_times fp (nr_value val) (fp_ten fp (ud_mult d)), nr_unit := ud_unit d\<rparr>, ctx))"

text \<open>The three switches on the type of the parameter.\<close>

definition number_types :: "scpi_token_type_t set" where
  "number_types = {SCPI_TOKEN_DECIMAL_NUMERIC_PROGRAM_DATA, SCPI_TOKEN_HEXNUM, SCPI_TOKEN_OCTNUM, SCPI_TOKEN_BINNUM,
     SCPI_TOKEN_DECIMAL_NUMERIC_PROGRAM_DATA_WITH_SUFFIX, SCPI_TOKEN_PROGRAM_MNEMONIC}"

definition number_base :: "scpi_token_type_t \<Rightarrow> nat \<Rightarrow> nat" where
  "number_base ty old =
     (if ty \<in> {SCPI_TOKEN_DECIMAL_NUMERIC_PROGRAM_DATA, SCPI_TOKEN_DECIMAL_NUMERIC_PROGRAM_DATA_WITH_SUFFIX, SCPI_TOKEN_PROGRAM_MNEMONIC}
      then 10 else if ty = SCPI_TOKEN_BINNUM then 2 else if ty = SCPI_TOKEN_HEXNUM then 16
      else if ty = SCPI_TOKEN_OCTNUM then 8 else old)"

definition number_value :: "u64 fp \<Rightarrow> scpi_t \<Rightarrow> scpi_token_t \<Rightarrow> scpi_number_t \<Rightarrow> scpi_number_t \<times> scpi_t" where
  "number_value fp ctx param val =
     (let (v, ctx) = to_double fp ctx param (nr_value val) in (val\<lparr>nr_value := v\<rparr>, ctx))"

definition SCPI_ParamNumber ::
  "u64 fp \<Rightarrow> scpi_unit_def_t list option \<Rightarrow> scpi_t \<Rightarrow> (string \<times> int) list \<Rightarrow> scpi_number_t option \<Rightarrow> bool
   \<Rightarrow> bool \<times> scpi_number_t option \<times> scpi_t" where
  "SCPI_ParamNumber fp units ctx special val mandatory =
     (case val of None \<Rightarrow> (False, None, SCPI_ErrorPush ctx SCPI_ERROR_SYSTEM_ERROR)
      | Some val \<Rightarrow>
          (let (result, param, ctx) = SCPI_Parameter ctx mandatory
           in if \<not> result then (result, Some val, ctx)
              else let m = buf_data ctx; p = the (tok_ptr param);
                       state = \<lparr>lex_buffer = p, lex_pos = p, lex_len = tok_len param\<rparr>;
                       ty = tok_type param;
                       val = (if ty \<in> number_types then val\<lparr>nr_unit := SCPI_UNIT_NONE, nr_special := False\<rparr> else val);
                       val = val\<lparr>nr_base := number_base ty (nr_base val)\<rparr>
                   in if ty \<in> {SCPI_TOKEN_DECIMAL_NUMERIC_PROGRAM_DATA, SCPI_TOKEN_HEXNUM, SCPI_TOKEN_OCTNUM, SCPI_TOKEN_BINNUM}
                      then let (val, ctx) = number_value fp ctx param val in (True, Some val, ctx)
                      else if ty = SCPI_TOKEN_DECIMAL_NUMERIC_PROGRAM_DATA_WITH_SUFFIX
                      then let (_, state, token) = scpiLex_DecimalNumericProgramData m state unset_param;
                               (_, state, token) = scpiLex_WhiteSpace m state token;
                               (_, state, token) = scpiLex_SuffixProgramData m state token;
                               (val, ctx) = number_value fp ctx param val;
                               (result, val, ctx) = transformNumber fp units ctx (text_of m token) val
                           in (result, Some val, ctx)
                      else if ty = SCPI_TOKEN_PROGRAM_MNEMONIC
                      then let (_, state, token) = scpiLex_WhiteSpace m state unset_param;
                               (_, state, token) = scpiLex_CharacterProgramData m state token;
                               (result, tag, ctx) = SCPI_ParamToChoice ctx token special
                           in (result, Some (val\<lparr>nr_special := True, nr_tag := tag\<rparr>), ctx)
                      else (False, Some val, ctx)))"

text \<open>\<^verbatim>\<open>strncat\<close> appends at most \<open>n\<close> characters and then writes the terminator.\<close>

definition strncat :: "string \<Rightarrow> string \<Rightarrow> nat \<Rightarrow> string" where
  "strncat str t n = str @ take n t"

text \<open>The text in the buffer and the result, for a buffer of \<open>len\<close> bytes.\<close>

definition SCPI_NumberToStr ::
  "u64 fp \<Rightarrow> scpi_unit_def_t list option \<Rightarrow> (string \<times> int) list \<Rightarrow> scpi_number_t \<Rightarrow> nat \<Rightarrow> string \<times> nat" where
  "SCPI_NumberToStr fp units special val len =
     (if len = 0 then ([], 0)
      else if nr_special val
      then case Option.bind (nr_tag val) (SCPI_ChoiceToName special) of
             Some type \<Rightarrow> (take (len - 1) type, min (length type) (len - 1))
           | None \<Rightarrow> ([], 0)
      else let str = SCPI_DoubleToStr fp (nr_value val) len; result = length str
           in if result + 1 < len
              then case translateUnitInverse fp units (nr_unit val) of
                     Some unit \<Rightarrow>
                       let str = strncat str '' '' (len - result);
                           str = (if result + 2 < len then strncat str unit (len - result - 1) else str)
                       in (str, length str)
                   | None \<Rightarrow> (str, result)
              else (str, result))"

subsection \<open>The buffer of a number\<close>

lemma ChoiceText_short: "0 < len \<Longrightarrow> length (take (len - 1) t) < len \<and> min (length t) (len - 1) = length (take (len - 1) t)"
  by auto

text \<open>C27: Printing a number with its unit into a buffer of \<open>len\<close> bytes: the result is the length of the text, whose
  terminator is written behind it. That is inside the buffer but for one case: when there is room for the space and one more
  character and the unit does not fit, the text fills the whole buffer and the terminator is written one byte past its end.\<close>

theorem number_text_overrun:
  assumes "0 < len"
  shows "case SCPI_NumberToStr fp units special val len of (text, result) \<Rightarrow>
    result = length text \<and> length text \<le> len \<and>
    (length text = len \<longleftrightarrow> \<not> nr_special val \<and>
      (\<exists>u. translateUnitInverse fp units (nr_unit val) = Some u \<and> length (fp_text fp (nr_value val)) + 2 < len \<and>
           len \<le> length (fp_text fp (nr_value val)) + 1 + length u))"
proof (cases "nr_special val")
  case True
  show ?thesis
  proof (cases "Option.bind (nr_tag val) (SCPI_ChoiceToName special)")
    case None
    then show ?thesis using assms True by (simp add: SCPI_NumberToStr_def)
  next
    case (Some t)
    then show ?thesis using assms True ChoiceText_short [OF assms, of t] by (simp add: SCPI_NumberToStr_def)
  qed
next
  case False
  define n where "n = length (fp_text fp (nr_value val))"
  have l: "length (SCPI_DoubleToStr fp (nr_value val) len) = min n (len - 1)" by (simp add: SCPI_DoubleToStr_def n_def)
  show ?thesis
  proof (cases "translateUnitInverse fp units (nr_unit val)")
    case None
    then show ?thesis using assms False l by (auto simp: SCPI_NumberToStr_def Let_def)
  next
    case (Some u)
    then show ?thesis
      using assms False l by (auto simp: SCPI_NumberToStr_def Let_def strncat_def n_def [symmetric] min_def)
  qed
qed

text \<open>The example uses whole numbers for doubles.\<close>

definition whole_fp :: "u64 fp" where
  "whole_fp = \<lparr>fp_read = (\<lambda>s. (of_nat (unat (fst (strBaseToInt32 s 10))), snd (strBaseToInt32 s 10))), fp_text = (\<lambda>d. SCPI_Int64ToStr d 65),
     fp_of_nat = of_nat, fp_ten = (\<lambda>e. if e < 0 then 0 else of_nat (10 ^ nat e)), fp_times = (*)\<rparr>"

lemma number_text_overrun_witness:
  "length (fst (SCPI_NumberToStr whole_fp (Some scpi_units_def) scpi_special_numbers_def
     \<lparr>nr_special = False, nr_value = 5, nr_tag = None, nr_unit = SCPI_UNIT_OHM, nr_base = 10\<rparr> 5)) = 5"
proof -
  let ?v = "\<lparr>nr_special = False, nr_value = 5, nr_tag = None, nr_unit = SCPI_UNIT_OHM, nr_base = 10\<rparr>"
  have "translateUnitInverse whole_fp (Some scpi_units_def) SCPI_UNIT_OHM = Some ''OHM'' \<and> length (fp_text whole_fp 5) = 1"
    by code_simp
  then show ?thesis
    using number_text_overrun [where len = 5 and fp = whole_fp and units = "Some scpi_units_def" and special = scpi_special_numbers_def and val = ?v]
    by (auto simp: split_beta)
qed

subsection \<open>The unit table\<close>

text \<open>No two names of the table are equal up to case, so a name stands for one entry; and the name printed for a unit stands for that unit itself.\<close>

lemma units_distinct: "distinct (map (\<lambda>d. map tolower (ud_name d)) scpi_units_def)"
  by code_simp

lemma find_key: "distinct (map g xs) \<Longrightarrow> x \<in> set xs \<Longrightarrow> find (\<lambda>y. g x = g y) xs = Some x"
  by (induction xs) (auto simp: image_iff)

lemma unit_names: "list_all (\<lambda>d. list_all islower (map tolower (ud_name d)) \<and> ud_name d \<noteq> [] \<and> tolower (hd (ud_name d)) \<noteq> CHR ''e'') scpi_units_def"
  by code_simp

lemma tolower_alpha: "islower (tolower c) = isalpha c" "isE c \<Longrightarrow> tolower c = CHR ''e''"
proof -
  have "code (char_of (code c + 32) :: char) = code c + 32" if "isupper c"
    using that by (simp add: isupper_def)
  then show "islower (tolower c) = isalpha c"
    by (auto simp: tolower_def isalpha_def islower_def isupper_def)
  have "tolower (CHR ''E'') = CHR ''e''" "tolower (CHR ''e'') = CHR ''e''" by code_simp+
  then show "isE c \<Longrightarrow> tolower c = CHR ''e''" by (auto simp: isE_def)
qed

text \<open>A name of the table in any case: letters, not starting like an exponent, found.\<close>

lemma unit_name:
  assumes "d \<in> set scpi_units_def" "nocase_eq nm (ud_name d)"
  shows "list_all isalpha nm" "nm \<noteq> []" "\<not> isE (hd nm)" "translateUnit (Some scpi_units_def) nm = Some d"
proof -
  have e: "map tolower nm = map tolower (ud_name d)" using assms(2) by (simp add: nocase_eq_def)
  have d: "list_all islower (map tolower (ud_name d))" "ud_name d \<noteq> []" "tolower (hd (ud_name d)) \<noteq> CHR ''e''"
    using unit_names assms(1) by (auto simp: list_all_iff)
  show a: "list_all isalpha nm" using d(1) unfolding e [symmetric] by (simp add: list_all_iff tolower_alpha(1))
  show ne: "nm \<noteq> []" using e d(2) by auto
  have "tolower (hd nm) = tolower (hd (ud_name d))" using e ne d(2) by (metis hd_map)
  then show "\<not> isE (hd nm)" using d(3) tolower_alpha(2) by metis
  have "NUL \<notin> set nm"
  proof
    assume "NUL \<in> set nm"
    then have "isalpha NUL" using a by (auto simp: list_all_iff)
    then show False by (simp add: isalpha_def isupper_def islower_def)
  qed
  then have c: "compareStr nm (ud_name b) = (map tolower (ud_name d) = map tolower (ud_name b))" for b
    by (simp add: compareStr_eq nocase_eq_def e)
  show "translateUnit (Some scpi_units_def) nm = Some d"
    using find_key [OF units_distinct assms(1)] by (simp add: translateUnit_def c)
qed

text \<open>The name printed for a unit is the name of that unit, unscaled.\<close>

lemma unit_name_printed:
  assumes "translateUnitInverse fp (Some scpi_units_def) u = Some nm"
  shows "\<exists>d. translateUnit (Some scpi_units_def) nm = Some d \<and> ud_unit d = u \<and> fp_ten fp (ud_mult d) = fp_ten fp 0"
proof -
  obtain d where d: "find (\<lambda>d. ud_unit d = u \<and> fp_ten fp (ud_mult d) = fp_ten fp 0) scpi_units_def = Some d" "nm = ud_name d"
    using assms by (auto simp: translateUnitInverse_def)
  then have "d \<in> set scpi_units_def" "ud_unit d = u" "fp_ten fp (ud_mult d) = fp_ten fp 0"
    by (auto simp: find_Some_iff)
  then show ?thesis using unit_name(4) [of d nm] d(2) by (auto simp: nocase_eq_def)
qed

subsection \<open>A number with a unit\<close>

lemma space_token:
  assumes "ahead m rest s (sp @ xs)" "list_all isws sp" "xs = [] \<or> \<not> isws (hd xs)"
  shows "\<exists>t'. scpiLex_WhiteSpace m s t = (length sp, step (length sp) s, t')"
  using skip_while_ahead [OF assms(1,2,3)] by (simp add: scpiLex_WhiteSpace_def skipWs_def Let_def)

lemma suffix_token:
  assumes "ahead m rest s (nm @ xs)" "list_all isalpha nm" "nm \<noteq> []" "xs = [] \<or> hd xs = CHR '',''"
  shows "scpiLex_SuffixProgramData m s t = (length nm, step (length nm) s,
    \<lparr>tok_type = SCPI_TOKEN_SUFFIX_PROGRAM_DATA, tok_ptr = Some (lex_pos s), tok_len = length nm\<rparr>)"
proof -
  let ?s = "step (length nm) s"
  obtain c cs where c: "nm = c # cs" "isalpha c" using assms(2,3) by (cases nm) auto
  have "c \<noteq> CHR ''/''" using c(2) by (auto simp: isalpha_def isupper_def islower_def)
  then have slash: "skipChr m s (CHR ''/'') = (SKIP_NONE, s)"
    using skip_if_ahead(2) [OF assms(1)] c(1) by (simp add: skipChr_if)
  have "xs = [] \<or> \<not> isalpha (hd xs)" using assms(4) by (auto simp: isalpha_def isupper_def islower_def)
  then have letters: "skipAlpha m s = (length nm, ?s)" using skip_while_ahead [OF assms(1,2)] by (simp add: skipAlpha_def)
  note a = ahead_drop [OF assms(1)]
  have "skipChr m ?s (CHR ''-'') = (SKIP_NONE, ?s)" "skipDigit m ?s = (SKIP_NONE, ?s)"
    using skip_if_ahead(2) [OF a] assms(4) by (auto simp: skipChr_if skipDigit_def isdigit_def)
  then have "suffix_part m ?s = ?s" by (simp add: suffix_part_def)
  moreover have "suffix_loop m ?s = ?s"
    using assms(4) ahead_eos [OF a] ahead_hd [of m rest ?s "hd xs" "tl xs"] a
    by (subst suffix_loop.simps) (cases xs; auto simp: skipSlashDot_def ischr_def)
  ultimately show ?thesis using slash letters assms(3) by (simp add: scpiLex_SuffixProgramData_def Let_def)
qed

abbreviation suffixed :: "nat \<Rightarrow> nat \<Rightarrow> scpi_token_t" where
  "suffixed p n \<equiv> \<lparr>tok_type = SCPI_TOKEN_DECIMAL_NUMERIC_PROGRAM_DATA_WITH_SUFFIX, tok_ptr = Some p, tok_len = n\<rparr>"

lemma unit_follows:
  assumes "list_all isws sp" "list_all isalpha nm" "nm \<noteq> []" "\<not> isE (hd nm)"
  shows "ends_number (sp @ nm @ xs)" "\<not> isws (hd (nm @ xs))"
proof -
  obtain c cs where c: "nm = c # cs" "isalpha c" using assms(2,3) by (cases nm) auto
  have "\<not> isws c" "\<not> isdigit c" "c \<noteq> CHR ''.''"
    using c(2) by (auto simp: isalpha_def isupper_def islower_def isws_def isdigit_def)
  moreover have "dropWhile isws (sp @ nm @ xs) = nm @ xs"
    using assms(1) calculation(1) c(1) by (simp add: dropWhile_append2 list_all_iff)
  ultimately show "ends_number (sp @ nm @ xs)" "\<not> isws (hd (nm @ xs))"
    using assms(4) c(1) by (auto simp: ends_number_def)
qed

lemma decimal_with_unit:
  assumes "ahead m rest s (num v @ sp @ nm @ xs)" "list_all isws sp" "list_all isalpha nm" "nm \<noteq> []" "\<not> isE (hd nm)"
    and "xs = [] \<or> hd xs = CHR '',''"
  shows "decimal_with_suffix m s t = (length (num v @ sp @ nm), step (length (num v @ sp @ nm)) s, suffixed (lex_pos s) (length (num v @ sp @ nm)))"
proof -
  note u = unit_follows [OF assms(2-5), of xs]
  note a1 = ahead_drop [OF assms(1)]
  have "nm @ xs = [] \<or> \<not> isws (hd (nm @ xs))" using u(2) by simp
  from space_token [OF a1 assms(2) this] obtain t' where
    w: "scpiLex_WhiteSpace m (step (length (num v)) s) (num_token (lex_pos s) v) = (length sp, step (length sp) (step (length (num v)) s), t')"
    by blast
  show ?thesis
    using decimal_num [OF assms(1) u(1), of t] w suffix_token [OF ahead_drop [OF a1] assms(3,4,6), of t'] assms(4)
    by (simp add: decimal_with_suffix_def Let_def)
qed

lemma parse_with_unit:
  assumes "ahead m rest s (num v @ sp @ nm @ xs)" "list_all isws sp" "list_all isalpha nm" "nm \<noteq> []" "\<not> isE (hd nm)"
    and "xs = [] \<or> hd xs = CHR '',''"
  shows "\<exists>r s2. scpiParser_parseProgramData m s t = (r, s2, suffixed (lex_pos s) (length (num v @ sp @ nm)))"
proof -
  obtain c cs where c: "num v @ sp @ nm @ xs = c # cs" "c = CHR ''-'' \<or> isdigit c"
  proof -
    obtain sg ds where n: "num v = sg @ ds" "sg = [] \<or> sg = ''-''" "list_all isdigit ds" "ds \<noteq> []" by (rule num_split)
    then show thesis by (cases ds) (auto intro: that)
  qed
  have a: "ahead m rest s (c # cs)" using assms(1) c(1) by simp
  have at: "m ! lex_pos s = c" "\<not> iseos s" using ahead_hd [OF a] ahead_eos [OF a] by auto
  have k: "\<not> isws c" "\<not> isalpha c" "c \<noteq> CHR ''#''" using c(2)
    by (auto simp: isws_def isalpha_def isupper_def islower_def isdigit_def)
  have ws: "scpiLex_WhiteSpace m s t = (0, s, \<lparr>tok_type = SCPI_TOKEN_UNKNOWN, tok_ptr = Some (lex_pos s), tok_len = 0\<rparr>)"
    using k(1) at by (simp add: scpiLex_WhiteSpace_def skipWs_def skip_while.simps [of isws] Let_def)
  have n: "fst (scpiLex_NondecimalNumericData m s t) = 0" "fst (scpiLex_CharacterProgramData m s t1) = 0" for t1
    using k at by (simp_all add: scpiLex_NondecimalNumericData_def skipChr_def ischr_def Let_def scpiLex_CharacterProgramData_def mnemonic_body_def)
  obtain t1 where 1: "scpiLex_NondecimalNumericData m s t = (0, s, t1)"
    using n(1) nondecimal.failed_state [of m s t] by (metis fst_conv prod_cases3)
  obtain t2 where 2: "scpiLex_CharacterProgramData m s t1 = (0, s, t2)"
    using n(2) [of t1] chars.failed_state [of m s t1] by (metis fst_conv prod_cases3)
  note d = decimal_with_unit [OF assms, of t2]
  show ?thesis
    using assms(4) by (auto simp: scpiParser_parseProgramData_def Let_def ws 1 2 d or_else_def split: prod.split)
qed

lemma Parameter_with_unit:
  assumes "ahead (buf_data ctx) rest (param_lex ctx) (num v @ sp @ nm @ xs)" "list_all isws sp" "list_all isalpha nm" "nm \<noteq> []"
    and "\<not> isE (hd nm)" "xs = [] \<or> hd xs = CHR '',''" "input_count ctx = 0"
  shows "\<exists>s2. SCPI_Parameter ctx mandatory =
    (True, suffixed (lex_pos (param_lex ctx)) (length (num v @ sp @ nm)), set_lex s2 (ctx\<lparr>input_count := 1\<rparr>))"
proof -
  obtain r s2 where p: "scpiParser_parseProgramData (buf_data ctx) (param_lex ctx) no_token =
      (r, s2, suffixed (lex_pos (param_lex ctx)) (length (num v @ sp @ nm)))"
    using parse_with_unit [OF assms(1-6), of no_token] by blast
  have "\<not> iseos (param_lex ctx)" using ahead_eos [OF assms(1)] by simp
  then show ?thesis
    using p assms(7) by (intro exI [of _ s2]) (simp add: SCPI_Parameter_def Let_def iseos_def set_lex_def)
qed



end
