(* ===== verification/Scpi_Commands.thy ===== *)
theory Scpi_Commands
  imports Scpi_Parser Scpi_Array
begin

text \<open>
  The common and required commands of the library (\<^verbatim>\<open>libscpi/src/ieee488.c\<close>,
  \<^verbatim>\<open>libscpi/src/minimal.c\<close>) and the table that binds them to patterns
  (\<^verbatim>\<open>examples/common/scpi-def.c\<close>). Every one keeps the contract of the parser's callbacks, so a
  device with this table processes every input; the last lemmas say what the register commands do.
\<close>

subsection \<open>Common commands\<close>

definition reg_query :: "scpi_reg_name_t \<Rightarrow> scpi_t \<Rightarrow> scpi_t" where
  "reg_query r ctx = SCPI_ResultInt32 ctx (ucast (SCPI_RegGet ctx r))"

definition SCPI_CoreEse :: "scpi_t \<Rightarrow> scpi_result_t \<times> scpi_t" where
  "SCPI_CoreEse ctx =
     (case SCPI_ParamInt32 ctx True of
        (True, Some new_ESE, ctx) \<Rightarrow> (SCPI_RES_OK, SCPI_RegSet ctx SCPI_REG_ESE (ucast new_ESE))
      | (_, _, ctx) \<Rightarrow> (SCPI_RES_ERR, ctx))"

definition SCPI_CoreEseQ :: "scpi_t \<Rightarrow> scpi_result_t \<times> scpi_t" where
  "SCPI_CoreEseQ ctx = (SCPI_RES_OK, reg_query SCPI_REG_ESE ctx)"

definition SCPI_CoreEsrQ :: "scpi_t \<Rightarrow> scpi_result_t \<times> scpi_t" where
  "SCPI_CoreEsrQ ctx = (SCPI_RES_OK, SCPI_RegSet (reg_query SCPI_REG_ESR ctx) SCPI_REG_ESR 0)"

definition SCPI_CoreIdnQ :: "scpi_t \<Rightarrow> scpi_result_t \<times> scpi_t" where
  "SCPI_CoreIdnQ ctx =
     (SCPI_RES_OK,
      fold (\<lambda>i c. case idn c ! i of Some s \<Rightarrow> SCPI_ResultMnemonic c s | None \<Rightarrow> SCPI_ResultMnemonic c ''0'') [0..<4] ctx)"

definition SCPI_CoreOpcQ :: "scpi_t \<Rightarrow> scpi_result_t \<times> scpi_t" where
  "SCPI_CoreOpcQ ctx = (SCPI_RES_OK, SCPI_ResultInt32 ctx 1)"

text \<open>The reset callback belongs to the application.\<close>

definition SCPI_CoreRst :: "(scpi_t \<Rightarrow> scpi_result_t \<times> scpi_t) \<Rightarrow> scpi_t \<Rightarrow> scpi_result_t \<times> scpi_t" where
  "SCPI_CoreRst reset ctx = (if has_reset (interface ctx) then reset ctx else (SCPI_RES_OK, ctx))"

definition SCPI_CoreSre :: "scpi_t \<Rightarrow> scpi_result_t \<times> scpi_t" where
  "SCPI_CoreSre ctx =
     (case SCPI_ParamInt32 ctx True of
        (True, Some new_SRE, ctx) \<Rightarrow> (SCPI_RES_OK, SCPI_RegSet ctx SCPI_REG_SRE (ucast new_SRE))
      | (_, _, ctx) \<Rightarrow> (SCPI_RES_ERR, ctx))"

definition SCPI_CoreSreQ :: "scpi_t \<Rightarrow> scpi_result_t \<times> scpi_t" where
  "SCPI_CoreSreQ ctx = (SCPI_RES_OK, reg_query SCPI_REG_SRE ctx)"

definition SCPI_CoreStbQ :: "scpi_t \<Rightarrow> scpi_result_t \<times> scpi_t" where
  "SCPI_CoreStbQ ctx = (SCPI_RES_OK, reg_query SCPI_REG_STB ctx)"

definition SCPI_CoreTstQ :: "scpi_t \<Rightarrow> scpi_result_t \<times> scpi_t" where
  "SCPI_CoreTstQ ctx = (SCPI_RES_OK, SCPI_ResultInt32 ctx 0)"

subsection \<open>Required commands\<close>

definition SCPI_Stub :: "scpi_t \<Rightarrow> scpi_result_t \<times> scpi_t" where
  "SCPI_Stub ctx = (SCPI_RES_OK, ctx)"

definition SCPI_StubQ :: "scpi_t \<Rightarrow> scpi_result_t \<times> scpi_t" where
  "SCPI_StubQ ctx = (SCPI_RES_OK, SCPI_ResultInt32 ctx 0)"

definition SCPI_STD_VERSION_REVISION :: string where
  "SCPI_STD_VERSION_REVISION = ''1999.0''"

definition SCPI_SystemVersionQ :: "scpi_t \<Rightarrow> scpi_result_t \<times> scpi_t" where
  "SCPI_SystemVersionQ ctx = (SCPI_RES_OK, SCPI_ResultMnemonic ctx SCPI_STD_VERSION_REVISION)"

definition SCPI_SystemErrorNextQ :: "scpi_t \<Rightarrow> scpi_result_t \<times> scpi_t" where
  "SCPI_SystemErrorNextQ ctx =
     (let (_, error, ctx1) = SCPI_ErrorPop ctx (Some \<lparr>error_code = 0\<rparr>)
      in (SCPI_RES_OK, SCPI_ResultError ctx1 (the error)))"

definition SCPI_SystemErrorCountQ :: "scpi_t \<Rightarrow> scpi_result_t \<times> scpi_t" where
  "SCPI_SystemErrorCountQ ctx = (SCPI_RES_OK, SCPI_ResultInt32 ctx (of_nat (SCPI_ErrorCount ctx)))"

definition SCPI_StatusQuestionableConditionQ :: "scpi_t \<Rightarrow> scpi_result_t \<times> scpi_t" where
  "SCPI_StatusQuestionableConditionQ ctx = (SCPI_RES_OK, reg_query SCPI_REG_QUESC ctx)"

definition SCPI_StatusQuestionableEventQ :: "scpi_t \<Rightarrow> scpi_result_t \<times> scpi_t" where
  "SCPI_StatusQuestionableEventQ ctx = (SCPI_RES_OK, SCPI_RegSet (reg_query SCPI_REG_QUES ctx) SCPI_REG_QUES 0)"

definition SCPI_StatusQuestionableEnableQ :: "scpi_t \<Rightarrow> scpi_result_t \<times> scpi_t" where
  "SCPI_StatusQuestionableEnableQ ctx = (SCPI_RES_OK, reg_query SCPI_REG_QUESE ctx)"

definition SCPI_StatusQuestionableEnable :: "scpi_t \<Rightarrow> scpi_result_t \<times> scpi_t" where
  "SCPI_StatusQuestionableEnable ctx =
     (case SCPI_ParamInt32 ctx True of
        (True, Some new_QUESE, ctx) \<Rightarrow> (SCPI_RES_OK, SCPI_RegSet ctx SCPI_REG_QUESE (ucast new_QUESE))
      | (_, _, ctx) \<Rightarrow> (SCPI_RES_OK, ctx))"

definition SCPI_StatusOperationConditionQ :: "scpi_t \<Rightarrow> scpi_result_t \<times> scpi_t" where
  "SCPI_StatusOperationConditionQ ctx = (SCPI_RES_OK, reg_query SCPI_REG_OPERC ctx)"

definition SCPI_StatusOperationEventQ :: "scpi_t \<Rightarrow> scpi_result_t \<times> scpi_t" where
  "SCPI_StatusOperationEventQ ctx = (SCPI_RES_OK, SCPI_RegSet (reg_query SCPI_REG_OPER ctx) SCPI_REG_OPER 0)"

definition SCPI_StatusOperationEnableQ :: "scpi_t \<Rightarrow> scpi_result_t \<times> scpi_t" where
  "SCPI_StatusOperationEnableQ ctx = (SCPI_RES_OK, reg_query SCPI_REG_OPERE ctx)"

definition SCPI_StatusOperationEnable :: "scpi_t \<Rightarrow> scpi_result_t \<times> scpi_t" where
  "SCPI_StatusOperationEnable ctx =
     (case SCPI_ParamInt32 ctx True of
        (True, Some new_OPERE, ctx) \<Rightarrow> (SCPI_RES_OK, SCPI_RegSet ctx SCPI_REG_OPERE (ucast new_OPERE))
      | (_, _, ctx) \<Rightarrow> (SCPI_RES_OK, ctx))"

text \<open>The table, as the example device binds the library's own commands.\<close>

definition standard_commands :: "(scpi_t \<Rightarrow> scpi_result_t \<times> scpi_t) \<Rightarrow> scpi_command_t list" where
  "standard_commands reset =
    [(''*CLS'', Some SCPI_CoreCls), (''*ESE'', Some SCPI_CoreEse), (''*ESE?'', Some SCPI_CoreEseQ),
     (''*ESR?'', Some SCPI_CoreEsrQ), (''*IDN?'', Some SCPI_CoreIdnQ), (''*OPC'', Some SCPI_CoreOpc),
     (''*OPC?'', Some SCPI_CoreOpcQ), (''*RST'', Some (SCPI_CoreRst reset)), (''*SRE'', Some SCPI_CoreSre),
     (''*SRE?'', Some SCPI_CoreSreQ), (''*STB?'', Some SCPI_CoreStbQ), (''*WAI'', Some SCPI_CoreWai),
     (''SYSTem:ERRor[:NEXT]?'', Some SCPI_SystemErrorNextQ), (''SYSTem:ERRor:COUNt?'', Some SCPI_SystemErrorCountQ),
     (''SYSTem:VERSion?'', Some SCPI_SystemVersionQ),
     (''STATus:QUEStionable[:EVENt]?'', Some SCPI_StatusQuestionableEventQ),
     (''STATus:QUEStionable:ENABle'', Some SCPI_StatusQuestionableEnable),
     (''STATus:QUEStionable:ENABle?'', Some SCPI_StatusQuestionableEnableQ),
     (''STATus:PRESet'', Some SCPI_StatusPreset)]"

subsection \<open>The commands keep the parser's contract\<close>

text \<open>What a callback must leave alone, for a step of it.\<close>

definition callback_ok :: "scpi_t \<Rightarrow> scpi_t \<Rightarrow> bool" where
  "callback_ok c d \<longleftrightarrow> keeps c d \<and> parser_state d = parser_state c"

lemma callback_ok_refl [simp]: "callback_ok c c"
  by (simp add: callback_ok_def)

lemma callback_ok_trans: "callback_ok a b \<Longrightarrow> callback_ok b c \<Longrightarrow> callback_ok a c"
  by (auto simp: callback_ok_def intro: keeps_trans)

lemma callback_ok_ErrorPush: "callback_ok c (SCPI_ErrorPush c e)"
  by (simp add: callback_ok_def keeps_ErrorPush)

lemma callback_ok_writeData: "callback_ok c (writeData c d)"
  by (simp add: callback_ok_def keepsI)

lemma callback_ok_writeDelimiter: "callback_ok c (writeDelimiter c)"
  by (simp add: writeDelimiter_def callback_ok_writeData)

lemma callback_ok_count: "callback_ok c (count_output c)"
  by (simp add: callback_ok_def count_output_def keepsI)

lemma callback_ok_RegSet: "r \<noteq> SCPI_REG_STB \<Longrightarrow> callback_ok c (SCPI_RegSet c r v)"
  by (simp add: callback_ok_def keeps_def ctx_inv_def status_inv_RegSet)

lemma callback_ok_ResultInt32: "callback_ok c (SCPI_ResultInt32 c v)"
  unfolding SCPI_ResultInt32_def resultUInt32BaseSign_def Let_def
  by (rule callback_ok_trans [OF _ callback_ok_count], rule callback_ok_trans [OF _ callback_ok_writeData])
     (auto intro: callback_ok_trans [OF callback_ok_writeDelimiter] callback_ok_writeData callback_ok_writeDelimiter
       split: option.split)

lemma callback_ok_reg_query: "callback_ok c (reg_query r c)"
  by (simp add: reg_query_def callback_ok_ResultInt32)

lemma callback_ok_Mnemonic: "callback_ok c (SCPI_ResultMnemonic c d)"
  unfolding SCPI_ResultMnemonic_def SCPI_ResultCharacters_def
  by (rule callback_ok_trans [OF callback_ok_writeDelimiter
        callback_ok_trans [OF callback_ok_writeData callback_ok_count]])

lemma callback_ok_fold: "(\<And>x d. callback_ok d (f x d)) \<Longrightarrow> callback_ok c (fold f xs c)"
  by (induction xs arbitrary: c) (auto intro: callback_ok_trans)

lemma callback_ok_set_lex: "callback_ok c (set_lex s c)" "callback_ok c (c\<lparr>input_count := n\<rparr>)"
  by (simp_all add: callback_ok_def set_lex_def keepsI)

lemma callback_ok_Parameter: "callback_ok c (snd (snd (SCPI_Parameter c mandatory)))"
proof -
  have e: "callback_ok c (SCPI_ErrorPush d e)" if "callback_ok c d" for d e
    using that callback_ok_ErrorPush callback_ok_trans by blast
  have l: "callback_ok c (set_lex s c)" "callback_ok c (set_lex s2 ((set_lex s1 c)\<lparr>input_count := n\<rparr>))" for s s1 s2 n
    by (simp_all add: callback_ok_def set_lex_def keepsI)
  show ?thesis
    by (simp add: SCPI_Parameter_def Let_def split_beta e l)
qed

lemma callback_ok_ParamInt32: "callback_ok c (snd (snd (SCPI_ParamInt32 c mandatory)))"
  unfolding SCPI_ParamInt32_def ParamSignUInt32_def
  using callback_ok_Parameter [of c mandatory]
  by (auto simp: Let_def split_beta intro: callback_ok_trans callback_ok_ErrorPush)

lemmas callback_ok_steps =
  callback_ok_RegSet callback_ok_ResultInt32 callback_ok_reg_query callback_ok_Mnemonic callback_ok_ParamInt32

text \<open>A register command with one parameter.\<close>

lemma callback_ok_reg_write:
  assumes "r \<noteq> SCPI_REG_STB"
  shows "callback_ok c (snd (case SCPI_ParamInt32 c True of
     (True, Some v, d) \<Rightarrow> (ok, SCPI_RegSet d r (ucast v)) | (_, _, d) \<Rightarrow> (err, d)))"
proof -
  obtain b v d where e: "SCPI_ParamInt32 c True = (b, v, d)" by (metis prod_cases3)
  then have "callback_ok c d" using callback_ok_ParamInt32 [of c True] by simp
  then show ?thesis using callback_ok_trans [OF _ callback_ok_RegSet [OF assms]]
    by (auto simp: e split: bool.split option.split)
qed

lemma callback_ok_reg_clear: "r \<noteq> SCPI_REG_STB \<Longrightarrow> callback_ok c (SCPI_RegSet (reg_query q c) r 0)"
  by (rule callback_ok_trans [OF callback_ok_reg_query callback_ok_RegSet])

lemma ErrorEmitEmpty_frame:
  "buf_data (SCPI_ErrorEmitEmpty c) = buf_data c" "buf_length (SCPI_ErrorEmitEmpty c) = buf_length c"
  "buf_position (SCPI_ErrorEmitEmpty c) = buf_position c" "parser_state (SCPI_ErrorEmitEmpty c) = parser_state c"
  by (simp_all add: SCPI_ErrorEmitEmpty_def call_error_def emit_def)

lemma callback_ok_ErrorClear: "callback_ok c (SCPI_ErrorClear c)"
  by (simp add: callback_ok_def keeps_def ctx_inv_def status_inv_ErrorClear)
     (simp add: SCPI_ErrorClear_def ErrorEmitEmpty_frame)

lemma callback_ok_Cls: "callback_ok c (snd (SCPI_CoreCls c))"
  unfolding SCPI_CoreCls_def Let_def snd_conv
  by (rule callback_ok_trans [OF callback_ok_ErrorClear callback_ok_fold])
     (auto intro: callback_ok_RegSet)

lemma callback_ok_ErrorPop: "callback_ok c (snd (snd (SCPI_ErrorPop c e)))"
  by (simp add: callback_ok_def keeps_def ctx_inv_def status_inv_ErrorPop)
     (auto simp: SCPI_ErrorPop_def ErrorEmitEmpty_frame split_beta Let_def split: option.split)

lemma callback_ok_error_text: "callback_ok c (fst (error_text_loop c d n))"
proof (induction c d n rule: error_text_loop.induct)
  case (1 c d n)
  have w: "callback_ok c (writeData (writeData c x) y)" for x y
    by (rule callback_ok_trans [OF callback_ok_writeData callback_ok_writeData])
  show ?case
  proof (cases "strnpbrk d quote_char")
    case None
    then show ?thesis by (subst error_text_loop.simps) simp
  next
    case (Some q)
    show ?thesis
    proof (cases "q + 1 \<ge> n")
      case True
      then show ?thesis using Some by (subst error_text_loop.simps) (simp add: Let_def)
    next
      case False
      from callback_ok_trans [OF w 1 [OF Some refl False refl refl]] show ?thesis
        using Some False by (subst error_text_loop.simps) (simp add: Let_def)
    qed
  qed
qed

lemma callback_ok_ResultError: "callback_ok c (SCPI_ResultError c e)"
  unfolding SCPI_ResultError_def Let_def split_beta
  by (intro callback_ok_trans [OF _ callback_ok_writeData] callback_ok_trans [OF _ callback_ok_error_text]
      callback_ok_trans [OF _ callback_ok_writeDelimiter] callback_ok_ResultInt32)

lemma callback_ok_ErrorNext: "callback_ok c (snd (SCPI_SystemErrorNextQ c))"
  using callback_ok_trans [OF callback_ok_ErrorPop callback_ok_ResultError]
  by (simp add: SCPI_SystemErrorNextQ_def Let_def split_beta)

lemma callback_ok_Idn: "callback_ok c (snd (SCPI_CoreIdnQ c))"
  unfolding SCPI_CoreIdnQ_def snd_conv
  by (rule callback_ok_fold) (auto intro: callback_ok_Mnemonic split: option.split)

lemma standard_commands_ok:
  assumes "\<And>c. callback_ok c (snd (reset c))" "(pat, Some f) \<in> set (standard_commands reset)"
  shows "callback_ok c (snd (f c))"
  using assms(2) unfolding standard_commands_def
  by (auto simp: SCPI_CoreEseQ_def SCPI_CoreEsrQ_def SCPI_CoreOpc_def SCPI_CoreOpcQ_def SCPI_CoreRst_def
      SCPI_CoreSreQ_def SCPI_CoreStbQ_def SCPI_CoreWai_def SCPI_SystemErrorCountQ_def SCPI_SystemVersionQ_def
      SCPI_StatusQuestionableEventQ_def SCPI_StatusQuestionableEnableQ_def SCPI_StatusPreset_def SCPI_RegSetBits_def
      SCPI_CoreEse_def SCPI_CoreSre_def SCPI_StatusQuestionableEnable_def
      intro!: callback_ok_reg_write callback_ok_Cls callback_ok_reg_query callback_ok_reg_clear callback_ok_Idn
        callback_ok_ResultInt32 callback_ok_RegSet callback_ok_ErrorNext callback_ok_Mnemonic assms(1))

text \<open>The table is a list of callbacks as the parser expects them, whatever the application's reset
  does inside the contract; here with a reset that does nothing.\<close>

lemma standard_callbacks:
  assumes "\<And>c. callback_ok c (snd (reset c))"
  shows "callbacks (standard_commands reset)"
  using standard_commands_ok [OF assms] unfolding callback_ok_def by unfold_locales

interpretation std: callbacks "standard_commands SCPI_Stub"
  by (rule standard_callbacks) (simp add: SCPI_Stub_def)

text \<open>A device with the standard commands processes every input, however malformed: the call
  returns, the buffer keeps its size with the position inside it, and the status byte still
  agrees with the error queue.\<close>

theorem standard_device_total:
  assumes "ctx_inv ctx"
  shows "\<exists>res ctx'. SCPI_Input (standard_commands SCPI_Stub) ctx data = Some (res, ctx') \<and> ctx_inv ctx' \<and>
    buf_length ctx' = buf_length ctx"
  using assms by (rule std.SCPI_Input_returns)

definition demo_device :: scpi_t where
  "demo_device = SCPI_Init (interface (demo_ctx [])) [Some ''ACME'', None, Some ''7'', Some ''01-02'']
     (replicate 16 NUL) [\<lparr>error_code = 0\<rparr>] 1"

lemma demo_device_inv: "ctx_inv demo_device"
  using SCPI_Init_inv [of "replicate 16 NUL" "[\<lparr>error_code = 0\<rparr>]"] by (simp add: demo_device_def)

lemma standard_device_total_witness:
  "\<exists>res c. SCPI_Input (standard_commands SCPI_Stub) demo_device ''*ESE 4'' = Some (res, c) \<and> ctx_inv c"
  using standard_device_total [OF demo_device_inv, of "''*ESE 4''"] by blast

subsection \<open>What the commands do\<close>

lemma bit_summary:
  "bit STB_ESR n \<longleftrightarrow> n = 5" "bit STB_OPS n \<longleftrightarrow> n = 7" "bit STB_QES n \<longleftrightarrow> n = 3"
proof -
  have b: "STB_ESR = push_bit 5 1" "STB_OPS = push_bit 7 1" "STB_QES = push_bit 3 1" by (simp_all add: reg_defs)
  show "bit STB_ESR n \<longleftrightarrow> n = 5" "bit STB_OPS n \<longleftrightarrow> n = 7" "bit STB_QES n \<longleftrightarrow> n = 3"
    unfolding b bit_push_bit_iff bit_1_iff by auto
qed

text \<open>C9: A change of an event register sets its summary bit in the status byte exactly when an enabled
  event is pending, and leaves the other bits of the status byte, except the request bit, as they
  were.\<close>

theorem event_summary:
  assumes "(r, en, k) \<in> {(SCPI_REG_ESR, SCPI_REG_ESE, 5), (SCPI_REG_OPER, SCPI_REG_OPERE, 7), (SCPI_REG_QUES, SCPI_REG_QUESE, 3)}"
    and "v \<noteq> registers c r" "n \<noteq> 6"
  shows "bit (registers (SCPI_RegSet c r v) SCPI_REG_STB) n =
    (if n = k then v AND registers c en \<noteq> 0 else bit (registers c SCPI_REG_STB) n)"
proof -
  have lt: "bit (registers c SCPI_REG_STB) n \<Longrightarrow> n < 16" by (auto dest: bit_imp_le_length)
  consider "r = SCPI_REG_ESR" "en = SCPI_REG_ESE" "k = 5" | "r = SCPI_REG_OPER" "en = SCPI_REG_OPERE" "k = 7"
    | "r = SCPI_REG_QUES" "en = SCPI_REG_QUESE" "k = 3" using assms(1) by auto
  then show ?thesis
    using assms(2,3) lt
    by cases ((subst SCPI_RegSet.simps, auto simp: Let_def reg_type_def reg_group_def RegSet_STB_bit SCPI_RegGet_def
        bit_summary bit_or_iff bit_and_iff bit_not_iff)[1])+
qed

lemma event_summary_witness:
  "bit (registers (SCPI_RegSet demo_device SCPI_REG_ESR 1) SCPI_REG_STB) 5 = (1 AND registers demo_device SCPI_REG_ESE \<noteq> 0)"
proof -
  have "registers demo_device SCPI_REG_ESR = 0"
    by (simp add: demo_device_def SCPI_Init_def SCPI_ErrorInit_def)
  then show ?thesis using event_summary [of SCPI_REG_ESR SCPI_REG_ESE 5 1 demo_device 5] by simp
qed

text \<open>A change of an enable register is not followed by its summary bit: after an event is recorded
  with the register disabled, enabling it leaves the summary bit of the status byte clear although
  an enabled event is pending.\<close>

theorem enable_leaves_summary_stale:
  assumes "registers c SCPI_REG_ESR = 0" "registers c SCPI_REG_ESE = 0" "v \<noteq> 0"
  shows "let d = SCPI_RegSet (SCPI_RegSet c SCPI_REG_ESR v) SCPI_REG_ESE v
    in registers d SCPI_REG_ESR AND registers d SCPI_REG_ESE = v \<and> \<not> bit (registers d SCPI_REG_STB) 5"
proof -
  define e where "e = SCPI_RegSet c SCPI_REG_ESR v"
  have e: "registers e SCPI_REG_ESR = v" "registers e SCPI_REG_ESE = 0"
    using RegSet_event(1,2) [of SCPI_REG_ESR] assms(2) by (simp_all add: e_def reg_type_def)
  have s: "\<not> bit (registers e SCPI_REG_STB) 5"
    using assms unfolding e_def
    by (subst SCPI_RegSet.simps)
       (simp add: Let_def reg_type_def reg_group_def RegSet_STB_bit SCPI_RegGet_def bit_and_iff bit_not_iff bit_summary)
  have d: "SCPI_RegSet e SCPI_REG_ESE v = reg_put SCPI_REG_ESE v e"
    using e assms(3) by (subst SCPI_RegSet.simps) (simp add: Let_def reg_type_def)
  show ?thesis using e s unfolding e_def [symmetric] d Let_def by simp
qed

lemma enable_leaves_summary_stale_witness:
  "let d = SCPI_RegSet (SCPI_RegSet demo_device SCPI_REG_ESR 1) SCPI_REG_ESE 1
    in registers d SCPI_REG_ESR AND registers d SCPI_REG_ESE = 1 \<and> \<not> bit (registers d SCPI_REG_STB) 5"
  by (rule enable_leaves_summary_stale) (simp_all add: demo_device_def SCPI_Init_def SCPI_ErrorInit_def)

text \<open>\<^verbatim>\<open>*IDN?\<close> as a first result writes the four identification fields, a zero for each that is missing,
  separated by commas.\<close>

theorem idn_output:
  assumes "output_count ctx = 0" "length (idn ctx) = 4"
  shows "output_of (snd (SCPI_CoreIdnQ ctx)) =
    output_of ctx @ commas (map (\<lambda>f. case f of Some s \<Rightarrow> s | None \<Rightarrow> ''0'') (idn ctx))"
proof -
  define field :: "string option \<Rightarrow> string" where "field = (\<lambda>f. case f of Some s \<Rightarrow> s | None \<Rightarrow> ''0'')"
  define put where "put = (\<lambda>i c. SCPI_ResultMnemonic c (field (idn ctx ! i)))"
  have m: "output_of (SCPI_ResultMnemonic c s) = output_of c @ (if output_count c > 0 then '','' else []) @ s"
    "output_count (SCPI_ResultMnemonic c s) = output_count c + 1" "idn (SCPI_ResultMnemonic c s) = idn c" for c s
    by (simp_all add: SCPI_ResultMnemonic_def SCPI_ResultCharacters_def writeDelimiter_def count_output_def
        writeData_def emit_def output_of_def)
  have all: "idn (fold put [0..<n] ctx) = idn ctx \<and> output_count (fold put [0..<n] ctx) = int n \<and>
      output_of (fold put [0..<n] ctx) = output_of ctx @ commas (map (\<lambda>i. field (idn ctx ! i)) [0..<n])" for n
    by (induction n) (auto simp: assms(1) put_def m commas_snoc)
  define f where "f = (\<lambda>i c. case idn c ! i of Some s \<Rightarrow> SCPI_ResultMnemonic c s | None \<Rightarrow> SCPI_ResultMnemonic c ''0'')"
  have step: "f i c = put i c" if "idn c = idn ctx" for i c
    using that by (simp add: f_def put_def field_def split: option.split)
  have fold: "fold f [0..<n] ctx = fold put [0..<n] ctx" for n
    by (induction n) (simp_all add: all step)
  have "map (\<lambda>i. field (idn ctx ! i)) [0..<4] = map field (map ((!) (idn ctx)) [0..<length (idn ctx)])"
    using assms(2) by simp
  then have "map (\<lambda>i. field (idn ctx ! i)) [0..<4] = map field (idn ctx)" by (simp only: map_nth)
  then show ?thesis using all [of 4] fold [of 4] by (simp add: SCPI_CoreIdnQ_def field_def f_def)
qed

lemma idn_output_witness:
  "output_of (snd (SCPI_CoreIdnQ demo_device)) = output_of demo_device @ ''ACME,0,7,01-02''"
proof -
  have "output_count demo_device = 0" "length (idn demo_device) = 4"
    "idn demo_device = [Some ''ACME'', None, Some ''7'', Some ''01-02'']"
    by (simp_all add: demo_device_def SCPI_Init_def SCPI_ErrorInit_def)
  then show ?thesis using idn_output [of demo_device] by simp
qed

lemma output_of_reg [simp]:
  "output_of (reg_put r v c) = output_of c" "output_of (writeControl v c) = output_of c"
  "output_of (update_srq ov v c) = output_of c"
  by (simp_all add: output_of_def reg_put_def writeControl_def update_srq_def emit_def Let_def)

lemma output_of_emit: "output_of (emit e c) = output_of c @ (case e of EvWrite d \<Rightarrow> d | _ \<Rightarrow> [])" "output_count (emit e c) = output_count c"
  by (simp_all add: output_of_def emit_def)

lemma output_of_RegSet: "output_of (SCPI_RegSet c r v) = output_of c"
proof (induction c r v rule: SCPI_RegSet.induct)
  case (1 ctx name val)
  show ?case
    using 1 by (subst SCPI_RegSet.simps) (auto simp: Let_def split: scpi_reg_class_t.split)
qed

lemma output_of_ErrorEmitEmpty:
  "output_of (SCPI_ErrorEmitEmpty c) = output_of c" "output_count (SCPI_ErrorEmitEmpty c) = output_count c"
  by (simp_all add: SCPI_ErrorEmitEmpty_def SCPI_RegClearBits_def output_of_RegSet call_error_def output_of_emit)

lemma ErrorTranslate_plain: "strnpbrk (SCPI_ErrorTranslate n) quote_char = None" "length (SCPI_ErrorTranslate n) \<le> 255"
  by (simp_all add: SCPI_ErrorTranslate_def quote_char_def)

lemma ResultError_output:
  assumes "output_count c \<ge> 0"
  shows "output_of (SCPI_ResultError c e) = output_of c @ (if output_count c > 0 then '','' else []) @
     SCPI_Int32ToStr (word_of_int (error_code e)) 33 @ '','' @ quote_char @ SCPI_ErrorTranslate (error_code e) @ quote_char"
    and "error_queue (SCPI_ResultError c e) = error_queue c"
proof -
  let ?t = "SCPI_ErrorTranslate (error_code e)"
  have t: "take SCPI_STD_ERROR_DESC_MAX_STRING_LENGTH ?t = ?t"
    using ErrorTranslate_plain(2) by (simp add: SCPI_STD_ERROR_DESC_MAX_STRING_LENGTH_def)
  have l: "error_text_loop d ?t n = (d, ?t)" for d n
    by (subst error_text_loop.simps) (simp add: ErrorTranslate_plain(1))
  have q: "error_queue (writeDelimiter d) = error_queue d" "error_queue (count_output d) = error_queue d" for d
    by (simp_all add: writeDelimiter_def count_output_def)
  show "error_queue (SCPI_ResultError c e) = error_queue c"
    by (simp add: SCPI_ResultError_def Let_def t l q SCPI_ResultInt32_def resultUInt32BaseSign_def)
  show "output_of (SCPI_ResultError c e) = output_of c @ (if output_count c > 0 then '','' else []) @
     SCPI_Int32ToStr (word_of_int (error_code e)) 33 @ '','' @ quote_char @ SCPI_ErrorTranslate (error_code e) @ quote_char"
    using assms by (simp add: SCPI_ResultError_def Let_def t l writeDelimiter_def ResultInt32_output)
qed

text \<open>C10: \<^verbatim>\<open>SYSTem:ERRor[:NEXT]?\<close> as a first result writes the code of the oldest error and its description
  in quotes, or code 0 when no error waits, and takes that error off the queue.\<close>

theorem error_next_output:
  assumes "output_count ctx = 0" "fifo_inv (error_queue ctx)"
  shows "let err = (case fifo_list (error_queue ctx) of [] \<Rightarrow> 0 | e # _ \<Rightarrow> error_code e);
             ctx' = snd (SCPI_SystemErrorNextQ ctx)
    in output_of ctx' = output_of ctx @ SCPI_Int32ToStr (word_of_int err) 33 @ '','' @ quote_char @
         SCPI_ErrorTranslate err @ quote_char \<and>
       fifo_list (error_queue ctx') = tl (fifo_list (error_queue ctx))"
proof -
  obtain b e c where p: "SCPI_ErrorPop ctx (Some \<lparr>error_code = 0\<rparr>) = (b, e, c)" by (metis prod_cases3)
  note q = ErrorPop_queue [OF assms(2) p]
  define err where "err = (case fifo_list (error_queue ctx) of [] \<Rightarrow> 0 | e # _ \<Rightarrow> error_code e)"
  have e: "error_code (the e) = err" using q(4) by (auto simp: err_def simp del: fifo_list_empty split: list.split)
  have c: "output_of c = output_of ctx" "output_count c = 0"
    using q(5) assms(1) by (auto simp: output_of_ErrorEmitEmpty) (simp add: output_of_def)
  have s: "snd (SCPI_SystemErrorNextQ ctx) = SCPI_ResultError c (the e)" by (simp add: SCPI_SystemErrorNextQ_def p)
  show ?thesis
    using ResultError_output [of c "the e"] c e q(3) unfolding s err_def [symmetric] Let_def by simp
qed

lemma error_next_output_witness:
  "output_of (snd (SCPI_SystemErrorNextQ demo_device)) = output_of demo_device @ SCPI_Int32ToStr 0 33 @ '','' @
     quote_char @ ''No error'' @ quote_char"
proof -
  have "fifo_inv (error_queue demo_device)" using demo_device_inv by (simp add: ctx_inv_def status_inv_def)
  moreover have "output_count demo_device = 0" "fifo_list (error_queue demo_device) = []"
    by (simp_all add: demo_device_def SCPI_Init_def SCPI_ErrorInit_def fifo_init_def)
  moreover have "SCPI_ErrorTranslate 0 = ''No error''" by (simp add: SCPI_ErrorTranslate_def)
  ultimately show ?thesis using error_next_output [of demo_device] by (simp add: Let_def del: fifo_list_empty)
qed

end
