(* ===== verification/Scpi_Heap.thy ===== *)
theory Scpi_Heap
  imports Scpi_Match "HOL-Library.Monad_Syntax"
begin

text \<open>
  The heap for the additional text of errors, \<^verbatim>\<open>libscpi/src/utils.c\<close>, which builds without \<^verbatim>\<open>malloc\<close>
  use. Strings are allocated behind each other in one circular buffer, each with its terminator; free bytes are zero.
  A pointer into the buffer is its index, a null pointer \<open>None\<close>; lengths are natural numbers. Every access to memory is
  checked: an operation that reads or writes past the end of the buffer, or reads past the bytes behind the
  argument, gives \<open>None\<close>. The lemmas view the heap as the list of the strings that live in it, oldest first.
\<close>

subsection \<open>Memory\<close>

definition byte_at :: "string \<Rightarrow> nat \<Rightarrow> char option" where
  "byte_at m i = (if i < length m then Some (m ! i) else None)"

definition strnlen_mem :: "string \<Rightarrow> nat \<Rightarrow> nat option" where
  "strnlen_mem m n = (if NUL \<notin> set (take n m) \<and> length m < n then None else Some (BSD_strnlen m n))"

definition memcpy_mem :: "string \<Rightarrow> nat \<Rightarrow> string \<Rightarrow> nat \<Rightarrow> string option" where
  "memcpy_mem m d s n =
     (if d + n \<le> length m \<and> n \<le> length s then Some (take d m @ take n s @ drop (d + n) m) else None)"

definition memset_mem :: "string \<Rightarrow> nat \<Rightarrow> char \<Rightarrow> nat \<Rightarrow> string option" where
  "memset_mem m d c n = memcpy_mem m d (replicate n c) n"

definition store_mem :: "string \<Rightarrow> nat \<Rightarrow> char \<Rightarrow> string option" where
  "store_mem m i c = (if i < length m then Some (m[i := c]) else None)"

subsection \<open>The heap\<close>

record scpi_error_info_heap_t =
  heap_wr :: nat
  heap_count :: nat
  heap_size :: nat
  heap_data :: string

definition scpiheap_init :: "string \<Rightarrow> nat \<Rightarrow> scpi_error_info_heap_t option" where
  "scpiheap_init error_info_heap error_info_heap_length =
     do { d \<leftarrow> memset_mem error_info_heap 0 NUL error_info_heap_length;
          Some \<lparr>heap_wr = 0, heap_count = error_info_heap_length, heap_size = error_info_heap_length, heap_data = d\<rparr> }"

text \<open>The string is given by the bytes that can be read behind the pointer. The heap is part of the context, so
  its own pointer is never null.\<close>

definition scpiheap_strndup ::
  "scpi_error_info_heap_t \<Rightarrow> string option \<Rightarrow> nat \<Rightarrow> (nat option \<times> scpi_error_info_heap_t) option" where
  "scpiheap_strndup h s n =
     (case s of None \<Rightarrow> Some (None, h)
      | Some str \<Rightarrow>
          if heap_size h = 0 then Some (None, h)
          else do { c \<leftarrow> byte_at (heap_data h) (heap_wr h);
            if c \<noteq> NUL then Some (None, h)
            else do { c0 \<leftarrow> byte_at str 0;
              if c0 = NUL then Some (None, h)
              else do { l \<leftarrow> strnlen_mem str n;
                let len = l + 1;
                if len > heap_count h then Some (None, h)
                else do { let head = heap_wr h;
                  let rem = heap_size h - heap_wr h;
                  (h1, ptrs, len1) \<leftarrow>
                    (if len \<ge> rem
                     then do { d \<leftarrow> memcpy_mem (heap_data h) (heap_wr h) str rem;
                               Some (h\<lparr>heap_data := d, heap_wr := 0, heap_count := heap_count h - rem\<rparr>, drop rem str, len - rem) }
                     else Some (h, str, len));
                  d1 \<leftarrow> memcpy_mem (heap_data h1) (heap_wr h1) ptrs len1;
                  let h2 = h1\<lparr>heap_data := d1, heap_wr := heap_wr h1 + len1, heap_count := heap_count h1 - len1\<rparr>;
                  d2 \<leftarrow> store_mem (heap_data h2) (if heap_wr h2 > 0 then heap_wr h2 - 1 else heap_size h2 - 1) NUL;
                  Some (Some head, h2\<lparr>heap_data := d2\<rparr>) } } } })"

text \<open>The result is \<open>Some None\<close> where the code returns \<^verbatim>\<open>FALSE\<close> and leaves its outputs alone, and otherwise the
  length of the first part, the second part and its length.\<close>

definition scpiheap_get_parts ::
  "scpi_error_info_heap_t \<Rightarrow> nat option \<Rightarrow> (nat \<times> nat option \<times> nat) option option" where
  "scpiheap_get_parts h s =
     (case s of None \<Rightarrow> Some None
      | Some p \<Rightarrow>
          do { c \<leftarrow> byte_at (heap_data h) p;
            if c = NUL then Some None
            else do { let rem = heap_size h - p;
              len1 \<leftarrow> strnlen_mem (drop p (heap_data h)) rem;
              if int p + int len1 - 1 = int (heap_size h) - 1
              then do { len2 \<leftarrow> strnlen_mem (heap_data h) (heap_size h);
                        Some (Some (len1, Some 0, len2)) }
              else Some (Some (len1, None, 0)) } })"

definition scpiheap_free ::
  "scpi_error_info_heap_t \<Rightarrow> nat option \<Rightarrow> bool \<Rightarrow> scpi_error_info_heap_t option" where
  "scpiheap_free h s rollback =
     (case s of None \<Rightarrow> Some h
      | Some p \<Rightarrow>
          do { parts \<leftarrow> scpiheap_get_parts h (Some p);
            case parts of None \<Rightarrow> Some h
            | Some (len0, data_add, len1) \<Rightarrow>
                do { (h1, len0', len1') \<leftarrow>
                  (case data_add of
                     Some a \<Rightarrow> do { d \<leftarrow> memset_mem (heap_data h) a NUL (len1 + 1);
                                    Some (h\<lparr>heap_data := d, heap_count := heap_count h + (len1 + 1)\<rparr>, len0, len1 + 1) }
                   | None \<Rightarrow> Some (h, len0 + 1, len1));
                  d \<leftarrow> memset_mem (heap_data h1) p NUL len0';
                  let h2 = h1\<lparr>heap_data := d, heap_count := heap_count h1 + len0'\<rparr>;
                  if heap_count h2 = heap_size h2 then Some (h2\<lparr>heap_wr := 0\<rparr>)
                  else if rollback
                  then let rb = len0' + len1'; wr = (if rb > heap_wr h2 then heap_wr h2 + heap_size h2 else heap_wr h2)
                       in Some (h2\<lparr>heap_wr := wr - rb\<rparr>)
                  else Some h2 } })"

subsection \<open>Writing around the end of the buffer\<close>

definition ring_put :: "string \<Rightarrow> nat \<Rightarrow> string \<Rightarrow> string" where
  "ring_put m w xs =
     map (\<lambda>j. let k = (if w \<le> j then j - w else j + length m - w) in if k < length xs then xs ! k else m ! j) [0..<length m]"

lemma length_ring_put [simp]: "length (ring_put m w xs) = length m"
  by (simp add: ring_put_def)

lemma nth_ring_put:
  "j < length m \<Longrightarrow> ring_put m w xs ! j =
     (let k = (if w \<le> j then j - w else j + length m - w) in if k < length xs then xs ! k else m ! j)"
  by (simp add: ring_put_def Let_def)

lemma ring_offset:
  fixes p n t l i :: nat
  assumes "i < n" "t + l \<le> n" "0 < n"
  defines "w \<equiv> (p + t) mod n" and "j \<equiv> (p + i) mod (n::nat)"
  shows "(if w \<le> j then j - w else j + n - w) < l \<longleftrightarrow> t \<le> i \<and> i < t + l"
    and "t \<le> i \<Longrightarrow> i < t + l \<Longrightarrow> (if w \<le> j then j - w else j + n - w) = i - t"
proof -
  define k where "k = (if w \<le> j then j - w else j + n - w)"
  have jw: "j < n" "w < n" using assms(3) by (simp_all add: j_def w_def)
  have "(w + k) mod n = j" using jw by (auto simp: k_def)
  moreover have "(w + k) mod n = (p + (t + k)) mod n" by (simp add: w_def mod_simps ac_simps)
  ultimately have e: "(p + (t + k)) mod n = (p + i) mod n" by (simp add: j_def)
  have kn: "k < n" using jw by (auto simp: k_def)
  have c: "t + k = i \<or> t + k = i + n"
  proof (cases "i \<le> t + k")
    case True
    then have "n dvd t + k - i" using e mod_eq_dvd_iff_nat [of "p + i" "p + (t + k)" n] by simp
    then obtain m where m: "t + k - i = n * m" by blast
    moreover have "n * m < n * 2" using m kn assms(2) True by linarith
    ultimately show ?thesis using True assms(3) by (cases m) (auto simp: less_2_cases_iff)
  next
    case False
    then have "n dvd i - (t + k)" using e mod_eq_dvd_iff_nat [of "p + (t + k)" "p + i" n] by simp
    then show ?thesis using False assms(1) by (auto dest: dvd_imp_le)
  qed
  show "k < l \<longleftrightarrow> t \<le> i \<and> i < t + l" using c assms(1,2) kn by auto
  show "t \<le> i \<Longrightarrow> i < t + l \<Longrightarrow> k = i - t" using c assms(1,2) kn by auto
qed

text \<open>What a write does to the buffer as seen from position \<open>p\<close> on.\<close>

lemma rotate_ring_put:
  assumes "t + length xs \<le> length m"
  shows "rotate p (ring_put m ((p + t) mod length m) xs) =
    take t (rotate p m) @ xs @ drop (t + length xs) (rotate p m)"
proof (cases "length m = 0")
  case True
  then show ?thesis using assms by (simp add: ring_put_def)
next
  case False
  show ?thesis
  proof (rule nth_equalityI)
    fix i assume "i < length (rotate p (ring_put m ((p + t) mod length m) xs))"
    then have i: "i < length m" by simp
    let ?j = "(p + i) mod length m" and ?w = "(p + t) mod length m"
    note o = ring_offset [OF i assms, where p = p]
    have j: "?j < length m" using False by simp
    have "rotate p (ring_put m ?w xs) ! i = ring_put m ?w xs ! ?j" using i by (simp add: nth_rotate)
    also have "\<dots> = (if t \<le> i \<and> i < t + length xs then xs ! (i - t) else m ! ?j)"
      using False o nth_ring_put [OF j, of ?w xs] by (simp add: Let_def)
    also have "\<dots> = (take t (rotate p m) @ xs @ drop (t + length xs) (rotate p m)) ! i"
      using i assms by (auto simp: nth_append nth_rotate)
    finally show "rotate p (ring_put m ?w xs) ! i = (take t (rotate p m) @ xs @ drop (t + length xs) (rotate p m)) ! i" .
  qed (use assms in simp)
qed

lemma memcpy_mem_put:
  assumes "w + n \<le> length m" "n \<le> length s"
  shows "memcpy_mem m w s n = Some (ring_put m w (take n s))"
proof -
  have "take w m @ take n s @ drop (w + n) m = ring_put m w (take n s)"
    using assms by (intro nth_equalityI) (auto simp: nth_ring_put Let_def nth_append)
  then show ?thesis using assms by (simp add: memcpy_mem_def)
qed

lemma ring_put_split:
  assumes "w < length m" "length m \<le> w + length xs" "length xs \<le> length m"
  shows "ring_put (ring_put m w (take (length m - w) xs)) 0 (drop (length m - w) xs) = ring_put m w xs"
  using assms by (intro nth_equalityI) (auto simp: nth_ring_put Let_def min_def add.commute)

lemma ring_put_last:
  assumes "w < length m" "xs \<noteq> []" "length xs \<le> length m"
  shows "(ring_put m w xs)[(w + length xs + length m - 1) mod length m := c] = ring_put m w (butlast xs @ [c])"
proof (intro nth_equalityI)
  fix j assume "j < length ((ring_put m w xs)[(w + length xs + length m - 1) mod length m := c])"
  then have j: "j < length m" by simp
  have l: "(w + length xs + length m - 1) mod length m =
      (if w + length xs \<le> length m then w + length xs - 1 else w + length xs - 1 - length m)"
    using assms by (cases xs) (auto simp: mod_if)
  let ?k = "if w \<le> j then j - w else j + length m - w" and ?j = "(w + length xs + length m - 1) mod length m"
  have e: "?j = j \<longleftrightarrow> ?k = length xs - 1"
    using assms j unfolding l by (cases xs) auto
  have "?j < length m" using j by (cases "length m") (auto intro: mod_less_divisor)
  then have "(ring_put m w xs)[?j := c] ! j = (if ?k = length xs - 1 then c else if ?k < length xs then xs ! ?k else m ! j)"
    using j e by (simp add: nth_list_update nth_ring_put Let_def)
  also have "\<dots> = ring_put m w (butlast xs @ [c]) ! j"
    using assms(2) j by (auto simp add: nth_ring_put Let_def nth_append nth_butlast)
  finally show "(ring_put m w xs)[?j := c] ! j = ring_put m w (butlast xs @ [c]) ! j" .
qed simp

subsection \<open>The strings in the heap\<close>

definition heap_cells :: "string list \<Rightarrow> string" where
  "heap_cells ss = concat (map (\<lambda>s. s @ [NUL]) ss)"

lemma heap_cells_simps [simp]:
  "heap_cells [] = []" "heap_cells (s # ss) = s @ NUL # heap_cells ss"
  "heap_cells (xs @ ys) = heap_cells xs @ heap_cells ys"
  by (simp_all add: heap_cells_def)

text \<open>The heap holds the strings \<open>ss\<close> behind each other from position \<open>p\<close> on, and zeroes after them.\<close>

definition heap_rep :: "scpi_error_info_heap_t \<Rightarrow> nat \<Rightarrow> string list \<Rightarrow> bool" where
  "heap_rep h p ss \<longleftrightarrow>
     length (heap_data h) = heap_size h \<and> p < heap_size h \<and> (\<forall>s \<in> set ss. s \<noteq> [] \<and> NUL \<notin> set s) \<and>
     length (heap_cells ss) \<le> heap_size h \<and> heap_wr h = (p + length (heap_cells ss)) mod heap_size h \<and>
     heap_count h = heap_size h - length (heap_cells ss) \<and>
     rotate p (heap_data h) = heap_cells ss @ replicate (heap_size h - length (heap_cells ss)) NUL"

lemma scpiheap_init_rep:
  assumes "length buf = n" "0 < n"
  shows "\<exists>h. scpiheap_init buf n = Some h \<and> heap_rep h 0 [] \<and> heap_size h = n"
  using assms by (simp add: scpiheap_init_def memset_mem_def memcpy_mem_def heap_rep_def)

lemma strnlen_takeWhile: "BSD_strnlen s n = length (takeWhile (\<lambda>c. c \<noteq> NUL) (take n s))"
  by (induction s n rule: BSD_strnlen.induct) auto

text \<open>The string the code sees behind a pointer, up to \<open>n\<close> bytes.\<close>

definition bounded_text :: "string \<Rightarrow> nat \<Rightarrow> string" where
  "bounded_text str n = takeWhile (\<lambda>c. c \<noteq> NUL) (take n str)"

lemma bounded_text_no_NUL [simp]: "NUL \<notin> set (bounded_text str n)"
  by (auto simp: bounded_text_def dest: set_takeWhileD)

lemma strnlen_mem_text: "NUL \<in> set str \<or> n \<le> length str \<Longrightarrow> strnlen_mem str n = Some (length (bounded_text str n))"
  by (cases "NUL \<in> set (take n str)")
     (auto simp: strnlen_mem_def strnlen_takeWhile bounded_text_def not_le)

lemma bounded_text_prefix: "take (length (bounded_text str n)) str = bounded_text str n"
proof -
  have "bounded_text str n = take (length (bounded_text str n)) (take n str)"
    unfolding bounded_text_def by (metis takeWhile_eq_take)
  moreover have "length (bounded_text str n) \<le> n" unfolding bounded_text_def using length_takeWhile_le [of _ "take n str"]
    by (metis (no_types) dual_order.trans length_take min.cobounded2)
  ultimately show ?thesis by (metis min.absorb1 take_take)
qed

lemma heap_rep_nth:
  assumes "heap_rep h p ss" "i < heap_size h"
  shows "heap_data h ! ((p + i) mod heap_size h) = (heap_cells ss @ replicate (heap_size h - length (heap_cells ss)) NUL) ! i"
  using assms nth_rotate [of i "heap_data h" p] by (simp add: heap_rep_def)

text \<open>A write at the end of the strings, as the code does it in one or two pieces.\<close>

lemma ring_write:
  assumes "length (heap_data h) = heap_size h" "heap_wr h < heap_size h" "xs \<noteq> []" "length xs \<le> heap_size h"
    "length xs \<le> heap_count h" "length xs \<le> length str" "take (length xs) str = xs"
  shows "do { (h1, ptrs, len1) \<leftarrow>
        (if length xs \<ge> heap_size h - heap_wr h
         then do { d \<leftarrow> memcpy_mem (heap_data h) (heap_wr h) str (heap_size h - heap_wr h);
                   Some (h\<lparr>heap_data := d, heap_wr := 0, heap_count := heap_count h - (heap_size h - heap_wr h)\<rparr>,
                         drop (heap_size h - heap_wr h) str, length xs - (heap_size h - heap_wr h)) }
         else Some (h, str, length xs));
      d1 \<leftarrow> memcpy_mem (heap_data h1) (heap_wr h1) ptrs len1;
      let h2 = h1\<lparr>heap_data := d1, heap_wr := heap_wr h1 + len1, heap_count := heap_count h1 - len1\<rparr>;
      d2 \<leftarrow> store_mem (heap_data h2) (if heap_wr h2 > 0 then heap_wr h2 - 1 else heap_size h2 - 1) NUL;
      Some (Some head, h2\<lparr>heap_data := d2\<rparr>) } =
    Some (Some head, h\<lparr>heap_data := ring_put (heap_data h) (heap_wr h) (butlast xs @ [NUL]),
      heap_wr := (heap_wr h + length xs) mod heap_size h, heap_count := heap_count h - length xs\<rparr>)"
proof (cases "length xs \<ge> heap_size h - heap_wr h")
  case True
  let ?n = "heap_size h" and ?w = "heap_wr h" and ?m = "heap_data h" and ?r = "heap_size h - heap_wr h"
  have tk: "take ?r str = take ?r xs" "take (length xs - ?r) (drop ?r str) = drop ?r xs"
    using assms(7) True by (metis min.absorb1 take_take, metis drop_take)
  have a: "memcpy_mem ?m ?w str ?r = Some (ring_put ?m ?w (take ?r xs))"
    using assms True memcpy_mem_put [of ?w ?r ?m str] tk by simp
  have b: "memcpy_mem (ring_put ?m ?w (take ?r xs)) 0 (drop ?r str) (length xs - ?r) = Some (ring_put ?m ?w xs)"
    using assms True memcpy_mem_put [of 0 "length xs - ?r" "ring_put ?m ?w (take ?r xs)" "drop ?r str"] tk
      ring_put_split [of ?w ?m xs] by simp
  define k where "k = length xs - ?r"
  have kr: "?r + k = length xs" "heap_count h - ?r - k = heap_count h - length xs" using True by (simp_all add: k_def)
  have w: "(?w + length xs) mod ?n = k"
    using True assms(2,4) by (simp add: le_mod_geq k_def)
  have l: "(?w + length xs + ?n - 1) mod ?n = (if 0 < k then k - 1 else ?n - 1)"
    using assms(2,3,4) True by (cases xs) (auto simp: mod_if k_def)
  have p: "(ring_put ?m ?w xs)[(if 0 < k then k - 1 else ?n - 1) := NUL] = ring_put ?m ?w (butlast xs @ [NUL])"
    using ring_put_last [of ?w ?m xs NUL] assms(1-4) l by simp
  have s: "store_mem (ring_put ?m ?w xs) (if 0 < k then k - 1 else ?n - 1) NUL = Some (ring_put ?m ?w (butlast xs @ [NUL]))"
    using p assms(1,2,4) kr(1) by (simp add: store_mem_def split: if_splits)
  show ?thesis
    unfolding w if_P [OF True] a k_def [symmetric] using s b [folded k_def] kr(2) by (cases "0 < k") (simp_all add: Let_def)
next
  case False
  let ?n = "heap_size h" and ?w = "heap_wr h" and ?m = "heap_data h"
  have a: "memcpy_mem ?m ?w str (length xs) = Some (ring_put ?m ?w xs)"
    using assms False memcpy_mem_put [of ?w "length xs" ?m str] by simp
  have l: "(?w + length xs + ?n - 1) mod ?n = ?w + length xs - 1"
    using assms(3) False by (cases xs) (auto simp: mod_if)
  show ?thesis
    using False assms(1,2,3) ring_put_last [of ?w ?m xs NUL] assms(4) l
    by (simp add: a store_mem_def Let_def)
qed

lemma strndup_writes:
  assumes "heap_size h \<noteq> 0" "byte_at (heap_data h) (heap_wr h) = Some NUL" "byte_at str 0 = Some c0" "c0 \<noteq> NUL"
    "strnlen_mem str n = Some l" "\<not> l + 1 > heap_count h" "length xs = l + 1"
    "length (heap_data h) = heap_size h" "heap_wr h < heap_size h" "length xs \<le> heap_size h"
    "length xs \<le> length str" "take (length xs) str = xs"
  shows "scpiheap_strndup h (Some str) n =
    Some (Some (heap_wr h), h\<lparr>heap_data := ring_put (heap_data h) (heap_wr h) (butlast xs @ [NUL]),
      heap_wr := (heap_wr h + length xs) mod heap_size h, heap_count := heap_count h - length xs\<rparr>)"
proof -
  have "xs \<noteq> []" using assms(7) by auto
  have "length xs \<le> heap_count h" using assms(6,7) by simp
  note w = ring_write [OF assms(8,9) \<open>xs \<noteq> []\<close> assms(10) this assms(11,12), unfolded assms(7) Let_def]
  show ?thesis
    by (simp only: scpiheap_strndup_def option.case Option.bind.simps assms(2,3,5) if_not_P [OF assms(1)] if_not_P [OF assms(4)]
        if_not_P [OF assms(6)] simp_thms if_False Let_def w assms(7))
qed

subsection \<open>The operations on the list of strings\<close>

lemma heap_rep_wr: "heap_rep h p ss \<Longrightarrow> heap_wr h < heap_size h"
  by (auto simp: heap_rep_def)

lemma bounded_text_readable:
  assumes "bounded_text str n = s" "NUL \<in> set str \<or> n < length str"
  shows "length s < length str" "strnlen_mem str n = Some (length s)"
proof -
  have "length s \<le> n" using assms(1) unfolding bounded_text_def
    by (metis length_take length_takeWhile_le min.bounded_iff)
  show "length s < length str"
  proof (rule ccontr)
    assume "\<not> length s < length str"
    then have "s = str" using bounded_text_prefix [of str n] assms(1) by simp
    then show False using assms \<open>length s \<le> n\<close> bounded_text_no_NUL [of str n] by auto
  qed
  show "strnlen_mem str n = Some (length s)" using assms strnlen_mem_text [of str n] by auto
qed

text \<open>Duplicating a string appends it while there is room for it and its terminator, and fails otherwise.\<close>

lemma strndup_appends:
  assumes r: "heap_rep h p ss" and s: "bounded_text str n = s" "s \<noteq> []" and m: "NUL \<in> set str \<or> n < length str"
  shows "\<exists>h'. scpiheap_strndup h (Some str) n =
      Some (if length (heap_cells (ss @ [s])) \<le> heap_size h then (Some (heap_wr h), h') else (None, h)) \<and>
    (length (heap_cells (ss @ [s])) \<le> heap_size h \<longrightarrow> heap_rep h' p (ss @ [s]) \<and> heap_size h' = heap_size h)"
proof -
  let ?n = "heap_size h" and ?c = "heap_cells ss"
  have f: "length (heap_data h) = ?n" "p < ?n" "length ?c \<le> ?n" "heap_wr h = (p + length ?c) mod ?n"
    "heap_count h = ?n - length ?c" "rotate p (heap_data h) = ?c @ replicate (?n - length ?c) NUL"
    "\<forall>s \<in> set ss. s \<noteq> [] \<and> NUL \<notin> set s"
    using r by (auto simp: heap_rep_def)
  note l = bounded_text_readable [OF s(1) m]
  have h0: "byte_at str 0 = Some (hd s)" "hd s \<noteq> NUL"
  proof -
    have "take (length s) str = s" using bounded_text_prefix [of str n] s(1) by simp
    then show "byte_at str 0 = Some (hd s)" using s(2) l(1) by (cases str; cases s) (auto simp: byte_at_def)
    show "hd s \<noteq> NUL" using s bounded_text_no_NUL [of str n] by (metis list.set_sel(1))
  qed
  show ?thesis
  proof (cases "length (heap_cells (ss @ [s])) \<le> ?n")
    case False
    have "byte_at (heap_data h) (heap_wr h) = Some (heap_data h ! heap_wr h)" using f heap_rep_wr [OF r] by (simp add: byte_at_def)
    moreover have "length s + 1 > heap_count h" using False f(5) by simp
    ultimately show ?thesis using False h0 l f(2) by (simp add: scpiheap_strndup_def)
  next
    case True
    let ?xs = "s @ [NUL]"
    have fit: "length ?c + (length s + 1) \<le> ?n" using True by simp
    have "heap_data h ! heap_wr h = NUL"
      using heap_rep_nth [OF r, of "length ?c"] fit f(4) by (simp add: nth_append)
    then have w0: "byte_at (heap_data h) (heap_wr h) = Some NUL" using f heap_rep_wr [OF r] by (simp add: byte_at_def)
    let ?ys = "take (length s + 1) str"
    have ly: "length ?ys = length s + 1" "butlast ?ys = s" "?ys \<noteq> []" "take (length ?ys) str = ?ys"
      using l(1) bounded_text_prefix [of str n] s(1) by (auto simp: butlast_take)
    let ?h' = "h\<lparr>heap_data := ring_put (heap_data h) (heap_wr h) ?xs, heap_wr := (heap_wr h + (length s + 1)) mod ?n,
      heap_count := heap_count h - (length s + 1)\<rparr>"
    have w: "scpiheap_strndup h (Some str) n = Some (Some (heap_wr h), ?h')"
      using strndup_writes [OF _ w0 h0 l(2), of ?ys] f(1,2,5) heap_rep_wr [OF r] fit ly l(1) by simp
    have "rotate p (heap_data ?h') = take (length ?c) (rotate p (heap_data h)) @ ?xs @
        drop (length ?c + length ?xs) (rotate p (heap_data h))"
      using rotate_ring_put [of "length ?c" ?xs "heap_data h" p] f(1,4) fit by simp
    also have "\<dots> = heap_cells (ss @ [s]) @ replicate (?n - length (heap_cells (ss @ [s]))) NUL"
      using fit by (simp add: f(6))
    finally have rot: "rotate p (heap_data ?h') = heap_cells (ss @ [s]) @ replicate (?n - length (heap_cells (ss @ [s]))) NUL" .
    have "heap_wr ?h' = (p + length (heap_cells (ss @ [s]))) mod ?n"
      unfolding f(4) using mod_add_left_eq [of "p + length ?c" ?n "length s + 1"] by (simp add: add.assoc)
    then have "heap_rep ?h' p (ss @ [s])"
      unfolding heap_rep_def rot using f fit s bounded_text_no_NUL [of str n] by auto
    then show ?thesis using w True by auto
  qed
qed

lemma strnlen_mem_all: "NUL \<notin> set (take n m) \<Longrightarrow> n \<le> length m \<Longrightarrow> strnlen_mem m n = Some n"
  by (subst (asm) in_set_conv_nth, subst strnlen_mem_def, simp add: strnlen_takeWhile, subst takeWhile_eq_all_conv [THEN iffD2])
     (auto simp: in_set_conv_nth)

text \<open>The byte behind the string is copied before it is overwritten by the terminator, so a text of exactly the given
  length needs one more readable byte.\<close>

lemma strndup_reads_behind:
  assumes r: "heap_rep h p ss" and s: "str \<noteq> []" "NUL \<notin> set str" and room: "length (heap_cells (ss @ [str])) \<le> heap_size h"
  shows "scpiheap_strndup h (Some str) (length str) = None"
proof -
  let ?n = "heap_size h" and ?c = "heap_cells ss"
  have f: "length (heap_data h) = ?n" "p < ?n" "heap_count h = ?n - length ?c"
    using r by (auto simp: heap_rep_def)
  have "length ?c < ?n" using room by simp
  then have "heap_data h ! heap_wr h = NUL"
    using heap_rep_nth [OF r, of "length ?c"] r by (simp add: nth_append heap_rep_def)
  then have w: "byte_at (heap_data h) (heap_wr h) = Some NUL" using f heap_rep_wr [OF r] by (simp add: byte_at_def)
  have b: "byte_at str 0 = Some (hd str)" "hd str \<noteq> NUL"
    using s by (cases str, auto simp: byte_at_def)+
  have l: "strnlen_mem str (length str) = Some (length str)" using strnlen_mem_all [of "length str" str] s(2) by simp
  have "\<not> length str + 1 > heap_count h" "heap_size h \<noteq> 0" using room f by auto
  then show ?thesis
    by (auto simp: scpiheap_strndup_def w b l Let_def memcpy_mem_def split: Option.bind_splits)
qed

text \<open>A string that lies at a position of the buffer, perhaps around its end.\<close>

definition block_at :: "string \<Rightarrow> nat \<Rightarrow> string \<Rightarrow> bool" where
  "block_at m q s \<longleftrightarrow> q < length m \<and> s \<noteq> [] \<and> NUL \<notin> set s \<and> length s < length m \<and>
     (\<forall>i \<le> length s. m ! ((q + i) mod length m) = (s @ [NUL]) ! i)"

lemma block_nth: "block_at m q s \<Longrightarrow> i \<le> length s \<Longrightarrow> m ! ((q + i) mod length m) = (s @ [NUL]) ! i"
  unfolding block_at_def by blast

lemma heap_rep_block:
  assumes "heap_rep h p (xs @ s # ys)"
  shows "block_at (heap_data h) ((p + length (heap_cells xs)) mod heap_size h) s"
proof -
  have "heap_data h ! (((p + length (heap_cells xs)) mod heap_size h + i) mod heap_size h) = (s @ [NUL]) ! i"
    if "i \<le> length s" for i
  proof -
    have "length (heap_cells xs) + i < heap_size h" using assms that by (auto simp: heap_rep_def)
    then have "heap_data h ! ((p + (length (heap_cells xs) + i)) mod heap_size h) =
        (heap_cells (xs @ s # ys) @ replicate (heap_size h - length (heap_cells (xs @ s # ys))) NUL) ! (length (heap_cells xs) + i)"
      using heap_rep_nth [OF assms] by blast
    also have "\<dots> = (s @ [NUL]) ! i" using that by (auto simp: nth_append nth_Cons' )
    finally show ?thesis by (simp add: mod_simps add.assoc)
  qed
  then show ?thesis using assms by (auto simp: block_at_def heap_rep_def)
qed

lemma block_whole:
  assumes "block_at m q s" "q + length s < length m"
  shows "take (length s + 1) (drop q m) = s @ [NUL]"
proof (rule nth_equalityI)
  fix i assume "i < length (take (length s + 1) (drop q m))"
  then have i: "i \<le> length s" "q + i < length m" using assms by auto
  then have "m ! ((q + i) mod length m) = (s @ [NUL]) ! i" using block_nth [OF assms(1), of i] by simp
  then show "take (length s + 1) (drop q m) ! i = (s @ [NUL]) ! i" using i by simp
qed (use assms in auto)

lemma block_split:
  assumes "block_at m q s" "length m \<le> q + length s"
  shows "drop q m = take (length m - q) s" "take (length s + 1 - (length m - q)) m = drop (length m - q) s @ [NUL]"
proof -
  have q: "q < length m" "length s < length m" using assms(1) by (auto simp: block_at_def)
  show "drop q m = take (length m - q) s"
  proof (rule nth_equalityI)
    fix i assume "i < length (drop q m)"
    then have i: "i < length s" "q + i < length m" using assms(2) by auto
    then have "m ! ((q + i) mod length m) = (s @ [NUL]) ! i" using block_nth [OF assms(1), of i] by simp
    then show "drop q m ! i = take (length m - q) s ! i" using i by (simp add: nth_append)
  qed (use assms(2) q in simp)
  show "take (length s + 1 - (length m - q)) m = drop (length m - q) s @ [NUL]"
  proof (rule nth_equalityI)
    fix i assume "i < length (take (length s + 1 - (length m - q)) m)"
    then have i: "length m - q + i \<le> length s" "i < length m" by auto
    then have "m ! ((q + (length m - q + i)) mod length m) = (s @ [NUL]) ! (length m - q + i)"
      using block_nth [OF assms(1)] by simp
    moreover have "(q + (length m - q + i)) mod length m = i" using q i by (simp add: mod_if)
    ultimately show "take (length s + 1 - (length m - q)) m ! i = (drop (length m - q) s @ [NUL]) ! i"
      using i assms(2) by (auto simp: nth_append)
  qed (use assms(2) q in auto)
qed

lemma strnlen_mem_stop: "take (length s + 1) m = s @ [NUL] \<Longrightarrow> NUL \<notin> set s \<Longrightarrow> length s < n \<Longrightarrow> strnlen_mem m n = Some (length s)"
proof -
  assume a: "take (length s + 1) m = s @ [NUL]" "NUL \<notin> set s" "length s < n"
  have m: "m = s @ NUL # drop (length s + 1) m" using a(1) by (metis append.assoc append_Cons append_Nil append_take_drop_id)
  obtain k where k: "n = length s + Suc k" using a(3) less_iff_Suc_add by auto
  have "take n m = s @ NUL # take k (drop (length s + 1) m)" by (subst m) (simp add: k)
  then show ?thesis using a(2) by (simp add: strnlen_mem_def strnlen_takeWhile takeWhile_append)
qed

lemma get_parts_block:
  assumes "block_at (heap_data h) q s" "length (heap_data h) = heap_size h"
  shows "scpiheap_get_parts h (Some q) = Some (Some
    (if q + length s < heap_size h then (length s, None, 0)
     else (heap_size h - q, Some 0, length s - (heap_size h - q))))"
proof -
  let ?m = "heap_data h" and ?n = "heap_size h"
  have q: "q < ?n" "length s < ?n" "s \<noteq> []" "NUL \<notin> set s" using assms by (auto simp: block_at_def)
  have "?m ! ((q + 0) mod length ?m) = (s @ [NUL]) ! 0" using assms(1) unfolding block_at_def by blast
  then have c: "byte_at ?m q = Some (hd s)" using q assms(2) by (cases s) (auto simp: byte_at_def)
  have c': "hd s \<noteq> NUL" using q by (metis list.set_sel(1))
  show ?thesis
  proof (cases "q + length s < ?n")
    case True
    then have "strnlen_mem (drop q ?m) (?n - q) = Some (length s)"
      using strnlen_mem_stop [OF block_whole [OF assms(1)]] assms(2) q by simp
    then show ?thesis using True c c' by (simp add: scpiheap_get_parts_def Let_def)
  next
    case False
    note b = block_split [OF assms(1)]
    have "NUL \<notin> set (drop q ?m)" using b(1) False assms(2) q(4) by (auto dest: in_set_takeD)
    then have l1: "strnlen_mem (drop q ?m) (?n - q) = Some (?n - q)"
      using assms(2) by (intro strnlen_mem_all) (auto dest: in_set_takeD)
    have "length (drop (?n - q) s) + 1 = length s + 1 - (?n - q)" using False by simp
    then have "take (length (drop (?n - q) s) + 1) ?m = drop (?n - q) s @ [NUL]"
      using b(2) False assms(2) by simp
    then have l2: "strnlen_mem ?m ?n = Some (length s - (?n - q))"
      using strnlen_mem_stop [of "drop (?n - q) s" ?m ?n] q in_set_dropD [of NUL "?n - q" s] by force
    show ?thesis using False c c' q(1) by (simp add: scpiheap_get_parts_def Let_def l1 l2)
  qed
qed

lemma ring_put_split':
  assumes "w < length m" "length m \<le> w + length xs" "length xs \<le> length m"
  shows "ring_put (ring_put m 0 (drop (length m - w) xs)) w (take (length m - w) xs) = ring_put m w xs"
  using assms by (intro nth_equalityI) (auto simp: nth_ring_put Let_def min_def add.commute)

lemma memset_mem_put: "w + n \<le> length m \<Longrightarrow> memset_mem m w c n = Some (ring_put m w (replicate n c))"
  by (simp add: memset_mem_def memcpy_mem_put)

lemma free_block:
  assumes "block_at (heap_data h) q s" "length (heap_data h) = heap_size h"
  shows "scpiheap_free h (Some q) rollback = Some (h\<lparr>
    heap_data := ring_put (heap_data h) q (replicate (length s + 1) NUL),
    heap_count := heap_count h + (length s + 1),
    heap_wr := (if heap_count h + (length s + 1) = heap_size h then 0
      else if rollback then (if length s + 1 > heap_wr h then heap_wr h + heap_size h else heap_wr h) - (length s + 1)
      else heap_wr h)\<rparr>)"
proof -
  let ?m = "heap_data h" and ?n = "heap_size h"
  have q: "q < ?n" "length s < ?n" using assms by (auto simp: block_at_def)
  note parts = get_parts_block [OF assms]
  show ?thesis
  proof (cases "q + length s < ?n")
    case True
    then have "memset_mem ?m q NUL (length s + 1) = Some (ring_put ?m q (replicate (length s + 1) NUL))"
      using assms(2) by (intro memset_mem_put) simp
    then show ?thesis using True parts by (simp add: scpiheap_free_def Let_def)
  next
    case False
    define k1 where "k1 = length s - (?n - q)"
    define k where "k = Suc k1"
    have k: "k + (?n - q) = length s + 1" "k \<le> ?n" using False q by (auto simp: k_def k1_def)
    have parts': "scpiheap_get_parts h (Some q) = Some (Some (?n - q, Some 0, k1))" using False parts by (simp add: k1_def)
    let ?z = "replicate (length s + 1) NUL"
    have z: "replicate k NUL = drop (?n - q) ?z" "replicate (?n - q) NUL = take (?n - q) ?z" using k(1) by (simp_all del: replicate_Suc)
    have m1: "memset_mem ?m 0 NUL k = Some (ring_put ?m 0 (replicate k NUL))"
      using assms(2) k(2) by (intro memset_mem_put) simp
    have "memset_mem (ring_put ?m 0 (replicate k NUL)) q NUL (?n - q) =
        Some (ring_put (ring_put ?m 0 (replicate k NUL)) q (replicate (?n - q) NUL))"
      using assms(2) q by (intro memset_mem_put) simp
    also have "ring_put (ring_put ?m 0 (replicate k NUL)) q (replicate (?n - q) NUL) = ring_put ?m q ?z"
      using ring_put_split' [of q ?m ?z] False q assms(2) by (simp only: z) simp
    finally have m2: "memset_mem (ring_put ?m 0 (replicate k NUL)) q NUL (?n - q) = Some (ring_put ?m q ?z)" .
    have c: "heap_count h + (k + (?n - q)) = heap_count h + (length s + 1)" "?n - q + k = length s + 1" using k(1) by simp_all
    show ?thesis
      using c parts' m1 m2 by (simp add: scpiheap_free_def Let_def k_def del: replicate_Suc)
  qed
qed

lemma rotate_replicateD: "rotate k xs = replicate n c \<Longrightarrow> xs = replicate n c"
  by (rule replicate_eqI) (metis length_replicate length_rotate, metis in_set_replicate set_rotate)

text \<open>Freeing the oldest string takes it off the front; freeing the newest with a rollback takes it off the back.\<close>

lemma free_first:
  assumes r: "heap_rep h p (s # ss)"
  shows "\<exists>h'. scpiheap_free h (Some p) False = Some h' \<and> heap_size h' = heap_size h \<and>
    heap_rep h' (if ss = [] then 0 else (p + (length s + 1)) mod heap_size h) ss"
proof -
  let ?n = "heap_size h" and ?m = "heap_data h" and ?z = "replicate (length s + 1) NUL"
  have f: "length ?m = ?n" "p < ?n" "length (heap_cells (s # ss)) \<le> ?n" "heap_count h = ?n - length (heap_cells (s # ss))"
    "heap_wr h = (p + length (heap_cells (s # ss))) mod ?n" "\<forall>s \<in> set ss. s \<noteq> [] \<and> NUL \<notin> set s"
    "rotate p ?m = heap_cells (s # ss) @ replicate (?n - length (heap_cells (s # ss))) NUL"
    using r by (auto simp: heap_rep_def)
  have b: "block_at ?m p s" using heap_rep_block [of h p "[]" s ss] r f(2) by simp
  let ?d = "ring_put ?m p ?z"
  have cnt: "heap_count h + (length s + 1) = ?n - length (heap_cells ss)" using f(3,4) by simp
  let ?h = "h\<lparr>heap_data := ?d, heap_count := heap_count h + (length s + 1), heap_wr := (if ss = [] then 0 else heap_wr h)\<rparr>"
  have "ss = [] \<longleftrightarrow> heap_count h + (length s + 1) = ?n" using cnt f(3) by (cases ss) auto
  then have e: "scpiheap_free h (Some p) False = Some ?h" using free_block [OF b f(1)] by simp
  have "rotate p ?d = ?z @ heap_cells ss @ replicate (?n - length (heap_cells (s # ss))) NUL"
    using rotate_ring_put [of 0 ?z ?m p] f(1,2,3,7) by simp
  then have "rotate (length s + 1) (rotate p ?d) = heap_cells ss @ replicate (?n - length (heap_cells (s # ss))) NUL @ ?z"
    using rotate_append [of ?z "heap_cells ss @ replicate (?n - length (heap_cells (s # ss))) NUL"] by simp
  moreover have "replicate (?n - length (heap_cells (s # ss))) NUL @ ?z = replicate (?n - length (heap_cells ss)) NUL"
    using f(3) by (simp add: replicate_add [symmetric] del: replicate_Suc)
  ultimately have rot: "rotate ((p + (length s + 1)) mod ?n) ?d = heap_cells ss @ replicate (?n - length (heap_cells ss)) NUL"
    using rotate_conv_mod [of "p + (length s + 1)" ?d] f(1) by (simp add: rotate_rotate add.commute)
  have "heap_rep ?h (if ss = [] then 0 else (p + (length s + 1)) mod ?n) ss"
  proof (cases "ss = []")
    case True
    then have "?d = replicate ?n NUL" using rotate_replicateD [of _ ?d ?n NUL] rot by simp
    then show ?thesis using True f(1,2,4) cnt by (simp add: heap_rep_def)
  next
    case False
    have "heap_wr h = ((p + (length s + 1)) mod ?n + length (heap_cells ss)) mod ?n"
      unfolding f(5) using mod_add_left_eq [of "p + (length s + 1)" ?n "length (heap_cells ss)"] by (simp add: add.assoc)
    then show ?thesis using False f rot cnt by (auto simp: heap_rep_def)
  qed
  then show ?thesis using e by (intro exI [of _ ?h]) simp
qed

lemma wrap_back:
  assumes "w < n" "l \<le> (n::nat)"
  shows "(if l > (w + l) mod n then (w + l) mod n + n else (w + l) mod n) - l = w"
proof (cases "w + l < n")
  case False
  then have "(w + l) mod n = w + l - n" using assms by (simp add: le_mod_geq)
  then show ?thesis using assms False by auto
qed simp

lemma free_last:
  assumes r: "heap_rep h p (ss @ [s])"
  shows "\<exists>h'. scpiheap_free h (Some ((p + length (heap_cells ss)) mod heap_size h)) True = Some h' \<and>
    heap_size h' = heap_size h \<and> heap_rep h' (if ss = [] then 0 else p) ss"
proof -
  let ?n = "heap_size h" and ?m = "heap_data h" and ?z = "replicate (length s + 1) NUL"
    and ?q = "(p + length (heap_cells ss)) mod heap_size h"
  have f: "length ?m = ?n" "p < ?n" "length (heap_cells ss) + (length s + 1) \<le> ?n"
    "heap_count h = ?n - (length (heap_cells ss) + (length s + 1))"
    "heap_wr h = (p + (length (heap_cells ss) + (length s + 1))) mod ?n" "\<forall>s \<in> set ss. s \<noteq> [] \<and> NUL \<notin> set s"
    "rotate p ?m = heap_cells ss @ s @ NUL # replicate (?n - length (heap_cells (ss @ [s]))) NUL"
    using r by (auto simp: heap_rep_def)
  have b: "block_at ?m ?q s" using heap_rep_block [of h p ss s "[]"] r by simp
  let ?d = "ring_put ?m ?q ?z"
  have cnt: "heap_count h + (length s + 1) = ?n - length (heap_cells ss)" using f(3,4) by simp
  have ss: "ss = [] \<longleftrightarrow> heap_count h + (length s + 1) = ?n" using cnt f(3) by (cases ss) auto
  have wr: "(if length s + 1 > heap_wr h then heap_wr h + ?n else heap_wr h) - (length s + 1) = ?q"
  proof -
    have e: "heap_wr h = (?q + (length s + 1)) mod ?n"
      unfolding f(5) using mod_add_left_eq [of "p + length (heap_cells ss)" ?n "length s + 1"] by (simp add: add.assoc)
    have "?q < ?n" "length s + 1 \<le> ?n" using f(2,3) by simp_all
    from wrap_back [OF this] show ?thesis unfolding e .
  qed
  let ?h = "h\<lparr>heap_data := ?d, heap_count := heap_count h + (length s + 1), heap_wr := (if ss = [] then 0 else ?q)\<rparr>"
  have e: "scpiheap_free h (Some ?q) True = Some ?h"
    unfolding free_block [OF b f(1)] if_P [OF TrueI] wr ss ..
  have "rotate p ?d = heap_cells ss @ ?z @ replicate (?n - length (heap_cells (ss @ [s]))) NUL"
    using rotate_ring_put [of "length (heap_cells ss)" ?z ?m p] f(1,3,7) by simp
  moreover have "?z @ replicate (?n - length (heap_cells (ss @ [s]))) NUL = replicate (?n - length (heap_cells ss)) NUL"
    using f(3) by (simp add: replicate_add [symmetric] del: replicate_Suc)
  ultimately have rot: "rotate p ?d = heap_cells ss @ replicate (?n - length (heap_cells ss)) NUL" by simp
  have "heap_rep ?h (if ss = [] then 0 else p) ss"
  proof (cases "ss = []")
    case True
    then have "?d = replicate ?n NUL" using rotate_replicateD [of p ?d ?n NUL] rot by simp
    then show ?thesis using True f(1,2,4) cnt by (simp add: heap_rep_def)
  next
    case False
    then show ?thesis using f rot cnt by (auto simp: heap_rep_def)
  qed
  then show ?thesis using e by (intro exI [of _ ?h]) simp
qed

text \<open>What a reader sees behind a pointer: the two parts put together.\<close>

definition heap_text :: "scpi_error_info_heap_t \<Rightarrow> nat option \<Rightarrow> string option" where
  "heap_text h ptr =
     (case (ptr, scpiheap_get_parts h ptr) of
        (Some p, Some (Some (len1, s2, len2))) \<Rightarrow>
          Some (take len1 (drop p (heap_data h)) @ (case s2 of None \<Rightarrow> [] | Some a \<Rightarrow> take len2 (drop a (heap_data h))))
      | _ \<Rightarrow> None)"

lemma heap_text_block:
  assumes "block_at (heap_data h) q s" "length (heap_data h) = heap_size h"
  shows "heap_text h (Some q) = Some s"
proof (cases "q + length s < heap_size h")
  case True
  then have "take (length s + 1) (drop q (heap_data h)) = s @ [NUL]" using block_whole [OF assms(1)] assms(2) by simp
  then have "take (length s) (take (length s + 1) (drop q (heap_data h))) = s" by simp
  then show ?thesis using True get_parts_block [OF assms] by (simp add: heap_text_def)
next
  case False
  let ?r = "heap_size h - q"
  note b = block_split [OF assms(1)]
  have q: "length s < heap_size h" "q < heap_size h" using assms by (auto simp: block_at_def)
  have "take ?r (drop q (heap_data h)) = take ?r s" using b(1) False assms(2) by simp
  moreover have "take (length s - ?r) (heap_data h) = drop ?r s"
  proof -
    have "take (length s + 1 - ?r) (heap_data h) = drop ?r s @ [NUL]" using b(2) False assms(2) by simp
    then have "take (length s - ?r) (take (length s + 1 - ?r) (heap_data h)) = take (length s - ?r) (drop ?r s @ [NUL])"
      by (rule arg_cong)
    then show ?thesis by (simp add: min_def split: if_splits)
  qed
  ultimately show ?thesis using False get_parts_block [OF assms] by (simp add: heap_text_def)
qed

lemma heap_text_rep:
  assumes "heap_rep h p (xs @ s # ys)"
  shows "heap_text h (Some ((p + length (heap_cells xs)) mod heap_size h)) = Some s"
  using heap_text_block [OF heap_rep_block [OF assms]] assms by (simp add: heap_rep_def)

end
