(* ===== verification/Scpi_Info.thy ===== *)
theory Scpi_Info
  imports Scpi_Heap Scpi_Commands
begin

text \<open>
  Errors with additional text: the code of \<^verbatim>\<open>libscpi/src/error.c\<close>, \<^verbatim>\<open>parser.c\<close> and \<^verbatim>\<open>minimal.c\<close> that builds with
  \<^verbatim>\<open>USE_DEVICE_DEPENDENT_ERROR_INFORMATION\<close> and without \<^verbatim>\<open>USE_MEMORY_ALLOCATION_FREE\<close>. The context of
  such a build has the heap beside an error queue whose entries point into it. The lemmas show
  that the queue and the heap together are a bounded list of errors with their texts, that the texts stay what they were
  until their error leaves the queue, and that apart from them the build behaves like the one without texts.
\<close>

record scpi_error_info_t = scpi_error_t +
  device_dependent_info :: "nat option"

text \<open>The rest of the context is the record of the plain build, whose own error queue is not used.\<close>

record scpi_info_t =
  rest_of :: scpi_t
  info_queue :: "scpi_error_info_t scpi_fifo_t"
  error_info_heap :: scpi_error_info_heap_t

abbreviation no_error_info :: scpi_error_info_t where
  "no_error_info \<equiv> \<lparr>error_code = 0, device_dependent_info = None\<rparr>"

definition SCPI_InitHeap :: "scpi_info_t \<Rightarrow> string \<Rightarrow> nat \<Rightarrow> scpi_info_t option" where
  "SCPI_InitHeap s buf len = map_option (\<lambda>h. s\<lparr>error_info_heap := h\<rparr>) (scpiheap_init buf len)"

definition SCPI_ErrorInit_info :: "scpi_info_t \<Rightarrow> scpi_error_info_t list \<Rightarrow> nat \<Rightarrow> scpi_info_t" where
  "SCPI_ErrorInit_info s data sz = s\<lparr>info_queue := fifo_init data sz\<rparr>"

definition SCPI_ErrorEmitEmpty_info :: "scpi_info_t \<Rightarrow> scpi_info_t" where
  "SCPI_ErrorEmitEmpty_info s =
     (if fifo_count (info_queue s) = 0 \<and> SCPI_RegGet (rest_of s) SCPI_REG_STB AND STB_QMA \<noteq> 0
      then s\<lparr>rest_of := call_error 0 (SCPI_RegClearBits (rest_of s) SCPI_REG_STB STB_QMA)\<rparr> else s)"

text \<open>The loop of \<^verbatim>\<open>SCPI_ErrorClear\<close>; the local error is written before it is read.\<close>

function error_drain :: "scpi_error_info_t \<Rightarrow> scpi_error_info_t scpi_fifo_t \<Rightarrow> scpi_error_info_heap_t \<Rightarrow>
    (scpi_error_info_t scpi_fifo_t \<times> scpi_error_info_heap_t) option" where
  "error_drain e q h =
     (if fst (fifo_remove q (Some e))
      then let (_, cell, q') = fifo_remove q (Some e)
           in do { h' \<leftarrow> scpiheap_free h (device_dependent_info (the cell)) False;
                   error_drain (the cell) q' h' }
      else Some (q, h))"
  by pat_completeness auto
termination
  by (relation "measure (\<lambda>(e, q, h). fifo_cnt q)") (auto simp: fifo_remove_def fifo_is_empty_def split: if_splits)

declare error_drain.simps [simp del]

definition SCPI_ErrorClear_info :: "scpi_info_t \<Rightarrow> scpi_info_t option" where
  "SCPI_ErrorClear_info s =
     do { (q, h) \<leftarrow> error_drain no_error_info (info_queue s) (error_info_heap s);
          Some (SCPI_ErrorEmitEmpty_info (s\<lparr>info_queue := fifo_clear q, error_info_heap := h\<rparr>)) }"

definition SCPI_ErrorPop_info ::
  "scpi_info_t \<Rightarrow> scpi_error_info_t option \<Rightarrow> bool \<times> scpi_error_info_t option \<times> scpi_info_t" where
  "SCPI_ErrorPop_info s err =
     (case err of None \<Rightarrow> (False, None, s)
      | Some e \<Rightarrow>
          let (_, err', q) = fifo_remove (info_queue s) (Some (e\<lparr>error_code := 0, device_dependent_info := None\<rparr>))
          in (True, err', SCPI_ErrorEmitEmpty_info (s\<lparr>info_queue := q\<rparr>)))"

definition SCPI_ErrorAddInternal_info ::
  "scpi_info_t \<Rightarrow> int \<Rightarrow> string option \<Rightarrow> nat \<Rightarrow> (bool \<times> scpi_info_t) option" where
  "SCPI_ErrorAddInternal_info s err info info_len =
     do { (info_ptr, h) \<leftarrow> (case info of None \<Rightarrow> Some (None, error_info_heap s)
                               | Some i \<Rightarrow> scpiheap_strndup (error_info_heap s) (Some i) info_len);
          let error_value = \<lparr>error_code = err, device_dependent_info = info_ptr\<rparr>;
          let (added, q) = fifo_add (info_queue s) (Some error_value);
          if \<not> added
          then do { h1 \<leftarrow> scpiheap_free h (device_dependent_info error_value) True;
                    let (_, cell, q1) = fifo_remove_last q (Some error_value);
                    h2 \<leftarrow> scpiheap_free h1 (device_dependent_info (the cell)) True;
                    let (_, q2) = fifo_add q1 (Some \<lparr>error_code = SCPI_ERROR_QUEUE_OVERFLOW, device_dependent_info = None\<rparr>);
                    Some (False, s\<lparr>info_queue := q2, error_info_heap := h2\<rparr>) }
          else Some (True, s\<lparr>info_queue := q, error_info_heap := h\<rparr>) }"

definition SCPI_ErrorPushEx_info ::
  "scpi_info_t \<Rightarrow> int \<Rightarrow> string option \<Rightarrow> nat \<Rightarrow> scpi_info_t option" where
  "SCPI_ErrorPushEx_info s err info info_len =
     do { info_len \<leftarrow> (case info of Some i \<Rightarrow> if info_len = 0 then strnlen_mem i SCPI_STD_ERROR_DESC_MAX_STRING_LENGTH
                                                else Some info_len
                            | None \<Rightarrow> Some info_len);
          (added, s1) \<leftarrow> SCPI_ErrorAddInternal_info s err info info_len;
          let queue_overflow = (\<not> added);
          let c2 = fold (\<lambda>(from, to, esrBit) c.
                   if err \<le> from \<and> err \<ge> to then SCPI_RegSetBits c SCPI_REG_ESR esrBit else c) errs (rest_of s1);
          let c3 = SCPI_ErrorEmit c2 err;
          let c4 = (if queue_overflow then SCPI_ErrorEmit c3 SCPI_ERROR_QUEUE_OVERFLOW else c3);
          Some (s1\<lparr>rest_of := c4\<lparr>cmd_error := True\<rparr>\<rparr>) }"

subsection \<open>The text of an error\<close>

text \<open>One part of the description, with quotes doubled: what is left of the part and of the limit.\<close>

function error_part_loop :: "scpi_t \<Rightarrow> string \<Rightarrow> nat \<Rightarrow> scpi_t \<times> string \<times> nat" where
  "error_part_loop ctx data outputlimit =
     (case strnpbrk data quote_char of
        None \<Rightarrow> (ctx, data, outputlimit)
      | Some q \<Rightarrow>
          let st = q + 1
          in if st \<ge> outputlimit then (ctx, butlast data, outputlimit - 1)
             else let ctx1 = writeData (writeData ctx (take st data)) quote_char;
                      outputlimit = outputlimit - (st + 1)
                  in error_part_loop ctx1 (take outputlimit (drop st data)) outputlimit)"
  by pat_completeness auto
termination
  by (relation "measure (\<lambda>(_, d, _). length d)") (auto dest: strnpbrk_less)

declare error_part_loop.simps [simp del]

fun error_desc_loop :: "scpi_t \<Rightarrow> nat \<Rightarrow> string list \<Rightarrow> nat \<Rightarrow> scpi_t" where
  "error_desc_loop ctx i [] outputlimit = ctx"
| "error_desc_loop ctx i (d # ds) outputlimit =
     (if outputlimit = 0 then ctx
      else let (ctx1, limit1) = (if i = 1 then (writeSemicolon ctx, outputlimit - 1) else (ctx, outputlimit));
               (ctx2, rest, limit2) = error_part_loop ctx1 (take limit1 d) limit1
           in error_desc_loop (writeData ctx2 rest) (i + 1) ds (limit2 - length rest))"

text \<open>The parts that follow the first: none, one or two. For a pointer to an empty string the code reads lengths that
  nothing has set; the result is \<open>None\<close>.\<close>

definition error_info_parts :: "scpi_error_info_heap_t \<Rightarrow> nat option \<Rightarrow> string list option" where
  "error_info_parts h info =
     (case info of None \<Rightarrow> Some []
      | Some p \<Rightarrow>
          do { parts \<leftarrow> scpiheap_get_parts h (Some p);
               (len1, s2, len2) \<leftarrow> parts;
               Some (take len1 (drop p (heap_data h)) # (case s2 of None \<Rightarrow> [] | Some a \<Rightarrow> [take len2 (drop a (heap_data h))])) })"

definition SCPI_ResultError_info :: "scpi_info_t \<Rightarrow> scpi_error_info_t \<Rightarrow> scpi_info_t option" where
  "SCPI_ResultError_info s error =
     do { parts \<leftarrow> error_info_parts (error_info_heap s) (device_dependent_info error);
          let ctx1 = writeData (writeDelimiter (SCPI_ResultInt32 (rest_of s) (word_of_int (error_code error)))) quote_char;
          let ctx2 = error_desc_loop ctx1 0 (SCPI_ErrorTranslate (error_code error) # parts)
                       SCPI_STD_ERROR_DESC_MAX_STRING_LENGTH;
          Some (s\<lparr>rest_of := writeData ctx2 quote_char\<rparr>) }"

definition SCPI_SystemErrorNextQ_info :: "scpi_info_t \<Rightarrow> (scpi_result_t \<times> scpi_info_t) option" where
  "SCPI_SystemErrorNextQ_info s =
     (let (_, error, s1) = SCPI_ErrorPop_info s (Some no_error_info)
      in do { s2 \<leftarrow> SCPI_ResultError_info s1 (the error);
              h \<leftarrow> scpiheap_free (error_info_heap s2) (device_dependent_info (the error)) False;
              Some (SCPI_RES_OK, s2\<lparr>error_info_heap := h\<rparr>) })"

subsection \<open>Queue and heap as one list\<close>

fun info_ptrs :: "nat \<Rightarrow> nat \<Rightarrow> string option list \<Rightarrow> nat option list" where
  "info_ptrs n p [] = []"
| "info_ptrs n p (None # ts) = None # info_ptrs n p ts"
| "info_ptrs n p (Some t # ts) = Some p # info_ptrs n ((p + (length t + 1)) mod n) ts"

definition texts :: "string option list \<Rightarrow> string list" where
  "texts ts = List.map_filter id ts"

lemma texts_simps [simp]:
  "texts [] = []" "texts (None # ts) = texts ts" "texts (Some t # ts) = t # texts ts" "texts (xs @ ys) = texts xs @ texts ys"
  by (simp_all add: texts_def List.map_filter_def)

lemma length_info_ptrs [simp]: "length (info_ptrs n p ts) = length ts"
  by (induction n p ts rule: info_ptrs.induct) auto

lemma info_ptrs_append:
  "p < n \<Longrightarrow> info_ptrs n p (xs @ ys) = info_ptrs n p xs @ info_ptrs n ((p + length (heap_cells (texts xs))) mod n) ys"
proof (induction n p xs rule: info_ptrs.induct)
  case (3 n p t ts)
  have "((p + (length t + 1)) mod n + length (heap_cells (texts ts))) mod n =
      (p + length (heap_cells (texts (Some t # ts)))) mod n"
    using mod_add_left_eq [of "p + (length t + 1)" n "length (heap_cells (texts ts))"] by (simp add: add.assoc)
  moreover have "(p + (length t + 1)) mod n < n" using 3(2) by simp
  ultimately show ?case using 3(1) by simp
qed auto

lemma info_ptrs_no_text: "texts ts = [] \<Longrightarrow> info_ptrs n p ts = info_ptrs n p' ts"
  by (induction n p ts rule: info_ptrs.induct) auto

text \<open>Reading the pointers gives the texts.\<close>

lemma info_ptrs_read:
  assumes "heap_rep h p (xs @ texts ts)"
  shows "map (heap_text h) (info_ptrs (heap_size h) ((p + length (heap_cells xs)) mod heap_size h) ts) = ts"
  using assms
proof (induction ts arbitrary: xs)
  case (Cons t ts)
  show ?case
  proof (cases t)
    case None
    then show ?thesis using Cons by (simp add: heap_text_def)
  next
    case (Some s)
    let ?n = "heap_size h"
    have "((p + length (heap_cells xs)) mod ?n + (length s + 1)) mod ?n = (p + length (heap_cells (xs @ [s]))) mod ?n"
      using mod_add_left_eq [of "p + length (heap_cells xs)" ?n "length s + 1"] by (simp add: add.assoc)
    then show ?thesis
      using Cons.IH [of "xs @ [s]"] Cons.prems heap_text_rep [of h p xs s "texts ts"] Some by simp
  qed
qed simp

definition info_rep :: "scpi_info_t \<Rightarrow> nat \<Rightarrow> (int \<times> string option) list \<Rightarrow> bool" where
  "info_rep s p as \<longleftrightarrow> fifo_inv (info_queue s) \<and> heap_rep (error_info_heap s) p (texts (map snd as)) \<and>
     map error_code (fifo_list (info_queue s)) = map fst as \<and>
     map device_dependent_info (fifo_list (info_queue s)) = info_ptrs (heap_size (error_info_heap s)) p (map snd as)"

definition info_view :: "scpi_info_t \<Rightarrow> (int \<times> string option) list" where
  "info_view s = map (\<lambda>e. (error_code e, heap_text (error_info_heap s) (device_dependent_info e))) (fifo_list (info_queue s))"

lemma info_rep_view: "info_rep s p as \<Longrightarrow> info_view s = as"
proof -
  assume r: "info_rep s p as"
  have "p < heap_size (error_info_heap s)" using r by (simp add: info_rep_def heap_rep_def)
  then have t: "map (heap_text (error_info_heap s)) (map device_dependent_info (fifo_list (info_queue s))) = map snd as"
    using r info_ptrs_read [of "error_info_heap s" p "[]" "map snd as"] by (simp add: info_rep_def)
  have "info_view s = zip (map error_code (fifo_list (info_queue s)))
      (map (heap_text (error_info_heap s)) (map device_dependent_info (fifo_list (info_queue s))))"
    by (simp add: info_view_def zip_map_map zip_same_conv_map comp_def)
  also have "\<dots> = as" unfolding t using r by (simp add: info_rep_def zip_map_fst_snd)
  finally show ?thesis .
qed

subsection \<open>Operations on the list\<close>

text \<open>What pushing does to the list: the text is kept when it is not empty and fits, and a full queue loses its newest
  error, with its text, to the overflow error.\<close>

definition info_kept :: "nat \<Rightarrow> (int \<times> string option) list \<Rightarrow> string option \<Rightarrow> string option" where
  "info_kept n as t =
     (case t of None \<Rightarrow> None
      | Some x \<Rightarrow> if x \<noteq> [] \<and> length (heap_cells (texts (map snd as) @ [x])) \<le> n then Some x else None)"

definition list_push :: "nat \<Rightarrow> nat \<Rightarrow> int \<Rightarrow> string option \<Rightarrow> (int \<times> string option) list \<Rightarrow> (int \<times> string option) list" where
  "list_push cap n err t as =
     (if length as < cap then as @ [(err, info_kept n as t)] else butlast as @ [(SCPI_ERROR_QUEUE_OVERFLOW, None)])"

definition info_limit :: "nat \<Rightarrow> nat" where
  "info_limit info_len = (if info_len = 0 then SCPI_STD_ERROR_DESC_MAX_STRING_LENGTH else info_len)"

definition info_text :: "string option \<Rightarrow> nat \<Rightarrow> string option" where
  "info_text info info_len = map_option (\<lambda>i. bounded_text i (info_limit info_len)) info"

definition info_readable :: "string option \<Rightarrow> nat \<Rightarrow> bool" where
  "info_readable info info_len = (case info of None \<Rightarrow> True | Some i \<Rightarrow> NUL \<in> set i \<or> info_limit info_len < length i)"

lemma bounded_text_self: "bounded_text str (length (bounded_text str n)) = bounded_text str n"
proof -
  have "bounded_text str (length (bounded_text str n)) = takeWhile (\<lambda>c. c \<noteq> NUL) (bounded_text str n)"
    by (simp add: bounded_text_def [of str "length _"] bounded_text_prefix)
  then show ?thesis by (simp add: bounded_text_def)
qed

lemma strndup_kept:
  assumes "heap_rep h p (texts (map snd as))" "bounded_text i n = t" "NUL \<in> set i \<or> n < length i" "t = [] \<Longrightarrow> 0 < n"
    "m = n \<or> m = length t"
  shows "\<exists>h'. scpiheap_strndup h (Some i) m =
      Some (map_option (\<lambda>_. heap_wr h) (info_kept (heap_size h) as (Some t)), h') \<and> heap_size h' = heap_size h \<and>
    heap_rep h' p (texts (map snd as) @ (case info_kept (heap_size h) as (Some t) of None \<Rightarrow> [] | Some x \<Rightarrow> [x]))"
proof (cases "t = []")
  case True
  then have "byte_at i 0 = Some NUL"
    using assms(2,3,4) by (cases i; cases n) (auto simp: bounded_text_def byte_at_def split: if_splits)
  moreover have "byte_at (heap_data h) (heap_wr h) = Some (heap_data h ! heap_wr h)"
    using assms(1) by (simp add: byte_at_def heap_rep_def)
  ultimately show ?thesis using True assms(1) by (auto simp: info_kept_def scpiheap_strndup_def)
next
  case False
  have b: "bounded_text i m = t" using assms(2,5) bounded_text_self [of i n] by auto
  have "NUL \<in> set i \<or> m < length i" using assms(3,5) bounded_text_readable [OF assms(2,3)] by auto
  from strndup_appends [OF assms(1) b False this] show ?thesis using assms(1) False
    by (auto simp: info_kept_def)
qed

lemma info_ptrs_snoc:
  assumes "p < n"
  shows "info_ptrs n p (ts @ [t]) = info_ptrs n p ts @ [map_option (\<lambda>_. (p + length (heap_cells (texts ts))) mod n) t]"
  using info_ptrs_append [OF assms, of ts "[t]"] by (cases t) simp_all

text \<open>Dropping the newest error frees its text.\<close>

lemma drop_last_rep:
  assumes "fifo_inv q" "heap_rep h p (texts (map snd (as @ [a])))"
    "map error_code (fifo_list q) = map fst (as @ [a])"
    "map device_dependent_info (fifo_list q) = info_ptrs (heap_size h) p (map snd (as @ [a]))"
  shows "\<exists>q' e h' p'. fifo_remove_last q (Some v) = (True, Some e, q') \<and> fifo_inv q' \<and> fifo_size q' = fifo_size q \<and>
    fifo_cnt q' = fifo_cnt q - 1 \<and>
    scpiheap_free h (device_dependent_info e) True = Some h' \<and> heap_size h' = heap_size h \<and>
    heap_rep h' p' (texts (map snd as)) \<and> map error_code (fifo_list q') = map fst as \<and>
    map device_dependent_info (fifo_list q') = info_ptrs (heap_size h') p' (map snd as)"
proof -
  have p: "p < heap_size h" using assms(2) by (simp add: heap_rep_def)
  have ne: "fifo_list q \<noteq> []" using assms(3) by (auto simp del: fifo_list_empty)
  then obtain es e where s: "fifo_list q = es @ [e]" by (metis append_butlast_last_id)
  let ?e = e and ?q = "snd (snd (fifo_remove_last q (Some v)))"
  note l = fifo_remove_last_ok [OF assms(1) ne, of "Some v", unfolded s last_snoc butlast_snoc]
  have i: "device_dependent_info ?e = map_option (\<lambda>_. (p + length (heap_cells (texts (map snd as)))) mod heap_size h) (snd a)"
    "map device_dependent_info es = info_ptrs (heap_size h) p (map snd as)"
    "map error_code es = map fst as"
    using assms(3,4) info_ptrs_snoc [OF p, of "map snd as" "snd a"] by (simp_all add: s)
  have r: "fifo_remove_last q (Some v) = (True, Some ?e, ?q)" using l(1,2) by (cases "fifo_remove_last q (Some v)") auto
  have c: "fifo_cnt ?q = fifo_cnt q - 1" using l(4) s length_fifo_list [of ?q] length_fifo_list [of q] by simp
  show ?thesis
  proof (cases "snd a")
    case None
    then show ?thesis using r l i assms(2) c
      by (intro exI [of _ ?q] exI [of _ ?e] exI [of _ h] exI [of _ p]) (simp add: scpiheap_free_def)
  next
    case (Some t)
    then obtain h' where h': "scpiheap_free h (device_dependent_info ?e) True = Some h'" "heap_size h' = heap_size h"
      "heap_rep h' (if texts (map snd as) = [] then 0 else p) (texts (map snd as))"
      using free_last [of h p "texts (map snd as)" t] assms(2) i(1) by auto
    then show ?thesis using r l i c info_ptrs_no_text [of "map snd as" "heap_size h" p 0]
      by (intro exI [of _ ?q] exI [of _ ?e] exI [of _ h'] exI [of _ "if texts (map snd as) = [] then 0 else p"]) simp
  qed
qed

text \<open>Taking the oldest error and freeing its text.\<close>

lemma take_first_rep:
  assumes "fifo_inv q" "heap_rep h p (texts (map snd (a # as)))"
    "map error_code (fifo_list q) = map fst (a # as)"
    "map device_dependent_info (fifo_list q) = info_ptrs (heap_size h) p (map snd (a # as))"
  shows "\<exists>q' e h' p'. fifo_remove q (Some v) = (True, Some e, q') \<and> fifo_inv q' \<and> fifo_size q' = fifo_size q \<and>
    error_code e = fst a \<and> heap_text h (device_dependent_info e) = snd a \<and>
    (device_dependent_info e = None) = (snd a = None) \<and>
    scpiheap_free h (device_dependent_info e) False = Some h' \<and> heap_size h' = heap_size h \<and>
    heap_rep h' p' (texts (map snd as)) \<and> map error_code (fifo_list q') = map fst as \<and>
    map device_dependent_info (fifo_list q') = info_ptrs (heap_size h') p' (map snd as)"
proof -
  have p: "p < heap_size h" using assms(2) by (simp add: heap_rep_def)
  obtain e es where s: "fifo_list q = e # es" using assms(3) by (cases "fifo_list q") auto
  let ?q = "snd (snd (fifo_remove q (Some v)))"
  note l = fifo_remove_ok [OF assms(1) s, of "Some v"]
  have r: "fifo_remove q (Some v) = (True, Some e, ?q)" using l(1,2) by (cases "fifo_remove q (Some v)") auto
  have e: "error_code e = fst a" using assms(3) s by simp
  show ?thesis
  proof (cases "snd a")
    case None
    then show ?thesis using r l e s assms
      by (intro exI [of _ ?q] exI [of _ e] exI [of _ h] exI [of _ p]) (simp add: scpiheap_free_def heap_text_def)
  next
    case (Some t)
    then have i: "device_dependent_info e = Some p" "heap_rep h p (t # texts (map snd as))"
      "map device_dependent_info es = info_ptrs (heap_size h) ((p + (length t + 1)) mod heap_size h) (map snd as)"
      using assms(2,4) s by auto
    obtain h' where h': "scpiheap_free h (Some p) False = Some h'" "heap_size h' = heap_size h"
      "heap_rep h' (if texts (map snd as) = [] then 0 else (p + (length t + 1)) mod heap_size h) (texts (map snd as))"
      using free_first [OF i(2)] by auto
    have "heap_text h (Some p) = Some t" using heap_text_rep [of h p "[]" t "texts (map snd as)"] i(2) p by simp
    then show ?thesis
      using r l e s i h' Some assms(3) info_ptrs_no_text [of "map snd as" "heap_size h" "(p + (length t + 1)) mod heap_size h" 0]
      by (intro exI [of _ ?q] exI [of _ e] exI [of _ h']
          exI [of _ "if texts (map snd as) = [] then 0 else (p + (length t + 1)) mod heap_size h"]) simp
  qed
qed

text \<open>One operation of the device on its errors.\<close>

lemma EmitEmpty_info_fields [simp]:
  "info_queue (SCPI_ErrorEmitEmpty_info s) = info_queue s" "error_info_heap (SCPI_ErrorEmitEmpty_info s) = error_info_heap s"
  by (simp_all add: SCPI_ErrorEmitEmpty_info_def)

lemma info_rep_rest: "info_queue s' = info_queue s \<Longrightarrow> error_info_heap s' = error_info_heap s \<Longrightarrow> info_rep s' p as = info_rep s p as"
  by (simp add: info_rep_def)

lemma info_rep_length: "info_rep s p as \<Longrightarrow> length as = fifo_cnt (info_queue s)"
  by (metis info_rep_def length_fifo_list length_map)

lemma ErrorAddInternal_info_rep:
  assumes r: "info_rep s p as" and i: "info_readable info len" "m = (if len = 0 then length (the (info_text info len)) else len)"
  defines "t \<equiv> info_text info len" and "cap \<equiv> fifo_size (info_queue s)" and "n \<equiv> heap_size (error_info_heap s)"
  shows "\<exists>s' p'. SCPI_ErrorAddInternal_info s err info m = Some (length as < cap, s') \<and> rest_of s' = rest_of s \<and>
    info_rep s' p' (list_push cap n err t as) \<and> fifo_size (info_queue s') = cap \<and> heap_size (error_info_heap s') = n"
proof -
  let ?h = "error_info_heap s" and ?q = "info_queue s" and ?k = "info_kept n as t"
  have f: "fifo_inv ?q" "heap_rep ?h p (texts (map snd as))" "map error_code (fifo_list ?q) = map fst as"
    "map device_dependent_info (fifo_list ?q) = info_ptrs n p (map snd as)"
    using r by (simp_all add: info_rep_def n_def)
  have p: "p < n" using f(2) by (simp add: heap_rep_def n_def)
  have "\<exists>h'. (case info of None \<Rightarrow> Some (None, ?h) | Some i \<Rightarrow> scpiheap_strndup ?h (Some i) m) =
      Some (map_option (\<lambda>_. heap_wr ?h) ?k, h') \<and> heap_size h' = n \<and>
      heap_rep h' p (texts (map snd as) @ (case ?k of None \<Rightarrow> [] | Some x \<Rightarrow> [x]))"
  proof (cases info)
    case None
    then show ?thesis using f(2) by (simp add: t_def info_text_def info_kept_def n_def)
  next
    case (Some str)
    have "NUL \<in> set str \<or> info_limit len < length str" using i(1) Some by (simp add: info_readable_def)
    moreover have "0 < info_limit len" by (simp add: info_limit_def SCPI_STD_ERROR_DESC_MAX_STRING_LENGTH_def)
    moreover have "m = info_limit len \<or> m = length (bounded_text str (info_limit len))"
      using i(2) Some by (simp add: info_text_def info_limit_def)
    ultimately show ?thesis using strndup_kept [OF f(2) refl, of str "info_limit len" m] Some
      by (simp add: t_def info_text_def n_def)
  qed
  then obtain h1 where h1: "(case info of None \<Rightarrow> Some (None, ?h) | Some i \<Rightarrow> scpiheap_strndup ?h (Some i) m) =
      Some (map_option (\<lambda>_. heap_wr ?h) ?k, h1)" "heap_size h1 = n"
      "heap_rep h1 p (texts (map snd as) @ (case ?k of None \<Rightarrow> [] | Some x \<Rightarrow> [x]))" by blast
  have tx: "texts (map snd (as @ [(err, ?k)])) = texts (map snd as) @ (case ?k of None \<Rightarrow> [] | Some x \<Rightarrow> [x])"
    by (cases ?k) simp_all
  have wr: "heap_wr ?h = (p + length (heap_cells (texts (map snd as)))) mod n" using f(2) by (simp add: heap_rep_def n_def)
  define e where "e = \<lparr>error_code = err, device_dependent_info = map_option (\<lambda>_. heap_wr ?h) ?k\<rparr>"
  have ptr: "map device_dependent_info (fifo_list ?q @ [e]) = info_ptrs n p (map snd (as @ [(err, ?k)]))"
    using f(4) info_ptrs_snoc [OF p, of "map snd as" ?k] wr by (cases ?k) (simp_all add: e_def)
  show ?thesis
  proof (cases "length as < cap")
    case True
    then have room: "fifo_cnt ?q < fifo_size ?q" using info_rep_length [OF r] by (simp add: cap_def)
    note a = fifo_add_room [OF f(1) room, of e]
    obtain q' where q': "fifo_add ?q (Some e) = (True, q')" using a(1) by (cases "fifo_add ?q (Some e)") auto
    let ?s = "s\<lparr>info_queue := q', error_info_heap := h1\<rparr>"
    have "SCPI_ErrorAddInternal_info s err info m = Some (True, ?s)"
      by (simp add: SCPI_ErrorAddInternal_info_def h1(1) e_def [symmetric] q')
    moreover have "info_rep ?s p (as @ [(err, ?k)])"
      using a q' h1(2,3) f(3) ptr tx by (simp add: info_rep_def e_def)
    ultimately show ?thesis using True a(4) q' h1(2)
      by (intro exI [of _ ?s] exI [of _ p]) (simp add: list_push_def cap_def)
  next
    case False
    have full: "fifo_cnt ?q = fifo_size ?q" "length as = fifo_cnt ?q"
      using False info_rep_length [OF r] f(1) by (simp_all add: cap_def fifo_inv_def)
    then obtain bs b where as: "as = bs @ [b]" using f(1) by (cases as rule: rev_cases) (auto simp: fifo_inv_def)
    obtain h2 p2 where h2: "scpiheap_free h1 (device_dependent_info e) True = Some h2" "heap_size h2 = n"
      "heap_rep h2 p2 (texts (map snd as))" "info_ptrs n p2 (map snd as) = info_ptrs n p (map snd as)"
    proof (cases ?k)
      case None
      then show ?thesis using that [of h1 p] h1(2,3) by (simp add: e_def scpiheap_free_def)
    next
      case (Some x)
      then show ?thesis using that free_last [of h1 p "texts (map snd as)" x] h1(2,3) wr
          info_ptrs_no_text [of "map snd as" n 0 p] by (fastforce simp: e_def split: if_splits)
    qed
    obtain q3 c h3 p3 where d: "fifo_remove_last ?q (Some e) = (True, Some c, q3)" "fifo_inv q3" "fifo_size q3 = fifo_size ?q"
      "fifo_cnt q3 = fifo_cnt ?q - 1" "scpiheap_free h2 (device_dependent_info c) True = Some h3" "heap_size h3 = n"
      "heap_rep h3 p3 (texts (map snd bs))" "map error_code (fifo_list q3) = map fst bs"
      "map device_dependent_info (fifo_list q3) = info_ptrs n p3 (map snd bs)"
      using drop_last_rep [of ?q h2 p2 bs b e] f(1,3,4) h2 unfolding as by auto
    let ?m = "\<lparr>error_code = SCPI_ERROR_QUEUE_OVERFLOW, device_dependent_info = None\<rparr>"
    have room: "fifo_cnt q3 < fifo_size q3" using d(3,4) full f(1) by (simp add: fifo_inv_def)
    note a = fifo_add_room [OF d(2) room, of ?m]
    obtain q4 where q4: "fifo_add q3 (Some ?m) = (True, q4)" using a(1) by (cases "fifo_add q3 (Some ?m)") auto
    let ?s = "s\<lparr>info_queue := q4, error_info_heap := h3\<rparr>"
    have p3: "p3 < n" using d(6,7) by (simp add: heap_rep_def)
    have "SCPI_ErrorAddInternal_info s err info m = Some (False, ?s)"
      using fifo_add_full [OF full(1), of "Some e"] h2(1) d(1,5) q4
      by (simp add: SCPI_ErrorAddInternal_info_def h1(1) e_def [symmetric] Let_def)
    moreover have "info_rep ?s p3 (bs @ [(SCPI_ERROR_QUEUE_OVERFLOW, None)])"
      using a q4 d info_ptrs_snoc [OF p3, of "map snd bs" None] by (simp add: info_rep_def)
    ultimately show ?thesis using False a(4) q4 d(3,6) as
      by (intro exI [of _ ?s] exI [of _ p3]) (simp add: list_push_def cap_def)
  qed
qed

lemma ErrorPushEx_info_rep:
  assumes "info_rep s p as" "info_readable info len"
  shows "\<exists>s' p'. SCPI_ErrorPushEx_info s err info len = Some s' \<and>
    info_rep s' p' (list_push (fifo_size (info_queue s)) (heap_size (error_info_heap s)) err (info_text info len) as) \<and>
    fifo_size (info_queue s') = fifo_size (info_queue s) \<and> heap_size (error_info_heap s') = heap_size (error_info_heap s)"
proof -
  let ?m = "if len = 0 \<and> info \<noteq> None then length (the (info_text info len)) else len"
  have l: "(case info of Some i \<Rightarrow> if len = 0 then strnlen_mem i SCPI_STD_ERROR_DESC_MAX_STRING_LENGTH else Some len
      | None \<Rightarrow> Some len) = Some ?m"
    using assms(2) bounded_text_readable(2) [OF refl, of "the info" "info_limit len"]
    by (auto simp: info_text_def info_limit_def info_readable_def split: option.split if_splits)
  have "\<exists>s' p'. SCPI_ErrorAddInternal_info s err info ?m = Some (length as < fifo_size (info_queue s), s') \<and>
    rest_of s' = rest_of s \<and>
    info_rep s' p' (list_push (fifo_size (info_queue s)) (heap_size (error_info_heap s)) err (info_text info len) as) \<and>
    fifo_size (info_queue s') = fifo_size (info_queue s) \<and> heap_size (error_info_heap s') = heap_size (error_info_heap s)"
  proof (cases info)
    case None
    then show ?thesis using ErrorAddInternal_info_rep [OF assms refl] by (simp add: SCPI_ErrorAddInternal_info_def)
  next
    case Some
    then show ?thesis using ErrorAddInternal_info_rep [OF assms refl] by simp
  qed
  then obtain s' p' where a: "SCPI_ErrorAddInternal_info s err info ?m = Some (length as < fifo_size (info_queue s), s')"
    "info_rep s' p' (list_push (fifo_size (info_queue s)) (heap_size (error_info_heap s)) err (info_text info len) as)"
    "fifo_size (info_queue s') = fifo_size (info_queue s)" "heap_size (error_info_heap s') = heap_size (error_info_heap s)" by blast
  obtain c where "SCPI_ErrorPushEx_info s err info len = Some (s'\<lparr>rest_of := c\<rparr>)"
    unfolding SCPI_ErrorPushEx_info_def l Option.bind.simps a(1) prod.case Let_def by blast
  then show ?thesis using a(2-4) by (intro exI [of _ "s'\<lparr>rest_of := c\<rparr>"] exI [of _ p']) (simp add: info_rep_def)
qed

lemma drain_rep:
  assumes "fifo_inv q" "heap_rep h p (texts (map snd as))" "map error_code (fifo_list q) = map fst as"
    "map device_dependent_info (fifo_list q) = info_ptrs (heap_size h) p (map snd as)"
  shows "\<exists>q' h' p'. error_drain e q h = Some (q', h') \<and> fifo_inv q' \<and> fifo_size q' = fifo_size q \<and> fifo_list q' = [] \<and>
    heap_rep h' p' [] \<and> heap_size h' = heap_size h"
  using assms
proof (induction as arbitrary: e q h p)
  case Nil
  then have z: "fifo_cnt q = 0" by (simp add: fifo_list_def)
  then have "error_drain e q h = Some (q, h)" by (subst error_drain.simps) (simp add: fifo_remove_def fifo_is_empty_def)
  then show ?case using Nil z by auto
next
  case (Cons a as)
  obtain q' c h' p' where t: "fifo_remove q (Some e) = (True, Some c, q')" "fifo_inv q'" "fifo_size q' = fifo_size q"
    "scpiheap_free h (device_dependent_info c) False = Some h'" "heap_size h' = heap_size h"
    "heap_rep h' p' (texts (map snd as))" "map error_code (fifo_list q') = map fst as"
    "map device_dependent_info (fifo_list q') = info_ptrs (heap_size h') p' (map snd as)"
    using take_first_rep [OF Cons.prems, of e] by blast
  have "error_drain e q h = error_drain c q' h'" by (subst error_drain.simps) (simp add: t(1,4))
  then show ?case using Cons.IH [OF t(2,6,7,8), of c] t(3,5) by simp
qed

lemma ErrorClear_info_rep:
  assumes "info_rep s p as"
  shows "\<exists>s' p'. SCPI_ErrorClear_info s = Some s' \<and> info_rep s' p' [] \<and>
    fifo_size (info_queue s') = fifo_size (info_queue s) \<and> heap_size (error_info_heap s') = heap_size (error_info_heap s)"
proof -
  obtain q' h' p' where d: "error_drain no_error_info (info_queue s) (error_info_heap s) = Some (q', h')" "fifo_inv q'"
    "fifo_size q' = fifo_size (info_queue s)" "heap_rep h' p' []" "heap_size h' = heap_size (error_info_heap s)"
    using drain_rep assms unfolding info_rep_def by metis
  have "info_rep (s\<lparr>info_queue := fifo_clear q', error_info_heap := h'\<rparr>) p' []"
    using d(4) fifo_clear_ok [OF d(2)] by (simp add: info_rep_def del: fifo_list_empty)
  then show ?thesis using d fifo_clear_ok [OF d(2)]
    by (simp add: SCPI_ErrorClear_info_def info_rep_def) (simp add: fifo_clear_def, blast)
qed

lemma ErrorPop_info_rep:
  assumes "info_rep s p as"
  shows "\<exists>e q. SCPI_ErrorPop_info s (Some c) = (True, Some e, SCPI_ErrorEmitEmpty_info (s\<lparr>info_queue := q\<rparr>)) \<and>
    fifo_size q = fifo_size (info_queue s) \<and> error_code e = (case as of [] \<Rightarrow> 0 | a # _ \<Rightarrow> fst a) \<and>
    heap_text (error_info_heap s) (device_dependent_info e) = (case as of [] \<Rightarrow> None | a # _ \<Rightarrow> snd a) \<and>
    (device_dependent_info e = None) = (case as of [] \<Rightarrow> True | a # _ \<Rightarrow> snd a = None) \<and>
    (\<exists>h' p'. scpiheap_free (error_info_heap s) (device_dependent_info e) False = Some h' \<and>
      heap_size h' = heap_size (error_info_heap s) \<and>
      (\<forall>s'. info_queue s' = q \<and> error_info_heap s' = h' \<longrightarrow> info_rep s' p' (tl as)))"
proof (cases as)
  case Nil
  then have "fifo_is_empty (info_queue s)" using info_rep_length [OF assms] by (simp add: fifo_is_empty_def)
  then show ?thesis using Nil assms
    by (intro exI [of _ "c\<lparr>error_code := 0, device_dependent_info := None\<rparr>"] exI [of _ "info_queue s"] conjI
          exI [of _ "error_info_heap s"] exI [of _ p])
       (auto simp: SCPI_ErrorPop_info_def fifo_remove_def scpiheap_free_def heap_text_def info_rep_def)
next
  case (Cons a as')
  let ?c = "c\<lparr>error_code := 0, device_dependent_info := None\<rparr>"
  have r: "fifo_inv (info_queue s)" "heap_rep (error_info_heap s) p (texts (map snd (a # as')))"
    "map error_code (fifo_list (info_queue s)) = map fst (a # as')"
    "map device_dependent_info (fifo_list (info_queue s)) = info_ptrs (heap_size (error_info_heap s)) p (map snd (a # as'))"
    using assms unfolding info_rep_def Cons by auto
  obtain q' e h' p' where t: "fifo_remove (info_queue s) (Some ?c) = (True, Some e, q')" "fifo_inv q'"
    "fifo_size q' = fifo_size (info_queue s)" "error_code e = fst a" "heap_text (error_info_heap s) (device_dependent_info e) = snd a"
    "(device_dependent_info e = None) = (snd a = None)"
    "scpiheap_free (error_info_heap s) (device_dependent_info e) False = Some h'" "heap_size h' = heap_size (error_info_heap s)"
    "heap_rep h' p' (texts (map snd as'))" "map error_code (fifo_list q') = map fst as'"
    "map device_dependent_info (fifo_list q') = info_ptrs (heap_size h') p' (map snd as')"
    using take_first_rep [OF r, of ?c] by (elim exE conjE) (rule that)
  show ?thesis using Cons t
    by (intro exI [of _ e] exI [of _ q'] conjI exI [of _ h'] exI [of _ p'])
       (simp_all add: SCPI_ErrorPop_info_def info_rep_def)
qed

subsection \<open>What \<^verbatim>\<open>SYSTem:ERRor?\<close> prints\<close>

text \<open>As much of a text as fits into \<open>n\<close> characters when its quotes are doubled; a quote that does not fit with its
  double is left out.\<close>

fun quoted_take :: "nat \<Rightarrow> string \<Rightarrow> string" where
  "quoted_take n [] = []"
| "quoted_take n (c # cs) =
     (if c = CHR 0x22 then (if n < 2 then [] else c # c # quoted_take (n - 2) cs)
      else if n = 0 then [] else c # quoted_take (n - 1) cs)"

lemma quote_char: "quote_char = [CHR 0x22]"
  by (simp add: quote_char_def)

lemma quoted_take_length: "length (quoted_take n cs) \<le> n"
  by (induction n cs rule: quoted_take.induct) auto

lemma quoted_take_plain:
  "CHR 0x22 \<notin> set xs \<Longrightarrow> quoted_take n (xs @ ys) = take n xs @ (if length xs \<le> n then quoted_take (n - length xs) ys else [])"
proof (induction xs arbitrary: n)
  case (Cons x xs)
  then show ?case by (cases n) auto
qed simp

lemma quoted_take_0 [simp]: "quoted_take 0 cs = []"
  by (cases cs) auto

lemma strnpbrk_split:
  assumes "NUL \<notin> set d"
  shows "strnpbrk d quote_char = None \<Longrightarrow> CHR 0x22 \<notin> set d"
    and "strnpbrk d quote_char = Some q \<Longrightarrow> \<exists>xs ys. d = xs @ CHR 0x22 # ys \<and> q = length xs \<and> CHR 0x22 \<notin> set xs"
  using assms
proof (induction d arbitrary: q)
  case (Cons c d)
  {
    case 1
    then show ?case using Cons.IH(1) by (auto simp: quote_char split: if_splits)
  next
    case 2
    show ?case
    proof (cases "c = CHR 0x22")
      case True
      then show ?thesis using 2 by (intro exI [of _ "[]"] exI [of _ d]) (simp add: quote_char)
    next
      case False
      then obtain q' where q': "strnpbrk d quote_char = Some q'" "q = Suc q'" using 2 by (auto simp: quote_char)
      then obtain xs ys where "d = xs @ CHR 0x22 # ys" "q' = length xs" "CHR 0x22 \<notin> set xs" using Cons.IH(2) 2(2) by fastforce
      then show ?thesis using q'(2) False by (intro exI [of _ "c # xs"] exI [of _ ys]) simp
    qed
  }
qed simp_all

lemma quoted_take_no_quote:
  assumes "CHR 0x22 \<notin> set (take n d)"
  shows "quoted_take n (d @ ds) = take n d @ quoted_take (n - length (take n d)) ds"
proof (cases "length d \<le> n")
  case True
  then show ?thesis using assms quoted_take_plain [of d n ds] by simp
next
  case False
  then have "length (take n d) = n" by simp
  moreover have "quoted_take n (take n d @ drop n d @ ds) = take n (take n d) @
      (if length (take n d) \<le> n then quoted_take (n - length (take n d)) (drop n d @ ds) else [])"
    by (rule quoted_take_plain [OF assms])
  ultimately show ?thesis by (simp only: append.assoc [symmetric] append_take_drop_id) simp
qed

lemma strnpbrk_no_quote: "NUL \<notin> set d \<Longrightarrow> CHR 0x22 \<notin> set d \<Longrightarrow> strnpbrk d quote_char = None"
  by (induction d) (auto simp: quote_char)

lemma error_part_loop_output:
  assumes "NUL \<notin> set d" "error_part_loop c (take n d) n = (c', rest, n')"
  shows "output_of c' @ rest = output_of c @ quoted_take n d \<and> length rest \<le> n' \<and>
    (\<forall>ds. quoted_take n (d @ ds) = quoted_take n d @ quoted_take (n' - length rest) ds)"
  using assms
proof (induction n arbitrary: c d rule: less_induct)
  case (less n)
  have z: "NUL \<notin> set (take n d)" using less.prems(1) by (auto dest: in_set_takeD)
  show ?case
  proof (cases "strnpbrk (take n d) quote_char")
    case None
    have "error_part_loop c (take n d) n = (c, take n d, n)" by (subst error_part_loop.simps) (simp add: None)
    then have p: "c' = c" "rest = take n d" "n' = n" using less.prems(2) by auto
    note q = quoted_take_no_quote [OF strnpbrk_split(1) [OF z None]]
    show ?thesis using q [of "[]"] q by (simp add: p)
  next
    case (Some q)
    obtain xs ys where x: "take n d = xs @ CHR 0x22 # ys" "q = length xs" "CHR 0x22 \<notin> set xs"
      using strnpbrk_split(2) [OF z Some] by blast
    have l: "length xs + 1 + length ys \<le> n" using x(1) by (metis add.assoc length_Cons length_append length_take min.cobounded2 plus_1_eq_Suc)
    have d: "d = xs @ CHR 0x22 # drop (q + 1) d" 
    proof -
      have "d = take n d @ drop n d" by simp
      then obtain zs where "d = xs @ CHR 0x22 # zs" using x(1) by (metis append.assoc append_Cons)
      then show ?thesis using x(2) by simp
    qed
    have split: "quoted_take n (d @ ds) = xs @ quoted_take (n - length xs) (CHR 0x22 # drop (q + 1) d @ ds)" for ds
    proof -
      have "quoted_take n (xs @ CHR 0x22 # drop (q + 1) d @ ds) = xs @ quoted_take (n - length xs) (CHR 0x22 # drop (q + 1) d @ ds)"
        using quoted_take_plain [OF x(3), of n "CHR 0x22 # drop (q + 1) d @ ds"] l by simp
      moreover have e: "d @ ds = xs @ CHR 0x22 # drop (q + 1) d @ ds" using arg_cong [OF d, of "\<lambda>x. x @ ds"] by simp
      ultimately show ?thesis by (subst e)
    qed
    show ?thesis
    proof (cases "q + 1 \<ge> n")
      case True
      then have "ys = []" "n - length xs = 1" "n = length xs + 1" using l x(2) by (cases ys; simp)+
      moreover have "error_part_loop c (take n d) n = (c, butlast (take n d), n - 1)"
        using Some True by (subst error_part_loop.simps) (simp add: Let_def)
      then have "c' = c" "rest = butlast (take n d)" "n' = n - 1" using less.prems(2) by auto
      ultimately show ?thesis using split [of "[]"] split x(1) by simp
    next
      case False
      let ?n = "n - (q + 2)" and ?c = "writeData (writeData c (take (q + 1) (take n d))) quote_char"
      have e: "take ?n (drop (q + 1) (take n d)) = take ?n (drop (q + 1) d)" using False by (simp add: drop_take)
      have r: "error_part_loop ?c (take ?n (drop (q + 1) d)) ?n = (c', rest, n')"
        using Some False e by (subst less.prems(2) [symmetric], subst (2) error_part_loop.simps) (simp add: Let_def)
      have "NUL \<notin> set (drop (q + 1) d)" using less.prems(1) by (auto dest: in_set_dropD)
      then have ih: "output_of c' @ rest = output_of ?c @ quoted_take ?n (drop (q + 1) d)" "length rest \<le> n'"
        "quoted_take ?n (drop (q + 1) d @ ds) = quoted_take ?n (drop (q + 1) d) @ quoted_take (n' - length rest) ds" for ds
        using less.IH [OF _ _ r] False by auto
      have o: "output_of ?c = output_of c @ xs @ [CHR 0x22, CHR 0x22]"
        using x by (simp add: quote_char)
      have "\<not> n - length xs < 2" "n - length xs - 2 = ?n" using False x(2) by auto
      then have s2: "quoted_take n (d @ ds) = xs @ CHR 0x22 # CHR 0x22 # quoted_take ?n (drop (q + 1) d @ ds)" for ds
        unfolding split by simp
      show ?thesis using ih s2 s2 [of "[]"] o by simp
    qed
  qed
qed

lemma error_desc_loop_end: "0 < i \<Longrightarrow> error_desc_loop c i ds 0 = c"
  by (cases ds) simp_all

lemma error_desc_loop_more:
  "1 < i \<Longrightarrow> (\<forall>d \<in> set ds. NUL \<notin> set d) \<Longrightarrow> output_of (error_desc_loop c i ds n) = output_of c @ quoted_take n (concat ds)"
proof (induction ds arbitrary: c i n)
  case (Cons d ds)
  show ?case
  proof (cases "n = 0")
    case False
    obtain c' rest n' where l: "error_part_loop c (take n d) n = (c', rest, n')" by (metis prod_cases3)
    note o = error_part_loop_output [OF _ l]
    show ?thesis using False Cons.IH [of "i + 1" "writeData c' rest" "n' - length rest"] Cons.prems o
      by (simp add: l flip: append_assoc)
  qed (use Cons in simp)
qed simp

text \<open>The whole description: the standard text, then a semicolon and the text of the error, up to the limit.\<close>

lemma error_desc_output:
  assumes "\<forall>d \<in> set ds. NUL \<notin> set d" "NUL \<notin> set T" "CHR 0x22 \<notin> set T" "length T \<le> n" "0 < output_count c"
  shows "output_of (error_desc_loop c 0 (T # ds) n) =
    output_of c @ quoted_take n (T @ (if ds = [] then [] else '';'' @ concat ds))"
proof (cases "n = 0")
  case True
  then show ?thesis by simp
next
  case False
  have l: "error_part_loop c (take n T) n = (c, T, n)"
    using assms(4) strnpbrk_no_quote [OF assms(2,3)] by (subst error_part_loop.simps) simp
  have d: "error_desc_loop c 0 (T # ds) n = error_desc_loop (writeData c T) 1 ds (n - length T)"
    using False l by simp
  have q: "quoted_take n (T @ r) = T @ quoted_take (n - length T) r" for r
    using quoted_take_plain [OF assms(3), of n r] assms(4) by simp
  show ?thesis
  proof (cases "ds = [] \<or> n - length T = 0")
    case True
    then show ?thesis using d q [of "[]"] q error_desc_loop_end [of 1] by auto
  next
    case False
    then obtain e es where e: "ds = e # es" by (cases ds) auto
    obtain c' rest n' where p: "error_part_loop (writeSemicolon (writeData c T)) (take (n - length T - 1) e) (n - length T - 1) = (c', rest, n')"
      by (metis prod_cases3)
    have "NUL \<notin> set e" using assms(1) e by simp
    note o = error_part_loop_output [OF this p]
    have "error_desc_loop c 0 (T # ds) n = error_desc_loop (writeData c' rest) 2 es (n' - length rest)"
      using False p unfolding d unfolding e by (simp add: numeral_2_eq_2)
    then have "output_of (error_desc_loop c 0 (T # ds) n) = output_of c' @ rest @ quoted_take (n' - length rest) (concat es)"
      using error_desc_loop_more [of 2 es] assms(1) e by simp
    also have "\<dots> = output_of (writeSemicolon (writeData c T)) @ quoted_take (n - length T - 1) (e @ concat es)"
      using o by simp
    also have "\<dots> = output_of c @ T @ '';'' @ quoted_take (n - length T - 1) (concat ds)"
      using assms(5) e by (simp add: writeSemicolon_def)
    finally show ?thesis using False e q by simp
  qed
qed

lemma error_info_parts_text:
  assumes "heap_text h ptr = t" "(ptr = None) = (t = None)"
  shows "\<exists>ps. error_info_parts h ptr = Some ps \<and> (case t of None \<Rightarrow> ps = [] | Some x \<Rightarrow> ps \<noteq> [] \<and> concat ps = x)"
proof (cases ptr)
  case None
  then show ?thesis using assms by (simp add: error_info_parts_def)
next
  case (Some p)
  then obtain x where "t = Some x" using assms(2) by auto
  then show ?thesis using assms(1) Some
    by (auto simp: heap_text_def error_info_parts_def split: option.splits)
qed

definition error_desc :: "int \<Rightarrow> string option \<Rightarrow> string" where
  "error_desc err t = SCPI_ErrorTranslate err @ (case t of None \<Rightarrow> [] | Some x \<Rightarrow> '';'' @ x)"

lemma ErrorTranslate_chars: "NUL \<notin> set (SCPI_ErrorTranslate n)" "CHR 0x22 \<notin> set (SCPI_ErrorTranslate n)"
  by (simp_all add: SCPI_ErrorTranslate_def)

lemma ResultError_info_output:
  assumes "heap_text (error_info_heap s) (device_dependent_info e) = t" "(device_dependent_info e = None) = (t = None)"
    "\<And>x. t = Some x \<Longrightarrow> NUL \<notin> set x"
  shows "\<exists>c. SCPI_ResultError_info s e = Some (s\<lparr>rest_of := c\<rparr>) \<and> (0 \<le> output_count (rest_of s) \<longrightarrow>
    output_of c = output_of (rest_of s) @ (if output_count (rest_of s) > 0 then '','' else []) @
      SCPI_Int32ToStr (word_of_int (error_code e)) 33 @ '','' @ quote_char @
      quoted_take 255 (error_desc (error_code e) t) @ quote_char)"
proof -
  obtain ps where ps: "error_info_parts (error_info_heap s) (device_dependent_info e) = Some ps"
    "case t of None \<Rightarrow> ps = [] | Some x \<Rightarrow> ps \<noteq> [] \<and> concat ps = x"
    using error_info_parts_text [OF assms(1,2)] by blast
  define c1 where "c1 = writeData (writeDelimiter (SCPI_ResultInt32 (rest_of s) (word_of_int (error_code e)))) quote_char"
  define c2 where "c2 = writeData (error_desc_loop c1 0 (SCPI_ErrorTranslate (error_code e) # ps) 255) quote_char"
  have "SCPI_ResultError_info s e = Some (s\<lparr>rest_of := c2\<rparr>)"
    by (simp add: SCPI_ResultError_info_def ps(1) Let_def c1_def c2_def SCPI_STD_ERROR_DESC_MAX_STRING_LENGTH_def del: error_desc_loop.simps)
  moreover have "output_of c2 = output_of (rest_of s) @ (if output_count (rest_of s) > 0 then '','' else []) @
      SCPI_Int32ToStr (word_of_int (error_code e)) 33 @ '','' @ quote_char @
      quoted_take 255 (error_desc (error_code e) t) @ quote_char" if n: "0 \<le> output_count (rest_of s)"
  proof -
    have c1: "output_of c1 = output_of (rest_of s) @ (if output_count (rest_of s) > 0 then '','' else []) @
        SCPI_Int32ToStr (word_of_int (error_code e)) 33 @ '','' @ quote_char" "0 < output_count c1"
      using n by (simp_all add: c1_def ResultInt32_output writeDelimiter_def)
    have "\<forall>d \<in> set ps. NUL \<notin> set d"
      using ps(2) assms(3) by (cases t) auto
    note o = error_desc_output [OF this ErrorTranslate_chars ErrorTranslate_plain(2) c1(2)]
    have "SCPI_ErrorTranslate (error_code e) @ (if ps = [] then [] else '';'' @ concat ps) = error_desc (error_code e) t"
      using ps(2) by (cases t) (auto simp: error_desc_def)
    then show ?thesis using o [of "error_code e"] c1(1) by (simp add: c2_def del: error_desc_loop.simps)
  qed
  ultimately show ?thesis by blast
qed

lemma info_rep_no_NUL: "info_rep s p as \<Longrightarrow> (c, Some x) \<in> set as \<Longrightarrow> x \<noteq> [] \<and> NUL \<notin> set x"
proof -
  have "(c, Some x) \<in> set as \<Longrightarrow> x \<in> set (texts (map snd as))"
    by (induction as) (auto split: option.splits simp: texts_def)
  then show "info_rep s p as \<Longrightarrow> (c, Some x) \<in> set as \<Longrightarrow> x \<noteq> [] \<and> NUL \<notin> set x"
    by (auto simp: info_rep_def heap_rep_def)
qed

lemma EmitEmpty_info_output:
  "output_of (rest_of (SCPI_ErrorEmitEmpty_info s)) = output_of (rest_of s)"
  "output_count (rest_of (SCPI_ErrorEmitEmpty_info s)) = output_count (rest_of s)"
  using output_of_ErrorEmitEmpty by (simp_all add: SCPI_ErrorEmitEmpty_info_def SCPI_RegClearBits_def output_of_RegSet call_error_def output_of_emit)

lemma ErrorNext_info_rep:
  assumes "info_rep s p as"
  defines "a \<equiv> (case as of [] \<Rightarrow> (0, None) | a # _ \<Rightarrow> a)"
  shows "\<exists>s' p'. SCPI_SystemErrorNextQ_info s = Some (SCPI_RES_OK, s') \<and> info_rep s' p' (tl as) \<and>
    fifo_size (info_queue s') = fifo_size (info_queue s) \<and> heap_size (error_info_heap s') = heap_size (error_info_heap s) \<and>
    (0 \<le> output_count (rest_of s) \<longrightarrow> output_of (rest_of s') = output_of (rest_of s) @ (if output_count (rest_of s) > 0 then '','' else []) @
      SCPI_Int32ToStr (word_of_int (fst a)) 33 @ '','' @ quote_char @ quoted_take 255 (error_desc (fst a) (snd a)) @ quote_char)"
proof -
  obtain e q h' p' where pop: "SCPI_ErrorPop_info s (Some no_error_info) = (True, Some e, SCPI_ErrorEmitEmpty_info (s\<lparr>info_queue := q\<rparr>))"
    "fifo_size q = fifo_size (info_queue s)" "error_code e = fst a"
    "heap_text (error_info_heap s) (device_dependent_info e) = snd a" "(device_dependent_info e = None) = (snd a = None)"
    "scpiheap_free (error_info_heap s) (device_dependent_info e) False = Some h'" "heap_size h' = heap_size (error_info_heap s)"
    "\<And>s'. info_queue s' = q \<Longrightarrow> error_info_heap s' = h' \<Longrightarrow> info_rep s' p' (tl as)"
  proof -
    have a: "(case as of [] \<Rightarrow> 0 | a # _ \<Rightarrow> fst a) = fst a" "(case as of [] \<Rightarrow> None | a # _ \<Rightarrow> snd a) = snd a"
      "(case as of [] \<Rightarrow> True | a # _ \<Rightarrow> snd a = None) = (snd a = None)" by (cases as; simp add: a_def)+
    from ErrorPop_info_rep [OF assms(1), of no_error_info, unfolded a] show ?thesis
      by (elim exE conjE) (rule that; blast)
  qed
  let ?s = "SCPI_ErrorEmitEmpty_info (s\<lparr>info_queue := q\<rparr>)"
  have n: "NUL \<notin> set x" if "snd a = Some x" for x
    using info_rep_no_NUL [OF assms(1), of "fst a" x] that by (cases as) (auto simp: a_def)
  obtain c where c: "SCPI_ResultError_info ?s e = Some (?s\<lparr>rest_of := c\<rparr>)"
    "0 \<le> output_count (rest_of s) \<longrightarrow> output_of c = output_of (rest_of s) @ (if output_count (rest_of s) > 0 then '','' else []) @
      SCPI_Int32ToStr (word_of_int (fst a)) 33 @ '','' @ quote_char @ quoted_take 255 (error_desc (fst a) (snd a)) @ quote_char"
    using ResultError_info_output [of ?s e "snd a"] pop(3-5) n by (auto simp: EmitEmpty_info_output)
  show ?thesis using pop(1,2,6,7,8) c
    by (intro exI [of _ "?s\<lparr>rest_of := c, error_info_heap := h'\<rparr>"] exI [of _ p'])
       (simp add: SCPI_SystemErrorNextQ_info_def)
qed

subsection \<open>Histories\<close>

datatype info_op = InfoPush int "string option" nat | InfoNext | InfoClear

fun info_step :: "info_op \<Rightarrow> scpi_info_t \<Rightarrow> scpi_info_t option" where
  "info_step (InfoPush err info info_len) s = SCPI_ErrorPushEx_info s err info info_len"
| "info_step InfoNext s = map_option snd (SCPI_SystemErrorNextQ_info s)"
| "info_step InfoClear s = SCPI_ErrorClear_info s"

fun info_run :: "info_op list \<Rightarrow> scpi_info_t \<Rightarrow> scpi_info_t option" where
  "info_run [] s = Some s"
| "info_run (x # xs) s = do { s' \<leftarrow> info_step x s; info_run xs s' }"

text \<open>The same on the list of errors with their texts.\<close>

fun list_step :: "nat \<Rightarrow> nat \<Rightarrow> info_op \<Rightarrow> (int \<times> string option) list \<Rightarrow> (int \<times> string option) list" where
  "list_step cap n (InfoPush err info info_len) as = list_push cap n err (info_text info info_len) as"
| "list_step cap n InfoNext as = tl as"
| "list_step cap n InfoClear as = []"

fun op_readable :: "info_op \<Rightarrow> bool" where
  "op_readable (InfoPush err info info_len) = info_readable info info_len"
| "op_readable _ = True"

lemma info_step_rep:
  assumes "info_rep s p as" "op_readable x"
  shows "\<exists>s' p'. info_step x s = Some s' \<and>
    info_rep s' p' (list_step (fifo_size (info_queue s)) (heap_size (error_info_heap s)) x as) \<and>
    fifo_size (info_queue s') = fifo_size (info_queue s) \<and> heap_size (error_info_heap s') = heap_size (error_info_heap s)"
proof (cases x)
  case (InfoPush err info len)
  then show ?thesis using ErrorPushEx_info_rep [OF assms(1)] assms(2) by simp
next
  case InfoNext
  then show ?thesis using ErrorNext_info_rep [OF assms(1)] by force
next
  case InfoClear
  then show ?thesis using ErrorClear_info_rep [OF assms(1)] by simp
qed

lemma info_run_rep:
  assumes "info_rep s p as" "list_all op_readable xs"
  shows "\<exists>s' p'. info_run xs s = Some s' \<and>
    info_rep s' p' (fold (list_step (fifo_size (info_queue s)) (heap_size (error_info_heap s))) xs as)"
  using assms
proof (induction xs arbitrary: s p as)
  case (Cons x xs)
  obtain s' p' where x: "info_step x s = Some s'"
    "info_rep s' p' (list_step (fifo_size (info_queue s)) (heap_size (error_info_heap s)) x as)"
    "fifo_size (info_queue s') = fifo_size (info_queue s)" "heap_size (error_info_heap s') = heap_size (error_info_heap s)"
    using info_step_rep [OF Cons.prems(1), of x] Cons.prems(2) by (simp, blast)
  show ?case using Cons.IH [OF x(2)] Cons.prems(2) x by simp
qed auto

definition info_start :: "scpi_info_t \<Rightarrow> scpi_error_info_t list \<Rightarrow> string \<Rightarrow> scpi_info_t option" where
  "info_start s cells buf = SCPI_InitHeap (SCPI_ErrorInit_info s cells (length cells)) buf (length buf)"

lemma info_start_rep:
  assumes "cells \<noteq> []" "buf \<noteq> []"
  shows "\<exists>s'. info_start s cells buf = Some s' \<and> info_rep s' 0 [] \<and> fifo_size (info_queue s') = length cells \<and>
    heap_size (error_info_heap s') = length buf \<and> rest_of s' = rest_of s"
proof -
  obtain h where "scpiheap_init buf (length buf) = Some h" "heap_rep h 0 []" "heap_size h = length buf"
    using scpiheap_init_rep [of buf "length buf"] assms by auto
  moreover have "fifo_inv (fifo_init cells (length cells))" using assms(1) by (intro fifo_init_inv) auto
  ultimately show ?thesis
    by (simp add: info_start_def SCPI_InitHeap_def SCPI_ErrorInit_info_def info_rep_def) (simp add: fifo_init_def)
qed

text \<open>C11: Starting with an empty queue and a heap of any size, whatever errors are pushed with whatever texts, read with
  \<^verbatim>\<open>SYSTem:ERRor?\<close> and cleared, every access to memory stays in bounds, and the texts that can be read behind the pointers in the
  queue are those of the bounded list: a text is kept whole while its error waits, or not at all when there is no room for it.
  The bytes behind a pushed text must include a terminator or go on past the given length.\<close>

theorem error_texts_kept:
  assumes "cells \<noteq> []" "buf \<noteq> []" "list_all op_readable xs"
  shows "\<exists>s'. do { s1 \<leftarrow> info_start s cells buf; info_run xs s1 } = Some s' \<and>
    info_view s' = fold (list_step (length cells) (length buf)) xs []"
proof -
  obtain s1 where s1: "info_start s cells buf = Some s1" "info_rep s1 0 []" "fifo_size (info_queue s1) = length cells"
    "heap_size (error_info_heap s1) = length buf" using info_start_rep [OF assms(1,2)] by blast
  then show ?thesis using info_run_rep [OF s1(2) assms(3)] info_rep_view by auto
qed

definition demo_info :: scpi_info_t where
  "demo_info = \<lparr>rest_of = demo_device, info_queue = fifo_init [] 0,
     error_info_heap = \<lparr>heap_wr = 0, heap_count = 0, heap_size = 0, heap_data = []\<rparr>\<rparr>"

lemma error_texts_kept_witness:
  "\<exists>s'. do { s1 \<leftarrow> info_start demo_info (replicate 2 no_error_info) ''????????'';
      info_run [InfoPush (- 113) (Some (''ABC'' @ [NUL])) 0, InfoPush (- 101) (Some ''DEFG'') 2, InfoNext,
        InfoPush (- 200) (Some (''HIJ'' @ [NUL])) 9] s1 } = Some s' \<and>
    info_view s' = [(- 101, Some ''DE''), (- 200, Some ''HIJ'')]"
proof -
  let ?xs = "[InfoPush (- 113) (Some (''ABC'' @ [NUL])) 0, InfoPush (- 101) (Some ''DEFG'') 2, InfoNext,
      InfoPush (- 200) (Some (''HIJ'' @ [NUL])) 9]"
  have f: "fold (list_step 2 8) ?xs [] = [(- 101, Some ''DE''), (- 200, Some ''HIJ'')]"
    by code_simp
  have l: "length (replicate 2 no_error_info) = 2" "length ''????????'' = 8" by simp_all
  have "list_all op_readable ?xs" by (simp add: info_readable_def info_limit_def)
  from error_texts_kept [OF _ _ this, of "replicate 2 no_error_info" "''????????''" demo_info, unfolded l f]
  show ?thesis by (simp del: info_run.simps)
qed

text \<open>C12: In any state that such a history reaches, \<^verbatim>\<open>SYSTem:ERRor[:NEXT]?\<close> returns and writes the code of the oldest error and in quotes
  its standard description and, behind a semicolon, its text, wherever the text lies in the ring: quotes are doubled, and at most
  255 characters appear between the outer quotes. The error and its text are gone afterwards.\<close>

theorem error_text_printed:
  assumes "cells \<noteq> []" "buf \<noteq> []" "list_all op_readable xs" "do { s1 \<leftarrow> info_start s0 cells buf; info_run xs s1 } = Some s"
    "0 \<le> output_count (rest_of s)"
  defines "a \<equiv> (case info_view s of [] \<Rightarrow> (0, None) | a # _ \<Rightarrow> a)"
  shows "\<exists>s'. SCPI_SystemErrorNextQ_info s = Some (SCPI_RES_OK, s') \<and> info_view s' = tl (info_view s) \<and>
    output_of (rest_of s') = output_of (rest_of s) @ (if output_count (rest_of s) > 0 then '','' else []) @
      SCPI_Int32ToStr (word_of_int (fst a)) 33 @ '','' @ quote_char @
      quoted_take 255 (SCPI_ErrorTranslate (fst a) @ (case snd a of None \<Rightarrow> [] | Some t \<Rightarrow> '';'' @ t)) @ quote_char"
proof -
  obtain s1 where s1: "info_start s0 cells buf = Some s1" "info_rep s1 0 []" using info_start_rep [OF assms(1,2)] by blast
  obtain p as where r: "info_rep s p as" using info_run_rep [OF s1(2) assms(3)] assms(4) s1(1) by auto
  note v = info_rep_view [OF r]
  show ?thesis using ErrorNext_info_rep [OF r] assms(5) info_rep_view
    unfolding a_def v error_desc_def by (metis (no_types, lifting))
qed

lemma output_count_RegSet [simp]: "output_count (SCPI_RegSet c r v) = output_count c"
proof (induction c r v rule: SCPI_RegSet.induct)
  case (1 ctx name val)
  have "output_count (reg_put n w c) = output_count c" "output_count (update_srq o' w c) = output_count c" for n w c o'
    by (simp_all add: reg_put_def update_srq_def writeControl_def emit_def Let_def)
  then show ?case using 1 by (subst SCPI_RegSet.simps) (auto simp: Let_def split: scpi_reg_class_t.split)
qed

lemma output_count_ErrorPushEx_info:
  assumes "SCPI_ErrorPushEx_info s err info len = Some s'"
  shows "output_count (rest_of s') = output_count (rest_of s)"
proof -
  have a: "rest_of t = rest_of s" if "SCPI_ErrorAddInternal_info s err info m = Some (b, t)" for m b t
    using that by (auto simp: SCPI_ErrorAddInternal_info_def Let_def split: Option.bind_splits prod.splits if_splits)
  have f: "output_count (fold (\<lambda>(from, to, esrBit) c.
      if err \<le> from \<and> to \<le> err then SCPI_RegSetBits c SCPI_REG_ESR esrBit else c) es c) = output_count c" for es c
    by (induction es arbitrary: c) (auto simp: SCPI_RegSetBits_def)
  have e: "output_count (SCPI_ErrorEmit c n) = output_count c" for c n
    by (simp add: SCPI_ErrorEmit_def call_error_def SCPI_RegSetBits_def emit_def)
  show ?thesis using assms a
    by (auto simp: SCPI_ErrorPushEx_info_def Let_def e f split: Option.bind_splits)
qed

lemma error_text_printed_witness:
  "\<exists>s s'. do { s1 \<leftarrow> info_start demo_info (replicate 2 no_error_info) ''????????'';
      info_run [InfoPush (- 113) (Some ([CHR ''A'', CHR 0x22, CHR ''B'', NUL])) 0] s1 } = Some s \<and>
    SCPI_SystemErrorNextQ_info s = Some (SCPI_RES_OK, s') \<and> info_view s' = [] \<and>
    output_of (rest_of s') = output_of (rest_of s) @ ''-113,'' @ quote_char @ ''Undefined header;A'' @ [CHR 0x22, CHR 0x22] @ ''B'' @ quote_char"
proof -
  let ?c = "replicate 2 no_error_info" and ?b = "''????????''" and ?i = "[CHR ''A'', CHR 0x22, CHR ''B'', NUL]"
  let ?xs = "[InfoPush (- 113) (Some ?i) 0]"
  obtain s1 where s1: "info_start demo_info ?c ?b = Some s1" "info_rep s1 0 []" "fifo_size (info_queue s1) = length ?c"
    "heap_size (error_info_heap s1) = length ?b" "rest_of s1 = demo_device"
    using info_start_rep [of ?c ?b demo_info] by (auto simp: demo_info_def)
  have r: "list_all op_readable ?xs" by (simp add: info_readable_def info_limit_def)
  obtain s p where s: "info_run ?xs s1 = Some s" "info_rep s p (fold (list_step (length ?c) (length ?b)) ?xs [])"
    using info_run_rep [OF s1(2) r] s1(3,4) by auto
  have "fold (list_step 2 8) ?xs [] = [(- 113, Some [CHR ''A'', CHR 0x22, CHR ''B''])]" by code_simp
  moreover have "length ?c = 2" "length ?b = 8" by simp_all
  ultimately have v: "info_view s = [(- 113, Some [CHR ''A'', CHR 0x22, CHR ''B''])]" using info_rep_view [OF s(2)] by metis
  have "SCPI_ErrorPushEx_info s1 (- 113) (Some ?i) 0 = Some s" using s(1) by (auto split: Option.bind_splits)
  then have o: "output_count (rest_of s) = 0"
    using output_count_ErrorPushEx_info s1(5) by (simp add: demo_device_def SCPI_Init_def SCPI_ErrorInit_def)
  have run: "do { s1 \<leftarrow> info_start demo_info ?c ?b; info_run ?xs s1 } = Some s" using s1(1) s(1) by simp
  have t: "SCPI_Int32ToStr (word_of_int (- 113)) 33 = ''-113''"
    "quoted_take 255 (SCPI_ErrorTranslate (- 113) @ '';'' @ [CHR ''A'', CHR 0x22, CHR ''B'']) =
      ''Undefined header;A'' @ [CHR 0x22, CHR 0x22] @ ''B''" by code_simp+
  show ?thesis
    using error_text_printed [OF _ _ r run, unfolded v o] t run by auto
qed

end
