(* ===== verification/Scpi_Info_Plain.thy ===== *)
theory Scpi_Info_Plain
  imports Scpi_Info
begin

text \<open>
  The build with error texts against the one without: what the application can observe of errors, apart from the
  texts that are written, is the same. The register operations, which both builds share, are shown once to
  commute with a change of view of the context; setting the error queue and hiding what is written are two such views.
\<close>

definition is_write :: "scpi_event \<Rightarrow> bool" where
  "is_write e = (case e of EvWrite _ \<Rightarrow> True | _ \<Rightarrow> False)"

locale status_view =
  fixes U :: "scpi_t \<Rightarrow> scpi_t"
  assumes put: "reg_put n w (U c) = U (reg_put n w c)"
    and emits: "\<not> is_write e \<Longrightarrow> emit e (U c) = U (emit e c)"
    and regs: "registers (U c) = registers c"
    and face: "interface (U c) = interface c"
begin

lemma srq: "update_srq v w (U c) = U (update_srq v w c)"
  by (simp add: update_srq_def Let_def regs put writeControl_def face emits is_write_def)

lemma RegGet: "SCPI_RegGet (U c) = SCPI_RegGet c"
  by (simp add: SCPI_RegGet_def regs fun_eq_iff)

lemma RegSet: "SCPI_RegSet (U c) r v = U (SCPI_RegSet c r v)"
proof (induction c r v rule: SCPI_RegSet.induct)
  case (1 ctx name val)
  note u = SCPI_RegSet.simps [of "U ctx" name val] SCPI_RegSet.simps [of ctx name val]
  show ?case
  proof (cases "name = SCPI_REG_NONE \<or> registers ctx name = val")
    case True
    then show ?thesis by (auto simp: u regs)
  next
    case False
    then show ?thesis
      using 1 unfolding u by (auto simp: Let_def put srq regs RegGet split: scpi_reg_class_t.split)
  qed
qed

lemma SetBits: "SCPI_RegSetBits (U c) r b = U (SCPI_RegSetBits c r b)"
  by (simp add: SCPI_RegSetBits_def RegGet RegSet)

lemma ClearBits: "SCPI_RegClearBits (U c) r b = U (SCPI_RegClearBits c r b)"
  by (simp add: SCPI_RegClearBits_def RegGet RegSet)

lemma call: "call_error n (U c) = U (call_error n c)"
  by (simp add: call_error_def face emits is_write_def)

lemma Emit: "SCPI_ErrorEmit (U c) n = U (SCPI_ErrorEmit c n)"
  by (simp add: SCPI_ErrorEmit_def SetBits call)

lemma classes: "fold (\<lambda>(from, to, esrBit) c. if err \<le> from \<and> err \<ge> to then SCPI_RegSetBits c SCPI_REG_ESR esrBit else c) es (U c) =
    U (fold (\<lambda>(from, to, esrBit) c. if err \<le> from \<and> err \<ge> to then SCPI_RegSetBits c SCPI_REG_ESR esrBit else c) es c)"
  by (induction es arbitrary: c) (auto simp: SetBits)

end

definition with_queue :: "scpi_error_t scpi_fifo_t \<Rightarrow> scpi_t \<Rightarrow> scpi_t" where
  "with_queue q c = c\<lparr>error_queue := q\<rparr>"

definition no_writes :: "scpi_t \<Rightarrow> scpi_t" where
  "no_writes c = c\<lparr>events := filter (\<lambda>e. \<not> is_write e) (events c)\<rparr>"

interpretation queued: status_view "with_queue q" for q
  by unfold_locales (simp_all add: with_queue_def reg_put_def emit_def)

interpretation silent: status_view no_writes
  by unfold_locales (simp_all add: no_writes_def reg_put_def emit_def)

subsection \<open>The queues\<close>

definition codes :: "scpi_error_info_t scpi_fifo_t \<Rightarrow> scpi_error_t scpi_fifo_t" where
  "codes q = \<lparr>fifo_wr = fifo_wr q, fifo_rd = fifo_rd q, fifo_cnt = fifo_cnt q, fifo_size = fifo_size q,
     fifo_data = map (\<lambda>e. \<lparr>error_code = error_code e\<rparr>) (fifo_data q)\<rparr>"

definition plain_view :: "scpi_info_t \<Rightarrow> scpi_t" where
  "plain_view s = with_queue (codes (info_queue s)) (rest_of s)"

lemma codes_add: "fifo_add (codes q) (Some \<lparr>error_code = error_code e\<rparr>) = map_prod id codes (fifo_add q (Some e))"
  by (simp add: fifo_add_def fifo_is_full_def codes_def map_update)

lemma codes_remove:
  "fifo_inv q \<Longrightarrow> error_code c' = error_code c \<Longrightarrow> fifo_remove (codes q) (Some c) =
    map_prod id (map_prod (map_option (\<lambda>e. \<lparr>error_code = error_code e\<rparr>)) codes) (fifo_remove q (Some c'))"
  by (cases c) (auto simp: fifo_remove_def fifo_is_empty_def codes_def fifo_inv_def)

lemma codes_remove_last:
  "snd (snd (fifo_remove_last (codes q) c)) = codes (snd (snd (fifo_remove_last q d)))"
  by (simp add: fifo_remove_last_def fifo_is_empty_def codes_def Let_def)

lemma codes_clear: "fifo_clear (codes q) = codes (fifo_clear q)"
  by (simp add: fifo_clear_def codes_def)

lemma drain_clear: "error_drain e q h = Some (q', h') \<Longrightarrow> fifo_clear q' = fifo_clear q"
proof (induction e q h arbitrary: q' h' rule: error_drain.induct)
  case (1 e q h)
  show ?case
  proof (cases "fst (fifo_remove q (Some e))")
    case True
    obtain b cell r where r: "fifo_remove q (Some e) = (b, cell, r)" by (metis prod_cases3)
    then obtain g where "scpiheap_free h (device_dependent_info (the cell)) False = Some g" "error_drain (the cell) r g = Some (q', h')"
      using 1(2) True by (subst (asm) error_drain.simps) (auto split: Option.bind_splits)
    then have "fifo_clear q' = fifo_clear r" using 1(1) True r by auto
    also have "\<dots> = fifo_clear q" using r by (auto simp: fifo_remove_def fifo_clear_def split: if_splits)
    finally show ?thesis .
  qed (use 1(2) in \<open>subst (asm) error_drain.simps, simp\<close>)
qed

lemma AddInternal_plain:
  assumes "SCPI_ErrorAddInternal_info s err info m = Some (b, s')"
  shows "SCPI_ErrorAddInternal (plain_view s) err = (b, plain_view s')" "rest_of s' = rest_of s"
proof -
  obtain ptr h where p: "(case info of None \<Rightarrow> Some (None, error_info_heap s)
      | Some i \<Rightarrow> scpiheap_strndup (error_info_heap s) (Some i) m) = Some (ptr, h)"
    using assms unfolding SCPI_ErrorAddInternal_info_def by (auto split: Option.bind_splits)
  let ?v = "\<lparr>error_code = err, device_dependent_info = ptr\<rparr>"
  obtain added q where a: "fifo_add (info_queue s) (Some ?v) = (added, q)" by (metis prod.collapse)
  then have c: "fifo_add (codes (info_queue s)) (Some \<lparr>error_code = err\<rparr>) = (added, codes q)"
    using codes_add [of "info_queue s" ?v] by simp
  have e: "SCPI_ErrorAddInternal (plain_view s) err = (if \<not> added
      then (False, with_queue (snd (fifo_add (snd (snd (fifo_remove_last (codes q) (Some \<lparr>error_code = err\<rparr>))))
        (Some \<lparr>error_code = SCPI_ERROR_QUEUE_OVERFLOW\<rparr>))) (rest_of s))
      else (True, with_queue (codes q) (rest_of s)))"
    using c by (auto simp: SCPI_ErrorAddInternal_def plain_view_def with_queue_def Let_def split_beta)
  have "SCPI_ErrorAddInternal (plain_view s) err = (b, plain_view s') \<and> rest_of s' = rest_of s"
  proof (cases added)
    case True
    then show ?thesis using assms a e by (auto simp: SCPI_ErrorAddInternal_info_def p plain_view_def)
  next
    case False
    let ?o = "\<lparr>error_code = SCPI_ERROR_QUEUE_OVERFLOW, device_dependent_info = None\<rparr>"
    have "b = False \<and> rest_of s' = rest_of s \<and>
        info_queue s' = snd (fifo_add (snd (snd (fifo_remove_last q (Some ?v)))) (Some ?o))"
      using assms False a by (auto simp: SCPI_ErrorAddInternal_info_def p Let_def split: Option.bind_splits prod.splits)
    moreover have "fifo_add (codes r) (Some \<lparr>error_code = SCPI_ERROR_QUEUE_OVERFLOW\<rparr>) = map_prod id codes (fifo_add r (Some ?o))" for r
      using codes_add [of r ?o] by simp
    ultimately show ?thesis using False e codes_remove_last [of q "Some \<lparr>error_code = err\<rparr>" "Some ?v"]
      by (simp add: plain_view_def)
  qed
  then show "SCPI_ErrorAddInternal (plain_view s) err = (b, plain_view s')" "rest_of s' = rest_of s" by simp_all
qed

lemma PushEx_plain:
  assumes "SCPI_ErrorPushEx_info s err info len = Some s'"
  shows "plain_view s' = SCPI_ErrorPushEx (plain_view s) err"
proof -
  obtain b s1 m where a: "SCPI_ErrorAddInternal_info s err info m = Some (b, s1)"
    "s' = s1\<lparr>rest_of := (let c3 = SCPI_ErrorEmit (fold (\<lambda>(from, to, esrBit) c.
         if err \<le> from \<and> err \<ge> to then SCPI_RegSetBits c SCPI_REG_ESR esrBit else c) errs (rest_of s1)) err
       in if \<not> b then SCPI_ErrorEmit c3 SCPI_ERROR_QUEUE_OVERFLOW else c3)\<lparr>cmd_error := True\<rparr>\<rparr>"
    using assms by (auto simp: SCPI_ErrorPushEx_info_def Let_def split: Option.bind_splits)
  have v: "plain_view s1 = with_queue (codes (info_queue s1)) (rest_of s1)" by (simp add: plain_view_def)
  have w: "with_queue q (c\<lparr>cmd_error := True\<rparr>) = (with_queue q c)\<lparr>cmd_error := True\<rparr>" for q c by (simp add: with_queue_def)
  have "SCPI_ErrorPushEx (plain_view s) err = (let c3 = SCPI_ErrorEmit (fold (\<lambda>(from, to, esrBit) c.
         if err \<le> from \<and> err \<ge> to then SCPI_RegSetBits c SCPI_REG_ESR esrBit else c) errs (plain_view s1)) err
       in if \<not> b then SCPI_ErrorEmit c3 SCPI_ERROR_QUEUE_OVERFLOW else c3)\<lparr>cmd_error := True\<rparr>"
    by (simp add: SCPI_ErrorPushEx_def AddInternal_plain(1) [OF a(1)] Let_def)
  also have "\<dots> = plain_view s'"
    unfolding v queued.classes queued.Emit Let_def a(2) by (simp add: plain_view_def w Let_def)
  finally show ?thesis by simp
qed

lemma EmitEmpty_plain: "plain_view (SCPI_ErrorEmitEmpty_info s) = SCPI_ErrorEmitEmpty (plain_view s)"
proof -
  have "fifo_count (error_queue (plain_view s)) = fifo_count (info_queue s)"
    by (simp add: plain_view_def with_queue_def codes_def fifo_count_def)
  then show ?thesis
    unfolding SCPI_ErrorEmitEmpty_def SCPI_ErrorEmitEmpty_info_def SCPI_ErrorCount_def
    by (simp add: plain_view_def queued.RegGet queued.ClearBits queued.call)
qed

lemma Clear_plain:
  assumes "SCPI_ErrorClear_info s = Some s'"
  shows "plain_view s' = SCPI_ErrorClear (plain_view s)"
proof -
  obtain q h where d: "error_drain no_error_info (info_queue s) (error_info_heap s) = Some (q, h)"
    "s' = SCPI_ErrorEmitEmpty_info (s\<lparr>info_queue := fifo_clear q, error_info_heap := h\<rparr>)"
    using assms by (auto simp: SCPI_ErrorClear_info_def split: Option.bind_splits)
  have "plain_view (s\<lparr>info_queue := fifo_clear q, error_info_heap := h\<rparr>) =
      (plain_view s)\<lparr>error_queue := fifo_clear (error_queue (plain_view s))\<rparr>"
    by (simp add: plain_view_def with_queue_def codes_clear drain_clear [OF d(1)])
  then show ?thesis by (simp add: d(2) EmitEmpty_plain SCPI_ErrorClear_def)
qed

subsection \<open>\<^verbatim>\<open>SYSTem:ERRor?\<close> without what it writes\<close>

lemma no_writes_writeData [simp]: "no_writes (writeData c d) = no_writes c"
  by (simp add: no_writes_def writeData_def emit_def is_write_def)

lemma no_writes_output [simp]:
  "no_writes (writeDelimiter c) = no_writes c" "no_writes (writeSemicolon c) = no_writes c"
  "no_writes (count_output c) = count_output (no_writes c)"
  by (simp_all add: writeDelimiter_def writeSemicolon_def) (simp add: no_writes_def count_output_def)

lemma no_writes_ResultInt32 [simp]: "no_writes (SCPI_ResultInt32 c v) = count_output (no_writes c)"
  by (simp add: SCPI_ResultInt32_def resultUInt32BaseSign_def Let_def split: option.split)

lemma no_writes_part_loop: "no_writes (fst (error_part_loop c d n)) = no_writes c"
proof (induction c d n rule: error_part_loop.induct)
  case (1 ctx data n)
  then show ?case by (subst error_part_loop.simps) (auto simp: Let_def split: option.split)
qed

lemma no_writes_desc_loop: "no_writes (error_desc_loop c i ds n) = no_writes c"
proof (induction c i ds n rule: error_desc_loop.induct)
  case (2 c i d ds n)
  obtain c1 l1 where a: "(if i = 1 then (writeSemicolon c, n - 1) else (c, n)) = (c1, l1)" by (metis prod.collapse)
  obtain c2 r l2 where b: "error_part_loop c1 (take l1 d) l1 = (c2, r, l2)" by (metis prod_cases3)
  have "no_writes c1 = no_writes c" using a by (auto split: if_splits)
  moreover have "no_writes c2 = no_writes c1" using no_writes_part_loop [of c1 "take l1 d" l1] b by simp
  ultimately show ?case using 2 [OF _ a [symmetric] refl b [symmetric] refl] a b by simp
qed simp

lemma no_writes_text_loop: "no_writes (fst (error_text_loop c d n)) = no_writes c"
proof (induction c d n rule: error_text_loop.induct)
  case (1 ctx data n)
  then show ?case by (subst error_text_loop.simps) (auto simp: Let_def split: option.split)
qed

lemma no_writes_ResultError: "no_writes (SCPI_ResultError c e) = count_output (no_writes c)"
  using no_writes_text_loop by (simp add: SCPI_ResultError_def Let_def split_beta)

lemma no_writes_ResultError_info:
  "SCPI_ResultError_info s e = Some s' \<Longrightarrow> no_writes (plain_view s') = count_output (no_writes (plain_view s)) \<and>
    info_queue s' = info_queue s"
proof -
  assume "SCPI_ResultError_info s e = Some s'"
  then obtain ps where s': "s' = s\<lparr>rest_of := writeData (error_desc_loop (writeData (writeDelimiter (SCPI_ResultInt32 (rest_of s)
      (word_of_int (error_code e)))) quote_char) 0 (SCPI_ErrorTranslate (error_code e) # ps) 255) quote_char\<rparr>"
    by (auto simp: SCPI_ResultError_info_def Let_def SCPI_STD_ERROR_DESC_MAX_STRING_LENGTH_def simp del: error_desc_loop.simps
        split: Option.bind_splits)
  have w: "no_writes (with_queue q c) = with_queue q (no_writes c)" "count_output (with_queue q c) = with_queue q (count_output c)" for q c
    by (simp_all add: no_writes_def with_queue_def count_output_def)
  show ?thesis by (simp add: s' plain_view_def w no_writes_desc_loop del: error_desc_loop.simps)
qed

lemma Next_plain:
  assumes "fifo_inv (info_queue s)" "SCPI_SystemErrorNextQ_info s = Some (r, s')"
  shows "no_writes (plain_view s') = no_writes (snd (SCPI_SystemErrorNextQ (plain_view s)))"
proof -
  obtain b e q where p: "fifo_remove (info_queue s) (Some no_error_info) = (b, e, q)" by (metis prod_cases3)
  let ?s = "SCPI_ErrorEmitEmpty_info (s\<lparr>info_queue := q\<rparr>)"
  have pop: "SCPI_ErrorPop_info s (Some no_error_info) = (True, e, ?s)" by (simp add: SCPI_ErrorPop_info_def p)
  obtain s2 where s2: "SCPI_ResultError_info ?s (the e) = Some s2" "rest_of s' = rest_of s2" "info_queue s' = info_queue s2"
    using assms(2) by (auto simp: SCPI_SystemErrorNextQ_info_def pop split: Option.bind_splits)
  have "fifo_remove (codes (info_queue s)) (Some \<lparr>error_code = 0\<rparr>) =
      (b, map_option (\<lambda>e. \<lparr>error_code = error_code e\<rparr>) e, codes q)"
    using codes_remove [OF assms(1), of no_error_info "\<lparr>error_code = 0\<rparr>"] p by simp
  then have plain: "snd (snd (SCPI_ErrorPop (plain_view s) (Some \<lparr>error_code = 0\<rparr>))) = plain_view ?s"
    by (simp add: SCPI_ErrorPop_def EmitEmpty_plain) (simp add: plain_view_def with_queue_def)
  have "plain_view s' = plain_view s2" using s2(2,3) by (simp add: plain_view_def)
  then have "no_writes (plain_view s') = count_output (no_writes (plain_view ?s))"
    using no_writes_ResultError_info [OF s2(1)] by simp
  then show ?thesis using plain by (simp add: SCPI_SystemErrorNextQ_def split_beta no_writes_ResultError)
qed

subsection \<open>Whole histories\<close>

fun plain_step :: "info_op \<Rightarrow> scpi_t \<Rightarrow> scpi_t" where
  "plain_step (InfoPush err info info_len) c = SCPI_ErrorPushEx c err"
| "plain_step InfoNext c = snd (SCPI_SystemErrorNextQ c)"
| "plain_step InfoClear c = SCPI_ErrorClear c"

lemma no_writes_queue [simp]: "error_queue (no_writes c) = error_queue c"
  "(no_writes c)\<lparr>error_queue := q\<rparr> = no_writes (c\<lparr>error_queue := q\<rparr>)"
  "(no_writes c)\<lparr>cmd_error := b\<rparr> = no_writes (c\<lparr>cmd_error := b\<rparr>)"
  by (simp_all add: no_writes_def)

lemma silent_EmitEmpty: "SCPI_ErrorEmitEmpty (no_writes c) = no_writes (SCPI_ErrorEmitEmpty c)"
  by (simp add: SCPI_ErrorEmitEmpty_def SCPI_ErrorCount_def silent.RegGet silent.ClearBits silent.call)

lemma silent_Pop: "snd (snd (SCPI_ErrorPop (no_writes c) e)) = no_writes (snd (snd (SCPI_ErrorPop c e)))"
  by (auto simp: SCPI_ErrorPop_def silent_EmitEmpty split_beta split: option.split)

lemma silent_PushEx: "SCPI_ErrorPushEx (no_writes c) e = no_writes (SCPI_ErrorPushEx c e)"
proof -
  have "SCPI_ErrorAddInternal (no_writes c) e = map_prod id no_writes (SCPI_ErrorAddInternal c e)"
    by (simp add: SCPI_ErrorAddInternal_def Let_def split_beta)
  then show ?thesis
    unfolding SCPI_ErrorPushEx_def by (simp add: split_beta Let_def silent.classes silent.Emit)
qed

lemma plain_step_silent: "no_writes c = no_writes d \<Longrightarrow> no_writes (plain_step x c) = no_writes (plain_step x d)"
proof (cases x)
  case InfoPush
  assume "no_writes c = no_writes d"
  then show ?thesis using InfoPush silent_PushEx by (metis plain_step.simps(1))
next
  case InfoNext
  assume "no_writes c = no_writes d"
  then show ?thesis using InfoNext silent_Pop
    by (simp add: SCPI_SystemErrorNextQ_def split_beta no_writes_ResultError) (metis silent_Pop)
next
  case InfoClear
  assume "no_writes c = no_writes d"
  then show ?thesis using InfoClear silent_EmitEmpty no_writes_queue by (metis SCPI_ErrorClear_def plain_step.simps(3))
qed

lemma run_plain:
  assumes "info_rep s p as" "list_all op_readable xs" "info_run xs s = Some s'" "no_writes c = no_writes (plain_view s)"
  shows "no_writes (plain_view s') = no_writes (fold plain_step xs c)"
  using assms
proof (induction xs arbitrary: s p as c)
  case (Cons x xs)
  obtain t p' where t: "info_step x s = Some t"
    "info_rep t p' (list_step (fifo_size (info_queue s)) (heap_size (error_info_heap s)) x as)"
    using info_step_rep [OF Cons.prems(1), of x] Cons.prems(2) by (simp, blast)
  have "no_writes (plain_view t) = no_writes (plain_step x (plain_view s))"
  proof (cases x)
    case InfoNext
    then obtain r where "SCPI_SystemErrorNextQ_info s = Some (r, t)" using t(1) by auto
    then show ?thesis using Next_plain [of s r t] Cons.prems(1) InfoNext by (simp add: info_rep_def)
  qed (use t(1) PushEx_plain Clear_plain in auto)
  then have n: "no_writes (plain_step x c) = no_writes (plain_view t)" using plain_step_silent [OF Cons.prems(4)] by simp
  show ?case using Cons.IH [OF t(2) _ _ n] Cons.prems(2,3) t(1) by simp
qed simp

text \<open>C13: The texts change nothing else: after any history of pushes, queries and clears, the build with texts has the same queue of
  error codes, the same registers and the same calls of the application's error and service request functions as the build
  without them; only what \<^verbatim>\<open>SYSTem:ERRor?\<close> writes differs.\<close>

theorem error_texts_transparent:
  assumes "cells \<noteq> []" "buf \<noteq> []" "list_all op_readable xs"
  shows "\<exists>s1 s. info_start s0 cells buf = Some s1 \<and> info_run xs s1 = Some s \<and>
    no_writes (plain_view s) = no_writes (fold plain_step xs (plain_view s1))"
proof -
  obtain s1 where s1: "info_start s0 cells buf = Some s1" "info_rep s1 0 []" using info_start_rep [OF assms(1,2)] by blast
  obtain s where "info_run xs s1 = Some s" using info_run_rep [OF s1(2) assms(3)] by blast
  then show ?thesis using run_plain [OF s1(2) assms(3)] s1(1) by blast
qed

lemma error_texts_transparent_witness:
  "\<exists>s1 s. info_start demo_info [no_error_info] ''????'' = Some s1 \<and>
    info_run [InfoPush (- 113) (Some ''ABCD'') 2, InfoPush (- 101) None 0, InfoNext] s1 = Some s \<and>
    no_writes (plain_view s) = no_writes (snd (SCPI_SystemErrorNextQ (SCPI_ErrorPushEx (SCPI_ErrorPushEx (plain_view s1) (- 113)) (- 101))))"
  using error_texts_transparent [of "[no_error_info]" "''????''"
      "[InfoPush (- 113) (Some ''ABCD'') 2, InfoPush (- 101) None 0, InfoNext]" demo_info]
  by (simp add: info_readable_def info_limit_def del: info_run.simps)

end
