(* ===== verification/Scpi_Dtostre.thy ===== *)
theory Scpi_Dtostre
  imports Scpi_Heap Scpi_Result "HOL-Library.Signed_Division"
begin

text \<open>
  The library's own printing of a double, \<^verbatim>\<open>scpi_ecvt\<close> and \<^verbatim>\<open>SCPI_dtostre\<close> of \<^verbatim>\<open>libscpi/src/utils.c\<close>, which a build
  with \<^verbatim>\<open>USE_CUSTOM_DTOSTRE\<close> uses at 6 and 15 digits. The arithmetic of doubles is a parameter. Everything that happens in the
  buffer of 32 characters is modelled byte by byte with the checked accesses of \<^verbatim>\<open>Scpi_Heap\<close>: \<open>None\<close> stands
  for an access outside the buffer, or for a loop that does not end. The buffer's first contents are an argument.
\<close>

subsection \<open>Doubles\<close>

text \<open>\<open>d_lit n k\<close> is the literal of value \<open>n / 10 ^ k\<close>, \<open>d_whole\<close> and \<open>d_frac\<close> the two results of \<^verbatim>\<open>modf\<close>, \<open>d_exponent\<close> what
  \<^verbatim>\<open>frexp\<close> stores and \<open>d_int\<close> the cast to \<^verbatim>\<open>int\<close>.\<close>

record 'd dbl =
  d_signbit :: "'d \<Rightarrow> bool"
  d_isnan :: "'d \<Rightarrow> bool"
  d_isfinite :: "'d \<Rightarrow> bool"
  d_eq :: "'d \<Rightarrow> 'd \<Rightarrow> bool"
  d_less :: "'d \<Rightarrow> 'd \<Rightarrow> bool"
  d_lit :: "nat \<Rightarrow> nat \<Rightarrow> 'd"
  d_minus :: "'d \<Rightarrow> 'd"
  d_plus :: "'d \<Rightarrow> 'd \<Rightarrow> 'd"
  d_times :: "'d \<Rightarrow> 'd \<Rightarrow> 'd"
  d_div :: "'d \<Rightarrow> 'd \<Rightarrow> 'd"
  d_whole :: "'d \<Rightarrow> 'd"
  d_frac :: "'d \<Rightarrow> 'd"
  d_exponent :: "'d \<Rightarrow> int"
  d_int :: "'d \<Rightarrow> int"

definition char_plus :: "int \<Rightarrow> char \<Rightarrow> char" where
  "char_plus n c = char_of (nat ((n + int (of_char c)) mod 256))"

definition store_at :: "string \<Rightarrow> int \<Rightarrow> char \<Rightarrow> string option" where
  "store_at m i c = (if 0 \<le> i then store_mem m (nat i) c else None)"

definition byte_of :: "string \<Rightarrow> int \<Rightarrow> char option" where
  "byte_of m i = (if 0 \<le> i then byte_at m (nat i) else None)"

definition memmove_mem :: "string \<Rightarrow> nat \<Rightarrow> nat \<Rightarrow> nat \<Rightarrow> string option" where
  "memmove_mem m d s n = memcpy_mem m d (drop s m) n"

subsection \<open>The digits\<close>

text \<open>The loops of \<^verbatim>\<open>scpi_ecvt\<close>, in the order of the code. \<open>buf\<close> is the index at which its buffer starts.\<close>

primrec ecvt_trim :: "'d dbl \<Rightarrow> nat \<Rightarrow> 'd \<Rightarrow> 'd" where
  "ecvt_trim d 0 fi = fi"
| "ecvt_trim d (Suc r1) fi = ecvt_trim d r1 (d_whole d (d_div d fi (d_lit d 10 0)))"

definition whole_digit :: "'d dbl \<Rightarrow> 'd \<Rightarrow> int" where
  "whole_digit d fi =
     d_int d (d_times d (d_plus d (d_frac d (d_div d fi (d_lit d 10 0))) (d_lit d 3 2)) (d_lit d 10 0))"

partial_function (option) ecvt_whole ::
  "'d dbl \<Rightarrow> int \<Rightarrow> 'd \<Rightarrow> int \<Rightarrow> int \<Rightarrow> string \<Rightarrow> (int \<times> int \<times> string) option" where
  "ecvt_whole d buf fi w2 r2 m =
     (if d_eq d fi (d_lit d 0 0) then Some (w2, r2, m)
      else do { m \<leftarrow> store_at m (buf + (w2 - 1)) (char_plus (whole_digit d fi) (CHR ''0''));
                ecvt_whole d buf (d_whole d (d_div d fi (d_lit d 10 0))) (w2 - 1) (r2 + 1) m })"

fun ecvt_copy :: "int \<Rightarrow> int \<Rightarrow> int \<Rightarrow> nat \<Rightarrow> string \<Rightarrow> (int \<times> string) option" where
  "ecvt_copy buf w1 w2 0 m = Some (w1, m)"
| "ecvt_copy buf w1 w2 (Suc n) m =
     do { c \<leftarrow> byte_of m (buf + w2); m \<leftarrow> store_at m (buf + w1) c; ecvt_copy buf (w1 + 1) (w2 + 1) n m }"

partial_function (option) ecvt_lead :: "'d dbl \<Rightarrow> 'd \<Rightarrow> int \<Rightarrow> ('d \<times> int) option" where
  "ecvt_lead d arg r2 =
     (let fj = d_times d arg (d_lit d 10 0)
      in if d_less d fj (d_lit d 1 0) then ecvt_lead d fj (r2 - 1) else Some (arg, r2))"

declare ecvt_whole.simps [code] ecvt_lead.simps [code]

function ecvt_fraction :: "'d dbl \<Rightarrow> int \<Rightarrow> int \<Rightarrow> 'd \<Rightarrow> int \<Rightarrow> int \<Rightarrow> string \<Rightarrow> string option" where
  "ecvt_fraction d buf bufsize arg w1 w2 m =
     (if w1 \<le> w2 \<and> w1 < bufsize
      then let arg = d_times d arg (d_lit d 10 0)
           in do { m \<leftarrow> store_at m (buf + w1) (char_plus (d_int d (d_whole d arg)) (CHR ''0''));
                   ecvt_fraction d buf bufsize (d_frac d arg) (w1 + 1) w2 m }
      else Some m)"
  by pat_completeness auto
termination by (relation "measure (\<lambda>(_, _, _, _, w1, w2, _). nat (w2 + 1 - w1))") auto

declare ecvt_fraction.simps [simp del]

text \<open>The carry of the rounding goes from digit \<open>w2\<close> to the left; a carry out of the first digit makes it \<^verbatim>\<open>1\<close>.\<close>

fun ecvt_carry :: "int \<Rightarrow> nat \<Rightarrow> int \<Rightarrow> string \<Rightarrow> (int \<times> string) option" where
  "ecvt_carry buf 0 decpt m =
     do { c \<leftarrow> byte_of m buf;
          if of_char c > (of_char (CHR ''9'') :: nat)
          then do { m \<leftarrow> store_at m buf (CHR ''0''); m \<leftarrow> store_at m buf (CHR ''1''); Some (decpt + 1, m) }
          else Some (decpt, m) }"
| "ecvt_carry buf (Suc w2) decpt m =
     do { c \<leftarrow> byte_of m (buf + int (Suc w2));
          if of_char c > (of_char (CHR ''9'') :: nat)
          then do { m \<leftarrow> store_at m (buf + int (Suc w2)) (CHR ''0'');
                    c \<leftarrow> byte_of m (buf + int w2);
                    m \<leftarrow> store_at m (buf + int w2) (char_plus 1 c);
                    ecvt_carry buf w2 decpt m }
          else Some (decpt, m) }"

text \<open>The digits in front of the point, or the position of the first digit behind it.\<close>

definition ecvt_start ::
  "'d dbl \<Rightarrow> 'd \<Rightarrow> 'd \<Rightarrow> int \<Rightarrow> int \<Rightarrow> int \<Rightarrow> string \<Rightarrow> (int \<times> int \<times> 'd \<times> string) option" where
  "ecvt_start d fi arg r1 buf bufsize m =
     (if \<not> d_eq d fi (d_lit d 0 0)
      then do { (w2, r2, m) \<leftarrow> ecvt_whole d buf (ecvt_trim d (nat r1) fi) bufsize (int (nat r1)) m;
                (w1, m) \<leftarrow> ecvt_copy buf 0 w2 (nat (bufsize - w2)) m;
                Some (w1, r2, arg, m) }
      else if d_less d (d_lit d 0 0) arg
      then do { (arg, r2) \<leftarrow> ecvt_lead d arg 0; Some (0, r2, arg, m) }
      else Some (0, 0, arg, m))"

text \<open>The result holds what the code stores: the position of the point, the sign, and the buffer.\<close>

definition scpi_ecvt :: "'d dbl \<Rightarrow> 'd \<Rightarrow> int \<Rightarrow> int \<Rightarrow> int \<Rightarrow> string \<Rightarrow> (int \<times> bool \<times> string) option" where
  "scpi_ecvt d arg ndigits buf bufsize m =
     (let ndigits = (if ndigits < 0 then 0 else ndigits);
          ndigits = (if ndigits \<ge> bufsize - 1 then bufsize - 2 else ndigits);
          sign = d_less d arg (d_lit d 0 0);
          arg = (if sign then d_minus d arg else arg);
          r1 = d_exponent d arg;
          fi = d_whole d arg;
          arg = d_frac d arg
      in do { (w1, r2, arg, m) \<leftarrow> ecvt_start d fi arg (r1 * 308 sdiv 1024 - ndigits) buf bufsize m;
              if ndigits < 0 then do { m \<leftarrow> store_at m buf NUL; Some (r2, sign, m) }
              else do { m \<leftarrow> ecvt_fraction d buf bufsize arg w1 ndigits m;
                if ndigits \<ge> bufsize then do { m \<leftarrow> store_at m (buf + bufsize - 1) NUL; Some (r2, sign, m) }
                else do { c \<leftarrow> byte_of m (buf + ndigits);
                          m \<leftarrow> store_at m (buf + ndigits) (char_plus 5 c);
                          (decpt, m) \<leftarrow> ecvt_carry buf (nat ndigits) r2 m;
                          m \<leftarrow> store_at m (buf + ndigits) NUL;
                          Some (decpt, sign, m) } } })"

subsection \<open>The text\<close>

definition SCPI_DTOSTRE_BUFFER_SIZE :: nat where "SCPI_DTOSTRE_BUFFER_SIZE = 32"
definition SCPI_DTOSTRE_UPPERCASE :: u8 where "SCPI_DTOSTRE_UPPERCASE = 1"
definition SCPI_DTOSTRE_ALWAYS_SIGN :: u8 where "SCPI_DTOSTRE_ALWAYS_SIGN = 2"
definition SCPI_DTOSTRE_PLUS_SIGN :: u8 where "SCPI_DTOSTRE_PLUS_SIGN = 4"

definition dtostre_point :: "nat \<Rightarrow> nat \<Rightarrow> int \<Rightarrow> string \<Rightarrow> (int \<times> string) option" where
  "dtostre_point s prec decpt m =
     (if 1 < decpt \<and> decpt \<le> int prec
      then do { m \<leftarrow> memmove_mem m (s + nat decpt + 1) (s + nat decpt) (prec + 1 - nat decpt);
                m \<leftarrow> store_mem m (s + nat decpt) (CHR ''.'');
                Some (0, m) }
      else if - 4 < decpt \<and> decpt \<le> 0
      then let decpt = nat (- decpt + 1)
           in do { m \<leftarrow> memmove_mem m (s + decpt + 1) s (prec + 1);
                   m \<leftarrow> memset_mem m s (CHR ''0'') (decpt + 1);
                   m \<leftarrow> store_mem m (s + 1) (CHR ''.'');
                   Some (0, m) }
      else do { m \<leftarrow> memmove_mem m (s + 2) (s + 1) (prec + 1);
                m \<leftarrow> store_mem m (s + 1) (CHR ''.'');
                Some (decpt - 1, m) })"

text \<open>Zeros are removed from position \<open>s\<close> to the left, then a point; the result is where \<^verbatim>\<open>s\<close> points to.\<close>

fun dtostre_zeros :: "nat \<Rightarrow> string \<Rightarrow> (nat \<times> string) option" where
  "dtostre_zeros 0 m = do { c \<leftarrow> byte_at m 0; if c = CHR ''0'' then None else Some (0, m) }"
| "dtostre_zeros (Suc s) m =
     do { c \<leftarrow> byte_at m (Suc s);
          if c = CHR ''0'' then do { m \<leftarrow> store_mem m (Suc s) NUL; dtostre_zeros s m } else Some (Suc s, m) }"

definition dtostre_strip :: "nat \<Rightarrow> string \<Rightarrow> (nat \<times> string) option" where
  "dtostre_strip s m =
     do { (s, m) \<leftarrow> dtostre_zeros s m;
          c \<leftarrow> byte_at m s;
          if c = CHR ''.'' then do { m \<leftarrow> store_mem m s NUL; if s = 0 then None else Some (s - 1, m) }
          else Some (s, m) }"

definition dtostre_exponent :: "nat \<Rightarrow> int \<Rightarrow> string \<Rightarrow> string option" where
  "dtostre_exponent s decpt m =
     (if decpt \<noteq> 0
      then do { m \<leftarrow> store_mem m (s + 1) (CHR ''e'');
                m \<leftarrow> store_mem m (s + 2) (if decpt > 0 then CHR ''+'' else CHR ''-'');
                let t = take 5 (UInt32ToStrBaseSign (word_of_int \<bar>decpt\<bar>) 5 10 False @ [NUL]);
                m \<leftarrow> memcpy_mem m (s + 3) t (length t);
                c \<leftarrow> byte_at m (s + 4);
                if c = NUL
                then do { m \<leftarrow> store_mem m (s + 5) c;
                          c \<leftarrow> byte_at m (s + 3);
                          m \<leftarrow> store_mem m (s + 4) c;
                          store_mem m (s + 3) (CHR ''0'') }
                else Some m }
      else Some m)"

text \<open>What the caller's array of \<open>ssize\<close> characters holds after \<^verbatim>\<open>strncpy\<close> and the last assignment.\<close>

definition strncpy_mem :: "string \<Rightarrow> nat \<Rightarrow> string option" where
  "strncpy_mem buffer n =
     do { l \<leftarrow> strnlen_mem buffer n;
          store_at (take l buffer @ replicate (n - l) NUL) (int n - 1) NUL }"

definition SCPI_dtostre :: "'d dbl \<Rightarrow> 'd \<Rightarrow> nat \<Rightarrow> u8 \<Rightarrow> u8 \<Rightarrow> string \<Rightarrow> string option" where
  "SCPI_dtostre d val ssize prec flags buffer =
     (let sign = d_signbit d val;
          val = (if sign then d_minus d val else val)
      in do { (s, buffer) \<leftarrow>
                (if sign then do { m \<leftarrow> store_mem buffer 0 (CHR ''-''); Some (1, m) }
                 else if \<not> d_isnan d val
                 then (if SCPI_DTOSTRE_PLUS_SIGN AND flags \<noteq> 0 then do { m \<leftarrow> store_mem buffer 0 (CHR ''+''); Some (1, m) }
                       else if SCPI_DTOSTRE_ALWAYS_SIGN AND flags \<noteq> 0 then do { m \<leftarrow> store_mem buffer 0 (CHR '' ''); Some (1, m) }
                       else Some (0, buffer))
                 else Some (0, buffer));
              if \<not> d_isfinite d val
              then let t = (if d_isnan d val then (if flags AND SCPI_DTOSTRE_UPPERCASE \<noteq> 0 then ''NAN'' else ''nan'')
                            else (if flags AND SCPI_DTOSTRE_UPPERCASE \<noteq> 0 then ''INF'' else ''inf''))
                   in do { m \<leftarrow> memcpy_mem buffer s (t @ [NUL]) 4; strncpy_mem m ssize }
              else do { (decpt, sign, m) \<leftarrow> scpi_ecvt d val (uint prec) (int s) (int SCPI_DTOSTRE_BUFFER_SIZE - 1) buffer;
                        (decpt, m) \<leftarrow> dtostre_point s (unat prec) decpt m;
                        (s, m) \<leftarrow> dtostre_strip (s + unat prec) m;
                        m \<leftarrow> dtostre_exponent s decpt m;
                        strncpy_mem m ssize } })"

subsection \<open>What is relied on\<close>

text \<open>Facts of the arithmetic of doubles, for numbers that are not negative: signs, the range of the fractional
  part and of the digits cut off in front of and behind the point.\<close>

abbreviation dbl_neg :: "'d dbl \<Rightarrow> 'd \<Rightarrow> bool" where "dbl_neg d x \<equiv> d_less d x (d_lit d 0 0)"

definition tenth :: "'d dbl \<Rightarrow> 'd \<Rightarrow> 'd" where "tenth d x = d_whole d (d_div d x (d_lit d 10 0))"

definition ten_times :: "'d dbl \<Rightarrow> 'd \<Rightarrow> 'd" where "ten_times d x = d_times d x (d_lit d 10 0)"

definition dbl_laws :: "'d dbl \<Rightarrow> bool" where
  "dbl_laws d \<longleftrightarrow>
     (\<forall>x. \<not> d_signbit d x \<longrightarrow> \<not> dbl_neg d x) \<and> (\<forall>x. d_signbit d x \<longrightarrow> \<not> dbl_neg d (d_minus d x)) \<and>
     (\<forall>x. \<not> dbl_neg d x \<longrightarrow> \<not> dbl_neg d (d_frac d x) \<and> d_less d (d_frac d x) (d_lit d 1 0)) \<and>
     (\<forall>x. \<not> dbl_neg d x \<longrightarrow> \<not> dbl_neg d (ten_times d x) \<and> \<not> dbl_neg d (d_div d x (d_lit d 10 0))) \<and>
     (\<forall>x. \<not> dbl_neg d x \<longrightarrow> whole_digit d (d_whole d x) \<in> {0..9}) \<and>
     (\<forall>x. \<not> dbl_neg d x \<longrightarrow> d_less d x (d_lit d 1 0) \<longrightarrow> d_int d (d_whole d (ten_times d x)) \<in> {0..9}) \<and>
     (\<forall>x. \<not> dbl_neg d x \<longrightarrow> \<not> dbl_neg d (d_whole d x))"

text \<open>The range of a double: below \<open>2 ^ 1024\<close>, so that after the digits cut off in advance at most 31 remain in front of the
  point, and with fewer than 400 zeros behind it.\<close>

definition dbl_range :: "'d dbl \<Rightarrow> 'd \<Rightarrow> int \<Rightarrow> bool" where
  "dbl_range d x n \<longleftrightarrow>
     (if \<not> d_eq d (d_whole d x) (d_lit d 0 0)
      then d_exponent d x \<le> 1024 \<and>
           (\<exists>k\<le>31. d_eq d ((tenth d ^^ (k + nat (d_exponent d x * 308 sdiv 1024 - n))) (d_whole d x)) (d_lit d 0 0))
      else d_less d (d_lit d 0 0) (d_frac d x) \<longrightarrow>
           (\<exists>k<400. \<not> d_less d ((ten_times d ^^ Suc k) (d_frac d x)) (d_lit d 1 0)))"

lemma dbl_lawsD:
  assumes "dbl_laws d"
  shows "\<not> d_signbit d x \<Longrightarrow> \<not> dbl_neg d x" "d_signbit d x \<Longrightarrow> \<not> dbl_neg d (d_minus d x)"
    "\<not> dbl_neg d x \<Longrightarrow> \<not> dbl_neg d (d_frac d x)" "\<not> dbl_neg d x \<Longrightarrow> d_less d (d_frac d x) (d_lit d 1 0)"
    "\<not> dbl_neg d x \<Longrightarrow> \<not> dbl_neg d (ten_times d x)" "\<not> dbl_neg d x \<Longrightarrow> \<not> dbl_neg d (d_div d x (d_lit d 10 0))"
    "\<not> dbl_neg d x \<Longrightarrow> whole_digit d (d_whole d x) \<in> {0..9}"
    "\<not> dbl_neg d x \<Longrightarrow> d_less d x (d_lit d 1 0) \<Longrightarrow> d_int d (d_whole d (ten_times d x)) \<in> {0..9}"
    "\<not> dbl_neg d x \<Longrightarrow> \<not> dbl_neg d (d_whole d x)"
  using assms unfolding dbl_laws_def by simp_all

subsection \<open>The digits are digits\<close>

definition digits_in :: "string \<Rightarrow> int \<Rightarrow> int set \<Rightarrow> bool" where
  "digits_in m buf A \<longleftrightarrow> (\<forall>k\<in>A. isdigit (m ! nat (buf + k)))"

text \<open>The buffer of \<open>bufsize\<close> characters at \<open>buf\<close> lies inside the memory.\<close>

definition window :: "string \<Rightarrow> string \<Rightarrow> int \<Rightarrow> int \<Rightarrow> bool" where
  "window m0 m buf b \<longleftrightarrow> 0 \<le> buf \<and> buf + b \<le> int (length m) \<and> length m = length m0 \<and> take (nat buf) m = take (nat buf) m0"

lemma char_plus_digit: "0 \<le> n \<Longrightarrow> n \<le> 9 \<Longrightarrow> isdigit (char_plus n (CHR ''0''))"
proof -
  assume "0 \<le> n" "n \<le> 9"
  then have "n = 0 \<or> n = 1 \<or> n = 2 \<or> n = 3 \<or> n = 4 \<or> n = 5 \<or> n = 6 \<or> n = 7 \<or> n = 8 \<or> n = 9" by arith
  then show ?thesis by (elim disjE) (simp_all add: char_plus_def isdigit_def)
qed

lemma store_window:
  assumes "window m0 m buf b" "0 \<le> k" "k < b"
  shows "store_at m (buf + k) c = Some (m[nat (buf + k) := c])" "window m0 (m[nat (buf + k) := c]) buf b"
    "byte_of m (buf + k) = Some (m ! nat (buf + k))"
  using assms by (auto simp: window_def store_at_def store_mem_def byte_of_def byte_at_def)

lemma digits_store:
  assumes "window m0 m buf b" "0 \<le> k" "k < b" "digits_in m buf (A - {k})" "k \<in> A \<Longrightarrow> isdigit c" "A \<subseteq> {0..<b}"
  shows "digits_in (m[nat (buf + k) := c]) buf A"
  unfolding digits_in_def
proof
  fix j assume j: "j \<in> A"
  then have "0 \<le> j" "j < b" using assms(6) by auto
  then have "nat (buf + j) < length m" "nat (buf + j) = nat (buf + k) \<longleftrightarrow> j = k"
    using assms(1-3) by (auto simp: window_def nat_less_iff)
  then show "isdigit (m[nat (buf + k) := c] ! nat (buf + j))"
    using assms(4,5) j by (cases "j = k") (auto simp: digits_in_def nth_list_update)
qed

lemma funpow_tenth_trim: "ecvt_trim d n x = (tenth d ^^ n) x"
  by (induction n arbitrary: x) (simp_all add: tenth_def funpow_swap1)

lemma ecvt_whole_digits:
  assumes "dbl_laws d"
  shows "d_eq d ((tenth d ^^ k) (d_whole d x)) (d_lit d 0 0) \<Longrightarrow> \<not> dbl_neg d x \<Longrightarrow> int k \<le> w2 \<Longrightarrow> w2 \<le> b \<Longrightarrow>
    window m0 m buf b \<Longrightarrow> digits_in m buf {w2..<b} \<Longrightarrow>
    \<exists>w m'. ecvt_whole d buf (d_whole d x) w2 r2 m = Some (w, r2 + (w2 - w), m') \<and> 0 \<le> w \<and> w2 - int k \<le> w \<and> w \<le> w2 \<and>
      window m0 m' buf b \<and> digits_in m' buf {w..<b}"
proof (induction k arbitrary: x w2 r2 m)
  case 0
  then show ?case by (subst ecvt_whole.simps) simp
next
  case (Suc k)
  show ?case
  proof (cases "d_eq d (d_whole d x) (d_lit d 0 0)")
    case True
    then show ?thesis using Suc.prems by (subst ecvt_whole.simps) simp
  next
    case False
    let ?c = "char_plus (whole_digit d (d_whole d x)) (CHR ''0'')" and ?y = "d_div d (d_whole d x) (d_lit d 10 0)"
    let ?m = "m[nat (buf + (w2 - 1)) := ?c]"
    have y: "\<not> dbl_neg d ?y" using Suc.prems(2) dbl_lawsD(6,9) [OF assms] by blast
    have w: "0 \<le> w2 - 1" "w2 - 1 < b" using Suc.prems by auto
    have "isdigit ?c" using dbl_lawsD(7) [OF assms Suc.prems(2)] char_plus_digit by auto
    then have "digits_in ?m buf {w2 - 1..<b}"
      using Suc.prems w by (intro digits_store) (auto simp: digits_in_def)
    moreover have "d_whole d ?y = tenth d (d_whole d x)" by (simp add: tenth_def)
    then have "d_eq d ((tenth d ^^ k) (d_whole d ?y)) (d_lit d 0 0)" using Suc.prems(1) by (simp add: funpow_swap1)
    ultimately obtain w' m' where
      "ecvt_whole d buf (d_whole d ?y) (w2 - 1) (r2 + 1) ?m = Some (w', r2 + 1 + (w2 - 1 - w'), m')"
      "0 \<le> w'" "w2 - 1 - int k \<le> w'" "w' \<le> w2 - 1" "window m0 m' buf b" "digits_in m' buf {w'..<b}"
      using Suc.IH [of ?y "w2 - 1" ?m "r2 + 1"] y Suc.prems(3,4) store_window(2) [OF Suc.prems(5) w] by auto
    then show ?thesis
      using False store_window(1) [OF Suc.prems(5) w] by (subst ecvt_whole.simps) (auto simp: algebra_simps)
  qed
qed

lemma ecvt_copy_digits:
  "window m0 m buf b \<Longrightarrow> 0 \<le> w1 \<Longrightarrow> w1 \<le> w2 \<Longrightarrow> w2 + int n = b \<Longrightarrow> digits_in m buf ({0..<w1} \<union> {w2..<b}) \<Longrightarrow>
    \<exists>m'. ecvt_copy buf w1 w2 n m = Some (w1 + int n, m') \<and> window m0 m' buf b \<and> digits_in m' buf {0..<w1 + int n}"
proof (induction n arbitrary: w1 w2 m)
  case 0
  then show ?case by (auto simp: digits_in_def)
next
  case (Suc n)
  let ?m = "m[nat (buf + w1) := m ! nat (buf + w2)]"
  have w: "w1 < b" "0 \<le> w2" "w2 < b" using Suc.prems by auto
  have "isdigit (m ! nat (buf + w2))" using Suc.prems(5) w by (auto simp: digits_in_def)
  then have "digits_in ?m buf ({0..<w1 + 1} \<union> {w2 + 1..<b})"
    using Suc.prems w by (intro digits_store) (auto simp: digits_in_def)
  moreover have "window m0 ?m buf b" by (rule store_window(2) [OF Suc.prems(1,2) w(1)])
  ultimately have "\<exists>m'. ecvt_copy buf (w1 + 1) (w2 + 1) n ?m = Some (w1 + 1 + int n, m') \<and> window m0 m' buf b \<and>
      digits_in m' buf {0..<w1 + 1 + int n}"
    using Suc.prems by (intro Suc.IH) auto
  then show ?case
    using store_window(1) [OF Suc.prems(1,2) w(1)] store_window(3) [OF Suc.prems(1) w(2,3)] by (auto simp: algebra_simps)
qed

lemma ecvt_lead_returns:
  assumes "dbl_laws d"
  shows "\<not> d_less d ((ten_times d ^^ Suc k) x) (d_lit d 1 0) \<Longrightarrow> \<not> dbl_neg d x \<Longrightarrow> d_less d x (d_lit d 1 0) \<Longrightarrow>
    \<exists>y j. ecvt_lead d x r2 = Some (y, r2 - int j) \<and> j \<le> k \<and> \<not> dbl_neg d y \<and> d_less d y (d_lit d 1 0)"
proof (induction k arbitrary: x r2)
  case 0
  then show ?case by (subst ecvt_lead.simps) (simp add: ten_times_def Let_def)
next
  case (Suc k)
  show ?case
  proof (cases "d_less d (ten_times d x) (d_lit d 1 0)")
    case True
    have "\<not> d_less d ((ten_times d ^^ Suc k) (ten_times d x)) (d_lit d 1 0)"
      using Suc.prems(1) by (simp add: funpow_swap1)
    then obtain y j where "ecvt_lead d (ten_times d x) (r2 - 1) = Some (y, r2 - 1 - int j)" "j \<le> k" "\<not> dbl_neg d y" "d_less d y (d_lit d 1 0)"
      using Suc.IH [of "ten_times d x" "r2 - 1"] dbl_lawsD(5) [OF assms Suc.prems(2)] True by blast
    then show ?thesis using True
      by (subst ecvt_lead.simps) (auto simp: ten_times_def Let_def intro!: exI [of _ "Suc j"])
  next
    case False
    then show ?thesis using Suc.prems by (subst ecvt_lead.simps) (auto simp: ten_times_def Let_def)
  qed
qed

lemma ecvt_fraction_digits:
  assumes "dbl_laws d"
  shows "\<not> dbl_neg d x \<Longrightarrow> d_less d x (d_lit d 1 0) \<Longrightarrow> window m0 m buf b \<Longrightarrow> 0 \<le> w1 \<Longrightarrow> w1 \<le> b \<Longrightarrow> n < b \<Longrightarrow>
    digits_in m buf {0..<w1} \<Longrightarrow>
    \<exists>m'. ecvt_fraction d buf b x w1 n m = Some m' \<and> window m0 m' buf b \<and> digits_in m' buf {0..n}"
proof (induction "nat (n + 1 - w1)" arbitrary: x w1 m)
  case 0
  then show ?case by (subst ecvt_fraction.simps) (auto simp: digits_in_def)
next
  case (Suc k)
  let ?c = "char_plus (d_int d (d_whole d (ten_times d x))) (CHR ''0'')" and ?m = "m[nat (buf + w1) := char_plus (d_int d (d_whole d (ten_times d x))) (CHR ''0'')]"
  have w: "w1 \<le> n" "w1 < b" using Suc.hyps(2) Suc.prems by auto
  have "isdigit ?c" using dbl_lawsD(8) [OF assms Suc.prems(1,2)] char_plus_digit by auto
  then have "digits_in ?m buf {0..<w1 + 1}" using Suc.prems w by (intro digits_store) (auto simp: digits_in_def)
  moreover have "window m0 ?m buf b" by (rule store_window(2) [OF Suc.prems(3,4) w(2)])
  ultimately have "\<exists>m'. ecvt_fraction d buf b (d_frac d (ten_times d x)) (w1 + 1) n ?m = Some m' \<and> window m0 m' buf b \<and> digits_in m' buf {0..n}"
    using Suc.hyps(2) Suc.prems w dbl_lawsD(3-5) [OF assms] by (intro Suc.hyps(1)) auto
  then show ?case using w store_window(1) [OF Suc.prems(3,4) w(2)]
    by (subst ecvt_fraction.simps) (simp add: Let_def ten_times_def)
qed

text \<open>While the carry travels, one position may hold the character after \<^verbatim>\<open>9\<close>.\<close>

lemma carry_digit: "isdigit c \<Longrightarrow> \<not> (of_char (char_plus 1 c) :: nat) > of_char (CHR ''9'') \<Longrightarrow> isdigit (char_plus 1 c)"
  by (auto simp: isdigit_def char_plus_def)

lemma ecvt_carry_digits:
  "window m0 m buf b \<Longrightarrow> int w < b \<Longrightarrow> int w \<le> n \<Longrightarrow> n < b \<Longrightarrow> digits_in m buf ({0..<n} - {int w}) \<Longrightarrow>
    (int w < n \<Longrightarrow> \<exists>c. isdigit c \<and> m ! nat (buf + int w) = char_plus 1 c) \<Longrightarrow>
    \<exists>e m'. ecvt_carry buf w decpt m = Some (decpt + e, m') \<and> e \<in> {0, 1} \<and> window m0 m' buf b \<and> digits_in m' buf {0..<n}"
proof (induction w arbitrary: m)
  case 0
  have *: "(0::int) < b" using 0 by simp
  note st = store_window [OF 0(1) order_refl *, simplified]
  show ?case
  proof (cases "of_char (m ! nat buf) > (of_char (CHR ''9'') :: nat)")
    case True
    have "digits_in (m[nat buf := CHR ''1'']) buf {0..<n}"
      using digits_store [OF 0(1) order_refl *, of "{0..<n}" "CHR ''1''"] 0(4,5) by (auto simp: isdigit_def)
    then show ?thesis using True st store_window [OF st(2) order_refl *, simplified] by simp
  next
    case False
    have "digits_in m buf {0..<n}"
      using 0(5,6) False carry_digit by (fastforce simp: digits_in_def)
    then show ?thesis using False st 0(1) by simp
  qed
next
  case (Suc w)
  let ?i = "int (Suc w)"
  have i: "0 \<le> ?i" "0 \<le> int w" "int w < b" using Suc.prems by auto
  note st = store_window [OF Suc.prems(1) i(1) Suc.prems(2)]
  show ?case
  proof (cases "of_char (m ! nat (buf + ?i)) > (of_char (CHR ''9'') :: nat)")
    case True
    let ?m = "m[nat (buf + ?i) := CHR ''0'']"
    let ?m' = "?m[nat (buf + int w) := char_plus 1 (?m ! nat (buf + int w))]"
    note st' = store_window [OF st(2) i(2,3)]
    have d: "digits_in ?m buf {0..<n}"
      using digits_store [OF Suc.prems(1) i(1) Suc.prems(2), of "{0..<n}" "CHR ''0''"] Suc.prems(4,5) by (auto simp: isdigit_def)
    have "digits_in ?m' buf ({0..<n} - {int w})"
      using d Suc.prems(4) by (intro digits_store [OF st(2) i(2,3)]) (auto simp: digits_in_def)
    moreover have "isdigit (?m ! nat (buf + int w))" using d Suc.prems(3) i(2) by (simp add: digits_in_def)
    moreover have "?m' ! nat (buf + int w) = char_plus 1 (?m ! nat (buf + int w))"
      using st(2) i(2,3) by (intro nth_list_update_eq) (auto simp: window_def nat_less_iff)
    ultimately have "\<exists>e m'. ecvt_carry buf w decpt ?m' = Some (decpt + e, m') \<and> e \<in> {0, 1} \<and> window m0 m' buf b \<and> digits_in m' buf {0..<n}"
      using st'(2) i Suc.prems(3,4) by (intro Suc.IH) auto
    then show ?thesis using True st st' by (simp del: of_nat_Suc)
  next
    case False
    have "digits_in m buf {0..<n}" unfolding digits_in_def
    proof
      fix k assume k: "k \<in> {0..<n}"
      show "isdigit (m ! nat (buf + k))"
      proof (cases "k = ?i")
        case True
        then show ?thesis using Suc.prems(6) k False carry_digit by (metis atLeastLessThan_iff)
      qed (use k Suc.prems(5) in \<open>simp add: digits_in_def\<close>)
    qed
    then show ?thesis using False st Suc.prems(1) by (simp del: of_nat_Suc)
  qed
qed

lemma trim_bound: "e \<le> 1024 \<Longrightarrow> e * 308 sdiv 1024 \<le> (308::int)"
  by (cases "0 \<le> e") (auto simp: signed_divide_int_def sgn_if zdiv_mono1 [of "e * 308" "1024 * 308" 1024, simplified] div_int_pos_iff)

lemma ecvt_start_digits:
  assumes laws: "dbl_laws d" and x: "\<not> dbl_neg d x" "dbl_range d x n" and n: "0 \<le> n"
    and buf: "0 \<le> buf" "buf + 31 \<le> int (length m)"
  shows "\<exists>w1 r2 arg m1. ecvt_start d (d_whole d x) (d_frac d x) (d_exponent d x * 308 sdiv 1024 - n) buf 31 m = Some (w1, r2, arg, m1) \<and>
    0 \<le> w1 \<and> w1 \<le> 31 \<and> window m m1 buf 31 \<and> digits_in m1 buf {0..<w1} \<and> \<not> dbl_neg d arg \<and> d_less d arg (d_lit d 1 0) \<and>
    - 400 \<le> r2 \<and> r2 \<le> 339"
    (is "\<exists>w1 r2 arg m1. ?P w1 r2 arg m1")
proof -
  let ?zero = "d_eq d (d_whole d x) (d_lit d 0 0)" and ?r1 = "nat (d_exponent d x * 308 sdiv 1024 - n)"
  have win: "window m m buf 31" using buf by (simp add: window_def)
  have fr: "\<not> dbl_neg d (d_frac d x)" "d_less d (d_frac d x) (d_lit d 1 0)" using dbl_lawsD(3,4) [OF laws x(1)] by blast+
  show ?thesis
  proof (cases ?zero)
    case False
    then obtain k where k: "k \<le> 31" "d_eq d ((tenth d ^^ (k + ?r1)) (d_whole d x)) (d_lit d 0 0)" "d_exponent d x \<le> 1024"
      using x(2) unfolding dbl_range_def by auto
    have "\<exists>y. ecvt_trim d r (d_whole d x) = d_whole d y \<and> \<not> dbl_neg d y" for r
    proof (induction r)
      case (Suc r)
      then obtain y where "ecvt_trim d r (d_whole d x) = d_whole d y" "\<not> dbl_neg d y" by blast
      then show ?case using dbl_lawsD(6,9) [OF laws] by (auto simp: funpow_tenth_trim tenth_def intro!: exI [of _ "d_div d (d_whole d y) (d_lit d 10 0)"])
    qed (use x(1) in auto)
    then obtain y where y: "ecvt_trim d ?r1 (d_whole d x) = d_whole d y" "\<not> dbl_neg d y" by blast
    have "d_eq d ((tenth d ^^ k) (d_whole d y)) (d_lit d 0 0)" using k(2) y(1) by (simp add: funpow_add funpow_tenth_trim)
    then obtain w m1 where w: "ecvt_whole d buf (d_whole d y) 31 (int ?r1) m = Some (w, int ?r1 + (31 - w), m1)"
      "0 \<le> w" "w \<le> 31" "window m m1 buf 31" "digits_in m1 buf {w..<31}"
      using ecvt_whole_digits [OF laws _ y(2) _ order_refl win, of k "int ?r1"] k(1) by (auto simp: digits_in_def)
    obtain m2 where "ecvt_copy buf 0 w (nat (31 - w)) m1 = Some (31 - w, m2)" "window m m2 buf 31" "digits_in m2 buf {0..<31 - w}"
      using ecvt_copy_digits [OF w(4), of 0 w "nat (31 - w)"] w(2,3,5) by auto
    then have "?P (31 - w) (int ?r1 + (31 - w)) (d_frac d x) m2"
      using False fr w(1-3) y(1) trim_bound [OF k(3)] n by (simp add: ecvt_start_def)
    then show ?thesis by blast
  next
    case zero: True
    show ?thesis
    proof (cases "d_less d (d_lit d 0 0) (d_frac d x)")
      case True
      then obtain k where k: "k < 400" "\<not> d_less d ((ten_times d ^^ Suc k) (d_frac d x)) (d_lit d 1 0)"
        using x(2) zero unfolding dbl_range_def by auto
      then obtain y j where "ecvt_lead d (d_frac d x) 0 = Some (y, - int j)" "j \<le> k" "\<not> dbl_neg d y" "d_less d y (d_lit d 1 0)"
        using ecvt_lead_returns [OF laws k(2) fr, of 0] by auto
      then have "?P 0 (- int j) y m" using k(1) win True zero by (simp add: ecvt_start_def digits_in_def)
      then show ?thesis by blast
    qed (use win fr zero in \<open>simp add: ecvt_start_def digits_in_def\<close>)
  qed
qed

lemma ecvt_digits:
  assumes laws: "dbl_laws d" and x: "\<not> dbl_neg d x" "dbl_range d x n" and n: "0 \<le> n" "n \<le> 29"
    and buf: "0 \<le> buf" "buf + 31 \<le> int (length m)"
  shows "\<exists>decpt m'. scpi_ecvt d x n buf 31 m = Some (decpt, False, m') \<and> \<bar>decpt\<bar> \<le> 400 \<and> window m m' buf 31 \<and>
    digits_in m' buf {0..<n} \<and> m' ! nat (buf + n) = NUL"
proof -
  obtain w1 r2 arg m1 where st:
    "ecvt_start d (d_whole d x) (d_frac d x) (d_exponent d x * 308 sdiv 1024 - n) buf 31 m = Some (w1, r2, arg, m1)"
    "0 \<le> w1" "w1 \<le> 31" "window m m1 buf 31" "digits_in m1 buf {0..<w1}" "\<not> dbl_neg d arg" "d_less d arg (d_lit d 1 0)" "- 400 \<le> r2" "r2 \<le> 339"
    using ecvt_start_digits [OF laws x n(1) buf] by blast
  obtain m2 where m2: "ecvt_fraction d buf 31 arg w1 n m1 = Some m2" "window m m2 buf 31" "digits_in m2 buf {0..n}"
    using ecvt_fraction_digits [OF laws st(6,7,4,2,3) _ st(5), of n] n(2) by auto
  let ?m3 = "m2[nat (buf + n) := char_plus 5 (m2 ! nat (buf + n))]"
  note p = store_window [OF m2(2) n(1)]
  have "digits_in ?m3 buf ({0..<n} - {int (nat n)})"
    using m2(3) n by (intro digits_store [OF m2(2)]) (auto simp: digits_in_def)
  then obtain e m4 where m4: "ecvt_carry buf (nat n) r2 ?m3 = Some (r2 + e, m4)" "e \<in> {0, 1}" "window m m4 buf 31" "digits_in m4 buf {0..<n}"
    using ecvt_carry_digits [OF p(2), of "nat n" n] n by force
  note q = store_window [OF m4(3) n(1)]
  let ?m5 = "m4[nat (buf + n) := NUL]"
  have "digits_in ?m5 buf {0..<n}" using m4(4) n by (intro digits_store [OF m4(3)]) (auto simp: digits_in_def)
  moreover have "?m5 ! nat (buf + n) = NUL" using m4(3) n by (intro nth_list_update_eq) (auto simp: window_def nat_less_iff)
  moreover have "scpi_ecvt d x n buf 31 m = Some (r2 + e, False, ?m5)"
    using st(1) m2(1) p m4(1) q n x(1) unfolding scpi_ecvt_def Let_def by (simp add: Let_def)
  ultimately show ?thesis using q(2) n st(8,9) m4(2) by fastforce
qed

subsection \<open>The text that is meant\<close>

definition rstrip :: "string \<Rightarrow> string" where
  "rstrip xs = (let ys = rev (dropWhile (\<lambda>c. c = CHR ''0'') (rev xs)) in if last ys = CHR ''.'' then butlast ys else ys)"

definition exponent_text :: "int \<Rightarrow> string" where
  "exponent_text e =
     (if e = 0 then []
      else let t = SCPI_UInt32ToStrBase (word_of_int \<bar>e\<bar>) 5 10
           in CHR ''e'' # (if 0 < e then CHR ''+'' else CHR ''-'') # (if length t = 1 then CHR ''0'' # t else t))"

text \<open>The digits with their point, and what is left of that: if its character at index \<open>prec\<close> is a zero or the point, everything behind
  it is lost.\<close>

definition placed :: "string \<Rightarrow> int \<Rightarrow> string" where
  "placed ds decpt =
     (if 1 < decpt \<and> decpt \<le> int (length ds) then take (nat decpt) ds @ CHR ''.'' # drop (nat decpt) ds
      else if - 4 < decpt \<and> decpt \<le> 0 then CHR ''0'' # CHR ''.'' # replicate (nat (- decpt)) (CHR ''0'') @ ds
      else hd ds # CHR ''.'' # tl ds)"

definition cut_text :: "nat \<Rightarrow> string \<Rightarrow> string" where
  "cut_text prec xs = (if xs ! prec \<in> {CHR ''0'', CHR ''.''} then rstrip (take (prec + 1) xs) else xs)"

definition scientific :: "string \<Rightarrow> int \<Rightarrow> bool" where
  "scientific ds decpt \<longleftrightarrow> \<not> (1 < decpt \<and> decpt \<le> int (length ds)) \<and> \<not> (- 4 < decpt \<and> decpt \<le> 0)"

subsection \<open>The text in the buffer\<close>

lemma store_append: "length A = i \<Longrightarrow> store_mem (A @ c # B) i x = Some (A @ x # B)"
  by (auto simp: store_mem_def)

lemma byte_append: "length A = i \<Longrightarrow> byte_at (A @ c # B) i = Some c"
  by (auto simp: byte_at_def)

lemma memcpy_append: "length A = i \<Longrightarrow> n \<le> length src \<Longrightarrow> n \<le> length B \<Longrightarrow> memcpy_mem (A @ B) i src n = Some (A @ take n src @ drop n B)"
  by (auto simp: memcpy_mem_def)

lemma memmove_split:
  "m = A @ B \<Longrightarrow> length A = i \<Longrightarrow> drop j m = C @ D \<Longrightarrow> length C = n \<Longrightarrow> n \<le> length B \<Longrightarrow>
     memmove_mem m i j n = Some (A @ C @ drop n B)"
  by (auto simp: memmove_mem_def memcpy_append)

lemma point_inside:
  assumes "1 < k" "k \<le> length ds" "R \<noteq> []"
  shows "dtostre_point (length P) (length ds) (int k) (P @ ds @ NUL # R) =
    Some (0, P @ (take k ds @ CHR ''.'' # drop k ds) @ NUL # tl R)"
proof -
  have n: "int k > 1 \<and> int k \<le> int (length ds)" using assms by simp
  let ?n = "length ds + 1 - k" and ?A = "P @ take k ds" and ?T = "drop k ds @ [NUL]"
  obtain c cs where c: "?T = c # cs" by (cases ?T) auto
  obtain r rs where r: "R = r # rs" using assms(3) by (cases R) auto
  have m: "P @ ds @ NUL # R = (?A @ [c]) @ cs @ R" using c by (metis append.assoc append_Cons append_Nil append_take_drop_id)
  have l: "length ?T = ?n" "length cs + 1 = ?n" using assms(2) arg_cong [OF c, of length] by simp_all
  have d: "drop (length P + k) (P @ ds @ NUL # R) = ?T @ R" using assms(2) by simp
  have "memmove_mem (P @ ds @ NUL # R) (length P + k + 1) (length P + k) ?n = Some ((?A @ [c]) @ ?T @ rs)"
    unfolding l(2) [symmetric]
    using memmove_split [OF m _ d, of "length P + k + 1" "length cs + 1"] assms(2) l r by simp
  then show ?thesis
    using assms(2) n store_append [of ?A "length P + k" c "?T @ rs" "CHR ''.''"] r by (simp add: dtostre_point_def)
qed

lemma point_before:
  assumes "k < 4" "5 \<le> length R"
  shows "dtostre_point (length P) (length ds) (- int k) (P @ ds @ NUL # R) =
    Some (0, P @ (CHR ''0'' # CHR ''.'' # replicate k (CHR ''0'') @ ds) @ NUL # drop (k + 2) R)"
proof -
  let ?B = "ds @ NUL # R"
  have z: "nat (- (- int k) + 1) = k + 1" by simp
  have "memmove_mem (P @ ?B) (length P + (k + 1) + 1) (length P) (length ds + 1) =
      Some ((P @ take (k + 2) ?B) @ (ds @ [NUL]) @ drop (length ds + 1) (drop (k + 2) ?B))"
    by (rule memmove_split, simp only: append.assoc append_take_drop_id) (use assms in auto)
  moreover have "drop (length ds + 1) (drop (k + 2) ?B) = drop (k + 2) R"
  proof -
    have "drop (length ds + 1) (drop (k + 2) ?B) = drop (k + 2) (drop (length ds + 1) ?B)" by (simp only: drop_drop add.commute)
    then show ?thesis by simp
  qed
  moreover have "memset_mem (P @ take (k + 2) ?B @ X) (length P) (CHR ''0'') (k + 1 + 1) =
      Some (P @ replicate (k + 2) (CHR ''0'') @ X)" for X
    unfolding memset_mem_def by (subst memcpy_append) (use assms in auto)
  ultimately show ?thesis
    using assms store_append [of "P @ ''0''" "length P + 1"] unfolding dtostre_point_def Let_def z
    by (simp add: numeral_eq_Suc ac_simps)
qed

lemma point_scientific:
  assumes "scientific ds decpt" "ds \<noteq> []" "2 \<le> length R"
  shows "dtostre_point (length P) (length ds) decpt (P @ ds @ NUL # R) =
    Some (decpt - 1, P @ (hd ds # CHR ''.'' # tl ds) @ NUL # hd R # drop 2 R)"
proof -
  obtain a as where ds: "ds = a # as" using assms(2) by (cases ds) auto
  obtain r r' rs where R: "R = r # r' # rs" using assms(3) by (cases R; cases "tl R") auto
  obtain c cs where c: "as @ [NUL] = c # cs" by (cases as) auto
  have m: "P @ ds @ NUL # R = (P @ [a, c]) @ cs @ R" using c ds by (metis append.assoc append_Cons append_Nil)
  have l: "length cs = length as" using arg_cong [OF c, of length] by simp
  have "memmove_mem (P @ ds @ NUL # R) (length P + 2) (length P + 1) (length ds + 1) = Some ((P @ [a, c]) @ (as @ [NUL, r]) @ rs)"
    using memmove_split [OF m, of "length P + 2" "length P + 1" "as @ [NUL, r]" "r' # rs"] l by (simp add: ds R)
  then show ?thesis
    using assms(1) store_append [of "P @ [a]" "length P + 1" c] unfolding dtostre_point_def scientific_def by (auto simp: ds R)
qed

lemma dtostre_point_placed:
  assumes "ds \<noteq> []" "7 \<le> length R"
  shows "\<exists>R'. dtostre_point (length P) (length ds) decpt (P @ ds @ NUL # R) =
    Some (if scientific ds decpt then decpt - 1 else 0, P @ placed ds decpt @ NUL # R') \<and>
    (scientific ds decpt \<longrightarrow> 6 \<le> length R')"
proof -
  consider "1 < decpt \<and> decpt \<le> int (length ds)" | "- 4 < decpt \<and> decpt \<le> 0" | "scientific ds decpt"
    by (auto simp: scientific_def)
  then show ?thesis
  proof cases
    case 1
    then show ?thesis using point_inside [of "nat decpt" ds R P] assms by (cases R) (auto simp: placed_def scientific_def)
  next
    case 2
    then show ?thesis using point_before [of "nat (- decpt)" R P ds] assms by (auto simp: placed_def scientific_def)
  next
    case 3
    then show ?thesis using point_scientific [OF 3 assms(1), of R P] assms(2) by (auto simp: placed_def scientific_def)
  qed
qed

lemma dtostre_zeros_strip:
  "\<exists>c\<in>set Y. c \<noteq> CHR ''0'' \<Longrightarrow>
   (let ys = rev (dropWhile (\<lambda>c. c = CHR ''0'') (rev Y)) in
    dtostre_zeros (length P + length Y - 1) (P @ Y @ Z) =
      Some (length P + length ys - 1, P @ ys @ replicate (length Y - length ys) NUL @ Z) \<and> ys \<noteq> [])"
proof (induction Y arbitrary: Z rule: rev_induct)
  case (snoc x xs)
  have i: "length P + length (xs @ [x]) - 1 = length (P @ xs)" by simp
  show ?case
  proof (cases "x = CHR ''0''")
    case True
    then have "xs \<noteq> []" using snoc.prems by auto
    then obtain s where s: "length (P @ xs) = Suc s" by (cases xs) auto
    have "dtostre_zeros (length P + length (xs @ [x]) - 1) (P @ (xs @ [x]) @ Z) = dtostre_zeros (length P + length xs - 1) (P @ xs @ NUL # Z)"
      unfolding i s using True s store_append [of "P @ xs" "Suc s" x Z NUL] byte_append [of "P @ xs" "Suc s" x Z] by simp
    moreover have "length (dropWhile (\<lambda>c. c = CHR ''0'') (rev xs)) \<le> length xs" by (metis length_dropWhile_le length_rev)
    ultimately show ?thesis using snoc.IH [of "NUL # Z"] snoc.prems True
      by (auto simp: Let_def Suc_diff_le replicate_app_Cons_same)
  next
    case False
    have "dtostre_zeros (length (P @ xs)) (P @ xs @ x # Z) = Some (length (P @ xs), P @ xs @ x # Z)"
      using False byte_append [of "P @ xs" "length (P @ xs)" x Z] by (cases "length (P @ xs)") auto
    then show ?thesis unfolding i using False by simp
  qed
qed simp

lemma zeros_stripped: "xs = rev (dropWhile (\<lambda>c. c = CHR ''0'') (rev xs)) @ replicate (length xs - length (dropWhile (\<lambda>c. c = CHR ''0'') (rev xs))) (CHR ''0'')"
proof (induction xs rule: rev_induct)
  case (snoc x xs)
  have "length (dropWhile (\<lambda>c. c = CHR ''0'') (rev xs)) \<le> length xs" by (metis length_dropWhile_le length_rev)
  then show ?case using snoc.IH by (auto simp: Suc_diff_le replicate_append_same [symmetric])
qed simp

lemma dtostre_strip_text:
  assumes "CHR ''.'' \<in> set Y" "hd Y \<noteq> CHR ''.''"
  shows "dtostre_strip (length P + length Y - 1) (P @ Y @ Z) =
      Some (length P + length (rstrip Y) - 1, P @ rstrip Y @ replicate (length Y - length (rstrip Y)) NUL @ Z) \<and> rstrip Y \<noteq> [] \<and>
    (last Y \<in> {CHR ''0'', CHR ''.''} \<longrightarrow> length (rstrip Y) < length Y)"
proof -
  define ys k where "ys = rev (dropWhile (\<lambda>c. c = CHR ''0'') (rev Y))" and "k = length Y - length ys"
  have z: "dtostre_zeros (length P + length Y - 1) (P @ Y @ Z) = Some (length P + length ys - 1, P @ ys @ replicate k NUL @ Z)" "ys \<noteq> []"
    using dtostre_zeros_strip [of Y P Z] assms(1) unfolding ys_def k_def Let_def by force+
  then obtain B l where ys: "ys = B @ [l]" by (cases ys rule: rev_cases) auto
  have "Y = ys @ replicate k (CHR ''0'')" using zeros_stripped [of Y] by (simp add: ys_def k_def)
  then have Y: "Y = B @ l # replicate k (CHR ''0'')" using ys by simp
  have l: "l \<noteq> CHR ''0''"
    using hd_dropWhile [of "\<lambda>c. c = CHR ''0''" "rev Y"] z(2) ys unfolding ys_def by (metis (mono_tags, lifting) last_rev last_snoc rev_is_Nil_conv)
  have r: "rstrip Y = (if l = CHR ''.'' then B else B @ [l])" by (simp add: rstrip_def Let_def ys flip: ys_def)
  have B: "l = CHR ''.'' \<Longrightarrow> B \<noteq> []" using assms(2) Y by (cases B) auto
  have z': "dtostre_zeros (length P + length Y - 1) (P @ Y @ Z) = Some (length P + length B, P @ B @ l # replicate k NUL @ Z)"
    using z(1) ys by simp
  note st = byte_append [of "P @ B" "length P + length B" l, simplified] store_append [of "P @ B" "length P + length B" l, simplified]
  have "dtostre_strip (length P + length Y - 1) (P @ Y @ Z) =
      Some (length P + length (rstrip Y) - 1, P @ rstrip Y @ replicate (length Y - length (rstrip Y)) NUL @ Z)"
    using B st unfolding dtostre_strip_def z' r by (auto simp: Y)
  moreover have "last Y \<in> {CHR ''0'', CHR ''.''} \<longrightarrow> length (rstrip Y) < length Y"
    using l unfolding r by (cases k) (auto simp: Y)
  ultimately show ?thesis using B r by auto
qed

lemma strip_cut:
  assumes "prec < length X" "CHR ''.'' \<in> set (take (prec + 1) X)" "hd X \<noteq> CHR ''.''"
  shows "\<exists>s R'. dtostre_strip (length P + prec) (P @ X @ NUL # R) = Some (s, P @ cut_text prec X @ NUL # R') \<and>
    (length X = prec + 1 \<longrightarrow> s = length P + length (cut_text prec X) - 1 \<and> cut_text prec X \<noteq> [] \<and> length R \<le> length R')"
proof (cases "X ! prec \<in> {CHR ''0'', CHR ''.''}")
  case True
  let ?Y = "take (prec + 1) X" and ?Z = "drop (prec + 1) X @ NUL # R"
  have "?Y @ ?Z = X @ NUL # R" by (metis append.assoc append_take_drop_id)
  moreover have "hd ?Y \<noteq> CHR ''.''" using assms(3) by (cases X) simp_all
  ultimately have Y: "length ?Y = prec + 1" "?Y @ ?Z = X @ NUL # R" "hd ?Y \<noteq> CHR ''.''" "last ?Y = X ! prec"
    using assms(1) by (simp_all add: take_Suc_conv_app_nth)
  have c: "cut_text prec X = rstrip ?Y" using True by (simp add: cut_text_def)
  have r: "dtostre_strip (length P + prec) (P @ X @ NUL # R) =
      Some (length P + length (rstrip ?Y) - 1, P @ rstrip ?Y @ replicate (prec + 1 - length (rstrip ?Y)) NUL @ ?Z)"
    "rstrip ?Y \<noteq> []" "length (rstrip ?Y) < prec + 1"
    using dtostre_strip_text [OF assms(2) Y(3), of P ?Z, unfolded Y(1,2,4)] True by auto
  then obtain k where "prec + 1 - length (rstrip ?Y) = Suc k" by (metis Suc_diff_Suc)
  then show ?thesis using r c by auto
next
  case False
  have "X = take prec X @ X ! prec # drop (Suc prec) X" using assms(1) by (simp add: id_take_nth_drop)
  then have b: "byte_at (P @ X @ NUL # R) (length P + prec) = Some (X ! prec)"
    using assms(1) by (simp add: byte_at_def nth_append)
  have "dtostre_zeros (length P + prec) (P @ X @ NUL # R) = Some (length P + prec, P @ X @ NUL # R)"
    using b False by (cases "length P + prec") auto
  then show ?thesis using b False assms(1) by (auto simp: dtostre_strip_def cut_text_def)
qed

lemma placed_props:
  assumes "ds \<noteq> []" "list_all isdigit ds"
  shows "length ds < length (placed ds decpt)" "CHR ''.'' \<in> set (take (length ds + 1) (placed ds decpt))"
    "hd (placed ds decpt) \<noteq> CHR ''.''" "NUL \<notin> set (placed ds decpt)" "scientific ds decpt \<Longrightarrow> length (placed ds decpt) = length ds + 1"
proof -
  obtain a as where ds: "ds = a # as" using assms(1) by (cases ds) auto
  have a: "a \<noteq> CHR ''.''" "NUL \<notin> set ds" using assms(2) ds by (auto simp: list_all_iff isdigit_def)
  show "length ds < length (placed ds decpt)" "hd (placed ds decpt) \<noteq> CHR ''.''"
    "scientific ds decpt \<Longrightarrow> length (placed ds decpt) = length ds + 1"
    using a by (auto simp: placed_def ds scientific_def take_Cons' hd_append)
  show "CHR ''.'' \<in> set (take (length ds + 1) (placed ds decpt))"
    by (auto simp: placed_def ds take_Cons')
  show "NUL \<notin> set (placed ds decpt)"
    using a by (auto simp: placed_def ds dest: in_set_takeD in_set_dropD)
qed

lemma rstrip_chars: "c \<in> set (rstrip xs) \<Longrightarrow> c \<in> set xs"
proof -
  let ?ys = "rev (dropWhile (\<lambda>c. c = CHR ''0'') (rev xs))"
  assume "c \<in> set (rstrip xs)"
  then have "c \<in> set ?ys"
    using in_set_butlastD [of c ?ys] by (simp only: rstrip_def Let_def split: if_split_asm)
  then show "c \<in> set xs" using set_dropWhileD [of c _ "rev xs"] by simp
qed

lemma cut_chars: "c \<in> set (cut_text n xs) \<Longrightarrow> c \<in> set xs"
  by (auto simp: cut_text_def dest!: rstrip_chars dest: in_set_takeD split: if_splits)

lemma digits_no_NUL: "list_all isdigit t \<Longrightarrow> NUL \<notin> set t"
  by (induction t) (auto simp: isdigit_def)

lemma exponent_props:
  assumes "\<bar>e\<bar> \<le> 999"
  shows "NUL \<notin> set (exponent_text e)" "e \<noteq> 0 \<Longrightarrow>
    \<exists>t. t = UInt32ToStrBaseSign (word_of_int \<bar>e\<bar>) 5 10 False \<and> list_all isdigit t \<and> 1 \<le> length t \<and> length t \<le> 3 \<and> value_of 10 t = nat \<bar>e\<bar>"
proof -
  have u: "unat (word_of_int \<bar>e\<bar> :: u32) = nat \<bar>e\<bar>" using assms by (simp add: unat_eq_nat_uint take_bit_int_eq_self uint_word_of_int)
  have *: "\<exists>t. t = SCPI_UInt32ToStrBase (word_of_int \<bar>e\<bar>) 5 10 \<and> list_all isdigit t \<and> 1 \<le> length t \<and> length t \<le> 3 \<and> value_of 10 t = nat \<bar>e\<bar>"
    if "e \<noteq> 0"
  proof -
    have "nat \<bar>e\<bar> < 10 ^ 5" using assms by (simp add: nat_less_iff)
    moreover have "(word_of_int \<bar>e\<bar> :: u32) \<noteq> 0" using u that by (metis abs_eq_0 nat_0_iff abs_ge_zero antisym_conv unat_0)
    ultimately obtain j where j: "length (SCPI_UInt32ToStrBase (word_of_int \<bar>e\<bar>) 5 10) = Suc j" "10 ^ j \<le> nat \<bar>e\<bar>"
      "list_all isdigit (SCPI_UInt32ToStrBase (word_of_int \<bar>e\<bar>) 5 10)" "value_of 10 (SCPI_UInt32ToStrBase (word_of_int \<bar>e\<bar>) 5 10) = nat \<bar>e\<bar>"
      using decimal_shape [of "word_of_int \<bar>e\<bar>" 5, unfolded u] by blast
    have "nat \<bar>e\<bar> < 10 ^ 3" using assms by (simp add: nat_less_iff)
    then have "(10::nat) ^ j < 10 ^ 3" using j(2) by linarith
    then have "j < 3" by (rule power_less_imp_less_exp [rotated]) simp
    then show ?thesis using j by simp
  qed
  then show "e \<noteq> 0 \<Longrightarrow>
    \<exists>t. t = UInt32ToStrBaseSign (word_of_int \<bar>e\<bar>) 5 10 False \<and> list_all isdigit t \<and> 1 \<le> length t \<and> length t \<le> 3 \<and> value_of 10 t = nat \<bar>e\<bar>"
    by (simp add: SCPI_UInt32ToStrBase_def)
  show "NUL \<notin> set (exponent_text e)"
  proof (cases "e = 0")
    case False
    then show ?thesis using * digits_no_NUL by (auto simp: exponent_text_def Let_def)
  qed (simp add: exponent_text_def)
qed

lemma dtostre_exponent_text:
  assumes "\<bar>e\<bar> \<le> 999" "e \<noteq> 0 \<Longrightarrow> 6 \<le> length R" "e \<noteq> 0 \<Longrightarrow> s + 1 = length (P @ T)"
  shows "\<exists>R'. dtostre_exponent s e (P @ T @ NUL # R) = Some (P @ T @ exponent_text e @ NUL # R')"
proof (cases "e = 0")
  case True
  then show ?thesis by (simp add: dtostre_exponent_def exponent_text_def)
next
  case False
  define sg where "sg = (if e > 0 then CHR ''+'' else CHR ''-'')"
  let ?A = "P @ T"
  obtain t where t: "t = UInt32ToStrBaseSign (word_of_int \<bar>e\<bar>) 5 10 False" "list_all isdigit t" "1 \<le> length t" "length t \<le> 3"
    using exponent_props(2) [OF assms(1) False] by blast
  have s: "s + 1 = length ?A" "s + 2 = length (?A @ ''e'')" "s + 3 = length (?A @ [CHR ''e'', sg])" using assms(3) False by simp_all
  obtain r0 r1 r2 r3 r4 r5 R' where R: "R = r0 # r1 # r2 # r3 # r4 # r5 # R'"
    using assms(2) False by (auto simp: numeral_eq_Suc Suc_le_length_iff)
  define rs :: string where "rs = drop (length t + 1) (r1 # r2 # r3 # r4 # r5 # R')"
  let ?e = "CHR ''e''"
  have st: "store_mem (P @ T @ NUL # R) (s + 1) ?e = Some (P @ T @ ?e # R)"
    "store_mem (P @ T @ ?e # R) (s + 2) sg = Some (P @ T @ ?e # sg # r1 # r2 # r3 # r4 # r5 # R')"
    using s store_append [of ?A "s + 1" NUL R] store_append [of "?A @ ''e''" "s + 2" r0] by (simp_all add: R)
  have cp: "memcpy_mem (P @ T @ ?e # sg # r1 # r2 # r3 # r4 # r5 # R') (s + 3) (t @ [NUL]) (length (t @ [NUL])) =
      Some (P @ T @ ?e # sg # t @ NUL # rs)"
    using s t(4) memcpy_append [of "?A @ [?e, sg]" "s + 3" "length t + 1" "t @ [NUL]" "r1 # r2 # r3 # r4 # r5 # R'"] unfolding rs_def by simp
  have tk: "take 5 (t @ [NUL]) = t @ [NUL]" using t(4) by simp
  have ex: "dtostre_exponent s e (P @ T @ NUL # R) =
      (let m = P @ T @ ?e # sg # t @ NUL # rs in
       do { c \<leftarrow> byte_at m (s + 4);
            if c = NUL
            then do { m \<leftarrow> store_mem m (s + 5) c; c \<leftarrow> byte_at m (s + 3); m \<leftarrow> store_mem m (s + 4) c; store_mem m (s + 3) (CHR ''0'') }
            else Some m })"
    using False st cp tk unfolding dtostre_exponent_def t(1) [symmetric] sg_def [symmetric] Let_def by simp
  consider a where "t = [a]" | a b cs where "t = a # b # cs" "b \<noteq> NUL"
    using t(3) digits_no_NUL [OF t(2)] by (cases t; cases "tl t") auto
  then show ?thesis
  proof cases
    case (1 a)
    note ap = store_append [of "?A @ [?e, sg, a, NUL]" "s + 5" r3]
      byte_append [of "?A @ [?e, sg]" "s + 3" a] store_append [of "?A @ [?e, sg, a]" "s + 4" NUL] byte_append [of "?A @ [?e, sg, a]" "s + 4" NUL]
      store_append [of "?A @ [?e, sg]" "s + 3" a]
    have "rs = r3 # r4 # r5 # R'" using 1 by (simp add: rs_def)
    then show ?thesis using s 1 ap unfolding ex by (simp add: exponent_text_def False SCPI_UInt32ToStrBase_def Let_def flip: t(1) sg_def)
  next
    case (2 a b cs)
    have "byte_at (P @ T @ ?e # sg # t @ X) (s + 4) = Some b" for X
      using s 2 byte_append [of "?A @ [?e, sg, a]" "s + 4" b "cs @ X"] by simp
    then show ?thesis using 2 unfolding ex by (simp add: exponent_text_def False SCPI_UInt32ToStrBase_def Let_def flip: t(1) sg_def)
  qed
qed

lemma strncpy_text:
  assumes "NUL \<notin> set t" "0 < n"
  shows "strncpy_mem (t @ NUL # R) n = Some (take (n - 1) t @ replicate (n - length (take (n - 1) t)) NUL)"
proof (cases "length t < n")
  case True
  then obtain k where k: "n - length t = Suc k" by (metis Suc_diff_Suc)
  then have "int n - 1 = int (length t + k)" using True by simp
  moreover have "strnlen_mem (t @ NUL # R) n = Some (length t)" by (rule strnlen_mem_stop) (use True assms in auto)
  moreover have "(t @ replicate (Suc k) NUL)[length t + k := NUL] = t @ replicate (Suc k) NUL"
    by (simp add: list_update_append list_update_same_conv [THEN iffD2] nth_append del: replicate.simps)
  ultimately show ?thesis using True k assms(2) by (simp add: strncpy_mem_def store_at_def store_mem_def nat_int_add del: replicate.simps)
next
  case False
  then have "strnlen_mem (t @ NUL # R) n = Some n" using assms by (intro strnlen_mem_all) (auto dest: in_set_takeD)
  moreover have "take n t = take (n - 1) t @ [t ! (n - 1)]" using False assms(2) by (metis Suc_pred' not_less_eq not_less take_Suc_conv_app_nth Suc_le_lessD)
  moreover have "nat (int n - 1) = n - 1" "length (take (n - 1) t) = n - 1" using False assms(2) by auto
  ultimately show ?thesis using False assms(2) by (simp add: strncpy_mem_def store_at_def store_mem_def list_update_append)
qed

subsection \<open>What is printed\<close>

text \<open>The sign, and what the buffer holds from its first digit on.\<close>

definition sign_text :: "'d dbl \<Rightarrow> 'd \<Rightarrow> u8 \<Rightarrow> string" where
  "sign_text d x flags =
     (if d_signbit d x then ''-''
      else if SCPI_DTOSTRE_PLUS_SIGN AND flags \<noteq> 0 then ''+''
      else if SCPI_DTOSTRE_ALWAYS_SIGN AND flags \<noteq> 0 then '' '' else [])"

definition double_text :: "string \<Rightarrow> int \<Rightarrow> string" where
  "double_text ds decpt =
     (if 1 < decpt \<and> decpt \<le> int (length ds) then rstrip (take (nat decpt) ds @ CHR ''.'' # drop (nat decpt) ds)
      else if - 4 < decpt \<and> decpt \<le> 0 then cut_text (length ds) (CHR ''0'' # CHR ''.'' # replicate (nat (- decpt)) (CHR ''0'') @ ds)
      else rstrip (hd ds # CHR ''.'' # tl ds) @ exponent_text (decpt - 1))"

definition dbl_abs :: "'d dbl \<Rightarrow> 'd \<Rightarrow> 'd" where
  "dbl_abs d x = (if d_signbit d x then d_minus d x else x)"

lemma cut_text_full:
  assumes "length xs = n + 1" "CHR ''.'' \<in> set xs"
  shows "cut_text n xs = rstrip xs"
proof -
  have l: "xs \<noteq> []" "last xs = xs ! n" using assms(1) by (cases xs rule: rev_cases; auto)+
  then have "rev xs = xs ! n # rev (butlast xs)" by (metis append_butlast_last_id rev_eq_Cons_iff rev_rev_ident)
  then have "dropWhile (\<lambda>c. c = CHR ''0'') (rev xs) = rev xs" if "xs ! n \<noteq> CHR ''0''" using that by (simp only: dropWhile.simps if_False)
  then have "rstrip xs = xs" if "xs ! n \<notin> {CHR ''0'', CHR ''.''}" using that l(2) by (simp add: rstrip_def)
  then show ?thesis using assms(1) by (auto simp: cut_text_def)
qed

lemma double_text_placed:
  assumes "ds \<noteq> []" "list_all isdigit ds"
  shows "double_text ds decpt = cut_text (length ds) (placed ds decpt) @ exponent_text (if scientific ds decpt then decpt - 1 else 0)"
proof -
  have "cut_text (length ds) (placed ds decpt) = rstrip (placed ds decpt)" if "decpt \<le> - 4 \<or> 0 < decpt"
    using that assms(1) by (intro cut_text_full) (auto simp: placed_def)
  then show ?thesis by (auto simp: double_text_def scientific_def placed_def exponent_text_def)
qed

text \<open>From the digits to the text.\<close>

lemma text_from_digits:
  assumes "ds \<noteq> []" "list_all isdigit ds" "\<bar>decpt\<bar> \<le> 400" "7 \<le> length R" "NUL \<notin> set P" "0 < n"
  shows "do { (decpt, m) \<leftarrow> dtostre_point (length P) (length ds) decpt (P @ ds @ NUL # R);
              (s, m) \<leftarrow> dtostre_strip (length P + length ds) m;
              m \<leftarrow> dtostre_exponent s decpt m;
              strncpy_mem m n } =
    Some (let t = take (n - 1) (P @ double_text ds decpt) in t @ replicate (n - length t) NUL)"
proof -
  let ?X = "placed ds decpt" and ?e = "if scientific ds decpt then decpt - 1 else 0"
  let ?T = "cut_text (length ds) ?X"
  note pp = placed_props [OF assms(1,2), of decpt]
  obtain R1 where p: "dtostre_point (length P) (length ds) decpt (P @ ds @ NUL # R) = Some (?e, P @ ?X @ NUL # R1)"
    "scientific ds decpt \<longrightarrow> 6 \<le> length R1"
    using dtostre_point_placed [OF assms(1,4), of P decpt] by blast
  obtain s R2 where s: "dtostre_strip (length P + length ds) (P @ ?X @ NUL # R1) = Some (s, P @ ?T @ NUL # R2)"
    "length ?X = length ds + 1 \<longrightarrow> s = length P + length ?T - 1 \<and> ?T \<noteq> [] \<and> length R1 \<le> length R2"
    using strip_cut [OF pp(1-3)] by blast
  have e9: "\<bar>?e\<bar> \<le> 999" using assms(3) unfolding abs_le_iff by auto
  have "?e \<noteq> 0 \<Longrightarrow> scientific ds decpt" by (simp split: if_splits)
  then obtain R3 where e: "dtostre_exponent s ?e (P @ ?T @ NUL # R2) = Some (P @ ?T @ exponent_text ?e @ NUL # R3)"
    using dtostre_exponent_text [OF e9, of R2 s P ?T] p(2) s(2) pp(5) by force
  have "NUL \<notin> set (P @ ?T @ exponent_text ?e)"
    using assms(5) pp(4) cut_chars exponent_props(1) [OF e9] by auto
  then have "strncpy_mem (P @ ?T @ exponent_text ?e @ NUL # R3) n =
      Some (let t = take (n - 1) (P @ ?T @ exponent_text ?e) in t @ replicate (n - length t) NUL)"
    using strncpy_text [of "P @ ?T @ exponent_text ?e" n R3] assms(6) by (simp add: Let_def)
  then show ?thesis using p(1) s(1) e double_text_placed [OF assms(1,2), of decpt] by simp
qed

text \<open>The buffer after \<^verbatim>\<open>scpi_ecvt\<close>: the sign, the digits, their terminator, and the rest.\<close>

lemma ecvt_buffer:
  assumes "dbl_laws d" "\<not> dbl_neg d a" "dbl_range d a (int n)" "1 \<le> n" "n \<le> 23" "length P \<le> 1" "length (P @ B) = 32"
  shows "\<exists>decpt ds R. scpi_ecvt d a (int n) (int (length P)) 31 (P @ B) = Some (decpt, False, P @ ds @ NUL # R) \<and>
    \<bar>decpt\<bar> \<le> 400 \<and> length ds = n \<and> list_all isdigit ds \<and> 7 \<le> length R"
proof -
  have pre: "0 \<le> int n" "int n \<le> 29" "0 \<le> int (length P)" "int (length P) + 31 \<le> int (length (P @ B))"
    using assms(5-7) by simp_all
  obtain decpt m where e: "scpi_ecvt d a (int n) (int (length P)) 31 (P @ B) = Some (decpt, False, m)" "\<bar>decpt\<bar> \<le> 400"
    "window (P @ B) m (int (length P)) 31" "digits_in m (int (length P)) {0..<int n}" "m ! nat (int (length P) + int n) = NUL"
    using ecvt_digits [OF assms(1-3) pre] by blast
  define ds R where "ds = take n (drop (length P) m)" and "R = drop (length P + n + 1) m"
  have m: "length m = 32" "take (length P) m = P" using e(3) assms(7) unfolding window_def by simp_all
  have l: "length ds = n" "7 \<le> length R" using m(1) assms(4-6) by (simp_all add: ds_def R_def)
  have "isdigit (ds ! i)" if "i < n" for i
  proof -
    have "int i \<in> {0..<int n}" using that by simp
    then have "isdigit (m ! nat (int (length P) + int i))" using e(4) unfolding digits_in_def by blast
    then show ?thesis using that m(1) assms(6) by (simp add: ds_def nat_int_add)
  qed
  then have dig: "list_all isdigit ds" by (simp add: list_all_length l)
  have "drop (length P + n) m = NUL # R"
    using Cons_nth_drop_Suc [of "length P + n" m] m(1) e(5) assms(5,6) by (simp add: R_def nat_int_add)
  then have "drop (length P) m = ds @ NUL # R" unfolding ds_def by (metis append_take_drop_id drop_drop add.commute)
  then have "m = P @ ds @ NUL # R" using m(2) by (metis append_take_drop_id)
  then show ?thesis using e(1,2) l dig by blast
qed


subsection \<open>Numbers with nine places\<close>

text \<open>An instance of the arithmetic: fixed point with nine decimal places.\<close>

definition fixed9 :: "int dbl" where
  "fixed9 = \<lparr>d_signbit = (\<lambda>x. x < 0), d_isnan = (\<lambda>x. False), d_isfinite = (\<lambda>x. True), d_eq = (=), d_less = (<),
     d_lit = (\<lambda>n k. int n * 1000000000 div 10 ^ k), d_minus = uminus, d_plus = (+),
     d_times = (\<lambda>x y. x * y div 1000000000), d_div = (\<lambda>x y. x * 1000000000 div y),
     d_whole = (\<lambda>x. x div 1000000000 * 1000000000), d_frac = (\<lambda>x. x mod 1000000000),
     d_exponent = (\<lambda>x. int (length (filter (\<lambda>k. 2 ^ k \<le> x div 1000000000) [0..<64]))), d_int = (\<lambda>x. x div 1000000000)\<rparr>"

lemma fixed9_laws: "dbl_laws fixed9"
proof -
  have w: "whole_digit fixed9 (d_whole fixed9 x) \<in> {0..9}" for x
  proof -
    define k where "k = x div 1000000000"
    have "k * 1000000000 * 1000000000 div 10000000000 = k * 100000000" by simp
    moreover have "k * 100000000 mod 1000000000 = (k mod 10) * 100000000"
      using mult_mod_left [of k 10 100000000] by simp
    moreover have "0 \<le> k mod 10" "k mod 10 \<le> 9" by simp_all
    ultimately show ?thesis unfolding whole_digit_def fixed9_def k_def [symmetric]
      by (simp add: k_def [symmetric] algebra_simps)
  qed
  show ?thesis unfolding dbl_laws_def using w by (auto simp: fixed9_def ten_times_def)
qed


text \<open>With other precisions the buffer is left: 31 digits never fit, and zero without digits is looked for in front of
  the buffer.\<close>

lemma store_at_length: "store_at m i c = Some m' \<Longrightarrow> length m' = length m"
  by (auto simp: store_at_def store_mem_def split: if_splits)

lemma ecvt_whole_length: "ecvt_whole d buf fi w2 r2 m = Some y \<Longrightarrow> length (snd (snd y)) = length m"
  by (erule ecvt_whole.raw_induct [where P = "\<lambda>d buf fi w2 r2 m y. length (snd (snd y)) = length m", rotated])
     (auto simp: bind_eq_Some_conv store_at_length split: if_splits)

lemma ecvt_copy_length: "ecvt_copy buf w1 w2 n m = Some (w, m') \<Longrightarrow> length m' = length m"
  by (induction buf w1 w2 n m rule: ecvt_copy.induct) (auto simp: bind_eq_Some_conv store_at_length)

lemma ecvt_fraction_length: "ecvt_fraction d buf b x w1 w2 m = Some m' \<Longrightarrow> length m' = length m"
proof (induction d buf b x w1 w2 m rule: ecvt_fraction.induct)
  case (1 d buf b x w1 w2 m)
  show ?case using 1(2) unfolding ecvt_fraction.simps [of d buf b x w1 w2 m] Let_def
    by (auto simp: bind_eq_Some_conv split: if_splits) (metis 1(1) store_at_length)
qed

lemma ecvt_carry_length: "ecvt_carry buf w decpt m = Some (e, m') \<Longrightarrow> length m' = length m"
  by (induction buf w decpt m rule: ecvt_carry.induct) (auto simp: bind_eq_Some_conv store_at_length split: if_splits)

lemma ecvt_start_length: "ecvt_start d fi x r1 buf b m = Some (w1, r2, y, m') \<Longrightarrow> length m' = length m"
  by (auto simp: ecvt_start_def bind_eq_Some_conv split: if_splits dest!: ecvt_whole_length ecvt_copy_length)

lemma ecvt_length: "scpi_ecvt d x n buf b m = Some (decpt, sg, m') \<Longrightarrow> length m' = length m"
  unfolding scpi_ecvt_def Let_def bind_eq_Some_conv
  by (elim exE conjE, simp only: split_paired_all prod.case bind_eq_Some_conv split: if_split_asm)
     (fastforce dest: ecvt_start_length store_at_length ecvt_fraction_length ecvt_carry_length)+

lemma dtostre_overruns:
  assumes "d_isfinite d (dbl_abs d x)" "31 \<le> prec" "length buffer = 32"
  shows "SCPI_dtostre d x ssize prec flags buffer = None"
proof -
  have p: "31 \<le> unat prec" using assms(2) by (simp add: word_le_nat_alt)
  have pt: "dtostre_point s (unat prec) decpt m = None" if "length m = 32" for s decpt m
    using that p by (auto simp: dtostre_point_def memmove_mem_def memcpy_mem_def Let_def)
  have ev: "scpi_ecvt d a n i b m \<bind> (\<lambda>(decpt, sign, m). dtostre_point s (unat prec) decpt m \<bind> f) = None"
    if "length m = 32" for a n i b m s and f :: "int \<times> string \<Rightarrow> string option"
    using pt ecvt_length [of d a n i b m] that by (cases "scpi_ecvt d a n i b m") auto
  show ?thesis
    using assms(1,3) ev unfolding SCPI_dtostre_def Let_def dbl_abs_def [symmetric]
    by (simp add: store_mem_def)
qed

lemma dtostre_underrun: "SCPI_dtostre fixed9 0 32 0 0 (replicate 32 (CHR ''x'')) = None"
  by code_simp
end
