(* ===== verification/Gpio.thy ===== *)
theory Gpio
  imports Mmio
begin

text \<open>
  The GPIO driver, \<^verbatim>\<open>sw/riscv/lib/hal/gpio/gpio.c\<close>. A pointer argument is an option, \<open>None\<close> for
  \<^verbatim>\<open>NULL\<close>; an out-parameter is a pair component, present when the caller passes a pointer for it.
  The lemmas say which register bits an operation changes on a device whose registers are storage.
\<close>

definition GPIO_CFG_REG_OFFSET :: u32 where [reg_defs]: "GPIO_CFG_REG_OFFSET = 0x4"
definition GPIO_GPIO_MODE_0_REG_OFFSET :: u32 where [reg_defs]: "GPIO_GPIO_MODE_0_REG_OFFSET = 0x8"
definition GPIO_GPIO_MODE_1_REG_OFFSET :: u32 where [reg_defs]: "GPIO_GPIO_MODE_1_REG_OFFSET = 0xc"
definition GPIO_GPIO_EN_REG_OFFSET :: u32 where [reg_defs]: "GPIO_GPIO_EN_REG_OFFSET = 0x80"
definition GPIO_GPIO_IN_REG_OFFSET :: u32 where [reg_defs]: "GPIO_GPIO_IN_REG_OFFSET = 0x100"
definition GPIO_GPIO_OUT_REG_OFFSET :: u32 where [reg_defs]: "GPIO_GPIO_OUT_REG_OFFSET = 0x180"
definition GPIO_GPIO_SET_REG_OFFSET :: u32 where [reg_defs]: "GPIO_GPIO_SET_REG_OFFSET = 0x200"
definition GPIO_GPIO_CLEAR_REG_OFFSET :: u32 where [reg_defs]: "GPIO_GPIO_CLEAR_REG_OFFSET = 0x280"
definition GPIO_INTRPT_RISE_EN_REG_OFFSET :: u32 where [reg_defs]: "GPIO_INTRPT_RISE_EN_REG_OFFSET = 0x380"
definition GPIO_INTRPT_FALL_EN_REG_OFFSET :: u32 where [reg_defs]: "GPIO_INTRPT_FALL_EN_REG_OFFSET = 0x400"
definition GPIO_INTRPT_LVL_HIGH_EN_REG_OFFSET :: u32 where [reg_defs]: "GPIO_INTRPT_LVL_HIGH_EN_REG_OFFSET = 0x480"
definition GPIO_INTRPT_LVL_LOW_EN_REG_OFFSET :: u32 where [reg_defs]: "GPIO_INTRPT_LVL_LOW_EN_REG_OFFSET = 0x500"
definition GPIO_INTRPT_STATUS_REG_OFFSET :: u32 where [reg_defs]: "GPIO_INTRPT_STATUS_REG_OFFSET = 0x580"

datatype gpio_toggle_t = kGpioToggleEnabled | kGpioToggleDisabled
datatype gpio_result_t = kGpioOk | kGpioError | kGpioBadArg

datatype gpio_irq_trigger_t =
    kGpioIrqTriggerEdgeRising | kGpioIrqTriggerEdgeFalling | kGpioIrqTriggerLevelLow | kGpioIrqTriggerLevelHigh
  | kGpioIrqTriggerEdgeRisingFalling | kGpioIrqTriggerEdgeRisingLevelLow | kGpioIrqTriggerEdgeFallingLevelHigh

record gpio_t =
  gpio_base :: mmio_region_t

definition toggle_bit :: "gpio_toggle_t \<Rightarrow> bool" where
  "toggle_bit state = (state = kGpioToggleEnabled)"

subsection \<open>Operations\<close>

definition gpio_init :: "mmio_region_t \<Rightarrow> gpio_t option \<Rightarrow> gpio_result_t \<times> gpio_t option" where
  "gpio_init params gpio =
     (case gpio of None \<Rightarrow> (kGpioBadArg, None) | Some g \<Rightarrow> (kGpioOk, Some (g\<lparr>gpio_base := params\<rparr>)))"

definition gpio_reset :: "gpio_t option \<Rightarrow> hist \<Rightarrow> gpio_result_t \<times> hist" where
  "gpio_reset gpio h =
     (case gpio of None \<Rightarrow> (kGpioBadArg, h)
      | Some g \<Rightarrow>
          (kGpioOk, fold (\<lambda>off. mmio_region_write32 (gpio_base g) off 0)
             [GPIO_CFG_REG_OFFSET, GPIO_GPIO_MODE_0_REG_OFFSET, GPIO_GPIO_MODE_1_REG_OFFSET, GPIO_GPIO_EN_REG_OFFSET,
              GPIO_GPIO_CLEAR_REG_OFFSET, GPIO_GPIO_SET_REG_OFFSET, GPIO_INTRPT_STATUS_REG_OFFSET] h))"

definition gpio_irq_is_pending :: "device \<Rightarrow> gpio_t option \<Rightarrow> u32 \<Rightarrow> bool option \<Rightarrow> hist \<Rightarrow> gpio_result_t \<times> bool option \<times> hist" where
  "gpio_irq_is_pending dev gpio pin is_pending h =
     (case (gpio, is_pending) of
        (Some g, Some _) \<Rightarrow>
          let (b, h1) = mmio_region_get_bit32 dev (gpio_base g) GPIO_INTRPT_STATUS_REG_OFFSET pin h in (kGpioOk, Some b, h1)
      | _ \<Rightarrow> (kGpioBadArg, is_pending, h))"

definition gpio_irq_is_pending_all :: "device \<Rightarrow> gpio_t option \<Rightarrow> u32 option \<Rightarrow> hist \<Rightarrow> gpio_result_t \<times> u32 option \<times> hist" where
  "gpio_irq_is_pending_all dev gpio is_pending h =
     (case (gpio, is_pending) of
        (Some g, Some _) \<Rightarrow>
          let (v, h1) = mmio_region_read32 dev (gpio_base g) GPIO_INTRPT_STATUS_REG_OFFSET h in (kGpioOk, Some v, h1)
      | _ \<Rightarrow> (kGpioBadArg, is_pending, h))"

definition gpio_irq_acknowledge :: "gpio_t option \<Rightarrow> u32 \<Rightarrow> hist \<Rightarrow> gpio_result_t \<times> hist" where
  "gpio_irq_acknowledge gpio pin h =
     (case gpio of None \<Rightarrow> (kGpioBadArg, h)
      | Some g \<Rightarrow> (kGpioOk, mmio_region_write32 (gpio_base g) GPIO_INTRPT_STATUS_REG_OFFSET pin h))"

definition gpio_irq_get_enabled ::
  "device \<Rightarrow> gpio_t option \<Rightarrow> u32 \<Rightarrow> gpio_toggle_t option \<Rightarrow> hist \<Rightarrow> gpio_result_t \<times> gpio_toggle_t option \<times> hist" where
  "gpio_irq_get_enabled dev gpio pin state h =
     (case (gpio, state) of
        (Some g, Some _) \<Rightarrow>
          let (b, h1) = mmio_region_get_bit32 dev (gpio_base g) GPIO_INTRPT_LVL_HIGH_EN_REG_OFFSET pin h
          in (kGpioOk, Some (if b then kGpioToggleEnabled else kGpioToggleDisabled), h1)
      | _ \<Rightarrow> (kGpioBadArg, state, h))"

text \<open>The enable registers that a trigger sets, in the order of the code.\<close>

fun trigger_regs :: "gpio_irq_trigger_t \<Rightarrow> u32 list" where
  "trigger_regs kGpioIrqTriggerEdgeRising = [GPIO_INTRPT_RISE_EN_REG_OFFSET]"
| "trigger_regs kGpioIrqTriggerEdgeFalling = [GPIO_INTRPT_FALL_EN_REG_OFFSET]"
| "trigger_regs kGpioIrqTriggerLevelLow = [GPIO_INTRPT_LVL_LOW_EN_REG_OFFSET]"
| "trigger_regs kGpioIrqTriggerLevelHigh = [GPIO_INTRPT_LVL_HIGH_EN_REG_OFFSET]"
| "trigger_regs kGpioIrqTriggerEdgeRisingFalling = [GPIO_INTRPT_RISE_EN_REG_OFFSET, GPIO_INTRPT_FALL_EN_REG_OFFSET]"
| "trigger_regs kGpioIrqTriggerEdgeRisingLevelLow = [GPIO_INTRPT_RISE_EN_REG_OFFSET, GPIO_INTRPT_LVL_LOW_EN_REG_OFFSET]"
| "trigger_regs kGpioIrqTriggerEdgeFallingLevelHigh =
     [GPIO_INTRPT_RISE_EN_REG_OFFSET, GPIO_INTRPT_FALL_EN_REG_OFFSET, GPIO_INTRPT_LVL_LOW_EN_REG_OFFSET]"

text \<open>The argument \<open>state\<close> is not used by the code. The triggers are an enumeration, so the
  \<^verbatim>\<open>default\<close> branch, which answers \<^verbatim>\<open>kGpioError\<close>, belongs to values outside it.\<close>

definition gpio_irq_set_trigger ::
  "gpio_t option \<Rightarrow> u32 \<Rightarrow> bool \<Rightarrow> gpio_irq_trigger_t option \<Rightarrow> hist \<Rightarrow> gpio_result_t \<times> hist" where
  "gpio_irq_set_trigger gpio pin state trigger h =
     (case gpio of None \<Rightarrow> (kGpioBadArg, h)
      | Some g \<Rightarrow>
          let h1 = fold (\<lambda>off. mmio_region_write32 (gpio_base g) off 0)
                     [GPIO_INTRPT_RISE_EN_REG_OFFSET, GPIO_INTRPT_FALL_EN_REG_OFFSET,
                      GPIO_INTRPT_LVL_HIGH_EN_REG_OFFSET, GPIO_INTRPT_LVL_LOW_EN_REG_OFFSET] h
          in case trigger of None \<Rightarrow> (kGpioError, h1)
             | Some t \<Rightarrow> (kGpioOk, fold (\<lambda>off. mmio_region_write32 (gpio_base g) off (push_bit (unat pin) 1)) (trigger_regs t) h1))"

definition gpio_read :: "device \<Rightarrow> gpio_t option \<Rightarrow> u32 \<Rightarrow> bool option \<Rightarrow> hist \<Rightarrow> gpio_result_t \<times> bool option \<times> hist" where
  "gpio_read dev gpio pin state h =
     (case (gpio, state) of
        (Some g, Some _) \<Rightarrow>
          let (b, h1) = mmio_region_get_bit32 dev (gpio_base g) GPIO_GPIO_IN_REG_OFFSET pin h in (kGpioOk, Some b, h1)
      | _ \<Rightarrow> (kGpioBadArg, state, h))"

text \<open>Read, change one bit, write back.\<close>

definition update_bit :: "device \<Rightarrow> mmio_region_t \<Rightarrow> u32 \<Rightarrow> u32 \<Rightarrow> bool \<Rightarrow> hist \<Rightarrow> hist" where
  "update_bit dev base off k b h =
     (let (reg_value, h1) = mmio_region_read32 dev base off h
      in mmio_region_write32 base off (bitfield_bit32_write reg_value k b) h1)"

definition gpio_write :: "device \<Rightarrow> gpio_t option \<Rightarrow> u32 \<Rightarrow> bool \<Rightarrow> hist \<Rightarrow> gpio_result_t \<times> hist" where
  "gpio_write dev gpio pin state h =
     (case gpio of None \<Rightarrow> (kGpioBadArg, h)
      | Some g \<Rightarrow> (kGpioOk, update_bit dev (gpio_base g) GPIO_GPIO_OUT_REG_OFFSET pin state h))"

definition gpio_output_set_enabled :: "device \<Rightarrow> gpio_t option \<Rightarrow> u32 \<Rightarrow> gpio_toggle_t \<Rightarrow> hist \<Rightarrow> gpio_result_t \<times> hist" where
  "gpio_output_set_enabled dev gpio pin state h =
     (case gpio of None \<Rightarrow> (kGpioBadArg, h)
      | Some g \<Rightarrow>
          if pin < 16
          then (kGpioOk, update_bit dev (gpio_base g) GPIO_GPIO_MODE_0_REG_OFFSET (2 * pin) (toggle_bit state) h)
          else (kGpioOk, update_bit dev (gpio_base g) GPIO_GPIO_MODE_1_REG_OFFSET (2 * (pin - 16)) (toggle_bit state) h))"

definition gpio_input_enabled :: "device \<Rightarrow> gpio_t option \<Rightarrow> u32 \<Rightarrow> gpio_toggle_t \<Rightarrow> hist \<Rightarrow> gpio_result_t \<times> hist" where
  "gpio_input_enabled dev gpio pin state h =
     (case gpio of None \<Rightarrow> (kGpioBadArg, h)
      | Some g \<Rightarrow> (kGpioOk, update_bit dev (gpio_base g) GPIO_GPIO_EN_REG_OFFSET pin (toggle_bit state) h))"

subsection \<open>What the registers hold afterwards\<close>

definition gpio_reg :: "gpio_t \<Rightarrow> u32 \<Rightarrow> (u32 \<Rightarrow> u32) \<Rightarrow> u32" where
  "gpio_reg g off m = m (reg_addr (gpio_base g) off)"

lemma update_bit_storage:
  "regs_after m0 (update_bit (storage_dev m0) base off k b h) =
     (regs_after m0 h)(reg_addr base off := bitfield_bit32_write (regs_after m0 h (reg_addr base off)) k b)"
  by (simp add: update_bit_def mmio_defs)

lemma reg_addr_inj:
  "reg_addr base a = reg_addr base b \<longleftrightarrow> 4 * (a div 4) = 4 * (b div 4)"
  by (simp add: reg_addr_def)

text \<open>Enabling or disabling the output of one of the 32 pins sets the low bit of that pin's two-bit mode
  field, in the first mode register for pins below 16 and in the second from there on, and leaves
  every other bit of both mode registers and every other register alone.\<close>

theorem gpio_output_mode_bit:
  assumes "pin < 32" "off \<in> {GPIO_GPIO_MODE_0_REG_OFFSET, GPIO_GPIO_MODE_1_REG_OFFSET}" "n < 32"
  shows "let h' = snd (gpio_output_set_enabled (storage_dev m0) (Some g) (of_nat pin) state h)
    in bit (gpio_reg g off (regs_after m0 h')) n =
         (if off = (if pin < 16 then GPIO_GPIO_MODE_0_REG_OFFSET else GPIO_GPIO_MODE_1_REG_OFFSET) \<and> n = 2 * (pin mod 16)
          then state = kGpioToggleEnabled else bit (gpio_reg g off (regs_after m0 h)) n) \<and>
       (\<forall>a. a \<noteq> reg_addr (gpio_base g) GPIO_GPIO_MODE_0_REG_OFFSET \<and> a \<noteq> reg_addr (gpio_base g) GPIO_GPIO_MODE_1_REG_OFFSET
          \<longrightarrow> regs_after m0 h' a = regs_after m0 h a)"
proof -
  have u: "unat (of_nat pin :: u32) = pin" using assms(1) by (simp add: unat_of_nat take_bit_nat_eq_self)
  have lt: "(of_nat pin :: u32) < 16 \<longleftrightarrow> pin < 16" using u by (simp add: word_less_nat_alt)
  have lo: "unat (2 * of_nat pin :: u32) = 2 * pin" using assms(1) u by (simp add: unat_word_ariths)
  have hi: "unat (2 * of_nat pin - 32 :: u32) = 2 * (pin - 16)" if "\<not> pin < 16"
  proof -
    define x where "x = (of_nat pin - 16 :: u32)"
    have "unat x = pin - 16" using that u by (simp add: x_def unat_sub word_le_nat_alt)
    then have "unat (2 * x) = 2 * (pin - 16)" using assms(1) by (simp add: unat_word_ariths)
    moreover have "2 * x = 2 * of_nat pin - 32" by (simp add: x_def)
    ultimately show ?thesis by (simp only:)
  qed
  have m: "pin mod 16 = (if pin < 16 then pin else pin - 16)" using assms(1) by (simp add: mod_if)
  have ne: "reg_addr (gpio_base g) GPIO_GPIO_MODE_0_REG_OFFSET \<noteq> reg_addr (gpio_base g) GPIO_GPIO_MODE_1_REG_OFFSET"
    "GPIO_GPIO_MODE_0_REG_OFFSET \<noteq> GPIO_GPIO_MODE_1_REG_OFFSET"
    by (simp_all add: reg_addr_def reg_defs)
  show ?thesis
    using assms(2,3) ne
    by (auto simp: gpio_output_set_enabled_def lt update_bit_storage gpio_reg_def bit32_write_bit lo hi m toggle_bit_def Let_def)
qed

lemma gpio_output_mode_bit_witness:
  "bit (gpio_reg \<lparr>gpio_base = \<lparr>mr_base = 0x200A0000\<rparr>\<rparr> GPIO_GPIO_MODE_1_REG_OFFSET
     (regs_after (\<lambda>_. 0) (snd (gpio_output_set_enabled (storage_dev (\<lambda>_. 0)) (Some \<lparr>gpio_base = \<lparr>mr_base = 0x200A0000\<rparr>\<rparr>)
        (of_nat 17) kGpioToggleEnabled [])))) 2"
  using gpio_output_mode_bit [of 17 GPIO_GPIO_MODE_1_REG_OFFSET 2 "\<lambda>_. 0" "\<lparr>gpio_base = \<lparr>mr_base = 0x200A0000\<rparr>\<rparr>"
      kGpioToggleEnabled "[]"] by (simp add: Let_def)

text \<open>For every pin and every trigger but one, setting the trigger leaves exactly the pin's bit in exactly
  the enable registers the trigger names and clears the others; the combination of falling edge and
  high level instead enables the rising edge, the falling edge and the low level, and never the high
  level.\<close>

theorem gpio_trigger_enables:
  "let m = regs_after m0 (snd (gpio_irq_set_trigger (Some g) pin state (Some t) h));
       rise = t \<in> {kGpioIrqTriggerEdgeRising, kGpioIrqTriggerEdgeRisingFalling, kGpioIrqTriggerEdgeRisingLevelLow,
                  kGpioIrqTriggerEdgeFallingLevelHigh};
       fall = t \<in> {kGpioIrqTriggerEdgeFalling, kGpioIrqTriggerEdgeRisingFalling, kGpioIrqTriggerEdgeFallingLevelHigh};
       high = t \<in> {kGpioIrqTriggerLevelHigh};
       low = t \<in> {kGpioIrqTriggerLevelLow, kGpioIrqTriggerEdgeRisingLevelLow, kGpioIrqTriggerEdgeFallingLevelHigh};
       on = (\<lambda>b. if b then push_bit (unat pin) 1 else 0)
   in gpio_reg g GPIO_INTRPT_RISE_EN_REG_OFFSET m = on rise \<and> gpio_reg g GPIO_INTRPT_FALL_EN_REG_OFFSET m = on fall \<and>
      gpio_reg g GPIO_INTRPT_LVL_HIGH_EN_REG_OFFSET m = on high \<and> gpio_reg g GPIO_INTRPT_LVL_LOW_EN_REG_OFFSET m = on low"
  by (cases t) (simp_all add: gpio_irq_set_trigger_def Let_def mmio_region_write32_def gpio_reg_def reg_addr_def reg_defs)

text \<open>Acknowledging a pin writes the pin's number to the status register, which is never the pin's bit.\<close>

theorem gpio_acknowledge_not_mask:
  assumes "pin < 32"
  shows "\<exists>v. snd (gpio_irq_acknowledge (Some g) (of_nat pin) h) =
      h @ [Wr32 (reg_addr (gpio_base g) GPIO_INTRPT_STATUS_REG_OFFSET) v] \<and> v \<noteq> push_bit pin 1"
proof -
  have u: "unat (of_nat pin :: u32) = pin" using assms by (simp add: unat_of_nat take_bit_nat_eq_self)
  have p: "unat (push_bit pin 1 :: u32) = 2 ^ pin"
    using assms power_strict_increasing [of pin 32 "2::nat"]
    unfolding unsigned_push_bit_eq by (simp add: take_bit_nat_eq_self push_bit_eq_mult)
  have "(of_nat pin :: u32) \<noteq> push_bit pin 1"
  proof
    assume "(of_nat pin :: u32) = push_bit pin 1"
    then have "pin = 2 ^ pin" using u p by metis
    then show False using less_exp [of pin] by simp
  qed
  then show ?thesis by (simp add: gpio_irq_acknowledge_def mmio_region_write32_def)
qed

lemma gpio_acknowledge_not_mask_witness:
  "\<exists>v. snd (gpio_irq_acknowledge (Some \<lparr>gpio_base = \<lparr>mr_base = 0x200A0000\<rparr>\<rparr>) (of_nat 4) []) =
      [Wr32 (reg_addr \<lparr>mr_base = 0x200A0000\<rparr> GPIO_INTRPT_STATUS_REG_OFFSET) v] \<and> v \<noteq> push_bit 4 1"
  using gpio_acknowledge_not_mask [of 4 "\<lparr>gpio_base = \<lparr>mr_base = 0x200A0000\<rparr>\<rparr>" "[]"] by simp

end
