(* ===== verification/Memory.thy ===== *)
theory Memory
  imports Prelude
begin

text \<open>
  The byte routines of \<^verbatim>\<open>sw/riscv/lib/base/memory.c\<close>. The address space is a function from
  addresses to bytes, a size is a natural number, and address arithmetic wraps. The loops run forwards
  (backwards in \<^verbatim>\<open>memrchr\<close>), one byte at a time, as written.
\<close>

type_synonym memory = "u32 \<Rightarrow> u8"

fun copy_loop :: "u32 \<Rightarrow> u32 \<Rightarrow> nat \<Rightarrow> nat \<Rightarrow> memory \<Rightarrow> memory" where
  "copy_loop dest src i 0 m = m"
| "copy_loop dest src i (Suc n) m = copy_loop dest src (Suc i) n (m(dest + of_nat i := m (src + of_nat i)))"

definition memcpy :: "u32 \<Rightarrow> u32 \<Rightarrow> nat \<Rightarrow> memory \<Rightarrow> u32 \<times> memory" where
  "memcpy dest src len m = (dest, copy_loop dest src 0 len m)"

definition memset :: "u32 \<Rightarrow> u32 \<Rightarrow> nat \<Rightarrow> memory \<Rightarrow> u32 \<times> memory" where
  "memset dest val len m = (dest, fold (\<lambda>i m. m(dest + of_nat i := ucast val)) [0..<len] m)"

definition kMemCmpEq :: int where "kMemCmpEq = 0"
definition kMemCmpLt :: int where "kMemCmpLt = - 42"
definition kMemCmpGt :: int where "kMemCmpGt = 42"

fun cmp_loop :: "u32 \<Rightarrow> u32 \<Rightarrow> nat \<Rightarrow> nat \<Rightarrow> memory \<Rightarrow> int" where
  "cmp_loop lhs rhs i 0 m = kMemCmpEq"
| "cmp_loop lhs rhs i (Suc n) m =
     (if m (lhs + of_nat i) < m (rhs + of_nat i) then kMemCmpLt
      else if m (lhs + of_nat i) > m (rhs + of_nat i) then kMemCmpGt
      else cmp_loop lhs rhs (Suc i) n m)"

definition memcmp :: "u32 \<Rightarrow> u32 \<Rightarrow> nat \<Rightarrow> memory \<Rightarrow> int" where
  "memcmp lhs rhs len m = cmp_loop lhs rhs 0 len m"

definition memchr :: "u32 \<Rightarrow> u32 \<Rightarrow> nat \<Rightarrow> memory \<Rightarrow> u32 option" where
  "memchr ptr val len m = map_option (\<lambda>i. ptr + of_nat i) (find (\<lambda>i. m (ptr + of_nat i) = ucast val) [0..<len])"

definition memrchr :: "u32 \<Rightarrow> u32 \<Rightarrow> nat \<Rightarrow> memory \<Rightarrow> u32 option" where
  "memrchr ptr val len m =
     map_option (\<lambda>i. ptr + of_nat (len - i - 1))
       (find (\<lambda>i. m (ptr + of_nat (len - i - 1)) = ucast val) [0..<len])"

subsection \<open>Copying\<close>

text \<open>The bytes of a range.\<close>

definition bytes_at :: "memory \<Rightarrow> u32 \<Rightarrow> nat \<Rightarrow> u8 list" where
  "bytes_at m p n = map (\<lambda>i. m (p + of_nat i)) [0..<n]"

definition range_of :: "u32 \<Rightarrow> nat \<Rightarrow> u32 set" where
  "range_of p n = (\<lambda>i. p + of_nat i) ` {..<n}"

lemma of_nat_inj32: "i < 2 ^ 32 \<Longrightarrow> j < 2 ^ 32 \<Longrightarrow> (of_nat i :: u32) = of_nat j \<longleftrightarrow> i = j"
  by (simp add: word_of_nat_eq_iff take_bit_nat_eq_self)

lemma copy_loop_bytes:
  assumes "range_of dest (i + n) \<inter> range_of src (i + n) = {}" "i + n \<le> 2 ^ 32"
  shows "copy_loop dest src i n m a =
    (if \<exists>k. i \<le> k \<and> k < i + n \<and> a = dest + of_nat k
     then m (src + (a - dest)) else m a)"
  using assms
proof (induction n arbitrary: i m)
  case (Suc n)
  define m1 where "m1 = m(dest + of_nat i := m (src + of_nat i))"
  have src: "m1 (src + of_nat k) = m (src + of_nat k)" if "k < i + Suc n" for k
  proof -
    have "src + of_nat k \<in> range_of src (i + Suc n)" "dest + of_nat i \<in> range_of dest (i + Suc n)"
      using that by (auto simp: range_of_def)
    then have "src + of_nat k \<noteq> dest + of_nat i" using Suc.prems(1) by (metis disjoint_iff)
    then show ?thesis by (simp add: m1_def)
  qed
  have ih: "copy_loop dest src (Suc i) n m1 a =
    (if \<exists>k. Suc i \<le> k \<and> k < Suc i + n \<and> a = dest + of_nat k then m1 (src + (a - dest)) else m1 a)"
    by (rule Suc.IH) (use Suc.prems in simp_all)
  define H where "H \<longleftrightarrow> (\<exists>k. Suc i \<le> k \<and> k < Suc i + n \<and> a = dest + of_nat k)"
  have h: "(\<exists>k. i \<le> k \<and> k < i + Suc n \<and> a = dest + of_nat k) \<longleftrightarrow> a = dest + of_nat i \<or> H"
  proof -
    have "i \<le> k \<and> k < i + Suc n \<longleftrightarrow> k = i \<or> Suc i \<le> k \<and> k < Suc i + n" for k by auto
    then show ?thesis unfolding H_def by metis
  qed
  have unf: "copy_loop dest src i (Suc n) m a = (if H then m1 (src + (a - dest)) else m1 a)"
    using ih by (simp add: m1_def H_def)
  show ?case
  proof (cases H)
    case True
    then obtain k where k: "k < i + Suc n" "a = dest + of_nat k" by (auto simp: H_def)
    then have "m1 (src + (a - dest)) = m (src + (a - dest))" using src [of k] by simp
    then show ?thesis unfolding h unf using True by simp
  next
    case False
    then show ?thesis unfolding h unf by (auto simp: m1_def)
  qed
qed auto

text \<open>Copying between ranges that do not overlap, in an address space that wraps, makes the
  destination equal to what the source was, changes no other byte and returns the destination.\<close>

theorem memcpy_disjoint:
  assumes "range_of dest len \<inter> range_of src len = {}" "len \<le> 2 ^ 32"
  shows "fst (memcpy dest src len m) = dest \<and>
    bytes_at (snd (memcpy dest src len m)) dest len = bytes_at m src len \<and>
    (\<forall>a. a \<notin> range_of dest len \<longrightarrow> snd (memcpy dest src len m) a = m a)"
  using copy_loop_bytes [of dest 0 len src] assms
  by (auto simp: memcpy_def bytes_at_def range_of_def)

lemma memcpy_disjoint_witness:
  "bytes_at (snd (memcpy 0xFFFFFFFF 0x100 2 (\<lambda>a. ucast a))) 0xFFFFFFFF 2 = bytes_at (\<lambda>a. ucast a) 0x100 2"
proof -
  have two: "{..<2::nat} = {0, 1}" by auto
  have "range_of 0xFFFFFFFF 2 \<inter> range_of 0x100 2 = {}"
    unfolding range_of_def two by simp
  then show ?thesis using memcpy_disjoint [of "0xFFFFFFFF" 2 "0x100"] by simp
qed

subsection \<open>Comparing and searching\<close>

lemma cmp_loop_lex:
  "cmp_loop lhs rhs i n m =
     (let xs = map (\<lambda>k. m (lhs + of_nat k)) [i..<i + n]; ys = map (\<lambda>k. m (rhs + of_nat k)) [i..<i + n]
      in if xs = ys then 0 else if (xs, ys) \<in> lexord {(a, b). a < b} then -42 else 42)"
proof (induction n arbitrary: i)
  case (Suc n)
  define F where "F = (\<lambda>p i n. map (\<lambda>k. m (p + of_nat k)) [i..<i + n])"
  have u: "F p i (Suc n) = m (p + of_nat i) # F p (Suc i) n" for p
    by (simp add: F_def upt_conv_Cons del: upt_Suc)
  have ih: "cmp_loop lhs rhs (Suc i) n m = (if F lhs (Suc i) n = F rhs (Suc i) n then 0
      else if (F lhs (Suc i) n, F rhs (Suc i) n) \<in> lexord {(a, b). a < b} then -42 else 42)"
    using Suc.IH [of "Suc i"] by (simp only: F_def Let_def)
  have "cmp_loop lhs rhs i (Suc n) m = (if F lhs i (Suc n) = F rhs i (Suc n) then 0
      else if (F lhs i (Suc n), F rhs i (Suc n)) \<in> lexord {(a, b). a < b} then -42 else 42)"
    using ih by (cases "m (lhs + of_nat i)" "m (rhs + of_nat i)" rule: linorder_cases)
      (auto simp: u kMemCmpLt_def kMemCmpGt_def)
  then show ?case by (simp only: F_def Let_def)
qed (simp add: kMemCmpEq_def)

text \<open>The comparison is the lexicographic order of the two byte strings: 0 exactly when they are equal,
  -42 when the left one comes first, 42 otherwise.\<close>

theorem memcmp_lexicographic:
  "memcmp lhs rhs len m =
     (if bytes_at m lhs len = bytes_at m rhs len then 0
      else if (bytes_at m lhs len, bytes_at m rhs len) \<in> lexord {(a, b). a < b} then - 42 else 42)"
  using cmp_loop_lex [of lhs rhs 0 len m] by (simp add: memcmp_def bytes_at_def Let_def)

lemma find_upt_Some:
  "find P [0..<n] = Some i \<longleftrightarrow> i < n \<and> P i \<and> (\<forall>j<i. \<not> P j)"
  by (auto simp: find_Some_iff)

text \<open>The forward search returns the first match, the backward search the last.\<close>

lemma memchr_first:
  "memchr p v n m = None \<longleftrightarrow> ucast v \<notin> set (bytes_at m p n)"
  "memchr p v n m = Some a \<Longrightarrow> \<exists>i<n. a = p + of_nat i \<and> m a = ucast v \<and> (\<forall>j<i. m (p + of_nat j) \<noteq> ucast v)"
  by (force simp: memchr_def bytes_at_def find_None_iff, auto simp: memchr_def find_upt_Some)

lemma memrchr_last:
  "memrchr p v n m = Some a \<Longrightarrow>
   \<exists>i<n. a = p + of_nat i \<and> m a = ucast v \<and> (\<forall>j. i < j \<and> j < n \<longrightarrow> m (p + of_nat j) \<noteq> ucast v)"
proof -
  assume "memrchr p v n m = Some a"
  then obtain k where k: "k < n" "m (p + of_nat (n - k - 1)) = ucast v" "a = p + of_nat (n - k - 1)"
    "\<forall>j<k. m (p + of_nat (n - j - 1)) \<noteq> ucast v"
    unfolding memrchr_def by (auto simp: find_upt_Some simp del: of_nat_diff)
  have "m (p + of_nat j) \<noteq> ucast v" if "n - k - 1 < j" "j < n" for j
    using k(4) [rule_format, of "n - j - 1"] that by (simp del: of_nat_diff)
  then show ?thesis using k by (intro exI [of _ "n - k - 1"]) (auto simp del: of_nat_diff)
qed

end
