(* ===== verification/Syscalls.thy ===== *)
theory Syscalls
  imports Uart Gpio
begin

text \<open>
  The system calls the C library is linked against, \<^verbatim>\<open>sw/riscv/lib/runtime/syscalls.c\<close>. The state
  is \<^verbatim>\<open>errno\<close>, the program break and the access history. A call that may not return is an option.
  Output goes to the UART, which every write configures afresh.
\<close>

definition AO_PERIPHERAL_START_ADDRESS :: u32 where [reg_defs]: "AO_PERIPHERAL_START_ADDRESS = 0x20000000"
definition SOC_CTRL_START_ADDRESS :: u32 where [reg_defs]: "SOC_CTRL_START_ADDRESS = AO_PERIPHERAL_START_ADDRESS + 0x00000000"
definition GPIO_AO_START_ADDRESS :: u32 where [reg_defs]: "GPIO_AO_START_ADDRESS = AO_PERIPHERAL_START_ADDRESS + 0x000A0000"
definition UART_START_ADDRESS :: u32 where [reg_defs]: "UART_START_ADDRESS = AO_PERIPHERAL_START_ADDRESS + 0x000B0000"
definition UART_BAUDRATE :: u32 where [reg_defs]: "UART_BAUDRATE = 115200"
definition STDOUT_FILENO :: int where "STDOUT_FILENO = 1"

text \<open>The error numbers of the C library.\<close>

definition ENOENT :: int where "ENOENT = 2"
definition ECHILD :: int where "ECHILD = 10"
definition EAGAIN :: int where "EAGAIN = 11"
definition ENOMEM :: int where "ENOMEM = 12"
definition EINVAL :: int where "EINVAL = 22"
definition EMLINK :: int where "EMLINK = 31"
definition ENOSYS :: int where "ENOSYS = 88"

text \<open>The file type that \<^verbatim>\<open>_fstat\<close> and \<^verbatim>\<open>_stat\<close> store in their out-parameter: a character device.\<close>

definition S_IFCHR :: u32 where "S_IFCHR = 0x2000"

record sys_t =
  sys_errno :: int
  sys_brk :: u32
  sys_hist :: hist

subsection \<open>Calls that are not supported\<close>

definition fail_with :: "int \<Rightarrow> sys_t \<Rightarrow> int \<times> sys_t" where
  "fail_with e s = (- 1, s\<lparr>sys_errno := e\<rparr>)"

definition sys_nanosleep :: "sys_t \<Rightarrow> int \<times> sys_t" where "sys_nanosleep = fail_with ENOSYS"
definition sys_access :: "sys_t \<Rightarrow> int \<times> sys_t" where "sys_access = fail_with ENOSYS"
definition sys_chdir :: "sys_t \<Rightarrow> int \<times> sys_t" where "sys_chdir = fail_with ENOSYS"
definition sys_chmod :: "sys_t \<Rightarrow> int \<times> sys_t" where "sys_chmod = fail_with ENOSYS"
definition sys_chown :: "sys_t \<Rightarrow> int \<times> sys_t" where "sys_chown = fail_with ENOSYS"
definition sys_close :: "sys_t \<Rightarrow> int \<times> sys_t" where "sys_close s = (- 1, s)"
definition sys_execve :: "sys_t \<Rightarrow> int \<times> sys_t" where "sys_execve = fail_with ENOMEM"
definition sys_faccessat :: "sys_t \<Rightarrow> int \<times> sys_t" where "sys_faccessat = fail_with ENOSYS"
definition sys_fork :: "sys_t \<Rightarrow> int \<times> sys_t" where "sys_fork = fail_with EAGAIN"
definition sys_fstat :: "sys_t \<Rightarrow> int \<times> u32 \<times> sys_t" where "sys_fstat s = (0, S_IFCHR, s)"
definition sys_fstatat :: "sys_t \<Rightarrow> int \<times> sys_t" where "sys_fstatat = fail_with ENOSYS"
definition sys_ftime :: "sys_t \<Rightarrow> int \<times> sys_t" where "sys_ftime = fail_with ENOSYS"
definition sys_getcwd :: "sys_t \<Rightarrow> u32 option \<times> sys_t" where "sys_getcwd s = (None, s\<lparr>sys_errno := - ENOSYS\<rparr>)"
definition sys_getpid :: "sys_t \<Rightarrow> int \<times> sys_t" where "sys_getpid s = (1, s)"
definition sys_gettimeofday :: "sys_t \<Rightarrow> int \<times> sys_t" where "sys_gettimeofday = fail_with (- ENOSYS)"
definition sys_isatty :: "int \<Rightarrow> sys_t \<Rightarrow> int \<times> sys_t" where
  "sys_isatty file s = (if file = STDOUT_FILENO then 1 else 0, s)"
definition sys_kill :: "sys_t \<Rightarrow> int \<times> sys_t" where "sys_kill = fail_with EINVAL"
definition sys_link :: "sys_t \<Rightarrow> int \<times> sys_t" where "sys_link = fail_with EMLINK"
definition sys_lseek :: "sys_t \<Rightarrow> int \<times> sys_t" where "sys_lseek s = (0, s)"
definition sys_lstat :: "sys_t \<Rightarrow> int \<times> sys_t" where "sys_lstat = fail_with ENOSYS"
definition sys_open :: "sys_t \<Rightarrow> int \<times> sys_t" where "sys_open s = (- 1, s)"
definition sys_openat :: "sys_t \<Rightarrow> int \<times> sys_t" where "sys_openat = fail_with ENOSYS"
definition sys_read :: "sys_t \<Rightarrow> int \<times> sys_t" where "sys_read s = (0, s)"
definition sys_stat :: "sys_t \<Rightarrow> int \<times> u32 \<times> sys_t" where "sys_stat s = (0, S_IFCHR, s)"
definition sys_sysconf :: "sys_t \<Rightarrow> int \<times> sys_t" where "sys_sysconf s = (- 1, s)"
definition sys_times :: "sys_t \<Rightarrow> int \<times> sys_t" where "sys_times s = (- 1, s)"
definition sys_unlink :: "sys_t \<Rightarrow> int \<times> sys_t" where "sys_unlink = fail_with ENOENT"
definition sys_utime :: "sys_t \<Rightarrow> int \<times> sys_t" where "sys_utime = fail_with ENOSYS"
definition sys_wait :: "sys_t \<Rightarrow> int \<times> sys_t" where "sys_wait = fail_with ECHILD"

subsection \<open>Writing, leaving and the program break\<close>

definition console :: "u32 \<Rightarrow> uart_t" where
  "console freq = \<lparr>uart_base = mmio_region_from_addr UART_START_ADDRESS, baudrate = UART_BAUDRATE, clk_freq_hz = freq\<rparr>"

definition sys_write :: "device \<Rightarrow> int \<Rightarrow> u8 list \<Rightarrow> sys_t \<Rightarrow> (int \<times> sys_t) option" where
  "sys_write dev file data s =
     (if file \<noteq> STDOUT_FILENO then Some (fail_with ENOSYS s)
      else let soc = \<lparr>soc_base = mmio_region_from_addr SOC_CTRL_START_ADDRESS\<rparr>;
               (freq, h1) = soc_ctrl_get_frequency dev soc (sys_hist s);
               uart = console freq;
               (res, h2) = uart_init (Some uart) h1
           in if res \<noteq> kErrorOk then Some (fail_with ENOSYS (s\<lparr>sys_hist := h2\<rparr>))
              else do { (n, h3) \<leftarrow> uart_write dev uart data h2; Some (int n, s\<lparr>sys_hist := h3\<rparr>) })"

text \<open>The bytes of an ASCII text.\<close>

definition bytes_of :: "string \<Rightarrow> u8 list" where
  "bytes_of s = map (\<lambda>c. of_nat (of_char c)) s"

definition unimplemented_syscall :: "device \<Rightarrow> sys_t \<Rightarrow> (int \<times> sys_t) option" where
  "unimplemented_syscall dev s =
     sys_write dev STDOUT_FILENO (bytes_of (''Unimplemented system call called!'' @ [CHR 0x0A])) s"

text \<open>Up to the \<^verbatim>\<open>wfi\<close> on which the processor stops.\<close>

definition sys_exit :: "device \<Rightarrow> u32 \<Rightarrow> sys_t \<Rightarrow> sys_t" where
  "sys_exit dev exit_status s =
     (let (_, gpio) = gpio_init (mmio_region_from_addr GPIO_AO_START_ADDRESS) (Some \<lparr>gpio_base = \<lparr>mr_base = 0\<rparr>\<rparr>);
          (_, h1) = gpio_output_set_enabled dev gpio 0 kGpioToggleEnabled (sys_hist s);
          (_, h2) = gpio_write dev gpio 0 False h1;
          soc = \<lparr>soc_base = mmio_region_from_addr SOC_CTRL_START_ADDRESS\<rparr>;
          h3 = soc_ctrl_set_exit_value soc exit_status h2
      in s\<lparr>sys_hist := soc_ctrl_set_valid soc 1 h3\<rparr>)"

definition sys_brk_set :: "u32 \<Rightarrow> sys_t \<Rightarrow> int \<times> sys_t" where
  "sys_brk_set addr s = (0, s\<lparr>sys_brk := addr\<rparr>)"

definition sys_sbrk :: "u32 \<Rightarrow> u32 \<Rightarrow> u32 \<Rightarrow> sys_t \<Rightarrow> u32 option \<times> sys_t" where
  "sys_sbrk heap_start heap_end incr s =
     (let old_brk = sys_brk s
      in if heap_start = heap_end then (None, s)
         else let b = sys_brk s + incr
              in if b < heap_end then (Some old_brk, s\<lparr>sys_brk := b + incr\<rparr>)
                 else (Some old_brk, s\<lparr>sys_brk := heap_end\<rparr>))"

subsection \<open>Properties\<close>

lemma uart_sent_init:
  "uart_sent u (snd (uart_init (Some u) h)) = uart_sent u h"
  "tx_guarded u False h \<Longrightarrow> tx_guarded u False (snd (uart_init (Some u) h))"
proof -
  have w: "\<not> reg_addr (uart_base u) k = uart_wdata_addr u" if "k \<in> {0xc, 0x1c, 0x24, 0x2c, 0x4, 0x0}" for k
    using that by (auto simp: reg_addr_def uart_wdata_addr_def reg_defs)
  show "uart_sent u (snd (uart_init (Some u) h)) = uart_sent u h"
    unfolding uart_init_trace Let_def by (auto simp: w)
  show "tx_guarded u False h \<Longrightarrow> tx_guarded u False (snd (uart_init (Some u) h))"
    unfolding uart_init_trace Let_def by (auto simp: w tx_guarded_append)
qed

lemma uart_sent_cong: "uart_base u = uart_base v \<Longrightarrow> uart_sent u = uart_sent v"
proof (rule ext)
  fix h assume "uart_base u = uart_base v"
  then show "uart_sent u h = uart_sent v h"
    by (induction h rule: uart_sent.induct) (auto simp: uart_wdata_addr_def)
qed

lemma uart_sent_console: "uart_sent (console f) = uart_sent (console 0)"
  by (rule uart_sent_cong) (simp add: console_def)

lemma sys_write_SomeD:
  assumes "sys_write dev STDOUT_FILENO data s = Some (n, s')" "n \<noteq> - 1"
  shows "n = int (length data) \<and> sys_errno s' = sys_errno s \<and> sys_brk s' = sys_brk s \<and>
    uart_sent (console 0) (sys_hist s') = uart_sent (console 0) (sys_hist s) @ data"
proof -
  obtain freq h1 where f: "soc_ctrl_get_frequency dev \<lparr>soc_base = mmio_region_from_addr SOC_CTRL_START_ADDRESS\<rparr> (sys_hist s) = (freq, h1)"
    by (metis surj_pair)
  obtain res h2 where i: "uart_init (Some (console freq)) h1 = (res, h2)" by (metis surj_pair)
  have ok: "res = kErrorOk" using assms by (auto simp: sys_write_def f i fail_with_def split: if_splits)
  obtain h3 where w: "uart_write dev (console freq) data h2 = Some (nat n, h3)" "n = int (length data)" "s' = s\<lparr>sys_hist := h3\<rparr>"
    using assms(1) ok uart_write_SomeD by (fastforce simp: sys_write_def f i split: bind_splits)
  have h1: "uart_sent (console 0) h1 = uart_sent (console 0) (sys_hist s)"
    using f by (auto simp: soc_ctrl_get_frequency_def mmio_region_read32_def Let_def)
  have "uart_sent (console freq) h3 = uart_sent (console freq) h2 @ data"
    using uart_write_SomeD [OF w(1)] uart_out.put_all_sent by blast
  moreover have "uart_sent (console freq) h2 = uart_sent (console freq) h1"
    using uart_sent_init(1) [of "console freq" h1] i by simp
  ultimately show ?thesis using w h1 by (simp add: uart_sent_console [of freq])
qed

text \<open>A write to the standard output that succeeds has sent exactly the bytes given, in order, after
  whatever was sent before, although the UART was set up again first, and reports their number.\<close>

theorem sys_write_stdout:
  assumes "sys_write dev STDOUT_FILENO data s = Some (n, s')" "n \<noteq> - 1"
  shows "n = int (length data) \<and> uart_sent (console 0) (sys_hist s') = uart_sent (console 0) (sys_hist s) @ data"
  using sys_write_SomeD [OF assms] by blast

text \<open>A platform whose frequency register reads 20 MHz and whose UART is always ready.\<close>

definition ready_platform :: device where
  "ready_platform = \<lparr>dev32 = (\<lambda>h a. if a = SOC_CTRL_START_ADDRESS + 0x1c then 20000000 else 0x8), dev8 = (\<lambda>h a. 0)\<rparr>"

lemma ready_platform_responsive: "uart_responsive ready_platform (console f)"
  by (auto simp: uart_responsive_def eventually_not_def ready_platform_def bit32_read_bit reg_defs console_def
      mmio_region_from_addr_def reg_addr_def bit_numeral_rec)

lemma ready_platform_freq:
  "soc_ctrl_get_frequency ready_platform \<lparr>soc_base = mmio_region_from_addr SOC_CTRL_START_ADDRESS\<rparr> h =
     (20000000, h @ [Rd32 (SOC_CTRL_START_ADDRESS + 0x1c) 20000000])"
  by (simp add: soc_ctrl_get_frequency_def mmio_region_read32_def Let_def ready_platform_def mmio_region_from_addr_def
      reg_addr_def reg_defs)

lemma console_init_ok: "fst (uart_init (Some (console 20000000)) h) = kErrorOk"
  unfolding uart_init_trace by (simp add: console_def reg_defs Let_def)

lemma sys_write_ready: "\<exists>s'. sys_write ready_platform STDOUT_FILENO data s = Some (int (length data), s')"
proof -
  let ?h1 = "sys_hist s @ [Rd32 (SOC_CTRL_START_ADDRESS + 0x1c) 20000000]"
  obtain h2 where i: "uart_init (Some (console 20000000)) ?h1 = (kErrorOk, h2)"
    using console_init_ok [of ?h1] by (metis prod.collapse)
  obtain h3 where "put_all (uart_putchar ready_platform (console 20000000)) data h2 = Some h3"
    using uart_out.put_all_returns [of ready_platform "console 20000000" data h2]
      uart_putchar_total [OF ready_platform_responsive] by blast
  then have "uart_write ready_platform (console 20000000) data h2 = Some (length data, h3)"
    by (simp add: uart_write_def uart_write_loop_put_all)
  then show ?thesis by (simp add: sys_write_def ready_platform_freq i)
qed

lemma sys_write_stdout_witness:
  "\<exists>n s'. sys_write ready_platform STDOUT_FILENO [79, 75] \<lparr>sys_errno = 0, sys_brk = 0, sys_hist = []\<rparr> = Some (n, s') \<and>
     n = 2 \<and> uart_sent (console 0) (sys_hist s') = [79, 75]"
proof -
  let ?s = "\<lparr>sys_errno = 0, sys_brk = 0, sys_hist = []\<rparr>"
  obtain s' where "sys_write ready_platform STDOUT_FILENO [79, 75] ?s = Some (int (length [79, 75 :: u8]), s')"
    using sys_write_ready by blast
  then have w: "sys_write ready_platform STDOUT_FILENO [79, 75] ?s = Some (2, s')" by simp
  from sys_write_stdout [OF w] w show ?thesis by auto
qed

text \<open>A request for more memory that stays below the end of the heap returns the old break, but moves the
  break by twice the increment, so that the break can pass the end of the heap.\<close>

theorem sbrk_moves_twice:
  assumes "heap_start \<noteq> heap_end" "unat (sys_brk s) + unat incr < unat heap_end"
    and "unat (sys_brk s) + 2 * unat incr < 2 ^ 32"
  shows "case sys_sbrk heap_start heap_end incr s of (r, s') \<Rightarrow>
    r = Some (sys_brk s) \<and> unat (sys_brk s') = unat (sys_brk s) + 2 * unat incr \<and>
    (unat heap_end < unat (sys_brk s) + 2 * unat incr \<longrightarrow> heap_end < sys_brk s')"
proof -
  have a: "unat (sys_brk s + incr) = unat (sys_brk s) + unat incr"
    using assms(3) by (simp add: unat_word_ariths)
  then have b: "sys_brk s + incr < heap_end" using assms(2) by (simp add: word_less_nat_alt)
  have c: "unat (sys_brk s + incr + incr) = unat (sys_brk s) + 2 * unat incr"
    using assms(3) a by (subst unat_word_ariths(1)) simp
  show ?thesis using assms(1) b c by (simp add: sys_sbrk_def Let_def word_less_nat_alt)
qed

lemma sbrk_moves_twice_witness:
  "case sys_sbrk 0x1000 0x2000 0xC00 \<lparr>sys_errno = 0, sys_brk = 0x1000, sys_hist = []\<rparr> of (r, s') \<Rightarrow> 0x2000 < sys_brk s'"
  using sbrk_moves_twice [of "0x1000" "0x2000" "\<lparr>sys_errno = 0, sys_brk = 0x1000, sys_hist = []\<rparr>" "0xC00"]
  by (simp split: prod.splits)

text \<open>Leaving the program stops the counters by enabling pin 0 as an output and driving it low, then writes
  the exit status, and only as the very last access marks that status as valid.\<close>

theorem sys_exit_accesses:
  "\<exists>m out. sys_hist (sys_exit dev status s) = sys_hist s @
     [Rd32 (GPIO_AO_START_ADDRESS + 0x8) m, Wr32 (GPIO_AO_START_ADDRESS + 0x8) (bitfield_bit32_write m 0 True),
      Rd32 (GPIO_AO_START_ADDRESS + 0x180) out, Wr32 (GPIO_AO_START_ADDRESS + 0x180) (bitfield_bit32_write out 0 False),
      Wr32 (SOC_CTRL_START_ADDRESS + 0x4) status, Wr8 SOC_CTRL_START_ADDRESS 1]"
  by (simp add: sys_exit_def Let_def gpio_init_def gpio_output_set_enabled_def gpio_write_def update_bit_def mmio_defs
      soc_ctrl_set_exit_value_def soc_ctrl_set_valid_def mmio_region_from_addr_def reg_addr_def reg_defs toggle_bit_def)

end
