(* ===== verification/Scpi_Events.thy ===== *)
theory Scpi_Events
  imports Scpi_Commands
begin

text \<open>
  What the library calls through its interface while it processes input. The library itself only writes,
  reports errors, signals the service request and flushes; every other event comes from a callback of the
  application. The locale extends the contract of the callbacks by a predicate on their events, and shows that
  collecting and parsing input keeps it.
\<close>

definition logged :: "(scpi_event \<Rightarrow> bool) \<Rightarrow> scpi_t \<Rightarrow> bool" where
  "logged P c \<longleftrightarrow> (\<forall>e \<in> set (events c). P e)"

fun lib_event :: "scpi_event \<Rightarrow> bool" where
  "lib_event (EvPrint _) = False"
| "lib_event (EvUser _) = False"
| "lib_event _ = True"

lemma logged_emit: "logged P (emit e c) \<longleftrightarrow> logged P c \<and> P e"
  by (auto simp: logged_def emit_def)

lemma logged_cong: "events d = events c \<Longrightarrow> logged P d = logged P c"
  by (simp add: logged_def)

locale lib_log =
  fixes P :: "scpi_event \<Rightarrow> bool"
  assumes lib: "lib_event e \<Longrightarrow> P e"
begin

lemma logged_writeData [simp]: "logged P (writeData c d) = logged P c"
  by (simp add: writeData_def logged_emit lib)

lemma logged_writeDelimiter [simp]: "logged P (writeDelimiter c) = logged P c"
  by (simp add: writeDelimiter_def)

lemma logged_count_output [simp]: "logged P (count_output c) = logged P c"
  by (rule logged_cong) (simp add: count_output_def)

lemma logged_writeNewLine [simp]: "logged P (writeNewLine c) = logged P c"
  by (simp add: writeNewLine_def flushData_def logged_emit lib)

lemma logged_reg_put [simp]: "logged P (reg_put r v c) = logged P c"
  by (rule logged_cong) (simp add: reg_put_def)

lemma logged_writeControl [simp]: "logged P (writeControl v c) = logged P c"
  by (simp add: writeControl_def logged_emit lib)

lemma logged_update_srq [simp]: "logged P (update_srq ov v c) = logged P c"
  by (simp add: update_srq_def Let_def)

lemma logged_RegSet [simp]: "logged P (SCPI_RegSet c r v) = logged P c"
proof (induction c r v rule: SCPI_RegSet.induct)
  case (1 ctx name val)
  show ?case
    using 1 by (subst SCPI_RegSet.simps) (auto simp: Let_def split: scpi_reg_class_t.split)
qed

lemma logged_queue: "logged P (c\<lparr>error_queue := q\<rparr>) = logged P c" "logged P (c\<lparr>cmd_error := b\<rparr>) = logged P c"
  by (simp_all add: logged_def)

lemma logged_call_error [simp]: "logged P (call_error n c) = logged P c"
  by (simp add: call_error_def logged_emit lib)

lemma logged_ErrorPush [simp]: "logged P (SCPI_ErrorPush c e) = logged P c"
proof -
  have "logged P (snd (SCPI_ErrorAddInternal c e)) = logged P c"
    by (rule logged_cong) (simp add: SCPI_ErrorAddInternal_def Let_def split_beta)
  moreover have "logged P (SCPI_ErrorEmit d n) = logged P d" for d n
    by (simp add: SCPI_ErrorEmit_def SCPI_RegSetBits_def)
  moreover have "logged P (d\<lparr>cmd_error := b\<rparr>) = logged P d" for d b by (simp add: logged_def)
  ultimately show ?thesis by (simp add: SCPI_ErrorPush_def ErrorPushEx_alt Let_def SCPI_RegSetBits_def)
qed

lemma logged_ResultInt32 [simp]: "logged P (SCPI_ResultInt32 c v) = logged P c"
  by (simp add: SCPI_ResultInt32_def resultUInt32BaseSign_def Let_def)

lemma logged_Parameter [simp]: "logged P (snd (snd (SCPI_Parameter c m))) = logged P c"
proof -
  have "logged P (set_lex s d) = logged P d" "logged P (d\<lparr>input_count := n\<rparr>) = logged P d" for s d n
    by (simp_all add: logged_def set_lex_def)
  then show ?thesis by (simp add: SCPI_Parameter_def Let_def split_beta)
qed

end

text \<open>Callbacks that keep the contract and emit only events of \<open>P\<close>.\<close>

locale logged_callbacks = callbacks cmds + lib_log P for cmds :: "scpi_command_t list" and P :: "scpi_event \<Rightarrow> bool" +
  assumes callback_log: "(pat, Some f) \<in> set cmds \<Longrightarrow> logged P c \<Longrightarrow> logged P (snd (f c))"
begin

lemma logged_processCommand:
  assumes "logged P c" "\<And>i. param_cmd c = Some i \<Longrightarrow> i < length cmds"
  shows "logged P (snd (processCommand cmds c))"
proof -
  define q where "q = (buf_data c ! (cmd_raw_data c + cmd_raw_length c - 1) = CHR ''?'')"
  define c2 where "c2 = (if \<not> first_output c \<and> q then writeData c '';'' else c)
      \<lparr>cmd_error := False, output_count := 0, input_count := 0, arbitrary_remaining := 0\<rparr>"
  define r3 where "r3 = (case map_option (\<lambda>i. snd (cmds ! i)) (param_cmd c) of
         Some (Some callback) \<Rightarrow>
           (case callback c2 of
              (SCPI_RES_ERR, c) \<Rightarrow> (False, if \<not> cmd_error c then SCPI_ErrorPush c SCPI_ERROR_EXECUTION_ERROR else c)
            | (SCPI_RES_OK, c) \<Rightarrow> if cmd_error c then (False, c)
                else (True, if first_output c \<and> q then c\<lparr>first_output := False\<rparr> else c))
       | _ \<Rightarrow> (True, c2))"
  have "logged P (if \<not> first_output c \<and> q then writeData c '';'' else c)" using assms(1) by simp
  then have k2: "logged P c2" by (simp add: c2_def logged_def)
  have fo: "logged P (d\<lparr>first_output := b\<rparr>) = logged P d" for d b by (simp add: logged_def)
  have k3: "logged P (snd r3)"
  proof (cases "map_option (\<lambda>i. snd (cmds ! i)) (param_cmd c)")
    case None
    then show ?thesis using k2 by (auto simp: r3_def)
  next
    case (Some cb)
    then obtain i where i: "param_cmd c = Some i" "snd (cmds ! i) = cb" by auto
    show ?thesis
    proof (cases cb)
      case None
      then show ?thesis using k2 i by (simp add: r3_def)
    next
      case (Some f)
      have "(fst (cmds ! i), Some f) \<in> set cmds" using assms(2) [OF i(1)] i(2) Some nth_mem by (metis prod.collapse)
      then have "logged P (snd (f c2))" using callback_log k2 by blast
      moreover obtain res d where d: "f c2 = (res, d)" by (cases "f c2")
      ultimately show ?thesis using d i Some by (cases res) (auto simp: r3_def fo)
    qed
  qed
  have "snd (processCommand cmds c) = snd r3 \<or>
      snd (processCommand cmds c) = SCPI_ErrorPush (snd r3) SCPI_ERROR_PARAMETER_NOT_ALLOWED"
    unfolding processCommand_def Let_def q_def [symmetric] c2_def [symmetric] r3_def [symmetric]
    by (simp add: split_beta)
  then show ?thesis using k3 logged_ErrorPush by metis
qed

lemma logged_run_unit:
  assumes "logged P c" "run_unit cmds c prev = (res, c', prev')"
  shows "logged P c'"
proof -
  have fields: "logged P ((set_state st d)\<lparr>buf_data := m\<rparr>) = logged P d"
    "logged P (d\<lparr>param_cmd := p\<rparr>) = logged P d"
    "logged P (d\<lparr>param_lex := s, cmd_raw_data := a, cmd_raw_length := n\<rparr>) = logged P d" for d st m p s a n
    by (simp_all add: logged_def set_state_def)
  have p: "logged P (snd (processCommand cmds (d\<lparr>param_lex := s, cmd_raw_data := a, cmd_raw_length := n\<rparr>)))"
    if found: "findCommandHeader cmds e h l = Some d" and log: "logged P e" for d e h l s a n
  proof -
    obtain i where "find_from cmds (drop h (buf_data e)) l 0 = Some i" "d = e\<lparr>param_cmd := Some i\<rparr>"
      using found by (auto simp: findCommandHeader_def)
    then have "logged P d" "param_cmd d = Some i" "i < length cmds" using log find_from_less fields by fastforce+
    then show ?thesis by (intro logged_processCommand) (simp_all add: fields)
  qed
  show ?thesis
    using assms p fields
    by (auto simp: run_unit_def Let_def split_beta SCPI_ErrorPush_def [symmetric] split: if_splits option.splits)
qed

lemma logged_parse_loop:
  "logged P c \<Longrightarrow> parse_loop cmds c data len prev res = (res', c') \<Longrightarrow> logged P c'"
proof (induction len arbitrary: c data prev res rule: less_induct)
  case (less len)
  obtain r st where d: "scpiParser_detectProgramMessageUnit (buf_data c) (parser_state c) data len = (r, st)" by (metis surj_pair)
  obtain rr c1 prev1 where u: "run_unit cmds (set_state st c) prev = (rr, c1, prev1)" by (metis prod_cases3)
  have "logged P (set_state st c)" using less.prems(1) by (simp add: logged_def set_state_def)
  then have l: "logged P c1" using logged_run_unit u by blast
  have "parse_loop cmds c data len prev res =
      (if r < len then parse_loop cmds c1 (data + r) (len - r) prev1 (res \<and> rr) else (res \<and> rr, c1))"
    by (subst parse_loop.simps) (simp add: d u Let_def)
  moreover have "r < len \<Longrightarrow> len - r < len" using detect_shape [OF d] by auto
  ultimately show ?case using less l by (auto split: if_splits)
qed

lemma logged_Parse:
  assumes "logged P c" "SCPI_Parse cmds c data len = (res, c')"
  shows "logged P c'"
proof -
  let ?c = "c\<lparr>output_count := 0, first_output := True\<rparr>"
  obtain r1 c1 where p: "parse_loop cmds ?c data len no_token True = (r1, c1)" by (metis surj_pair)
  have "logged P ?c" using assms(1) by (simp add: logged_def)
  then have "logged P c1" using logged_parse_loop p by blast
  then show ?thesis using assms(2) p by (auto simp: SCPI_Parse_def)
qed

lemma logged_input_loop:
  assumes "input_loop cmds c tot res = Some y" "logged P c"
  shows "logged P (snd y)"
proof -
  have "cs = cmds \<longrightarrow> logged P c \<longrightarrow> logged P (snd y)" if "input_loop cs c tot res = Some y" for cs c tot res y
    using that
  proof (rule input_loop.raw_induct [where P = "\<lambda>cs c tot res y. cs = cmds \<longrightarrow> logged P c \<longrightarrow> logged P (snd y)", rotated], goal_cases)
    case (1 loop cs c tot res y)
    obtain r st where d: "scpiParser_detectProgramMessageUnit (buf_data c) (parser_state c) tot (buf_position c - tot) = (r, st)"
      by (metis surj_pair)
    obtain p c1 where p: "SCPI_Parse cs (set_state st c) 0 (tot + r) = (p, c1)" by (metis surj_pair)
    show ?case
    proof (intro impI)
      assume cs: "cs = cmds" and l: "logged P c"
      then have ls: "logged P (set_state st c)" by (simp add: logged_def set_state_def)
      then have "logged P c1" using logged_Parse p cs by blast
      then have "logged P (c1\<lparr>buf_data := m, buf_position := n\<rparr>)" for m n by (simp add: logged_def)
      then show "logged P (snd y)" using 1(2) 1(1) cs ls p by (auto simp: d Let_def split: if_splits)
    qed
  qed
  then show ?thesis using assms by blast
qed

lemma logged_Input:
  assumes "SCPI_Input cmds c data = Some (res, c')" "logged P c"
  shows "logged P c'"
proof -
  have f: "logged P (c\<lparr>buf_data := m\<rparr>)" "logged P (c\<lparr>buf_data := m, buf_position := n\<rparr>)"
    "logged P (c\<lparr>buf_position := n, buf_data := m\<rparr>)" for m n using assms(2) by (simp_all add: logged_def)
  have g: "logged P (d\<lparr>buf_position := n\<rparr>) = logged P d" for d n by (simp add: logged_def)
  show ?thesis
    using assms(1) logged_Parse [OF f(1)] logged_input_loop [OF _ f(2)]
    by (auto simp: SCPI_Input_def Let_def f g split: if_splits prod.splits)
qed

end

end
