(* ===== verification/App.thy ===== *)
theory App
  imports Scpi_Events Memory Syscalls
begin

text \<open>
  The application \<^verbatim>\<open>apps/tflite_scpi/main.c\<close>: its three commands, and what the calls that
  the SCPI library makes through the interface do on the UART. The neural network is a parameter
  \<open>infer\<close>, from the bytes of an image to a status and the bytes of the output tensor. Text printed with
  \<^verbatim>\<open>printf\<close> waits in the C library's buffer: a parameter \<open>splits\<close> says in which pieces the pending text is
  handed to \<^verbatim>\<open>_write\<close> after each call.
\<close>

definition crlf :: string where
  "crlf = [CHR 0x0D, CHR 0x0A]"

definition lenet_input_data_size :: nat where
  "lenet_input_data_size = 32 * 32"

text \<open>Unsigned conversions of \<^verbatim>\<open>printf\<close>.\<close>

fun fmt_u :: "nat \<Rightarrow> nat \<Rightarrow> string" where
  "fmt_u base n =
     (let d = n mod base; c = char_of (if d < 10 then 48 + d else 87 + d)
      in if base < 2 \<or> n < base then [c] else fmt_u base (n div base) @ [c])"

declare fmt_u.simps [simp del]

subsection \<open>The commands\<close>

text \<open>Effects of the commands on the application itself: the exit flag, and a copy past the end of a
  local array, after which nothing is said about the run.\<close>

definition EXIT_SCPI :: nat where "EXIT_SCPI = 0"
definition ARRAY_OVERRUN :: nat where "ARRAY_OVERRUN = 1"

type_synonym network = "u8 list \<Rightarrow> u32 \<times> u8 list"

definition InferExample :: "network \<Rightarrow> u8 list \<Rightarrow> scpi_t \<Rightarrow> scpi_result_t \<times> scpi_t" where
  "InferExample infer lenet_input_data ctx =
     (let (a, out) = infer lenet_input_data
      in (SCPI_RES_OK,
          if a = 0 then SCPI_ResultArrayInt8 ctx out SCPI_FORMAT_ASCII else SCPI_ResultText ctx ''Error''))"

text \<open>The result of reading the block is not tested: when it fails, the pointer and length that were
  on the stack are used, which designate the bytes \<open>stale\<close>. The image starts as whatever its array held, \<open>junk\<close>.\<close>

definition InferData :: "network \<Rightarrow> u8 list \<Rightarrow> string \<Rightarrow> scpi_t \<Rightarrow> scpi_result_t \<times> scpi_t" where
  "InferData infer junk stale ctx =
     (let (_, block, ctx) = SCPI_ParamArbitraryBlock ctx True;
          scpi_out = (case block of Some (Some p, n) \<Rightarrow> take n (drop p (buf_data ctx)) | _ \<Rightarrow> stale);
          scpi_len = length scpi_out;
          ctx = emit (EvPrint (''Read: '' @ fmt_u 10 scpi_len @ '' bytes'' @ crlf)) ctx;
          ctx = (if scpi_len > lenet_input_data_size then emit (EvUser ARRAY_OVERRUN) ctx else ctx);
          tflite_input_data = take lenet_input_data_size (bytes_of scpi_out @ drop scpi_len junk);
          (a, out) = infer tflite_input_data
      in (SCPI_RES_OK,
          if a = 0 then SCPI_ResultArrayInt8 ctx out SCPI_FORMAT_ASCII else SCPI_ResultText ctx ''Inference error''))"

text \<open>The text goes to the UART directly, as the interface's own writes do.\<close>

definition Exit :: "scpi_t \<Rightarrow> scpi_result_t \<times> scpi_t" where
  "Exit ctx = (SCPI_RES_OK, emit (EvWrite (''Exiting...'' @ crlf)) (emit (EvUser EXIT_SCPI) ctx))"

definition app_commands :: "network \<Rightarrow> u8 list \<Rightarrow> u8 list \<Rightarrow> string \<Rightarrow> scpi_command_t list" where
  "app_commands infer lenet_input_data junk stale =
     [(''NN:INFEr:EXAMple?'', Some (InferExample infer lenet_input_data)),
      (''NN:INFEr:DATA?'', Some (InferData infer junk stale)),
      (''EXT'', Some Exit)]"

lemma callback_ok_of:
  assumes "callback_ok c d"
  shows "callback_ok c (writeData d t)" "callback_ok c (writeDelimiter d)" "callback_ok c (count_output d)"
    "callback_ok c (emit e d)" "callback_ok c (SCPI_ResultInt32 d v)" "callback_ok c (SCPI_ErrorPush d n)"
proof -
  have e: "callback_ok d (emit e d)" by (simp add: callback_ok_def emit_def keepsI)
  note t = callback_ok_trans [OF assms]
  show "callback_ok c (writeData d t)" by (rule t [OF callback_ok_writeData])
  show "callback_ok c (writeDelimiter d)" by (rule t [OF callback_ok_writeDelimiter])
  show "callback_ok c (count_output d)" by (rule t [OF callback_ok_count])
  show "callback_ok c (emit e d)" by (rule t [OF e])
  show "callback_ok c (SCPI_ResultInt32 d v)" by (rule t [OF callback_ok_ResultInt32])
  show "callback_ok c (SCPI_ErrorPush d n)" by (rule t [OF callback_ok_ErrorPush])
qed

lemma callback_ok_text_loop: "callback_ok c d \<Longrightarrow> callback_ok c (text_loop d t)"
proof (induction d t rule: text_loop.induct)
  case (1 d t)
  then show ?case by (subst text_loop.simps) (auto intro: callback_ok_of split: option.split)
qed

lemma callback_ok_Text: "callback_ok c d \<Longrightarrow> callback_ok c (SCPI_ResultText d t)"
  unfolding SCPI_ResultText_def Let_def by (intro callback_ok_of callback_ok_text_loop)

lemma callback_ok_Int8: "callback_ok c d \<Longrightarrow> callback_ok c (SCPI_ResultArrayInt8 d xs SCPI_FORMAT_ASCII)"
  unfolding SCPI_ResultArrayInt8_def RESULT_ARRAY_def
  by (induction xs arbitrary: d) (auto intro: callback_ok_of)

lemma callback_ok_Block: "callback_ok c (snd (snd (SCPI_ParamArbitraryBlock c m)))"
  using callback_ok_Parameter [of c m]
  by (auto simp: SCPI_ParamArbitraryBlock_def split_beta Let_def intro: callback_ok_trans callback_ok_ErrorPush)

lemma InferData_ok: "callback_ok c (snd (InferData infer junk stale c))"
proof -
  obtain r b c1 where b: "SCPI_ParamArbitraryBlock c True = (r, b, c1)" by (metis prod_cases3)
  then have "callback_ok c c1" using callback_ok_Block [of c True] by simp
  then show ?thesis
    by (auto simp: InferData_def b Let_def split_beta intro!: callback_ok_of callback_ok_Int8 callback_ok_Text)
qed

interpretation app: callbacks "app_commands infer img junk stale" for infer img junk stale
proof
  fix pat f c assume "(pat, Some f) \<in> set (app_commands infer img junk stale)"
  then have "callback_ok c (snd (f c))"
    by (auto simp: app_commands_def InferExample_def Exit_def split_beta Let_def InferData_ok
        intro!: callback_ok_of callback_ok_Int8 callback_ok_Text)
  then show "keeps c (snd (f c)) \<and> parser_state (snd (f c)) = parser_state c" by (simp add: callback_ok_def)
qed

subsection \<open>An image sent as a block\<close>

text \<open>At the start of a block, only the block routine finds a token.\<close>

lemma parse_at_block:
  assumes "length data < 10 ^ 9" "m = pre @ block_of data @ post"
  shows "\<exists>r s2. scpiParser_parseProgramData m \<lparr>lex_buffer = 0, lex_pos = length pre, lex_len = length m\<rparr> t = (r, s2,
       \<lparr>tok_type = SCPI_TOKEN_ARBITRARY_BLOCK_PROGRAM_DATA,
        tok_ptr = Some (length pre + length (block_of data) - length data), tok_len = length data\<rparr>)"
proof -
  define s where "s = \<lparr>lex_buffer = 0, lex_pos = length pre, lex_len = length m\<rparr>"
  note B = block_lexed [OF assms(1,2)]
  have c0: "m ! lex_pos s = CHR ''#''"
    using B(3,4) assms(2) by (cases "block_of data") (auto simp: s_def nth_append)
  have c1: "isNonzeroDigit (m ! (lex_pos s + 1))" "\<not> iseos s"
    using B(2,3) assms(2) by (auto simp: s_def nth_append iseos_def)
  have d: "\<not> isH c \<and> \<not> isQ c \<and> \<not> isB c" if "isNonzeroDigit c" for c
    using that by (auto simp: isNonzeroDigit_def isdigit_def isH_def isQ_def isB_def)
  have ws: "scpiLex_WhiteSpace m s u = (0, s, \<lparr>tok_type = SCPI_TOKEN_UNKNOWN, tok_ptr = Some (lex_pos s), tok_len = 0\<rparr>)" for u
    using c0 by (simp add: scpiLex_WhiteSpace_def skipWs_def skip_while.simps [of isws] isws_def Let_def)
  have sw: "skip_while isdigit m s = (0, s)" by (subst skip_while.simps) (simp add: c0 isdigit_def)
  have ch: "skipChr m s c = (SKIP_NONE, s)" if "c \<noteq> CHR ''#''" for c
    using that c0 by (simp add: skipChr_def ischr_def)
  have hs: "skipChr m s (CHR ''#'') = (SKIP_OK, step 1 s)" using c0 c1 by (simp add: skipChr_def ischr_def)
  have n: "fst (scpiLex_NondecimalNumericData m s u) = 0" "fst (scpiLex_CharacterProgramData m s u) = 0"
    "fst (scpiLex_DecimalNumericProgramData m s u) = 0" "fst (scpiLex_StringProgramData m s u) = 0" for u
    using c0 c1 d
    by (simp_all add: scpiLex_NondecimalNumericData_def hs ch scpiLex_CharacterProgramData_def mnemonic_body_def isalpha_def
        isupper_def islower_def scpiLex_DecimalNumericProgramData_def skipMantisa_def skipPlusmn_def skip_if_def
        isplusmn_def skipNumbers_def sw Let_def scpiLex_StringProgramData_def ischr_def)
  obtain t1 where 1: "scpiLex_NondecimalNumericData m s t = (0, s, t1)"
    using n(1) [of t] nondecimal.failed_state [of m s t] by (metis fst_conv prod_cases3)
  obtain t2 where 2: "scpiLex_CharacterProgramData m s t1 = (0, s, t2)"
    using n(2) [of t1] chars.failed_state [of m s t1] by (metis fst_conv prod_cases3)
  obtain t3 where 3: "scpiLex_DecimalNumericProgramData m s t2 = (0, s, t3)"
    using n(3) [of t2] decimal.failed_state [of m s t2] by (metis fst_conv prod_cases3)
  obtain t4 where 4: "scpiLex_StringProgramData m s t3 = (0, s, t4)"
    using n(4) [of t3] strings.failed_state [of m s t3] by (metis fst_conv prod_cases3)
  have nz: "block_of data \<noteq> []" using B(3) by auto
  define s1 where "s1 = \<lparr>lex_buffer = 0, lex_pos = length (pre @ block_of data), lex_len = length m\<rparr>"
  define tok where "tok = \<lparr>tok_type = SCPI_TOKEN_ARBITRARY_BLOCK_PROGRAM_DATA,
      tok_ptr = Some (length pre + length (block_of data) - length data), tok_len = length data\<rparr>"
  have 5: "scpiLex_ArbitraryBlockProgramData m s u = (length (block_of data), s1, tok)" for u
    using B(1) [of u] by (simp only: s_def s1_def tok_def)
  obtain w s2 u where w: "scpiLex_WhiteSpace m s1 tok = (w, s2, u)" by (metis prod_cases3)
  have "scpiParser_parseProgramData m s t = (length (block_of data) + w, s2, tok)"
    using nz by (simp add: scpiParser_parseProgramData_def Let_def ws 1 2 3 4 5 or_else_def decimal_with_suffix_def w)
  then show ?thesis by (auto simp: s_def tok_def)
qed

lemma ParamArbitraryBlock_block:
  assumes "length data < 10 ^ 9" "buf_data ctx = pre @ block_of data @ post" "input_count ctx = 0"
    and "param_lex ctx = \<lparr>lex_buffer = 0, lex_pos = length pre, lex_len = length (buf_data ctx)\<rparr>"
  shows "\<exists>s2. SCPI_ParamArbitraryBlock ctx True = (True,
      Some (Some (length pre + length (block_of data) - length data), length data),
      set_lex s2 (ctx\<lparr>input_count := 1\<rparr>))"
proof -
  obtain r s2 where p: "scpiParser_parseProgramData (buf_data ctx) (param_lex ctx) no_token = (r, s2,
       \<lparr>tok_type = SCPI_TOKEN_ARBITRARY_BLOCK_PROGRAM_DATA,
        tok_ptr = Some (length pre + length (block_of data) - length data), tok_len = length data\<rparr>)"
    using parse_at_block [OF assms(1,2)] assms(4) by metis
  have "\<not> lex_pos (param_lex ctx) \<ge> lex_buffer (param_lex ctx) + lex_len (param_lex ctx)"
    using assms(2,4) block_lexed(3) [OF assms(1) assms(2)] by auto
  then have "SCPI_Parameter ctx True = (True,
       \<lparr>tok_type = SCPI_TOKEN_ARBITRARY_BLOCK_PROGRAM_DATA,
        tok_ptr = Some (length pre + length (block_of data) - length data), tok_len = length data\<rparr>,
       set_lex s2 (ctx\<lparr>input_count := 1\<rparr>))"
    using p assms(3) by (simp add: SCPI_Parameter_def Let_def set_lex_def)
  then show ?thesis by (auto simp: SCPI_ParamArbitraryBlock_def)
qed



subsection \<open>Output\<close>

text \<open>The application: the parser's context, the UART the interface writes to, the state behind the system
  calls with the access history, the text waiting in the C library, and the exit flag.\<close>

record app_t =
  scpi :: scpi_t
  app_uart :: uart_t
  sys :: sys_t
  pending :: string
  exit_scpi :: bool

definition app_hist :: "app_t \<Rightarrow> hist" where
  "app_hist app = sys_hist (sys app)"

definition set_hist :: "hist \<Rightarrow> app_t \<Rightarrow> app_t" where
  "set_hist h app = app\<lparr>sys := (sys app)\<lparr>sys_hist := h\<rparr>\<rparr>"

fun write_out :: "device \<Rightarrow> nat list \<Rightarrow> string \<Rightarrow> sys_t \<Rightarrow> (string \<times> sys_t) option" where
  "write_out dev [] p s = Some (p, s)"
| "write_out dev (n # ns) p s =
     do { (_, s) \<leftarrow> sys_write dev STDOUT_FILENO (bytes_of (take n p)) s; write_out dev ns (drop n p) s }"

definition app_print :: "device \<Rightarrow> (string \<Rightarrow> nat list) \<Rightarrow> string \<Rightarrow> app_t \<Rightarrow> app_t option" where
  "app_print dev splits s app =
     do { (p, s) \<leftarrow> write_out dev (splits (pending app @ s)) (pending app @ s) (sys app);
          Some (app\<lparr>pending := p, sys := s\<rparr>) }"

definition scrivi :: "device \<Rightarrow> string \<Rightarrow> app_t \<Rightarrow> (nat \<times> app_t) option" where
  "scrivi dev data app =
     do { (a, h) \<leftarrow> uart_write dev (app_uart app) (bytes_of data) (app_hist app); Some (a, set_hist h app) }"

definition SCPI_Error :: "device \<Rightarrow> int \<Rightarrow> app_t \<Rightarrow> app_t option" where
  "SCPI_Error dev err app =
     do { (_, h) \<leftarrow> uart_write dev (app_uart app) (bytes_of (''ERR!'' @ crlf)) (app_hist app); Some (set_hist h app) }"

text \<open>The meaning of the events: the control and flush callbacks are not set.\<close>

fun deliver_one :: "device \<Rightarrow> (string \<Rightarrow> nat list) \<Rightarrow> scpi_event \<Rightarrow> app_t \<Rightarrow> app_t option" where
  "deliver_one dev splits (EvWrite d) app = map_option snd (scrivi dev d app)"
| "deliver_one dev splits (EvError e) app = SCPI_Error dev e app"
| "deliver_one dev splits (EvControl _) app = Some app"
| "deliver_one dev splits EvFlush app = Some app"
| "deliver_one dev splits (EvPrint s) app = app_print dev splits s app"
| "deliver_one dev splits (EvUser n) app = (if n = EXIT_SCPI then Some (app\<lparr>exit_scpi := True\<rparr>) else None)"

fun deliver :: "device \<Rightarrow> (string \<Rightarrow> nat list) \<Rightarrow> scpi_event list \<Rightarrow> app_t \<Rightarrow> app_t option" where
  "deliver dev splits [] app = Some app"
| "deliver dev splits (e # es) app = do { app \<leftarrow> deliver_one dev splits e app; deliver dev splits es app }"

text \<open>\<^verbatim>\<open>SCPI_Input\<close> on the application's context, with what its callbacks do.\<close>

definition app_input :: "device \<Rightarrow> (string \<Rightarrow> nat list) \<Rightarrow> scpi_command_t list \<Rightarrow> string \<Rightarrow> app_t \<Rightarrow> app_t option" where
  "app_input dev splits cmds data app =
     do { (_, c) \<leftarrow> SCPI_Input cmds ((scpi app)\<lparr>events := []\<rparr>) data;
          deliver dev splits (events c) (app\<lparr>scpi := c\<rparr>) }"

text \<open>What an event shows on the line.\<close>

fun shown :: "scpi_event \<Rightarrow> string" where
  "shown (EvWrite d) = d"
| "shown (EvError e) = ''ERR!'' @ crlf"
| "shown (EvPrint s) = s"
| "shown _ = []"

text \<open>The hypotheses on the platform: the frequency register never reads a value for which the UART has no
  divisor; the C library writes out complete lines at once, as it does on a terminal.\<close>

definition usable_clock :: "device \<Rightarrow> bool" where
  "usable_clock dev \<longleftrightarrow>
     (\<forall>h h'. fst (uart_init (Some (console (dev32 dev h (SOC_CTRL_START_ADDRESS + SOC_CTRL_SYSTEM_FREQUENCY_HZ_REG_OFFSET)))) h') = kErrorOk)"

definition line_buffered :: "(string \<Rightarrow> nat list) \<Rightarrow> bool" where
  "line_buffered splits \<longleftrightarrow> (\<forall>s. s \<noteq> [] \<and> last s = CHR 0x0A \<longrightarrow> sum_list (splits s) = length s)"

definition console_of :: "app_t \<Rightarrow> bool" where
  "console_of app \<longleftrightarrow> uart_base (app_uart app) = mmio_region_from_addr UART_START_ADDRESS"

text \<open>Everything sent on the UART so far.\<close>

definition sent_by :: "app_t \<Rightarrow> u8 list" where
  "sent_by app = uart_sent (console 0) (app_hist app)"

lemma soc_freq:
  "soc_ctrl_get_frequency dev \<lparr>soc_base = mmio_region_from_addr SOC_CTRL_START_ADDRESS\<rparr> h =
     (let f = dev32 dev h (SOC_CTRL_START_ADDRESS + SOC_CTRL_SYSTEM_FREQUENCY_HZ_REG_OFFSET)
      in (f, h @ [Rd32 (SOC_CTRL_START_ADDRESS + SOC_CTRL_SYSTEM_FREQUENCY_HZ_REG_OFFSET) f]))"
  by (simp add: soc_ctrl_get_frequency_def mmio_region_read32_def Let_def mmio_region_from_addr_def reg_addr_def reg_defs)

lemma sys_write_ok:
  assumes "usable_clock dev" "sys_write dev STDOUT_FILENO data s = Some (n, s')"
  shows "n \<noteq> - 1"
proof -
  define f where "f = dev32 dev (sys_hist s) (SOC_CTRL_START_ADDRESS + SOC_CTRL_SYSTEM_FREQUENCY_HZ_REG_OFFSET)"
  define h1 where "h1 = sys_hist s @ [Rd32 (SOC_CTRL_START_ADDRESS + SOC_CTRL_SYSTEM_FREQUENCY_HZ_REG_OFFSET) f]"
  obtain h2 where "uart_init (Some (console f)) h1 = (kErrorOk, h2)"
    using assms(1) by (metis usable_clock_def f_def prod.collapse)
  then show ?thesis
    using assms(2) by (auto simp: sys_write_def soc_freq Let_def f_def [symmetric] h1_def [symmetric] split: bind_splits)
qed

lemma bytes_of_append [simp]: "bytes_of (a @ b) = bytes_of a @ bytes_of b" "bytes_of [] = []"
  by (simp_all add: bytes_of_def)

lemma write_out_sent:
  assumes "usable_clock dev" "write_out dev ns p s = Some (q, s')"
  shows "q = drop (sum_list ns) p \<and> sys_errno s' = sys_errno s \<and> sys_brk s' = sys_brk s \<and>
    uart_sent (console 0) (sys_hist s') = uart_sent (console 0) (sys_hist s) @ bytes_of (take (sum_list ns) p)"
  using assms(2)
proof (induction ns arbitrary: p s)
  case (Cons n ns)
  obtain r s1 where w: "sys_write dev STDOUT_FILENO (bytes_of (take n p)) s = Some (r, s1)"
    and rest: "write_out dev ns (drop n p) s1 = Some (q, s')"
    using Cons.prems by (auto split: bind_splits)
  from sys_write_SomeD [OF w sys_write_ok [OF assms(1) w]] Cons.IH [OF rest]
  show ?case by (simp add: take_add add.commute)
qed simp

subsection \<open>What is sent\<close>

lemma uart_sent_console_of: "console_of app \<Longrightarrow> uart_sent (app_uart app) = uart_sent (console 0)"
  by (rule uart_sent_cong) (simp add: console_of_def console_def)

lemma set_hist_simps [simp]:
  "scpi (set_hist h app) = scpi app" "app_uart (set_hist h app) = app_uart app" "pending (set_hist h app) = pending app"
  "exit_scpi (set_hist h app) = exit_scpi app" "app_hist (set_hist h app) = h" "console_of (set_hist h app) = console_of app"
  by (simp_all add: set_hist_def app_hist_def console_of_def)

lemma sent_by_set_hist [simp]: "sent_by (set_hist h app) = uart_sent (console 0) h"
  by (simp add: sent_by_def)

text \<open>What delivering one event changes: the bytes sent grow by the text shown, nothing stays pending, and
  the rest of the application is as it was but for the exit flag.\<close>

definition delivers :: "scpi_event list \<Rightarrow> app_t \<Rightarrow> app_t \<Rightarrow> bool" where
  "delivers evs app app' \<longleftrightarrow> sent_by app' = sent_by app @ bytes_of (concat (map shown evs)) \<and> pending app' = [] \<and>
     scpi app' = scpi app \<and> app_uart app' = app_uart app \<and> sys_brk (sys app') = sys_brk (sys app) \<and>
     exit_scpi app' = (exit_scpi app \<or> EvUser EXIT_SCPI \<in> set evs)"

lemma uart_write_sent: "uart_write dev u data h = Some (n, h') \<Longrightarrow> uart_sent u h' = uart_sent u h @ data"
  using uart_write_SomeD uart_out.put_all_sent by blast

lemma scrivi_delivers:
  assumes "scrivi dev d app = Some (n, app')" "console_of app" "pending app = []"
  shows "delivers [EvWrite d] app app'"
proof -
  obtain h where h: "uart_write dev (app_uart app) (bytes_of d) (app_hist app) = Some (n, h)" "app' = set_hist h app"
    using assms(1) by (auto simp: scrivi_def split: bind_splits)
  from uart_write_sent [OF h(1)] show ?thesis
    using h(2) assms(3) by (simp add: delivers_def sent_by_def uart_sent_console_of [OF assms(2)] set_hist_def app_hist_def)
qed

lemma Error_delivers:
  assumes "SCPI_Error dev e app = Some app'" "console_of app" "pending app = []"
  shows "delivers [EvError e] app app'"
proof -
  obtain n h where h: "uart_write dev (app_uart app) (bytes_of (''ERR!'' @ crlf)) (app_hist app) = Some (n, h)" "app' = set_hist h app"
    using assms(1) by (auto simp: SCPI_Error_def split: bind_splits)
  from uart_write_sent [OF h(1)] show ?thesis
    using h(2) assms(3) by (simp add: delivers_def sent_by_def uart_sent_console_of [OF assms(2)] set_hist_def app_hist_def)
qed

lemma print_delivers:
  assumes "app_print dev splits s app = Some app'" "usable_clock dev" "line_buffered splits" "s \<noteq> []" "last s = CHR 0x0A"
    and "pending app = []"
  shows "delivers [EvPrint s] app app'"
proof -
  obtain p s' where w: "write_out dev (splits s) s (sys app) = Some (p, s')" "app' = app\<lparr>pending := p, sys := s'\<rparr>"
    using assms(1,6) by (auto simp: app_print_def split: bind_splits)
  have "sum_list (splits s) = length s" using assms(3-5) by (simp add: line_buffered_def)
  with write_out_sent [OF assms(2) w(1)] show ?thesis using w(2) by (simp add: delivers_def sent_by_def app_hist_def)
qed

lemma delivers_trans: "delivers a x y \<Longrightarrow> delivers b y z \<Longrightarrow> delivers (a @ b) x z"
  by (auto simp: delivers_def)

text \<open>The texts the application prints are complete lines.\<close>

definition prints_lines :: "scpi_event list \<Rightarrow> bool" where
  "prints_lines evs \<longleftrightarrow> (\<forall>s. EvPrint s \<in> set evs \<longrightarrow> s \<noteq> [] \<and> last s = CHR 0x0A)"

lemma deliver_delivers:
  assumes "usable_clock dev" "line_buffered splits" "prints_lines evs" "console_of app" "pending app = []"
    and "deliver dev splits evs app = Some app'"
  shows "delivers evs app app'"
  using assms(3-)
proof (induction evs arbitrary: app)
  case Nil
  then show ?case by (simp add: delivers_def)
next
  case (Cons e evs)
  obtain app1 where d: "deliver_one dev splits e app = Some app1" "deliver dev splits evs app1 = Some app'"
    using Cons.prems(4) by (auto split: bind_splits)
  have one: "delivers [e] app app1"
  proof (cases e)
    case (EvPrint s)
    then have "s \<noteq> []" "last s = CHR 0x0A" using Cons.prems(1) by (auto simp: prints_lines_def)
    then show ?thesis using print_delivers [OF _ assms(1,2)] d(1) EvPrint Cons.prems(3) by simp
  next
    case (EvUser n)
    then show ?thesis using d(1) Cons.prems(3) by (auto simp: delivers_def sent_by_def app_hist_def split: if_splits)
  qed (use d(1) Cons.prems(2,3) scrivi_delivers Error_delivers in \<open>auto simp: delivers_def\<close>)
  then have "pending app1 = []" "console_of app1" using Cons.prems(2) by (auto simp: delivers_def console_of_def)
  moreover have "prints_lines evs" using Cons.prems(1) by (auto simp: prints_lines_def)
  ultimately have "delivers evs app1 app'" using Cons.IH d(2) by blast
  then show ?case using delivers_trans [OF one] by simp
qed

lemma sys_write_returns:
  assumes "usable_clock dev" "uart_responsive dev (console 0)"
  shows "\<exists>n s'. sys_write dev STDOUT_FILENO data s = Some (n, s')"
proof -
  define f where "f = dev32 dev (sys_hist s) (SOC_CTRL_START_ADDRESS + SOC_CTRL_SYSTEM_FREQUENCY_HZ_REG_OFFSET)"
  define h1 where "h1 = sys_hist s @ [Rd32 (SOC_CTRL_START_ADDRESS + SOC_CTRL_SYSTEM_FREQUENCY_HZ_REG_OFFSET) f]"
  obtain h2 where i: "uart_init (Some (console f)) h1 = (kErrorOk, h2)"
    using assms(1) by (metis usable_clock_def f_def prod.collapse)
  have "uart_responsive dev (console f)"
    using assms(2) uart_responsive_cong [of "console f" "console 0"] by (simp add: console_def)
  from uart_write_returns [OF this, of data h2] show ?thesis
    by (auto simp: sys_write_def soc_freq Let_def f_def [symmetric] h1_def [symmetric] i)
qed

lemma write_out_returns:
  assumes "usable_clock dev" "uart_responsive dev (console 0)"
  shows "\<exists>q s'. write_out dev ns p s = Some (q, s')"
proof (induction ns arbitrary: p s)
  case (Cons n ns)
  obtain r s1 where "sys_write dev STDOUT_FILENO (bytes_of (take n p)) s = Some (r, s1)"
    using sys_write_returns [OF assms] by blast
  with Cons.IH [of "drop n p" s1] show ?case by auto
qed simp

lemma deliver_returns:
  assumes "usable_clock dev" "uart_responsive dev (console 0)" "console_of app" "EvUser ARRAY_OVERRUN \<notin> set evs"
    and "\<And>n. EvUser n \<in> set evs \<Longrightarrow> n = EXIT_SCPI \<or> n = ARRAY_OVERRUN"
  shows "\<exists>app'. deliver dev splits evs app = Some app'"
  using assms(3-)
proof (induction evs arbitrary: app)
  case (Cons e evs)
  have r: "uart_responsive dev (app_uart app)"
    using assms(2) Cons.prems(1) uart_responsive_cong [of "app_uart app" "console 0"] by (simp add: console_of_def console_def)
  have "\<exists>app1. deliver_one dev splits e app = Some app1 \<and> console_of app1"
  proof (cases e)
    case (EvWrite d)
    then show ?thesis using uart_write_returns [OF r, of "bytes_of d" "app_hist app"] Cons.prems(1) by (auto simp: scrivi_def)
  next
    case (EvError n)
    then show ?thesis
      using uart_write_returns [OF r, of "bytes_of (''ERR!'' @ crlf)" "app_hist app"] Cons.prems(1) by (auto simp: SCPI_Error_def)
  next
    case (EvPrint s)
    obtain q s' where "write_out dev (splits (pending app @ s)) (pending app @ s) (sys app) = Some (q, s')"
      using write_out_returns [OF assms(1,2)] by blast
    then show ?thesis using EvPrint Cons.prems(1) by (simp add: app_print_def console_of_def)
  next
    case (EvUser n)
    then have "n = EXIT_SCPI" using Cons.prems(2,3) by auto
    then show ?thesis using EvUser Cons.prems(1) by (simp add: console_of_def)
  qed (use Cons.prems(1) in auto)
  then obtain app1 where "deliver_one dev splits e app = Some app1" "console_of app1" by blast
  with Cons.IH [of app1] Cons.prems show ?case by auto
qed simp

subsection \<open>Processing input\<close>

fun app_event :: "scpi_event \<Rightarrow> bool" where
  "app_event (EvPrint s) = (s \<noteq> [] \<and> last s = CHR 0x0A)"
| "app_event (EvUser n) = (n = EXIT_SCPI \<or> n = ARRAY_OVERRUN)"
| "app_event _ = True"

interpretation app_log: lib_log app_event
proof
  fix e assume "lib_event e" then show "app_event e" by (cases e) simp_all
qed

lemma logged_text_loop: "logged app_event (text_loop c d) = logged app_event c"
proof (induction c d rule: text_loop.induct)
  case (1 c d)
  then show ?case by (subst text_loop.simps) (simp split: option.split)
qed

lemma logged_Text: "logged app_event (SCPI_ResultText c d) = logged app_event c"
  by (simp add: SCPI_ResultText_def Let_def logged_text_loop)

lemma logged_Int8: "logged app_event (SCPI_ResultArrayInt8 c xs SCPI_FORMAT_ASCII) = logged app_event c"
  unfolding SCPI_ResultArrayInt8_def RESULT_ARRAY_def by (induction xs arbitrary: c) simp_all

lemma logged_Block: "logged app_event (snd (snd (SCPI_ParamArbitraryBlock c m))) = logged app_event c"
  using app_log.logged_Parameter [of c m] by (simp add: SCPI_ParamArbitraryBlock_def Let_def split_beta)

lemma logged_InferData: "logged app_event (snd (InferData infer junk stale c)) = logged app_event c"
proof -
  obtain r b c1 where b: "SCPI_ParamArbitraryBlock c True = (r, b, c1)" by (metis prod_cases3)
  then have "logged app_event c1 = logged app_event c" using logged_Block [of c True] by simp
  then show ?thesis
    by (simp add: InferData_def b Let_def split_beta logged_Int8 logged_Text logged_emit crlf_def)
qed

interpretation app: logged_callbacks "app_commands infer img junk stale" app_event for infer img junk stale
proof
  fix pat f c assume "(pat, Some f) \<in> set (app_commands infer img junk stale)" "logged app_event c"
  then show "logged app_event (snd (f c))"
    by (auto simp: app_commands_def InferExample_def Exit_def split_beta logged_Int8 logged_Text logged_InferData logged_emit)
qed

text \<open>The platform the application needs, and the state it keeps between inputs.\<close>

definition platform_ok :: "device \<Rightarrow> (string \<Rightarrow> nat list) \<Rightarrow> bool" where
  "platform_ok dev splits \<longleftrightarrow> usable_clock dev \<and> line_buffered splits \<and> uart_responsive dev (console 0)"

definition app_inv :: "app_t \<Rightarrow> bool" where
  "app_inv app \<longleftrightarrow> ctx_inv (scpi app) \<and> console_of app \<and> pending app = []"

lemma app_input_steps:
  assumes "platform_ok dev splits" "app_inv app"
  shows "\<exists>res c. SCPI_Input (app_commands infer img junk stale) ((scpi app)\<lparr>events := []\<rparr>) data = Some (res, c) \<and>
    ctx_inv c \<and> logged app_event c \<and>
    (case app_input dev splits (app_commands infer img junk stale) data app of
       None \<Rightarrow> EvUser ARRAY_OVERRUN \<in> set (events c)
     | Some app' \<Rightarrow> delivers (events c) (app\<lparr>scpi := c\<rparr>) app' \<and> app_inv app')"
proof -
  let ?cmds = "app_commands infer img junk stale"
  have "keeps (scpi app) ((scpi app)\<lparr>events := []\<rparr>)" by (rule keepsI) simp_all
  then have "ctx_inv ((scpi app)\<lparr>events := []\<rparr>)" using assms(2) by (simp add: app_inv_def keeps_def)
  then obtain res c where i: "SCPI_Input ?cmds ((scpi app)\<lparr>events := []\<rparr>) data = Some (res, c)" "ctx_inv c"
    using app.SCPI_Input_returns by blast
  have l: "logged app_event c" using app.logged_Input [OF i(1)] by (simp add: logged_def)
  have p: "prints_lines (events c)" using l by (fastforce simp: logged_def prints_lines_def)
  have u: "EvUser n \<in> set (events c) \<Longrightarrow> n = EXIT_SCPI \<or> n = ARRAY_OVERRUN" for n using l by (fastforce simp: logged_def)
  let ?a = "app\<lparr>scpi := c\<rparr>"
  have a: "console_of ?a" "pending ?a = []" using assms(2) by (simp_all add: app_inv_def console_of_def)
  have e: "app_input dev splits ?cmds data app = deliver dev splits (events c) ?a" by (simp add: app_input_def i(1))
  have "case deliver dev splits (events c) ?a of None \<Rightarrow> EvUser ARRAY_OVERRUN \<in> set (events c)
     | Some app' \<Rightarrow> delivers (events c) ?a app' \<and> app_inv app'"
  proof (cases "deliver dev splits (events c) ?a")
    case None
    then show ?thesis using deliver_returns [OF _ _ a(1), of dev "events c" splits] u assms(1) by (auto simp: platform_ok_def)
  next
    case (Some app')
    then have "delivers (events c) ?a app'"
      using deliver_delivers [OF _ _ p a Some] assms(1) by (auto simp: platform_ok_def)
    then show ?thesis using Some i(2) a(1) by (simp add: delivers_def app_inv_def console_of_def)
  qed
  then show ?thesis using i l e by auto
qed

end
