(* ===== verification/Hart.thy ===== *)
theory Hart
  imports Memory
begin

text \<open>
  The inline assembly of the exception handler (\<^verbatim>\<open>lib/runtime/handler.c\<close>) and of the application's
  set-up (\<^verbatim>\<open>main.c\<close>): the trap frame, the physical memory protection and the switch to user mode. A hart
  is its integer registers, its control registers, a byte-addressed little-endian memory, its privilege mode
  and program counter; the instructions used are executed one by one. The lemmas show that the frame gives the
  registers back and where it is written, and which region the protection opens.
\<close>

datatype xreg =
    Zero | Ra | Sp | Gp | Tp | T0 | T1 | T2 | S0 | S1 | A0 | A1 | A2 | A3 | A4 | A5 | A6 | A7
  | S2 | S3 | S4 | S5 | S6 | S7 | S8 | S9 | S10 | S11 | T3 | T4 | T5 | T6

datatype csr =
    MSTATUS | MIE | MTVEC | MSCRATCH | MEPC | MCAUSE | MTVAL | MCYCLE | MINSTRET | PMPCFG0 | PMPADDR0 | PMPADDR1

datatype privilege = U_mode | S_mode | M_mode

record hart =
  xr :: "xreg \<Rightarrow> u32"
  csrs :: "csr \<Rightarrow> u32"
  hmem :: memory
  priv :: privilege
  pc :: u32

datatype instr =
    ADDI xreg xreg u32 | LI xreg u32 | ADD xreg xreg xreg | SUB xreg xreg xreg | ANDR xreg xreg xreg
  | ORR xreg xreg xreg | ORI xreg xreg u32 | SLLI xreg xreg nat
  | SW xreg u32 xreg | LW xreg u32 xreg
  | CSRR xreg csr | CSRW csr xreg | CSRS csr xreg | FENCE_I | MRET

subsection \<open>Execution\<close>

definition store32 :: "u32 \<Rightarrow> u32 \<Rightarrow> memory \<Rightarrow> memory" where
  "store32 a v m = m(a := ucast v, a + 1 := ucast (drop_bit 8 v), a + 2 := ucast (drop_bit 16 v), a + 3 := ucast (drop_bit 24 v))"

definition load32 :: "memory \<Rightarrow> u32 \<Rightarrow> u32" where
  "load32 m a = ucast (m a) OR push_bit 8 (ucast (m (a + 1))) OR push_bit 16 (ucast (m (a + 2))) OR push_bit 24 (ucast (m (a + 3)))"

definition load16 :: "memory \<Rightarrow> u32 \<Rightarrow> u16" where
  "load16 m a = ucast (m a) OR push_bit 8 (ucast (m (a + 1)))"

text \<open>Register zero reads as zero and ignores writes.\<close>

definition rd :: "hart \<Rightarrow> xreg \<Rightarrow> u32" where
  "rd h r = (if r = Zero then 0 else xr h r)"

definition wr :: "xreg \<Rightarrow> u32 \<Rightarrow> hart \<Rightarrow> hart" where
  "wr r v h = (if r = Zero then h else h\<lparr>xr := (xr h)(r := v)\<rparr>)"

text \<open>Returning from the trap: the mode comes from bits 11 and 12 of \<^verbatim>\<open>mstatus\<close>.\<close>

definition mpp :: "u32 \<Rightarrow> privilege" where
  "mpp s = (if take_bit 2 (drop_bit 11 s) = 0 then U_mode else if take_bit 2 (drop_bit 11 s) = 3 then M_mode else S_mode)"

fun exec1 :: "instr \<Rightarrow> hart \<Rightarrow> hart" where
  "exec1 (ADDI d s i) h = wr d (rd h s + i) h"
| "exec1 (LI d i) h = wr d i h"
| "exec1 (ADD d s t) h = wr d (rd h s + rd h t) h"
| "exec1 (SUB d s t) h = wr d (rd h s - rd h t) h"
| "exec1 (ANDR d s t) h = wr d (rd h s AND rd h t) h"
| "exec1 (ORR d s t) h = wr d (rd h s OR rd h t) h"
| "exec1 (ORI d s i) h = wr d (rd h s OR i) h"
| "exec1 (SLLI d s n) h = wr d (push_bit n (rd h s)) h"
| "exec1 (SW s off b) h = h\<lparr>hmem := store32 (rd h b + off) (rd h s) (hmem h)\<rparr>"
| "exec1 (LW d off b) h = wr d (load32 (hmem h) (rd h b + off)) h"
| "exec1 (CSRR d c) h = wr d (csrs h c) h"
| "exec1 (CSRW c s) h = h\<lparr>csrs := (csrs h)(c := rd h s)\<rparr>"
| "exec1 (CSRS c s) h = h\<lparr>csrs := (csrs h)(c := csrs h c OR rd h s)\<rparr>"
| "exec1 FENCE_I h = h"
| "exec1 MRET h = h\<lparr>priv := mpp (csrs h MSTATUS), pc := csrs h MEPC\<rparr>"

definition exec :: "instr list \<Rightarrow> hart \<Rightarrow> hart" where
  "exec is h = fold exec1 is h"

subsection \<open>The code\<close>

definition trap_save :: "instr list" where
  "trap_save =
     [ADDI Sp Sp (- 60), SW Ra 56 Sp, SW Gp 52 Sp, SW Tp 48 Sp, SW S0 44 Sp, SW S1 40 Sp, SW S2 36 Sp, SW S3 32 Sp,
      SW S4 28 Sp, SW S5 24 Sp, SW S6 20 Sp, SW S7 16 Sp, SW S8 12 Sp, SW S9 8 Sp, SW S10 4 Sp, SW S11 0 Sp]"

definition trap_restore :: "instr list" where
  "trap_restore =
     [LW S11 0 Sp, LW S10 4 Sp, LW S9 8 Sp, LW S8 12 Sp, LW S7 16 Sp, LW S6 20 Sp, LW S5 24 Sp, LW S4 28 Sp,
      LW S3 32 Sp, LW S2 36 Sp, LW S1 40 Sp, LW S0 44 Sp, LW Tp 48 Sp, LW Gp 52 Sp, LW Ra 56 Sp, ADDI Sp Sp 60]"

text \<open>Stepping over the trapping instruction, which is four bytes long when its low two bits are set.\<close>

definition advance_mepc :: "hart \<Rightarrow> hart" where
  "advance_mepc h =
     (let mepc = csrs h MEPC; instr = load16 (hmem h) mepc
      in h\<lparr>csrs := (csrs h)(MEPC := mepc + (if instr AND 0x3 = 0x3 then 4 else 2))\<rparr>)"

definition pmp_setup :: "instr list" where
  "pmp_setup =
     [CSRW PMPCFG0 Zero, LI T0 0x1e000, CSRW PMPADDR0 T0, LI T0 0x20000, CSRW PMPADDR1 T0,
      LI T0 0x0f, SLLI T0 T0 8, CSRS PMPCFG0 T0, FENCE_I]"

text \<open>The addresses of the buffer, of the loop and of the top of the user stack come from the linker.\<close>

definition switch_to_user_mode :: "u32 \<Rightarrow> u32 \<Rightarrow> u32 \<Rightarrow> instr list" where
  "switch_to_user_mode buffer user_uart_loop user_stack_top =
     [LI A0 buffer, LI A1 2048, LI T0 user_uart_loop, CSRW MEPC T0, LI Sp user_stack_top, LI T2 (- 16), ADD Sp Sp T2,
      CSRR T0 MSTATUS, LI T1 (NOT (push_bit 11 3)), ANDR T0 T0 T1, CSRW MSTATUS T0, MRET]"

subsection \<open>Loads and stores\<close>

lemma load_store: "load32 (store32 a v m) a = v"
proof (rule bit_word_eqI)
  fix n :: nat assume "n < LENGTH(32)"
  then show "bit (load32 (store32 a v m) a) n = bit v n"
    by (cases "n < 8"; cases "n < 16"; cases "n < 24") (auto simp: load32_def store32_def bit_simps bit_or_iff)
qed

definition bytes4 :: "u32 \<Rightarrow> u32 set" where
  "bytes4 a = (+) a ` {0, 1, 2, 3}"

lemma load_cong: "(\<And>b. b \<in> bytes4 a \<Longrightarrow> m b = n b) \<Longrightarrow> load32 m a = load32 n a"
proof -
  assume "\<And>b. b \<in> bytes4 a \<Longrightarrow> m b = n b"
  then have "m (a + k) = n (a + k)" if "k \<in> {0, 1, 2, 3}" for k using that by (simp add: bytes4_def)
  from this [of 0] this [of 1] this [of 2] this [of 3] show ?thesis by (simp add: load32_def)
qed

lemma store_other: "b \<notin> bytes4 a \<Longrightarrow> store32 a v m b = m b"
  by (auto simp: store32_def bytes4_def)

lemma rd_wr [simp]: "rd (wr r v h) q = (if q = r \<and> r \<noteq> Zero then v else rd h q)"
  by (simp add: rd_def wr_def)

lemma wr_fields [simp]:
  "hmem (wr r v h) = hmem h" "csrs (wr r v h) = csrs h" "priv (wr r v h) = priv h" "pc (wr r v h) = pc h"
  by (simp_all add: wr_def)

lemma exec_simps [simp]: "exec [] h = h" "exec (i # is) h = exec is (exec1 i h)"
  by (simp_all add: exec_def)

lemma exec_append: "exec (a @ b) h = exec b (exec a h)"
  by (simp add: exec_def)

subsection \<open>Frames\<close>

text \<open>A frame is a list of registers with the offsets of their slots.\<close>

definition stores :: "(xreg \<times> u32) list \<Rightarrow> instr list" where
  "stores fr = map (\<lambda>(r, i). SW r i Sp) fr"

definition loads :: "(xreg \<times> u32) list \<Rightarrow> instr list" where
  "loads fr = map (\<lambda>(r, i). LW r i Sp) fr"

definition slot_bytes :: "u32 \<Rightarrow> (xreg \<times> u32) list \<Rightarrow> u32 set" where
  "slot_bytes p fr = (\<Union>x \<in> set fr. bytes4 (p + snd x))"

fun slots_apart :: "(xreg \<times> u32) list \<Rightarrow> bool" where
  "slots_apart [] = True"
| "slots_apart (x # fr) = (bytes4 (snd x) \<inter> slot_bytes 0 fr = {} \<and> slots_apart fr)"

lemma bytes4_shift: "bytes4 (p + i) = (+) p ` bytes4 i"
  by (auto simp: bytes4_def)

lemma slot_bytes_shift: "slot_bytes p fr = (+) p ` slot_bytes 0 fr"
  by (simp add: slot_bytes_def bytes4_shift [of p] image_UN)

lemma slots_apart_at: "slots_apart (x # fr) \<Longrightarrow> bytes4 (p + snd x) \<inter> slot_bytes p fr = {}"
  by (simp add: bytes4_shift [of p] slot_bytes_shift [of p] flip: image_Int)

lemma exec_stores:
  "rd (exec (stores fr) h) q = rd h q" "csrs (exec (stores fr) h) = csrs h" "priv (exec (stores fr) h) = priv h"
  by (induction fr arbitrary: h) (auto simp: stores_def rd_def)

lemma rd_hmem [simp]: "rd (h\<lparr>hmem := m\<rparr>) r = rd h r"
  by (simp add: rd_def)

lemma stores_Cons: "exec (stores ((r, i) # fr)) h = exec (stores fr) (h\<lparr>hmem := store32 (rd h Sp + i) (rd h r) (hmem h)\<rparr>)"
  by (simp add: stores_def)

lemma stores_outside:
  "b \<notin> slot_bytes (rd h Sp) fr \<Longrightarrow> hmem (exec (stores fr) h) b = hmem h b"
proof (induction fr arbitrary: h)
  case (Cons x fr)
  obtain r i where x: "x = (r, i)" by fastforce
  have "b \<notin> bytes4 (rd h Sp + i)" "b \<notin> slot_bytes (rd h Sp) fr"
    using Cons.prems by (auto simp: x slot_bytes_def)
  then show ?case using Cons.IH by (simp add: x stores_Cons store_other)
qed (simp add: stores_def)

lemma stores_slot:
  "slots_apart fr \<Longrightarrow> (r, i) \<in> set fr \<Longrightarrow> load32 (hmem (exec (stores fr) h)) (rd h Sp + i) = rd h r"
proof (induction fr arbitrary: h)
  case (Cons x fr)
  obtain q j where x: "x = (q, j)" by fastforce
  let ?h = "h\<lparr>hmem := store32 (rd h Sp + j) (rd h q) (hmem h)\<rparr>"
  show ?case
  proof (cases "(r, i) = x")
    case True
    have "load32 (hmem (exec (stores fr) ?h)) (rd h Sp + i) = load32 (hmem ?h) (rd h Sp + i)"
    proof (rule load_cong)
      fix b assume "b \<in> bytes4 (rd h Sp + i)"
      then have "b \<notin> slot_bytes (rd ?h Sp) fr" using slots_apart_at [OF Cons.prems(1), of "rd h Sp"] True by auto
      then show "hmem (exec (stores fr) ?h) b = hmem ?h b" by (rule stores_outside)
    qed
    then show ?thesis using True by (simp add: x stores_Cons load_store)
  next
    case False
    then have "load32 (hmem (exec (stores fr) ?h)) (rd ?h Sp + i) = rd ?h r"
      using Cons.IH [of ?h] Cons.prems by simp
    then show ?thesis by (simp add: x stores_Cons)
  qed
qed simp

lemma loads_Cons: "exec (loads ((r, i) # fr)) h = exec (loads fr) (wr r (load32 (hmem h) (rd h Sp + i)) h)"
  by (simp add: loads_def)

lemma exec_loads:
  assumes "Sp \<notin> fst ` set fr" "Zero \<notin> fst ` set fr" "distinct (map fst fr)"
  shows "rd (exec (loads fr) h) q =
      (case map_of fr q of Some i \<Rightarrow> load32 (hmem h) (rd h Sp + i) | None \<Rightarrow> rd h q) \<and>
    hmem (exec (loads fr) h) = hmem h \<and> csrs (exec (loads fr) h) = csrs h \<and> priv (exec (loads fr) h) = priv h"
  using assms
proof (induction fr arbitrary: h)
  case (Cons x fr)
  obtain r i where x: "x = (r, i)" by fastforce
  let ?h = "wr r (load32 (hmem h) (rd h Sp + i)) h"
  have n: "map_of fr r = None" using Cons.prems(3) by (auto simp: x map_of_eq_None_iff)
  have "rd ?h Sp = rd h Sp" using Cons.prems by (auto simp: x)
  then show ?case
    using Cons.IH [of ?h] Cons.prems n by (auto simp: x loads_Cons split: option.split)
qed (simp add: loads_def)

subsection \<open>The trap frame\<close>

definition frame :: "(xreg \<times> u32) list" where
  "frame = [(Ra, 56), (Gp, 52), (Tp, 48), (S0, 44), (S1, 40), (S2, 36), (S3, 32), (S4, 28), (S5, 24), (S6, 20),
     (S7, 16), (S8, 12), (S9, 8), (S10, 4), (S11, 0)]"

lemma trap_code:
  "trap_save = ADDI Sp Sp (- 60) # stores frame" "trap_restore = loads (rev frame) @ [ADDI Sp Sp 60]"
  by (simp_all add: trap_save_def trap_restore_def stores_def loads_def frame_def)

lemma frame_apart: "slots_apart frame"
  by (simp add: frame_def slot_bytes_def bytes4_def)

lemma frame_restored:
  assumes "rd h2 Sp = rd (exec trap_save h) Sp"
    and "\<forall>b \<in> slot_bytes (rd h2 Sp) frame. hmem h2 b = hmem (exec trap_save h) b"
    and "r \<in> {Sp, Ra, Gp, Tp, S0, S1, S2, S3, S4, S5, S6, S7, S8, S9, S10, S11}"
  shows "rd (exec trap_restore h2) r = rd h r"
proof -
  define h1 where "h1 = wr Sp (rd h Sp - 60) h"
  have s: "exec trap_save h = exec (stores frame) h1" by (simp add: trap_code h1_def)
  have sp: "rd h2 Sp = rd h1 Sp" using assms(1) by (simp add: s exec_stores)
  have ok: "Sp \<notin> fst ` set (rev frame)" "Zero \<notin> fst ` set (rev frame)" "distinct (map fst (rev frame))"
    by (simp_all add: frame_def)
  have l: "rd (exec (loads (rev frame)) h2) q =
      (case map_of (rev frame) q of Some i \<Rightarrow> load32 (hmem h2) (rd h2 Sp + i) | None \<Rightarrow> rd h2 q)" for q
    using exec_loads [OF ok] by blast
  have r: "rd (exec trap_restore h2) r =
      (if r = Sp then rd (exec (loads (rev frame)) h2) Sp + 60 else rd (exec (loads (rev frame)) h2) r)"
    by (simp add: trap_code exec_append)
  have slot: "load32 (hmem h2) (rd h2 Sp + i) = rd h q" if "(q, i) \<in> set frame" for q i
  proof -
    have "load32 (hmem h2) (rd h2 Sp + i) = load32 (hmem (exec trap_save h)) (rd h2 Sp + i)"
    proof (rule load_cong)
      fix b assume "b \<in> bytes4 (rd h2 Sp + i)"
      then have "b \<in> slot_bytes (rd h2 Sp) frame" using that by (force simp: slot_bytes_def)
      then show "hmem h2 b = hmem (exec trap_save h) b" using assms(2) by blast
    qed
    also have "\<dots> = rd h1 q" using stores_slot [OF frame_apart that, of h1] by (simp add: s sp)
    also have "\<dots> = rd h q" using that by (auto simp: h1_def frame_def)
    finally show ?thesis .
  qed
  show ?thesis
  proof (cases "r = Sp")
    case True
    then show ?thesis using r l [of Sp] sp by (simp add: frame_def h1_def)
  next
    case False
    then have "r \<in> fst ` set frame" using assms(3) by (auto simp: frame_def)
    then obtain i where "(r, i) \<in> set (rev frame)" by auto
    then have "map_of (rev frame) r = Some i" using ok(3) by (metis map_of_is_SomeI)
    then show ?thesis using r l [of r] slot [of r i] False \<open>(r, i) \<in> set (rev frame)\<close> by simp
  qed
qed

text \<open>Whatever runs between saving and restoring the trap frame, as long as it gives back the stack
  pointer and does not write into the frame, every saved register and the stack pointer have after the restore the values they
  had before the trap.\<close>

theorem trap_frame_restores:
  assumes "rd h2 Sp = rd (exec trap_save h) Sp"
    and "\<forall>b \<in> slot_bytes (rd h2 Sp) frame. hmem h2 b = hmem (exec trap_save h) b"
    and "r \<in> {Sp, Ra, Gp, Tp, S0, S1, S2, S3, S4, S5, S6, S7, S8, S9, S10, S11}"
  shows "rd (exec trap_restore h2) r = rd h r"
  by (rule frame_restored [OF assms])

text \<open>A hart whose registers hold their own numbers' worth of distinct values, trapping with an empty memory.\<close>

definition demo_hart :: hart where
  "demo_hart = \<lparr>xr = (\<lambda>r. if r = Sp then 0x7ff0 else if r = Ra then 0x1234 else if r = S3 then 77 else 5),
     csrs = (\<lambda>_. 0), hmem = (\<lambda>_. 0), priv = M_mode, pc = 0\<rparr>"

lemma trap_frame_restores_witness:
  "rd (exec trap_restore (wr T0 9 (wr S3 0 (exec trap_save demo_hart)))) S3 = 77"
proof -
  have "rd (wr T0 9 (wr S3 0 (exec trap_save demo_hart))) Sp = rd (exec trap_save demo_hart) Sp" by simp
  from trap_frame_restores [OF this, of S3] show ?thesis by (simp add: demo_hart_def rd_def)
qed

lemma trap_save_outside:
  assumes "unat (b - (rd h Sp - 60)) \<ge> 60"
  shows "hmem (exec trap_save h) b = hmem h b"
proof -
  define h1 where "h1 = wr Sp (rd h Sp - 60) h"
  have sp: "rd h1 Sp = rd h Sp - 60" by (simp add: h1_def)
  have "b \<notin> slot_bytes (rd h1 Sp) frame"
  proof
    assume "b \<in> slot_bytes (rd h1 Sp) frame"
    then have "b \<in> (+) (rd h1 Sp) ` slot_bytes 0 frame" using slot_bytes_shift by blast
    then obtain k where "b = rd h1 Sp + k" "k \<in> slot_bytes 0 frame" by blast
    then have "unat (b - rd h1 Sp) < 60" by (auto simp: slot_bytes_def frame_def bytes4_def)
    then show False using assms sp by simp
  qed
  then show ?thesis using stores_outside [of b h1 frame] by (simp add: trap_code h1_def)
qed

lemma trap_save_keeps: "csrs (exec trap_save h) = csrs h" "priv (exec trap_save h) = priv h"
  "rd (exec trap_save h) r = (if r = Sp then rd h Sp - 60 else rd h r)"
  by (simp_all add: trap_code exec_stores)

lemma trap_restore_keeps: "csrs (exec trap_restore h) = csrs h" "priv (exec trap_restore h) = priv h"
  "hmem (exec trap_restore h) = hmem h" "rd (exec trap_restore h) A0 = rd h A0"
proof -
  have ok: "Sp \<notin> fst ` set (rev frame)" "Zero \<notin> fst ` set (rev frame)" "distinct (map fst (rev frame))"
    by (simp_all add: frame_def)
  note l = exec_loads [OF ok, of h]
  show "csrs (exec trap_restore h) = csrs h" "priv (exec trap_restore h) = priv h" "hmem (exec trap_restore h) = hmem h"
    using l by (simp_all add: trap_code exec_append)
  show "rd (exec trap_restore h) A0 = rd h A0" using l [of A0] by (simp add: trap_code exec_append) (simp add: frame_def)
qed

text \<open>The frame is written relative to whatever stack pointer the interrupted program left: the
  sixty bytes below it, for any value, also when the trap comes from user mode; the return address of
  the interrupted program ends up at the top of them, and nothing else in memory changes.\<close>

theorem trap_save_writes_below_sp:
  "load32 (hmem (exec trap_save h)) (rd h Sp - 4) = rd h Ra \<and>
   load32 (hmem (exec trap_save h)) (rd h Sp - 60) = rd h S11 \<and>
   (\<forall>b. unat (b - (rd h Sp - 60)) \<ge> 60 \<longrightarrow> hmem (exec trap_save h) b = hmem h b)"
proof -
  define h1 where "h1 = wr Sp (rd h Sp - 60) h"
  have s: "exec trap_save h = exec (stores frame) h1" by (simp add: trap_code h1_def)
  have m: "hmem h1 = hmem h" "rd h1 Sp = rd h Sp - 60" "rd h1 Ra = rd h Ra" "rd h1 S11 = rd h S11"
    by (simp_all add: h1_def)
  have e: "rd h Sp - 4 = rd h1 Sp + 56" "rd h Sp - 60 = rd h1 Sp + 0" by (simp_all add: m)
  have "hmem (exec trap_save h) b = hmem h b" if "unat (b - (rd h Sp - 60)) \<ge> 60" for b
    using that by (rule trap_save_outside)
  moreover have "load32 (hmem (exec trap_save h)) (rd h1 Sp + 56) = rd h Ra"
    using stores_slot [OF frame_apart, of Ra 56 h1] by (simp add: s m frame_def)
  moreover have "load32 (hmem (exec trap_save h)) (rd h1 Sp + 0) = rd h S11"
    using stores_slot [OF frame_apart, of S11 0 h1] by (simp add: s m frame_def)
  ultimately show ?thesis unfolding e by blast
qed

lemma trap_save_writes_below_sp_witness:
  "load32 (hmem (exec trap_save demo_hart)) 0x7fec = 0x1234 \<and> hmem (exec trap_save demo_hart) 0x8000 = 0"
  using trap_save_writes_below_sp [of demo_hart] by (auto simp: demo_hart_def rd_def)

subsection \<open>Memory protection and user mode\<close>

text \<open>What the two configured entries of the protection unit let a user program reach: entry 1 in
  top-of-range mode covers the addresses from four times the first address register up to four times the second.\<close>

definition pmp_entry :: "u32 \<Rightarrow> nat \<Rightarrow> u32" where
  "pmp_entry cfg i = take_bit 8 (drop_bit (8 * i) cfg)"

definition pmp_user_access :: "(csr \<Rightarrow> u32) \<Rightarrow> u32 \<Rightarrow> bool" where
  "pmp_user_access c a \<longleftrightarrow>
     take_bit 2 (drop_bit 3 (pmp_entry (c PMPCFG0) 1)) = 1 \<and> take_bit 3 (pmp_entry (c PMPCFG0) 1) = 7 \<and>
     c PMPADDR0 \<le> drop_bit 2 a \<and> drop_bit 2 a < c PMPADDR1"

definition ram2_lo :: u32 where "ram2_lo = 0x00078000"
definition ram2_hi :: u32 where "ram2_hi = 0x00080000"

lemma pmp_setup_csrs:
  "csrs (exec pmp_setup h) = (csrs h)(PMPCFG0 := 0xf00, PMPADDR0 := 0x1e000, PMPADDR1 := 0x20000)"
  by (rule ext) (simp add: pmp_setup_def rd_def wr_def)

lemma pmp_access:
  "pmp_user_access (csrs (exec pmp_setup h)) a \<longleftrightarrow> ram2_lo \<le> a \<and> a < ram2_hi"
  "\<not> bit (pmp_entry (csrs (exec pmp_setup h) PMPCFG0) 1) 7"
proof -
  have "drop_bit 2 a = a div 4" by (simp add: drop_bit_eq_div)
  then have u: "unat (drop_bit 2 a) = unat a div 4" by (simp only: unat_div) simp
  have "drop_bit 8 (0xf00 :: u32) = 0xf" by (simp add: drop_bit_eq_div)
  then have e: "pmp_entry 0xf00 (Suc 0) = 0xf" by (simp add: pmp_entry_def take_bit_eq_mod)
  have b: "\<not> bit (0xf :: u32) 7" "take_bit 2 (drop_bit 3 (0xf :: u32)) = 1" "take_bit 3 (0xf :: u32) = 7"
    by (simp_all add: bit_numeral_rec take_bit_eq_mod drop_bit_eq_div)
  show "pmp_user_access (csrs (exec pmp_setup h)) a \<longleftrightarrow> ram2_lo \<le> a \<and> a < ram2_hi"
    by (simp add: pmp_user_access_def pmp_setup_csrs e b ram2_lo_def ram2_hi_def word_le_nat_alt word_less_nat_alt u)
      (auto simp: div_less_iff_less_mult)
  show "\<not> bit (pmp_entry (csrs (exec pmp_setup h) PMPCFG0) 1) 7" by (simp add: pmp_setup_csrs e b)
qed

text \<open>C40: After the set-up the user program may read, write and execute exactly the bytes between
  the two bounds against which the system call checks its buffer; the entry is not locked, so that it does
  not restrict machine mode.\<close>

theorem pmp_region:
  "(pmp_user_access (csrs (exec pmp_setup h)) a \<longleftrightarrow> ram2_lo \<le> a \<and> a < ram2_hi) \<and>
   \<not> bit (pmp_entry (csrs (exec pmp_setup h) PMPCFG0) 1) 7"
  using pmp_access by blast

lemma switch_csrs:
  "c \<notin> {MEPC, MSTATUS} \<Longrightarrow> csrs (exec (switch_to_user_mode buffer user_uart_loop stack_top) h) c = csrs h c"
  by (simp add: switch_to_user_mode_def)

lemma switch_state:
  "let h' = exec (switch_to_user_mode buffer user_uart_loop stack_top) h
   in priv h' = U_mode \<and> pc h' = user_uart_loop \<and> rd h' A0 = buffer \<and> rd h' A1 = 2048 \<and> rd h' Sp = stack_top - 16 \<and>
      hmem h' = hmem h \<and> (\<forall>n < 32. bit (csrs h' MSTATUS) n = (bit (csrs h MSTATUS) n \<and> n \<noteq> 11 \<and> n \<noteq> 12))"
proof -
  define st where "st = csrs h MSTATUS AND NOT (push_bit 11 3)"
  have bits: "bit st n = (bit (csrs h MSTATUS) n \<and> n \<noteq> 11 \<and> n \<noteq> 12)" if "n < 32" for n
  proof -
    have three: "(3 :: u32) = mask 2" by (simp add: mask_eq_exp_minus_1)
    show ?thesis
      using that unfolding st_def three bit_and_iff bit_not_iff bit_push_bit_iff bit_mask_iff by auto
  qed
  have "take_bit 2 (drop_bit 11 st) = 0"
    by (rule bit_word_eqI) (auto simp: bit_take_bit_iff bit_drop_bit_eq bits)
  then have "mpp st = U_mode" by (simp add: mpp_def)
  then show ?thesis using bits
    by (simp add: switch_to_user_mode_def Let_def rd_def wr_def st_def)
qed

text \<open>The switch leaves the hart in user mode at the entry of the line editor, with its two arguments
  in place and the stack sixteen bytes below the top of the user region; of the status register only the two bits of the
  previous mode change.\<close>

theorem switch_enters_user_mode:
  "let h' = exec (switch_to_user_mode buffer user_uart_loop stack_top) h
   in priv h' = U_mode \<and> pc h' = user_uart_loop \<and> rd h' A0 = buffer \<and> rd h' A1 = 2048 \<and> rd h' Sp = stack_top - 16 \<and>
      hmem h' = hmem h \<and> (\<forall>n < 32. bit (csrs h' MSTATUS) n = (bit (csrs h MSTATUS) n \<and> n \<noteq> 11 \<and> n \<noteq> 12))"
  by (rule switch_state)

end
