(* ===== verification/Tee.thy ===== *)
theory Tee
  imports App Hart
begin

text \<open>
  The system calls of the user program (\<^verbatim>\<open>lib/runtime/handler.c\<close>, with the
  application's \<^verbatim>\<open>handlers.c\<close> in place of the weak fault handlers, and \<^verbatim>\<open>tee_syscall.h\<close>): the
  checks and effects of each call, and the dispatch of exceptions around it. A machine is a hart and the
  application in machine mode. A handler returns to the interrupted program, restarts the
  firmware, or spins for ever.
\<close>

definition TEE_EC_INFER :: u32 where "TEE_EC_INFER = 0"
definition TEE_EC_UART_PUTCHAR :: u32 where "TEE_EC_UART_PUTCHAR = 1"
definition TEE_EC_UART_GETCHAR :: u32 where "TEE_EC_UART_GETCHAR = 2"
definition TEE_EC_RDCOUNTERS :: u32 where "TEE_EC_RDCOUNTERS = 99"

text \<open>How a handler ends: it returns, jumps to an address, or never returns.\<close>

datatype 'a outcome = Returns 'a | Jumps u32 'a | Spins 'a

text \<open>Conversions of \<^verbatim>\<open>printf\<close> on 32-bit values.\<close>

definition fmt_dec :: "u32 \<Rightarrow> string" where "fmt_dec v = fmt_u 10 (unat v)"
definition fmt_hex :: "u32 \<Rightarrow> string" where "fmt_hex v = fmt_u 16 (unat v)"
definition fmt_hex8 :: "u32 \<Rightarrow> string" where
  "fmt_hex8 v = (let d = fmt_hex v in replicate (8 - length d) (CHR ''0'') @ d)"

subsection \<open>System calls\<close>

text \<open>The test on the user's buffer, in 32-bit arithmetic.\<close>

definition buffer_rejected :: "u32 \<Rightarrow> u32 \<Rightarrow> bool" where
  "buffer_rejected ptr len \<longleftrightarrow> ptr < ram2_lo \<or> ptr + len > ram2_hi"

definition user_input :: "memory \<Rightarrow> u32 \<Rightarrow> u32 \<Rightarrow> string" where
  "user_input m ptr len = map (\<lambda>b. char_of (unat b)) (bytes_at m ptr (unat len))"

text \<open>
  The parser takes the length as a signed number. A negative length, which the test does not
  exclude, makes it copy almost the whole address space over its buffer: nothing is said then, and the
  result is \<open>None\<close>, as for a device that never answers. The second component of a result is what the call leaves in
  \<^verbatim>\<open>a0\<close>, if it sets it.
\<close>

definition ecall_infer :: "device \<Rightarrow> (string \<Rightarrow> nat list) \<Rightarrow> scpi_command_t list \<Rightarrow> memory \<Rightarrow> u32 \<Rightarrow> u32 \<Rightarrow> app_t \<Rightarrow> app_t option" where
  "ecall_infer dev splits cmds m ptr len app =
     (if buffer_rejected ptr len
      then app_print dev splits (''[M] Bad user buffer (0x'' @ fmt_hex8 ptr @ '', len='' @ fmt_dec len @ '')'' @ crlf) app
      else do { app \<leftarrow> app_print dev splits (''Len = '' @ fmt_dec len @ crlf) app;
                if len = 0 then Some app
                else if sint len < 0 then None
                else do { app \<leftarrow> app_input dev splits cmds (user_input m ptr len) app;
                          app_input dev splits cmds crlf app } })"

definition handler_user_ecall ::
  "device \<Rightarrow> (string \<Rightarrow> nat list) \<Rightarrow> scpi_command_t list \<Rightarrow> memory \<Rightarrow> u32 list \<Rightarrow> u32 \<Rightarrow> u32 \<Rightarrow> u32 \<Rightarrow> app_t \<Rightarrow>
   (app_t \<times> u32 option) outcome option" where
  "handler_user_ecall dev splits cmds m counters syscall_id ptr len app =
     (if syscall_id = TEE_EC_INFER
      then map_option (\<lambda>app. Returns (app, None)) (ecall_infer dev splits cmds m ptr len app)
      else if syscall_id = TEE_EC_UART_PUTCHAR
      then map_option (\<lambda>h. Returns (set_hist h app, None)) (uart_putchar dev (app_uart app) (ucast ptr) (app_hist app))
      else if syscall_id = TEE_EC_UART_GETCHAR
      then map_option (\<lambda>(_, c, h). Returns (set_hist h app, Some (ucast c))) (uart_getchar dev (app_uart app) (app_hist app))
      else if syscall_id = TEE_EC_RDCOUNTERS
      then map_option (\<lambda>app. Returns (app, None))
             (deliver dev splits (map (\<lambda>v. EvPrint (fmt_hex v @ [CHR 0x0A, CHR 0x0D])) counters) app)
      else map_option (\<lambda>app. Spins (app, None))
             (app_print dev splits (''[M] Unknown syscall ID: '' @ fmt_dec syscall_id @ [CHR 0x0A]) app))"

text \<open>The four counter registers, low and high halves of cycles and of instructions, are the argument \<open>counters\<close>.\<close>

subsection \<open>Exceptions\<close>

datatype exc_id = kInstMisa | kInstAccFault | kInstIllegalFault | kBkpt | kLoadAccFault | kStrAccFault | uECall | kECall

definition kIdMax :: u32 where "kIdMax = 31"

definition exc_id_of :: "u32 \<Rightarrow> exc_id option" where
  "exc_id_of c =
     (if c = 0 then Some kInstMisa else if c = 1 then Some kInstAccFault else if c = 2 then Some kInstIllegalFault
      else if c = 3 then Some kBkpt else if c = 5 then Some kLoadAccFault else if c = 7 then Some kStrAccFault
      else if c = 8 then Some uECall else if c = 11 then Some kECall else None)"

definition RESTART :: u32 where "RESTART = 0x180"

definition reboot :: "device \<Rightarrow> (string \<Rightarrow> nat list) \<Rightarrow> u32 \<Rightarrow> string \<Rightarrow> app_t \<Rightarrow> app_t outcome option" where
  "reboot dev splits mtval msg app =
     map_option (Jumps RESTART)
       (deliver dev splits [EvPrint (crlf @ msg), EvPrint (''MTVAL value is 0x'' @ fmt_hex8 mtval @ crlf),
          EvPrint (''Rebooting...'' @ crlf)] app)"

definition handler_instr_acc_fault :: "device \<Rightarrow> (string \<Rightarrow> nat list) \<Rightarrow> u32 \<Rightarrow> app_t \<Rightarrow> app_t outcome option" where
  "handler_instr_acc_fault dev splits mtval =
     reboot dev splits mtval (''Instruction access fault, mtval shows fault address'' @ crlf)"

definition handler_instr_ill_fault :: "device \<Rightarrow> (string \<Rightarrow> nat list) \<Rightarrow> u32 \<Rightarrow> u32 \<Rightarrow> app_t \<Rightarrow> app_t outcome option" where
  "handler_instr_ill_fault dev splits mepc mtval app =
     do { app \<leftarrow> app_print dev splits (crlf @ ''MEPC is 0x'' @ fmt_hex8 mepc @ crlf) app;
          reboot dev splits mtval (''Illegal Instruction fault, mtval shows instruction content'' @ crlf) app }"

definition handler_bkpt :: "device \<Rightarrow> (string \<Rightarrow> nat list) \<Rightarrow> u32 \<Rightarrow> app_t \<Rightarrow> app_t outcome option" where
  "handler_bkpt dev splits mtval =
     reboot dev splits mtval (''Breakpoint triggered, mtval shows the breakpoint address'' @ crlf)"

definition handler_lsu_fault :: "device \<Rightarrow> (string \<Rightarrow> nat list) \<Rightarrow> u32 \<Rightarrow> app_t \<Rightarrow> app_t outcome option" where
  "handler_lsu_fault dev splits mtval =
     reboot dev splits mtval (''Load/Store fault, mtval shows the fault address'' @ crlf)"

definition handler_ecall :: "device \<Rightarrow> (string \<Rightarrow> nat list) \<Rightarrow> app_t \<Rightarrow> app_t outcome option" where
  "handler_ecall dev splits app =
     map_option Spins (app_print dev splits (''Environment call encountered'' @ [CHR 0x0A]) app)"

subsection \<open>Default handlers\<close>

text \<open>The weak handlers of the runtime, for programs that do not define their own: each prints a message and spins.\<close>

datatype irq =
    Irq_software | Irq_timer | Irq_external | Irq_fast_timer nat | Irq_fast_dma | Irq_fast_spi | Irq_fast_spi_flash
  | Irq_fast_gpio nat

fun irq_message :: "irq \<Rightarrow> string" where
  "irq_message Irq_software = ''Software IRQ triggered!''"
| "irq_message Irq_timer = ''Timer IRQ triggered!''"
| "irq_message Irq_external = ''External IRQ triggered!''"
| "irq_message (Irq_fast_timer n) = ''Fast timer '' @ fmt_u 10 n @ '' IRQ triggered!''"
| "irq_message Irq_fast_dma = ''Fast dma IRQ triggered!''"
| "irq_message Irq_fast_spi = ''Fast spi IRQ triggered!''"
| "irq_message Irq_fast_spi_flash = ''Fast spi flash IRQ triggered!''"
| "irq_message (Irq_fast_gpio n) = ''Fast gpio '' @ fmt_u 10 n @ '' IRQ triggered!''"

definition handler_irq :: "device \<Rightarrow> (string \<Rightarrow> nat list) \<Rightarrow> irq \<Rightarrow> app_t \<Rightarrow> app_t outcome option" where
  "handler_irq dev splits i app = map_option Spins (app_print dev splits (irq_message i @ [CHR 0x0A]) app)"

definition print_exc_msg :: "device \<Rightarrow> (string \<Rightarrow> nat list) \<Rightarrow> u32 \<Rightarrow> string \<Rightarrow> app_t \<Rightarrow> app_t outcome option" where
  "print_exc_msg dev splits mtval msg app =
     map_option Spins
       (deliver dev splits [EvPrint msg, EvPrint (''MTVAL value is 0x'' @ fmt_hex mtval @ [CHR 0x0A])] app)"

definition weak_instr_acc_fault :: "device \<Rightarrow> (string \<Rightarrow> nat list) \<Rightarrow> u32 \<Rightarrow> app_t \<Rightarrow> app_t outcome option" where
  "weak_instr_acc_fault dev splits mtval =
     print_exc_msg dev splits mtval (''Instruction access fault, mtval shows fault address'' @ [CHR 0x0A])"

definition weak_instr_ill_fault :: "device \<Rightarrow> (string \<Rightarrow> nat list) \<Rightarrow> u32 \<Rightarrow> app_t \<Rightarrow> app_t outcome option" where
  "weak_instr_ill_fault dev splits mtval =
     print_exc_msg dev splits mtval (''Illegal Instruction fault, mtval shows instruction content'' @ [CHR 0x0A])"

definition weak_bkpt :: "device \<Rightarrow> (string \<Rightarrow> nat list) \<Rightarrow> u32 \<Rightarrow> app_t \<Rightarrow> app_t outcome option" where
  "weak_bkpt dev splits mtval =
     print_exc_msg dev splits mtval (''Breakpoint triggerd, mtval shows the breakpoint address'' @ [CHR 0x0A])"

definition weak_lsu_fault :: "device \<Rightarrow> (string \<Rightarrow> nat list) \<Rightarrow> u32 \<Rightarrow> app_t \<Rightarrow> app_t outcome option" where
  "weak_lsu_fault dev splits mtval =
     print_exc_msg dev splits mtval (''Load/Store fault, mtval shows the fault address'' @ [CHR 0x0A])"

subsection \<open>Dispatch of exceptions\<close>

record machine =
  m_hart :: hart
  m_app :: app_t

text \<open>The call runs between saving and restoring the frame and returns to the instruction after the trap,
  in user mode; the value of \<^verbatim>\<open>a0\<close> is set by the call itself. What compiled code leaves in
  the other registers that the calling convention does not preserve is not modelled.\<close>

definition return_from_call :: "u32 option \<Rightarrow> hart \<Rightarrow> hart" where
  "return_from_call r h =
     exec [MRET] (exec trap_restore (advance_mepc (case r of None \<Rightarrow> h | Some v \<Rightarrow> wr A0 v h)))"

definition user_call ::
  "device \<Rightarrow> (string \<Rightarrow> nat list) \<Rightarrow> scpi_command_t list \<Rightarrow> u32 list \<Rightarrow> machine \<Rightarrow> machine outcome option" where
  "user_call dev splits cmds counters s =
     (let h = exec trap_save (m_hart s)
      in map_option
           (\<lambda>out. case out of
               Returns (a, r) \<Rightarrow> Returns \<lparr>m_hart = return_from_call r h, m_app = a\<rparr>
             | Jumps p (a, r) \<Rightarrow> Jumps p \<lparr>m_hart = h, m_app = a\<rparr>
             | Spins (a, r) \<Rightarrow> Spins \<lparr>m_hart = h, m_app = a\<rparr>)
           (handler_user_ecall dev splits cmds (hmem h) counters (rd (m_hart s) A7) (rd (m_hart s) A0) (rd (m_hart s) A1) (m_app s)))"

definition with_hart :: "hart \<Rightarrow> app_t outcome option \<Rightarrow> machine outcome option" where
  "with_hart h r =
     map_option (\<lambda>out. case out of Returns a \<Rightarrow> Returns \<lparr>m_hart = h, m_app = a\<rparr>
                     | Jumps p a \<Rightarrow> Jumps p \<lparr>m_hart = h, m_app = a\<rparr> | Spins a \<Rightarrow> Spins \<lparr>m_hart = h, m_app = a\<rparr>) r"

definition handler_exception ::
  "device \<Rightarrow> (string \<Rightarrow> nat list) \<Rightarrow> scpi_command_t list \<Rightarrow> u32 list \<Rightarrow> machine \<Rightarrow> machine outcome option" where
  "handler_exception dev splits cmds counters s =
     (let mtval = csrs (m_hart s) MTVAL; mepc = csrs (m_hart s) MEPC
      in case exc_id_of (csrs (m_hart s) MCAUSE AND kIdMax) of
           Some kInstMisa \<Rightarrow> with_hart (m_hart s) (handler_instr_acc_fault dev splits mtval (m_app s))
         | Some kInstAccFault \<Rightarrow> with_hart (m_hart s) (handler_instr_acc_fault dev splits mtval (m_app s))
         | Some kInstIllegalFault \<Rightarrow> with_hart (m_hart s) (handler_instr_ill_fault dev splits mepc mtval (m_app s))
         | Some kBkpt \<Rightarrow> with_hart (m_hart s) (handler_bkpt dev splits mtval (m_app s))
         | Some kLoadAccFault \<Rightarrow> with_hart (m_hart s) (handler_lsu_fault dev splits mtval (m_app s))
         | Some kStrAccFault \<Rightarrow> with_hart (m_hart s) (handler_lsu_fault dev splits mtval (m_app s))
         | Some kECall \<Rightarrow> with_hart (m_hart s) (handler_ecall dev splits (m_app s))
         | Some uECall \<Rightarrow> user_call dev splits cmds counters s
         | None \<Rightarrow> Some (Spins s))"

subsection \<open>The buffer check\<close>

text \<open>C38: The check accepts a buffer exactly when it lies inside the user region, or when its end, computed in
  32 bits, wraps around and comes to lie at or below the top of that region: so a buffer that
  does not wrap is accepted only inside the region, and some that wrap are accepted although they are outside it.\<close>

theorem buffer_check:
  "\<not> buffer_rejected ptr len \<longleftrightarrow>
     unat ram2_lo \<le> unat ptr \<and>
     (unat ptr + unat len \<le> unat ram2_hi \<or>
      2 ^ 32 \<le> unat ptr + unat len \<and> unat ptr + unat len \<le> 2 ^ 32 + unat ram2_hi)"
proof -
  have lt: "unat ptr < 2 ^ 32" "unat len < 2 ^ 32" using unsigned_less [of ptr] unsigned_less [of len] by simp_all
  have s: "unat (ptr + len) = (if unat ptr + unat len < 2 ^ 32 then unat ptr + unat len else unat ptr + unat len - 2 ^ 32)"
  proof (cases "unat ptr + unat len < 2 ^ 32")
    case True
    then show ?thesis by (simp add: unat_word_ariths)
  next
    case False
    then have "(unat ptr + unat len) mod 2 ^ 32 = unat ptr + unat len - 2 ^ 32"
      using lt by (subst le_mod_geq) auto
    then show ?thesis using False by (simp add: unat_word_ariths)
  qed
  have hi: "unat ram2_hi = 0x80000" "unat ram2_lo = 0x78000" by (simp_all add: ram2_hi_def ram2_lo_def)
  show ?thesis
    unfolding buffer_rejected_def word_less_nat_alt s hi using lt by auto
qed

subsection \<open>Commands\<close>

lemma app_input_keeps:
  assumes "platform_ok dev splits" "app_inv app" "cmds = app_commands infer img junk stale"
  obtains res c where "SCPI_Input cmds ((scpi app)\<lparr>events := []\<rparr>) data = Some (res, c)"
    "case app_input dev splits cmds data app of None \<Rightarrow> EvUser ARRAY_OVERRUN \<in> set (events c)
     | Some app' \<Rightarrow> delivers (events c) (app\<lparr>scpi := c\<rparr>) app' \<and> app_inv app'"
  using app_input_steps [OF assms(1,2), of infer img junk stale data] assms(3) by blast

lemma print_returns:
  assumes "platform_ok dev splits" "app_inv app" "s \<noteq> []" "last s = CHR 0x0A"
  shows "\<exists>app'. app_print dev splits s app = Some app' \<and> delivers [EvPrint s] app app' \<and> app_inv app'"
proof -
  have c: "console_of app" "pending app = []" using assms(2) by (simp_all add: app_inv_def)
  obtain app' where p: "app_print dev splits s app = Some app'"
    using deliver_returns [OF _ _ c(1), of dev "[EvPrint s]" splits] assms(1) by (auto simp: platform_ok_def split: bind_splits)
  have "delivers [EvPrint s] app app'"
    using print_delivers [OF p _ _ assms(3,4) c(2)] assms(1) by (simp add: platform_ok_def)
  then show ?thesis using p assms(2) by (auto simp: delivers_def app_inv_def console_of_def)
qed

text \<open>C31: A command of positive length in an accepted buffer is always handled: the parser gets exactly the bytes
  of the buffer and then a line end; and unless the example overran its array, the call returns, and what
  has been sent on the UART since is the length, and then, in order, what the commands answered and the errors
  reported for both inputs.\<close>

theorem infer_call_output:
  assumes "platform_ok dev splits" "app_inv app" "cmds = app_commands infer img junk stale"
    and "\<not> buffer_rejected ptr len" "0 < sint len"
  shows "\<exists>r1 c1 r2 c2. SCPI_Input cmds ((scpi app)\<lparr>events := []\<rparr>) (user_input m ptr len) = Some (r1, c1) \<and>
    (EvUser ARRAY_OVERRUN \<in> set (events c1) \<or>
     SCPI_Input cmds (c1\<lparr>events := []\<rparr>) crlf = Some (r2, c2) \<and>
     (EvUser ARRAY_OVERRUN \<in> set (events c2) \<or>
      (\<exists>app'. ecall_infer dev splits cmds m ptr len app = Some app' \<and> app_inv app' \<and> scpi app' = c2 \<and>
         sent_by app' = sent_by app @ bytes_of (''Len = '' @ fmt_dec len @ crlf @
           concat (map shown (events c1)) @ concat (map shown (events c2))))))"
proof -
  let ?s = "''Len = '' @ fmt_dec len @ crlf"
  obtain a0 where p: "app_print dev splits ?s app = Some a0" "delivers [EvPrint ?s] app a0" "app_inv a0"
    using print_returns [OF assms(1,2), of ?s] by (auto simp: crlf_def)
  have s0: "scpi a0 = scpi app" using p(2) by (simp add: delivers_def)
  obtain r1 c1 where i1: "SCPI_Input cmds ((scpi app)\<lparr>events := []\<rparr>) (user_input m ptr len) = Some (r1, c1)"
    and d1: "case app_input dev splits cmds (user_input m ptr len) a0 of None \<Rightarrow> EvUser ARRAY_OVERRUN \<in> set (events c1)
       | Some a1 \<Rightarrow> delivers (events c1) (a0\<lparr>scpi := c1\<rparr>) a1 \<and> app_inv a1"
    using app_input_keeps [OF assms(1) p(3) assms(3), of "user_input m ptr len"] s0 by metis
  have len: "len \<noteq> 0" "\<not> sint len < 0" using assms(5) by auto
  show ?thesis
  proof (cases "EvUser ARRAY_OVERRUN \<in> set (events c1)")
    case True
    then show ?thesis using i1 by blast
  next
    case False
    then obtain a1 where a1: "app_input dev splits cmds (user_input m ptr len) a0 = Some a1"
      "delivers (events c1) (a0\<lparr>scpi := c1\<rparr>) a1" "app_inv a1" using d1 by (auto split: option.splits)
    have s1: "scpi a1 = c1" using a1(2) by (simp add: delivers_def)
    obtain r2 c2 where i2: "SCPI_Input cmds (c1\<lparr>events := []\<rparr>) crlf = Some (r2, c2)"
      and d2: "case app_input dev splits cmds crlf a1 of None \<Rightarrow> EvUser ARRAY_OVERRUN \<in> set (events c2)
         | Some a2 \<Rightarrow> delivers (events c2) (a1\<lparr>scpi := c2\<rparr>) a2 \<and> app_inv a2"
      using app_input_keeps [OF assms(1) a1(3) assms(3), of crlf] s1 by metis
    show ?thesis
    proof (cases "EvUser ARRAY_OVERRUN \<in> set (events c2)")
      case True
      then show ?thesis using i1 i2 by blast
    next
      case ok: False
      then obtain a2 where a2: "app_input dev splits cmds crlf a1 = Some a2" "delivers (events c2) (a1\<lparr>scpi := c2\<rparr>) a2"
        "app_inv a2" using d2 by (auto split: option.splits)
      have set_scpi: "sent_by (b\<lparr>scpi := c\<rparr>) = sent_by b" for b c by (simp add: sent_by_def app_hist_def)
      have "ecall_infer dev splits cmds m ptr len app = Some a2"
        using assms(4) len p(1) a1(1) a2(1) by (simp add: ecall_infer_def)
      moreover have "sent_by a2 = sent_by app @ bytes_of (?s @ concat (map shown (events c1)) @ concat (map shown (events c2)))"
        using p(2) a1(2) a2(2) by (simp add: delivers_def set_scpi del: bytes_of_append) (simp add: bytes_of_def)
      moreover have "scpi a2 = c2" using a2(2) by (simp add: delivers_def)
      ultimately show ?thesis using i1 i2 a2(3) by auto
    qed
  qed
qed

text \<open>The application as \<^verbatim>\<open>main\<close> sets it up: only the write and error callbacks, the identification of the
  instrument, buffers of 2048 bytes, a queue of 17 errors.\<close>

definition app_interface :: scpi_interface_t where
  "app_interface = \<lparr>has_error = True, has_control = False, has_flush = False, has_reset = False\<rparr>"

definition scpi_initial :: scpi_t where
  "scpi_initial = SCPI_Init app_interface [Some ''MANUFACTURE'', Some ''INSTR2013'', None, Some ''01-02'']
     (replicate 2048 NUL) (replicate 17 \<lparr>error_code = 0\<rparr>) 17"

lemma scpi_initial_inv: "ctx_inv scpi_initial"
  unfolding scpi_initial_def
  using SCPI_Init_inv [of "replicate 2048 NUL" "replicate 17 \<lparr>error_code = 0\<rparr>"] by simp

definition demo_app :: app_t where
  "demo_app = \<lparr>scpi = scpi_initial, app_uart = console 20000000, sys = \<lparr>sys_errno = 0, sys_brk = 0, sys_hist = []\<rparr>,
     pending = [], exit_scpi = False\<rparr>"

lemma demo_platform_ok: "platform_ok ready_platform (\<lambda>s. [length s])"
proof -
  have "SOC_CTRL_START_ADDRESS + SOC_CTRL_SYSTEM_FREQUENCY_HZ_REG_OFFSET = SOC_CTRL_START_ADDRESS + 0x1c" by (simp add: reg_defs)
  then have "dev32 ready_platform h (SOC_CTRL_START_ADDRESS + SOC_CTRL_SYSTEM_FREQUENCY_HZ_REG_OFFSET) = 20000000" for h
    by (simp add: ready_platform_def)
  then have "usable_clock ready_platform" by (simp add: usable_clock_def console_init_ok)
  then show ?thesis by (simp add: platform_ok_def line_buffered_def ready_platform_responsive)
qed

lemma demo_app_inv: "app_inv demo_app"
  by (simp add: app_inv_def demo_app_def scpi_initial_inv console_of_def console_def)

lemma infer_call_output_witness:
  "\<exists>r1 c1. SCPI_Input (app_commands (\<lambda>_. (0, [])) [] [] []) ((scpi demo_app)\<lparr>events := []\<rparr>) [CHR ''E''] = Some (r1, c1)"
proof -
  have "\<not> buffer_rejected 0x78000 1" "0 < sint (1 :: u32)" by (simp_all add: buffer_rejected_def ram2_lo_def ram2_hi_def)
  note w = infer_call_output [OF demo_platform_ok demo_app_inv refl this, of "\<lambda>_. (0, [])" "[]" "[]" "[]" "\<lambda>_. 69"]
  have "user_input (\<lambda>_. 69) 0x78000 1 = [CHR ''E'']"
  proof -
    have "(char_of (69 :: nat) :: char) = CHR ''E''" by code_simp
    then show ?thesis by (simp add: user_input_def bytes_at_def)
  qed
  then show ?thesis using w by auto
qed

subsection \<open>Dispatch\<close>

lemma user_ecall_returns:
  assumes "handler_user_ecall dev splits cmds m counters syscall_id ptr len app = Some (Returns x)"
  shows "syscall_id \<in> {TEE_EC_INFER, TEE_EC_UART_PUTCHAR, TEE_EC_UART_GETCHAR, TEE_EC_RDCOUNTERS}"
  using assms by (auto simp: handler_user_ecall_def split: if_splits)

lemma user_ecall_no_jump: "handler_user_ecall dev splits cmds m counters syscall_id ptr len app \<noteq> Some (Jumps p x)"
  by (auto simp: handler_user_ecall_def)

lemma exception_Returns:
  assumes "handler_exception dev splits cmds counters s = Some (Returns s')"
  shows "user_call dev splits cmds counters s = Some (Returns s')"
  using assms
  by (auto simp: handler_exception_def Let_def with_hart_def reboot_def handler_instr_acc_fault_def handler_bkpt_def
      handler_lsu_fault_def handler_instr_ill_fault_def handler_ecall_def
      split: option.splits exc_id.splits bind_splits)

lemma user_call_outcome:
  assumes call: "user_call dev splits cmds counters s = Some out"
  shows "case out of
      Returns s' \<Rightarrow> rd (m_hart s) A7 \<in> {TEE_EC_INFER, TEE_EC_UART_PUTCHAR, TEE_EC_UART_GETCHAR, TEE_EC_RDCOUNTERS}
    | Jumps _ _ \<Rightarrow> False | Spins _ \<Rightarrow> True"
proof -
  define h where "h = exec trap_save (m_hart s)"
  obtain r where r: "handler_user_ecall dev splits cmds (hmem h) counters (rd (m_hart s) A7) (rd (m_hart s) A0)
      (rd (m_hart s) A1) (m_app s) = Some r"
    using call by (auto simp: user_call_def Let_def h_def)
  have out: "out = (case r of Returns (a, r) \<Rightarrow> Returns \<lparr>m_hart = return_from_call r h, m_app = a\<rparr>
      | Jumps p (a, r) \<Rightarrow> Jumps p \<lparr>m_hart = h, m_app = a\<rparr> | Spins (a, r) \<Rightarrow> Spins \<lparr>m_hart = h, m_app = a\<rparr>)"
    using call r unfolding user_call_def Let_def h_def by simp
  show ?thesis
  proof (cases r)
    case (Returns x)
    from user_ecall_returns [OF r [unfolded this]] show ?thesis using out Returns by (simp split: prod.splits)
  next
    case (Jumps p x)
    then show ?thesis using r user_ecall_no_jump by blast
  next
    case (Spins x)
    then show ?thesis using out by (simp split: prod.splits)
  qed
qed



end
