(* ===== verification/Machine.thy ===== *)
theory Machine
  imports Tee
begin

text \<open>
  The whole machine: a user program that runs arbitrary code in user mode within what the memory
  protection lets it reach, and traps into the handlers. The first part says what one system call does to the
  hart; the second defines the steps of the machine and shows by rule induction what holds in every
  reachable state. The application's own data (the parser's context, the UART settings) are not part of
  the byte memory of the model.
\<close>

subsection \<open>One system call\<close>

lemma advance_mepc_simps [simp]:
  "hmem (advance_mepc h) = hmem h" "priv (advance_mepc h) = priv h" "rd (advance_mepc h) r = rd h r"
  "csrs (advance_mepc h) c = (if c = MEPC then csrs h MEPC + (if load16 (hmem h) (csrs h MEPC) AND 3 = 3 then 4 else 2) else csrs h c)"
  by (simp_all add: advance_mepc_def Let_def rd_def)

lemma return_from_call_simps:
  fixes h :: hart and r :: "u32 option"
  defines "h' \<equiv> return_from_call r (exec trap_save h)"
  shows "q \<in> {Sp, Ra, Gp, Tp, S0, S1, S2, S3, S4, S5, S6, S7, S8, S9, S10, S11} \<Longrightarrow> rd h' q = rd h q"
    and "hmem h' = hmem (exec trap_save h)" "priv h' = mpp (csrs h MSTATUS)"
    and "csrs h' c = (if c = MEPC then csrs h MEPC + (if load16 (hmem (exec trap_save h)) (csrs h MEPC) AND 3 = 3 then 4 else 2) else csrs h c)"
    and "pc h' = csrs h' MEPC" "r = Some v \<Longrightarrow> rd h' A0 = v"
proof -
  define h1 where "h1 = exec trap_save h"
  define h2 where "h2 = advance_mepc (case r of None \<Rightarrow> h1 | Some v \<Rightarrow> wr A0 v h1)"
  have h': "h' = exec1 MRET (exec trap_restore h2)" unfolding h'_def return_from_call_def h2_def h1_def by simp
  have m: "hmem h2 = hmem h1" by (auto simp: h2_def split: option.split)
  have sp: "rd h2 Sp = rd h1 Sp" by (auto simp: h2_def split: option.split)
  have c: "csrs h2 c = (if c = MEPC then csrs h MEPC + (if load16 (hmem h1) (csrs h MEPC) AND 3 = 3 then 4 else 2) else csrs h c)" for c
    by (auto simp: h2_def h1_def trap_save_keeps split: option.split)
  show "q \<in> {Sp, Ra, Gp, Tp, S0, S1, S2, S3, S4, S5, S6, S7, S8, S9, S10, S11} \<Longrightarrow> rd h' q = rd h q"
  proof -
    assume q: "q \<in> {Sp, Ra, Gp, Tp, S0, S1, S2, S3, S4, S5, S6, S7, S8, S9, S10, S11}"
    have "rd h' q = rd (exec trap_restore h2) q" by (simp add: h' rd_def)
    also have "\<dots> = rd h q" using frame_restored [OF _ _ q, of h2 h] sp m h1_def by simp
    finally show ?thesis .
  qed
  show "hmem h' = hmem (exec trap_save h)" by (simp add: h' trap_restore_keeps m h1_def)
  show "priv h' = mpp (csrs h MSTATUS)" by (simp add: h' trap_restore_keeps c)
  show "csrs h' c = (if c = MEPC then csrs h MEPC + (if load16 (hmem (exec trap_save h)) (csrs h MEPC) AND 3 = 3 then 4 else 2) else csrs h c)"
    by (simp add: h' trap_restore_keeps c h1_def)
  show "pc h' = csrs h' MEPC" by (simp add: h' trap_restore_keeps)
  show "rd h' A0 = v" if "r = Some v"
  proof -
    have "rd h' A0 = rd (exec trap_restore h2) A0" by (simp add: h' rd_def)
    then show ?thesis using that by (simp add: trap_restore_keeps h2_def)
  qed
qed

lemma user_call_ReturnsD:
  assumes "user_call dev splits cmds counters s = Some (Returns s')"
  shows "\<exists>a r. handler_user_ecall dev splits cmds (hmem (exec trap_save (m_hart s))) counters (rd (m_hart s) A7)
      (rd (m_hart s) A0) (rd (m_hart s) A1) (m_app s) = Some (Returns (a, r)) \<and>
    s' = \<lparr>m_hart = return_from_call r (exec trap_save (m_hart s)), m_app = a\<rparr>"
proof -
  obtain z where z: "handler_user_ecall dev splits cmds (hmem (exec trap_save (m_hart s))) counters (rd (m_hart s) A7)
      (rd (m_hart s) A0) (rd (m_hart s) A1) (m_app s) = Some z"
    using assms by (auto simp: user_call_def Let_def)
  then show ?thesis using assms by (cases z) (auto simp: user_call_def Let_def split: prod.splits)
qed



subsection \<open>The running machine\<close>

text \<open>Taking a trap from user mode: the hardware records the cause and the place, remembers the
  mode in \<^verbatim>\<open>mstatus\<close> and enters machine mode.\<close>

definition trap_entry :: "u32 \<Rightarrow> u32 \<Rightarrow> hart \<Rightarrow> hart" where
  "trap_entry cause tval h =
     h\<lparr>csrs := (csrs h)(MCAUSE := cause, MTVAL := tval, MEPC := pc h, MSTATUS := csrs h MSTATUS AND NOT (push_bit 11 (mask 2))),
       priv := M_mode\<rparr>"

text \<open>The frame of a trap lies in the user region.\<close>

definition frame_in_region :: "hart \<Rightarrow> bool" where
  "frame_in_region h \<longleftrightarrow> unat ram2_lo + 60 \<le> unat (rd h Sp) \<and> unat (rd h Sp) \<le> unat ram2_hi"

inductive machine_step ::
  "device \<Rightarrow> (string \<Rightarrow> nat list) \<Rightarrow> scpi_command_t list \<Rightarrow> machine \<Rightarrow> machine \<Rightarrow> bool" for dev splits cmds where
  user: "priv (m_hart s) = U_mode \<Longrightarrow> priv h' = U_mode \<Longrightarrow> csrs h' = csrs (m_hart s) \<Longrightarrow>
     (\<And>a. \<not> pmp_user_access (csrs (m_hart s)) a \<Longrightarrow> hmem h' a = hmem (m_hart s) a) \<Longrightarrow>
     machine_step dev splits cmds s (s\<lparr>m_hart := h'\<rparr>)"
| trap: "priv (m_hart s) = U_mode \<Longrightarrow> frame_in_region (m_hart s) \<Longrightarrow>
     handler_exception dev splits cmds counters (s\<lparr>m_hart := trap_entry cause tval (m_hart s)\<rparr>) = Some (Returns s') \<Longrightarrow>
     machine_step dev splits cmds s s'"

inductive_cases machine_stepE: "machine_step dev splits cmds s s'"

inductive machine_run ::
  "device \<Rightarrow> (string \<Rightarrow> nat list) \<Rightarrow> scpi_command_t list \<Rightarrow> machine \<Rightarrow> machine \<Rightarrow> bool" for dev splits cmds where
  start: "machine_run dev splits cmds s s"
| step: "machine_run dev splits cmds s s1 \<Longrightarrow> machine_step dev splits cmds s1 s2 \<Longrightarrow> machine_run dev splits cmds s s2"

text \<open>What holds between the steps: the hart is in user mode, with the protection set up; the parser's
  buffers and status are consistent and the UART is the console.\<close>

definition protected :: "(csr \<Rightarrow> u32) \<Rightarrow> bool" where
  "protected c \<longleftrightarrow> c PMPCFG0 = 0xf00 \<and> c PMPADDR0 = 0x1e000 \<and> c PMPADDR1 = 0x20000"

definition app_wf :: "app_t \<Rightarrow> bool" where
  "app_wf a \<longleftrightarrow> ctx_inv (scpi a) \<and> console_of a"

definition machine_inv :: "machine \<Rightarrow> bool" where
  "machine_inv s \<longleftrightarrow> priv (m_hart s) = U_mode \<and> protected (csrs (m_hart s)) \<and> app_wf (m_app s)"

lemma protected_access: "protected c \<Longrightarrow> pmp_user_access c a \<longleftrightarrow> ram2_lo \<le> a \<and> a < ram2_hi"
proof -
  assume "protected c"
  then have "pmp_user_access c a = pmp_user_access (csrs (exec pmp_setup demo_hart)) a"
    by (simp add: pmp_user_access_def protected_def pmp_setup_csrs)
  then show ?thesis using pmp_access by blast
qed

subsection \<open>The application through a call\<close>

lemma app_print_keeps: "app_print dev splits s a = Some a' \<Longrightarrow> scpi a' = scpi a \<and> app_uart a' = app_uart a"
  by (auto simp: app_print_def split: bind_splits)

lemma deliver_keeps: "deliver dev splits evs a = Some a' \<Longrightarrow> scpi a' = scpi a \<and> app_uart a' = app_uart a"
proof (induction evs arbitrary: a)
  case (Cons e evs)
  then obtain a1 where 1: "deliver_one dev splits e a = Some a1" "deliver dev splits evs a1 = Some a'" by (auto split: bind_splits)
  have "scpi a1 = scpi a \<and> app_uart a1 = app_uart a"
    using 1(1) app_print_keeps by (cases e) (auto simp: scrivi_def SCPI_Error_def split: bind_splits if_splits)
  then show ?case using Cons.IH 1(2) by simp
qed simp

lemma app_input_wf:
  assumes "app_wf a" "app_input dev splits (app_commands infer img junk stale) data a = Some a'"
  shows "app_wf a'"
proof -
  have "keeps (scpi a) ((scpi a)\<lparr>events := []\<rparr>)" by (rule keepsI) simp_all
  then have "ctx_inv ((scpi a)\<lparr>events := []\<rparr>)" using assms(1) by (simp add: app_wf_def keeps_def)
  then obtain res c where i: "SCPI_Input (app_commands infer img junk stale) ((scpi a)\<lparr>events := []\<rparr>) data = Some (res, c)" "ctx_inv c"
    using app.SCPI_Input_returns by blast
  have "deliver dev splits (events c) (a\<lparr>scpi := c\<rparr>) = Some a'" using assms(2) i(1) by (simp add: app_input_def)
  from deliver_keeps [OF this] show ?thesis using assms(1) i(2) by (simp add: app_wf_def console_of_def)
qed

lemma app_print_wf: "app_wf a \<Longrightarrow> app_print dev splits s a = Some a' \<Longrightarrow> app_wf a'"
  using app_print_keeps [of dev splits s a a'] by (simp add: app_wf_def console_of_def)

lemma user_ecall_wf:
  assumes "app_wf a" "handler_user_ecall dev splits (app_commands infer img junk stale) m counters i ptr l a = Some (Returns (a', r))"
  shows "app_wf a'"
proof -
  let ?cmds = "app_commands infer img junk stale"
  have inf: "app_wf a'" if call: "ecall_infer dev splits ?cmds m ptr l a = Some a'"
  proof -
    show ?thesis
    proof (cases "buffer_rejected ptr l")
      case True
      then show ?thesis using call app_print_wf [OF assms(1)] by (auto simp: ecall_infer_def)
    next
      case False
      obtain a1 where p: "app_print dev splits (''Len = '' @ fmt_dec l @ crlf) a = Some a1"
        using call False by (cases "app_print dev splits (''Len = '' @ fmt_dec l @ crlf) a") (auto simp: ecall_infer_def)
      then have a1: "app_wf a1" "(if l = 0 then Some a1 else if sint l < 0 then None
          else do { a \<leftarrow> app_input dev splits ?cmds (user_input m ptr l) a1; app_input dev splits ?cmds crlf a }) = Some a'"
        using call False app_print_wf [OF assms(1)] by (simp_all add: ecall_infer_def)
      show ?thesis
      proof (cases "l = 0 \<or> sint l < 0")
        case True
        then show ?thesis using a1 by (auto split: if_splits)
      next
        case False
        then obtain a2 where "app_input dev splits ?cmds (user_input m ptr l) a1 = Some a2" "app_input dev splits ?cmds crlf a2 = Some a'"
          using a1(2) by (auto split: bind_splits)
        then show ?thesis using app_input_wf a1(1) by blast
      qed
    qed
  qed
  have h: "app_wf (set_hist h a)" for h using assms(1) by (simp add: app_wf_def)
  have d: "app_wf b" if "deliver dev splits evs a = Some b" for evs b
    using deliver_keeps [OF that] assms(1) by (simp add: app_wf_def console_of_def)
  show ?thesis
    using assms(2) inf h d unfolding handler_user_ecall_def by (auto split: if_splits)
qed

lemma mpp_of_trap: "mpp (csrs (trap_entry cause tval h) MSTATUS) = U_mode"
proof -
  have "take_bit 2 (drop_bit 11 (x AND NOT (push_bit 11 (mask 2)))) = 0" for x :: u32
    by (rule bit_word_eqI) (auto simp: bit_take_bit_iff bit_drop_bit_eq bit_and_iff bit_not_iff bit_push_bit_iff bit_mask_iff)
  then show ?thesis by (simp add: mpp_def trap_entry_def)
qed

subsection \<open>Reachable states\<close>

lemma in_region:
  assumes "frame_in_region h" "\<not> (ram2_lo \<le> b \<and> b < ram2_hi)"
  shows "unat (b - (rd h Sp - 60)) \<ge> 60"
proof (rule ccontr)
  assume "\<not> 60 \<le> unat (b - (rd h Sp - 60))"
  then have k: "unat (b - (rd h Sp - 60)) < 60" by simp
  have hi: "unat ram2_hi = 0x80000" "unat ram2_lo = 0x78000" by (simp_all add: ram2_hi_def ram2_lo_def)
  have sp: "0x78000 + 60 \<le> unat (rd h Sp)" "unat (rd h Sp) \<le> 0x80000" using assms(1) by (simp_all add: frame_in_region_def hi)
  have "(60 :: u32) \<le> rd h Sp" using sp by (simp add: word_le_nat_alt)
  then have p: "unat (rd h Sp - 60) = unat (rd h Sp) - 60" by (simp add: unat_sub)
  have "unat ((b - (rd h Sp - 60)) + (rd h Sp - 60)) = (unat (b - (rd h Sp - 60)) + unat (rd h Sp - 60)) mod 2 ^ 32"
    by (subst unat_word_ariths(1)) simp
  then have "unat b = (unat (b - (rd h Sp - 60)) + (unat (rd h Sp) - 60)) mod 2 ^ 32" by (simp only: diff_add_cancel p)
  then have "unat b = unat (b - (rd h Sp - 60)) + (unat (rd h Sp) - 60)" using k sp by simp
  then show False using assms(2) k sp hi by (auto simp: word_le_nat_alt word_less_nat_alt)
qed

lemma machine_step_inv:
  assumes "machine_inv s" "machine_step dev splits (app_commands infer img junk stale) s s'"
  shows "machine_inv s' \<and> (\<forall>a. \<not> (ram2_lo \<le> a \<and> a < ram2_hi) \<longrightarrow> hmem (m_hart s') a = hmem (m_hart s) a)"
  using assms(2)
proof cases
  case (user h')
  have "protected (csrs (m_hart s))" using assms(1) by (simp add: machine_inv_def)
  from protected_access [OF this] user assms(1) show ?thesis by (simp add: machine_inv_def)
next
  case (trap counters cause tval)
  let ?h = "trap_entry cause tval (m_hart s)"
  have "user_call dev splits (app_commands infer img junk stale) counters (s\<lparr>m_hart := ?h\<rparr>) = Some (Returns s')"
    using exception_Returns [OF trap(3)] by simp
  from user_call_ReturnsD [OF this] obtain a r where
    e: "handler_user_ecall dev splits (app_commands infer img junk stale) (hmem (exec trap_save ?h)) counters (rd ?h A7)
        (rd ?h A0) (rd ?h A1) (m_app s) = Some (Returns (a, r))"
    and s': "s' = \<lparr>m_hart = return_from_call r (exec trap_save ?h), m_app = a\<rparr>" by auto
  have h: "rd ?h q = rd (m_hart s) q" "hmem ?h = hmem (m_hart s)" for q by (simp_all add: trap_entry_def rd_def)
  have wf: "app_wf a" using user_ecall_wf e assms(1) unfolding machine_inv_def by blast
  have pr: "protected (csrs (m_hart s'))"
    using assms(1) by (simp add: s' return_from_call_simps protected_def machine_inv_def trap_entry_def)
  have "priv (m_hart s') = U_mode" by (simp add: s' return_from_call_simps mpp_of_trap)
  moreover have "hmem (m_hart s') b = hmem (m_hart s) b" if "\<not> (ram2_lo \<le> b \<and> b < ram2_hi)" for b
  proof -
    have "frame_in_region ?h" using trap(2) by (simp add: frame_in_region_def h)
    then show ?thesis using trap_save_outside [OF in_region [OF _ that], of ?h] by (simp add: s' return_from_call_simps h)
  qed
  ultimately show ?thesis using wf pr by (simp add: machine_inv_def s')
qed


end
