(* ===== verification/Startup.thy ===== *)
theory Startup
  imports Machine
begin

text \<open>
  \<^verbatim>\<open>main\<close> of the application: printing, setting up the UART and the parser, the memory
  protection and the switch to user mode. The initialisation of the neural network, whose status the code does not look
  at, has no effect on this state; the protection is set up between the last two messages, which does not touch the UART.
\<close>

definition fmt_d :: "u32 \<Rightarrow> string" where
  "fmt_d v = (if sint v < 0 then CHR ''-'' # fmt_u 10 (nat (- sint v)) else fmt_u 10 (nat (sint v)))"

definition fmt_p :: "u32 \<Rightarrow> string" where
  "fmt_p v = ''0x'' @ fmt_hex v"

definition print_lines :: "device \<Rightarrow> (string \<Rightarrow> nat list) \<Rightarrow> string list \<Rightarrow> app_t \<Rightarrow> app_t option" where
  "print_lines dev splits ls = deliver dev splits (map (\<lambda>l. EvPrint (l @ crlf)) ls)"

text \<open>The result is \<open>Inl\<close> when \<^verbatim>\<open>main\<close> returns early because the UART cannot be set up. The linker's
  addresses are parameters.\<close>

definition app_main ::
  "device \<Rightarrow> (string \<Rightarrow> nat list) \<Rightarrow> scpi_command_t list \<Rightarrow> u32 \<Rightarrow> u32 \<Rightarrow> u32 \<Rightarrow> hart \<Rightarrow> app_t \<Rightarrow> (app_t + machine) option" where
  "app_main dev splits scpi_commands buffer user_uart_loop user_stack_top h app =
     do { app \<leftarrow> print_lines dev splits [''Initializing peripherals...'', ''Initialized soc_ctrl'',
                   ''soc_ctrl.base_addr: '' @ fmt_p SOC_CTRL_START_ADDRESS] app;
          let soc_ctrl = \<lparr>soc_base = mmio_region_from_addr SOC_CTRL_START_ADDRESS\<rparr>;
          let (freq, h1) = soc_ctrl_get_frequency dev soc_ctrl (app_hist app);
          let uart = \<lparr>uart_base = mmio_region_from_addr UART_START_ADDRESS, baudrate = 115200, clk_freq_hz = freq\<rparr>;
          let (res, h2) = uart_init (Some uart) h1;
          let app = (set_hist h2 app)\<lparr>app_uart := uart\<rparr>;
          if res \<noteq> kErrorOk then Some (Inl app)
          else do { app \<leftarrow> print_lines dev splits [''Initialized UART'', ''uart.base_addr: '' @ fmt_p UART_START_ADDRESS,
                        ''uart.baudrate: '' @ fmt_d (baudrate uart), ''uart.clk_freq_hz: '' @ fmt_d (clk_freq_hz uart)] app;
                    app \<leftarrow> print_lines dev splits ([''Initialized x.ruSCPI'', ''Available SCPI commands:''] @ map fst scpi_commands @
                        [''Initialized TFLite'', ''Starting SCPI loop...'']) (app\<lparr>scpi := scpi_initial\<rparr>);
                    Some (Inr \<lparr>m_hart = exec (switch_to_user_mode buffer user_uart_loop user_stack_top) (exec pmp_setup h),
                               m_app = app\<rparr>) } }"

lemma print_lines_returns:
  assumes "platform_ok dev splits" "console_of app"
  shows "\<exists>app'. print_lines dev splits ls app = Some app' \<and> scpi app' = scpi app \<and> app_uart app' = app_uart app"
proof -
  obtain app' where p: "print_lines dev splits ls app = Some app'"
    using deliver_returns [OF _ _ assms(2), of dev "map (\<lambda>l. EvPrint (l @ crlf)) ls" splits] assms(1)
    by (auto simp: platform_ok_def print_lines_def)
  then show ?thesis using deliver_keeps by (auto simp: print_lines_def)
qed

text \<open>C36: On a platform that answers, \<^verbatim>\<open>main\<close> always gets to the end of its set-up, and
  enters the user program in user mode with the protection in place and a consistent parser.\<close>

theorem main_reaches_user_mode:
  assumes "platform_ok dev splits" "console_of app"
  shows "\<exists>s. app_main dev splits cmds buffer user_uart_loop stack_top h app = Some (Inr s) \<and> machine_inv s \<and>
    pc (m_hart s) = user_uart_loop \<and> rd (m_hart s) A0 = buffer"
proof -
  obtain a1 where a1: "print_lines dev splits [''Initializing peripherals...'', ''Initialized soc_ctrl'',
      ''soc_ctrl.base_addr: '' @ fmt_p SOC_CTRL_START_ADDRESS] app = Some a1" using print_lines_returns [OF assms] by blast
  define f where "f = dev32 dev (app_hist a1) (SOC_CTRL_START_ADDRESS + SOC_CTRL_SYSTEM_FREQUENCY_HZ_REG_OFFSET)"
  define h1 where "h1 = app_hist a1 @ [Rd32 (SOC_CTRL_START_ADDRESS + SOC_CTRL_SYSTEM_FREQUENCY_HZ_REG_OFFSET) f]"
  define u where "u = \<lparr>uart_base = mmio_region_from_addr UART_START_ADDRESS, baudrate = 115200, clk_freq_hz = f\<rparr>"
  have uc: "u = console f" by (simp add: u_def console_def UART_BAUDRATE_def)
  obtain h2 where i: "uart_init (Some u) h1 = (kErrorOk, h2)"
    using assms(1) unfolding uc platform_ok_def usable_clock_def f_def by (metis prod.collapse)
  define a2 where "a2 = (set_hist h2 a1)\<lparr>app_uart := u\<rparr>"
  have c2: "console_of a2" by (simp add: a2_def u_def console_of_def)
  obtain a3 where a3: "print_lines dev splits [''Initialized UART'', ''uart.base_addr: '' @ fmt_p UART_START_ADDRESS,
      ''uart.baudrate: '' @ fmt_d (baudrate u), ''uart.clk_freq_hz: '' @ fmt_d (clk_freq_hz u)] a2 = Some a3"
    "app_uart a3 = app_uart a2" using print_lines_returns [OF assms(1) c2] by blast
  let ?a3 = "a3\<lparr>scpi := scpi_initial\<rparr>"
  have c3: "console_of ?a3" using a3(2) c2 by (simp add: console_of_def)
  obtain a4 where a4: "print_lines dev splits ([''Initialized x.ruSCPI'', ''Available SCPI commands:''] @ map fst cmds @
      [''Initialized TFLite'', ''Starting SCPI loop...'']) ?a3 = Some a4" "scpi a4 = scpi ?a3" "app_uart a4 = app_uart ?a3"
    using print_lines_returns [OF assms(1) c3] by blast
  let ?h = "exec (switch_to_user_mode buffer user_uart_loop stack_top) (exec pmp_setup h)"
  have "app_main dev splits cmds buffer user_uart_loop stack_top h app = Some (Inr \<lparr>m_hart = ?h, m_app = a4\<rparr>)"
    unfolding app_main_def a1 Option.bind.simps Let_def soc_freq f_def [symmetric] h1_def [symmetric] prod.case
      u_def [symmetric] i a2_def [symmetric] a3(1) a4(1)
    by (simp only: simp_thms if_False Option.bind.simps a3(1) a4(1))
  moreover have "machine_inv \<lparr>m_hart = ?h, m_app = a4\<rparr>"
    using switch_state [of buffer user_uart_loop stack_top "exec pmp_setup h"] a4(2,3) c3 scpi_initial_inv
    by (simp add: machine_inv_def app_wf_def console_of_def protected_def Let_def switch_csrs pmp_setup_csrs)
  moreover have "pc ?h = user_uart_loop" "rd ?h A0 = buffer"
    using switch_state [of buffer user_uart_loop stack_top "exec pmp_setup h"] by (simp_all add: Let_def)
  ultimately show ?thesis by auto
qed

lemma main_reaches_user_mode_witness:
  "\<exists>s. app_main ready_platform (\<lambda>s. [length s]) [] 0x78100 0x78000 0x80000 demo_hart demo_app = Some (Inr s) \<and>
     pc (m_hart s) = 0x78000"
proof -
  have "console_of demo_app" by (simp add: demo_app_def console_of_def console_def)
  from main_reaches_user_mode [OF demo_platform_ok this] show ?thesis by blast
qed


end
