(* ===== verification/Boot.thy ===== *)
theory Boot
  imports Tee Gpio
begin

text \<open>
  The start-up code, \<^verbatim>\<open>lib/crt/crt0.S\<close>, and the vector table, \<^verbatim>\<open>lib/crt/vectors.S\<close>. The instructions
  are those of \<^verbatim>\<open>Hart\<close>, except that a word access to the peripherals is an access to the device instead of the memory.
  The functions that the code calls in the C library, and the linker's symbols, are parameters; \<^verbatim>\<open>memset\<close> is the routine of
  \<^verbatim>\<open>Memory\<close>. An instruction that loads an address or a constant is one step. The lemmas show in which state
  \<^verbatim>\<open>main\<close> is entered.
\<close>

subsection \<open>Instructions with devices\<close>

type_synonym core = "hart \<times> hist"

fun core_step :: "device \<Rightarrow> instr \<Rightarrow> core \<Rightarrow> core" where
  "core_step dev (LW d off b) (h, t) =
     (let a = rd h b + off
      in if a \<ge> AO_PERIPHERAL_START_ADDRESS then (wr d (dev32 dev t a) h, t @ [Rd32 a (dev32 dev t a)])
         else (exec1 (LW d off b) h, t))"
| "core_step dev (SW s off b) (h, t) =
     (let a = rd h b + off
      in if a \<ge> AO_PERIPHERAL_START_ADDRESS then (h, t @ [Wr32 a (rd h s)]) else (exec1 (SW s off b) h, t))"
| "core_step dev i (h, t) = (exec1 i h, t)"

definition core_exec :: "device \<Rightarrow> instr list \<Rightarrow> core \<Rightarrow> core" where
  "core_exec dev is s = fold (core_step dev) is s"

lemma core_exec_simps [simp]:
  "core_exec dev [] s = s" "core_exec dev (i # is) s = core_exec dev is (core_step dev i s)"
  by (simp_all add: core_exec_def)

subsection \<open>Start-up\<close>

record linked =
  global_pointer :: u32
  stack_top :: u32
  vector_start :: u32
  bss_start :: u32
  bss_end :: u32
  libc_fini_array :: u32

definition REFERENCE_CLOCK_Hz :: u32 where "REFERENCE_CLOCK_Hz = 20 * 1000 * 1000"

text \<open>Up to the call of \<^verbatim>\<open>memset\<close>, the argument of \<^verbatim>\<open>atexit\<close>, and from the return of the constructors to the call of
  \<^verbatim>\<open>main\<close>. There is no external start-up code.\<close>

definition start_registers :: "linked \<Rightarrow> instr list" where
  "start_registers L =
     [LI Gp (global_pointer L), LI Sp (stack_top L),
      LI A0 SOC_CTRL_START_ADDRESS, LI A2 REFERENCE_CLOCK_Hz, SW A2 SOC_CTRL_SYSTEM_FREQUENCY_HZ_REG_OFFSET A0,
      LI A0 (vector_start L), ORI A0 A0 1, CSRW MTVEC A0,
      LI A0 (bss_start L), LI A2 (bss_end L), SUB A2 A2 A0, LI A1 0]"

definition start_counters :: "instr list" where
  "start_counters =
     [LI A1 (push_bit 12 (drop_bit 12 GPIO_AO_START_ADDRESS)), ADDI A0 Zero 1,
      LW A2 GPIO_GPIO_MODE_0_REG_OFFSET A1, ORR A2 A2 A0, SW A2 GPIO_GPIO_MODE_0_REG_OFFSET A1,
      LW A2 GPIO_GPIO_OUT_REG_OFFSET A1, ORR A2 A2 A0, SW A2 GPIO_GPIO_OUT_REG_OFFSET A1]"

definition main_arguments :: "instr list" where
  "main_arguments = [LW A0 0 Sp, ADDI A1 Sp 4, LI A2 0]"

text \<open>A call gives the caller-saved registers any value, here \<open>junk\<close>, and the result in \<open>A0\<close>.\<close>

definition caller_saved :: "xreg list" where
  "caller_saved = [Ra, T0, T1, T2, A0, A1, A2, A3, A4, A5, A6, A7, T3, T4, T5, T6]"

definition call_memset :: "(xreg \<Rightarrow> u32) \<Rightarrow> core \<Rightarrow> core" where
  "call_memset junk s =
     (let (h, t) = s; (r, m) = memset (rd h A0) (rd h A1) (unat (rd h A2)) (hmem h);
          regs = (\<lambda>q. if q \<in> set caller_saved then junk q else xr h q)
      in (h\<lparr>xr := regs(A0 := r), hmem := m\<rparr>, t))"

definition crt0_before_main :: "device \<Rightarrow> linked \<Rightarrow> (xreg \<Rightarrow> u32) \<Rightarrow> (core \<Rightarrow> core) \<Rightarrow> (core \<Rightarrow> core) \<Rightarrow> core \<Rightarrow> core" where
  "crt0_before_main dev L junk atexit libc_init_array s =
     (let s1 = call_memset junk (core_exec dev (start_registers L) s);
          s2 = atexit (core_exec dev [LI A0 (libc_fini_array L)] s1);
          s3 = libc_init_array s2
      in core_exec dev (start_counters @ main_arguments) s3)"

definition crt0_start ::
  "device \<Rightarrow> linked \<Rightarrow> (xreg \<Rightarrow> u32) \<Rightarrow> (core \<Rightarrow> core) \<Rightarrow> (core \<Rightarrow> core) \<Rightarrow> (core \<Rightarrow> core) \<Rightarrow> (core \<Rightarrow> core) \<Rightarrow> core \<Rightarrow> core" where
  "crt0_start dev L junk atexit libc_init_array main' exit' s = exit' (main' (crt0_before_main dev L junk atexit libc_init_array s))"

text \<open>\<^verbatim>\<open>init.c\<close> has nothing to do. Its call in \<^verbatim>\<open>_init\<close> is followed by \<^verbatim>\<open>_fini\<close>, a return: the steps of the two
  labels, where the call of \<^verbatim>\<open>init\<close>, which comes back at once, is one step.\<close>

definition init :: u32 where
  "init = 0"

definition init_fini_step :: "u32 \<Rightarrow> u32 \<Rightarrow> hart \<Rightarrow> hart" where
  "init_fini_step init_at fini_at h =
     (if pc h = init_at then (wr A0 init (wr Ra fini_at h))\<lparr>pc := fini_at\<rparr>
      else if pc h = fini_at then h\<lparr>pc := rd h Ra\<rparr> else h)"

subsection \<open>The vector table\<close>

text \<open>Entry \<open>i\<close> is a jump of four bytes at offset \<open>4 * i\<close>.\<close>

datatype vector = V_handler_exception | V_no_irq_handler | V_irq irq | V_verification_irq_handler

definition vector_table :: "vector list" where
  "vector_table =
     [V_handler_exception, V_no_irq_handler, V_no_irq_handler, V_irq Irq_software,
      V_no_irq_handler, V_no_irq_handler, V_no_irq_handler, V_irq Irq_timer,
      V_no_irq_handler, V_no_irq_handler, V_no_irq_handler, V_irq Irq_external,
      V_no_irq_handler, V_no_irq_handler, V_no_irq_handler, V_no_irq_handler,
      V_irq (Irq_fast_timer 1), V_irq (Irq_fast_timer 2), V_irq (Irq_fast_timer 3), V_irq Irq_fast_dma,
      V_irq Irq_fast_spi, V_irq Irq_fast_spi_flash, V_irq (Irq_fast_gpio 0), V_irq (Irq_fast_gpio 1),
      V_irq (Irq_fast_gpio 2), V_irq (Irq_fast_gpio 3), V_irq (Irq_fast_gpio 4), V_irq (Irq_fast_gpio 5),
      V_irq (Irq_fast_gpio 6), V_irq (Irq_fast_gpio 7), V_no_irq_handler, V_no_irq_handler, V_verification_irq_handler]
     @ replicate 32 V_no_irq_handler"

definition verification_irq_handler :: "instr list" where
  "verification_irq_handler = [MRET]"

text \<open>The handler for an interrupt nobody handles prints its message for ever: its first \<open>n\<close> rounds.\<close>

definition no_irq_handler :: "device \<Rightarrow> (string \<Rightarrow> nat list) \<Rightarrow> nat \<Rightarrow> app_t \<Rightarrow> app_t option" where
  "no_irq_handler dev splits n =
     deliver dev splits (replicate n (EvPrint (''no exception handler installed'' @ [CHR 0x0A, CHR 0x0A])))"

text \<open>In vectored mode the core takes an interrupt at the base plus four times its number, and an exception at the base.\<close>

definition trap_target :: "u32 \<Rightarrow> bool \<Rightarrow> nat \<Rightarrow> u32" where
  "trap_target mtvec interrupt n =
     (let base = mtvec AND NOT 0x3
      in if interrupt \<and> mtvec AND 0x3 = 1 then base + of_nat (4 * n) else base)"

lemma vector_table_fits: "4 * length vector_table \<le> unat RESTART"
  by (simp add: vector_table_def RESTART_def)

subsection \<open>What the start-up code does\<close>

text \<open>What a call of the C library keeps.\<close>

locale library_call =
  fixes f :: "core \<Rightarrow> core"
  assumes keeps: "f (h, t) = (h', t') \<Longrightarrow> rd h' Sp = rd h Sp \<and> rd h' Gp = rd h Gp \<and> csrs h' = csrs h"
begin

lemma keeps_exec: "let s' = f s in rd (fst s') Sp = rd (fst s) Sp \<and> rd (fst s') Gp = rd (fst s) Gp \<and> csrs (fst s') = csrs (fst s)"
  using keeps by (cases s; cases "f s") (simp add: Let_def)

end

interpretation memset_call: library_call "call_memset junk" for junk
  by unfold_locales (auto simp: call_memset_def memset_def Let_def caller_saved_def rd_def)

lemma memset_zero: "snd (memset p 0 n m) a = (if a \<in> range_of p n then 0 else m a)"
proof (induction n)
  case (Suc n)
  then show ?case by (auto simp: memset_def range_of_def lessThan_Suc)
qed (simp add: memset_def range_of_def)

lemma start_registers_run:
  "core_exec dev (start_registers L) (h, t) =
    (wr A1 0 (wr A2 (bss_end L - bss_start L) (wr A2 (bss_end L) (wr A0 (bss_start L)
      ((wr A0 (vector_start L OR 1) (wr A0 (vector_start L) (wr A2 REFERENCE_CLOCK_Hz (wr A0 SOC_CTRL_START_ADDRESS
        (wr Sp (stack_top L) (wr Gp (global_pointer L) h))))))\<lparr>csrs := (csrs h)(MTVEC := vector_start L OR 1)\<rparr>)))),
     t @ [Wr32 (SOC_CTRL_START_ADDRESS + SOC_CTRL_SYSTEM_FREQUENCY_HZ_REG_OFFSET) REFERENCE_CLOCK_Hz])"
  by (simp add: start_registers_def Let_def SOC_CTRL_START_ADDRESS_def AO_PERIPHERAL_START_ADDRESS_def
      SOC_CTRL_SYSTEM_FREQUENCY_HZ_REG_OFFSET_def)

lemma start_counters_run:
  "core_exec dev (start_counters @ main_arguments) (h, t) =
    (let mode = dev32 dev t (GPIO_AO_START_ADDRESS + GPIO_GPIO_MODE_0_REG_OFFSET);
         t1 = t @ [Rd32 (GPIO_AO_START_ADDRESS + GPIO_GPIO_MODE_0_REG_OFFSET) mode,
                   Wr32 (GPIO_AO_START_ADDRESS + GPIO_GPIO_MODE_0_REG_OFFSET) (mode OR 1)];
         out = dev32 dev t1 (GPIO_AO_START_ADDRESS + GPIO_GPIO_OUT_REG_OFFSET);
         t2 = t1 @ [Rd32 (GPIO_AO_START_ADDRESS + GPIO_GPIO_OUT_REG_OFFSET) out,
                    Wr32 (GPIO_AO_START_ADDRESS + GPIO_GPIO_OUT_REG_OFFSET) (out OR 1)];
         h2 = wr A2 (out OR 1) (wr A2 out (wr A2 (mode OR 1) (wr A2 mode (wr A0 1 (wr A1 GPIO_AO_START_ADDRESS h)))))
     in core_exec dev main_arguments (h2, t2))"
proof -
  have base: "push_bit 12 (drop_bit 12 GPIO_AO_START_ADDRESS) = GPIO_AO_START_ADDRESS"
    by (simp add: GPIO_AO_START_ADDRESS_def AO_PERIPHERAL_START_ADDRESS_def)
  have io: "GPIO_AO_START_ADDRESS + GPIO_GPIO_MODE_0_REG_OFFSET \<ge> AO_PERIPHERAL_START_ADDRESS"
    "GPIO_AO_START_ADDRESS + GPIO_GPIO_OUT_REG_OFFSET \<ge> AO_PERIPHERAL_START_ADDRESS"
    by (simp_all add: GPIO_AO_START_ADDRESS_def AO_PERIPHERAL_START_ADDRESS_def GPIO_GPIO_MODE_0_REG_OFFSET_def
        GPIO_GPIO_OUT_REG_OFFSET_def)
  have z: "rd h Zero = 0" for h by (simp add: rd_def)
  show ?thesis
    by (simp add: start_counters_def base io Let_def z)
qed

text \<open>The call in \<^verbatim>\<open>_init\<close> overwrites the return address, so the return behind it goes to itself: \<^verbatim>\<open>_init\<close> never
  comes back to its caller.\<close>

theorem init_never_returns:
  assumes "init_at \<noteq> fini_at" "pc h = init_at"
  shows "pc ((init_fini_step init_at fini_at ^^ Suc n) h) = fini_at"
proof -
  have "pc ((init_fini_step init_at fini_at ^^ Suc n) h) = fini_at \<and>
      rd ((init_fini_step init_at fini_at ^^ Suc n) h) Ra = fini_at"
  proof (induction n)
    case 0
    show ?case using assms(2) by (simp add: init_fini_step_def rd_def wr_def)
  next
    case (Suc n)
    then show ?case using assms(1) by (simp add: init_fini_step_def rd_def)
  qed
  then show ?thesis by blast
qed

lemma fini_returns: "init_at \<noteq> fini_at \<Longrightarrow> pc h = fini_at \<Longrightarrow> pc (init_fini_step init_at fini_at h) = rd h Ra"
  by (simp add: init_fini_step_def)

text \<open>C37: However the devices answer and whatever the called C functions do beyond keeping the stack and global pointer and the
  control registers, the start-up code sets the clock frequency, clears exactly the \<^verbatim>\<open>.bss\<close> segment before the first
  C function runs, raises pin 0 without touching other pins, and enters \<^verbatim>\<open>main\<close> with its stack, the vector table in vectored mode
  and \<^verbatim>\<open>argc\<close> read from the word at the stack's top.\<close>

theorem boot_enters_main:
  assumes "library_call atexit" "library_call libc_init_array" "stack_top L < AO_PERIPHERAL_START_ADDRESS"
  shows "let (h1, t1) = call_memset junk (core_exec dev (start_registers L) (h, t));
             (h2, t2) = libc_init_array (atexit (core_exec dev [LI A0 (libc_fini_array L)] (h1, t1)));
             (h3, t3) = crt0_before_main dev L junk atexit libc_init_array (h, t)
    in t1 = t @ [Wr32 (SOC_CTRL_START_ADDRESS + SOC_CTRL_SYSTEM_FREQUENCY_HZ_REG_OFFSET) 20000000] \<and>
       hmem h1 = (\<lambda>a. if a \<in> range_of (bss_start L) (unat (bss_end L - bss_start L)) then 0 else hmem h a) \<and>
       (\<exists>mode out. t3 = t2 @
          [Rd32 (GPIO_AO_START_ADDRESS + 0x8) mode, Wr32 (GPIO_AO_START_ADDRESS + 0x8) (mode OR 1),
           Rd32 (GPIO_AO_START_ADDRESS + 0x180) out, Wr32 (GPIO_AO_START_ADDRESS + 0x180) (out OR 1)]) \<and>
       hmem h3 = hmem h2 \<and> csrs h3 = (csrs h)(MTVEC := vector_start L OR 1) \<and>
       rd h3 Sp = stack_top L \<and> rd h3 Gp = global_pointer L \<and>
       rd h3 A0 = load32 (hmem h2) (stack_top L) \<and> rd h3 A1 = stack_top L + 4 \<and> rd h3 A2 = 0"
proof -
  obtain h1 t1 where e1: "call_memset junk (core_exec dev (start_registers L) (h, t)) = (h1, t1)" by (metis prod.collapse)
  obtain h2 t2 where e2: "libc_init_array (atexit (core_exec dev [LI A0 (libc_fini_array L)] (h1, t1))) = (h2, t2)"
    by (metis prod.collapse)
  have m: "snd (memset p 0 n M) = (\<lambda>a. if a \<in> range_of p n then 0 else M a)" for p n M
    by (rule ext) (rule memset_zero)
  have f1: "t1 = t @ [Wr32 (SOC_CTRL_START_ADDRESS + SOC_CTRL_SYSTEM_FREQUENCY_HZ_REG_OFFSET) 20000000]"
    "hmem h1 = (\<lambda>a. if a \<in> range_of (bss_start L) (unat (bss_end L - bss_start L)) then 0 else hmem h a)"
    "csrs h1 = (csrs h)(MTVEC := vector_start L OR 1)" "rd h1 Sp = stack_top L" "rd h1 Gp = global_pointer L"
    using e1 m by (auto simp: start_registers_run call_memset_def split_beta Let_def REFERENCE_CLOCK_Hz_def caller_saved_def
        rd_def wr_def)
  have f2: "csrs h2 = csrs h1" "rd h2 Sp = rd h1 Sp" "rd h2 Gp = rd h1 Gp"
    using library_call.keeps_exec [OF assms(1), of "core_exec dev [LI A0 (libc_fini_array L)] (h1, t1)"]
      library_call.keeps_exec [OF assms(2), of "atexit (core_exec dev [LI A0 (libc_fini_array L)] (h1, t1))"] e2
    by (simp_all add: Let_def)
  have sp: "\<not> stack_top L \<ge> AO_PERIPHERAL_START_ADDRESS" using assms(3) by simp
  obtain h3 t3 where e3: "crt0_before_main dev L junk atexit libc_init_array (h, t) = (h3, t3)" by (metis prod.collapse)
  have "core_exec dev (start_counters @ main_arguments) (h2, t2) = (h3, t3)"
    using e3 e1 e2 by (simp add: crt0_before_main_def Let_def)
  then have f3: "hmem h3 = hmem h2" "csrs h3 = csrs h2" "rd h3 Sp = stack_top L" "rd h3 Gp = rd h2 Gp"
    "rd h3 A0 = load32 (hmem h2) (stack_top L)" "rd h3 A1 = stack_top L + 4" "rd h3 A2 = 0"
    "\<exists>mode out. t3 = t2 @
          [Rd32 (GPIO_AO_START_ADDRESS + 0x8) mode, Wr32 (GPIO_AO_START_ADDRESS + 0x8) (mode OR 1),
           Rd32 (GPIO_AO_START_ADDRESS + 0x180) out, Wr32 (GPIO_AO_START_ADDRESS + 0x180) (out OR 1)]"
    using f1(4) f2(2) sp unfolding start_counters_run
    by (auto simp: main_arguments_def Let_def GPIO_GPIO_MODE_0_REG_OFFSET_def GPIO_GPIO_OUT_REG_OFFSET_def)
  show ?thesis unfolding e1 Let_def prod.case e2 e3 using f1 f2 f3 by simp
qed

definition demo_link :: linked where
  "demo_link = \<lparr>global_pointer = 0x41000, stack_top = 0x60000, vector_start = 0, bss_start = 0x42000, bss_end = 0x43000,
     libc_fini_array = 0x1000\<rparr>"

lemma boot_enters_main_witness:
  "rd (fst (crt0_before_main ready_platform demo_link (\<lambda>_. 7) id id (demo_hart, []))) A1 = 0x60004"
proof -
  have "library_call id" by unfold_locales simp
  then show ?thesis
    using boot_enters_main [of id id demo_link "\<lambda>_. 7" ready_platform demo_hart "[]"]
    by (simp add: demo_link_def AO_PERIPHERAL_START_ADDRESS_def Let_def split_beta)
qed

end
