(* ===== verification/Editor.thy ===== *)
theory Editor
  imports Tee
begin

text \<open>
  The user program of the application: \<^verbatim>\<open>user_uart_loop\<close> in \<^verbatim>\<open>main.c\<close>, which collects a line from the
  terminal through system calls and hands it to the parser, and the call stubs of
  \<^verbatim>\<open>tee_syscall.h\<close>. The editor is written against an interface of two operations, reading and
  writing a byte; the locale states what the editor relies on, and is interpreted on the system calls
  over the UART driver. Addresses and lengths are 32-bit words as in the code.
\<close>

subsection \<open>Call stubs\<close>

text \<open>Each puts its arguments into registers and traps. The user memory matters only to the call that passes a buffer.\<close>

definition tee_uart_getchar :: "device \<Rightarrow> (string \<Rightarrow> nat list) \<Rightarrow> scpi_command_t list \<Rightarrow> app_t \<Rightarrow> (u8 \<times> app_t) option" where
  "tee_uart_getchar dev splits cmds app =
     (case handler_user_ecall dev splits cmds (\<lambda>_. 0) [] TEE_EC_UART_GETCHAR 0 0 app of
        Some (Returns (app, Some ch)) \<Rightarrow> Some (ucast ch, app) | _ \<Rightarrow> None)"

definition tee_uart_putchar :: "device \<Rightarrow> (string \<Rightarrow> nat list) \<Rightarrow> scpi_command_t list \<Rightarrow> u8 \<Rightarrow> app_t \<Rightarrow> app_t option" where
  "tee_uart_putchar dev splits cmds c app =
     (case handler_user_ecall dev splits cmds (\<lambda>_. 0) [] TEE_EC_UART_PUTCHAR (ucast c) 0 app of
        Some (Returns (app, _)) \<Rightarrow> Some app | _ \<Rightarrow> None)"

definition tee_infer ::
  "device \<Rightarrow> (string \<Rightarrow> nat list) \<Rightarrow> scpi_command_t list \<Rightarrow> memory \<Rightarrow> u32 \<Rightarrow> u32 \<Rightarrow> app_t \<Rightarrow> app_t option" where
  "tee_infer dev splits cmds m buf len app =
     (case handler_user_ecall dev splits cmds m [] TEE_EC_INFER buf len app of
        Some (Returns (app, _)) \<Rightarrow> Some app | _ \<Rightarrow> None)"

definition tee_read_counters_arr ::
  "device \<Rightarrow> (string \<Rightarrow> nat list) \<Rightarrow> scpi_command_t list \<Rightarrow> u32 list \<Rightarrow> app_t \<Rightarrow> app_t option" where
  "tee_read_counters_arr dev splits cmds counters app =
     (case handler_user_ecall dev splits cmds (\<lambda>_. 0) counters TEE_EC_RDCOUNTERS 0 0 app of
        Some (Returns (app, _)) \<Rightarrow> Some app | _ \<Rightarrow> None)"

subsection \<open>The loop\<close>

text \<open>Collecting one line: the result is the number of bytes, the memory, the state of the modifier and
  that of the terminal.\<close>

partial_function (option) edit_line ::
  "('s \<Rightarrow> (u8 \<times> 's) option) \<Rightarrow> (u8 \<Rightarrow> 's \<Rightarrow> 's option) \<Rightarrow> u32 \<Rightarrow> u32 \<Rightarrow> u32 \<Rightarrow> memory \<Rightarrow> bool \<Rightarrow> 's \<Rightarrow>
   (u32 \<times> memory \<times> bool \<times> 's) option" where
  "edit_line getc putc buf len i m modifier s =
     (if \<not> i < len - 1 then Some (i, m, modifier, s)
      else do { (c, s) \<leftarrow> getc s;
                if c = 0x5c
                then (if \<not> modifier then edit_line getc putc buf len i m True s
                      else edit_line getc putc buf len (i + 1) (m(buf + i := c)) False s)
                else do { s \<leftarrow> putc c s;
                          s \<leftarrow> (if c = 0x0A then putc 0x0D s else if c = 0x0D then putc 0x0A s else Some s);
                          if c = 0x0A \<or> c = 0x0D
                          then (if modifier then edit_line getc putc buf len (i + 1) (m(buf + i := c)) False s
                                else Some (i, m(buf + i := 0), modifier, s))
                          else edit_line getc putc buf len (i + 1) (m(buf + i := c)) False s } })"

record user_t =
  umem :: memory
  modifier :: bool

text \<open>One round of the outer loop. The readings of the counters are parameters, three per round.\<close>

definition user_round ::
  "device \<Rightarrow> (string \<Rightarrow> nat list) \<Rightarrow> scpi_command_t list \<Rightarrow> u32 list list \<Rightarrow> u32 \<Rightarrow> u32 \<Rightarrow> user_t \<Rightarrow> app_t \<Rightarrow> (user_t \<times> app_t) option" where
  "user_round dev splits cmds counters buf len u app =
     do { (i, m, md, app) \<leftarrow> edit_line (tee_uart_getchar dev splits cmds) (tee_uart_putchar dev splits cmds) buf len 0
                                (umem u) (modifier u) app;
          let u = u\<lparr>umem := m, modifier := md\<rparr>;
          if 0 < i
          then do { app \<leftarrow> tee_read_counters_arr dev splits cmds (counters ! 0) app;
                    app \<leftarrow> tee_infer dev splits cmds m buf i app;
                    app \<leftarrow> tee_read_counters_arr dev splits cmds (counters ! 1) app;
                    app \<leftarrow> tee_read_counters_arr dev splits cmds (counters ! 2) app;
                    Some (u, app) }
          else Some (u, app) }"

text \<open>The loop until the exit flag is set, after which the code spins; the result is the state in which it does.\<close>

partial_function (option) user_uart_loop ::
  "device \<Rightarrow> (string \<Rightarrow> nat list) \<Rightarrow> scpi_command_t list \<Rightarrow> (nat \<Rightarrow> u32 list list) \<Rightarrow> nat \<Rightarrow> u32 \<Rightarrow> u32 \<Rightarrow> user_t \<Rightarrow> app_t \<Rightarrow> (user_t \<times> app_t) option" where
  "user_uart_loop dev splits cmds counters n buf len u app =
     (if exit_scpi app then Some (u, app)
      else do { (u, app) \<leftarrow> user_round dev splits cmds (counters n) buf len u app;
                user_uart_loop dev splits cmds counters (n + 1) buf len u app })"

subsection \<open>What a line becomes\<close>

text \<open>Typing a text: backslash and line ends are typed after a backslash. The echo leaves out the
  backslashes and completes line ends to pairs.\<close>

fun escape :: "u8 list \<Rightarrow> u8 list" where
  "escape [] = []"
| "escape (c # cs) = (if c \<in> {0x5c, 0x0A, 0x0D} then [0x5c, c] else [c]) @ escape cs"

definition echo_of :: "u8 \<Rightarrow> u8 list" where
  "echo_of c = (if c = 0x5c then [] else if c = 0x0A then [0x0A, 0x0D] else if c = 0x0D then [0x0D, 0x0A] else [c])"

fun write_bytes :: "u32 \<Rightarrow> u8 list \<Rightarrow> memory \<Rightarrow> memory" where
  "write_bytes a [] m = m"
| "write_bytes a (c # cs) m = write_bytes (a + 1) cs (m(a := c))"

locale terminal =
  fixes getc :: "'s \<Rightarrow> (u8 \<times> 's) option" and putc :: "u8 \<Rightarrow> 's \<Rightarrow> 's option"
    and ok :: "'s \<Rightarrow> bool" and typed :: "'s \<Rightarrow> u8 list" and echoed :: "'s \<Rightarrow> u8 list"
  assumes getc: "ok s \<Longrightarrow> typed s = c # cs \<Longrightarrow>
      \<exists>s'. getc s = Some (c, s') \<and> ok s' \<and> typed s' = cs \<and> echoed s' = echoed s"
    and putc: "ok s \<Longrightarrow> \<exists>s'. putc c s = Some s' \<and> ok s' \<and> typed s' = typed s \<and> echoed s' = echoed s @ [c]"
begin

lemma echo_pair:
  assumes "ok s" "c \<noteq> 0x5c"
  shows "\<exists>s1 s'. putc c s = Some s1 \<and>
      (if c = 0x0A then putc 0x0D s1 else if c = 0x0D then putc 0x0A s1 else Some s1) = Some s' \<and> ok s' \<and>
      typed s' = typed s \<and> echoed s' = echoed s @ echo_of c"
proof -
  obtain s1 where s1: "putc c s = Some s1" "ok s1" "typed s1 = typed s" "echoed s1 = echoed s @ [c]"
    using putc [OF assms(1)] by blast
  have "\<exists>s'. putc d s1 = Some s' \<and> ok s' \<and> typed s' = typed s \<and> echoed s' = echoed s @ [c, d]" for d
    using putc [OF s1(2), of d] s1(3,4) by auto
  then show ?thesis using s1 assms(2) by (auto simp: echo_of_def)
qed

lemma edit_step:
  assumes "ok s" "typed s = c # cs" "i < len - 1"
  shows "\<exists>s'. ok s' \<and> typed s' = cs \<and> echoed s' = echoed s @ echo_of c \<and>
    edit_line getc putc buf len i m md s =
      (if c = 0x5c \<and> \<not> md then edit_line getc putc buf len i m True s'
       else if c \<in> {0x0A, 0x0D} \<and> \<not> md then Some (i, m(buf + i := 0), False, s')
       else edit_line getc putc buf len (i + 1) (m(buf + i := c)) False s')"
proof -
  obtain s1 where s1: "getc s = Some (c, s1)" "ok s1" "typed s1 = cs" "echoed s1 = echoed s"
    using getc [OF assms(1,2)] by blast
  show ?thesis
  proof (cases "c = 0x5c")
    case True
    then show ?thesis using s1 assms(3) by (subst edit_line.simps) (auto simp: echo_of_def)
  next
    case False
    obtain s2 s3 where e: "putc c s1 = Some s2"
      "(if c = 0x0A then putc 0x0D s2 else if c = 0x0D then putc 0x0A s2 else Some s2) = Some s3"
      "ok s3" "typed s3 = typed s1" "echoed s3 = echoed s1 @ echo_of c"
      using echo_pair [OF s1(2) False] by blast
    then show ?thesis using s1 False assms(3) by (subst edit_line.simps) (auto split: if_splits)
  qed
qed

lemma edit_escaped:
  assumes "ok s" "typed s = escape cs @ e # rest" "e \<in> {0x0A, 0x0D}" "unat i + length cs < unat (len - 1)"
  shows "\<exists>s'. edit_line getc putc buf len i m False s =
      Some (i + of_nat (length cs), (write_bytes (buf + i) cs m)(buf + i + of_nat (length cs) := 0), False, s') \<and>
    ok s' \<and> typed s' = rest \<and> echoed s' = echoed s @ concat (map echo_of (cs @ [e]))"
  using assms(1,2,4)
proof (induction cs arbitrary: s i m)
  case Nil
  then have t: "typed s = e # rest" and l: "i < len - 1" by (simp_all add: word_less_nat_alt)
  have ne: "e \<noteq> 0x5c" using assms(3) by auto
  from edit_step [OF Nil.prems(1) t l, of buf m False] show ?case using assms(3) ne by (auto simp: fun_upd_def)
next
  case (Cons c cs)
  have l: "i < len - 1" using Cons.prems(3) by (simp add: word_less_nat_alt)
  have "unat (len - 1) < 2 ^ 32" using unsigned_less [of "len - 1"] by simp
  then have "unat i + 1 < 2 ^ 32" using Cons.prems(3) by simp
  then have u: "unat (i + 1) = unat i + 1" by (simp add: unat_word_ariths)
  have fit: "unat (i + 1) + length cs < unat (len - 1)" using Cons.prems(3) u by simp
  have step: "\<exists>s1. ok s1 \<and> typed s1 = escape cs @ e # rest \<and> echoed s1 = echoed s @ echo_of c \<and>
      edit_line getc putc buf len i m False s = edit_line getc putc buf len (i + 1) (m(buf + i := c)) False s1"
  proof (cases "c \<in> {0x5c, 0x0A, 0x0D}")
    case True
    then have t: "typed s = 0x5c # c # escape cs @ e # rest" using Cons.prems(2) by auto
    obtain s0 where s0: "ok s0" "typed s0 = c # escape cs @ e # rest" "echoed s0 = echoed s"
      "edit_line getc putc buf len i m False s = edit_line getc putc buf len i m True s0"
      using edit_step [OF Cons.prems(1) t l, of buf m False] by (auto simp: echo_of_def)
    from edit_step [OF s0(1,2) l, of buf m True] show ?thesis using s0 by auto
  next
    case False
    then have t: "typed s = c # escape cs @ e # rest" using Cons.prems(2) by auto
    from edit_step [OF Cons.prems(1) t l, of buf m False] show ?thesis using False by auto
  qed
  then obtain s1 where s1: "ok s1" "typed s1 = escape cs @ e # rest" "echoed s1 = echoed s @ echo_of c"
    "edit_line getc putc buf len i m False s = edit_line getc putc buf len (i + 1) (m(buf + i := c)) False s1" by blast
  obtain s' where s': "edit_line getc putc buf len (i + 1) (m(buf + i := c)) False s1 =
      Some (i + 1 + of_nat (length cs), (write_bytes (buf + (i + 1)) cs (m(buf + i := c)))(buf + (i + 1) + of_nat (length cs) := 0), False, s')"
    "ok s'" "typed s' = rest" "echoed s' = echoed s1 @ concat (map echo_of (cs @ [e]))"
    using Cons.IH [OF s1(1,2) fit, of "m(buf + i := c)"] by blast
  have r: "i + 1 + of_nat (length cs) = i + of_nat (length (c # cs))"
    "buf + (i + 1) + of_nat (length cs) = buf + i + of_nat (length (c # cs))"
    "write_bytes (buf + (i + 1)) cs (m(buf + i := c)) = write_bytes (buf + i) (c # cs) m"
    by (simp_all add: algebra_simps)
  have "echoed s' = echoed s @ concat (map echo_of ((c # cs) @ [e]))" using s'(4) s1(3) by simp
  then show ?case using s'(1-3) unfolding s1(4) r by blast
qed

end

subsection \<open>The terminal behind the system calls\<close>

text \<open>A platform whose UART receives a given text: the status shows an empty receive FIFO only when all of it has been
  read, and the transmitter is always ready.\<close>

definition console_reads :: "hist \<Rightarrow> nat" where
  "console_reads h = length (filter (\<lambda>e. case e of Rd32 a v \<Rightarrow> a = UART_START_ADDRESS + 0x14 | _ \<Rightarrow> False) h)"

definition keyboard :: "u8 list \<Rightarrow> device" where
  "keyboard script =
     \<lparr>dev32 = (\<lambda>h a. if a = SOC_CTRL_START_ADDRESS + 0x1c then 20000000
                    else if a = UART_START_ADDRESS + 0x14 then ucast (script ! console_reads h)
                    else if console_reads h < length script then 0x8 else 0x28), dev8 = (\<lambda>h a. 0)\<rparr>"

definition script_left :: "u8 list \<Rightarrow> app_t \<Rightarrow> u8 list" where
  "script_left script app = drop (console_reads (app_hist app)) script"

lemma console_reads_append [simp]:
  "console_reads (a @ b) = console_reads a + console_reads b" "console_reads [] = 0"
  by (simp_all add: console_reads_def)

lemma console_addrs:
  assumes "uart_base u = mmio_region_from_addr UART_START_ADDRESS"
  shows "uart_status_addr u = UART_START_ADDRESS + 0x10" "uart_rdata_addr u = UART_START_ADDRESS + 0x14"
    "uart_wdata_addr u = UART_START_ADDRESS + 0x18"
  using assms by (simp_all add: uart_status_addr_def uart_rdata_addr_def uart_wdata_addr_def mmio_region_from_addr_def
      reg_addr_def reg_defs)

lemma keyboard_status:
  "dev32 (keyboard script) h (UART_START_ADDRESS + 0x10) = (if console_reads h < length script then 0x8 else 0x28)"
  by (simp add: keyboard_def reg_defs)

lemma status_bits:
  "\<not> bitfield_bit32_read 0x8 UART_STATUS_TXFULL_BIT" "\<not> bitfield_bit32_read 0x28 UART_STATUS_TXFULL_BIT"
  "bitfield_bit32_read 0x8 UART_STATUS_TXIDLE_BIT" "bitfield_bit32_read 0x28 UART_STATUS_TXIDLE_BIT"
  "\<not> bitfield_bit32_read 0x8 UART_STATUS_RXEMPTY_BIT"
  by (simp_all add: bit32_read_bit reg_defs bit_numeral_rec)

lemma keyboard_responsive:
  assumes "uart_base u = mmio_region_from_addr UART_START_ADDRESS"
  shows "uart_responsive (keyboard script) u"
proof -
  have a: "reg_addr (uart_base u) UART_STATUS_REG_OFFSET = UART_START_ADDRESS + 0x10"
    using console_addrs(1) [OF assms] by (simp add: uart_status_addr_def)
  show ?thesis
    unfolding uart_responsive_def eventually_not_def a keyboard_status
    using status_bits by auto
qed

lemma ucast_back [simp]: "ucast (ucast (c :: u8) :: u32) = c"
  by (rule bit_word_eqI) (simp add: bit_simps)

lemma keyboard_getchar:
  assumes "uart_base u = mmio_region_from_addr UART_START_ADDRESS" "console_reads h < length script"
  shows "\<exists>h'. uart_getchar (keyboard script) u h = Some (1, script ! console_reads h, h') \<and>
    console_reads h' = console_reads h + 1 \<and> uart_sent (console 0) h' = uart_sent (console 0) h"
proof -
  note A = console_addrs [OF assms(1)]
  define h1 where "h1 = h @ [Rd32 (UART_START_ADDRESS + 0x10) 0x8]"
  have c1: "console_reads h1 = console_reads h" by (simp add: h1_def console_reads_def reg_defs)
  have w: "wait_while (uart_rx_empty (keyboard script) u) h = Some h1"
    unfolding uart_conds
    using assms(2) status_bits
    by (subst wait_while_step)
       (simp add: A(1) [unfolded uart_status_addr_def] keyboard_status h1_def reg_cond_def mmio_region_read32_def Let_def)
  define v where "v = (ucast (script ! console_reads h) :: u32)"
  have d: "dev32 (keyboard script) h1 (UART_START_ADDRESS + 0x14) = v"
    by (simp add: keyboard_def c1 v_def reg_defs)
  have b: "(ucast (bitfield_field32_read x UART_RDATA_RDATA_FIELD) :: u8) = ucast x" for x :: u32
    by (rule bit_word_eqI) (auto simp: bit_field32_read reg_defs bit_simps)
  have g: "uart_getchar (keyboard script) u h = Some (1, script ! console_reads h, h1 @ [Rd32 (UART_START_ADDRESS + 0x14) v])"
    by (simp add: uart_getchar_def w uart_rx_fifo_read_def mmio_region_read32_def Let_def
        A(2) [unfolded uart_rdata_addr_def] d b) (simp add: v_def)
  moreover have "console_reads (h1 @ [Rd32 (UART_START_ADDRESS + 0x14) v]) = console_reads h + 1"
    using c1 by (simp add: console_reads_def)
  moreover have "uart_sent (console 0) (h1 @ [Rd32 (UART_START_ADDRESS + 0x14) v]) = uart_sent (console 0) h"
    by (simp add: h1_def)
  ultimately show ?thesis by blast
qed

lemma putchar_reads:
  assumes "uart_base u = mmio_region_from_addr UART_START_ADDRESS" "uart_putchar dev u b h = Some h'"
  shows "console_reads h' = console_reads h"
proof -
  note A = console_addrs [OF assms(1)]
  have r: "console_reads (map (Rd32 (UART_START_ADDRESS + 0x10)) vs) = 0" for vs
    by (induction vs) (simp_all add: console_reads_def reg_defs)
  from uart_putchar_trace [OF assms(2)] obtain vs v ws w where
    "h' = h @ map (Rd32 (uart_status_addr u)) vs @ [Rd32 (uart_status_addr u) v,
       Wr32 (uart_wdata_addr u) (bitfield_field32_write 0 UART_WDATA_WDATA_FIELD (ucast b))] @
       map (Rd32 (uart_status_addr u)) ws @ [Rd32 (uart_status_addr u) w]" by metis
  then show ?thesis by (simp add: A r) (simp add: console_reads_def reg_defs)
qed

interpretation keys: terminal "tee_uart_getchar (keyboard script) splits cmds" "tee_uart_putchar (keyboard script) splits cmds"
  console_of "script_left script" sent_by for script splits cmds
proof
  fix s c cs assume s: "console_of s" and t: "script_left script s = c # cs"
  have lt: "console_reads (app_hist s) < length script" using t by (auto simp: script_left_def intro: ccontr)
  then have cc: "c = script ! console_reads (app_hist s)" "cs = drop (console_reads (app_hist s) + 1) script"
    using t by (simp_all add: script_left_def Cons_nth_drop_Suc [symmetric])
  obtain h where h: "uart_getchar (keyboard script) (app_uart s) (app_hist s) = Some (1, c, h)"
    "console_reads h = console_reads (app_hist s) + 1" "uart_sent (console 0) h = uart_sent (console 0) (app_hist s)"
    using keyboard_getchar [of "app_uart s", OF _ lt] s cc by (auto simp: console_of_def)
  have id: "TEE_EC_UART_GETCHAR \<noteq> TEE_EC_INFER" "TEE_EC_UART_GETCHAR \<noteq> TEE_EC_UART_PUTCHAR"
    by (simp_all add: TEE_EC_UART_GETCHAR_def TEE_EC_INFER_def TEE_EC_UART_PUTCHAR_def)
  have "tee_uart_getchar (keyboard script) splits cmds s = Some (c, set_hist h s)"
    by (simp add: tee_uart_getchar_def handler_user_ecall_def id h)
  then show "\<exists>s'. tee_uart_getchar (keyboard script) splits cmds s = Some (c, s') \<and> console_of s' \<and>
      script_left script s' = cs \<and> sent_by s' = sent_by s"
    using s h cc by (simp add: script_left_def sent_by_def)
next
  fix s c assume s: "console_of s"
  then have u: "uart_base (app_uart s) = mmio_region_from_addr UART_START_ADDRESS" by (simp add: console_of_def)
  obtain h where h: "uart_putchar (keyboard script) (app_uart s) c (app_hist s) = Some h"
    using uart_putchar_total [OF keyboard_responsive [OF u]] by blast
  have id: "TEE_EC_UART_PUTCHAR \<noteq> TEE_EC_INFER" by (simp add: TEE_EC_INFER_def TEE_EC_UART_PUTCHAR_def)
  have p: "tee_uart_putchar (keyboard script) splits cmds c s = Some (set_hist h s)"
    by (simp add: tee_uart_putchar_def handler_user_ecall_def id h)
  have "uart_sent (app_uart s) h = uart_sent (app_uart s) (app_hist s) @ [c]" using uart_putchar_sent [OF h] by simp
  then show "\<exists>s'. tee_uart_putchar (keyboard script) splits cmds c s = Some s' \<and> console_of s' \<and>
      script_left script s' = script_left script s \<and> sent_by s' = sent_by s @ [c]"
    using s p putchar_reads [OF u h] by (simp add: script_left_def sent_by_def uart_sent_console_of)
qed

subsection \<open>Properties\<close>

lemma write_bytes_outside: "(\<forall>i < length cs. b \<noteq> a + of_nat i) \<Longrightarrow> write_bytes a cs m b = m b"
proof (induction cs arbitrary: a m)
  case (Cons c cs)
  have "b \<noteq> a + of_nat 0" using Cons.prems by blast
  then have "b \<noteq> a" by simp
  moreover have "\<forall>i < length cs. b \<noteq> a + 1 + of_nat i"
  proof (intro allI impI)
    fix i assume "i < length cs"
    then have "Suc i < length (c # cs)" by simp
    then have "b \<noteq> a + of_nat (Suc i)" using Cons.prems by blast
    then show "b \<noteq> a + 1 + of_nat i" by (simp add: add.assoc)
  qed
  ultimately show ?case using Cons.IH by simp
qed simp

lemma write_bytes_at:
  "i < length cs \<Longrightarrow> length cs < 2 ^ 32 \<Longrightarrow> write_bytes a cs m (a + of_nat i) = cs ! i"
proof (induction cs arbitrary: a m i)
  case (Cons c cs)
  show ?case
  proof (cases i)
    case 0
    have "a \<noteq> a + 1 + of_nat j" if "j < length cs" for j
    proof
      assume "a = a + 1 + of_nat j"
      then have "(of_nat (Suc j) :: u32) = of_nat 0" by (simp add: add.assoc)
      then show False using that Cons.prems(2) of_nat_inj32 [of "Suc j" 0] by simp
    qed
    then have "write_bytes (a + 1) cs (m(a := c)) a = (m(a := c)) a" by (intro write_bytes_outside) blast
    then show ?thesis using 0 by simp
  next
    case (Suc j)
    then have "write_bytes (a + 1) cs (m(a := c)) (a + 1 + of_nat j) = cs ! j" using Cons by simp
    moreover have "a + 1 + of_nat j = a + of_nat i" using Suc by (simp add: add.assoc)
    ultimately show ?thesis using Suc by simp
  qed
qed simp

text \<open>What the next call passes on of a collected line.\<close>

lemma collected_input:
  assumes "length cs < 2047" and m: "m' = (write_bytes buf cs m)(buf + of_nat (length cs) := 0)"
  shows "bytes_at m' buf (length cs) = cs" "user_input m' buf (of_nat (length cs)) = map (\<lambda>b. char_of (unat b)) cs"
proof -
  have at: "m' (buf + of_nat i) = cs ! i" if "i < length cs" for i
  proof -
    have "(of_nat i :: u32) \<noteq> of_nat (length cs)" using that assms(1) of_nat_inj32 [of i "length cs"] by simp
    then show ?thesis using that assms(1) write_bytes_at [of i cs buf m] by (simp add: m)
  qed
  show b: "bytes_at m' buf (length cs) = cs" by (rule nth_equalityI) (simp_all add: bytes_at_def at)
  have "unat (of_nat (length cs) :: u32) = length cs" using assms(1) by (simp add: unat_of_nat take_bit_nat_eq_self)
  then show "user_input m' buf (of_nat (length cs)) = map (\<lambda>b. char_of (unat b)) cs" using b by (simp add: user_input_def)
qed

text \<open>C32: Any text of fewer than 2047 bytes can be typed: with backslashes and line ends typed after a backslash,
  and then a line end, the editor, reading and echoing through system calls over the UART, ends with exactly that text in its buffer,
  terminated, as the bytes the next call passes on; it has consumed nothing more, and what it has sent is the echo.\<close>

theorem typed_line_collected:
  assumes "console_of app" "script_left script app = escape cs @ e # rest" "e \<in> {0x0A, 0x0D}" "length cs < 2047"
  shows "\<exists>m' app'. edit_line (tee_uart_getchar (keyboard script) splits cmds) (tee_uart_putchar (keyboard script) splits cmds)
      buf 2048 0 m False app = Some (of_nat (length cs), m', False, app') \<and>
    bytes_at m' buf (length cs) = cs \<and> m' (buf + of_nat (length cs)) = 0 \<and>
    user_input m' buf (of_nat (length cs)) = map (\<lambda>b. char_of (unat b)) cs \<and>
    script_left script app' = rest \<and> sent_by app' = sent_by app @ concat (map echo_of (cs @ [e]))"
proof -
  define m' where "m' = (write_bytes buf cs m)(buf + of_nat (length cs) := 0)"
  have l: "unat (0 :: u32) + length cs < unat ((2048 :: u32) - 1)" using assms(4) by simp
  obtain app' where e: "edit_line (tee_uart_getchar (keyboard script) splits cmds) (tee_uart_putchar (keyboard script) splits cmds)
      buf 2048 0 m False app = Some (of_nat (length cs), m', False, app')"
    "script_left script app' = rest" "sent_by app' = sent_by app @ concat (map echo_of (cs @ [e]))"
    using keys.edit_escaped [OF assms(1,2,3) l, where buf = buf and m = m and splits = splits and cmds = cmds] by (auto simp: m'_def)
  show ?thesis using e collected_input [OF assms(4) m'_def] by (auto simp: m'_def)
qed

lemma typed_line_collected_witness:
  "\<exists>m' app'. edit_line (tee_uart_getchar (keyboard (escape [69, 0x5c] @ [13])) (\<lambda>s. [length s]) [])
      (tee_uart_putchar (keyboard (escape [69, 0x5c] @ [13])) (\<lambda>s. [length s]) []) 0x78100 2048 0 (\<lambda>_. 0) False demo_app =
      Some (2, m', False, app') \<and> bytes_at m' 0x78100 2 = [69, 0x5c]"
proof -
  have c: "console_of demo_app" by (simp add: demo_app_def console_of_def console_def)
  have s: "script_left (escape [69, 0x5c] @ [13]) demo_app = escape [69, 0x5c] @ 13 # []"
    by (simp add: script_left_def demo_app_def app_hist_def console_reads_def)
  have "(13 :: u8) \<in> {0x0A, 0x0D}" "length [69, 0x5c :: u8] < 2047" by simp_all
  note w = typed_line_collected [OF c s this, of "\<lambda>s. [length s]" "[]" "0x78100" "\<lambda>_. 0"]
  have "length [69, 0x5c :: u8] = 2" by simp
  then show ?thesis using w by (metis of_nat_numeral)
qed

end
