(* ===== verification/Regs.thy ===== *)
theory Regs
  imports Mmio
begin

text \<open>
  What the drivers below share about their registers: an aligned offset is the address the
  accessors use, and a run of writes leaves in a storage register the value written to it when
  all the writes to that register agree. Offsets are natural numbers here, so that the layout of
  a block of registers is ordinary arithmetic.
\<close>

subsection \<open>Aligned offsets\<close>

lemma unat_of_nat_len_32: "a < 2 ^ 32 \<Longrightarrow> unat (of_nat a :: u32) = a"
  by (simp add: unat_of_nat take_bit_nat_eq_self)

lemma reg_addr_aligned:
  assumes "unat off mod 4 = 0"
  shows "reg_addr base off = mr_base base + off"
proof -
  have "4 * of_nat (unat off div 4) = (of_nat (4 * (unat off div 4)) :: u32)" by simp
  also have "4 * (unat off div 4) = unat off" using assms by auto
  finally show ?thesis by (simp add: reg_addr_of_nat)
qed

definition at_off :: "mmio_region_t \<Rightarrow> nat \<Rightarrow> u32" where
  "at_off base j = mr_base base + of_nat j"

lemma of_nat_offset_inj: "a < 2 ^ 32 \<Longrightarrow> b < 2 ^ 32 \<Longrightarrow> (of_nat a :: u32) = of_nat b \<longleftrightarrow> a = b"
  by (metis unat_of_nat_len_32)

lemma at_off_inj: "a < 2 ^ 32 \<Longrightarrow> b < 2 ^ 32 \<Longrightarrow> at_off base a = at_off base b \<longleftrightarrow> a = b"
  using of_nat_offset_inj [of a b] by (auto simp: at_off_def)

lemma reg_addr_at_off: "unat off = j \<Longrightarrow> j mod 4 = 0 \<Longrightarrow> reg_addr base off = at_off base j"
  by (auto simp: reg_addr_aligned at_off_def)

subsection \<open>Runs of writes\<close>

definition writes :: "mmio_region_t \<Rightarrow> (nat \<times> u32) list \<Rightarrow> hist" where
  "writes base ws = map (\<lambda>(j, v). Wr32 (at_off base j) v) ws"

lemma writes_simps [simp]:
  "writes base [] = []" "writes base ((j, v) # ws) = Wr32 (at_off base j) v # writes base ws"
  "writes base (us @ ws) = writes base us @ writes base ws"
  by (simp_all add: writes_def)

lemma writes_other:
  assumes "\<forall>(j, v)\<in>set ws. j < 2 ^ 32 \<and> j \<noteq> k" "k < 2 ^ 32"
  shows "fold step_mem (writes base ws) m (at_off base k) = m (at_off base k)"
  using assms by (induction ws arbitrary: m) (auto simp: at_off_inj)

text \<open>The register at offset \<open>k\<close> is written, and only ever with \<open>v\<close>.\<close>

lemma writes_agree:
  assumes "\<forall>(j, w)\<in>set ws. j < 2 ^ 32 \<and> (j = k \<longrightarrow> w = v)" "k < 2 ^ 32" "(k, v) \<in> set ws"
  shows "fold step_mem (writes base ws) m (at_off base k) = v"
  using assms
proof (induction ws arbitrary: m rule: rev_induct)
  case (snoc x ws)
  obtain j' w where x: "x = (j', w)" by (cases x)
  show ?case
  proof (cases "j' = k")
    case True
    then show ?thesis using snoc.prems by (simp add: x)
  next
    case False
    then have "(k, v) \<in> set ws" using snoc.prems(3) by (simp add: x)
    then show ?thesis using snoc False by (auto simp: x at_off_inj)
  qed
qed simp

lemma write_at:
  assumes "off = of_nat j" "j mod 4 = 0" "j < 2 ^ 32"
  shows "mmio_region_write32 base off v h = h @ writes base [(j, v)]"
  using assms by (simp add: mmio_region_write32_def reg_addr_at_off unat_of_nat_len_32)

text \<open>A loop that writes \<open>v\<close> to \<open>n\<close> consecutive registers from offset \<open>a\<close>.\<close>

lemma write_loop:
  assumes "\<And>i. i < n \<Longrightarrow> off (of_nat i) = of_nat (a + 4 * i)" "a mod 4 = 0" "a + 4 * n \<le> 2 ^ 32"
  shows "fold (\<lambda>i. mmio_region_write32 base (off (of_nat i)) v) [0..<n] h = h @ writes base (map (\<lambda>i. (a + 4 * i, v)) [0..<n])"
  using assms
proof (induction n)
  case (Suc n)
  have "(a + 4 * n) mod 4 = 0" using Suc.prems(2) by simp
  moreover have "a + 4 * n < 2 ^ 32" using Suc.prems(3) by simp
  ultimately show ?case
    using Suc.IH Suc.prems write_at [OF Suc.prems(1) [of n], of base v] by simp
qed simp

end
