(* ===== verification/Rv_Timer.thy ===== *)
theory Rv_Timer
  imports Regs
begin

text \<open>
  The timer driver, \<^verbatim>\<open>sw/riscv/lib/hal/rv_timer/rv_timer.c\<close>: per hart a 64-bit counter and a number of
  64-bit comparators that raise an interrupt when the counter reaches them. A pointer is an option, \<open>None\<close> for
  \<^verbatim>\<open>NULL\<close>; a value outside an enumeration, which takes the \<^verbatim>\<open>default\<close> branch, is \<open>None\<close> too. The
  counter advances while it is read, so its lemmas ask of the device only that it never runs backwards.
\<close>

definition RV_TIMER_CTRL_REG_OFFSET :: u32 where [reg_defs]: "RV_TIMER_CTRL_REG_OFFSET = 0x0"
definition RV_TIMER_CFG0_REG_OFFSET :: u32 where [reg_defs]: "RV_TIMER_CFG0_REG_OFFSET = 0x100"
definition RV_TIMER_CFG0_PRESCALE_MASK :: u32 where [reg_defs]: "RV_TIMER_CFG0_PRESCALE_MASK = 0xfff"
definition RV_TIMER_CFG0_PRESCALE_OFFSET :: u32 where [reg_defs]: "RV_TIMER_CFG0_PRESCALE_OFFSET = 0"
definition RV_TIMER_CFG0_PRESCALE_FIELD :: bitfield_field32_t where [reg_defs]:
  "RV_TIMER_CFG0_PRESCALE_FIELD = mk_field RV_TIMER_CFG0_PRESCALE_MASK RV_TIMER_CFG0_PRESCALE_OFFSET"
definition RV_TIMER_CFG0_STEP_MASK :: u32 where [reg_defs]: "RV_TIMER_CFG0_STEP_MASK = 0xff"
definition RV_TIMER_CFG0_STEP_OFFSET :: u32 where [reg_defs]: "RV_TIMER_CFG0_STEP_OFFSET = 16"
definition RV_TIMER_CFG0_STEP_FIELD :: bitfield_field32_t where [reg_defs]:
  "RV_TIMER_CFG0_STEP_FIELD = mk_field RV_TIMER_CFG0_STEP_MASK RV_TIMER_CFG0_STEP_OFFSET"
definition RV_TIMER_TIMER_V_LOWER0_REG_OFFSET :: u32 where [reg_defs]: "RV_TIMER_TIMER_V_LOWER0_REG_OFFSET = 0x104"
definition RV_TIMER_TIMER_V_UPPER0_REG_OFFSET :: u32 where [reg_defs]: "RV_TIMER_TIMER_V_UPPER0_REG_OFFSET = 0x108"
definition RV_TIMER_COMPARE_LOWER0_0_REG_OFFSET :: u32 where [reg_defs]: "RV_TIMER_COMPARE_LOWER0_0_REG_OFFSET = 0x10c"
definition RV_TIMER_COMPARE_UPPER0_0_REG_OFFSET :: u32 where [reg_defs]: "RV_TIMER_COMPARE_UPPER0_0_REG_OFFSET = 0x110"
definition RV_TIMER_INTR_ENABLE0_REG_OFFSET :: u32 where [reg_defs]: "RV_TIMER_INTR_ENABLE0_REG_OFFSET = 0x114"
definition RV_TIMER_INTR_STATE0_REG_OFFSET :: u32 where [reg_defs]: "RV_TIMER_INTR_STATE0_REG_OFFSET = 0x118"
definition RV_TIMER_INTR_TEST0_REG_OFFSET :: u32 where [reg_defs]: "RV_TIMER_INTR_TEST0_REG_OFFSET = 0x11c"

datatype rv_timer_enabled_t = kRvTimerDisabled | kRvTimerEnabled
datatype rv_timer_result_t = kRvTimerOk | kRvTimerBadArg | kRvTimerError
datatype rv_timer_approximate_tick_params_result_t =
    kRvTimerApproximateTickParamsOk | kRvTimerApproximateTickParamsBadArg | kRvTimerApproximateTickParamsError
  | kRvTimerApproximateTickParamsUnrepresentable

record rv_timer_tick_params_t =
  prescale :: u16
  tick_step :: u8

record rv_timer_config_t =
  hart_count :: u32
  comparator_count :: u32

record rv_timer_t =
  tm_base :: mmio_region_t
  tm_config :: rv_timer_config_t

subsection \<open>Register addresses\<close>

definition kHartRegisterSpacing :: u32 where "kHartRegisterSpacing = 0x100"

definition reg_for_hart :: "u32 \<Rightarrow> u32 \<Rightarrow> u32" where
  "reg_for_hart hart reg_offset = kHartRegisterSpacing * hart + reg_offset"

definition kComparatorsInReggenHeader :: u32 where
  "kComparatorsInReggenHeader = (RV_TIMER_INTR_ENABLE0_REG_OFFSET - RV_TIMER_COMPARE_LOWER0_0_REG_OFFSET) div 8"

definition irq_reg_for_hart :: "u32 \<Rightarrow> u32 \<Rightarrow> u32 \<Rightarrow> u32" where
  "irq_reg_for_hart hart_id comparators reg_offset =
     (let extra_comparator_offset = 8 * (comparators - kComparatorsInReggenHeader)
      in reg_for_hart hart_id reg_offset + extra_comparator_offset)"

subsection \<open>Tick parameters\<close>

function euclidean_gcd :: "u64 \<Rightarrow> u64 \<Rightarrow> u64" where
  "euclidean_gcd a b = (if b \<noteq> 0 then euclidean_gcd b (a mod b) else a)"
  by pat_completeness auto
termination
  by (relation "measure (\<lambda>(a, b). unat b)") (auto simp: unat_mod_distrib unat_gt_0)

declare euclidean_gcd.simps [simp del]

text \<open>\<open>None\<close> is the division by zero, which C leaves undefined.\<close>

definition rv_timer_approximate_tick_params ::
  "u64 \<Rightarrow> u64 \<Rightarrow> rv_timer_tick_params_t option
     \<Rightarrow> (rv_timer_approximate_tick_params_result_t \<times> rv_timer_tick_params_t option) option" where
  "rv_timer_approximate_tick_params clock_freq counter_freq out =
     (case out of None \<Rightarrow> Some (kRvTimerApproximateTickParamsBadArg, None)
      | Some p \<Rightarrow>
          let gcd = euclidean_gcd clock_freq counter_freq
          in if gcd = 0 then None
             else let pre = clock_freq div gcd - 1; step = counter_freq div gcd
                  in if pre > ucast RV_TIMER_CFG0_PRESCALE_MASK \<or> step > ucast RV_TIMER_CFG0_STEP_MASK
                     then Some (kRvTimerApproximateTickParamsUnrepresentable, out)
                     else Some (kRvTimerApproximateTickParamsOk, Some (p\<lparr>prescale := ucast pre, tick_step := ucast step\<rparr>)))"

definition rv_timer_set_tick_params ::
  "rv_timer_t option \<Rightarrow> u32 \<Rightarrow> rv_timer_tick_params_t \<Rightarrow> hist \<Rightarrow> rv_timer_result_t \<times> hist" where
  "rv_timer_set_tick_params timer hart_id params h =
     (case timer of None \<Rightarrow> (kRvTimerBadArg, h)
      | Some t \<Rightarrow>
          if hart_id \<ge> hart_count (tm_config t) then (kRvTimerBadArg, h)
          else let c1 = bitfield_field32_write 0 RV_TIMER_CFG0_PRESCALE_FIELD (ucast (prescale params));
                   c2 = bitfield_field32_write c1 RV_TIMER_CFG0_STEP_FIELD (ucast (tick_step params))
               in (kRvTimerOk, mmio_region_write32 (tm_base t) (reg_for_hart hart_id RV_TIMER_CFG0_REG_OFFSET) c2 h))"

subsection \<open>The counter\<close>

text \<open>One bit of a register, set or cleared as an enumeration value says.\<close>

definition switch_bit :: "device \<Rightarrow> mmio_region_t \<Rightarrow> u32 \<Rightarrow> u32 \<Rightarrow> rv_timer_enabled_t option \<Rightarrow> hist \<Rightarrow> rv_timer_result_t \<times> hist" where
  "switch_bit dev base reg k state h =
     (case state of
        Some kRvTimerEnabled \<Rightarrow> (kRvTimerOk, mmio_region_nonatomic_set_bit32 dev base reg k h)
      | Some kRvTimerDisabled \<Rightarrow> (kRvTimerOk, mmio_region_nonatomic_clear_bit32 dev base reg k h)
      | None \<Rightarrow> (kRvTimerBadArg, h))"

definition rv_timer_counter_set_enabled ::
  "device \<Rightarrow> rv_timer_t option \<Rightarrow> u32 \<Rightarrow> rv_timer_enabled_t option \<Rightarrow> hist \<Rightarrow> rv_timer_result_t \<times> hist" where
  "rv_timer_counter_set_enabled dev timer hart_id state h =
     (case timer of None \<Rightarrow> (kRvTimerBadArg, h)
      | Some t \<Rightarrow>
          if hart_id \<ge> hart_count (tm_config t) then (kRvTimerBadArg, h)
          else switch_bit dev (tm_base t) RV_TIMER_CTRL_REG_OFFSET hart_id state h)"

definition join64 :: "u32 \<Rightarrow> u32 \<Rightarrow> u64" where
  "join64 upper lower = push_bit 32 (ucast upper) OR ucast lower"

partial_function (option) counter_loop :: "device \<Rightarrow> mmio_region_t \<Rightarrow> u32 \<Rightarrow> hist \<Rightarrow> (u64 \<times> hist) option" where
  "counter_loop dev base hart_id h =
     (let (upper, h1) = mmio_region_read32 dev base (reg_for_hart hart_id RV_TIMER_TIMER_V_UPPER0_REG_OFFSET) h;
          (lower, h2) = mmio_region_read32 dev base (reg_for_hart hart_id RV_TIMER_TIMER_V_LOWER0_REG_OFFSET) h1;
          (overflow_check, h3) = mmio_region_read32 dev base (reg_for_hart hart_id RV_TIMER_TIMER_V_UPPER0_REG_OFFSET) h2
      in if upper = overflow_check then Some (join64 upper lower, h3)
         else counter_loop dev base hart_id h3)"

definition rv_timer_counter_read ::
  "device \<Rightarrow> rv_timer_t option \<Rightarrow> u32 \<Rightarrow> u64 option \<Rightarrow> hist \<Rightarrow> (rv_timer_result_t \<times> u64 option \<times> hist) option" where
  "rv_timer_counter_read dev timer hart_id out h =
     (case (timer, out) of
        (Some t, Some _) \<Rightarrow>
          if hart_id \<ge> hart_count (tm_config t) then Some (kRvTimerBadArg, out, h)
          else map_option (\<lambda>(v, h'). (kRvTimerOk, Some v, h')) (counter_loop dev (tm_base t) hart_id h)
      | _ \<Rightarrow> Some (kRvTimerBadArg, out, h))"

subsection \<open>The comparators\<close>

definition rv_timer_arm :: "rv_timer_t option \<Rightarrow> u32 \<Rightarrow> u32 \<Rightarrow> u64 \<Rightarrow> hist \<Rightarrow> rv_timer_result_t \<times> hist" where
  "rv_timer_arm timer hart_id comp_id threshold h =
     (case timer of None \<Rightarrow> (kRvTimerBadArg, h)
      | Some t \<Rightarrow>
          if hart_id \<ge> hart_count (tm_config t) \<or> comp_id \<ge> comparator_count (tm_config t) then (kRvTimerBadArg, h)
          else let lower = ucast threshold;
                   upper = ucast (drop_bit 32 threshold);
                   lower_reg = reg_for_hart hart_id RV_TIMER_COMPARE_LOWER0_0_REG_OFFSET + 8 * comp_id;
                   upper_reg = reg_for_hart hart_id RV_TIMER_COMPARE_UPPER0_0_REG_OFFSET + 8 * comp_id;
                   h1 = mmio_region_write32 (tm_base t) upper_reg 0xffffffff h;
                   h2 = mmio_region_write32 (tm_base t) lower_reg lower h1
               in (kRvTimerOk, mmio_region_write32 (tm_base t) upper_reg upper h2))"

subsection \<open>Interrupts\<close>

text \<open>The arguments that name a comparator of the timer.\<close>

definition comp_exists :: "rv_timer_t \<Rightarrow> u32 \<Rightarrow> u32 \<Rightarrow> bool" where
  "comp_exists t hart_id comp_id \<longleftrightarrow>
     \<not> (hart_id \<ge> hart_count (tm_config t) \<or> comp_id \<ge> comparator_count (tm_config t))"

definition rv_timer_irq_enable ::
  "device \<Rightarrow> rv_timer_t option \<Rightarrow> u32 \<Rightarrow> u32 \<Rightarrow> rv_timer_enabled_t option \<Rightarrow> hist \<Rightarrow> rv_timer_result_t \<times> hist" where
  "rv_timer_irq_enable dev timer hart_id comp_id state h =
     (case timer of None \<Rightarrow> (kRvTimerBadArg, h)
      | Some t \<Rightarrow>
          if \<not> comp_exists t hart_id comp_id then (kRvTimerBadArg, h)
          else let reg = irq_reg_for_hart hart_id (comparator_count (tm_config t)) RV_TIMER_INTR_ENABLE0_REG_OFFSET
               in switch_bit dev (tm_base t) reg comp_id state h)"

definition rv_timer_irq_get ::
  "device \<Rightarrow> rv_timer_t option \<Rightarrow> u32 \<Rightarrow> u32 \<Rightarrow> bool option \<Rightarrow> hist \<Rightarrow> rv_timer_result_t \<times> bool option \<times> hist" where
  "rv_timer_irq_get dev timer hart_id comp_id flag_out h =
     (case (timer, flag_out) of
        (Some t, Some _) \<Rightarrow>
          if \<not> comp_exists t hart_id comp_id then (kRvTimerBadArg, flag_out, h)
          else let reg = irq_reg_for_hart hart_id (comparator_count (tm_config t)) RV_TIMER_INTR_STATE0_REG_OFFSET;
                   (b, h1) = mmio_region_get_bit32 dev (tm_base t) reg comp_id h
               in (kRvTimerOk, Some b, h1)
      | _ \<Rightarrow> (kRvTimerBadArg, flag_out, h))"

text \<open>Both write the bit of one comparator, to the status and to the test register.\<close>

definition write_comp_bit :: "u32 \<Rightarrow> rv_timer_t option \<Rightarrow> u32 \<Rightarrow> u32 \<Rightarrow> hist \<Rightarrow> rv_timer_result_t \<times> hist" where
  "write_comp_bit reg_offset timer hart_id comp_id h =
     (case timer of None \<Rightarrow> (kRvTimerBadArg, h)
      | Some t \<Rightarrow>
          if \<not> comp_exists t hart_id comp_id then (kRvTimerBadArg, h)
          else let reg = irq_reg_for_hart hart_id (comparator_count (tm_config t)) reg_offset
               in (kRvTimerOk, mmio_region_write32 (tm_base t) reg (push_bit (unat comp_id) 1) h))"

definition rv_timer_irq_clear :: "rv_timer_t option \<Rightarrow> u32 \<Rightarrow> u32 \<Rightarrow> hist \<Rightarrow> rv_timer_result_t \<times> hist" where
  "rv_timer_irq_clear = write_comp_bit RV_TIMER_INTR_STATE0_REG_OFFSET"

definition rv_timer_irq_force :: "rv_timer_t option \<Rightarrow> u32 \<Rightarrow> u32 \<Rightarrow> hist \<Rightarrow> rv_timer_result_t \<times> hist" where
  "rv_timer_irq_force = write_comp_bit RV_TIMER_INTR_TEST0_REG_OFFSET"

definition rv_timer_irq_disable ::
  "device \<Rightarrow> rv_timer_t option \<Rightarrow> u32 \<Rightarrow> u32 option \<Rightarrow> hist \<Rightarrow> rv_timer_result_t \<times> u32 option \<times> hist" where
  "rv_timer_irq_disable dev timer hart_id state h =
     (case timer of None \<Rightarrow> (kRvTimerBadArg, state, h)
      | Some t \<Rightarrow>
          if hart_id \<ge> hart_count (tm_config t) then (kRvTimerBadArg, state, h)
          else let reg = irq_reg_for_hart hart_id (comparator_count (tm_config t)) RV_TIMER_INTR_ENABLE0_REG_OFFSET;
                   (state', h1) = (case state of None \<Rightarrow> (None, h)
                                   | Some _ \<Rightarrow> let (v, h1) = mmio_region_read32 dev (tm_base t) reg h in (Some v, h1))
               in (kRvTimerOk, state', mmio_region_write32 (tm_base t) reg 0 h1))"

definition rv_timer_irq_restore :: "rv_timer_t option \<Rightarrow> u32 \<Rightarrow> u32 \<Rightarrow> hist \<Rightarrow> rv_timer_result_t \<times> hist" where
  "rv_timer_irq_restore timer hart_id state h =
     (case timer of None \<Rightarrow> (kRvTimerBadArg, h)
      | Some t \<Rightarrow>
          if hart_id \<ge> hart_count (tm_config t) then (kRvTimerBadArg, h)
          else let reg = irq_reg_for_hart hart_id (comparator_count (tm_config t)) RV_TIMER_INTR_ENABLE0_REG_OFFSET
               in (kRvTimerOk, mmio_region_write32 (tm_base t) reg state h))"

subsection \<open>Reset\<close>

text \<open>The two loops of \<^verbatim>\<open>rv_timer_reset\<close>, over the comparators still to do and the harts still to do.\<close>

fun reset_comparators :: "rv_timer_t \<Rightarrow> u32 \<Rightarrow> u32 list \<Rightarrow> hist \<Rightarrow> rv_timer_result_t \<times> hist" where
  "reset_comparators t hart_id [] h = (kRvTimerOk, h)"
| "reset_comparators t hart_id (comp_id # cs) h =
     (let (e, h1) = rv_timer_arm (Some t) hart_id comp_id 0xffffffffffffffff h
      in if e \<noteq> kRvTimerOk then (e, h1) else reset_comparators t hart_id cs h1)"

definition upto_u32 :: "u32 \<Rightarrow> u32 list" where
  "upto_u32 n = map of_nat [0..<unat n]"

fun reset_harts :: "rv_timer_t \<Rightarrow> u32 list \<Rightarrow> hist \<Rightarrow> rv_timer_result_t \<times> hist" where
  "reset_harts t [] h = (kRvTimerOk, h)"
| "reset_harts t (hart_id # hs) h =
     (let n = comparator_count (tm_config t);
          irq_status = irq_reg_for_hart hart_id n RV_TIMER_INTR_STATE0_REG_OFFSET;
          irq_enable = irq_reg_for_hart hart_id n RV_TIMER_INTR_ENABLE0_REG_OFFSET;
          h1 = mmio_region_write32 (tm_base t) irq_enable 0 h;
          h2 = mmio_region_write32 (tm_base t) irq_status 0xffffffff h1;
          (e, h3) = reset_comparators t hart_id (upto_u32 n) h2
      in if e \<noteq> kRvTimerOk then (e, h3)
         else let h4 = mmio_region_write32 (tm_base t) (reg_for_hart hart_id RV_TIMER_TIMER_V_LOWER0_REG_OFFSET) 0 h3;
                  h5 = mmio_region_write32 (tm_base t) (reg_for_hart hart_id RV_TIMER_TIMER_V_UPPER0_REG_OFFSET) 0 h4
              in reset_harts t hs h5)"

definition rv_timer_reset :: "rv_timer_t option \<Rightarrow> hist \<Rightarrow> rv_timer_result_t \<times> hist" where
  "rv_timer_reset timer h =
     (case timer of None \<Rightarrow> (kRvTimerBadArg, h)
      | Some t \<Rightarrow>
          reset_harts t (upto_u32 (hart_count (tm_config t)))
            (mmio_region_write32 (tm_base t) RV_TIMER_CTRL_REG_OFFSET 0x0 h))"

definition rv_timer_init ::
  "mmio_region_t \<Rightarrow> rv_timer_config_t \<Rightarrow> rv_timer_t option \<Rightarrow> hist \<Rightarrow> rv_timer_result_t \<times> rv_timer_t option \<times> hist" where
  "rv_timer_init base_addr config timer_out h =
     (case timer_out of None \<Rightarrow> (kRvTimerBadArg, None, h)
      | Some t \<Rightarrow>
          if hart_count config < 1 \<or> comparator_count config < 1 then (kRvTimerBadArg, timer_out, h)
          else let t' = t\<lparr>tm_base := base_addr, tm_config := config\<rparr>; (r, h') = rv_timer_reset (Some t') h
               in (r, Some t', h'))"

subsection \<open>Exact tick parameters\<close>

lemma euclidean_gcd_gcd: "unat (euclidean_gcd a b) = gcd (unat a) (unat b)"
proof (induction a b rule: euclidean_gcd.induct)
  case (1 a b)
  show ?case
  proof (cases "b = 0")
    case True
    then show ?thesis by (simp add: euclidean_gcd.simps)
  next
    case False
    then have "unat (euclidean_gcd a b) = gcd (unat b) (unat (a mod b))"
      using 1 by (simp add: euclidean_gcd.simps [of a])
    then show ?thesis by (simp add: unat_mod_distrib gcd_red_nat [of "unat a"])
  qed
qed

text \<open>What the hardware can count: the counter advances by \<open>s\<close> every \<open>p + 1\<close> clock cycles.\<close>

definition tick_representable :: "u64 \<Rightarrow> u64 \<Rightarrow> bool" where
  "tick_representable clock_freq counter_freq \<longleftrightarrow>
     clock_freq \<noteq> 0 \<and> (\<exists>p\<le>0xfff. \<exists>s\<le>0xff. unat counter_freq * (p + 1) = unat clock_freq * s)"

text \<open>In lowest terms, a representable ratio has small terms, and lowest terms are what is computed.\<close>

lemma lowest_terms:
  assumes "k = g * k'" "c = g * c'" "g > 0" "c' > 0" "coprime k' c'" "k * q = c * s" "(q::nat) > 0"
  shows "c' \<le> q" "k' \<le> s"
proof -
  have eq: "k' * q = c' * s" using assms(1-3,6) by (simp add: mult.assoc)
  then have "c' dvd k' * q" by simp
  then have "c' dvd q" using assms(5) by (simp add: coprime_dvd_mult_right_iff coprime_commute)
  then show "c' \<le> q" using assms(7) by (auto dest: dvd_imp_le)
  have "k' dvd c' * s" using eq [symmetric] by simp
  then have "k' dvd s" using assms(5) by (simp add: coprime_dvd_mult_right_iff)
  moreover have "s > 0" if "k' > 0" using eq that assms(4,7) by (cases s) auto
  ultimately show "k' \<le> s" by (cases "k' = 0") (auto dest: dvd_imp_le)
qed

lemma tick_quotients:
  fixes clock counter :: u64
  assumes "clock \<noteq> 0"
  defines "g \<equiv> euclidean_gcd clock counter"
  defines "c' \<equiv> clock div g" and "k' \<equiv> counter div g"
  shows "unat counter * unat c' = unat clock * unat k'" "c' \<noteq> 0" "g \<noteq> 0"
    "unat counter * q = unat clock * s \<Longrightarrow> q > 0 \<Longrightarrow> unat c' \<le> q \<and> unat k' \<le> s"
proof -
  have c0: "unat clock > 0" using assms(1) by (simp add: unat_gt_0)
  have g: "unat g = gcd (unat clock) (unat counter)" by (simp add: g_def euclidean_gcd_gcd)
  with c0 have g0: "unat g > 0" by simp
  then show "g \<noteq> 0" by auto
  have c: "unat clock = unat g * unat c'" and k: "unat counter = unat g * unat k'"
    by (simp_all add: c'_def k'_def unat_div_distrib g)
  have c'0: "unat c' > 0" using c c0 by (cases "unat c' = 0") auto
  then show "c' \<noteq> 0" by auto
  show "unat counter * unat c' = unat clock * unat k'" by (simp add: c k)
  have cop: "coprime (unat k') (unat c')"
    using c0 div_gcd_coprime [of "unat counter" "unat clock"]
    by (simp add: c'_def k'_def unat_div_distrib g gcd.commute)
  show "unat c' \<le> q \<and> unat k' \<le> s" if "unat counter * q = unat clock * s" "q > 0"
    using lowest_terms [OF k c g0 c'0 cop that] by simp
qed

lemma tick_params_cases:
  fixes clock counter :: u64
  assumes "clock \<noteq> 0"
  defines "g \<equiv> euclidean_gcd clock counter"
  defines "c' \<equiv> clock div g" and "k' \<equiv> counter div g"
  shows "rv_timer_approximate_tick_params clock counter (Some p) =
     (if unat c' \<le> 0x1000 \<and> unat k' \<le> 0xff
      then Some (kRvTimerApproximateTickParamsOk, Some (p\<lparr>prescale := ucast (c' - 1), tick_step := ucast k'\<rparr>))
      else Some (kRvTimerApproximateTickParamsUnrepresentable, Some p))"
proof -
  note q = tick_quotients [OF assms(1), of counter, folded g_def, folded c'_def k'_def]
  have "unat (c' - 1) = unat c' - 1" using q(2) by (simp add: unat_minus_one)
  then have "(c' - 1 > 0xfff) = (\<not> unat c' \<le> 0x1000)" "(k' > 0xff) = (\<not> unat k' \<le> 0xff)"
    by (auto simp: word_less_nat_alt)
  then show ?thesis
    using q(3) by (simp add: rv_timer_approximate_tick_params_def reg_defs Let_def flip: g_def c'_def k'_def)
qed

text \<open>C18: For every clock and counter frequency that are not both zero, the tick parameters are found exactly
  when some prescaler of twelve bits and step of eight bits give that ratio of frequencies without rounding, and
  then those returned do; when none does the output is left alone. For two zero frequencies, and
  only then, the code divides by zero.\<close>

theorem tick_params_exact:
  "case rv_timer_approximate_tick_params clock_freq counter_freq (Some p) of
     None \<Rightarrow> clock_freq = 0 \<and> counter_freq = 0
   | Some (r, out) \<Rightarrow>
       (clock_freq, counter_freq) \<noteq> (0, 0) \<and>
       (if tick_representable clock_freq counter_freq
        then r = kRvTimerApproximateTickParamsOk \<and>
             (case out of None \<Rightarrow> False
              | Some tp \<Rightarrow> unat counter_freq * (unat (prescale tp) + 1) = unat clock_freq * unat (tick_step tp) \<and>
                          prescale tp \<le> 0xfff)
        else r = kRvTimerApproximateTickParamsUnrepresentable \<and> out = Some p)"
proof (cases "clock_freq = 0")
  case True
  have "euclidean_gcd 0 counter_freq = counter_freq"
    using euclidean_gcd_gcd [of 0 counter_freq] by (simp add: word_unat_eq_iff)
  then show ?thesis
    using True by (simp add: rv_timer_approximate_tick_params_def reg_defs Let_def tick_representable_def)
next
  case False
  define g where "g = euclidean_gcd clock_freq counter_freq"
  define c' where "c' = clock_freq div g"
  define k' where "k' = counter_freq div g"
  note q = tick_quotients [OF False, of counter_freq, folded g_def, folded c'_def k'_def]
  note cases = tick_params_cases [OF False, of counter_freq p, folded g_def, folded c'_def k'_def]
  have m1: "unat (c' - 1) = unat c' - 1" and c'0: "unat c' > 0" using q(2) by (simp_all add: unat_minus_one unat_gt_0)
  have rep: "tick_representable clock_freq counter_freq \<longleftrightarrow> unat c' \<le> 0x1000 \<and> unat k' \<le> 0xff"
  proof
    assume "tick_representable clock_freq counter_freq"
    then obtain a b where "a \<le> 0xfff" "b \<le> 0xff" "unat counter_freq * (a + 1) = unat clock_freq * b"
      by (auto simp: tick_representable_def)
    then show "unat c' \<le> 0x1000 \<and> unat k' \<le> 0xff" using q(4) [of "a + 1" b] by auto
  next
    assume small: "unat c' \<le> 0x1000 \<and> unat k' \<le> 0xff"
    have "unat counter_freq * ((unat c' - 1) + 1) = unat clock_freq * unat k'" using q(1) c'0 by simp
    moreover have "unat c' - 1 \<le> 0xfff" using small by linarith
    ultimately show "tick_representable clock_freq counter_freq"
      using False small unfolding tick_representable_def by blast
  qed
  have vals: "unat (ucast (c' - 1) :: u16) = unat c' - 1" "unat (ucast k' :: u8) = unat k'"
    if "unat c' \<le> 0x1000" "unat k' \<le> 0xff"
    using that by (simp_all add: unsigned_ucast_eq take_bit_nat_eq_self m1)
  have "unat c' - Suc 0 \<le> 4095" if "unat c' \<le> 4096" using that by linarith
  then show ?thesis
    using False q(1) c'0 vals by (simp add: cases rep word_le_nat_alt)
qed

subsection \<open>Reading the running counter\<close>

text \<open>
  \<open>counts dev lo hi cnt\<close>: the two registers show the halves of a counter with value \<open>cnt h\<close> at each access,
  and the counter does not run backwards from one access to the next. It may advance by any
  amount, so that the halves read one after the other may belong to different values.
\<close>

definition counts :: "device \<Rightarrow> u32 \<Rightarrow> u32 \<Rightarrow> (hist \<Rightarrow> u64) \<Rightarrow> bool" where
  "counts dev lo hi cnt \<longleftrightarrow>
     (\<forall>h. dev32 dev h lo = ucast (cnt h) \<and> dev32 dev h hi = ucast (drop_bit 32 (cnt h)) \<and> (\<forall>e. cnt h \<le> cnt (h @ [e])))"

lemma countsD:
  assumes "counts dev lo hi cnt"
  shows "dev32 dev h lo = ucast (cnt h)" "dev32 dev h hi = ucast (drop_bit 32 (cnt h))" "cnt h \<le> cnt (h @ [e])"
  using assms by (auto simp: counts_def)

lemma join_halves: "join64 (ucast (drop_bit 32 c)) (ucast c) = c"
  unfolding join64_def by (rule bit_word_eqI) (auto simp: bit_simps not_less)

lemma len32: "LENGTH(32) = 32"
  by simp

lemma unat_upper: "unat (ucast (drop_bit 32 c) :: u32) = unat (c :: u64) div 2 ^ 32"
proof -
  have d: "unat (drop_bit 32 c) = unat c div 2 ^ 32" by (simp add: drop_bit_eq_div unat_div_distrib)
  have "unat c < 2 ^ 64" using unsigned_less [of c, where 'a = nat] by simp
  then have "unat c div 2 ^ 32 < 2 ^ 32" by (simp add: div_less_iff_less_mult)
  then show ?thesis by (simp only: unsigned_ucast_eq d take_bit_nat_eq_self len32)
qed

lemma upper_mono: "c \<le> d \<Longrightarrow> (ucast (drop_bit 32 c) :: u32) \<le> ucast (drop_bit 32 (d :: u64))"
  by (simp add: word_le_nat_alt unat_upper div_le_mono)

text \<open>The retry happens only when the upper half has grown, so it ends; and when both reads of the upper half agree it
  has not changed in between.\<close>

lemma counter_loop_reads:
  assumes "counts dev (reg_addr base (reg_for_hart hart RV_TIMER_TIMER_V_LOWER0_REG_OFFSET))
             (reg_addr base (reg_for_hart hart RV_TIMER_TIMER_V_UPPER0_REG_OFFSET)) cnt"
  shows "\<exists>es h'. counter_loop dev base hart h = Some (cnt (h @ es), h') \<and> cnt h \<le> cnt (h @ es) \<and> cnt (h @ es) \<le> cnt h'"
proof (induction "2 ^ 32 - unat (dev32 dev h (reg_addr base (reg_for_hart hart RV_TIMER_TIMER_V_UPPER0_REG_OFFSET)))"
    arbitrary: h rule: less_induct)
  case less
  let ?lo = "reg_addr base (reg_for_hart hart RV_TIMER_TIMER_V_LOWER0_REG_OFFSET)"
  let ?hi = "reg_addr base (reg_for_hart hart RV_TIMER_TIMER_V_UPPER0_REG_OFFSET)"
  note c = countsD [OF assms]
  let ?up = "\<lambda>h. ucast (drop_bit 32 (cnt h)) :: u32"
  define h1 where "h1 = h @ [Rd32 ?hi (?up h)]"
  define h2 where "h2 = h1 @ [Rd32 ?lo (ucast (cnt h1))]"
  define h3 where "h3 = h2 @ [Rd32 ?hi (?up h2)]"
  have step: "counter_loop dev base hart h =
      (if ?up h = ?up h2 then Some (join64 (?up h) (ucast (cnt h1)), h3)
       else counter_loop dev base hart h3)"
    by (subst counter_loop.simps) (simp add: mmio_region_read32_def Let_def c h1_def h2_def h3_def)
  have m: "cnt h \<le> cnt h1" "cnt h1 \<le> cnt h2" "cnt h2 \<le> cnt h3"
    unfolding h1_def h2_def h3_def by (rule c(3))+
  then have u: "?up h \<le> ?up h1" "?up h1 \<le> ?up h2" "?up h2 \<le> ?up h3" by (simp_all add: upper_mono)
  show ?case
  proof (cases "?up h = ?up h2")
    case True
    then have "?up h = ?up h1" using u by simp
    then have "counter_loop dev base hart h = Some (cnt h1, h3)" using True by (simp add: step join_halves)
    moreover have "cnt h1 \<le> cnt h3" using m by simp
    ultimately show ?thesis using m(1) by (auto simp: h1_def)
  next
    case False
    then have "?up h < ?up h3" using u by simp
    then have "2 ^ 32 - unat (dev32 dev h3 ?hi) < 2 ^ 32 - unat (dev32 dev h ?hi)"
      using unat_lt32 [of "?up h3"] by (simp add: c word_less_nat_alt)
    from less [OF this] obtain es h' where "counter_loop dev base hart h3 = Some (cnt (h3 @ es), h')"
      "cnt h3 \<le> cnt (h3 @ es)" "cnt (h3 @ es) \<le> cnt h'" by blast
    moreover have "cnt h \<le> cnt h3" using m by simp
    moreover have "h3 @ es = h @ (drop (length h) h3 @ es)" by (simp add: h1_def h2_def h3_def)
    ultimately show ?thesis using False step by (metis order_trans)
  qed
qed

text \<open>C16: On a counter that never runs backwards, reading it returns, however fast it counts, and the value is
  one that the counter had at some moment during the call: never less than at the start, never more than at the
  end, and never put together from halves of different values.\<close>

theorem counter_read_exact:
  assumes "counts dev (reg_addr (tm_base t) (reg_for_hart hart_id RV_TIMER_TIMER_V_LOWER0_REG_OFFSET))
             (reg_addr (tm_base t) (reg_for_hart hart_id RV_TIMER_TIMER_V_UPPER0_REG_OFFSET)) cnt"
    and "hart_id < hart_count (tm_config t)"
  shows "\<exists>es h'. rv_timer_counter_read dev (Some t) hart_id (Some v0) h = Some (kRvTimerOk, Some (cnt (h @ es)), h') \<and>
           cnt h \<le> cnt (h @ es) \<and> cnt (h @ es) \<le> cnt h'"
  using counter_loop_reads [OF assms(1), of h] assms(2)
  by (fastforce simp: rv_timer_counter_read_def not_le)

text \<open>A counter that stands just below the carry into the upper half and advances with every access.\<close>

definition ticking_dev :: device where
  "ticking_dev = \<lparr>dev32 = (\<lambda>h a. let c = 0xffffffff + of_nat (min (length h) 9) :: u64
      in if a = 0x108 then ucast (drop_bit 32 c) else ucast c), dev8 = (\<lambda>h a. 0)\<rparr>"

lemma counter_read_exact_witness:
  "\<exists>(es :: hist) h'. rv_timer_counter_read ticking_dev (Some \<lparr>tm_base = \<lparr>mr_base = 0\<rparr>, tm_config = \<lparr>hart_count = 1, comparator_count = 1\<rparr>\<rparr>)
      0 (Some 0) [] = Some (kRvTimerOk, Some (0xffffffff + of_nat (min (length es) 9)), h')"
proof -
  let ?t = "\<lparr>tm_base = \<lparr>mr_base = 0\<rparr>, tm_config = \<lparr>hart_count = 1, comparator_count = 1\<rparr>\<rparr>"
  let ?cnt = "\<lambda>h :: hist. 0xffffffff + of_nat (min (length h) 9) :: u64"
  have "?cnt h \<le> ?cnt (h @ [e])" for h e
  proof -
    have "unat (?cnt g) = 0xffffffff + min (length g) 9" for g :: hist
      by (simp add: unat_word_ariths unat_of_nat take_bit_nat_eq_self)
    from this [of h] this [of "h @ [e]"] show ?thesis by (simp only: word_le_nat_alt length_append)
  qed
  then have "counts ticking_dev (reg_addr (tm_base ?t) (reg_for_hart 0 RV_TIMER_TIMER_V_LOWER0_REG_OFFSET))
             (reg_addr (tm_base ?t) (reg_for_hart 0 RV_TIMER_TIMER_V_UPPER0_REG_OFFSET)) ?cnt"
    by (simp add: counts_def ticking_dev_def reg_addr_def reg_for_hart_def reg_defs Let_def)
  moreover have "0 < hart_count (tm_config ?t)" by simp
  ultimately obtain es h'
    where "rv_timer_counter_read ticking_dev (Some ?t) 0 (Some 0) [] = Some (kRvTimerOk, Some (?cnt ([] @ es)), h')"
    using counter_read_exact [of ticking_dev ?t 0 ?cnt 0 "[]"] by blast
  then show ?thesis by auto
qed

subsection \<open>Arming a comparator\<close>

text \<open>What a comparator is set to, and the number it stands for.\<close>

definition compare_reg :: "rv_timer_t \<Rightarrow> u32 \<Rightarrow> u32 \<Rightarrow> u32 \<Rightarrow> u32" where
  "compare_reg t hart_id comp_id off = reg_addr (tm_base t) (reg_for_hart hart_id off + 8 * comp_id)"

definition comparator :: "rv_timer_t \<Rightarrow> u32 \<Rightarrow> u32 \<Rightarrow> (u32 \<Rightarrow> u32) \<Rightarrow> u64" where
  "comparator t hart_id comp_id m =
     join64 (m (compare_reg t hart_id comp_id RV_TIMER_COMPARE_UPPER0_0_REG_OFFSET))
            (m (compare_reg t hart_id comp_id RV_TIMER_COMPARE_LOWER0_0_REG_OFFSET))"

lemma unat_join: "unat (join64 a b) = unat a * 2 ^ 32 + unat b"
proof -
  have "push_bit 32 (ucast a) AND (ucast b :: u64) = 0"
    by (rule bit_word_eqI) (auto simp: bit_simps dest: bit_imp_le_length)
  then have "push_bit 32 (ucast a) OR (ucast b :: u64) = push_bit 32 (ucast a) + ucast b"
    by (metis disjunctive_add_eq_or)
  also have "\<dots> = of_nat (unat a * 2 ^ 32 + unat b)" by (simp add: push_bit_eq_mult)
  finally have "join64 a b = of_nat (unat a * 2 ^ 32 + unat b)" by (simp add: join64_def)
  moreover have "unat (of_nat n :: u64) = n" if "n < 2 ^ 64" for n using that by (simp add: unat_of_nat take_bit_nat_eq_self)
  moreover have "unat a * 2 ^ 32 + unat b < 2 ^ 64" using unat_lt32 [of a] unat_lt32 [of b] by simp
  ultimately show ?thesis by (simp only:)
qed

lemma join_mono: "a \<le> c \<Longrightarrow> join64 a b \<le> join64 c b" "join64 a b \<le> join64 0xffffffff b"
proof -
  show m: "join64 a b \<le> join64 c b" if "a \<le> c" for a b c
    using that by (simp add: word_le_nat_alt unat_join)
  have "a \<le> 0xffffffff" using unat_lt32 [of a] by (simp add: word_le_nat_alt)
  then show "join64 a b \<le> join64 0xffffffff b" by (rule m)
qed

lemma compare_regs_differ:
  "compare_reg t hart_id comp_id RV_TIMER_COMPARE_UPPER0_0_REG_OFFSET \<noteq>
   compare_reg t hart_id comp_id RV_TIMER_COMPARE_LOWER0_0_REG_OFFSET"
proof -
  let ?x = "0x43 + 0x40 * hart_id + 2 * comp_id :: u32"
  have al: "unat (4 * w :: u32) mod 4 = 0" for w
    by (simp add: unat_word_ariths mod_mod_cancel)
  have "reg_for_hart hart_id RV_TIMER_COMPARE_LOWER0_0_REG_OFFSET + 8 * comp_id = 4 * ?x"
    "reg_for_hart hart_id RV_TIMER_COMPARE_UPPER0_0_REG_OFFSET + 8 * comp_id = 4 * (?x + 1)"
    by (simp_all add: reg_for_hart_def kHartRegisterSpacing_def reg_defs algebra_simps)
  moreover have "mr_base (tm_base t) + 4 * (?x + 1) = (mr_base (tm_base t) + 4 * ?x) + 4" by (simp add: algebra_simps)
  moreover have "a + 4 \<noteq> a" for a :: u32 by simp
  ultimately show ?thesis by (simp only: compare_reg_def reg_addr_aligned [OF al]) metis
qed

text \<open>C17: While a comparator is re-armed it never holds, between any two of the register writes, a value below both
  the old and the new threshold, so no alarm goes off that neither of them asks for; at the end it holds the
  new one, and no other register has changed.\<close>

theorem arm_no_early_alarm:
  assumes "hart_id < hart_count (tm_config t)" "comp_id < comparator_count (tm_config t)"
  shows "let (r, h') = rv_timer_arm (Some t) hart_id comp_id threshold h;
             value = (\<lambda>k. comparator t hart_id comp_id (regs_after m0 (take (length h + k) h')))
         in r = kRvTimerOk \<and> length h' = length h + 3 \<and> value 3 = threshold \<and>
            (\<forall>k. min (value 0) threshold \<le> value k)"
proof -
  define lo hi where "lo = compare_reg t hart_id comp_id RV_TIMER_COMPARE_LOWER0_0_REG_OFFSET"
    and "hi = compare_reg t hart_id comp_id RV_TIMER_COMPARE_UPPER0_0_REG_OFFSET"
  have ne: "hi \<noteq> lo" using compare_regs_differ by (simp add: lo_def hi_def)
  have cmp: "comparator t hart_id comp_id m = join64 (m hi) (m lo)" for m by (simp add: comparator_def lo_def hi_def)
  define top :: u32 where "top = 0xffffffff"
  let ?u = "ucast (drop_bit 32 threshold) :: u32" and ?l = "ucast threshold :: u32"
  define ws where "ws = [Wr32 hi top, Wr32 lo ?l, Wr32 hi ?u]"
  have arm: "rv_timer_arm (Some t) hart_id comp_id threshold h = (kRvTimerOk, h @ ws)"
    using assms by (simp add: rv_timer_arm_def not_le mmio_region_write32_def Let_def ws_def top_def lo_def hi_def compare_reg_def)
  define m where "m = regs_after m0 h"
  define v where "v k = comparator t hart_id comp_id (regs_after m0 (take (length h + k) (h @ ws)))" for k
  have v: "v k = join64 (fold step_mem (take k ws) m hi) (fold step_mem (take k ws) m lo)" for k by (simp add: v_def m_def cmp)
  have "v 0 = join64 (m hi) (m lo)" "v 1 = join64 top (m lo)" "v 2 = join64 top ?l"
    using ne by (simp_all add: v ws_def numeral_2_eq_2)
  moreover have v3: "v k = threshold" if "k \<ge> 3" for k
    using ne that join_halves [of threshold] by (simp add: v ws_def)
  moreover have "join64 ?u ?l \<le> join64 top ?l" "join64 (m hi) (m lo) \<le> join64 top (m lo)"
    by (simp_all add: top_def join_mono)
  moreover have "k = 0 \<or> k = 1 \<or> k = 2 \<or> k \<ge> 3" for k :: nat by arith
  ultimately have "min (v 0) threshold \<le> v k" for k
    using join_halves [of threshold] by (metis min.coboundedI1 min.coboundedI2 order_refl)
  then have "\<forall>k. min (v 0) threshold \<le> v k" by blast
  then show ?thesis using v3 [of 3] unfolding arm v_def by (simp add: Let_def ws_def del: take_append regs_after_append)
qed

lemma arm_no_early_alarm_witness:
  "let t = \<lparr>tm_base = \<lparr>mr_base = 0x1000\<rparr>, tm_config = \<lparr>hart_count = 1, comparator_count = 1\<rparr>\<rparr>;
       (r, h') = rv_timer_arm (Some t) 0 0 0x100000002 [];
       value = (\<lambda>k. comparator t 0 0 (regs_after (\<lambda>_. 0x10) (take (length ([] :: hist) + k) h')))
   in r = kRvTimerOk \<and> length h' = length ([] :: hist) + 3 \<and> value 3 = 0x100000002 \<and>
      (\<forall>k. min (value 0) 0x100000002 \<le> value k)"
  unfolding Let_def [of "\<lparr>tm_base = \<lparr>mr_base = 0x1000\<rparr>, tm_config = \<lparr>hart_count = 1, comparator_count = 1\<rparr>\<rparr>"]
  by (rule arm_no_early_alarm) simp_all

subsection \<open>What a reset leaves behind\<close>

text \<open>Offsets as natural numbers: hart \<open>i\<close> owns the block of 256 bytes from \<open>256 * (i + 1)\<close>.\<close>

definition comparator_writes :: "nat \<Rightarrow> nat \<Rightarrow> (nat \<times> u32) list" where
  "comparator_writes i c =
     [(256 * i + 0x110 + 8 * c, 0xffffffff), (256 * i + 0x10c + 8 * c, 0xffffffff), (256 * i + 0x110 + 8 * c, 0xffffffff)]"

definition hart_writes :: "nat \<Rightarrow> nat \<Rightarrow> (nat \<times> u32) list" where
  "hart_writes n i =
     [(256 * i + 0x114 + 8 * (n - 1), 0), (256 * i + 0x118 + 8 * (n - 1), 0xffffffff)] @
     concat (map (comparator_writes i) [0..<n]) @ [(256 * i + 0x104, 0), (256 * i + 0x108, 0)]"

lemma arm_writes:
  assumes "i < unat (hart_count (tm_config t))" "c < unat (comparator_count (tm_config t))" "i < 2 ^ 20" "c < 29"
  shows "rv_timer_arm (Some t) (of_nat i) (of_nat c) 0xffffffffffffffff h =
    (kRvTimerOk, h @ writes (tm_base t) (comparator_writes i c))"
proof -
  have b: "(of_nat i :: u32) < hart_count (tm_config t)" "(of_nat c :: u32) < comparator_count (tm_config t)"
    using assms by (simp_all add: word_less_nat_alt unat_of_nat_len_32)
  have o1: "reg_for_hart (of_nat i) RV_TIMER_COMPARE_UPPER0_0_REG_OFFSET + 8 * of_nat c = of_nat (256 * i + 0x110 + 8 * c)"
    and o2: "reg_for_hart (of_nat i) RV_TIMER_COMPARE_LOWER0_0_REG_OFFSET + 8 * of_nat c = of_nat (256 * i + 0x10c + 8 * c)"
    by (simp_all add: reg_for_hart_def kHartRegisterSpacing_def reg_defs algebra_simps)
  have al: "(256 * i + 0x110 + 8 * c) mod 4 = 0" "(256 * i + 0x10c + 8 * c) mod 4 = 0" by presburger+
  have lt: "256 * i + 0x110 + 8 * c < 2 ^ 32" "256 * i + 0x10c + 8 * c < 2 ^ 32" using assms(3,4) by simp_all
  have v: "ucast (0xffffffffffffffff :: u64) = (0xffffffff :: u32)" "ucast (drop_bit 32 (0xffffffffffffffff :: u64)) = (0xffffffff :: u32)"
    by (simp_all add: drop_bit_eq_div)
  show ?thesis
    using b by (simp add: rv_timer_arm_def not_le Let_def v write_at [OF o1 al(1) lt(1)] write_at [OF o2 al(2) lt(2)]
        comparator_writes_def del: writes_simps(2)) (simp add: writes_def)
qed

lemma reset_comparators_writes:
  assumes "i < unat (hart_count (tm_config t))" "\<forall>c\<in>set cs. c < unat (comparator_count (tm_config t)) \<and> c < 29" "i < 2 ^ 20"
  shows "reset_comparators t (of_nat i) (map of_nat cs) h =
    (kRvTimerOk, h @ writes (tm_base t) (concat (map (comparator_writes i) cs)))"
  using assms by (induction cs arbitrary: h) (simp_all add: arm_writes)

lemma irq_reg_offset:
  assumes "0 < unat n"
  shows "irq_reg_for_hart (of_nat i) n off = of_nat (256 * i + unat off + 8 * (unat n - 1))"
proof -
  have "of_nat (unat n - 1) = n - 1" using assms by (simp add: of_nat_diff)
  then show ?thesis
    by (simp add: irq_reg_for_hart_def reg_for_hart_def kHartRegisterSpacing_def kComparatorsInReggenHeader_def reg_defs Let_def)
qed

lemma reset_harts_writes:
  assumes "0 < unat (comparator_count (tm_config t))" "unat (comparator_count (tm_config t)) \<le> 29"
    and "\<forall>i\<in>set hs. i < unat (hart_count (tm_config t)) \<and> i < 2 ^ 20"
  shows "reset_harts t (map of_nat hs) h =
    (kRvTimerOk, h @ writes (tm_base t) (concat (map (hart_writes (unat (comparator_count (tm_config t)))) hs)))"
  using assms
proof (induction hs arbitrary: h)
  case (Cons i hs)
  let ?n = "unat (comparator_count (tm_config t))"
  have i: "i < unat (hart_count (tm_config t))" "i < 2 ^ 20" using Cons.prems(3) by simp_all
  have e: "irq_reg_for_hart (of_nat i) (comparator_count (tm_config t)) RV_TIMER_INTR_ENABLE0_REG_OFFSET = of_nat (256 * i + 0x114 + 8 * (?n - 1))"
    and s: "irq_reg_for_hart (of_nat i) (comparator_count (tm_config t)) RV_TIMER_INTR_STATE0_REG_OFFSET = of_nat (256 * i + 0x118 + 8 * (?n - 1))"
    using irq_reg_offset [OF Cons.prems(1)] by (simp_all add: reg_defs)
  have l: "reg_for_hart (of_nat i) RV_TIMER_TIMER_V_LOWER0_REG_OFFSET = of_nat (256 * i + 0x104)"
    and u: "reg_for_hart (of_nat i) RV_TIMER_TIMER_V_UPPER0_REG_OFFSET = of_nat (256 * i + 0x108)"
    by (simp_all add: reg_for_hart_def kHartRegisterSpacing_def reg_defs)
  have al: "(256 * i + 0x114 + 8 * k) mod 4 = 0" "(256 * i + 0x118 + 8 * k) mod 4 = 0"
    "(256 * i + 0x104) mod 4 = 0" "(256 * i + 0x108) mod 4 = 0" for k by presburger+
  have lt: "256 * i + 0x114 + 8 * (?n - 1) < 2 ^ 32" "256 * i + 0x118 + 8 * (?n - 1) < 2 ^ 32"
    "256 * i + 0x104 < 2 ^ 32" "256 * i + 0x108 < 2 ^ 32" using i(2) Cons.prems(2) by simp_all
  have cs: "reset_comparators t (of_nat i) (upto_u32 (comparator_count (tm_config t))) h =
      (kRvTimerOk, h @ writes (tm_base t) (concat (map (comparator_writes i) [0..<?n])))" for h
    unfolding upto_u32_def using Cons.prems(2) i by (intro reset_comparators_writes) auto
  note w = write_at [OF e al(1) lt(1)] write_at [OF s al(2) lt(2)] write_at [OF l al(3) lt(3)] write_at [OF u al(4) lt(4)]
  show ?case
    using Cons by (simp add: Let_def w cs hart_writes_def)
qed simp

text \<open>All the writes of a reset: one to the control register, then the blocks of the harts.\<close>

lemma init_writes:
  assumes "0 < unat (hart_count cfg)" "unat (hart_count cfg) \<le> 2 ^ 20"
    and "0 < unat (comparator_count cfg)" "unat (comparator_count cfg) \<le> 29"
  shows "rv_timer_init base cfg (Some t0) h =
    (kRvTimerOk, Some (t0\<lparr>tm_base := base, tm_config := cfg\<rparr>),
     h @ writes base ((0, 0) # concat (map (hart_writes (unat (comparator_count cfg))) [0..<unat (hart_count cfg)])))"
proof -
  have "\<not> hart_count cfg < 1" "\<not> comparator_count cfg < 1" using assms(1,3) by (simp_all add: word_less_nat_alt)
  moreover have "mmio_region_write32 base RV_TIMER_CTRL_REG_OFFSET 0 h = h @ writes base [(0, 0)]"
    by (rule write_at) (simp_all add: reg_defs)
  moreover have "reset_harts (t0\<lparr>tm_base := base, tm_config := cfg\<rparr>) (upto_u32 (hart_count cfg)) h' =
      (kRvTimerOk, h' @ writes base (concat (map (hart_writes (unat (comparator_count cfg))) [0..<unat (hart_count cfg)])))" for h'
    unfolding upto_u32_def using reset_harts_writes [of "t0\<lparr>tm_base := base, tm_config := cfg\<rparr>"] assms by simp
  ultimately show ?thesis by (simp add: rv_timer_init_def rv_timer_reset_def Let_def)
qed

lemma hart_write_block:
  assumes "(j, v) \<in> set (hart_writes n i)" "0 < n" "n \<le> 29"
  shows "256 * i + 0x104 \<le> j" "j < 256 * i + 0x200"
    "j = 256 * i + 0x114 + 8 * (n - 1) \<Longrightarrow> v = 0"
    "j = 256 * i + 0x104 \<or> j = 256 * i + 0x108 \<Longrightarrow> v = 0"
    "256 * i + 0x10c \<le> j \<and> j < 256 * i + 0x114 + 8 * (n - 1) \<Longrightarrow> v = 0xffffffff"
  using assms by (auto simp: hart_writes_def comparator_writes_def)

lemma reset_value:
  assumes "i < hc" "hc \<le> 2 ^ 20" "0 < n" "n \<le> 29" "(k, v) \<in> set (hart_writes n i)"
    and "\<And>w. (k, w) \<in> set (hart_writes n i) \<Longrightarrow> w = v"
  shows "fold step_mem (writes base ((0, 0) # concat (map (hart_writes n) [0..<hc]))) m (at_off base k) = v"
proof (rule writes_agree)
  note own = hart_write_block [OF assms(5,3,4)]
  have k: "k div 256 = i + 1" using own by (intro div_nat_eqI) auto
  show "k < 2 ^ 32" using own assms(1,2) by simp
  show "(k, v) \<in> set ((0, 0) # concat (map (hart_writes n) [0..<hc]))" using assms(1,5) by auto
  have "j < 2 ^ 32 \<and> (j = k \<longrightarrow> w = v)" if "(j, w) \<in> set (hart_writes n i')" "i' < hc" for j w i'
  proof -
    note b = hart_write_block [OF that(1) assms(3,4)]
    have "j div 256 = i' + 1" using b by (intro div_nat_eqI) auto
    then show ?thesis using b that assms(2,6) k by auto
  qed
  then show "\<forall>(j, w)\<in>set ((0, 0) # concat (map (hart_writes n) [0..<hc])). j < 2 ^ 32 \<and> (j = k \<longrightarrow> w = v)"
    using k by auto
qed

lemma reset_values:
  fixes base :: mmio_region_t and m :: "u32 \<Rightarrow> u32"
  assumes "i < hc" "hc \<le> 2 ^ 20" "0 < n" "n \<le> 29"
  defines "m' \<equiv> fold step_mem (writes base ((0, 0) # concat (map (hart_writes n) [0..<hc]))) m"
  shows "m' (at_off base (256 * i + 0x104)) = 0" "m' (at_off base (256 * i + 0x108)) = 0"
    "m' (at_off base (256 * i + 0x114 + 8 * (n - 1))) = 0"
    "c < n \<Longrightarrow> m' (at_off base (256 * i + 0x10c + 8 * c)) = 0xffffffff"
    "c < n \<Longrightarrow> m' (at_off base (256 * i + 0x110 + 8 * c)) = 0xffffffff"
proof -
  note own = hart_write_block [OF _ assms(3,4)] and val = reset_value [OF assms(1-4), where base = base and m = m, folded m'_def]
  show "m' (at_off base (256 * i + 0x104)) = 0"
    by (rule val) (simp add: hart_writes_def, erule own(4), simp)
  show "m' (at_off base (256 * i + 0x108)) = 0"
    by (rule val) (simp add: hart_writes_def, erule own(4), simp)
  show "m' (at_off base (256 * i + 0x114 + 8 * (n - 1))) = 0"
    by (rule val) (simp add: hart_writes_def, erule own(3), simp)
  have mem: "(256 * i + 0x10c + 8 * c, 0xffffffff) \<in> set (hart_writes n i)"
    "(256 * i + 0x110 + 8 * c, 0xffffffff) \<in> set (hart_writes n i)" if "c < n"
    using that by (auto simp: hart_writes_def comparator_writes_def)
  show "m' (at_off base (256 * i + 0x10c + 8 * c)) = 0xffffffff" if "c < n"
    by (rule val [OF mem(1) [OF that]]) (erule own(5), use that in simp)
  show "m' (at_off base (256 * i + 0x110 + 8 * c)) = 0xffffffff" if "c < n"
    by (rule val [OF mem(2) [OF that]]) (erule own(5), use that in simp)
qed

text \<open>Initialising a timer with up to 29 comparators per hart leaves every counter stopped at zero, every
  interrupt disabled and every comparator at its largest value, so that no alarm can go off, whatever
  the registers held before.\<close>

theorem init_quiet:
  assumes "0 < unat (hart_count cfg)" "unat (hart_count cfg) \<le> 2 ^ 20"
    and "0 < unat (comparator_count cfg)" "unat (comparator_count cfg) \<le> 29"
  shows "\<exists>t h'. rv_timer_init base cfg (Some t0) h = (kRvTimerOk, Some t, h') \<and>
    tm_base t = base \<and> tm_config t = cfg \<and> regs_after m0 h' (reg_addr base RV_TIMER_CTRL_REG_OFFSET) = 0 \<and>
    (\<forall>i < unat (hart_count cfg).
       regs_after m0 h' (reg_addr base (reg_for_hart (of_nat i) RV_TIMER_TIMER_V_LOWER0_REG_OFFSET)) = 0 \<and>
       regs_after m0 h' (reg_addr base (reg_for_hart (of_nat i) RV_TIMER_TIMER_V_UPPER0_REG_OFFSET)) = 0 \<and>
       regs_after m0 h' (reg_addr base (irq_reg_for_hart (of_nat i) (comparator_count cfg) RV_TIMER_INTR_ENABLE0_REG_OFFSET)) = 0 \<and>
       (\<forall>c < unat (comparator_count cfg). comparator t (of_nat i) (of_nat c) (regs_after m0 h') = 0xffffffffffffffff))"
proof (intro exI conjI allI impI)
  let ?n = "unat (comparator_count cfg)" and ?hc = "unat (hart_count cfg)"
  let ?t = "t0\<lparr>tm_base := base, tm_config := cfg\<rparr>"
  let ?h' = "h @ writes base ((0, 0) # concat (map (hart_writes ?n) [0..<?hc]))"
  let ?m = "regs_after m0 ?h'"
  show "rv_timer_init base cfg (Some t0) h = (kRvTimerOk, Some ?t, ?h')" using assms by (rule init_writes)
  show "tm_base ?t = base" "tm_config ?t = cfg" by simp_all
  have "\<forall>(j, w)\<in>set (concat (map (hart_writes ?n) [0..<?hc])). j < 2 ^ 32 \<and> j \<noteq> 0"
    using hart_write_block(1,2) [OF _ assms(3,4)] assms(2) by fastforce
  then show "?m (reg_addr base RV_TIMER_CTRL_REG_OFFSET) = 0"
    by (simp add: writes_other reg_addr_at_off [of _ 0] reg_defs)
  fix i assume i: "i < ?hc"
  note v = reset_values [OF i assms(2-4), where base = base and m = "regs_after m0 h", folded regs_after_append]
  have at: "reg_addr base (of_nat j) = at_off base j" if "j mod 4 = 0" "j < 2 ^ 32" for j
    using that by (simp add: reg_addr_at_off unat_of_nat_len_32)
  have al: "(256 * i + 0x114 + 8 * k) mod 4 = 0" "(256 * i + 0x104) mod 4 = 0" "(256 * i + 0x108) mod 4 = 0"
     "(256 * i + 0x10c + 8 * k) mod 4 = 0" "(256 * i + 0x110 + 8 * k) mod 4 = 0" for k by presburger+
  have lt: "256 * i + 0x114 + 8 * (?n - 1) < 2 ^ 32" "256 * i + 0x104 < 2 ^ 32" "256 * i + 0x108 < 2 ^ 32"
    using i assms(2,4) by simp_all
  have off: "reg_for_hart (of_nat i) RV_TIMER_TIMER_V_LOWER0_REG_OFFSET = of_nat (256 * i + 0x104)"
    "reg_for_hart (of_nat i) RV_TIMER_TIMER_V_UPPER0_REG_OFFSET = of_nat (256 * i + 0x108)"
    "irq_reg_for_hart (of_nat i) (comparator_count cfg) RV_TIMER_INTR_ENABLE0_REG_OFFSET = of_nat (256 * i + 0x114 + 8 * (?n - 1))"
    using irq_reg_offset [OF assms(3), of i] by (simp_all add: reg_for_hart_def kHartRegisterSpacing_def reg_defs)
  show "?m (reg_addr base (reg_for_hart (of_nat i) RV_TIMER_TIMER_V_LOWER0_REG_OFFSET)) = 0"
    unfolding off at [OF al(2) lt(2)] by (rule v)
  show "?m (reg_addr base (reg_for_hart (of_nat i) RV_TIMER_TIMER_V_UPPER0_REG_OFFSET)) = 0"
    unfolding off at [OF al(3) lt(3)] by (rule v)
  show "?m (reg_addr base (irq_reg_for_hart (of_nat i) (comparator_count cfg) RV_TIMER_INTR_ENABLE0_REG_OFFSET)) = 0"
    unfolding off at [OF al(1) lt(1)] by (rule v)
  fix c assume c: "c < ?n"
  have lc: "256 * i + 0x10c + 8 * c < 2 ^ 32" "256 * i + 0x110 + 8 * c < 2 ^ 32" using i c assms(2,4) by simp_all
  have "compare_reg ?t (of_nat i) (of_nat c) RV_TIMER_COMPARE_LOWER0_0_REG_OFFSET = reg_addr base (of_nat (256 * i + 0x10c + 8 * c))"
    "compare_reg ?t (of_nat i) (of_nat c) RV_TIMER_COMPARE_UPPER0_0_REG_OFFSET = reg_addr base (of_nat (256 * i + 0x110 + 8 * c))"
    by (simp_all add: compare_reg_def reg_for_hart_def kHartRegisterSpacing_def reg_defs algebra_simps)
  then show "comparator ?t (of_nat i) (of_nat c) ?m = 0xffffffffffffffff"
    unfolding comparator_def at [OF al(4) lc(1)] at [OF al(5) lc(2)] by (simp only: v(4,5) [OF c]) (simp add: word_unat_eq_iff unat_join)
qed

lemma init_quiet_witness:
  "\<exists>t h'. rv_timer_init \<lparr>mr_base = 0x10000\<rparr> \<lparr>hart_count = 2, comparator_count = 1\<rparr>
      (Some \<lparr>tm_base = \<lparr>mr_base = 0\<rparr>, tm_config = \<lparr>hart_count = 0, comparator_count = 0\<rparr>\<rparr>) [] = (kRvTimerOk, Some t, h') \<and>
    comparator t 1 0 (regs_after (\<lambda>_. 7) h') = 0xffffffffffffffff"
  using init_quiet [of "\<lparr>hart_count = 2, comparator_count = 1\<rparr>" "\<lparr>mr_base = 0x10000\<rparr>"
      "\<lparr>tm_base = \<lparr>mr_base = 0\<rparr>, tm_config = \<lparr>hart_count = 0, comparator_count = 0\<rparr>\<rparr>" "[]" "\<lambda>_. 7"]
  by (auto dest: spec [of _ 1])

end
