(* ===== verification/Standalone.thy ===== *)
theory Standalone
  imports Startup Editor Rv_Timer
begin

text \<open>
  The application without user mode, \<^verbatim>\<open>apps/tflite_scpi_m/main.c\<close>: the same library, commands and callbacks, but the
  line is read from the UART directly, handed to the parser without a check, and the cycles and instructions it took are
  printed after each command. The editor is the loop of \<^verbatim>\<open>Editor\<close>, its terminal is interpreted here on the UART driver itself.
\<close>

subsection \<open>Counters\<close>

text \<open>A counter of the hart: its value at each access, counted from the start of the program. It is 64 bits wide, read in halves.\<close>

type_synonym clock = "nat \<Rightarrow> u64"

abbreviation upper :: "u64 \<Rightarrow> u32" where "upper c \<equiv> ucast (drop_bit 32 c)"
abbreviation lower :: "u64 \<Rightarrow> u32" where "lower c \<equiv> ucast c"

partial_function (option) read_halves :: "clock \<Rightarrow> nat \<Rightarrow> ((u32 \<times> u32) \<times> nat) option" where
  "read_halves clock t =
     (let h0 = upper (clock t); l = lower (clock (t + 1)); h1 = upper (clock (t + 2))
      in if h0 \<noteq> h1 then read_halves clock (t + 3) else Some ((h1, l), t + 3))"

definition read_mcycle :: "clock \<Rightarrow> nat \<Rightarrow> ((u32 \<times> u32) \<times> nat) option" where
  "read_mcycle cycles t = read_halves cycles t"

definition read_minstret :: "clock \<Rightarrow> nat \<Rightarrow> ((u32 \<times> u32) \<times> nat) option" where
  "read_minstret instrs t = read_halves instrs t"

definition sub_u64 :: "u32 \<times> u32 \<Rightarrow> u32 \<times> u32 \<Rightarrow> u32 \<times> u32" where
  "sub_u64 a b =
     (case (a, b) of ((a_hi, a_lo), (b_hi, b_lo)) \<Rightarrow>
        let lo = a_lo - b_lo; hi = a_hi - b_hi - (if a_lo < b_lo then 1 else 0) in (hi, lo))"

subsection \<open>Lines from the UART\<close>

definition gets_char :: "device \<Rightarrow> uart_t \<Rightarrow> hist \<Rightarrow> (u8 \<times> hist) option" where
  "gets_char dev u h = map_option snd (uart_getchar dev u h)"

definition uart_gets ::
  "device \<Rightarrow> uart_t \<Rightarrow> u32 \<Rightarrow> u32 \<Rightarrow> memory \<Rightarrow> bool \<Rightarrow> hist \<Rightarrow> (u32 \<times> memory \<times> bool \<times> hist) option" where
  "uart_gets dev uart buf len m md h = edit_line (gets_char dev uart) (uart_putchar dev uart) buf len 0 m md h"

record session_t =
  user :: user_t
  cyc :: nat
  ins :: nat
  app :: app_t

definition report :: "string \<Rightarrow> u32 \<times> u32 \<Rightarrow> string" where
  "report what d = [CHR 0xCE, CHR 0x94] @ what @ '' hi='' @ fmt_hex8 (fst d) @ '' lo='' @ fmt_hex8 (snd d) @ crlf"

text \<open>One round of the loop. \<^verbatim>\<open>SCPI_Flush\<close> is the application's own and does nothing.\<close>

definition uart_scpi_round ::
  "device \<Rightarrow> (string \<Rightarrow> nat list) \<Rightarrow> scpi_command_t list \<Rightarrow> clock \<Rightarrow> clock \<Rightarrow> u32 \<Rightarrow> session_t \<Rightarrow> session_t option" where
  "uart_scpi_round dev splits cmds cycles instrs buffer s =
     do { (len, m, md, h) \<leftarrow> uart_gets dev (app_uart (app s)) buffer 2048 (umem (user s)) (modifier (user s)) (app_hist (app s));
          let a = set_hist h (app s);
          (c0, tc) \<leftarrow> read_mcycle cycles (cyc s);
          (i0, ti) \<leftarrow> read_minstret instrs (ins s);
          a \<leftarrow> (if len > 0
                 then do { a \<leftarrow> app_input dev splits cmds (user_input m buffer len) a; app_input dev splits cmds crlf a }
                 else Some a);
          (c1, tc) \<leftarrow> read_mcycle cycles tc;
          (i1, ti) \<leftarrow> read_minstret instrs ti;
          a \<leftarrow> app_print dev splits (report ''cycles   '' (sub_u64 c1 c0)) a;
          a \<leftarrow> app_print dev splits (report ''instr    '' (sub_u64 i1 i0)) a;
          Some \<lparr>user = \<lparr>umem = m, modifier = md\<rparr>, cyc = tc, ins = ti, app = a\<rparr> }"

text \<open>The loop until the exit flag is set; reaching that is the result.\<close>

partial_function (option) uart_scpi_loop ::
  "device \<Rightarrow> (string \<Rightarrow> nat list) \<Rightarrow> scpi_command_t list \<Rightarrow> clock \<Rightarrow> clock \<Rightarrow> u32 \<Rightarrow> session_t \<Rightarrow> session_t option" where
  "uart_scpi_loop dev splits cmds cycles instrs buffer s =
     (if exit_scpi (app s) then Some s
      else do { s \<leftarrow> uart_scpi_round dev splits cmds cycles instrs buffer s; uart_scpi_loop dev splits cmds cycles instrs buffer s })"

definition uart_scpi ::
  "device \<Rightarrow> (string \<Rightarrow> nat list) \<Rightarrow> scpi_command_t list \<Rightarrow> clock \<Rightarrow> clock \<Rightarrow> u32 \<Rightarrow> session_t \<Rightarrow> session_t option" where
  "uart_scpi dev splits cmds cycles instrs buffer s =
     do { a \<leftarrow> print_lines dev splits [''Starting SCPI loop...''] (app s);
          uart_scpi_loop dev splits cmds cycles instrs buffer (s\<lparr>app := a\<rparr>) }"

text \<open>\<^verbatim>\<open>main\<close>: the set-up, then the loop; \<open>Inl\<close> is the early return. The initialisation of the network has no effect on this state.\<close>

definition standalone_main ::
  "device \<Rightarrow> (string \<Rightarrow> nat list) \<Rightarrow> scpi_command_t list \<Rightarrow> clock \<Rightarrow> clock \<Rightarrow> u32 \<Rightarrow> session_t \<Rightarrow> (session_t + session_t) option" where
  "standalone_main dev splits scpi_commands cycles instrs buffer s =
     do { a \<leftarrow> print_lines dev splits [''Initializing peripherals...'', ''Initialized soc_ctrl'',
                   ''soc_ctrl.base_addr: '' @ fmt_p SOC_CTRL_START_ADDRESS] (app s);
          let soc_ctrl = \<lparr>soc_base = mmio_region_from_addr SOC_CTRL_START_ADDRESS\<rparr>;
          let (freq, h1) = soc_ctrl_get_frequency dev soc_ctrl (app_hist a);
          let uart = \<lparr>uart_base = mmio_region_from_addr UART_START_ADDRESS, baudrate = 115200, clk_freq_hz = freq\<rparr>;
          let (res, h2) = uart_init (Some uart) h1;
          let a = (set_hist h2 a)\<lparr>app_uart := uart\<rparr>;
          if res \<noteq> kErrorOk then Some (Inl (s\<lparr>app := a\<rparr>))
          else do { a \<leftarrow> print_lines dev splits [''Initialized UART'', ''uart.base_addr: '' @ fmt_p UART_START_ADDRESS,
                        ''uart.baudrate: '' @ fmt_d (baudrate uart), ''uart.clk_freq_hz: '' @ fmt_d (clk_freq_hz uart)] a;
                    a \<leftarrow> print_lines dev splits ([''Initialized SCPI'', ''Available SCPI commands:''] @ map fst scpi_commands @
                        [''Initialized TFLite'']) (a\<lparr>scpi := scpi_initial\<rparr>);
                    map_option Inr (uart_scpi dev splits scpi_commands cycles instrs buffer (s\<lparr>app := a\<rparr>)) } }"

subsection \<open>Measuring\<close>

text \<open>The difference of the halves is the difference of the counters, borrow and wrap-around included.\<close>

lemma join64_value: "join64 h l = of_nat (unat h * 2 ^ 32 + unat l)"
  by (subst unat_join [symmetric]) simp

lemma sub_u64_join: "join64 (fst (sub_u64 a b)) (snd (sub_u64 a b)) = join64 (fst a) (snd a) - join64 (fst b) (snd b)"
proof -
  obtain ah al bh bl where p: "a = (ah, al)" "b = (bh, bl)" by (metis surj_pair)
  have j: "join64 h l = word_of_int (uint h * 2 ^ 32 + uint l)" for h l
    by (simp add: join64_value flip: uint_nat)
  define c :: int where "c = (if al < bl then 1 else 0)"
  have lo: "uint (al - bl) = uint al - uint bl + c * 2 ^ 32"
    using uint_lt2p [of al] uint_lt2p [of bl] uint_ge_0 [of al] uint_ge_0 [of bl]
    by (auto simp: c_def uint_sub_if' word_less_def)
  have hi: "uint (ah - bh - (if al < bl then 1 else 0)) = (uint ah - uint bh - c) mod 2 ^ 32"
    by (simp add: c_def uint_word_ariths mod_simps)
  have len64: "LENGTH(64) = 64" by simp
  have "(x mod 2 ^ 32 * 2 ^ 32 + y) mod 2 ^ 64 = (x * 2 ^ 32 + y) mod (2 ^ 64 :: int)" for x y
  proof -
    have "x mod 2 ^ 32 * 2 ^ 32 = (x * 2 ^ 32) mod 2 ^ 64" by (simp add: mod_mult_mult2 [symmetric])
    then show ?thesis by (simp only: mod_add_left_eq)
  qed
  then have w: "(word_of_int (x mod 2 ^ 32 * 2 ^ 32 + y) :: u64) = word_of_int (x * 2 ^ 32 + y)" for x y
    by (subst word_of_int_eq_iff) (simp only: take_bit_eq_mod len64)
  show ?thesis
    unfolding p sub_u64_def Let_def prod.case fst_conv snd_conv j lo hi w
    by (simp add: algebra_simps flip: wi_hom_sub)
qed

text \<open>Reading a counter that does not run backwards returns a value it had at one of the accesses.\<close>

lemma read_halves_value:
  assumes "mono clock"
  shows "\<exists>k t'. read_halves clock t = Some ((upper (clock k), lower (clock k)), t') \<and> t \<le> k \<and> k < t'"
proof (induction "2 ^ 32 - unat (upper (clock t))" arbitrary: t rule: less_induct)
  case less
  have m: "upper (clock t) \<le> upper (clock (t + 1))" "upper (clock (t + 1)) \<le> upper (clock (t + 2))"
    "upper (clock (t + 2)) \<le> upper (clock (t + 3))"
    using assms by (auto intro!: upper_mono simp: mono_def)
  show ?case
  proof (cases "upper (clock t) = upper (clock (t + 2))")
    case True
    then have "upper (clock (t + 1)) = upper (clock (t + 2))" using m by simp
    then have "read_halves clock t = Some ((upper (clock (t + 1)), lower (clock (t + 1))), t + 3)"
      using True by (subst read_halves.simps) (simp add: Let_def)
    then show ?thesis by (intro exI [of _ "t + 1"] exI [of _ "t + 3"] conjI) simp_all
  next
    case False
    then have "upper (clock t) < upper (clock (t + 3))" using m by simp
    then have "2 ^ 32 - unat (upper (clock (t + 3))) < 2 ^ 32 - unat (upper (clock t))"
      using unat_lt32 [of "upper (clock (t + 3))"] by (simp add: word_less_nat_alt)
    from less [OF this] obtain k t' where "read_halves clock (t + 3) = Some ((upper (clock k), lower (clock k)), t')" "t + 3 \<le> k" "k < t'"
      by blast
    moreover have "read_halves clock t = read_halves clock (t + 3)"
      using False by (subst read_halves.simps) (simp add: Let_def)
    ultimately show ?thesis by auto
  qed
qed

lemma measured:
  "join64 (fst (sub_u64 (upper c1, lower c1) (upper c0, lower c0))) (snd (sub_u64 (upper c1, lower c1) (upper c0, lower c0))) = c1 - c0"
  by (simp add: sub_u64_join join_halves)

subsection \<open>The terminal\<close>

interpretation direct: terminal "gets_char (keyboard script) u" "uart_putchar (keyboard script) u"
  "\<lambda>h. uart_base u = mmio_region_from_addr UART_START_ADDRESS" "\<lambda>h. drop (console_reads h) script" "uart_sent (console 0)" for script u
proof
  fix h c cs assume u: "uart_base u = mmio_region_from_addr UART_START_ADDRESS" and t: "drop (console_reads h) script = c # cs"
  have lt: "console_reads h < length script" using t by (auto intro: ccontr)
  then have cc: "c = script ! console_reads h" "cs = drop (console_reads h + 1) script"
    using t by (simp_all add: Cons_nth_drop_Suc [symmetric])
  show "\<exists>h'. gets_char (keyboard script) u h = Some (c, h') \<and> uart_base u = mmio_region_from_addr UART_START_ADDRESS \<and>
      drop (console_reads h') script = cs \<and> uart_sent (console 0) h' = uart_sent (console 0) h"
    using keyboard_getchar [OF u lt] u cc by (auto simp: gets_char_def)
next
  fix h c assume u: "uart_base u = mmio_region_from_addr UART_START_ADDRESS"
  obtain h' where h: "uart_putchar (keyboard script) u c h = Some h'"
    using uart_putchar_total [OF keyboard_responsive [OF u]] by blast
  have "uart_sent u = uart_sent (console 0)" by (rule uart_sent_cong) (simp add: u console_def)
  then show "\<exists>h'. uart_putchar (keyboard script) u c h = Some h' \<and> uart_base u = mmio_region_from_addr UART_START_ADDRESS \<and>
      drop (console_reads h') script = drop (console_reads h) script \<and> uart_sent (console 0) h' = uart_sent (console 0) h @ [c]"
    using h u putchar_reads [OF u h] uart_putchar_sent [OF h] by simp
qed

lemma bytes_back: "map (\<lambda>b. char_of (unat b)) (bytes_of l) = l"
proof -
  have "char_of (unat (of_nat (of_char c) :: u8)) = c" for c :: char
    by (simp add: unat_of_nat take_bit_eq_mod)
  then show ?thesis by (simp add: bytes_of_def comp_def)
qed

lemma length_bytes_of [simp]: "length (bytes_of l) = length l"
  by (simp add: bytes_of_def)

lemma gets_line:
  assumes "uart_base u = mmio_region_from_addr UART_START_ADDRESS" "length l < 2047"
    and "drop (console_reads h) script = escape (bytes_of l) @ 0x0D # rest"
  shows "\<exists>m' h'. uart_gets (keyboard script) u buf 2048 m False h = Some (of_nat (length l), m', False, h') \<and>
    user_input m' buf (of_nat (length l)) = l \<and> drop (console_reads h') script = rest \<and>
    uart_sent (console 0) h' = uart_sent (console 0) h @ concat (map echo_of (bytes_of l @ [0x0D]))"
proof -
  have "unat (0 :: u32) + length (bytes_of l) < unat ((2048 :: u32) - 1)" using assms(2) by simp
  from direct.edit_escaped [OF assms(1,3) _ this, where buf = buf and m = m]
  obtain h' where h': "uart_gets (keyboard script) u buf 2048 m False h =
      Some (of_nat (length l), (write_bytes buf (bytes_of l) m)(buf + of_nat (length l) := 0), False, h')"
    "drop (console_reads h') script = rest"
    "uart_sent (console 0) h' = uart_sent (console 0) h @ concat (map echo_of (bytes_of l @ [0x0D]))"
    by (auto simp: uart_gets_def)
  show ?thesis using h' collected_input(2) [of "bytes_of l", OF _ refl, of buf m] assms(2) by (simp add: bytes_back)
qed

text \<open>Output does not touch the receive register.\<close>

abbreviation reads_of :: "app_t \<Rightarrow> nat" where "reads_of a \<equiv> console_reads (app_hist a)"

lemma write_reads:
  assumes "uart_base u = mmio_region_from_addr UART_START_ADDRESS" "uart_write dev u data h = Some (n, h')"
  shows "console_reads h' = console_reads h"
proof -
  have "uart_write_loop dev u data h = Some h'" using assms(2) by (auto simp: uart_write_def split: bind_splits)
  then show ?thesis
  proof (induction data arbitrary: h)
    case (Cons b bs)
    then obtain h1 where "uart_putchar dev u b h = Some h1" "uart_write_loop dev u bs h1 = Some h'" by (auto split: bind_splits)
    with Cons.IH [of h1] putchar_reads [OF assms(1)] show ?case by metis
  qed simp
qed

lemma init_reads: "console_reads (snd (uart_init (Some u) h)) = console_reads h"
  unfolding uart_init_trace Let_def by (auto simp: console_reads_def)

lemma sys_write_reads:
  assumes "sys_write dev STDOUT_FILENO data s = Some (n, s')"
  shows "console_reads (sys_hist s') = console_reads (sys_hist s)"
proof -
  define f where "f = dev32 dev (sys_hist s) (SOC_CTRL_START_ADDRESS + SOC_CTRL_SYSTEM_FREQUENCY_HZ_REG_OFFSET)"
  define h1 where "h1 = sys_hist s @ [Rd32 (SOC_CTRL_START_ADDRESS + SOC_CTRL_SYSTEM_FREQUENCY_HZ_REG_OFFSET) f]"
  have 1: "console_reads h1 = console_reads (sys_hist s)" by (simp add: h1_def console_reads_def reg_defs)
  obtain res h2 where i: "uart_init (Some (console f)) h1 = (res, h2)" by (metis surj_pair)
  have 2: "console_reads h2 = console_reads h1" using init_reads [of "console f" h1] i by simp
  have u: "uart_base (console f) = mmio_region_from_addr UART_START_ADDRESS" by (simp add: console_def)
  show ?thesis
    using assms 1 2 write_reads [OF u]
    by (auto simp: sys_write_def soc_freq Let_def f_def [symmetric] h1_def [symmetric] i fail_with_def split: if_splits bind_splits)
qed

lemma print_reads: "app_print dev splits t a = Some a' \<Longrightarrow> reads_of a' = reads_of a"
proof -
  have "write_out dev ns p s = Some (q, s') \<Longrightarrow> console_reads (sys_hist s') = console_reads (sys_hist s)" for ns p s q s'
    by (induction dev ns p s rule: write_out.induct) (auto split: bind_splits dest: sys_write_reads)
  then show "app_print dev splits t a = Some a' \<Longrightarrow> ?thesis"
    by (auto simp: app_print_def app_hist_def split: bind_splits)
qed

lemma deliver_reads:
  assumes "console_of a" "deliver dev splits evs a = Some a'"
  shows "reads_of a' = reads_of a"
  using assms
proof (induction evs arbitrary: a)
  case (Cons e evs)
  then obtain a1 where 1: "deliver_one dev splits e a = Some a1" "deliver dev splits evs a1 = Some a'" by (auto split: bind_splits)
  have c: "uart_base (app_uart a) = mmio_region_from_addr UART_START_ADDRESS" using Cons.prems(1) by (simp add: console_of_def)
  have "deliver dev splits [e] a = Some a1" using 1(1) by simp
  from deliver_keeps [OF this] have "console_of a1" using c by (simp add: console_of_def)
  moreover have "reads_of a1 = reads_of a"
    using 1(1) write_reads [OF c] print_reads
    by (cases e) (auto simp: scrivi_def SCPI_Error_def app_hist_def set_hist_def split: bind_splits if_splits)
  ultimately show ?case using Cons.IH 1(2) by simp
qed simp

subsection \<open>A session\<close>

text \<open>What a session should be: every line goes to the parser with a line end after it, and what is shown is the answer; the
  empty line is no input. The session is over with the line that sets the exit flag. The result are the answers and the parser.\<close>

definition answer :: "scpi_command_t list \<Rightarrow> scpi_t \<Rightarrow> string \<Rightarrow> (string \<times> bool \<times> scpi_t) option" where
  "answer cmds c line =
     (if line = [] then Some ([], False, c)
      else do { (_, c1) \<leftarrow> SCPI_Input cmds (c\<lparr>events := []\<rparr>) line;
                (_, c2) \<leftarrow> SCPI_Input cmds (c1\<lparr>events := []\<rparr>) crlf;
                let evs = events c1 @ events c2;
                if EvUser ARRAY_OVERRUN \<in> set evs then None
                else Some (concat (map shown evs), EvUser EXIT_SCPI \<in> set evs, c2) })"

fun session :: "scpi_command_t list \<Rightarrow> scpi_t \<Rightarrow> string list \<Rightarrow> (string list \<times> scpi_t) option" where
  "session cmds c [] = None"
| "session cmds c (l # ls) =
     do { (t, ex, c) \<leftarrow> answer cmds c l;
          if ex then (if ls = [] then Some ([t], c) else None)
          else do { (ts, c) \<leftarrow> session cmds c ls; Some (t # ts, c) } }"

text \<open>A pair of halves is the difference of a counter at two moments.\<close>

definition elapsed :: "clock \<Rightarrow> u32 \<times> u32 \<Rightarrow> bool" where
  "elapsed clock d \<longleftrightarrow> (\<exists>k k'. k < k' \<and> join64 (fst d) (snd d) = clock k' - clock k)"

text \<open>What a line adds to the output: its echo, the answer and the two reports.\<close>

definition line_output :: "string \<Rightarrow> string \<Rightarrow> (u32 \<times> u32) \<times> (u32 \<times> u32) \<Rightarrow> u8 list" where
  "line_output l t d = concat (map echo_of (bytes_of l @ [0x0D])) @
     bytes_of (t @ report ''cycles   '' (fst d) @ report ''instr    '' (snd d))"

fun transcript :: "string list \<Rightarrow> string list \<Rightarrow> ((u32 \<times> u32) \<times> (u32 \<times> u32)) list \<Rightarrow> u8 list" where
  "transcript (l # ls) (t # ts) (d # ds) = line_output l t d @ transcript ls ts ds"
| "transcript _ _ _ = []"

lemma measuring:
  assumes "mono clock"
  shows "\<exists>a t1. read_halves clock t = Some (a, t1) \<and>
    (\<exists>b t2. read_halves clock t1 = Some (b, t2) \<and> elapsed clock (sub_u64 b a))"
proof -
  obtain k t1 where a: "read_halves clock t = Some ((upper (clock k), lower (clock k)), t1)" "k < t1"
    using read_halves_value [OF assms] by blast
  obtain k' t2 where b: "read_halves clock t1 = Some ((upper (clock k'), lower (clock k')), t2)" "t1 \<le> k'"
    using read_halves_value [OF assms] by blast
  have "k < k'" using a b by simp
  then have "elapsed clock (sub_u64 (upper (clock k'), lower (clock k')) (upper (clock k), lower (clock k)))"
    unfolding elapsed_def measured by blast
  then show ?thesis using a b by blast
qed

lemma keyboard_platform: "line_buffered splits \<Longrightarrow> platform_ok (keyboard script) splits"
proof -
  have "dev32 (keyboard script) h (SOC_CTRL_START_ADDRESS + SOC_CTRL_SYSTEM_FREQUENCY_HZ_REG_OFFSET) = 20000000" for h
    by (simp add: keyboard_def reg_defs)
  then have "usable_clock (keyboard script)" by (simp add: usable_clock_def console_init_ok)
  moreover have "uart_responsive (keyboard script) (console 0)" by (rule keyboard_responsive) (simp add: console_def)
  ultimately show "line_buffered splits \<Longrightarrow> ?thesis" by (simp add: platform_ok_def)
qed

lemma report_line: "report w d \<noteq> []" "last (report w d) = CHR 0x0A"
  by (simp_all add: report_def crlf_def)

text \<open>Input that overruns nothing is delivered.\<close>

lemma input_delivers:
  assumes "platform_ok dev splits" "app_inv a" "cmds = app_commands infer img junk stale"
    and "SCPI_Input cmds ((scpi a)\<lparr>events := []\<rparr>) data = Some (r, c)" "EvUser ARRAY_OVERRUN \<notin> set (events c)"
  shows "\<exists>a'. app_input dev splits cmds data a = Some a' \<and> delivers (events c) (a\<lparr>scpi := c\<rparr>) a' \<and> app_inv a' \<and>
    reads_of a' = reads_of a"
proof -
  from app_input_keeps [OF assms(1-3), of data] obtain res c' where
    i: "SCPI_Input cmds ((scpi a)\<lparr>events := []\<rparr>) data = Some (res, c')"
    "case app_input dev splits cmds data a of None \<Rightarrow> EvUser ARRAY_OVERRUN \<in> set (events c')
     | Some app' \<Rightarrow> delivers (events c') (a\<lparr>scpi := c'\<rparr>) app' \<and> app_inv app'" by blast
  have c: "c' = c" using i(1) assms(4) by simp
  obtain a' where a: "app_input dev splits cmds data a = Some a'" "delivers (events c) (a\<lparr>scpi := c\<rparr>) a'" "app_inv a'"
    using i(2) assms(5) c by (cases "app_input dev splits cmds data a") auto
  have "deliver dev splits (events c) (a\<lparr>scpi := c\<rparr>) = Some a'" using a(1) assms(4) by (simp add: app_input_def)
  moreover have "console_of (a\<lparr>scpi := c\<rparr>)" using assms(2) by (simp add: app_inv_def console_of_def)
  ultimately have "reads_of a' = reads_of (a\<lparr>scpi := c\<rparr>)" by (metis deliver_reads)
  then show ?thesis using a by (simp add: app_hist_def)
qed

text \<open>One line: the round returns what the session says.\<close>

lemma line_handled:
  assumes "platform_ok dev splits" "app_inv a" "cmds = app_commands infer img junk stale"
    and "answer cmds (scpi a) l = Some (t, ex, c)" "user_input m buf (of_nat (length l)) = l" "length l < 2047"
  shows "\<exists>a'. (if (of_nat (length l) :: u32) > 0
      then do { a \<leftarrow> app_input dev splits cmds (user_input m buf (of_nat (length l))) a; app_input dev splits cmds crlf a }
      else Some a) = Some a' \<and> app_inv a' \<and> scpi a' = c \<and> reads_of a' = reads_of a \<and> exit_scpi a' = (exit_scpi a \<or> ex) \<and>
    sent_by a' = sent_by a @ bytes_of t"
proof (cases "l = []")
  case True
  then show ?thesis using assms(2,4) by (simp add: answer_def)
next
  case False
  have "unat (of_nat (length l) :: u32) = length l" using assms(6) by (simp add: unat_of_nat take_bit_nat_eq_self)
  then have pos: "(of_nat (length l) :: u32) > 0" using False by (simp add: word_less_nat_alt)
  obtain r1 c1 r2 where i: "SCPI_Input cmds ((scpi a)\<lparr>events := []\<rparr>) l = Some (r1, c1)"
    "SCPI_Input cmds (c1\<lparr>events := []\<rparr>) crlf = Some (r2, c)"
    and ans: "EvUser ARRAY_OVERRUN \<notin> set (events c1)" "EvUser ARRAY_OVERRUN \<notin> set (events c)"
      "t = concat (map shown (events c1)) @ concat (map shown (events c))"
      "ex = (EvUser EXIT_SCPI \<in> set (events c1) \<or> EvUser EXIT_SCPI \<in> set (events c))"
    using assms(4) False by (auto simp: answer_def Let_def split: bind_splits if_splits)
  obtain a1 where a1: "app_input dev splits cmds l a = Some a1" "delivers (events c1) (a\<lparr>scpi := c1\<rparr>) a1" "app_inv a1"
    "reads_of a1 = reads_of a" using input_delivers [OF assms(1-3) i(1) ans(1)] by blast
  have s1: "scpi a1 = c1" using a1(2) by (simp add: delivers_def)
  obtain a2 where a2: "app_input dev splits cmds crlf a1 = Some a2" "delivers (events c) (a1\<lparr>scpi := c\<rparr>) a2" "app_inv a2"
    "reads_of a2 = reads_of a1" using input_delivers [OF assms(1) a1(3) assms(3)] i(2) s1 ans(2) by metis
  have set_scpi: "sent_by (b\<lparr>scpi := x\<rparr>) = sent_by b" for b x by (simp add: sent_by_def app_hist_def)
  show ?thesis
    using pos a1 a2 ans(3,4) assms(5) by (auto simp: delivers_def set_scpi)
qed

text \<open>Between two lines: the application as between two inputs, and no pending backslash.\<close>

definition session_inv :: "session_t \<Rightarrow> bool" where
  "session_inv s \<longleftrightarrow> app_inv (app s) \<and> \<not> modifier (user s)"

lemma app_inv_set_hist [simp]: "app_inv (set_hist h a) = app_inv a"
  by (simp add: app_inv_def)

lemma report_printed:
  assumes "platform_ok dev splits" "app_inv a"
  shows "\<exists>a'. app_print dev splits (report w d) a = Some a' \<and> app_inv a' \<and> scpi a' = scpi a \<and> reads_of a' = reads_of a \<and>
    exit_scpi a' = exit_scpi a \<and> sent_by a' = sent_by a @ bytes_of (report w d)"
  using print_returns [OF assms report_line [of w d]] print_reads [of dev splits "report w d" a]
  by (auto simp: delivers_def)

lemma round_answers:
  assumes "line_buffered splits" "session_inv s" "cmds = app_commands infer img junk stale" "mono cycles" "mono instrs"
    and "script_left script (app s) = escape (bytes_of l) @ 0x0D # rest" "length l < 2047"
    and "answer cmds (scpi (app s)) l = Some (t, ex, c)"
  shows "\<exists>s' d. uart_scpi_round (keyboard script) splits cmds cycles instrs buf s = Some s' \<and> session_inv s' \<and>
    scpi (app s') = c \<and> script_left script (app s') = rest \<and> exit_scpi (app s') = (exit_scpi (app s) \<or> ex) \<and>
    elapsed cycles (fst d) \<and> elapsed instrs (snd d) \<and> sent_by (app s') = sent_by (app s) @ line_output l t d"
proof -
  have P: "platform_ok (keyboard script) splits" by (rule keyboard_platform [OF assms(1)])
  have inv: "app_inv (app s)" "modifier (user s) = False" using assms(2) by (simp_all add: session_inv_def)
  then have u: "uart_base (app_uart (app s)) = mmio_region_from_addr UART_START_ADDRESS" by (simp add: app_inv_def console_of_def)
  obtain m h where g: "uart_gets (keyboard script) (app_uart (app s)) buf 2048 (umem (user s)) False (app_hist (app s)) =
      Some (of_nat (length l), m, False, h)" "user_input m buf (of_nat (length l)) = l" "drop (console_reads h) script = rest"
    "uart_sent (console 0) h = uart_sent (console 0) (app_hist (app s)) @ concat (map echo_of (bytes_of l @ [0x0D]))"
    using gets_line [OF u assms(7) assms(6) [unfolded script_left_def]] by blast
  let ?a = "set_hist h (app s)"
  obtain c0 t0 c1 t1 where C: "read_mcycle cycles (cyc s) = Some (c0, t0)" "read_mcycle cycles t0 = Some (c1, t1)" "elapsed cycles (sub_u64 c1 c0)"
    using measuring [OF assms(4)] unfolding read_mcycle_def by blast
  obtain i0 u0 i1 u1 where I: "read_minstret instrs (ins s) = Some (i0, u0)" "read_minstret instrs u0 = Some (i1, u1)" "elapsed instrs (sub_u64 i1 i0)"
    using measuring [OF assms(5)] unfolding read_minstret_def by blast
  obtain a1 where a1: "(if (of_nat (length l) :: u32) > 0
      then do { a \<leftarrow> app_input (keyboard script) splits cmds (user_input m buf (of_nat (length l))) ?a; app_input (keyboard script) splits cmds crlf a }
      else Some ?a) = Some a1" "app_inv a1" "scpi a1 = c" "reads_of a1 = reads_of ?a" "exit_scpi a1 = (exit_scpi ?a \<or> ex)"
    "sent_by a1 = sent_by ?a @ bytes_of t"
    using line_handled [OF P, of ?a cmds infer img junk stale l t ex c m buf] inv assms(3,7,8) g(2) by auto
  let ?r1 = "report ''cycles   '' (sub_u64 c1 c0)" and ?r2 = "report ''instr    '' (sub_u64 i1 i0)"
  obtain a2 where a2: "app_print (keyboard script) splits ?r1 a1 = Some a2" "app_inv a2" "scpi a2 = scpi a1" "reads_of a2 = reads_of a1"
    "exit_scpi a2 = exit_scpi a1" "sent_by a2 = sent_by a1 @ bytes_of ?r1" using report_printed [OF P a1(2)] by blast
  obtain a3 where a3: "app_print (keyboard script) splits ?r2 a2 = Some a3" "app_inv a3" "scpi a3 = scpi a2" "reads_of a3 = reads_of a2"
    "exit_scpi a3 = exit_scpi a2" "sent_by a3 = sent_by a2 @ bytes_of ?r2" using report_printed [OF P a2(2)] by blast
  have "uart_scpi_round (keyboard script) splits cmds cycles instrs buf s =
      Some \<lparr>user = \<lparr>umem = m, modifier = False\<rparr>, cyc = t1, ins = u1, app = a3\<rparr>"
    unfolding uart_scpi_round_def inv(2) g(1) Option.bind.simps prod.case Let_def C(1) I(1) a1(1) C(2) I(2) a2(1) a3(1) by simp
  moreover have "sent_by a3 = sent_by (app s) @ line_output l t (sub_u64 c1 c0, sub_u64 i1 i0)"
    using a3(6) a2(6) a1(6) g(4) by (simp add: line_output_def sent_by_def)
  ultimately show ?thesis
    using a1 a2 a3 C(3) I(3) g(3)
    by (intro exI [of _ "\<lparr>user = \<lparr>umem = m, modifier = False\<rparr>, cyc = t1, ins = u1, app = a3\<rparr>"]
        exI [of _ "(sub_u64 c1 c0, sub_u64 i1 i0)"]) (simp add: session_inv_def script_left_def)
qed

definition typed_lines :: "string list \<Rightarrow> u8 list" where
  "typed_lines ls = concat (map (\<lambda>l. escape (bytes_of l) @ [0x0D]) ls)"

text \<open>\<^verbatim>\<open>main\<close> gets to the loop with the parser as it is set up, having read nothing.\<close>

lemma lines_printed:
  assumes "platform_ok dev splits" "console_of a" "pending a = []"
  shows "\<exists>a'. print_lines dev splits ls a = Some a' \<and> console_of a' \<and> pending a' = [] \<and> scpi a' = scpi a \<and>
    exit_scpi a' = exit_scpi a \<and> reads_of a' = reads_of a"
proof -
  obtain a' where p: "print_lines dev splits ls a = Some a'" using print_lines_returns [OF assms(1,2)] by blast
  have d: "deliver dev splits (map (\<lambda>l. EvPrint (l @ crlf)) ls) a = Some a'" using p by (simp add: print_lines_def)
  have l: "prints_lines (map (\<lambda>l. EvPrint (l @ crlf)) ls)" by (auto simp: prints_lines_def crlf_def)
  have "delivers (map (\<lambda>l. EvPrint (l @ crlf)) ls) a a'"
    using deliver_delivers [OF _ _ l assms(2,3) d] assms(1) by (simp add: platform_ok_def)
  then show ?thesis using p deliver_reads [OF assms(2) d] assms(2) by (auto simp: delivers_def console_of_def)
qed

lemma standalone_starts:
  assumes "platform_ok dev splits" "session_inv s" "\<not> exit_scpi (app s)"
  shows "\<exists>s1. standalone_main dev splits cmds cycles instrs buf s = map_option Inr (uart_scpi_loop dev splits cmds cycles instrs buf s1) \<and>
    session_inv s1 \<and> scpi (app s1) = scpi_initial \<and> \<not> exit_scpi (app s1) \<and> reads_of (app s1) = reads_of (app s)"
proof -
  have c: "console_of (app s)" "pending (app s) = []" using assms(2) by (simp_all add: session_inv_def app_inv_def)
  obtain a1 where a1: "print_lines dev splits [''Initializing peripherals...'', ''Initialized soc_ctrl'',
      ''soc_ctrl.base_addr: '' @ fmt_p SOC_CTRL_START_ADDRESS] (app s) = Some a1" "console_of a1" "pending a1 = []"
    "exit_scpi a1 = exit_scpi (app s)" "reads_of a1 = reads_of (app s)" using lines_printed [OF assms(1) c] by blast
  define f where "f = dev32 dev (app_hist a1) (SOC_CTRL_START_ADDRESS + SOC_CTRL_SYSTEM_FREQUENCY_HZ_REG_OFFSET)"
  define h1 where "h1 = app_hist a1 @ [Rd32 (SOC_CTRL_START_ADDRESS + SOC_CTRL_SYSTEM_FREQUENCY_HZ_REG_OFFSET) f]"
  define u where "u = \<lparr>uart_base = mmio_region_from_addr UART_START_ADDRESS, baudrate = 115200, clk_freq_hz = f\<rparr>"
  have uc: "u = console f" by (simp add: u_def console_def UART_BAUDRATE_def)
  obtain h2 where i: "uart_init (Some u) h1 = (kErrorOk, h2)"
    using assms(1) unfolding uc platform_ok_def usable_clock_def f_def by (metis prod.collapse)
  have "console_reads h1 = reads_of a1" by (simp add: h1_def console_reads_def reg_defs)
  then have r2: "console_reads h2 = reads_of a1" using init_reads [of u h1] i by simp
  define a2 where "a2 = (set_hist h2 a1)\<lparr>app_uart := u\<rparr>"
  have 2: "console_of a2" "pending a2 = []" "exit_scpi a2 = exit_scpi a1" "reads_of a2 = reads_of a1"
    using a1(3) r2 by (simp_all add: a2_def u_def console_of_def app_hist_def set_hist_def)
  obtain a3 where a3: "print_lines dev splits [''Initialized UART'', ''uart.base_addr: '' @ fmt_p UART_START_ADDRESS,
      ''uart.baudrate: '' @ fmt_d (baudrate u), ''uart.clk_freq_hz: '' @ fmt_d (clk_freq_hz u)] a2 = Some a3"
    "console_of a3" "pending a3 = []" "exit_scpi a3 = exit_scpi a2" "reads_of a3 = reads_of a2"
    using lines_printed [OF assms(1) 2(1,2)] by blast
  let ?a3 = "a3\<lparr>scpi := scpi_initial\<rparr>"
  have c3: "console_of ?a3" "pending ?a3 = []" using a3 by (simp_all add: console_of_def)
  obtain a4 where a4: "print_lines dev splits ([''Initialized SCPI'', ''Available SCPI commands:''] @ map fst cmds @ [''Initialized TFLite'']) ?a3 = Some a4"
    "console_of a4" "pending a4 = []" "scpi a4 = scpi ?a3" "exit_scpi a4 = exit_scpi ?a3" "reads_of a4 = reads_of ?a3"
    using lines_printed [OF assms(1) c3] by blast
  obtain a5 where a5: "print_lines dev splits [''Starting SCPI loop...''] a4 = Some a5" "console_of a5" "pending a5 = []"
    "scpi a5 = scpi a4" "exit_scpi a5 = exit_scpi a4" "reads_of a5 = reads_of a4" using lines_printed [OF assms(1) a4(2,3)] by blast
  have "standalone_main dev splits cmds cycles instrs buf s =
      map_option Inr (uart_scpi_loop dev splits cmds cycles instrs buf (s\<lparr>app := a5\<rparr>))"
    unfolding standalone_main_def a1(1) Option.bind.simps Let_def soc_freq f_def [symmetric] h1_def [symmetric] prod.case
      u_def [symmetric] i a2_def [symmetric] a3(1) a4(1)
    by (simp only: simp_thms if_False Option.bind.simps a3(1) a4(1) uart_scpi_def a5(1)) (simp add: a5(1))
  then show ?thesis
    using a1(4,5) 2 a3 a4 a5 assms(2,3) scpi_initial_inv
    by (intro exI [of _ "s\<lparr>app := a5\<rparr>"]) (simp add: session_inv_def app_inv_def app_hist_def)
qed

text \<open>C33: A session: lines of fewer than 2047 bytes are typed, each ended by a carriage return, of which the last and only the last makes
  the exit command run. Then the loop ends, however fast the counters run as long as they do not run backwards; the parser is in
  the state, and the serial line shows, in order, for every line its echo, the answer and errors that the parser gives to exactly
  the line typed, and two reports, each the exact difference of the counter at two moments; nothing else is read or shown.\<close>

theorem standalone_session:
  assumes "line_buffered splits" "session_inv s" "\<not> exit_scpi (app s)" "mono cycles" "mono instrs"
    and "cmds = app_commands infer img junk stale"
    and "script_left script (app s) = typed_lines ls @ rest" "list_all (\<lambda>l. length l < 2047) ls"
    and "session cmds (scpi (app s)) ls = Some (ts, c)"
  shows "\<exists>s' ds. uart_scpi_loop (keyboard script) splits cmds cycles instrs buf s = Some s' \<and> scpi (app s') = c \<and>
    script_left script (app s') = rest \<and> list_all (\<lambda>d. elapsed cycles (fst d) \<and> elapsed instrs (snd d)) ds \<and> length ds = length ls \<and>
    sent_by (app s') = sent_by (app s) @ transcript ls ts ds"
  using assms(2,3,7-9)
proof (induction ls arbitrary: s ts)
  case (Cons l ls)
  obtain t ex c1 where a: "answer cmds (scpi (app s)) l = Some (t, ex, c1)"
    and rest: "(if ex then (if ls = [] then Some ([t], c1) else None)
      else do { (ts, c) \<leftarrow> session cmds c1 ls; Some (t # ts, c) }) = Some (ts, c)"
    using Cons.prems(5) by (auto split: bind_splits)
  have left: "script_left script (app s) = escape (bytes_of l) @ 0x0D # (typed_lines ls @ rest)"
    using Cons.prems(3) by (simp add: typed_lines_def)
  have len: "length l < 2047" using Cons.prems(4) by simp
  obtain s1 d where r: "uart_scpi_round (keyboard script) splits cmds cycles instrs buf s = Some s1" "session_inv s1" "scpi (app s1) = c1"
    "script_left script (app s1) = typed_lines ls @ rest" "exit_scpi (app s1) = (exit_scpi (app s) \<or> ex)" "elapsed cycles (fst d)" "elapsed instrs (snd d)"
    "sent_by (app s1) = sent_by (app s) @ line_output l t d"
    using round_answers [OF assms(1) Cons.prems(1) assms(6,4,5) left len a, of buf] by blast
  have step: "uart_scpi_loop (keyboard script) splits cmds cycles instrs buf s = uart_scpi_loop (keyboard script) splits cmds cycles instrs buf s1"
    using Cons.prems(2) r(1) by (subst uart_scpi_loop.simps) simp
  show ?case
  proof (cases ex)
    case True
    then have e: "ls = []" "ts = [t]" "c = c1" using rest by (auto split: if_splits)
    have "uart_scpi_loop (keyboard script) splits cmds cycles instrs buf s1 = Some s1"
      using r(5) True by (subst uart_scpi_loop.simps) simp
    then show ?thesis
      using step r e by (intro exI [of _ s1] exI [of _ "[d]"]) (auto simp: typed_lines_def)
  next
    case False
    then obtain ts' where e: "session cmds c1 ls = Some (ts', c)" "ts = t # ts'" using rest by (auto split: bind_splits)
    have small: "list_all (\<lambda>l. length l < 2047) ls" using Cons.prems(4) by simp
    obtain s' ds where s': "uart_scpi_loop (keyboard script) splits cmds cycles instrs buf s1 = Some s'" "scpi (app s') = c"
      "script_left script (app s') = rest" "list_all (\<lambda>d. elapsed cycles (fst d) \<and> elapsed instrs (snd d)) ds" "length ds = length ls"
      "sent_by (app s') = sent_by (app s1) @ transcript ls ts' ds"
      using Cons.IH [OF r(2) _ r(4) small, of ts'] r(3,5) False e(1) Cons.prems(2) by auto
    show ?thesis
      using step s' r e by (intro exI [of _ s'] exI [of _ "d # ds"]) auto
  qed
qed simp

text \<open>The command loop is evaluated by its equation. A parser with a small buffer, for the examples.\<close>

declare input_loop.simps [code]

definition small_scpi :: scpi_t where
  "small_scpi = SCPI_Init app_interface [Some ''MANUFACTURE'', Some ''INSTR2013'', None, Some ''01-02'']
     (replicate 16 NUL) (replicate 4 \<lparr>error_code = 0\<rparr>) 4"

definition demo_session :: session_t where
  "demo_session = \<lparr>user = \<lparr>umem = (\<lambda>_. 0), modifier = False\<rparr>, cyc = 0, ins = 0, app = demo_app\<lparr>scpi := small_scpi\<rparr>\<rparr>"

lemma demo_session_inv: "session_inv demo_session"
proof -
  have "ctx_inv small_scpi"
    unfolding small_scpi_def using SCPI_Init_inv [of "replicate 16 NUL" "replicate 4 \<lparr>error_code = 0\<rparr>"] by simp
  then show ?thesis using demo_app_inv by (simp add: session_inv_def demo_session_def app_inv_def console_of_def)
qed

lemma exit_session:
  "session (app_commands (\<lambda>_. (0, [])) [] [] []) small_scpi [''EXT''] \<noteq> None"
proof -
  have "\<not> Option.is_none (session (app_commands (\<lambda>_. (0, [])) [] [] []) small_scpi [''EXT''])" by code_simp
  then show ?thesis by (simp add: Option.is_none_def)
qed

lemma standalone_session_witness:
  "\<exists>s' t ds. uart_scpi_loop (keyboard (typed_lines [''EXT''])) (\<lambda>s. [length s]) (app_commands (\<lambda>_. (0, [])) [] [] [])
      (\<lambda>n. if n < 4 then 0xFFFFFFFF else 0x100000000) (\<lambda>n. 7) 0x70000 demo_session = Some s' \<and>
    sent_by (app s') = transcript [''EXT''] [t] ds"
proof -
  have l: "line_buffered (\<lambda>s. [length s])" by (simp add: line_buffered_def)
  have m: "mono (\<lambda>n :: nat. if n < 4 then 0xFFFFFFFF else 0x100000000 :: u64)" "mono (\<lambda>n :: nat. 7 :: u64)"
    by (auto simp: mono_def)
  have e: "\<not> exit_scpi (app demo_session)" "scpi (app demo_session) = small_scpi" "sent_by (app demo_session) = []"
    by (simp_all add: demo_session_def demo_app_def sent_by_def app_hist_def)
  have s: "script_left (typed_lines [''EXT'']) (app demo_session) = typed_lines [''EXT''] @ []"
    by (simp add: script_left_def demo_session_def demo_app_def app_hist_def)
  obtain ts c where ts: "session (app_commands (\<lambda>_. (0, [])) [] [] []) (scpi (app demo_session)) [''EXT''] = Some (ts, c)"
    using exit_session e(2) by auto
  then obtain t where t: "ts = [t]" by (auto split: bind_splits if_splits)
  have small: "list_all (\<lambda>l. length l < 2047) [''EXT'']" by simp
  show ?thesis
    using standalone_session [OF l demo_session_inv e(1) m refl s small ts, of "0x70000"] unfolding e(3) t append_Nil by blast
qed

end
