(* ===== verification/Rv_Plic.thy ===== *)
theory Rv_Plic
  imports Regs
begin

text \<open>
  The platform interrupt controller driver, \<^verbatim>\<open>sw/riscv/lib/hal/rv_plic/rv_plic.c\<close>: per source an enable bit, a trigger
  bit, a pending bit and a priority, per target a threshold, a software interrupt and the register that claims
  and completes. The abstract controller at the end is a record of these settings; the driver is shown to
  implement its operations on registers that keep what is written to them.
\<close>

definition RV_PLIC_PARAM_NUM_SRC :: u32 where [reg_defs]: "RV_PLIC_PARAM_NUM_SRC = 64"
definition RV_PLIC_PARAM_NUM_TARGET :: u32 where [reg_defs]: "RV_PLIC_PARAM_NUM_TARGET = 1"
definition RV_PLIC_PARAM_REG_WIDTH :: u32 where [reg_defs]: "RV_PLIC_PARAM_REG_WIDTH = 32"
definition RV_PLIC_IP_0_REG_OFFSET :: u32 where [reg_defs]: "RV_PLIC_IP_0_REG_OFFSET = 0x0"
definition RV_PLIC_LE_MULTIREG_COUNT :: u32 where [reg_defs]: "RV_PLIC_LE_MULTIREG_COUNT = 2"
definition RV_PLIC_LE_0_REG_OFFSET :: u32 where [reg_defs]: "RV_PLIC_LE_0_REG_OFFSET = 0x8"
definition RV_PLIC_PRIO0_REG_OFFSET :: u32 where [reg_defs]: "RV_PLIC_PRIO0_REG_OFFSET = 0x10"
definition RV_PLIC_PRIO0_PRIO0_MASK :: u32 where [reg_defs]: "RV_PLIC_PRIO0_PRIO0_MASK = 0x7"
definition RV_PLIC_IE0_MULTIREG_COUNT :: u32 where [reg_defs]: "RV_PLIC_IE0_MULTIREG_COUNT = 2"
definition RV_PLIC_IE0_0_REG_OFFSET :: u32 where [reg_defs]: "RV_PLIC_IE0_0_REG_OFFSET = 0x200"
definition RV_PLIC_THRESHOLD0_REG_OFFSET :: u32 where [reg_defs]: "RV_PLIC_THRESHOLD0_REG_OFFSET = 0x208"
definition RV_PLIC_CC0_REG_OFFSET :: u32 where [reg_defs]: "RV_PLIC_CC0_REG_OFFSET = 0x20c"
definition RV_PLIC_MSIP0_REG_OFFSET :: u32 where [reg_defs]: "RV_PLIC_MSIP0_REG_OFFSET = 0x210"

definition kDifPlicMinPriority :: u32 where [reg_defs]: "kDifPlicMinPriority = 0"
definition kDifPlicMaxPriority :: u32 where [reg_defs]: "kDifPlicMaxPriority = RV_PLIC_PRIO0_PRIO0_MASK"

datatype dif_plic_toggle_t = kDifPlicToggleEnabled | kDifPlicToggleDisabled
datatype dif_plic_irq_trigger_t = kDifPlicIrqTriggerEdge | kDifPlicIrqTriggerLevel
datatype dif_plic_result_t = kDifPlicOk | kDifPlicError | kDifPlicBadArg

record dif_plic_params_t = plic_base :: mmio_region_t
record dif_plic_t = plic_params :: dif_plic_params_t

record plic_reg_info_t =
  ri_offset :: u32
  ri_bit_index :: u32

subsection \<open>Registers of a source and of a target\<close>

definition plic_offset_from_reg0 :: "u32 \<Rightarrow> u32" where
  "plic_offset_from_reg0 irq = (let register_index = ucast (irq div RV_PLIC_PARAM_REG_WIDTH) :: u8 in ucast register_index * 4)"

definition plic_irq_bit_index :: "u32 \<Rightarrow> u8" where
  "plic_irq_bit_index irq = ucast (irq mod RV_PLIC_PARAM_REG_WIDTH)"

definition plic_irq_enable_base_for_target :: "u32 \<Rightarrow> u32" where
  "plic_irq_enable_base_for_target target =
     (let range = RV_PLIC_IE0_MULTIREG_COUNT * 4 in RV_PLIC_IE0_0_REG_OFFSET + range * target)"

definition plic_software_irq_base_for_target :: "u32 \<Rightarrow> u32" where
  "plic_software_irq_base_for_target target = RV_PLIC_MSIP0_REG_OFFSET + target * 4"

definition plic_threshold_base_for_target :: "u32 \<Rightarrow> u32" where
  "plic_threshold_base_for_target target = RV_PLIC_THRESHOLD0_REG_OFFSET + target * 4"

definition plic_claim_complete_base_for_target :: "u32 \<Rightarrow> u32" where
  "plic_claim_complete_base_for_target target = RV_PLIC_CC0_REG_OFFSET + target * 4"

definition plic_irq_enable_reg_info :: "u32 \<Rightarrow> u32 \<Rightarrow> plic_reg_info_t" where
  "plic_irq_enable_reg_info irq target =
     \<lparr>ri_offset = plic_irq_enable_base_for_target target + plic_offset_from_reg0 irq, ri_bit_index = ucast (plic_irq_bit_index irq)\<rparr>"

definition plic_irq_trigger_type_reg_info :: "u32 \<Rightarrow> plic_reg_info_t" where
  "plic_irq_trigger_type_reg_info irq =
     \<lparr>ri_offset = RV_PLIC_LE_0_REG_OFFSET + plic_offset_from_reg0 irq, ri_bit_index = ucast (plic_irq_bit_index irq)\<rparr>"

definition plic_irq_pending_reg_info :: "u32 \<Rightarrow> plic_reg_info_t" where
  "plic_irq_pending_reg_info irq =
     \<lparr>ri_offset = RV_PLIC_IP_0_REG_OFFSET + plic_offset_from_reg0 irq, ri_bit_index = ucast (plic_irq_bit_index irq)\<rparr>"

definition plic_priority_reg_offset :: "u32 \<Rightarrow> u32" where
  "plic_priority_reg_offset irq = RV_PLIC_PRIO0_REG_OFFSET + irq * 4"

subsection \<open>Reset and initialisation\<close>

text \<open>The loops run over register numbers; each iteration clears one register.\<close>

definition clear_regs :: "mmio_region_t \<Rightarrow> (u32 \<Rightarrow> u32) \<Rightarrow> u32 \<Rightarrow> hist \<Rightarrow> hist" where
  "clear_regs base off n h = fold (\<lambda>i. mmio_region_write32 base (off (of_nat i)) 0) [0..<unat n] h"

definition plic_reset_target :: "mmio_region_t \<Rightarrow> u32 \<Rightarrow> hist \<Rightarrow> hist" where
  "plic_reset_target base target h =
     (let h1 = clear_regs base (\<lambda>i. plic_irq_enable_base_for_target target + i * 4) RV_PLIC_IE0_MULTIREG_COUNT h;
          h2 = mmio_region_write32 base (plic_threshold_base_for_target target) 0 h1
      in mmio_region_write32 base (plic_software_irq_base_for_target target) 0 h2)"

definition plic_reset :: "dif_plic_t \<Rightarrow> hist \<Rightarrow> hist" where
  "plic_reset plic h =
     (let base = plic_base (plic_params plic);
          h1 = clear_regs base (\<lambda>i. RV_PLIC_LE_0_REG_OFFSET + i * 4) RV_PLIC_LE_MULTIREG_COUNT h;
          h2 = clear_regs base plic_priority_reg_offset RV_PLIC_PARAM_NUM_SRC h1
      in fold (\<lambda>target. plic_reset_target base (of_nat target)) [0..<unat RV_PLIC_PARAM_NUM_TARGET] h2)"

definition dif_plic_init :: "dif_plic_params_t \<Rightarrow> dif_plic_t option \<Rightarrow> hist \<Rightarrow> dif_plic_result_t \<times> dif_plic_t option \<times> hist" where
  "dif_plic_init params plic h =
     (case plic of None \<Rightarrow> (kDifPlicBadArg, None, h)
      | Some p \<Rightarrow> let p' = p\<lparr>plic_params := params\<rparr> in (kDifPlicOk, Some p', plic_reset p' h))"

subsection \<open>Sources\<close>

text \<open>Read one bit, or read a register, change one bit and write it back.\<close>

definition plic_bit :: "device \<Rightarrow> dif_plic_t \<Rightarrow> plic_reg_info_t \<Rightarrow> hist \<Rightarrow> bool \<times> hist" where
  "plic_bit dev p ri h =
     (let (reg, h1) = mmio_region_read32 dev (plic_base (plic_params p)) (ri_offset ri) h
      in (bitfield_bit32_read reg (ri_bit_index ri), h1))"

definition plic_write_bit :: "device \<Rightarrow> dif_plic_t \<Rightarrow> plic_reg_info_t \<Rightarrow> bool \<Rightarrow> hist \<Rightarrow> hist" where
  "plic_write_bit dev p ri flag h =
     (let (reg, h1) = mmio_region_read32 dev (plic_base (plic_params p)) (ri_offset ri) h
      in mmio_region_write32 (plic_base (plic_params p)) (ri_offset ri) (bitfield_bit32_write reg (ri_bit_index ri) flag) h1)"

text \<open>
  Unlike the other operations with an out-parameter, this one does not test its pointer \<open>state\<close>: the outer
  \<open>None\<close> is the access through \<^verbatim>\<open>NULL\<close>.
\<close>

definition dif_plic_irq_get_enabled ::
  "device \<Rightarrow> dif_plic_t option \<Rightarrow> u32 \<Rightarrow> u32 \<Rightarrow> dif_plic_toggle_t option \<Rightarrow> hist
     \<Rightarrow> (dif_plic_result_t \<times> dif_plic_toggle_t option \<times> hist) option" where
  "dif_plic_irq_get_enabled dev plic irq target state h =
     (case plic of None \<Rightarrow> Some (kDifPlicBadArg, state, h)
      | Some p \<Rightarrow>
          if irq \<ge> RV_PLIC_PARAM_NUM_SRC \<or> target \<ge> RV_PLIC_PARAM_NUM_TARGET then Some (kDifPlicBadArg, state, h)
          else let (is_enabled, h1) = plic_bit dev p (plic_irq_enable_reg_info irq target) h
               in case state of None \<Rightarrow> None
                  | Some _ \<Rightarrow> Some (kDifPlicOk, Some (if is_enabled then kDifPlicToggleEnabled else kDifPlicToggleDisabled), h1))"

definition dif_plic_irq_set_enabled ::
  "device \<Rightarrow> dif_plic_t option \<Rightarrow> u32 \<Rightarrow> u32 \<Rightarrow> dif_plic_toggle_t option \<Rightarrow> hist \<Rightarrow> dif_plic_result_t \<times> hist" where
  "dif_plic_irq_set_enabled dev plic irq target state h =
     (case plic of None \<Rightarrow> (kDifPlicBadArg, h)
      | Some p \<Rightarrow>
          if irq \<ge> RV_PLIC_PARAM_NUM_SRC \<or> target \<ge> RV_PLIC_PARAM_NUM_TARGET then (kDifPlicBadArg, h)
          else case state of None \<Rightarrow> (kDifPlicBadArg, h)
               | Some s \<Rightarrow> (kDifPlicOk, plic_write_bit dev p (plic_irq_enable_reg_info irq target) (s = kDifPlicToggleEnabled) h))"

definition dif_plic_irq_set_trigger ::
  "device \<Rightarrow> dif_plic_t option \<Rightarrow> u32 \<Rightarrow> dif_plic_irq_trigger_t option \<Rightarrow> hist \<Rightarrow> dif_plic_result_t \<times> hist" where
  "dif_plic_irq_set_trigger dev plic irq trigger h =
     (case plic of None \<Rightarrow> (kDifPlicBadArg, h)
      | Some p \<Rightarrow>
          if irq \<ge> RV_PLIC_PARAM_NUM_SRC then (kDifPlicBadArg, h)
          else case trigger of None \<Rightarrow> (kDifPlicBadArg, h)
               | Some t \<Rightarrow> (kDifPlicOk, plic_write_bit dev p (plic_irq_trigger_type_reg_info irq) (t = kDifPlicIrqTriggerEdge) h))"

definition dif_plic_irq_set_priority :: "dif_plic_t option \<Rightarrow> u32 \<Rightarrow> u32 \<Rightarrow> hist \<Rightarrow> dif_plic_result_t \<times> hist" where
  "dif_plic_irq_set_priority plic irq priority h =
     (case plic of None \<Rightarrow> (kDifPlicBadArg, h)
      | Some p \<Rightarrow>
          if irq \<ge> RV_PLIC_PARAM_NUM_SRC \<or> priority > kDifPlicMaxPriority then (kDifPlicBadArg, h)
          else (kDifPlicOk, mmio_region_write32 (plic_base (plic_params p)) (plic_priority_reg_offset irq) priority h))"

definition dif_plic_irq_is_pending ::
  "device \<Rightarrow> dif_plic_t option \<Rightarrow> u32 \<Rightarrow> bool option \<Rightarrow> hist \<Rightarrow> dif_plic_result_t \<times> bool option \<times> hist" where
  "dif_plic_irq_is_pending dev plic irq is_pending h =
     (case (plic, is_pending) of
        (Some p, Some _) \<Rightarrow>
          if irq \<ge> RV_PLIC_PARAM_NUM_SRC then (kDifPlicBadArg, is_pending, h)
          else let (b, h1) = plic_bit dev p (plic_irq_pending_reg_info irq) h in (kDifPlicOk, Some b, h1)
      | _ \<Rightarrow> (kDifPlicBadArg, is_pending, h))"

subsection \<open>Targets\<close>

definition dif_plic_target_set_threshold :: "dif_plic_t option \<Rightarrow> u32 \<Rightarrow> u32 \<Rightarrow> hist \<Rightarrow> dif_plic_result_t \<times> hist" where
  "dif_plic_target_set_threshold plic target threshold h =
     (case plic of None \<Rightarrow> (kDifPlicBadArg, h)
      | Some p \<Rightarrow>
          if target \<ge> RV_PLIC_PARAM_NUM_TARGET \<or> threshold > kDifPlicMaxPriority then (kDifPlicBadArg, h)
          else (kDifPlicOk, mmio_region_write32 (plic_base (plic_params p)) (plic_threshold_base_for_target target) threshold h))"

definition dif_plic_irq_claim ::
  "device \<Rightarrow> dif_plic_t option \<Rightarrow> u32 \<Rightarrow> u32 option \<Rightarrow> hist \<Rightarrow> dif_plic_result_t \<times> u32 option \<times> hist" where
  "dif_plic_irq_claim dev plic target claim_data h =
     (case (plic, claim_data) of
        (Some p, Some _) \<Rightarrow>
          if target \<ge> RV_PLIC_PARAM_NUM_TARGET then (kDifPlicBadArg, claim_data, h)
          else let (v, h1) = mmio_region_read32 dev (plic_base (plic_params p)) (plic_claim_complete_base_for_target target) h
               in (kDifPlicOk, Some v, h1)
      | _ \<Rightarrow> (kDifPlicBadArg, claim_data, h))"

definition dif_plic_irq_complete :: "dif_plic_t option \<Rightarrow> u32 \<Rightarrow> u32 option \<Rightarrow> hist \<Rightarrow> dif_plic_result_t \<times> hist" where
  "dif_plic_irq_complete plic target complete_data h =
     (case (plic, complete_data) of
        (Some p, Some v) \<Rightarrow>
          if target \<ge> RV_PLIC_PARAM_NUM_TARGET then (kDifPlicBadArg, h)
          else (kDifPlicOk, mmio_region_write32 (plic_base (plic_params p)) (plic_claim_complete_base_for_target target) v h)
      | _ \<Rightarrow> (kDifPlicBadArg, h))"

definition plic_set_software :: "u32 \<Rightarrow> dif_plic_t option \<Rightarrow> u32 \<Rightarrow> hist \<Rightarrow> dif_plic_result_t \<times> hist" where
  "plic_set_software v plic target h =
     (case plic of None \<Rightarrow> (kDifPlicBadArg, h)
      | Some p \<Rightarrow>
          if target \<ge> RV_PLIC_PARAM_NUM_TARGET then (kDifPlicBadArg, h)
          else (kDifPlicOk, mmio_region_write32 (plic_base (plic_params p)) (plic_software_irq_base_for_target target) v h))"

definition dif_plic_software_irq_force :: "dif_plic_t option \<Rightarrow> u32 \<Rightarrow> hist \<Rightarrow> dif_plic_result_t \<times> hist" where
  "dif_plic_software_irq_force = plic_set_software 1"

definition dif_plic_software_irq_acknowledge :: "dif_plic_t option \<Rightarrow> u32 \<Rightarrow> hist \<Rightarrow> dif_plic_result_t \<times> hist" where
  "dif_plic_software_irq_acknowledge = plic_set_software 0"

definition dif_plic_software_irq_is_pending ::
  "device \<Rightarrow> dif_plic_t option \<Rightarrow> u32 \<Rightarrow> bool option \<Rightarrow> hist \<Rightarrow> dif_plic_result_t \<times> bool option \<times> hist" where
  "dif_plic_software_irq_is_pending dev plic target is_pending h =
     (case (plic, is_pending) of
        (Some p, Some _) \<Rightarrow>
          if target \<ge> RV_PLIC_PARAM_NUM_TARGET then (kDifPlicBadArg, is_pending, h)
          else let (register_value, h1) =
                     mmio_region_read32 dev (plic_base (plic_params p)) (plic_software_irq_base_for_target target) h
               in (kDifPlicOk, Some (register_value = 1), h1)
      | _ \<Rightarrow> (kDifPlicBadArg, is_pending, h))"

subsection \<open>The abstract controller\<close>

text \<open>The settings that the registers stand for.\<close>

record plic_view =
  pv_enabled :: "nat \<Rightarrow> bool"
  pv_edge :: "nat \<Rightarrow> bool"
  pv_prio :: "nat \<Rightarrow> u32"
  pv_threshold :: u32
  pv_software :: bool

definition view_of :: "mmio_region_t \<Rightarrow> (u32 \<Rightarrow> u32) \<Rightarrow> plic_view" where
  "view_of base m =
     \<lparr>pv_enabled = (\<lambda>i. i < 64 \<and> bit (m (at_off base (0x200 + 4 * (i div 32)))) (i mod 32)),
      pv_edge = (\<lambda>i. i < 64 \<and> bit (m (at_off base (0x8 + 4 * (i div 32)))) (i mod 32)),
      pv_prio = (\<lambda>i. if i < 64 then m (at_off base (0x10 + 4 * i)) else 0),
      pv_threshold = m (at_off base 0x208),
      pv_software = (m (at_off base 0x210) = 1)\<rparr>"

text \<open>The calls of the driver, as a client makes them; a claim and a query read only.\<close>

datatype plic_op =
    Op_init
  | Op_enabled u32 u32 "dif_plic_toggle_t option"
  | Op_trigger u32 "dif_plic_irq_trigger_t option"
  | Op_priority u32 u32
  | Op_threshold u32 u32
  | Op_force u32
  | Op_acknowledge u32
  | Op_claim u32
  | Op_complete u32 u32
  | Op_is_pending u32

fun plic_call :: "device \<Rightarrow> dif_plic_t \<Rightarrow> plic_op \<Rightarrow> hist \<Rightarrow> hist" where
  "plic_call dev p Op_init h = snd (snd (dif_plic_init (plic_params p) (Some p) h))"
| "plic_call dev p (Op_enabled irq target s) h = snd (dif_plic_irq_set_enabled dev (Some p) irq target s h)"
| "plic_call dev p (Op_trigger irq t) h = snd (dif_plic_irq_set_trigger dev (Some p) irq t h)"
| "plic_call dev p (Op_priority irq v) h = snd (dif_plic_irq_set_priority (Some p) irq v h)"
| "plic_call dev p (Op_threshold target v) h = snd (dif_plic_target_set_threshold (Some p) target v h)"
| "plic_call dev p (Op_force target) h = snd (dif_plic_software_irq_force (Some p) target h)"
| "plic_call dev p (Op_acknowledge target) h = snd (dif_plic_software_irq_acknowledge (Some p) target h)"
| "plic_call dev p (Op_claim target) h = snd (snd (dif_plic_irq_claim dev (Some p) target (Some 0) h))"
| "plic_call dev p (Op_complete target v) h = snd (dif_plic_irq_complete (Some p) target (Some v) h)"
| "plic_call dev p (Op_is_pending irq) h = snd (snd (dif_plic_irq_is_pending dev (Some p) irq (Some False) h))"

definition plic_off :: plic_view where
  "plic_off = \<lparr>pv_enabled = (\<lambda>_. False), pv_edge = (\<lambda>_. False), pv_prio = (\<lambda>_. 0), pv_threshold = 0, pv_software = False\<rparr>"

fun plic_spec :: "plic_op \<Rightarrow> plic_view \<Rightarrow> plic_view" where
  "plic_spec Op_init v = plic_off"
| "plic_spec (Op_enabled irq target (Some s)) v =
     (if irq < 64 \<and> target = 0 then v\<lparr>pv_enabled := (pv_enabled v)(unat irq := s = kDifPlicToggleEnabled)\<rparr> else v)"
| "plic_spec (Op_trigger irq (Some t)) v =
     (if irq < 64 then v\<lparr>pv_edge := (pv_edge v)(unat irq := t = kDifPlicIrqTriggerEdge)\<rparr> else v)"
| "plic_spec (Op_priority irq k) v =
     (if irq < 64 \<and> k \<le> 7 then v\<lparr>pv_prio := (pv_prio v)(unat irq := k)\<rparr> else v)"
| "plic_spec (Op_threshold target k) v = (if target = 0 \<and> k \<le> 7 then v\<lparr>pv_threshold := k\<rparr> else v)"
| "plic_spec (Op_force target) v = (if target = 0 then v\<lparr>pv_software := True\<rparr> else v)"
| "plic_spec (Op_acknowledge target) v = (if target = 0 then v\<lparr>pv_software := False\<rparr> else v)"
| "plic_spec _ v = v"

subsection \<open>The driver implements it\<close>

lemma arg_checks:
  "RV_PLIC_PARAM_NUM_TARGET \<le> target \<longleftrightarrow> target \<noteq> 0"
  "RV_PLIC_PARAM_NUM_SRC \<le> irq \<longleftrightarrow> \<not> unat irq < 64" "irq < 64 \<longleftrightarrow> unat irq < 64"
  "kDifPlicMaxPriority < k \<longleftrightarrow> \<not> k \<le> 7"
proof -
  have "1 \<le> target \<longleftrightarrow> target \<noteq> 0" by (metis linorder_not_less word_less_1)
  then show "RV_PLIC_PARAM_NUM_TARGET \<le> target \<longleftrightarrow> target \<noteq> 0" by (simp add: reg_defs)
qed (auto simp: reg_defs not_le word_less_nat_alt word_le_nat_alt)

lemma source_reg:
  assumes "unat irq < 64"
  shows "unat (plic_offset_from_reg0 irq) = 4 * (unat irq div 32)"
    "unat (ucast (plic_irq_bit_index irq) :: u32) = unat irq mod 32"
proof -
  have d: "unat (irq div 32) = unat irq div 32" "unat (irq mod 32) = unat irq mod 32"
    by (simp_all add: unat_div_distrib unat_mod_distrib)
  have "unat irq div 32 < 2" using assms by simp
  then have "unat (ucast (irq div 32) :: u8) = unat irq div 32"
    by (simp add: unsigned_ucast_eq d take_bit_nat_eq_self)
  then have "unat (ucast (ucast (irq div 32) :: u8) :: u32) = unat irq div 32"
    using \<open>unat irq div 32 < 2\<close> by (simp add: unsigned_ucast_eq take_bit_nat_eq_self unsigned_take_bit_eq d)
  then show "unat (plic_offset_from_reg0 irq) = 4 * (unat irq div 32)"
    using \<open>unat irq div 32 < 2\<close> by (simp add: plic_offset_from_reg0_def reg_defs Let_def unat_word_ariths)
  show "unat (ucast (plic_irq_bit_index irq) :: u32) = unat irq mod 32"
    by (simp add: plic_irq_bit_index_def reg_defs unsigned_ucast_eq d take_bit_nat_eq_self unsigned_take_bit_eq)
qed

lemma off_plus:
  assumes "unat w = j" "unat off + j < 2 ^ 32" "(unat off + j) mod 4 = 0"
  shows "reg_addr base (off + w) = at_off base (unat off + j)"
proof -
  have "unat (off + w) = unat off + j" using assms(1,2) by (simp add: unat_word_ariths)
  then show ?thesis using assms(3) by (simp add: reg_addr_at_off)
qed

lemma source_addr:
  assumes "unat irq < 64"
  shows "reg_addr base (0x200 + plic_offset_from_reg0 irq) = at_off base (0x200 + 4 * (unat irq div 32))"
    "reg_addr base (0x8 + plic_offset_from_reg0 irq) = at_off base (0x8 + 4 * (unat irq div 32))"
    "reg_addr base (0x10 + irq * 4) = at_off base (0x10 + 4 * unat irq)"
proof -
  show "reg_addr base (0x200 + plic_offset_from_reg0 irq) = at_off base (0x200 + 4 * (unat irq div 32))"
    "reg_addr base (0x8 + plic_offset_from_reg0 irq) = at_off base (0x8 + 4 * (unat irq div 32))"
    using off_plus [OF source_reg(1) [OF assms], of "0x200" base] off_plus [OF source_reg(1) [OF assms], of "0x8" base] assms
    by (simp_all add: mod_simps)
  have "unat (irq * 4) = 4 * unat irq" using assms by (simp add: unat_word_ariths)
  from off_plus [OF this, of "0x10" base] show "reg_addr base (0x10 + irq * 4) = at_off base (0x10 + 4 * unat irq)"
    using assms by simp
qed

text \<open>What one write does to the settings.\<close>

lemma view_writes:
  "view_of base (m(at_off base (0x10 + 4 * i) := k)) = (if i < 64 then (view_of base m)\<lparr>pv_prio := (pv_prio (view_of base m))(i := k)\<rparr>
     else view_of base (m(at_off base (0x10 + 4 * i) := k)))"
  "view_of base (m(at_off base 0x208 := k)) = (view_of base m)\<lparr>pv_threshold := k\<rparr>"
  "view_of base (m(at_off base 0x210 := k)) = (view_of base m)\<lparr>pv_software := k = 1\<rparr>"
  "view_of base (m(at_off base 0x20c := k)) = view_of base m"
  by (auto simp: view_of_def at_off_inj fun_eq_iff)

lemma source_bit_write:
  assumes "i < 64" "I < 64" "unat k = I mod 32" "b + 4 < 2 ^ 32"
  shows "bit ((m(at_off base (b + 4 * (I div 32)) := bitfield_bit32_write (m (at_off base (b + 4 * (I div 32)))) k f))
              (at_off base (b + 4 * (i div 32)))) (i mod 32) =
         (if i = I then f else bit (m (at_off base (b + 4 * (i div 32)))) (i mod 32))"
proof -
  have "i = I \<longleftrightarrow> i div 32 = I div 32 \<and> i mod 32 = I mod 32" by (metis div_mult_mod_eq)
  moreover have "i div 32 \<le> 1" "I div 32 \<le> 1" using assms(1,2) by auto
  ultimately show ?thesis using assms(3,4) by (auto simp: at_off_inj bit32_write_bit)
qed

lemma view_eqI:
  assumes "\<And>i. i < 64 \<Longrightarrow> bit (m (at_off base (0x200 + 4 * (i div 32)))) (i mod 32) = pv_enabled v i"
    and "\<And>i. i < 64 \<Longrightarrow> bit (m (at_off base (0x8 + 4 * (i div 32)))) (i mod 32) = pv_edge v i"
    and "\<And>i. i < 64 \<Longrightarrow> m (at_off base (0x10 + 4 * i)) = pv_prio v i"
    and "\<And>i. \<not> i < 64 \<Longrightarrow> \<not> pv_enabled v i \<and> \<not> pv_edge v i \<and> pv_prio v i = 0"
    and "m (at_off base 0x208) = pv_threshold v" "(m (at_off base 0x210) = 1) = pv_software v"
  shows "view_of base m = v"
proof (rule plic_view.equality)
  show "pv_enabled (view_of base m) = pv_enabled v"
    by (rule ext, rename_tac i, case_tac "i < 64") (simp_all add: view_of_def assms(1,4))
  show "pv_edge (view_of base m) = pv_edge v"
    by (rule ext, rename_tac i, case_tac "i < 64") (simp_all add: view_of_def assms(2,4))
  show "pv_prio (view_of base m) = pv_prio v"
    by (rule ext, rename_tac i, case_tac "i < 64") (simp_all add: view_of_def assms(3,4))
qed (simp_all add: view_of_def assms(5,6))

lemma view_bit_writes:
  fixes base :: mmio_region_t
  assumes "I < 64" "unat k = I mod 32"
  defines "en \<equiv> at_off base (0x200 + 4 * (I div 32))" and "ed \<equiv> at_off base (0x8 + 4 * (I div 32))"
  shows "view_of base (m(en := bitfield_bit32_write (m en) k f)) = (view_of base m)\<lparr>pv_enabled := (pv_enabled (view_of base m))(I := f)\<rparr>"
   "view_of base (m(ed := bitfield_bit32_write (m ed) k f)) = (view_of base m)\<lparr>pv_edge := (pv_edge (view_of base m))(I := f)\<rparr>"
proof -
  have lo: "0x200 + 4 * (j div 32) < 0x208" "0x8 + 4 * (j div 32) < 0x10" if "j < 64" for j :: nat using that by auto
  note I = lo [OF assms(1)]
  show "view_of base (m(en := bitfield_bit32_write (m en) k f)) = (view_of base m)\<lparr>pv_enabled := (pv_enabled (view_of base m))(I := f)\<rparr>"
  proof (rule view_eqI)
    fix i :: nat assume i: "i < 64"
    note l = lo [OF i]
    show "bit ((m(en := bitfield_bit32_write (m en) k f)) (at_off base (0x200 + 4 * (i div 32)))) (i mod 32) =
       pv_enabled ((view_of base m)\<lparr>pv_enabled := (pv_enabled (view_of base m))(I := f)\<rparr>) i"
      unfolding en_def using source_bit_write [OF i assms(1,2), of "0x200"] i by (simp add: view_of_def)
    show "bit ((m(en := bitfield_bit32_write (m en) k f)) (at_off base (0x8 + 4 * (i div 32)))) (i mod 32) =
       pv_edge ((view_of base m)\<lparr>pv_enabled := (pv_enabled (view_of base m))(I := f)\<rparr>) i"
      "(m(en := bitfield_bit32_write (m en) k f)) (at_off base (0x10 + 4 * i)) =
       pv_prio ((view_of base m)\<lparr>pv_enabled := (pv_enabled (view_of base m))(I := f)\<rparr>) i"
      unfolding en_def using i l I by (simp_all add: view_of_def at_off_inj)
  qed (use assms(1) I in \<open>simp_all add: view_of_def en_def at_off_inj\<close>)
  show "view_of base (m(ed := bitfield_bit32_write (m ed) k f)) = (view_of base m)\<lparr>pv_edge := (pv_edge (view_of base m))(I := f)\<rparr>"
  proof (rule view_eqI)
    fix i :: nat assume i: "i < 64"
    note l = lo [OF i]
    show "bit ((m(ed := bitfield_bit32_write (m ed) k f)) (at_off base (0x8 + 4 * (i div 32)))) (i mod 32) =
       pv_edge ((view_of base m)\<lparr>pv_edge := (pv_edge (view_of base m))(I := f)\<rparr>) i"
      unfolding ed_def using source_bit_write [OF i assms(1,2), of "0x8"] i by (simp add: view_of_def)
    show "bit ((m(ed := bitfield_bit32_write (m ed) k f)) (at_off base (0x200 + 4 * (i div 32)))) (i mod 32) =
       pv_enabled ((view_of base m)\<lparr>pv_edge := (pv_edge (view_of base m))(I := f)\<rparr>) i"
      "(m(ed := bitfield_bit32_write (m ed) k f)) (at_off base (0x10 + 4 * i)) =
       pv_prio ((view_of base m)\<lparr>pv_edge := (pv_edge (view_of base m))(I := f)\<rparr>) i"
      unfolding ed_def using i l I by (simp_all add: view_of_def at_off_inj)
  qed (use assms(1) I in \<open>simp_all add: view_of_def ed_def at_off_inj\<close>)
qed

definition plic_reset_writes :: "(nat \<times> u32) list" where
  "plic_reset_writes = map (\<lambda>i. (0x8 + 4 * i, 0)) [0..<2] @ map (\<lambda>i. (0x10 + 4 * i, 0)) [0..<64] @
     map (\<lambda>i. (0x200 + 4 * i, 0)) [0..<2] @ [(0x208, 0), (0x210, 0)]"

lemma plic_reset_writes: "plic_reset p h = h @ writes (plic_base (plic_params p)) plic_reset_writes"
proof -
  let ?base = "plic_base (plic_params p)"
  have le: "clear_regs ?base (\<lambda>i. RV_PLIC_LE_0_REG_OFFSET + i * 4) RV_PLIC_LE_MULTIREG_COUNT h =
      h @ writes ?base (map (\<lambda>i. (0x8 + 4 * i, 0)) [0..<2])" for h
    using write_loop [of 2 "\<lambda>i. RV_PLIC_LE_0_REG_OFFSET + i * 4" "0x8" ?base 0 h]
    by (simp add: clear_regs_def reg_defs mult.commute)
  have pr: "clear_regs ?base plic_priority_reg_offset RV_PLIC_PARAM_NUM_SRC h =
      h @ writes ?base (map (\<lambda>i. (0x10 + 4 * i, 0)) [0..<64])" for h
    using write_loop [of 64 plic_priority_reg_offset "0x10" ?base 0 h]
    by (simp add: clear_regs_def plic_priority_reg_offset_def reg_defs mult.commute)
  have ie: "clear_regs ?base (\<lambda>i. plic_irq_enable_base_for_target 0 + i * 4) RV_PLIC_IE0_MULTIREG_COUNT h =
      h @ writes ?base (map (\<lambda>i. (0x200 + 4 * i, 0)) [0..<2])" for h
    using write_loop [of 2 "\<lambda>i. plic_irq_enable_base_for_target 0 + i * 4" "0x200" ?base 0 h]
    by (simp add: clear_regs_def plic_irq_enable_base_for_target_def reg_defs mult.commute)
  have th: "mmio_region_write32 ?base (plic_threshold_base_for_target 0) 0 h = h @ writes ?base [(0x208, 0)]" for h
    by (rule write_at) (simp_all add: plic_threshold_base_for_target_def reg_defs)
  have ms: "mmio_region_write32 ?base (plic_software_irq_base_for_target 0) 0 h = h @ writes ?base [(0x210, 0)]" for h
    by (rule write_at) (simp_all add: plic_software_irq_base_for_target_def reg_defs)
  have one: "unat RV_PLIC_PARAM_NUM_TARGET = 1" by (simp add: reg_defs)
  show ?thesis
    unfolding plic_reset_def plic_reset_target_def Let_def le pr one
    by (simp add: ie th ms plic_reset_writes_def)
qed

lemma plic_reset_view: "view_of (plic_base (plic_params p)) (regs_after m0 (plic_reset p h)) = plic_off"
proof -
  let ?base = "plic_base (plic_params p)"
  have bound: "\<forall>(j, w)\<in>set plic_reset_writes. j < 2 ^ 32 \<and> (j = k \<longrightarrow> w = 0)" for k
    by (auto simp: plic_reset_writes_def)
  have z: "regs_after m0 (plic_reset p h) (at_off ?base k) = 0" if "(k, 0) \<in> set plic_reset_writes" "k < 2 ^ 32" for k
    unfolding plic_reset_writes regs_after_append by (rule writes_agree [OF bound that(2,1)])
  show ?thesis
  proof (rule view_eqI)
    fix i :: nat assume i: "i < 64"
    then have "i div 32 \<in> {0..<2}" by auto
    then have "(0x200 + 4 * (i div 32), 0) \<in> set plic_reset_writes" "(0x8 + 4 * (i div 32), 0) \<in> set plic_reset_writes"
      "(0x10 + 4 * i, 0) \<in> set plic_reset_writes"
      using i by (auto simp: plic_reset_writes_def)
    then show "bit (regs_after m0 (plic_reset p h) (at_off ?base (0x200 + 4 * (i div 32)))) (i mod 32) = pv_enabled plic_off i"
      "bit (regs_after m0 (plic_reset p h) (at_off ?base (0x8 + 4 * (i div 32)))) (i mod 32) = pv_edge plic_off i"
      "regs_after m0 (plic_reset p h) (at_off ?base (0x10 + 4 * i)) = pv_prio plic_off i"
      using i by (simp_all add: z plic_off_def)
  qed (simp_all add: z plic_off_def plic_reset_writes_def)
qed

lemma plic_write_bit_regs:
  "regs_after m0 (plic_write_bit (storage_dev m0) p ri f h) =
    (let a = reg_addr (plic_base (plic_params p)) (ri_offset ri); m = regs_after m0 h
     in m(a := bitfield_bit32_write (m a) (ri_bit_index ri) f))"
  by (simp add: plic_write_bit_def mmio_region_read32_def mmio_region_write32_def Let_def)

lemma plic_call_view:
  "view_of (plic_base (plic_params p)) (regs_after m0 (plic_call (storage_dev m0) p c h)) =
   plic_spec c (view_of (plic_base (plic_params p)) (regs_after m0 h))"
proof (cases c)
  case Op_init
  then show ?thesis using plic_reset_view [of p m0 h] by (simp add: dif_plic_init_def Let_def)
next
  case (Op_enabled irq target s)
  have "view_of (plic_base (plic_params p)) (regs_after m0 (plic_write_bit (storage_dev m0) p (plic_irq_enable_reg_info irq 0) f h)) =
      (view_of (plic_base (plic_params p)) (regs_after m0 h))
        \<lparr>pv_enabled := (pv_enabled (view_of (plic_base (plic_params p)) (regs_after m0 h)))(unat irq := f)\<rparr>" if "unat irq < 64" for f
    using view_bit_writes(1) [OF that source_reg(2) [OF that]] source_addr(1) [OF that]
    by (simp add: plic_write_bit_regs Let_def plic_irq_enable_reg_info_def plic_irq_enable_base_for_target_def reg_defs)
  then show ?thesis
    using Op_enabled by (cases s) (auto simp: dif_plic_irq_set_enabled_def arg_checks)
next
  case (Op_trigger irq t)
  have "view_of (plic_base (plic_params p)) (regs_after m0 (plic_write_bit (storage_dev m0) p (plic_irq_trigger_type_reg_info irq) f h)) =
      (view_of (plic_base (plic_params p)) (regs_after m0 h))
        \<lparr>pv_edge := (pv_edge (view_of (plic_base (plic_params p)) (regs_after m0 h)))(unat irq := f)\<rparr>" if "unat irq < 64" for f
    using view_bit_writes(2) [OF that source_reg(2) [OF that]] source_addr(2) [OF that]
    by (simp add: plic_write_bit_regs Let_def plic_irq_trigger_type_reg_info_def reg_defs)
  then show ?thesis
    using Op_trigger by (cases t) (auto simp: dif_plic_irq_set_trigger_def arg_checks)
next
  case (Op_priority irq k)
  then show ?thesis
    using view_writes(1) [where i = "unat irq"] source_addr(3) [of irq]
    by (auto simp: dif_plic_irq_set_priority_def arg_checks mmio_region_write32_def plic_priority_reg_offset_def RV_PLIC_PRIO0_REG_OFFSET_def)
next
  case (Op_threshold target k)
  have "reg_addr base (plic_threshold_base_for_target 0) = at_off base 0x208" for base
    by (rule reg_addr_at_off) (simp_all add: plic_threshold_base_for_target_def reg_defs)
  then show ?thesis
    using Op_threshold
    by (auto simp: dif_plic_target_set_threshold_def arg_checks mmio_region_write32_def view_writes)
next
  case (Op_force target)
  have "reg_addr base (plic_software_irq_base_for_target 0) = at_off base 0x210" for base
    by (rule reg_addr_at_off) (simp_all add: plic_software_irq_base_for_target_def reg_defs)
  then show ?thesis
    using Op_force
    by (auto simp: dif_plic_software_irq_force_def plic_set_software_def arg_checks mmio_region_write32_def view_writes)
next
  case (Op_acknowledge target)
  have "reg_addr base (plic_software_irq_base_for_target 0) = at_off base 0x210" for base
    by (rule reg_addr_at_off) (simp_all add: plic_software_irq_base_for_target_def reg_defs)
  then show ?thesis
    using Op_acknowledge
    by (auto simp: dif_plic_software_irq_acknowledge_def plic_set_software_def arg_checks mmio_region_write32_def view_writes)
next
  case (Op_complete target v)
  have "reg_addr base (plic_claim_complete_base_for_target 0) = at_off base 0x20c" for base
    by (rule reg_addr_at_off) (simp_all add: plic_claim_complete_base_for_target_def reg_defs)
  then show ?thesis
    using Op_complete
    by (auto simp: dif_plic_irq_complete_def arg_checks mmio_region_write32_def view_writes)
qed (simp_all add: dif_plic_irq_claim_def dif_plic_irq_is_pending_def plic_bit_def mmio_region_read32_def Let_def)

subsection \<open>Sequences of calls\<close>

definition plic_calls :: "device \<Rightarrow> dif_plic_t \<Rightarrow> plic_op list \<Rightarrow> hist \<Rightarrow> hist" where
  "plic_calls dev p cs h = fold (plic_call dev p) cs h"

text \<open>C14: On registers that keep what is written, every sequence of calls of the driver, with any arguments, does to the
  settings of all 64 sources and of the target exactly what the abstract controller does: a call
  changes its one setting, a rejected call, a query, a claim and a completion change none, and initialisation
  clears them all.\<close>

theorem plic_refines:
  "view_of (plic_base (plic_params p)) (regs_after m0 (plic_calls (storage_dev m0) p cs h)) =
   fold plic_spec cs (view_of (plic_base (plic_params p)) (regs_after m0 h))"
  by (induction cs arbitrary: h) (simp_all add: plic_calls_def plic_call_view)

definition plic_ranges :: "plic_view \<Rightarrow> bool" where
  "plic_ranges v \<longleftrightarrow> (\<forall>i. pv_prio v i \<le> kDifPlicMaxPriority) \<and> pv_threshold v \<le> kDifPlicMaxPriority \<and>
     (\<forall>i. \<not> i < 64 \<longrightarrow> \<not> pv_enabled v i \<and> \<not> pv_edge v i)"

lemma plic_spec_ranges: "plic_ranges v \<Longrightarrow> plic_ranges (plic_spec c v)"
  by (cases "(c, v)" rule: plic_spec.cases) (auto simp: plic_ranges_def plic_off_def reg_defs word_less_nat_alt)

lemma plic_view_ranges:
  "plic_ranges (view_of (plic_base (plic_params p)) (regs_after m0 (plic_calls (storage_dev m0) p (Op_init # cs) h)))"
proof -
  have "plic_ranges plic_off" by (simp add: plic_ranges_def plic_off_def reg_defs)
  then have "plic_ranges (fold plic_spec cs plic_off)" by (induction cs rule: rev_induct) (simp_all add: plic_spec_ranges)
  moreover have "view_of (plic_base (plic_params p)) (regs_after m0 (fold (plic_call (storage_dev m0) p) cs h')) =
      fold plic_spec cs (view_of (plic_base (plic_params p)) (regs_after m0 h'))" for h'
    by (induction cs arbitrary: h') (simp_all add: plic_call_view)
  ultimately show ?thesis
    using plic_reset_view [of p m0 h] by (simp add: plic_calls_def dif_plic_init_def Let_def)
qed

text \<open>C15: After initialisation and whatever calls follow, every priority register and the threshold hold a priority of
  three bits, whatever the arguments were.\<close>

theorem plic_priorities_in_range:
  "let m = regs_after m0 (plic_calls (storage_dev m0) p (Op_init # cs) h); base = plic_base (plic_params p) in
     m (reg_addr base (plic_priority_reg_offset (of_nat (n mod 64)))) \<le> kDifPlicMaxPriority \<and>
     m (reg_addr base (plic_threshold_base_for_target 0)) \<le> kDifPlicMaxPriority"
proof -
  define m where "m = regs_after m0 (plic_calls (storage_dev m0) p (Op_init # cs) h)"
  have v: "plic_ranges (view_of (plic_base (plic_params p)) m)" unfolding m_def by (rule plic_view_ranges)
  have "unat (of_nat (n mod 64) :: u32) = n mod 64" by (simp add: unat_of_nat take_bit_nat_eq_self)
  then have "reg_addr (plic_base (plic_params p)) (plic_priority_reg_offset (of_nat (n mod 64))) = at_off (plic_base (plic_params p)) (0x10 + 4 * (n mod 64))"
    using source_addr(3) [of "of_nat (n mod 64)"] by (simp add: plic_priority_reg_offset_def reg_defs)
  moreover have "reg_addr (plic_base (plic_params p)) (plic_threshold_base_for_target 0) = at_off (plic_base (plic_params p)) 0x208"
    by (rule reg_addr_at_off) (simp_all add: plic_threshold_base_for_target_def reg_defs)
  ultimately show ?thesis
    using v unfolding Let_def m_def [symmetric] by (auto simp: plic_ranges_def view_of_def dest: spec [of _ "n mod 64"])
qed

end
