(* ===== verification/I2c.thy ===== *)
theory I2c
  imports Regs
begin

text \<open>
  The I2C host driver, \<^verbatim>\<open>sw/riscv/lib/hal/i2c/i2c.c\<close>: bus timing in clock cycles, FIFO control, interrupts, pin override and
  the format FIFO, in which every byte carries the flags of its transaction step. A value outside an enumeration, which takes the
  \<^verbatim>\<open>default\<close> branch, is \<open>None\<close>. The timing members are 16 bits wide, and their arithmetic is done at that width.
\<close>

definition I2C_INTR_COMMON_FMT_WATERMARK_BIT :: u32 where [reg_defs]: "I2C_INTR_COMMON_FMT_WATERMARK_BIT = 0"
definition I2C_INTR_COMMON_RX_WATERMARK_BIT :: u32 where [reg_defs]: "I2C_INTR_COMMON_RX_WATERMARK_BIT = 1"
definition I2C_INTR_COMMON_FMT_OVERFLOW_BIT :: u32 where [reg_defs]: "I2C_INTR_COMMON_FMT_OVERFLOW_BIT = 2"
definition I2C_INTR_COMMON_RX_OVERFLOW_BIT :: u32 where [reg_defs]: "I2C_INTR_COMMON_RX_OVERFLOW_BIT = 3"
definition I2C_INTR_COMMON_NAK_BIT :: u32 where [reg_defs]: "I2C_INTR_COMMON_NAK_BIT = 4"
definition I2C_INTR_COMMON_SCL_INTERFERENCE_BIT :: u32 where [reg_defs]: "I2C_INTR_COMMON_SCL_INTERFERENCE_BIT = 5"
definition I2C_INTR_COMMON_SDA_INTERFERENCE_BIT :: u32 where [reg_defs]: "I2C_INTR_COMMON_SDA_INTERFERENCE_BIT = 6"
definition I2C_INTR_COMMON_STRETCH_TIMEOUT_BIT :: u32 where [reg_defs]: "I2C_INTR_COMMON_STRETCH_TIMEOUT_BIT = 7"
definition I2C_INTR_COMMON_SDA_UNSTABLE_BIT :: u32 where [reg_defs]: "I2C_INTR_COMMON_SDA_UNSTABLE_BIT = 8"
definition I2C_INTR_STATE_REG_OFFSET :: u32 where [reg_defs]: "I2C_INTR_STATE_REG_OFFSET = 0x0"
definition I2C_INTR_ENABLE_REG_OFFSET :: u32 where [reg_defs]: "I2C_INTR_ENABLE_REG_OFFSET = 0x4"
definition I2C_INTR_TEST_REG_OFFSET :: u32 where [reg_defs]: "I2C_INTR_TEST_REG_OFFSET = 0x8"
definition I2C_CTRL_REG_OFFSET :: u32 where [reg_defs]: "I2C_CTRL_REG_OFFSET = 0xc"
definition I2C_CTRL_ENABLEHOST_BIT :: u32 where [reg_defs]: "I2C_CTRL_ENABLEHOST_BIT = 0"
definition I2C_RDATA_REG_OFFSET :: u32 where [reg_defs]: "I2C_RDATA_REG_OFFSET = 0x14"
definition I2C_RDATA_RDATA_MASK :: u32 where [reg_defs]: "I2C_RDATA_RDATA_MASK = 0xff"
definition I2C_RDATA_RDATA_OFFSET :: u32 where [reg_defs]: "I2C_RDATA_RDATA_OFFSET = 0"
definition I2C_RDATA_RDATA_FIELD :: bitfield_field32_t where [reg_defs]:
  "I2C_RDATA_RDATA_FIELD = mk_field I2C_RDATA_RDATA_MASK I2C_RDATA_RDATA_OFFSET"
definition I2C_FDATA_REG_OFFSET :: u32 where [reg_defs]: "I2C_FDATA_REG_OFFSET = 0x18"
definition I2C_FDATA_FBYTE_MASK :: u32 where [reg_defs]: "I2C_FDATA_FBYTE_MASK = 0xff"
definition I2C_FDATA_FBYTE_OFFSET :: u32 where [reg_defs]: "I2C_FDATA_FBYTE_OFFSET = 0"
definition I2C_FDATA_FBYTE_FIELD :: bitfield_field32_t where [reg_defs]:
  "I2C_FDATA_FBYTE_FIELD = mk_field I2C_FDATA_FBYTE_MASK I2C_FDATA_FBYTE_OFFSET"
definition I2C_FDATA_START_BIT :: u32 where [reg_defs]: "I2C_FDATA_START_BIT = 8"
definition I2C_FDATA_STOP_BIT :: u32 where [reg_defs]: "I2C_FDATA_STOP_BIT = 9"
definition I2C_FDATA_READ_BIT :: u32 where [reg_defs]: "I2C_FDATA_READ_BIT = 10"
definition I2C_FDATA_RCONT_BIT :: u32 where [reg_defs]: "I2C_FDATA_RCONT_BIT = 11"
definition I2C_FDATA_NAKOK_BIT :: u32 where [reg_defs]: "I2C_FDATA_NAKOK_BIT = 12"
definition I2C_FIFO_CTRL_REG_OFFSET :: u32 where [reg_defs]: "I2C_FIFO_CTRL_REG_OFFSET = 0x1c"
definition I2C_FIFO_CTRL_RXRST_BIT :: u32 where [reg_defs]: "I2C_FIFO_CTRL_RXRST_BIT = 0"
definition I2C_FIFO_CTRL_FMTRST_BIT :: u32 where [reg_defs]: "I2C_FIFO_CTRL_FMTRST_BIT = 1"
definition I2C_FIFO_CTRL_RXILVL_MASK :: u32 where [reg_defs]: "I2C_FIFO_CTRL_RXILVL_MASK = 0x7"
definition I2C_FIFO_CTRL_RXILVL_OFFSET :: u32 where [reg_defs]: "I2C_FIFO_CTRL_RXILVL_OFFSET = 2"
definition I2C_FIFO_CTRL_RXILVL_FIELD :: bitfield_field32_t where [reg_defs]:
  "I2C_FIFO_CTRL_RXILVL_FIELD = mk_field I2C_FIFO_CTRL_RXILVL_MASK I2C_FIFO_CTRL_RXILVL_OFFSET"
definition I2C_FIFO_CTRL_RXILVL_VALUE_RXLVL1 :: u32 where [reg_defs]: "I2C_FIFO_CTRL_RXILVL_VALUE_RXLVL1 = 0x0"
definition I2C_FIFO_CTRL_RXILVL_VALUE_RXLVL4 :: u32 where [reg_defs]: "I2C_FIFO_CTRL_RXILVL_VALUE_RXLVL4 = 0x1"
definition I2C_FIFO_CTRL_RXILVL_VALUE_RXLVL8 :: u32 where [reg_defs]: "I2C_FIFO_CTRL_RXILVL_VALUE_RXLVL8 = 0x2"
definition I2C_FIFO_CTRL_RXILVL_VALUE_RXLVL16 :: u32 where [reg_defs]: "I2C_FIFO_CTRL_RXILVL_VALUE_RXLVL16 = 0x3"
definition I2C_FIFO_CTRL_RXILVL_VALUE_RXLVL30 :: u32 where [reg_defs]: "I2C_FIFO_CTRL_RXILVL_VALUE_RXLVL30 = 0x4"
definition I2C_FIFO_CTRL_FMTILVL_MASK :: u32 where [reg_defs]: "I2C_FIFO_CTRL_FMTILVL_MASK = 0x3"
definition I2C_FIFO_CTRL_FMTILVL_OFFSET :: u32 where [reg_defs]: "I2C_FIFO_CTRL_FMTILVL_OFFSET = 5"
definition I2C_FIFO_CTRL_FMTILVL_FIELD :: bitfield_field32_t where [reg_defs]:
  "I2C_FIFO_CTRL_FMTILVL_FIELD = mk_field I2C_FIFO_CTRL_FMTILVL_MASK I2C_FIFO_CTRL_FMTILVL_OFFSET"
definition I2C_FIFO_CTRL_FMTILVL_VALUE_FMTLVL1 :: u32 where [reg_defs]: "I2C_FIFO_CTRL_FMTILVL_VALUE_FMTLVL1 = 0x0"
definition I2C_FIFO_CTRL_FMTILVL_VALUE_FMTLVL4 :: u32 where [reg_defs]: "I2C_FIFO_CTRL_FMTILVL_VALUE_FMTLVL4 = 0x1"
definition I2C_FIFO_CTRL_FMTILVL_VALUE_FMTLVL8 :: u32 where [reg_defs]: "I2C_FIFO_CTRL_FMTILVL_VALUE_FMTLVL8 = 0x2"
definition I2C_FIFO_CTRL_FMTILVL_VALUE_FMTLVL16 :: u32 where [reg_defs]: "I2C_FIFO_CTRL_FMTILVL_VALUE_FMTLVL16 = 0x3"
definition I2C_FIFO_STATUS_REG_OFFSET :: u32 where [reg_defs]: "I2C_FIFO_STATUS_REG_OFFSET = 0x20"
definition I2C_FIFO_STATUS_FMTLVL_MASK :: u32 where [reg_defs]: "I2C_FIFO_STATUS_FMTLVL_MASK = 0x3f"
definition I2C_FIFO_STATUS_FMTLVL_OFFSET :: u32 where [reg_defs]: "I2C_FIFO_STATUS_FMTLVL_OFFSET = 0"
definition I2C_FIFO_STATUS_FMTLVL_FIELD :: bitfield_field32_t where [reg_defs]:
  "I2C_FIFO_STATUS_FMTLVL_FIELD = mk_field I2C_FIFO_STATUS_FMTLVL_MASK I2C_FIFO_STATUS_FMTLVL_OFFSET"
definition I2C_FIFO_STATUS_RXLVL_MASK :: u32 where [reg_defs]: "I2C_FIFO_STATUS_RXLVL_MASK = 0x3f"
definition I2C_FIFO_STATUS_RXLVL_OFFSET :: u32 where [reg_defs]: "I2C_FIFO_STATUS_RXLVL_OFFSET = 16"
definition I2C_FIFO_STATUS_RXLVL_FIELD :: bitfield_field32_t where [reg_defs]:
  "I2C_FIFO_STATUS_RXLVL_FIELD = mk_field I2C_FIFO_STATUS_RXLVL_MASK I2C_FIFO_STATUS_RXLVL_OFFSET"
definition I2C_OVRD_REG_OFFSET :: u32 where [reg_defs]: "I2C_OVRD_REG_OFFSET = 0x24"
definition I2C_OVRD_TXOVRDEN_BIT :: u32 where [reg_defs]: "I2C_OVRD_TXOVRDEN_BIT = 0"
definition I2C_OVRD_SCLVAL_BIT :: u32 where [reg_defs]: "I2C_OVRD_SCLVAL_BIT = 1"
definition I2C_OVRD_SDAVAL_BIT :: u32 where [reg_defs]: "I2C_OVRD_SDAVAL_BIT = 2"
definition I2C_VAL_REG_OFFSET :: u32 where [reg_defs]: "I2C_VAL_REG_OFFSET = 0x28"
definition I2C_VAL_SCL_RX_MASK :: u32 where [reg_defs]: "I2C_VAL_SCL_RX_MASK = 0xffff"
definition I2C_VAL_SCL_RX_OFFSET :: u32 where [reg_defs]: "I2C_VAL_SCL_RX_OFFSET = 0"
definition I2C_VAL_SCL_RX_FIELD :: bitfield_field32_t where [reg_defs]:
  "I2C_VAL_SCL_RX_FIELD = mk_field I2C_VAL_SCL_RX_MASK I2C_VAL_SCL_RX_OFFSET"
definition I2C_VAL_SDA_RX_MASK :: u32 where [reg_defs]: "I2C_VAL_SDA_RX_MASK = 0xffff"
definition I2C_VAL_SDA_RX_OFFSET :: u32 where [reg_defs]: "I2C_VAL_SDA_RX_OFFSET = 16"
definition I2C_VAL_SDA_RX_FIELD :: bitfield_field32_t where [reg_defs]:
  "I2C_VAL_SDA_RX_FIELD = mk_field I2C_VAL_SDA_RX_MASK I2C_VAL_SDA_RX_OFFSET"
definition I2C_TIMING0_REG_OFFSET :: u32 where [reg_defs]: "I2C_TIMING0_REG_OFFSET = 0x2c"
definition I2C_TIMING0_THIGH_MASK :: u32 where [reg_defs]: "I2C_TIMING0_THIGH_MASK = 0xffff"
definition I2C_TIMING0_THIGH_OFFSET :: u32 where [reg_defs]: "I2C_TIMING0_THIGH_OFFSET = 0"
definition I2C_TIMING0_THIGH_FIELD :: bitfield_field32_t where [reg_defs]:
  "I2C_TIMING0_THIGH_FIELD = mk_field I2C_TIMING0_THIGH_MASK I2C_TIMING0_THIGH_OFFSET"
definition I2C_TIMING0_TLOW_MASK :: u32 where [reg_defs]: "I2C_TIMING0_TLOW_MASK = 0xffff"
definition I2C_TIMING0_TLOW_OFFSET :: u32 where [reg_defs]: "I2C_TIMING0_TLOW_OFFSET = 16"
definition I2C_TIMING0_TLOW_FIELD :: bitfield_field32_t where [reg_defs]:
  "I2C_TIMING0_TLOW_FIELD = mk_field I2C_TIMING0_TLOW_MASK I2C_TIMING0_TLOW_OFFSET"
definition I2C_TIMING1_REG_OFFSET :: u32 where [reg_defs]: "I2C_TIMING1_REG_OFFSET = 0x30"
definition I2C_TIMING1_T_R_MASK :: u32 where [reg_defs]: "I2C_TIMING1_T_R_MASK = 0xffff"
definition I2C_TIMING1_T_R_OFFSET :: u32 where [reg_defs]: "I2C_TIMING1_T_R_OFFSET = 0"
definition I2C_TIMING1_T_R_FIELD :: bitfield_field32_t where [reg_defs]:
  "I2C_TIMING1_T_R_FIELD = mk_field I2C_TIMING1_T_R_MASK I2C_TIMING1_T_R_OFFSET"
definition I2C_TIMING1_T_F_MASK :: u32 where [reg_defs]: "I2C_TIMING1_T_F_MASK = 0xffff"
definition I2C_TIMING1_T_F_OFFSET :: u32 where [reg_defs]: "I2C_TIMING1_T_F_OFFSET = 16"
definition I2C_TIMING1_T_F_FIELD :: bitfield_field32_t where [reg_defs]:
  "I2C_TIMING1_T_F_FIELD = mk_field I2C_TIMING1_T_F_MASK I2C_TIMING1_T_F_OFFSET"
definition I2C_TIMING2_REG_OFFSET :: u32 where [reg_defs]: "I2C_TIMING2_REG_OFFSET = 0x34"
definition I2C_TIMING2_TSU_STA_MASK :: u32 where [reg_defs]: "I2C_TIMING2_TSU_STA_MASK = 0xffff"
definition I2C_TIMING2_TSU_STA_OFFSET :: u32 where [reg_defs]: "I2C_TIMING2_TSU_STA_OFFSET = 0"
definition I2C_TIMING2_TSU_STA_FIELD :: bitfield_field32_t where [reg_defs]:
  "I2C_TIMING2_TSU_STA_FIELD = mk_field I2C_TIMING2_TSU_STA_MASK I2C_TIMING2_TSU_STA_OFFSET"
definition I2C_TIMING2_THD_STA_MASK :: u32 where [reg_defs]: "I2C_TIMING2_THD_STA_MASK = 0xffff"
definition I2C_TIMING2_THD_STA_OFFSET :: u32 where [reg_defs]: "I2C_TIMING2_THD_STA_OFFSET = 16"
definition I2C_TIMING2_THD_STA_FIELD :: bitfield_field32_t where [reg_defs]:
  "I2C_TIMING2_THD_STA_FIELD = mk_field I2C_TIMING2_THD_STA_MASK I2C_TIMING2_THD_STA_OFFSET"
definition I2C_TIMING3_REG_OFFSET :: u32 where [reg_defs]: "I2C_TIMING3_REG_OFFSET = 0x38"
definition I2C_TIMING3_TSU_DAT_MASK :: u32 where [reg_defs]: "I2C_TIMING3_TSU_DAT_MASK = 0xffff"
definition I2C_TIMING3_TSU_DAT_OFFSET :: u32 where [reg_defs]: "I2C_TIMING3_TSU_DAT_OFFSET = 0"
definition I2C_TIMING3_TSU_DAT_FIELD :: bitfield_field32_t where [reg_defs]:
  "I2C_TIMING3_TSU_DAT_FIELD = mk_field I2C_TIMING3_TSU_DAT_MASK I2C_TIMING3_TSU_DAT_OFFSET"
definition I2C_TIMING3_THD_DAT_MASK :: u32 where [reg_defs]: "I2C_TIMING3_THD_DAT_MASK = 0xffff"
definition I2C_TIMING3_THD_DAT_OFFSET :: u32 where [reg_defs]: "I2C_TIMING3_THD_DAT_OFFSET = 16"
definition I2C_TIMING3_THD_DAT_FIELD :: bitfield_field32_t where [reg_defs]:
  "I2C_TIMING3_THD_DAT_FIELD = mk_field I2C_TIMING3_THD_DAT_MASK I2C_TIMING3_THD_DAT_OFFSET"
definition I2C_TIMING4_REG_OFFSET :: u32 where [reg_defs]: "I2C_TIMING4_REG_OFFSET = 0x3c"
definition I2C_TIMING4_TSU_STO_MASK :: u32 where [reg_defs]: "I2C_TIMING4_TSU_STO_MASK = 0xffff"
definition I2C_TIMING4_TSU_STO_OFFSET :: u32 where [reg_defs]: "I2C_TIMING4_TSU_STO_OFFSET = 0"
definition I2C_TIMING4_TSU_STO_FIELD :: bitfield_field32_t where [reg_defs]:
  "I2C_TIMING4_TSU_STO_FIELD = mk_field I2C_TIMING4_TSU_STO_MASK I2C_TIMING4_TSU_STO_OFFSET"
definition I2C_TIMING4_T_BUF_MASK :: u32 where [reg_defs]: "I2C_TIMING4_T_BUF_MASK = 0xffff"
definition I2C_TIMING4_T_BUF_OFFSET :: u32 where [reg_defs]: "I2C_TIMING4_T_BUF_OFFSET = 16"
definition I2C_TIMING4_T_BUF_FIELD :: bitfield_field32_t where [reg_defs]:
  "I2C_TIMING4_T_BUF_FIELD = mk_field I2C_TIMING4_T_BUF_MASK I2C_TIMING4_T_BUF_OFFSET"

datatype i2c_toggle_t = kDifI2cToggleEnabled | kDifI2cToggleDisabled
datatype i2c_speed_t = kDifI2cSpeedStandard | kDifI2cSpeedFast | kDifI2cSpeedFastPlus
datatype i2c_result_t = kDifI2cOk | kDifI2cError | kDifI2cBadArg
datatype i2c_irq_t =
    kDifI2cIrqFmtWatermarkUnderflow | kDifI2cIrqRxWatermarkOverflow | kDifI2cIrqFmtFifoOverflow | kDifI2cIrqRxFifoOverflow
  | kDifI2cIrqNak | kDifI2cIrqSclInterference | kDifI2cIrqSdaInterference | kDifI2cIrqClockStretchTimeout | kDifI2cIrqSdaUnstable
datatype i2c_level_t = kDifI2cLevel1Byte | kDifI2cLevel4Byte | kDifI2cLevel8Byte | kDifI2cLevel16Byte | kDifI2cLevel30Byte
datatype i2c_fmt_t =
  kDifI2cFmtStart | kDifI2cFmtTx | kDifI2cFmtTxStop | kDifI2cFmtRx | kDifI2cFmtRxContinue | kDifI2cFmtRxStop

record i2c_timing_config_t =
  lowest_target_device_speed :: "i2c_speed_t option"
  clock_period_nanos :: u32
  sda_rise_nanos :: u32
  sda_fall_nanos :: u32
  scl_period_nanos :: u32

record i2c_params_t = i2c_base :: mmio_region_t
record i2c_t = i2c_params :: i2c_params_t

record i2c_config_t =
  scl_time_high_cycles :: u16
  scl_time_low_cycles :: u16
  rise_cycles :: u16
  fall_cycles :: u16
  start_signal_setup_cycles :: u16
  start_signal_hold_cycles :: u16
  data_signal_setup_cycles :: u16
  data_signal_hold_cycles :: u16
  stop_signal_setup_cycles :: u16
  stop_signal_hold_cycles :: u16

record i2c_fmt_flags_t =
  fl_start :: bool
  fl_stop :: bool
  fl_read :: bool
  fl_read_cont :: bool
  fl_suppress_nak_irq :: bool

subsection \<open>Timing\<close>

definition round_up_divide :: "u32 \<Rightarrow> u32 \<Rightarrow> u16" where
  "round_up_divide a b = (if a = 0 then 0 else ucast ((a - 1) div b + 1))"

definition default_timing_for_speed :: "i2c_speed_t option \<Rightarrow> u32 \<Rightarrow> i2c_config_t" where
  "default_timing_for_speed speed period =
     (case speed of
        Some kDifI2cSpeedStandard \<Rightarrow>
          \<lparr>scl_time_high_cycles = round_up_divide 4000 period, scl_time_low_cycles = round_up_divide 4700 period,
           rise_cycles = 0, fall_cycles = 0,
           start_signal_setup_cycles = round_up_divide 4700 period, start_signal_hold_cycles = round_up_divide 4000 period,
           data_signal_setup_cycles = round_up_divide 250 period, data_signal_hold_cycles = 0,
           stop_signal_setup_cycles = round_up_divide 4000 period, stop_signal_hold_cycles = round_up_divide 4700 period\<rparr>
      | Some kDifI2cSpeedFast \<Rightarrow>
          \<lparr>scl_time_high_cycles = round_up_divide 600 period, scl_time_low_cycles = round_up_divide 1300 period,
           rise_cycles = 0, fall_cycles = 0,
           start_signal_setup_cycles = round_up_divide 600 period, start_signal_hold_cycles = round_up_divide 600 period,
           data_signal_setup_cycles = round_up_divide 100 period, data_signal_hold_cycles = 0,
           stop_signal_setup_cycles = round_up_divide 600 period, stop_signal_hold_cycles = round_up_divide 1300 period\<rparr>
      | Some kDifI2cSpeedFastPlus \<Rightarrow>
          \<lparr>scl_time_high_cycles = round_up_divide 260 period, scl_time_low_cycles = round_up_divide 500 period,
           rise_cycles = 0, fall_cycles = 0,
           start_signal_setup_cycles = round_up_divide 260 period, start_signal_hold_cycles = round_up_divide 260 period,
           data_signal_setup_cycles = round_up_divide 50 period, data_signal_hold_cycles = 0,
           stop_signal_setup_cycles = round_up_divide 260 period, stop_signal_hold_cycles = round_up_divide 500 period\<rparr>
      | None \<Rightarrow>
          \<lparr>scl_time_high_cycles = 0, scl_time_low_cycles = 0, rise_cycles = 0, fall_cycles = 0, start_signal_setup_cycles = 0,
           start_signal_hold_cycles = 0, data_signal_setup_cycles = 0, data_signal_hold_cycles = 0,
           stop_signal_setup_cycles = 0, stop_signal_hold_cycles = 0\<rparr>)"

definition kNanosPerKBaud :: u32 where "kNanosPerKBaud = 1000000"

fun lowest_speed_khz :: "i2c_speed_t \<Rightarrow> u32" where
  "lowest_speed_khz kDifI2cSpeedStandard = 100"
| "lowest_speed_khz kDifI2cSpeedFast = 400"
| "lowest_speed_khz kDifI2cSpeedFastPlus = 1000"

text \<open>
  With a clock period of zero the default timing divides by zero, which C leaves undefined: the outer \<open>None\<close>.
\<close>

definition i2c_compute_timing ::
  "i2c_timing_config_t \<Rightarrow> i2c_config_t option \<Rightarrow> (i2c_result_t \<times> i2c_config_t option) option" where
  "i2c_compute_timing tc config =
     (case (config, lowest_target_device_speed tc) of
        (Some _, Some speed) \<Rightarrow>
          if clock_period_nanos tc = 0 then None
          else
            let c = (default_timing_for_speed (Some speed) (clock_period_nanos tc))
                      \<lparr>rise_cycles := round_up_divide (sda_rise_nanos tc) (clock_period_nanos tc),
                       fall_cycles := round_up_divide (sda_fall_nanos tc) (clock_period_nanos tc)\<rparr>;
                slowest_scl_period_nanos = kNanosPerKBaud div lowest_speed_khz speed;
                scl_period = (if scl_period_nanos tc < slowest_scl_period_nanos then slowest_scl_period_nanos
                              else scl_period_nanos tc);
                scl_period_cycles = round_up_divide scl_period (clock_period_nanos tc);
                lengthened_high_cycles = scl_period_cycles - scl_time_low_cycles c - rise_cycles c - fall_cycles c
            in Some (kDifI2cOk, Some (if lengthened_high_cycles > scl_time_high_cycles c
                                      then c\<lparr>scl_time_high_cycles := lengthened_high_cycles\<rparr> else c))
      | _ \<Rightarrow> Some (kDifI2cBadArg, config))"

subsection \<open>Configuration and FIFO control\<close>

definition i2c_init :: "i2c_params_t \<Rightarrow> i2c_t option \<Rightarrow> i2c_result_t \<times> i2c_t option" where
  "i2c_init params i2c =
     (case i2c of None \<Rightarrow> (kDifI2cBadArg, None) | Some t \<Rightarrow> (kDifI2cOk, Some (t\<lparr>i2c_params := params\<rparr>)))"

text \<open>A register made of two 16-bit members.\<close>

definition write_pair :: "i2c_t \<Rightarrow> u32 \<Rightarrow> bitfield_field32_t \<Rightarrow> u16 \<Rightarrow> bitfield_field32_t \<Rightarrow> u16 \<Rightarrow> hist \<Rightarrow> hist" where
  "write_pair t off f a g b h =
     mmio_region_write32 (i2c_base (i2c_params t)) off
       (bitfield_field32_write (bitfield_field32_write 0 f (ucast a)) g (ucast b)) h"

definition i2c_configure :: "i2c_t option \<Rightarrow> i2c_config_t \<Rightarrow> hist \<Rightarrow> i2c_result_t \<times> hist" where
  "i2c_configure i2c config h =
     (case i2c of None \<Rightarrow> (kDifI2cBadArg, h)
      | Some t \<Rightarrow>
          let h0 = write_pair t I2C_TIMING0_REG_OFFSET I2C_TIMING0_THIGH_FIELD (scl_time_high_cycles config)
                     I2C_TIMING0_TLOW_FIELD (scl_time_low_cycles config) h;
              h1 = write_pair t I2C_TIMING1_REG_OFFSET I2C_TIMING1_T_R_FIELD (rise_cycles config)
                     I2C_TIMING1_T_F_FIELD (fall_cycles config) h0;
              h2 = write_pair t I2C_TIMING2_REG_OFFSET I2C_TIMING2_TSU_STA_FIELD (start_signal_setup_cycles config)
                     I2C_TIMING2_THD_STA_FIELD (start_signal_hold_cycles config) h1;
              h3 = write_pair t I2C_TIMING3_REG_OFFSET I2C_TIMING3_TSU_DAT_FIELD (data_signal_setup_cycles config)
                     I2C_TIMING3_THD_DAT_FIELD (data_signal_hold_cycles config) h2
          in (kDifI2cOk, write_pair t I2C_TIMING4_REG_OFFSET I2C_TIMING4_TSU_STO_FIELD (stop_signal_setup_cycles config)
                     I2C_TIMING4_T_BUF_FIELD (stop_signal_hold_cycles config) h3))"

text \<open>Read a register, change one bit, write it back.\<close>

definition i2c_change_bit :: "device \<Rightarrow> i2c_t \<Rightarrow> u32 \<Rightarrow> u32 \<Rightarrow> bool \<Rightarrow> hist \<Rightarrow> hist" where
  "i2c_change_bit dev t off k flag h =
     (let (reg, h1) = mmio_region_read32 dev (i2c_base (i2c_params t)) off h
      in mmio_region_write32 (i2c_base (i2c_params t)) off (bitfield_bit32_write reg k flag) h1)"

definition i2c_reset_rx_fifo :: "device \<Rightarrow> i2c_t option \<Rightarrow> hist \<Rightarrow> i2c_result_t \<times> hist" where
  "i2c_reset_rx_fifo dev i2c h =
     (case i2c of None \<Rightarrow> (kDifI2cBadArg, h)
      | Some t \<Rightarrow> (kDifI2cOk, i2c_change_bit dev t I2C_FIFO_CTRL_REG_OFFSET I2C_FIFO_CTRL_RXRST_BIT True h))"

definition i2c_reset_fmt_fifo :: "device \<Rightarrow> i2c_t option \<Rightarrow> hist \<Rightarrow> i2c_result_t \<times> hist" where
  "i2c_reset_fmt_fifo dev i2c h =
     (case i2c of None \<Rightarrow> (kDifI2cBadArg, h)
      | Some t \<Rightarrow> (kDifI2cOk, i2c_change_bit dev t I2C_FIFO_CTRL_REG_OFFSET I2C_FIFO_CTRL_FMTRST_BIT True h))"

fun rx_level_value :: "i2c_level_t option \<Rightarrow> u32 option" where
  "rx_level_value (Some kDifI2cLevel1Byte) = Some I2C_FIFO_CTRL_RXILVL_VALUE_RXLVL1"
| "rx_level_value (Some kDifI2cLevel4Byte) = Some I2C_FIFO_CTRL_RXILVL_VALUE_RXLVL4"
| "rx_level_value (Some kDifI2cLevel8Byte) = Some I2C_FIFO_CTRL_RXILVL_VALUE_RXLVL8"
| "rx_level_value (Some kDifI2cLevel16Byte) = Some I2C_FIFO_CTRL_RXILVL_VALUE_RXLVL16"
| "rx_level_value (Some kDifI2cLevel30Byte) = Some I2C_FIFO_CTRL_RXILVL_VALUE_RXLVL30"
| "rx_level_value None = None"

fun fmt_level_value :: "i2c_level_t option \<Rightarrow> u32 option" where
  "fmt_level_value (Some kDifI2cLevel1Byte) = Some I2C_FIFO_CTRL_FMTILVL_VALUE_FMTLVL1"
| "fmt_level_value (Some kDifI2cLevel4Byte) = Some I2C_FIFO_CTRL_FMTILVL_VALUE_FMTLVL4"
| "fmt_level_value (Some kDifI2cLevel8Byte) = Some I2C_FIFO_CTRL_FMTILVL_VALUE_FMTLVL8"
| "fmt_level_value (Some kDifI2cLevel16Byte) = Some I2C_FIFO_CTRL_FMTILVL_VALUE_FMTLVL16"
| "fmt_level_value _ = None"

definition i2c_set_watermarks ::
  "device \<Rightarrow> i2c_t option \<Rightarrow> i2c_level_t option \<Rightarrow> i2c_level_t option \<Rightarrow> hist \<Rightarrow> i2c_result_t \<times> hist" where
  "i2c_set_watermarks dev i2c rx_level fmt_level h =
     (case i2c of None \<Rightarrow> (kDifI2cBadArg, h)
      | Some t \<Rightarrow>
          (case (rx_level_value rx_level, fmt_level_value fmt_level) of
             (Some rx, Some fm) \<Rightarrow>
               let (v, h1) = mmio_region_read32 dev (i2c_base (i2c_params t)) I2C_FIFO_CTRL_REG_OFFSET h;
                   v1 = bitfield_field32_write v I2C_FIFO_CTRL_RXILVL_FIELD rx;
                   v2 = bitfield_field32_write v1 I2C_FIFO_CTRL_FMTILVL_FIELD fm
               in (kDifI2cOk, mmio_region_write32 (i2c_base (i2c_params t)) I2C_FIFO_CTRL_REG_OFFSET v2 h1)
           | _ \<Rightarrow> (kDifI2cBadArg, h)))"

subsection \<open>Interrupts\<close>

fun irq_index :: "i2c_irq_t option \<Rightarrow> u32 option" where
  "irq_index (Some kDifI2cIrqFmtWatermarkUnderflow) = Some I2C_INTR_COMMON_FMT_WATERMARK_BIT"
| "irq_index (Some kDifI2cIrqRxWatermarkOverflow) = Some I2C_INTR_COMMON_RX_WATERMARK_BIT"
| "irq_index (Some kDifI2cIrqFmtFifoOverflow) = Some I2C_INTR_COMMON_FMT_OVERFLOW_BIT"
| "irq_index (Some kDifI2cIrqRxFifoOverflow) = Some I2C_INTR_COMMON_RX_OVERFLOW_BIT"
| "irq_index (Some kDifI2cIrqNak) = Some I2C_INTR_COMMON_NAK_BIT"
| "irq_index (Some kDifI2cIrqSclInterference) = Some I2C_INTR_COMMON_SCL_INTERFERENCE_BIT"
| "irq_index (Some kDifI2cIrqSdaInterference) = Some I2C_INTR_COMMON_SDA_INTERFERENCE_BIT"
| "irq_index (Some kDifI2cIrqClockStretchTimeout) = Some I2C_INTR_COMMON_STRETCH_TIMEOUT_BIT"
| "irq_index (Some kDifI2cIrqSdaUnstable) = Some I2C_INTR_COMMON_SDA_UNSTABLE_BIT"
| "irq_index None = None"

definition i2c_irq_is_pending ::
  "device \<Rightarrow> i2c_t option \<Rightarrow> i2c_irq_t option \<Rightarrow> bool option \<Rightarrow> hist \<Rightarrow> i2c_result_t \<times> bool option \<times> hist" where
  "i2c_irq_is_pending dev i2c irq is_pending h =
     (case (i2c, is_pending, irq_index irq) of
        (Some t, Some _, Some k) \<Rightarrow>
          let (reg, h1) = mmio_region_read32 dev (i2c_base (i2c_params t)) I2C_INTR_STATE_REG_OFFSET h
          in (kDifI2cOk, Some (bitfield_bit32_read reg k), h1)
      | _ \<Rightarrow> (kDifI2cBadArg, is_pending, h))"

text \<open>Both write a register with the bit of one interrupt.\<close>

definition i2c_write_irq_bit :: "u32 \<Rightarrow> i2c_t option \<Rightarrow> i2c_irq_t option \<Rightarrow> hist \<Rightarrow> i2c_result_t \<times> hist" where
  "i2c_write_irq_bit off i2c irq h =
     (case (i2c, irq_index irq) of
        (Some t, Some k) \<Rightarrow> (kDifI2cOk, mmio_region_write32 (i2c_base (i2c_params t)) off (bitfield_bit32_write 0 k True) h)
      | _ \<Rightarrow> (kDifI2cBadArg, h))"

definition i2c_irq_acknowledge :: "i2c_t option \<Rightarrow> i2c_irq_t option \<Rightarrow> hist \<Rightarrow> i2c_result_t \<times> hist" where
  "i2c_irq_acknowledge = i2c_write_irq_bit I2C_INTR_STATE_REG_OFFSET"

definition i2c_irq_force :: "i2c_t option \<Rightarrow> i2c_irq_t option \<Rightarrow> hist \<Rightarrow> i2c_result_t \<times> hist" where
  "i2c_irq_force = i2c_write_irq_bit I2C_INTR_TEST_REG_OFFSET"

text \<open>The pointer \<open>state\<close> is not tested: the outer \<open>None\<close> is the access through \<^verbatim>\<open>NULL\<close>.\<close>

definition i2c_irq_get_enabled ::
  "device \<Rightarrow> i2c_t option \<Rightarrow> i2c_irq_t option \<Rightarrow> i2c_toggle_t option \<Rightarrow> hist
     \<Rightarrow> (i2c_result_t \<times> i2c_toggle_t option \<times> hist) option" where
  "i2c_irq_get_enabled dev i2c irq state h =
     (case (i2c, irq_index irq) of
        (Some t, Some k) \<Rightarrow>
          let (reg, h1) = mmio_region_read32 dev (i2c_base (i2c_params t)) I2C_INTR_ENABLE_REG_OFFSET h
          in (case state of None \<Rightarrow> None
              | Some _ \<Rightarrow> Some (kDifI2cOk, Some (if bitfield_bit32_read reg k then kDifI2cToggleEnabled else kDifI2cToggleDisabled), h1))
      | _ \<Rightarrow> Some (kDifI2cBadArg, state, h))"

definition i2c_irq_set_enabled ::
  "device \<Rightarrow> i2c_t option \<Rightarrow> i2c_irq_t option \<Rightarrow> i2c_toggle_t option \<Rightarrow> hist \<Rightarrow> i2c_result_t \<times> hist" where
  "i2c_irq_set_enabled dev i2c irq state h =
     (case (i2c, irq_index irq, state) of
        (Some t, Some k, Some s) \<Rightarrow>
          (kDifI2cOk, i2c_change_bit dev t I2C_INTR_ENABLE_REG_OFFSET k (s = kDifI2cToggleEnabled) h)
      | _ \<Rightarrow> (kDifI2cBadArg, h))"

definition i2c_irq_disable_all :: "device \<Rightarrow> i2c_t option \<Rightarrow> u32 option \<Rightarrow> hist \<Rightarrow> i2c_result_t \<times> u32 option \<times> hist" where
  "i2c_irq_disable_all dev i2c snapshot h =
     (case i2c of None \<Rightarrow> (kDifI2cBadArg, snapshot, h)
      | Some t \<Rightarrow>
          let base = i2c_base (i2c_params t);
              (s, h1) = (case snapshot of None \<Rightarrow> (None, h)
                         | Some _ \<Rightarrow> let (v, h1) = mmio_region_read32 dev base I2C_INTR_ENABLE_REG_OFFSET h in (Some v, h1))
          in (kDifI2cOk, s, mmio_region_write32 base I2C_INTR_ENABLE_REG_OFFSET 0 h1))"

definition i2c_irq_restore_all :: "i2c_t option \<Rightarrow> u32 option \<Rightarrow> hist \<Rightarrow> i2c_result_t \<times> hist" where
  "i2c_irq_restore_all i2c snapshot h =
     (case (i2c, snapshot) of
        (Some t, Some v) \<Rightarrow> (kDifI2cOk, mmio_region_write32 (i2c_base (i2c_params t)) I2C_INTR_ENABLE_REG_OFFSET v h)
      | _ \<Rightarrow> (kDifI2cBadArg, h))"

subsection \<open>Host mode and pins\<close>

definition i2c_switch_bit :: "device \<Rightarrow> u32 \<Rightarrow> u32 \<Rightarrow> i2c_t option \<Rightarrow> i2c_toggle_t option \<Rightarrow> hist \<Rightarrow> i2c_result_t \<times> hist" where
  "i2c_switch_bit dev off k i2c state h =
     (case (i2c, state) of
        (Some t, Some s) \<Rightarrow> (kDifI2cOk, i2c_change_bit dev t off k (s = kDifI2cToggleEnabled) h)
      | _ \<Rightarrow> (kDifI2cBadArg, h))"

definition i2c_host_set_enabled :: "device \<Rightarrow> i2c_t option \<Rightarrow> i2c_toggle_t option \<Rightarrow> hist \<Rightarrow> i2c_result_t \<times> hist" where
  "i2c_host_set_enabled dev = i2c_switch_bit dev I2C_CTRL_REG_OFFSET I2C_CTRL_ENABLEHOST_BIT"

definition i2c_override_set_enabled :: "device \<Rightarrow> i2c_t option \<Rightarrow> i2c_toggle_t option \<Rightarrow> hist \<Rightarrow> i2c_result_t \<times> hist" where
  "i2c_override_set_enabled dev = i2c_switch_bit dev I2C_OVRD_REG_OFFSET I2C_OVRD_TXOVRDEN_BIT"

definition i2c_override_drive_pins :: "device \<Rightarrow> i2c_t option \<Rightarrow> bool \<Rightarrow> bool \<Rightarrow> hist \<Rightarrow> i2c_result_t \<times> hist" where
  "i2c_override_drive_pins dev i2c scl sda h =
     (case i2c of None \<Rightarrow> (kDifI2cBadArg, h)
      | Some t \<Rightarrow>
          let (v, h1) = mmio_region_read32 dev (i2c_base (i2c_params t)) I2C_OVRD_REG_OFFSET h;
              v1 = bitfield_bit32_write v I2C_OVRD_SCLVAL_BIT scl;
              v2 = bitfield_bit32_write v1 I2C_OVRD_SDAVAL_BIT sda
          in (kDifI2cOk, mmio_region_write32 (i2c_base (i2c_params t)) I2C_OVRD_REG_OFFSET v2 h1))"

definition i2c_override_sample_pins ::
  "device \<Rightarrow> i2c_t option \<Rightarrow> u16 option \<Rightarrow> u16 option \<Rightarrow> hist \<Rightarrow> i2c_result_t \<times> u16 option \<times> u16 option \<times> hist" where
  "i2c_override_sample_pins dev i2c scl_samples sda_samples h =
     (case i2c of None \<Rightarrow> (kDifI2cBadArg, scl_samples, sda_samples, h)
      | Some t \<Rightarrow>
          let (v, h1) = mmio_region_read32 dev (i2c_base (i2c_params t)) I2C_VAL_REG_OFFSET h
          in (kDifI2cOk, map_option (\<lambda>_. ucast (bitfield_field32_read v I2C_VAL_SCL_RX_FIELD)) scl_samples,
              map_option (\<lambda>_. ucast (bitfield_field32_read v I2C_VAL_SDA_RX_FIELD)) sda_samples, h1))"

subsection \<open>The FIFOs\<close>

definition i2c_get_fifo_levels ::
  "device \<Rightarrow> i2c_t option \<Rightarrow> u8 option \<Rightarrow> u8 option \<Rightarrow> hist \<Rightarrow> i2c_result_t \<times> u8 option \<times> u8 option \<times> hist" where
  "i2c_get_fifo_levels dev i2c fmt_fifo_level rx_fifo_level h =
     (case i2c of None \<Rightarrow> (kDifI2cBadArg, fmt_fifo_level, rx_fifo_level, h)
      | Some t \<Rightarrow>
          let (v, h1) = mmio_region_read32 dev (i2c_base (i2c_params t)) I2C_FIFO_STATUS_REG_OFFSET h
          in (kDifI2cOk, map_option (\<lambda>_. ucast (bitfield_field32_read v I2C_FIFO_STATUS_FMTLVL_FIELD)) fmt_fifo_level,
              map_option (\<lambda>_. ucast (bitfield_field32_read v I2C_FIFO_STATUS_RXLVL_FIELD)) rx_fifo_level, h1))"

definition i2c_read_byte :: "device \<Rightarrow> i2c_t option \<Rightarrow> u8 option \<Rightarrow> hist \<Rightarrow> i2c_result_t \<times> u8 option \<times> hist" where
  "i2c_read_byte dev i2c byte h =
     (case i2c of None \<Rightarrow> (kDifI2cBadArg, byte, h)
      | Some t \<Rightarrow>
          let (v, h1) = mmio_region_read32 dev (i2c_base (i2c_params t)) I2C_RDATA_REG_OFFSET h
          in (kDifI2cOk, map_option (\<lambda>_. ucast (bitfield_field32_read v I2C_RDATA_RDATA_FIELD)) byte, h1))"

definition i2c_fmt_word :: "u8 \<Rightarrow> i2c_fmt_flags_t \<Rightarrow> u32" where
  "i2c_fmt_word byte flags =
     (let w0 = bitfield_field32_write 0 I2C_FDATA_FBYTE_FIELD (ucast byte);
          w1 = bitfield_bit32_write w0 I2C_FDATA_START_BIT (fl_start flags);
          w2 = bitfield_bit32_write w1 I2C_FDATA_STOP_BIT (fl_stop flags);
          w3 = bitfield_bit32_write w2 I2C_FDATA_READ_BIT (fl_read flags);
          w4 = bitfield_bit32_write w3 I2C_FDATA_RCONT_BIT (fl_read_cont flags)
      in bitfield_bit32_write w4 I2C_FDATA_NAKOK_BIT (fl_suppress_nak_irq flags))"

definition i2c_write_byte_raw :: "i2c_t option \<Rightarrow> u8 \<Rightarrow> i2c_fmt_flags_t \<Rightarrow> hist \<Rightarrow> i2c_result_t \<times> hist" where
  "i2c_write_byte_raw i2c byte flags h =
     (case i2c of None \<Rightarrow> (kDifI2cBadArg, h)
      | Some t \<Rightarrow>
          let has_write_flags = fl_start flags \<or> fl_stop flags \<or> fl_suppress_nak_irq flags;
              has_read_flags = fl_read flags \<or> fl_read_cont flags
          in if has_write_flags \<and> has_read_flags then (kDifI2cBadArg, h)
             else if fl_read_cont flags \<and> \<not> fl_read flags then (kDifI2cBadArg, h)
             else (kDifI2cOk, mmio_region_write32 (i2c_base (i2c_params t)) I2C_FDATA_REG_OFFSET (i2c_fmt_word byte flags) h))"

definition no_flags :: "bool \<Rightarrow> i2c_fmt_flags_t" where
  "no_flags s = \<lparr>fl_start = False, fl_stop = False, fl_read = False, fl_read_cont = False, fl_suppress_nak_irq = s\<rparr>"

fun flags_of_code :: "i2c_fmt_t \<Rightarrow> i2c_fmt_flags_t \<Rightarrow> i2c_fmt_flags_t" where
  "flags_of_code kDifI2cFmtStart flags = flags\<lparr>fl_start := True\<rparr>"
| "flags_of_code kDifI2cFmtTx flags = flags"
| "flags_of_code kDifI2cFmtTxStop flags = flags\<lparr>fl_stop := True\<rparr>"
| "flags_of_code kDifI2cFmtRx flags = flags\<lparr>fl_read := True\<rparr>"
| "flags_of_code kDifI2cFmtRxContinue flags = flags\<lparr>fl_read := True, fl_read_cont := True\<rparr>"
| "flags_of_code kDifI2cFmtRxStop flags = flags\<lparr>fl_read := True, fl_stop := True\<rparr>"

definition i2c_write_byte :: "i2c_t option \<Rightarrow> u8 \<Rightarrow> i2c_fmt_t option \<Rightarrow> bool \<Rightarrow> hist \<Rightarrow> i2c_result_t \<times> hist" where
  "i2c_write_byte i2c byte fmt_code suppress_nak_irq h =
     (case i2c of None \<Rightarrow> (kDifI2cBadArg, h)
      | Some t \<Rightarrow>
          if suppress_nak_irq \<and> fmt_code \<in> {Some kDifI2cFmtRx, Some kDifI2cFmtRxContinue, Some kDifI2cFmtRxStop}
          then (kDifI2cBadArg, h)
          else case fmt_code of None \<Rightarrow> (kDifI2cBadArg, h)
               | Some c \<Rightarrow> i2c_write_byte_raw (Some t) byte (flags_of_code c (no_flags suppress_nak_irq)) h)"

subsection \<open>The length of a bus period\<close>

lemma unat_lt16: "unat (a :: u16) < 65536"
  using unsigned_less [of a, where 'a = nat] by simp

lemma round_up_divide_value:
  assumes "b \<noteq> 0"
  shows "unat (round_up_divide a b) = (unat a + unat b - 1) div unat b mod 65536"
proof (cases "a = 0")
  case True
  have "unat b > 0" using assms by (simp add: unat_gt_0)
  then show ?thesis using True by (simp add: round_up_divide_def)
next
  case False
  have b: "unat b > 0" and a: "unat a > 0" using assms False by (simp_all add: unat_gt_0)
  have d: "unat ((a - 1) div b) = (unat a - 1) div unat b"
    using False by (simp add: unat_div_distrib unat_minus_one)
  then have "unat ((a - 1) div b) \<le> unat a - 1" by simp
  also have "\<dots> < 2 ^ 32 - 1" using unat_lt32 [of a] a by simp
  finally have "unat ((a - 1) div b) + 1 < 2 ^ 32" by simp
  then have "unat ((a - 1) div b + 1) = (unat a - 1) div unat b + 1" using d unat_add_of_nat32 [of "(a - 1) div b" 1] by simp
  moreover have "(unat a - 1) div unat b + 1 = (unat a + unat b - 1) div unat b"
    using a b div_add_self2 [of "unat b" "unat a - 1"] by (simp add: add.commute)
  ultimately show ?thesis
    using False by (simp add: round_up_divide_def unsigned_ucast_eq take_bit_eq_mod)
qed

lemma ceiling_div:
  assumes "(b :: nat) > 0"
  shows "a \<le> (a + b - 1) div b * b" "(a + b - 1) div b \<noteq> 0 \<Longrightarrow> ((a + b - 1) div b - 1) * b < a"
proof -
  let ?q = "(a + b - 1) div b"
  have q: "?q * b \<le> a + b - 1" "a + b - 1 < ?q * b + b"
    using assms times_div_less_eq_dividend [of b "a + b - 1"] dividend_less_div_times [of b "a + b - 1"] by auto
  then show "a \<le> ?q * b" using assms by linarith
  show "(?q - 1) * b < a" if "?q \<noteq> 0"
  proof -
    define r where "r = ?q - 1"
    have "?q = r + 1" using that by (simp add: r_def)
    then show ?thesis using q(1) assms unfolding r_def [symmetric] by simp
  qed
qed

lemma wrap_sub:
  assumes "(p :: nat) < 65536" "k \<le> 3 * 65536 + p"
  shows "(int p - int k) mod 65536 = int (if k \<le> p then p - k else (3 * 65536 + p - k) mod 65536)"
proof (cases "k \<le> p")
  case True
  then have "int p - int k = int (p - k)" by simp
  then show ?thesis using True assms(1) by simp
next
  case False
  have "int ((3 * 65536 + p - k) mod 65536) = (int p - int k + 3 * 65536) mod 65536"
    using assms(2) by (simp add: zmod_int of_nat_diff algebra_simps)
  also have "\<dots> = (int p - int k) mod 65536" by (rule mod_mult_self1)
  finally show ?thesis using False by simp
qed

lemma unat_sub3_16:
  "unat (p - l - r - f :: u16) =
     (if unat l + unat r + unat f \<le> unat p then unat p - (unat l + unat r + unat f)
      else (3 * 65536 + unat p - (unat l + unat r + unat f)) mod 65536)"
proof -
  have "p - l - r - f = of_int (int (unat p) - int (unat l + unat r + unat f))"
    by (simp only: of_int_diff of_int_add of_nat_add of_int_of_nat_eq of_nat_unat ucast_id word_of_int_uint diff_diff_add add.assoc)
  then have "unat (p - l - r - f) = nat ((int (unat p) - int (unat l + unat r + unat f)) mod 65536)"
    by (simp only: unat_eq_nat_uint uint_word_of_int) simp
  moreover have "unat l + unat r + unat f \<le> 3 * 65536 + unat p"
    using unat_lt16 [of l] unat_lt16 [of r] unat_lt16 [of f] by linarith
  ultimately show ?thesis using wrap_sub [OF unat_lt16, of "unat l + unat r + unat f" p] by (simp only: nat_int)
qed

lemma unat_max16: "unat (max a b :: u16) = max (unat a) (unat b)"
  by (simp add: max_def word_le_nat_alt)

lemma compute_timing_Ok:
  assumes "lowest_target_device_speed tc = Some speed" "clock_period_nanos tc \<noteq> 0"
  defines "period \<equiv> max (scl_period_nanos tc) (kNanosPerKBaud div lowest_speed_khz speed)"
    and "d \<equiv> default_timing_for_speed (Some speed) (clock_period_nanos tc)"
    and "clk \<equiv> clock_period_nanos tc"
  defines "high \<equiv> round_up_divide period clk - scl_time_low_cycles d - round_up_divide (sda_rise_nanos tc) clk
                     - round_up_divide (sda_fall_nanos tc) clk"
  shows "i2c_compute_timing tc (Some c0) = Some (kDifI2cOk, Some (d
    \<lparr>rise_cycles := round_up_divide (sda_rise_nanos tc) clk, fall_cycles := round_up_divide (sda_fall_nanos tc) clk,
     scl_time_high_cycles := max high (scl_time_high_cycles d)\<rparr>))"
proof -
  have p: "(if scl_period_nanos tc < kNanosPerKBaud div lowest_speed_khz speed then kNanosPerKBaud div lowest_speed_khz speed
            else scl_period_nanos tc) = period"
    by (auto simp: period_def max_def)
  show ?thesis
    using assms(1,2) p unfolding i2c_compute_timing_def Let_def high_def d_def clk_def
    by (simp add: max_def)
qed



subsection \<open>Bytes and their flags\<close>

lemma bit_fmt_word:
  "bit (i2c_fmt_word byte flags) n \<longleftrightarrow>
     n < 8 \<and> bit byte n \<or> n = 8 \<and> fl_start flags \<or> n = 9 \<and> fl_stop flags \<or> n = 10 \<and> fl_read flags \<or>
     n = 11 \<and> fl_read_cont flags \<or> n = 12 \<and> fl_suppress_nak_irq flags"
proof (cases "n < 32")
  case True
  then show ?thesis
    by (auto simp: i2c_fmt_word_def Let_def bit32_write_bit bit_field32_write bit_field_bits reg_defs bit_simps)
next
  case False
  then show ?thesis using bit_imp_le_length [of "i2c_fmt_word byte flags" n] by auto
qed

text \<open>C20: A byte is written to the format FIFO in one access that carries exactly the byte and the flags of its code:
  start, stop, read, continued read, and the suppression of the acknowledge interrupt. A read code with the suppression flag is
  rejected without an access. So is, always, the code for a read that ends the transaction, which the header offers: its
  combination of read and stop is refused by the check of the flags.\<close>

theorem i2c_write_byte_spec:
  "if fmt_code = kDifI2cFmtRxStop \<or> suppress_nak_irq \<and> fmt_code \<in> {kDifI2cFmtRx, kDifI2cFmtRxContinue}
   then i2c_write_byte (Some t) byte (Some fmt_code) suppress_nak_irq h = (kDifI2cBadArg, h)
   else \<exists>w. i2c_write_byte (Some t) byte (Some fmt_code) suppress_nak_irq h =
          (kDifI2cOk, h @ [Wr32 (reg_addr (i2c_base (i2c_params t)) I2C_FDATA_REG_OFFSET) w]) \<and>
        (\<forall>n. bit w n \<longleftrightarrow>
           n < 8 \<and> bit byte n \<or> n = 8 \<and> fmt_code = kDifI2cFmtStart \<or> n = 9 \<and> fmt_code = kDifI2cFmtTxStop \<or>
           n = 10 \<and> fmt_code \<in> {kDifI2cFmtRx, kDifI2cFmtRxContinue} \<or> n = 11 \<and> fmt_code = kDifI2cFmtRxContinue \<or>
           n = 12 \<and> suppress_nak_irq)"
  by (cases fmt_code)
     (auto simp: i2c_write_byte_def i2c_write_byte_raw_def no_flags_def mmio_region_write32_def bit_fmt_word Let_def)

subsection \<open>Reading back\<close>

text \<open>Disabling every interrupt and restoring the snapshot gives the enable register back.\<close>

lemma i2c_irq_mask_roundtrip:
  "let (r, s, h1) = i2c_irq_disable_all (storage_dev m0) (Some t) (Some v) h;
       e = reg_addr (i2c_base (i2c_params t)) I2C_INTR_ENABLE_REG_OFFSET
   in regs_after m0 h1 e = 0 \<and> regs_after m0 (snd (i2c_irq_restore_all (Some t) s h1)) = regs_after m0 h"
  by (simp add: i2c_irq_disable_all_def i2c_irq_restore_all_def mmio_region_read32_def mmio_region_write32_def Let_def)

lemma pair_read:
  "bitfield_field32_read (bitfield_field32_write (bitfield_field32_write 0 (mk_field 0xffff 0) (ucast (a :: u16))) (mk_field 0xffff 16) (ucast (b :: u16)))
     (mk_field 0xffff 0) = ucast a"
  "bitfield_field32_read (bitfield_field32_write (bitfield_field32_write 0 (mk_field 0xffff 0) (ucast (a :: u16))) (mk_field 0xffff 16) (ucast (b :: u16)))
     (mk_field 0xffff 16) = ucast b"
proof -
  have len: "\<not> bit a n" "\<not> bit b n" if "\<not> n < 16" for n using that by (auto dest: bit_imp_le_length)
  show "bitfield_field32_read (bitfield_field32_write (bitfield_field32_write 0 (mk_field 0xffff 0) (ucast a)) (mk_field 0xffff 16) (ucast b))
      (mk_field 0xffff 0) = ucast a"
    "bitfield_field32_read (bitfield_field32_write (bitfield_field32_write 0 (mk_field 0xffff 0) (ucast a)) (mk_field 0xffff 16) (ucast b))
      (mk_field 0xffff 16) = ucast b"
    by (rule bit_word_eqI, rename_tac n, case_tac "n < 16",
        simp_all add: len bit_field32_read bit_field32_write bit_field_bits mk_field_def bit_simps)+
qed

lemma ucast_back16: "ucast (ucast (a :: u16) :: u32) = a"
  by (rule bit_word_eqI) (auto simp: bit_simps dest: bit_imp_le_length)

text \<open>The ten members of a configuration read back from the timing registers.\<close>

lemma i2c_configure_reads:
  "let m = regs_after m0 (snd (i2c_configure (Some t) c h));
       rd = (\<lambda>off f. ucast (bitfield_field32_read (m (reg_addr (i2c_base (i2c_params t)) off)) f))
   in c = \<lparr>scl_time_high_cycles = rd I2C_TIMING0_REG_OFFSET I2C_TIMING0_THIGH_FIELD,
           scl_time_low_cycles = rd I2C_TIMING0_REG_OFFSET I2C_TIMING0_TLOW_FIELD,
           rise_cycles = rd I2C_TIMING1_REG_OFFSET I2C_TIMING1_T_R_FIELD, fall_cycles = rd I2C_TIMING1_REG_OFFSET I2C_TIMING1_T_F_FIELD,
           start_signal_setup_cycles = rd I2C_TIMING2_REG_OFFSET I2C_TIMING2_TSU_STA_FIELD,
           start_signal_hold_cycles = rd I2C_TIMING2_REG_OFFSET I2C_TIMING2_THD_STA_FIELD,
           data_signal_setup_cycles = rd I2C_TIMING3_REG_OFFSET I2C_TIMING3_TSU_DAT_FIELD,
           data_signal_hold_cycles = rd I2C_TIMING3_REG_OFFSET I2C_TIMING3_THD_DAT_FIELD,
           stop_signal_setup_cycles = rd I2C_TIMING4_REG_OFFSET I2C_TIMING4_TSU_STO_FIELD,
           stop_signal_hold_cycles = rd I2C_TIMING4_REG_OFFSET I2C_TIMING4_T_BUF_FIELD\<rparr>"
  by (cases c) (simp add: i2c_configure_def write_pair_def mmio_region_write32_def reg_addr_def Let_def
      I2C_TIMING0_REG_OFFSET_def I2C_TIMING1_REG_OFFSET_def I2C_TIMING2_REG_OFFSET_def I2C_TIMING3_REG_OFFSET_def I2C_TIMING4_REG_OFFSET_def
      I2C_TIMING0_THIGH_FIELD_def I2C_TIMING0_TLOW_FIELD_def I2C_TIMING1_T_R_FIELD_def I2C_TIMING1_T_F_FIELD_def
      I2C_TIMING2_TSU_STA_FIELD_def I2C_TIMING2_THD_STA_FIELD_def I2C_TIMING3_TSU_DAT_FIELD_def I2C_TIMING3_THD_DAT_FIELD_def
      I2C_TIMING4_TSU_STO_FIELD_def I2C_TIMING4_T_BUF_FIELD_def
      I2C_TIMING0_THIGH_MASK_def I2C_TIMING0_TLOW_MASK_def I2C_TIMING1_T_R_MASK_def I2C_TIMING1_T_F_MASK_def
      I2C_TIMING2_TSU_STA_MASK_def I2C_TIMING2_THD_STA_MASK_def I2C_TIMING3_TSU_DAT_MASK_def I2C_TIMING3_THD_DAT_MASK_def
      I2C_TIMING4_TSU_STO_MASK_def I2C_TIMING4_T_BUF_MASK_def
      I2C_TIMING0_THIGH_OFFSET_def I2C_TIMING0_TLOW_OFFSET_def I2C_TIMING1_T_R_OFFSET_def I2C_TIMING1_T_F_OFFSET_def
      I2C_TIMING2_TSU_STA_OFFSET_def I2C_TIMING2_THD_STA_OFFSET_def I2C_TIMING3_TSU_DAT_OFFSET_def I2C_TIMING3_THD_DAT_OFFSET_def
      I2C_TIMING4_TSU_STO_OFFSET_def I2C_TIMING4_T_BUF_OFFSET_def pair_read ucast_back16)

end
