(* ===== verification/Power_Manager.thy ===== *)
theory Power_Manager
  imports Regs Syscalls
begin

text \<open>
  The power manager driver, \<^verbatim>\<open>sw/riscv/lib/hal/power_manager/power_manager.c\<close>: gating of the core, of the peripheral domain
  and of the memory banks, and the queries of their state. The build is the one for the board of \<^verbatim>\<open>pynq-z2.h\<close>, which defines
  \<^verbatim>\<open>TARGET_PYNQ_Z2\<close>. A delay loop of \<^verbatim>\<open>nop\<close> instructions between two register writes is a step of its own, which makes
  no access. The assembly that saves and restores the core is in
  \<^verbatim>\<open>Power_Gate\<close>; here it is what it writes to the manager.
\<close>

definition POWER_MANAGER_START_ADDRESS :: u32 where [reg_defs]:
  "POWER_MANAGER_START_ADDRESS = AO_PERIPHERAL_START_ADDRESS + 0x00040000"
definition POWER_MANAGER_WAKEUP_STATE_REG_OFFSET :: u32 where [reg_defs]: "POWER_MANAGER_WAKEUP_STATE_REG_OFFSET = 0x0"
definition POWER_MANAGER_RESTORE_ADDRESS_REG_OFFSET :: u32 where [reg_defs]: "POWER_MANAGER_RESTORE_ADDRESS_REG_OFFSET = 0x4"
definition POWER_MANAGER_EN_WAIT_FOR_INTR_REG_OFFSET :: u32 where [reg_defs]: "POWER_MANAGER_EN_WAIT_FOR_INTR_REG_OFFSET = 0x8"
definition POWER_MANAGER_INTR_STATE_REG_OFFSET :: u32 where [reg_defs]: "POWER_MANAGER_INTR_STATE_REG_OFFSET = 0xc"
definition POWER_MANAGER_POWER_GATE_CORE_REG_OFFSET :: u32 where [reg_defs]: "POWER_MANAGER_POWER_GATE_CORE_REG_OFFSET = 0x10"
definition POWER_MANAGER_CPU_RESET_ASSERT_COUNTER_REG_OFFSET :: u32 where [reg_defs]: "POWER_MANAGER_CPU_RESET_ASSERT_COUNTER_REG_OFFSET = 0x18"
definition POWER_MANAGER_CPU_RESET_DEASSERT_COUNTER_REG_OFFSET :: u32 where [reg_defs]: "POWER_MANAGER_CPU_RESET_DEASSERT_COUNTER_REG_OFFSET = 0x1c"
definition POWER_MANAGER_CPU_SWITCH_OFF_COUNTER_REG_OFFSET :: u32 where [reg_defs]: "POWER_MANAGER_CPU_SWITCH_OFF_COUNTER_REG_OFFSET = 0x20"
definition POWER_MANAGER_CPU_SWITCH_ON_COUNTER_REG_OFFSET :: u32 where [reg_defs]: "POWER_MANAGER_CPU_SWITCH_ON_COUNTER_REG_OFFSET = 0x24"
definition POWER_MANAGER_CPU_WAIT_ACK_SWITCH_ON_COUNTER_REG_OFFSET :: u32 where [reg_defs]: "POWER_MANAGER_CPU_WAIT_ACK_SWITCH_ON_COUNTER_REG_OFFSET = 0x28"
definition POWER_MANAGER_CPU_WAIT_ACK_SWITCH_ON_COUNTER_CPU_WAIT_ACK_SWITCH_ON_COUNTER_BIT :: u32 where [reg_defs]: "POWER_MANAGER_CPU_WAIT_ACK_SWITCH_ON_COUNTER_CPU_WAIT_ACK_SWITCH_ON_COUNTER_BIT = 0"
definition POWER_MANAGER_CPU_ISO_OFF_COUNTER_REG_OFFSET :: u32 where [reg_defs]: "POWER_MANAGER_CPU_ISO_OFF_COUNTER_REG_OFFSET = 0x2c"
definition POWER_MANAGER_CPU_ISO_ON_COUNTER_REG_OFFSET :: u32 where [reg_defs]: "POWER_MANAGER_CPU_ISO_ON_COUNTER_REG_OFFSET = 0x30"
definition POWER_MANAGER_CPU_COUNTERS_STOP_REG_OFFSET :: u32 where [reg_defs]: "POWER_MANAGER_CPU_COUNTERS_STOP_REG_OFFSET = 0x34"
definition POWER_MANAGER_CPU_COUNTERS_STOP_CPU_RESET_ASSERT_STOP_BIT_COUNTER_BIT :: u32 where [reg_defs]: "POWER_MANAGER_CPU_COUNTERS_STOP_CPU_RESET_ASSERT_STOP_BIT_COUNTER_BIT = 0"
definition POWER_MANAGER_CPU_COUNTERS_STOP_CPU_RESET_DEASSERT_STOP_BIT_COUNTER_BIT :: u32 where [reg_defs]: "POWER_MANAGER_CPU_COUNTERS_STOP_CPU_RESET_DEASSERT_STOP_BIT_COUNTER_BIT = 1"
definition POWER_MANAGER_CPU_COUNTERS_STOP_CPU_SWITCH_OFF_STOP_BIT_COUNTER_BIT :: u32 where [reg_defs]: "POWER_MANAGER_CPU_COUNTERS_STOP_CPU_SWITCH_OFF_STOP_BIT_COUNTER_BIT = 2"
definition POWER_MANAGER_CPU_COUNTERS_STOP_CPU_SWITCH_ON_STOP_BIT_COUNTER_BIT :: u32 where [reg_defs]: "POWER_MANAGER_CPU_COUNTERS_STOP_CPU_SWITCH_ON_STOP_BIT_COUNTER_BIT = 3"
definition POWER_MANAGER_CPU_COUNTERS_STOP_CPU_ISO_OFF_STOP_BIT_COUNTER_BIT :: u32 where [reg_defs]: "POWER_MANAGER_CPU_COUNTERS_STOP_CPU_ISO_OFF_STOP_BIT_COUNTER_BIT = 4"
definition POWER_MANAGER_CPU_COUNTERS_STOP_CPU_ISO_ON_STOP_BIT_COUNTER_BIT :: u32 where [reg_defs]: "POWER_MANAGER_CPU_COUNTERS_STOP_CPU_ISO_ON_STOP_BIT_COUNTER_BIT = 5"
definition POWER_MANAGER_POWER_GATE_PERIPH_ACK_REG_OFFSET :: u32 where [reg_defs]: "POWER_MANAGER_POWER_GATE_PERIPH_ACK_REG_OFFSET = 0x38"
definition POWER_MANAGER_PERIPH_RESET_REG_OFFSET :: u32 where [reg_defs]: "POWER_MANAGER_PERIPH_RESET_REG_OFFSET = 0x3c"
definition POWER_MANAGER_PERIPH_SWITCH_REG_OFFSET :: u32 where [reg_defs]: "POWER_MANAGER_PERIPH_SWITCH_REG_OFFSET = 0x40"
definition POWER_MANAGER_PERIPH_WAIT_ACK_SWITCH_ON_REG_OFFSET :: u32 where [reg_defs]: "POWER_MANAGER_PERIPH_WAIT_ACK_SWITCH_ON_REG_OFFSET = 0x44"
definition POWER_MANAGER_PERIPH_ISO_REG_OFFSET :: u32 where [reg_defs]: "POWER_MANAGER_PERIPH_ISO_REG_OFFSET = 0x48"
definition POWER_MANAGER_RAM_0_CLK_GATE_REG_OFFSET :: u32 where [reg_defs]: "POWER_MANAGER_RAM_0_CLK_GATE_REG_OFFSET = 0x50"
definition POWER_MANAGER_POWER_GATE_RAM_BLOCK_0_ACK_REG_OFFSET :: u32 where [reg_defs]: "POWER_MANAGER_POWER_GATE_RAM_BLOCK_0_ACK_REG_OFFSET = 0x54"
definition POWER_MANAGER_RAM_0_SWITCH_REG_OFFSET :: u32 where [reg_defs]: "POWER_MANAGER_RAM_0_SWITCH_REG_OFFSET = 0x58"
definition POWER_MANAGER_RAM_0_WAIT_ACK_SWITCH_ON_REG_OFFSET :: u32 where [reg_defs]: "POWER_MANAGER_RAM_0_WAIT_ACK_SWITCH_ON_REG_OFFSET = 0x5c"
definition POWER_MANAGER_RAM_0_ISO_REG_OFFSET :: u32 where [reg_defs]: "POWER_MANAGER_RAM_0_ISO_REG_OFFSET = 0x60"
definition POWER_MANAGER_RAM_0_RETENTIVE_REG_OFFSET :: u32 where [reg_defs]: "POWER_MANAGER_RAM_0_RETENTIVE_REG_OFFSET = 0x64"
definition POWER_MANAGER_RAM_1_CLK_GATE_REG_OFFSET :: u32 where [reg_defs]: "POWER_MANAGER_RAM_1_CLK_GATE_REG_OFFSET = 0x68"
definition POWER_MANAGER_POWER_GATE_RAM_BLOCK_1_ACK_REG_OFFSET :: u32 where [reg_defs]: "POWER_MANAGER_POWER_GATE_RAM_BLOCK_1_ACK_REG_OFFSET = 0x6c"
definition POWER_MANAGER_RAM_1_SWITCH_REG_OFFSET :: u32 where [reg_defs]: "POWER_MANAGER_RAM_1_SWITCH_REG_OFFSET = 0x70"
definition POWER_MANAGER_RAM_1_WAIT_ACK_SWITCH_ON_REG_OFFSET :: u32 where [reg_defs]: "POWER_MANAGER_RAM_1_WAIT_ACK_SWITCH_ON_REG_OFFSET = 0x74"
definition POWER_MANAGER_RAM_1_ISO_REG_OFFSET :: u32 where [reg_defs]: "POWER_MANAGER_RAM_1_ISO_REG_OFFSET = 0x78"
definition POWER_MANAGER_RAM_1_RETENTIVE_REG_OFFSET :: u32 where [reg_defs]: "POWER_MANAGER_RAM_1_RETENTIVE_REG_OFFSET = 0x7c"
definition POWER_MANAGER_MONITOR_POWER_GATE_CORE_REG_OFFSET :: u32 where [reg_defs]: "POWER_MANAGER_MONITOR_POWER_GATE_CORE_REG_OFFSET = 0x80"
definition POWER_MANAGER_MONITOR_POWER_GATE_PERIPH_REG_OFFSET :: u32 where [reg_defs]: "POWER_MANAGER_MONITOR_POWER_GATE_PERIPH_REG_OFFSET = 0x84"
definition POWER_MANAGER_MONITOR_POWER_GATE_RAM_BLOCK_0_REG_OFFSET :: u32 where [reg_defs]: "POWER_MANAGER_MONITOR_POWER_GATE_RAM_BLOCK_0_REG_OFFSET = 0x88"
definition POWER_MANAGER_MONITOR_POWER_GATE_RAM_BLOCK_1_REG_OFFSET :: u32 where [reg_defs]: "POWER_MANAGER_MONITOR_POWER_GATE_RAM_BLOCK_1_REG_OFFSET = 0x8c"

datatype power_manager_result_t = kPowerManagerOk_e | kPowerManagerError_e
datatype power_manager_sel_state_t = kOn_e | kOff_e | kRetOn_e | kRetOff_e
datatype power_manager_sel_intr_t =
    kTimer_0_pm_e | kPlic_pm_e | kTimer_1_pm_e | kTimer_2_pm_e | kTimer_3_pm_e | kDma_pm_e | kSpi_pm_e | kSpiFlash_pm_e
  | kGpio_0_pm_e | kGpio_1_pm_e | kGpio_2_pm_e | kGpio_3_pm_e | kGpio_4_pm_e | kGpio_5_pm_e | kGpio_6_pm_e | kGpio_7_pm_e
  | kExt_0_pm_e | kExt_1_pm_e | kExt_2_pm_e | kExt_3_pm_e

fun intr_number :: "power_manager_sel_intr_t \<Rightarrow> nat" where
  "intr_number kTimer_0_pm_e = 0" | "intr_number kPlic_pm_e = 1" | "intr_number kTimer_1_pm_e = 2"
| "intr_number kTimer_2_pm_e = 3" | "intr_number kTimer_3_pm_e = 4" | "intr_number kDma_pm_e = 5"
| "intr_number kSpi_pm_e = 6" | "intr_number kSpiFlash_pm_e = 7" | "intr_number kGpio_0_pm_e = 8"
| "intr_number kGpio_1_pm_e = 9" | "intr_number kGpio_2_pm_e = 10" | "intr_number kGpio_3_pm_e = 11"
| "intr_number kGpio_4_pm_e = 12" | "intr_number kGpio_5_pm_e = 13" | "intr_number kGpio_6_pm_e = 14"
| "intr_number kGpio_7_pm_e = 15" | "intr_number kExt_0_pm_e = 16" | "intr_number kExt_1_pm_e = 17"
| "intr_number kExt_2_pm_e = 18" | "intr_number kExt_3_pm_e = 19"

record monitor_signals_t =
  kSwitch_e :: u32
  kIso_e :: u32
  kReset_e :: u32

record power_manager_t = pm_base :: mmio_region_t

record power_manager_counters_t =
  reset_off :: u32
  reset_on :: u32
  switch_off :: u32
  switch_on :: u32
  iso_off :: u32
  iso_on :: u32
  retentive_off :: u32
  retentive_on :: u32

record power_manager_ram_map_t =
  ram_clk_gate :: u32
  ram_power_gate_ack :: u32
  ram_switch_off :: u32
  ram_wait_ack_switch :: u32
  ram_iso :: u32
  ram_retentive :: u32
  ram_monitor_power_gate :: u32

definition power_manager_ram_map :: "power_manager_ram_map_t list" where
  "power_manager_ram_map =
     [\<lparr>ram_clk_gate = POWER_MANAGER_RAM_0_CLK_GATE_REG_OFFSET,
       ram_power_gate_ack = POWER_MANAGER_POWER_GATE_RAM_BLOCK_0_ACK_REG_OFFSET,
       ram_switch_off = POWER_MANAGER_RAM_0_SWITCH_REG_OFFSET, ram_wait_ack_switch = POWER_MANAGER_RAM_0_WAIT_ACK_SWITCH_ON_REG_OFFSET,
       ram_iso = POWER_MANAGER_RAM_0_ISO_REG_OFFSET, ram_retentive = POWER_MANAGER_RAM_0_RETENTIVE_REG_OFFSET,
       ram_monitor_power_gate = POWER_MANAGER_MONITOR_POWER_GATE_RAM_BLOCK_0_REG_OFFSET\<rparr>,
      \<lparr>ram_clk_gate = POWER_MANAGER_RAM_1_CLK_GATE_REG_OFFSET,
       ram_power_gate_ack = POWER_MANAGER_POWER_GATE_RAM_BLOCK_1_ACK_REG_OFFSET,
       ram_switch_off = POWER_MANAGER_RAM_1_SWITCH_REG_OFFSET, ram_wait_ack_switch = POWER_MANAGER_RAM_1_WAIT_ACK_SWITCH_ON_REG_OFFSET,
       ram_iso = POWER_MANAGER_RAM_1_ISO_REG_OFFSET, ram_retentive = POWER_MANAGER_RAM_1_RETENTIVE_REG_OFFSET,
       ram_monitor_power_gate = POWER_MANAGER_MONITOR_POWER_GATE_RAM_BLOCK_1_REG_OFFSET\<rparr>]"

record power_manager_external_map_t =
  ext_power_gate_ack :: u32
  ext_reset :: u32
  ext_switch_off :: u32
  ext_wait_ack_switch :: u32
  ext_iso :: u32
  ext_retentive :: u32
  ext_monitor_power_gate :: u32

text \<open>This configuration has no external domain: the table is empty.\<close>

definition power_manager_external_map :: "power_manager_external_map_t list" where
  "power_manager_external_map = []"

text \<open>Indexing a table; \<open>None\<close> is the access outside it, which C leaves undefined.\<close>

definition entry :: "'a list \<Rightarrow> u32 \<Rightarrow> 'a option" where
  "entry xs i = (if unat i < length xs then Some (xs ! unat i) else None)"

text \<open>Writing a register, or waiting for a number of \<^verbatim>\<open>nop\<close> instructions.\<close>

datatype pm_action = Set_reg u32 u32 | Nops u32

fun pm_step :: "power_manager_t \<Rightarrow> pm_action \<Rightarrow> hist \<Rightarrow> hist" where
  "pm_step p (Set_reg off v) h = mmio_region_write32 (pm_base p) off v h"
| "pm_step p (Nops n) h = h"

definition pm_run :: "power_manager_t \<Rightarrow> pm_action list \<Rightarrow> hist \<Rightarrow> hist" where
  "pm_run p ss h = fold (pm_step p) ss h"

subsection \<open>Gating the core\<close>

text \<open>What \<^verbatim>\<open>power_gate_core_asm\<close> writes: \<open>wakeup\<close> is the address of its label.\<close>

definition power_gate_core_asm :: "u32 \<Rightarrow> hist \<Rightarrow> hist" where
  "power_gate_core_asm wakeup h =
     h @ [Wr32 (POWER_MANAGER_START_ADDRESS + POWER_MANAGER_POWER_GATE_CORE_REG_OFFSET) 1,
          Wr32 (POWER_MANAGER_START_ADDRESS + POWER_MANAGER_WAKEUP_STATE_REG_OFFSET) 1,
          Wr32 (POWER_MANAGER_START_ADDRESS + POWER_MANAGER_RESTORE_ADDRESS_REG_OFFSET) wakeup,
          Wr32 (POWER_MANAGER_START_ADDRESS + POWER_MANAGER_POWER_GATE_CORE_REG_OFFSET) 0,
          Wr32 (POWER_MANAGER_START_ADDRESS + POWER_MANAGER_WAKEUP_STATE_REG_OFFSET) 0,
          Wr32 (POWER_MANAGER_START_ADDRESS + POWER_MANAGER_RESTORE_ADDRESS_REG_OFFSET) 0]"

definition power_gate_core ::
  "u32 \<Rightarrow> power_manager_t \<Rightarrow> power_manager_sel_intr_t \<Rightarrow> power_manager_counters_t \<Rightarrow> hist \<Rightarrow> power_manager_result_t \<times> hist" where
  "power_gate_core wakeup p sel_intr cpu_counter h =
     (let h1 = pm_run p
            [Set_reg POWER_MANAGER_CPU_RESET_ASSERT_COUNTER_REG_OFFSET (reset_off cpu_counter),
             Set_reg POWER_MANAGER_CPU_RESET_DEASSERT_COUNTER_REG_OFFSET (reset_on cpu_counter),
             Set_reg POWER_MANAGER_CPU_SWITCH_OFF_COUNTER_REG_OFFSET (switch_off cpu_counter),
             Set_reg POWER_MANAGER_CPU_SWITCH_ON_COUNTER_REG_OFFSET (switch_on cpu_counter),
             Set_reg POWER_MANAGER_CPU_ISO_OFF_COUNTER_REG_OFFSET (iso_off cpu_counter),
             Set_reg POWER_MANAGER_CPU_ISO_ON_COUNTER_REG_OFFSET (iso_on cpu_counter),
             Set_reg POWER_MANAGER_EN_WAIT_FOR_INTR_REG_OFFSET (push_bit (intr_number sel_intr) 1),
             Set_reg POWER_MANAGER_INTR_STATE_REG_OFFSET 0x0,
             Set_reg POWER_MANAGER_CPU_WAIT_ACK_SWITCH_ON_COUNTER_REG_OFFSET
               (bitfield_bit32_write 0 POWER_MANAGER_CPU_WAIT_ACK_SWITCH_ON_COUNTER_CPU_WAIT_ACK_SWITCH_ON_COUNTER_BIT False)] h;
          h2 = power_gate_core_asm wakeup h1;
          stop = fold (\<lambda>k r. bitfield_bit32_write r k True)
            [POWER_MANAGER_CPU_COUNTERS_STOP_CPU_RESET_ASSERT_STOP_BIT_COUNTER_BIT,
             POWER_MANAGER_CPU_COUNTERS_STOP_CPU_RESET_DEASSERT_STOP_BIT_COUNTER_BIT,
             POWER_MANAGER_CPU_COUNTERS_STOP_CPU_SWITCH_OFF_STOP_BIT_COUNTER_BIT,
             POWER_MANAGER_CPU_COUNTERS_STOP_CPU_SWITCH_ON_STOP_BIT_COUNTER_BIT,
             POWER_MANAGER_CPU_COUNTERS_STOP_CPU_ISO_OFF_STOP_BIT_COUNTER_BIT,
             POWER_MANAGER_CPU_COUNTERS_STOP_CPU_ISO_ON_STOP_BIT_COUNTER_BIT] 0
      in (kPowerManagerOk_e, pm_run p
            [Set_reg POWER_MANAGER_EN_WAIT_FOR_INTR_REG_OFFSET 0x0, Set_reg POWER_MANAGER_INTR_STATE_REG_OFFSET 0x0,
             Set_reg POWER_MANAGER_CPU_COUNTERS_STOP_REG_OFFSET stop] h2))"

subsection \<open>Gating a domain\<close>

definition power_gate_periph ::
  "power_manager_t \<Rightarrow> power_manager_sel_state_t \<Rightarrow> power_manager_counters_t \<Rightarrow> hist \<Rightarrow> power_manager_result_t \<times> hist" where
  "power_gate_periph p sel_state periph_counters h =
     (kPowerManagerOk_e, pm_run p
        (Set_reg POWER_MANAGER_PERIPH_WAIT_ACK_SWITCH_ON_REG_OFFSET 0x0 #
         (if sel_state = kOn_e
          then [Nops (switch_on periph_counters), Set_reg POWER_MANAGER_PERIPH_SWITCH_REG_OFFSET 0x0,
                Nops (iso_off periph_counters), Set_reg POWER_MANAGER_PERIPH_ISO_REG_OFFSET 0x0,
                Nops (reset_off periph_counters), Set_reg POWER_MANAGER_PERIPH_RESET_REG_OFFSET 0x0]
          else [Nops (iso_on periph_counters), Set_reg POWER_MANAGER_PERIPH_ISO_REG_OFFSET 0x1,
                Nops (switch_off periph_counters), Set_reg POWER_MANAGER_PERIPH_SWITCH_REG_OFFSET 0x1,
                Nops (reset_on periph_counters), Set_reg POWER_MANAGER_PERIPH_RESET_REG_OFFSET 0x1])) h)"

definition power_gate_ram_block ::
  "power_manager_t \<Rightarrow> u32 \<Rightarrow> power_manager_sel_state_t \<Rightarrow> power_manager_counters_t \<Rightarrow> hist \<Rightarrow> (power_manager_result_t \<times> hist) option" where
  "power_gate_ram_block p sel_block sel_state ram_block_counters h =
     (case entry power_manager_ram_map sel_block of None \<Rightarrow> None
      | Some r \<Rightarrow> Some (kPowerManagerOk_e, pm_run p
          (if sel_state = kOn_e
           then [Set_reg (ram_wait_ack_switch r) 0x0, Nops (switch_on ram_block_counters), Set_reg (ram_switch_off r) 0x0,
                 Nops (iso_off ram_block_counters), Set_reg (ram_iso r) 0x0]
           else if sel_state = kOff_e
           then [Set_reg (ram_wait_ack_switch r) 0x0, Nops (iso_on ram_block_counters), Set_reg (ram_iso r) 0x1,
                 Nops (switch_off ram_block_counters), Set_reg (ram_switch_off r) 0x1]
           else if sel_state = kRetOn_e
           then [Set_reg (ram_wait_ack_switch r) 0x0, Nops (retentive_on ram_block_counters), Set_reg (ram_retentive r) 0x1]
           else [Set_reg (ram_wait_ack_switch r) 0x0, Nops (retentive_off ram_block_counters), Set_reg (ram_retentive r) 0x0]) h))"

definition power_gate_external ::
  "power_manager_t \<Rightarrow> u32 \<Rightarrow> power_manager_sel_state_t \<Rightarrow> power_manager_counters_t \<Rightarrow> hist \<Rightarrow> (power_manager_result_t \<times> hist) option" where
  "power_gate_external p sel_external sel_state external_counters h =
     (case entry power_manager_external_map sel_external of None \<Rightarrow> None
      | Some r \<Rightarrow> Some (kPowerManagerOk_e, pm_run p
          (if sel_state = kOn_e
           then [Set_reg (ext_wait_ack_switch r) 0x0, Nops (switch_on external_counters), Set_reg (ext_switch_off r) 0x0,
                 Nops (iso_off external_counters), Set_reg (ext_iso r) 0x0, Nops (reset_off external_counters), Set_reg (ext_reset r) 0x0]
           else if sel_state = kOff_e
           then [Set_reg (ext_wait_ack_switch r) 0x0, Nops (iso_on external_counters), Set_reg (ext_iso r) 0x1,
                 Nops (switch_off external_counters), Set_reg (ext_switch_off r) 0x1, Nops (reset_on external_counters), Set_reg (ext_reset r) 0x1]
           else if sel_state = kRetOn_e
           then [Set_reg (ext_wait_ack_switch r) 0x0, Nops (retentive_on external_counters), Set_reg (ext_retentive r) 0x1]
           else [Set_reg (ext_wait_ack_switch r) 0x0, Nops (retentive_off external_counters), Set_reg (ext_retentive r) 0x0]) h))"

subsection \<open>Queries\<close>

definition is_off :: "device \<Rightarrow> power_manager_t \<Rightarrow> u32 \<Rightarrow> hist \<Rightarrow> u32 \<times> hist" where
  "is_off dev p off h =
     (let (switch_state, h1) = mmio_region_read32 dev (pm_base p) off h in (if switch_state = 0 then 1 else 0, h1))"

definition periph_power_domain_is_off :: "device \<Rightarrow> power_manager_t \<Rightarrow> hist \<Rightarrow> u32 \<times> hist" where
  "periph_power_domain_is_off dev p h = is_off dev p POWER_MANAGER_POWER_GATE_PERIPH_ACK_REG_OFFSET h"

definition ram_block_power_domain_is_off :: "device \<Rightarrow> power_manager_t \<Rightarrow> u32 \<Rightarrow> hist \<Rightarrow> (u32 \<times> hist) option" where
  "ram_block_power_domain_is_off dev p sel_block h =
     map_option (\<lambda>r. is_off dev p (ram_power_gate_ack r) h) (entry power_manager_ram_map sel_block)"

definition external_power_domain_is_off :: "device \<Rightarrow> power_manager_t \<Rightarrow> u32 \<Rightarrow> hist \<Rightarrow> (u32 \<times> hist) option" where
  "external_power_domain_is_off dev p sel_external h =
     map_option (\<lambda>r. is_off dev p (ext_power_gate_ack r) h) (entry power_manager_external_map sel_external)"

definition power_gate_counters_init ::
  "u32 \<Rightarrow> u32 \<Rightarrow> u32 \<Rightarrow> u32 \<Rightarrow> u32 \<Rightarrow> u32 \<Rightarrow> u32 \<Rightarrow> u32 \<Rightarrow> power_manager_result_t \<times> power_manager_counters_t" where
  "power_gate_counters_init roff ron soff son ioff ion retoff reton =
     (kPowerManagerOk_e, \<lparr>reset_off = roff, reset_on = ron, switch_off = soff, switch_on = son, iso_off = ioff, iso_on = ion,
        retentive_off = retoff, retentive_on = reton\<rparr>)"

definition monitor :: "device \<Rightarrow> power_manager_t \<Rightarrow> u32 \<Rightarrow> hist \<Rightarrow> monitor_signals_t \<times> hist" where
  "monitor dev p off h =
     (let (reg, h1) = mmio_region_read32 dev (pm_base p) off h
      in (\<lparr>kSwitch_e = reg AND 0x1, kIso_e = drop_bit 1 (reg AND 0x2), kReset_e = drop_bit 2 (reg AND 0x4)\<rparr>, h1))"

definition monitor_power_gate_core :: "device \<Rightarrow> power_manager_t \<Rightarrow> hist \<Rightarrow> monitor_signals_t \<times> hist" where
  "monitor_power_gate_core dev p h = monitor dev p POWER_MANAGER_MONITOR_POWER_GATE_CORE_REG_OFFSET h"

definition monitor_power_gate_periph :: "device \<Rightarrow> power_manager_t \<Rightarrow> hist \<Rightarrow> monitor_signals_t \<times> hist" where
  "monitor_power_gate_periph dev p h = monitor dev p POWER_MANAGER_MONITOR_POWER_GATE_PERIPH_REG_OFFSET h"

text \<open>A memory bank has no reset; its third signal is constant.\<close>

definition monitor_power_gate_ram_block :: "device \<Rightarrow> power_manager_t \<Rightarrow> u32 \<Rightarrow> hist \<Rightarrow> (monitor_signals_t \<times> hist) option" where
  "monitor_power_gate_ram_block dev p sel_block h =
     map_option (\<lambda>r. let (s, h1) = monitor dev p (ram_monitor_power_gate r) h in (s\<lparr>kReset_e := 0x1\<rparr>, h1))
       (entry power_manager_ram_map sel_block)"

definition monitor_power_gate_external :: "device \<Rightarrow> power_manager_t \<Rightarrow> u32 \<Rightarrow> hist \<Rightarrow> (monitor_signals_t \<times> hist) option" where
  "monitor_power_gate_external dev p sel_external h =
     map_option (\<lambda>r. monitor dev p (ext_monitor_power_gate r) h) (entry power_manager_external_map sel_external)"

subsection \<open>A domain without power is isolated\<close>

text \<open>
  A power domain that is switched off must be isolated from the rest of the chip the whole time. \<open>isolated\<close> says so of
  the peripheral domain and both memory banks, by their switch and isolation registers; a client's calls are a list of \<open>pm_op\<close>.
\<close>

definition domains :: "(u32 \<times> u32) list" where
  "domains =
     [(POWER_MANAGER_PERIPH_SWITCH_REG_OFFSET, POWER_MANAGER_PERIPH_ISO_REG_OFFSET),
      (POWER_MANAGER_RAM_0_SWITCH_REG_OFFSET, POWER_MANAGER_RAM_0_ISO_REG_OFFSET),
      (POWER_MANAGER_RAM_1_SWITCH_REG_OFFSET, POWER_MANAGER_RAM_1_ISO_REG_OFFSET)]"

definition isolated :: "power_manager_t \<Rightarrow> (u32 \<Rightarrow> u32) \<Rightarrow> bool" where
  "isolated p m \<longleftrightarrow>
     list_all (\<lambda>(sw, iso). m (reg_addr (pm_base p) sw) = 1 \<longrightarrow> m (reg_addr (pm_base p) iso) = 1) domains"

datatype pm_op =
    Periph power_manager_sel_state_t power_manager_counters_t
  | Ram u32 power_manager_sel_state_t power_manager_counters_t
  | External u32 power_manager_sel_state_t power_manager_counters_t

fun pm_call :: "power_manager_t \<Rightarrow> pm_op \<Rightarrow> hist \<Rightarrow> hist option" where
  "pm_call p (Periph s c) h = Some (snd (power_gate_periph p s c h))"
| "pm_call p (Ram b s c) h = map_option snd (power_gate_ram_block p b s c h)"
| "pm_call p (External e s c) h = map_option snd (power_gate_external p e s c h)"

fun pm_calls :: "power_manager_t \<Rightarrow> pm_op list \<Rightarrow> hist \<Rightarrow> hist option" where
  "pm_calls p [] h = Some h"
| "pm_calls p (c # cs) h = (case pm_call p c h of None \<Rightarrow> None | Some h1 \<Rightarrow> pm_calls p cs h1)"

text \<open>The accesses that extend a history by a run of steps, each keeping a predicate on the registers.\<close>

definition throughout :: "((u32 \<Rightarrow> u32) \<Rightarrow> bool) \<Rightarrow> (u32 \<Rightarrow> u32) \<Rightarrow> hist \<Rightarrow> hist \<Rightarrow> bool" where
  "throughout P m0 h h' \<longleftrightarrow> (\<exists>es. h' = h @ es \<and> (\<forall>k. P (regs_after m0 (h @ take k es))))"

lemma throughout_refl: "P (regs_after m0 h) \<Longrightarrow> throughout P m0 h h"
  by (simp add: throughout_def)

lemma throughout_step:
  assumes "throughout P m0 h h'" "P (regs_after m0 (h' @ [e]))"
  shows "throughout P m0 h (h' @ [e])"
proof -
  obtain es where es: "h' = h @ es" "\<forall>k. P (regs_after m0 (h @ take k es))" using assms(1) by (auto simp: throughout_def)
  have "P (regs_after m0 (h @ take k (es @ [e])))" for k
    using es assms(2) by (cases "k \<le> length es") (auto simp del: regs_after_append)
  then show ?thesis using es(1) by (auto simp: throughout_def)
qed

lemma throughout_trans:
  assumes "throughout P m0 h h1" "throughout P m0 h1 h2"
  shows "throughout P m0 h h2"
proof -
  obtain es fs where es: "h1 = h @ es" "\<forall>k. P (regs_after m0 (h @ take k es))"
    and fs: "h2 = h1 @ fs" "\<forall>k. P (regs_after m0 (h1 @ take k fs))" using assms by (auto simp: throughout_def)
  have "P (regs_after m0 (h @ take k (es @ fs)))" for k
    using es(2) fs(2) es(1) by (cases "k \<le> length es") (auto simp del: regs_after_append)
  then show ?thesis using es(1) fs(1) by (auto simp: throughout_def)
qed

lemma throughout_last:
  assumes "throughout P m0 h h'"
  shows "P (regs_after m0 h')"
proof -
  obtain es where "h' = h @ es" "\<forall>k. P (regs_after m0 (h @ take k es))" using assms by (auto simp: throughout_def)
  from this(1) this(2) [rule_format, of "length es"] show ?thesis by (simp del: regs_after_append)
qed

text \<open>A run of steps seen on the registers alone.\<close>

fun chain :: "((u32 \<Rightarrow> u32) \<Rightarrow> bool) \<Rightarrow> power_manager_t \<Rightarrow> pm_action list \<Rightarrow> (u32 \<Rightarrow> u32) \<Rightarrow> bool" where
  "chain P p [] m = P m"
| "chain P p (Nops n # ss) m = chain P p ss m"
| "chain P p (Set_reg off v # ss) m = (P m \<and> chain P p ss (m(reg_addr (pm_base p) off := v)))"

lemma chain_head: "chain P p ss m \<Longrightarrow> P m"
  by (induction P p ss m rule: chain.induct) auto

lemma throughout_run: "chain P p ss (regs_after m0 h) \<Longrightarrow> throughout P m0 h (pm_run p ss h)"
proof (induction ss arbitrary: h)
  case (Cons s ss)
  show ?case
  proof (cases s)
    case (Set_reg off v)
    let ?h1 = "h @ [Wr32 (reg_addr (pm_base p) off) v]"
    have c: "P (regs_after m0 h)" "chain P p ss (regs_after m0 ?h1)" using Cons.prems by (simp_all add: Set_reg)
    have "throughout P m0 h ?h1"
      by (rule throughout_step [OF throughout_refl]) (use c chain_head [OF c(2)] in simp_all)
    then show ?thesis
      using Cons.IH [OF c(2)] throughout_trans by (fastforce simp: Set_reg pm_run_def mmio_region_write32_def)
  next
    case (Nops n)
    then show ?thesis using Cons by (simp add: pm_run_def)
  qed
qed (simp add: pm_run_def throughout_refl)

lemma periph_chain: "isolated p (regs_after m0 h) \<Longrightarrow> throughout (isolated p) m0 h (snd (power_gate_periph p s c h))"
  unfolding power_gate_periph_def snd_conv
  by (rule throughout_run) (auto simp: isolated_def domains_def reg_addr_def reg_defs)

lemma ram_chain:
  assumes "isolated p (regs_after m0 h)" "power_gate_ram_block p b s c h = Some (r, h')"
  shows "throughout (isolated p) m0 h h'"
proof -
  have "unat b = 0 \<or> unat b = 1" using assms(2)
    by (auto simp: power_gate_ram_block_def entry_def power_manager_ram_map_def less_Suc_eq split: if_splits)
  then have "\<exists>ss. h' = pm_run p ss h \<and> chain (isolated p) p ss (regs_after m0 h)"
    using assms
    by (elim disjE; cases s)
       (auto simp: power_gate_ram_block_def entry_def power_manager_ram_map_def isolated_def domains_def reg_addr_def reg_defs)
  then show ?thesis using throughout_run by blast
qed

lemma pm_call_isolated:
  "isolated p (regs_after m0 h) \<Longrightarrow> pm_call p c h = Some h' \<Longrightarrow> throughout (isolated p) m0 h h'"
  by (cases c) (auto simp: periph_chain ram_chain power_gate_external_def entry_def power_manager_external_map_def)

lemma pm_calls_isolated:
  "isolated p (regs_after m0 h) \<Longrightarrow> pm_calls p cs h = Some h' \<Longrightarrow> throughout (isolated p) m0 h h'"
proof (induction cs arbitrary: h)
  case (Cons c cs)
  then obtain h1 where h1: "pm_call p c h = Some h1" "pm_calls p cs h1 = Some h'" by (auto split: option.splits)
  have t: "throughout (isolated p) m0 h h1" by (rule pm_call_isolated [OF Cons.prems(1) h1(1)])
  then show ?case using Cons.IH [OF throughout_last [OF t] h1(2)] by (rule throughout_trans)
qed (simp add: throughout_refl)

text \<open>C21: From registers in which every domain that is switched off is isolated, no sequence of gating calls ever
  reaches, at any single register write, a state in which a domain is switched off but not isolated: powering down
  isolates first, powering up removes the isolation last.\<close>

theorem domains_isolated:
  assumes "isolated p (regs_after m0 h)" "pm_calls p cs h = Some h'"
  shows "\<exists>es. h' = h @ es \<and> (\<forall>k. isolated p (regs_after m0 (h @ take k es)))"
  using pm_calls_isolated [OF assms] by (simp add: throughout_def)

lemma domains_isolated_witness:
  "\<exists>h'. pm_calls \<lparr>pm_base = \<lparr>mr_base = 0x20040000\<rparr>\<rparr>
      [Periph kOff_e (snd (power_gate_counters_init 1 2 3 4 5 6 7 8)), Ram 1 kOff_e (snd (power_gate_counters_init 1 2 3 4 5 6 7 8)),
       Ram 1 kOn_e (snd (power_gate_counters_init 1 2 3 4 5 6 7 8))] [] = Some h' \<and>
     (\<exists>es. h' = [] @ es \<and> (\<forall>k. isolated \<lparr>pm_base = \<lparr>mr_base = 0x20040000\<rparr>\<rparr> (regs_after (\<lambda>_. 0) ([] @ take k es))))"
proof -
  let ?p = "\<lparr>pm_base = \<lparr>mr_base = 0x20040000\<rparr>\<rparr>" and ?c = "snd (power_gate_counters_init 1 2 3 4 5 6 7 8)"
  have "isolated ?p (regs_after (\<lambda>_. 0) [])" by (simp add: isolated_def domains_def)
  moreover have "\<exists>h'. pm_calls ?p [Periph kOff_e ?c, Ram 1 kOff_e ?c, Ram 1 kOn_e ?c] [] = Some h'"
    by (simp add: power_gate_ram_block_def entry_def power_manager_ram_map_def)
  ultimately show ?thesis using domains_isolated [of ?p "\<lambda>_. 0" "[]"] by blast
qed

subsection \<open>The core\<close>

text \<open>After gating the core, the core gate and the wake-up state are clear again, no interrupt is waited for and
  the six counters are stopped.\<close>

lemma core_gated_clean:
  assumes "mr_base (pm_base p) = POWER_MANAGER_START_ADDRESS"
  shows "let m = regs_after m0 (snd (power_gate_core wakeup p i c h)); at = (\<lambda>off. m (reg_addr (pm_base p) off))
    in at POWER_MANAGER_POWER_GATE_CORE_REG_OFFSET = 0 \<and> at POWER_MANAGER_WAKEUP_STATE_REG_OFFSET = 0 \<and>
       at POWER_MANAGER_RESTORE_ADDRESS_REG_OFFSET = 0 \<and> at POWER_MANAGER_EN_WAIT_FOR_INTR_REG_OFFSET = 0 \<and>
       at POWER_MANAGER_CPU_COUNTERS_STOP_REG_OFFSET = 0x3f"
proof -
  have "fold (\<lambda>k r. bitfield_bit32_write r k True) [0, 1, 2, 3, 4, 5] (0 :: u32) = 0x3f"
    by (simp add: bitfield_bit32_write_def bitfield_field32_write_def bitfield_bit32_to_field32_def)
  then show ?thesis
    using assms by (simp add: power_gate_core_def pm_run_def power_gate_core_asm_def mmio_region_write32_def reg_addr_def reg_defs Let_def)
qed

end
