(* ===== verification/Power_Gate.thy ===== *)
theory Power_Gate
  imports Hart Power_Manager
begin

text \<open>
  The assembly of \<^verbatim>\<open>power_gate_core_asm\<close> in \<^verbatim>\<open>power_manager.c\<close>, instruction by instruction on the hart of \<^verbatim>\<open>Hart\<close>: the
  core saves its registers and control registers to memory, hands over a restore address, waits for an interrupt,
  loses its state when the power is removed, and on wake-up restores everything from memory. The lemmas show that
  whatever the registers hold at wake-up, the restored core is the saved one.
\<close>

subsection \<open>The code\<close>

text \<open>\<open>area\<close> is the linker's \<^verbatim>\<open>__power_manager_start\<close>, \<open>wakeup\<close> the address of the label.\<close>

definition saved_regs :: "(xreg \<times> u32) list" where
  "saved_regs =
     [(Ra, 0), (Sp, 4), (Gp, 8), (Tp, 12), (T0, 16), (T1, 20), (T2, 24), (S0, 28), (S1, 32), (A0, 36), (A1, 40), (A2, 44),
      (A3, 48), (A4, 52), (A5, 56), (A6, 60), (A7, 64), (S2, 68), (S3, 72), (S4, 76), (S5, 80), (S6, 88), (S7, 92), (S8, 96),
      (S9, 100), (S10, 104), (S11, 108), (T3, 112), (T4, 116), (T5, 120), (T6, 124)]"

definition saved_csrs :: "(csr \<times> u32) list" where
  "saved_csrs =
     [(MSTATUS, 128), (MIE, 132), (MTVEC, 136), (MSCRATCH, 140), (MEPC, 144), (MCAUSE, 148), (MTVAL, 152), (MCYCLE, 156),
      (MINSTRET, 160)]"

definition gate_request :: "instr list" where
  "gate_request =
     [LI A0 (push_bit 12 (drop_bit 12 POWER_MANAGER_START_ADDRESS)), LI A1 1,
      SW A1 POWER_MANAGER_POWER_GATE_CORE_REG_OFFSET A0, SW A1 POWER_MANAGER_WAKEUP_STATE_REG_OFFSET A0]"

definition save_core :: "u32 \<Rightarrow> instr list" where
  "save_core area =
     LI A0 area # map (\<lambda>(r, i). SW r i A0) saved_regs @ concat (map (\<lambda>(c, i). [CSRR A1 c, SW A1 i A0]) saved_csrs)"

definition hand_over :: "u32 \<Rightarrow> instr list" where
  "hand_over wakeup =
     [LI A0 (push_bit 12 (drop_bit 12 POWER_MANAGER_START_ADDRESS)), LI A1 wakeup,
      SW A1 POWER_MANAGER_RESTORE_ADDRESS_REG_OFFSET A0]"

definition wakeup_clear :: "instr list" where
  "wakeup_clear =
     [LI A0 (push_bit 12 (drop_bit 12 POWER_MANAGER_START_ADDRESS)), SW Zero POWER_MANAGER_POWER_GATE_CORE_REG_OFFSET A0,
      SW Zero POWER_MANAGER_WAKEUP_STATE_REG_OFFSET A0, SW Zero POWER_MANAGER_RESTORE_ADDRESS_REG_OFFSET A0]"

definition restore_core :: "u32 \<Rightarrow> instr list" where
  "restore_core area =
     LI A0 area # map (\<lambda>(r, i). LW r i A0) saved_regs @ concat (map (\<lambda>(c, i). [LW A1 i A0, CSRW c A1]) saved_csrs)"

text \<open>Before the power is removed, and from the wake-up on.\<close>

definition power_down_code :: "u32 \<Rightarrow> u32 \<Rightarrow> instr list" where
  "power_down_code area wakeup = gate_request @ save_core area @ hand_over wakeup"

definition wake_up_code :: "u32 \<Rightarrow> instr list" where
  "wake_up_code area = wakeup_clear @ restore_core area"

subsection \<open>Words in memory\<close>

definition store_words :: "u32 \<Rightarrow> (u32 \<times> u32) list \<Rightarrow> memory \<Rightarrow> memory" where
  "store_words p ws m = fold (\<lambda>(i, v). store32 (p + i) v) ws m"

definition words_at :: "u32 \<Rightarrow> u32 list \<Rightarrow> u32 set" where
  "words_at p offs = (\<Union>i \<in> set offs. bytes4 (p + i))"

definition slots_ok :: "u32 list \<Rightarrow> bool" where
  "slots_ok offs \<longleftrightarrow> distinct offs \<and> list_all (\<lambda>i. 4 dvd unat i) offs"

lemma bytes4_div:
  assumes "4 dvd unat i" "b \<in> bytes4 i"
  shows "unat b div 4 = unat i div 4"
proof -
  obtain k where k: "b = i + k" "k \<in> {0, 1, 2, 3}" using assms(2) by (auto simp: bytes4_def)
  obtain q where q: "unat i = 4 * q" using assms(1) by auto
  have "unat k < 4" using k(2) by auto
  moreover have "4 * q + 4 \<le> 2 ^ 32" using unat_lt32 [of i] q by simp
  ultimately have "unat b = 4 * q + unat k" using k(1) q by (simp add: unat_word_ariths)
  then show ?thesis using q \<open>unat k < 4\<close> by simp
qed

lemma bytes4_apart:
  assumes "4 dvd unat i" "4 dvd unat j" "i \<noteq> j"
  shows "bytes4 (p + i) \<inter> bytes4 (p + j) = {}"
proof -
  have "bytes4 i \<inter> bytes4 j = {}"
  proof (rule ccontr)
    assume "bytes4 i \<inter> bytes4 j \<noteq> {}"
    then obtain b where "b \<in> bytes4 i" "b \<in> bytes4 j" by blast
    then have "unat i div 4 = unat j div 4" using bytes4_div assms(1,2) by metis
    then have "unat i = unat j" using assms(1,2) by (metis dvd_mult_div_cancel)
    then show False using assms(3) by (simp add: word_unat_eq_iff)
  qed
  then show ?thesis by (simp add: bytes4_shift [of p] flip: image_Int)
qed

lemma store_words_outside: "b \<notin> words_at p (map fst ws) \<Longrightarrow> store_words p ws m b = m b"
  by (induction ws arbitrary: m) (auto simp: store_words_def words_at_def store_other)

lemma load_store_words:
  assumes "slots_ok (map fst ws)" "(i, v) \<in> set ws"
  shows "load32 (store_words p ws m) (p + i) = v"
  using assms
proof (induction ws arbitrary: m)
  case (Cons x ws)
  obtain j w where x: "x = (j, w)" by (cases x)
  show ?case
  proof (cases "(i, v) = x")
    case True
    have "load32 (store_words p ws (store32 (p + i) v m)) (p + i) = load32 (store32 (p + i) v m) (p + i)"
    proof (rule load_cong)
      fix b assume b: "b \<in> bytes4 (p + i)"
      have "bytes4 (p + i) \<inter> bytes4 (p + k) = {}" if "k \<in> set (map fst ws)" for k
        using Cons.prems(1) that True x by (intro bytes4_apart) (auto simp: slots_ok_def list_all_iff)
      then have "b \<notin> words_at p (map fst ws)" using b by (auto simp: words_at_def)
      then show "store_words p ws (store32 (p + i) v m) b = store32 (p + i) v m b" by (rule store_words_outside)
    qed
    then show ?thesis using True by (simp add: x store_words_def load_store)
  next
    case False
    then show ?thesis using Cons.IH Cons.prems by (auto simp: slots_ok_def store_words_def x)
  qed
qed simp

subsection \<open>Saving\<close>

lemma exec_save_regs:
  "exec (map (\<lambda>(r, i). SW r i b) fr) h = h\<lparr>hmem := store_words (rd h b) (map (\<lambda>(r, i). (i, rd h r)) fr) (hmem h)\<rparr>"
proof (induction fr arbitrary: h)
  case (Cons x fr)
  then show ?case by (cases x) (simp add: store_words_def)
qed (simp add: store_words_def)

lemma exec_save_csrs:
  "let h' = exec (concat (map (\<lambda>(c, i). [CSRR A1 c, SW A1 i A0]) cs)) h
   in hmem h' = store_words (rd h A0) (map (\<lambda>(c, i). (i, csrs h c)) cs) (hmem h) \<and> csrs h' = csrs h \<and>
      (\<forall>q. q \<noteq> A1 \<longrightarrow> rd h' q = rd h q)"
proof (induction cs arbitrary: h)
  case (Cons x cs)
  obtain c i where x: "x = (c, i)" by (cases x)
  show ?case using Cons [of "exec [CSRR A1 c, SW A1 i A0] h"] by (simp add: x store_words_def Let_def)
qed (simp add: store_words_def)

subsection \<open>Restoring\<close>

lemma exec_restore_regs:
  assumes "distinct (map fst fr)" "Zero \<notin> fst ` set fr" "\<forall>(r, i)\<in>set fr. r = A0 \<longrightarrow> load32 (hmem h) (rd h A0 + i) = rd h A0"
  shows "rd (exec (map (\<lambda>(r, i). LW r i A0) fr) h) q =
      (case map_of fr q of Some i \<Rightarrow> load32 (hmem h) (rd h A0 + i) | None \<Rightarrow> rd h q) \<and>
    hmem (exec (map (\<lambda>(r, i). LW r i A0) fr) h) = hmem h \<and> csrs (exec (map (\<lambda>(r, i). LW r i A0) fr) h) = csrs h"
  using assms
proof (induction fr arbitrary: h)
  case (Cons x fr)
  obtain r i where x: "x = (r, i)" by (cases x)
  let ?h = "wr r (load32 (hmem h) (rd h A0 + i)) h"
  have n: "map_of fr r = None" using Cons.prems(1) by (auto simp: x map_of_eq_None_iff)
  have a: "rd ?h A0 = rd h A0" using Cons.prems(3) by (auto simp: x)
  have "\<forall>(r, i)\<in>set fr. r = A0 \<longrightarrow> load32 (hmem ?h) (rd ?h A0 + i) = rd ?h A0" using Cons.prems(3) unfolding a by (auto simp: x)
  then show ?case using Cons.IH [of ?h] Cons.prems(1,2) n a by (auto simp: x split: option.split)
qed simp

lemma exec_restore_csrs:
  "distinct (map fst cs) \<Longrightarrow>
   let h' = exec (concat (map (\<lambda>(c, i). [LW A1 i A0, CSRW c A1]) cs)) h
   in csrs h' c = (case map_of cs c of Some i \<Rightarrow> load32 (hmem h) (rd h A0 + i) | None \<Rightarrow> csrs h c) \<and>
      (\<forall>q. q \<noteq> A1 \<longrightarrow> rd h' q = rd h q)"
proof (induction cs arbitrary: h)
  case (Cons x cs)
  obtain d i where x: "x = (d, i)" by (cases x)
  let ?h = "exec [LW A1 i A0, CSRW d A1] h"
  have n: "map_of cs d = None" using Cons.prems by (auto simp: x map_of_eq_None_iff)
  have h: "rd ?h q = (if q = A1 then load32 (hmem h) (rd h A0 + i) else rd h q)" "hmem ?h = hmem h"
    "csrs ?h = (csrs h)(d := load32 (hmem h) (rd h A0 + i))" for q
    by (simp_all add: rd_def wr_def)
  show ?case
    using Cons.IH [of ?h] Cons.prems n unfolding Let_def h by (auto simp: x simp del: exec1.simps split: option.split)
qed simp

subsection \<open>The core comes back\<close>

definition saved_offsets :: "u32 list" where
  "saved_offsets = map snd saved_regs @ map snd saved_csrs"

lemma saved_offsets_ok: "slots_ok saved_offsets"
  by (simp add: saved_offsets_def saved_regs_def saved_csrs_def slots_ok_def)

lemma saved_names: "distinct (map fst saved_regs)" "Zero \<notin> fst ` set saved_regs" "distinct (map fst saved_csrs)"
  by (simp_all add: saved_regs_def saved_csrs_def)

text \<open>The manager's registers lie above the save area, which is in memory below the peripherals.\<close>

lemma manager_address: "POWER_MANAGER_START_ADDRESS = 0x20040000"
  by (simp add: reg_defs)

lemma manager_outside:
  assumes "unat area + 164 \<le> 0x20000000" "off < 0x1000" "b \<in> bytes4 (POWER_MANAGER_START_ADDRESS + off)"
  shows "b \<notin> words_at area saved_offsets"
proof
  assume "b \<in> words_at area saved_offsets"
  then obtain i where i: "i \<in> set saved_offsets" "b \<in> bytes4 (area + i)" unfolding words_at_def by blast
  then obtain k where k: "k \<in> {0, 1, 2, 3}" "b = area + i + k" unfolding bytes4_def by blast
  have "unat i \<le> 160" using i(1) by (auto simp: saved_offsets_def saved_regs_def saved_csrs_def)
  moreover have "unat k \<le> 3" using k(1) by auto
  ultimately have "unat b < 0x20000000" using k(2) assms(1) by (simp add: unat_word_ariths)
  moreover have "unat b \<ge> 0x20000000"
  proof -
    obtain j where j: "j \<in> {0, 1, 2, 3}" "b = 0x20040000 + off + j"
      using assms(3) unfolding bytes4_def manager_address by blast
    have "unat off < 0x1000" using assms(2) by (simp add: word_less_nat_alt)
    moreover have "unat j \<le> 3" using j(1) by auto
    ultimately show ?thesis using j(2) by (simp add: unat_word_ariths)
  qed
  ultimately show False by simp
qed

lemma manager_base: "push_bit 12 (drop_bit 12 POWER_MANAGER_START_ADDRESS) = POWER_MANAGER_START_ADDRESS"
  by (simp add: manager_address drop_bit_eq_div push_bit_eq_mult)

lemma manager_store_outside:
  assumes "unat area + 164 \<le> 0x20000000" "off < 0x1000" "b \<in> words_at area saved_offsets"
  shows "store32 (POWER_MANAGER_START_ADDRESS + off) v m b = m b"
  using manager_outside [OF assms(1,2)] assms(3) by (blast intro: store_other)

definition saved_image :: "u32 \<Rightarrow> hart \<Rightarrow> (u32 \<times> u32) list" where
  "saved_image area h =
     map (\<lambda>(r, i). (i, if r = A0 then area else if r = A1 then 1 else rd h r)) saved_regs @
     map (\<lambda>(c, i). (i, csrs h c)) saved_csrs"

lemma image_offsets: "map fst (saved_image area h) = saved_offsets"
  by (simp add: saved_image_def saved_offsets_def case_prod_beta o_def)

lemma offs_small:
  "POWER_MANAGER_POWER_GATE_CORE_REG_OFFSET < 0x1000" "POWER_MANAGER_WAKEUP_STATE_REG_OFFSET < 0x1000"
  "POWER_MANAGER_RESTORE_ADDRESS_REG_OFFSET < 0x1000"
  by (simp_all add: reg_defs)

lemma power_down_memory:
  assumes "unat area + 164 \<le> 0x20000000"
  shows "\<exists>m. \<forall>b \<in> words_at area saved_offsets.
    hmem (exec (power_down_code area wakeup) h) b = store_words area (saved_image area h) m b"
proof -
  define h1 where "h1 = wr A0 area (exec gate_request h)"
  have h1: "rd h1 r = (if r = A0 then area else if r = A1 then 1 else rd h r)" "csrs h1 = csrs h" for r
    by (simp_all add: h1_def gate_request_def)
  let ?ws = "map (\<lambda>(r, i). (i, rd h1 r)) saved_regs"
  define h2 where "h2 = h1\<lparr>hmem := store_words area ?ws (hmem h1)\<rparr>"
  have regs: "exec (map (\<lambda>(r, i). SW r i A0) saved_regs) h1 = h2"
    unfolding exec_save_regs h2_def by (simp add: h1(1))
  define h3 where "h3 = exec (concat (map (\<lambda>(c, i). [CSRR A1 c, SW A1 i A0]) saved_csrs)) h2"
  have "rd h2 A0 = area" "csrs h2 = csrs h" by (simp_all add: h2_def h1)
  then have m3: "hmem h3 = store_words area (map (\<lambda>(c, i). (i, csrs h c)) saved_csrs) (store_words area ?ws (hmem h1))"
    using exec_save_csrs [of saved_csrs h2] unfolding h3_def [symmetric] Let_def by (simp add: h2_def)
  have e: "exec (power_down_code area wakeup) h = exec (hand_over wakeup) h3"
    unfolding power_down_code_def save_core_def exec_append exec_simps exec1.simps h1_def [symmetric] regs h3_def ..
  have "hmem (exec (hand_over wakeup) h3) b = hmem h3 b" if "b \<in> words_at area saved_offsets" for b
    unfolding hand_over_def manager_base by (simp add: manager_store_outside [OF assms offs_small(3) that])
  moreover have "hmem h3 = store_words area (saved_image area h) (hmem h1)"
    unfolding m3 saved_image_def by (simp add: h1(1) store_words_def)
  ultimately show ?thesis unfolding e by auto
qed

lemma saved_slots:
  assumes "unat area + 164 \<le> 0x20000000"
    and "\<forall>b \<in> words_at area saved_offsets. hmem g b = hmem (exec (power_down_code area wakeup) h) b"
    and "(i, v) \<in> set (saved_image area h)"
  shows "load32 (hmem (exec wakeup_clear g)) (area + i) = v"
proof -
  obtain m where m: "\<And>b. b \<in> words_at area saved_offsets \<Longrightarrow>
      hmem (exec (power_down_code area wakeup) h) b = store_words area (saved_image area h) m b"
    using power_down_memory [OF assms(1)] by blast
  have "load32 (hmem (exec wakeup_clear g)) (area + i) = load32 (store_words area (saved_image area h) m) (area + i)"
  proof (rule load_cong)
    fix b assume b: "b \<in> bytes4 (area + i)"
    have "i \<in> set saved_offsets" using assms(3) image_offsets [of area h] by (metis fst_conv image_eqI list.set_map)
    then have w: "b \<in> words_at area saved_offsets" using b by (auto simp: words_at_def)
    have "hmem (exec wakeup_clear g) b = hmem g b"
      unfolding wakeup_clear_def manager_base
      by (simp add: manager_store_outside [OF assms(1) _ w] offs_small)
    then show "hmem (exec wakeup_clear g) b = store_words area (saved_image area h) m b"
      using m [OF w] assms(2) w by simp
  qed
  also have "\<dots> = v" using saved_offsets_ok assms(3) by (intro load_store_words) (simp_all add: image_offsets)
  finally show ?thesis .
qed

lemma saved_cover:
  "r \<notin> {Zero, A0, A1} \<Longrightarrow> \<exists>i. map_of saved_regs r = Some i \<and> (i, rd h r) \<in> set (saved_image area h)"
  "c \<in> fst ` set saved_csrs \<Longrightarrow> \<exists>i. map_of saved_csrs c = Some i \<and> (i, csrs h c) \<in> set (saved_image area h)"
proof -
  assume r: "r \<notin> {Zero, A0, A1}"
  then have "r \<in> fst ` set saved_regs" by (cases r) (simp_all add: saved_regs_def)
  then obtain i where i: "map_of saved_regs r = Some i" by (metis map_of_eq_None_iff not_None_eq)
  then have "(r, i) \<in> set saved_regs" by (rule map_of_SomeD)
  then have "(i, rd h r) \<in> set (saved_image area h)" using r by (force simp: saved_image_def)
  then show "\<exists>i. map_of saved_regs r = Some i \<and> (i, rd h r) \<in> set (saved_image area h)" using i by blast
next
  assume "c \<in> fst ` set saved_csrs"
  then obtain i where i: "map_of saved_csrs c = Some i" by (metis map_of_eq_None_iff not_None_eq)
  then have "(c, i) \<in> set saved_csrs" by (rule map_of_SomeD)
  then have "(i, csrs h c) \<in> set (saved_image area h)" by (force simp: saved_image_def)
  then show "\<exists>i. map_of saved_csrs c = Some i \<and> (i, csrs h c) \<in> set (saved_image area h)" using i by blast
qed

text \<open>C22: A core that is power-gated comes back: if the save area (any place in memory below the
  peripherals) still holds at wake-up what the core stored, then whatever else the registers, the control
  registers and the rest of the memory hold when the power returns, the wake-up code gives every register but
  the two scratch registers \<^verbatim>\<open>a0\<close> and \<^verbatim>\<open>a1\<close>, and every one of the nine saved control registers, its value from before
  the power-down.\<close>

theorem core_restored:
  assumes "unat area + 164 \<le> 0x20000000"
    and "\<forall>b \<in> words_at area saved_offsets. hmem g b = hmem (exec (power_down_code area wakeup) h) b"
  shows "(r \<notin> {A0, A1} \<longrightarrow> rd (exec (wake_up_code area) g) r = rd h r) \<and>
    (c \<in> {MSTATUS, MIE, MTVEC, MSCRATCH, MEPC, MCAUSE, MTVAL, MCYCLE, MINSTRET} \<longrightarrow>
       csrs (exec (wake_up_code area) g) c = csrs h c)"
proof -
  define g1 where "g1 = wr A0 area (exec wakeup_clear g)"
  have a0: "rd g1 A0 = area" and m1: "hmem g1 = hmem (exec wakeup_clear g)" by (simp_all add: g1_def)
  note slot = saved_slots [OF assms, folded m1]
  define g2 where "g2 = exec (map (\<lambda>(r, i). LW r i A0) saved_regs) g1"
  have "load32 (hmem g1) (rd g1 A0 + i) = rd g1 A0" if "(A0, i) \<in> set saved_regs" for i
    unfolding a0 using that by (intro slot) (force simp: saved_image_def)
  then have "\<forall>(r, i)\<in>set saved_regs. r = A0 \<longrightarrow> load32 (hmem g1) (rd g1 A0 + i) = rd g1 A0" by auto
  note g2 = exec_restore_regs [OF saved_names(1,2) this, folded g2_def]
  have "rd g2 A0 = area" using g2 [of A0] a0 slot [of 36 area] by (simp add: saved_regs_def saved_image_def)
  define g3 where "g3 = exec (concat (map (\<lambda>(c, i). [LW A1 i A0, CSRW c A1]) saved_csrs)) g2"
  note g3 = exec_restore_csrs [OF saved_names(3), of g2, folded g3_def, unfolded Let_def]
  have e: "exec (wake_up_code area) g = g3"
    unfolding wake_up_code_def restore_core_def exec_append exec_simps exec1.simps g1_def [symmetric] g2_def g3_def ..
  have "rd g3 r = rd h r" if n: "r \<notin> {A0, A1}"
  proof (cases "r = Zero")
    case False
    then obtain i where "map_of saved_regs r = Some i" "(i, rd h r) \<in> set (saved_image area h)"
      using saved_cover(1) [of r h area] n by auto
    then show ?thesis using g2 [of r] g3 n slot a0 by simp
  qed (simp add: rd_def)
  moreover have "csrs g3 c = csrs h c" if k: "c \<in> fst ` set saved_csrs"
  proof -
    obtain i where "map_of saved_csrs c = Some i" "(i, csrs h c) \<in> set (saved_image area h)"
      using saved_cover(2) [OF k] by blast
    then show ?thesis using g2 g3 [of c] slot \<open>rd g2 A0 = area\<close> by simp
  qed
  ultimately show ?thesis unfolding e by (auto simp: saved_csrs_def)
qed

text \<open>A core with a save area at \<^verbatim>\<open>0x8000\<close> that wakes up with its registers cleared.\<close>

lemma core_restored_witness:
  "rd (exec (wake_up_code 0x8000) (demo_hart\<lparr>xr := \<lambda>_. 0, hmem := hmem (exec (power_down_code 0x8000 0x200) demo_hart)\<rparr>)) S3 = 77"
proof -
  let ?g = "demo_hart\<lparr>xr := \<lambda>_. 0, hmem := hmem (exec (power_down_code 0x8000 0x200) demo_hart)\<rparr>"
  have "rd (exec (wake_up_code 0x8000) ?g) S3 = rd demo_hart S3"
    using core_restored [of "0x8000" ?g "0x200" demo_hart S3] by (simp del: exec_simps)
  then show ?thesis by (simp add: demo_hart_def rd_def)
qed

end
