(* ===== verification/Spi_Host.thy ===== *)
theory Spi_Host
  imports Regs Polling
begin

text \<open>
  The SPI host driver, \<^verbatim>\<open>sw/riscv/lib/hal/spi_host/spi_host.c\<close> and the inline functions of \<^verbatim>\<open>spi_host.h\<close>: status, FIFOs,
  interrupts, the configuration and command words, and the loops that wait for the host. Bit-field members of the structures are
  words of their width.
\<close>

definition SPI_HOST_INTR_STATE_ERROR_BIT :: u32 where [reg_defs]: "SPI_HOST_INTR_STATE_ERROR_BIT = 0"
definition SPI_HOST_INTR_ENABLE_REG_OFFSET :: u32 where [reg_defs]: "SPI_HOST_INTR_ENABLE_REG_OFFSET = 0x4"
definition SPI_HOST_INTR_ENABLE_SPI_EVENT_BIT :: u32 where [reg_defs]: "SPI_HOST_INTR_ENABLE_SPI_EVENT_BIT = 1"
definition SPI_HOST_CONTROL_REG_OFFSET :: u32 where [reg_defs]: "SPI_HOST_CONTROL_REG_OFFSET = 0x10"
definition SPI_HOST_CONTROL_RX_WATERMARK_MASK :: u32 where [reg_defs]: "SPI_HOST_CONTROL_RX_WATERMARK_MASK = 0xff"
definition SPI_HOST_CONTROL_RX_WATERMARK_OFFSET :: u32 where [reg_defs]: "SPI_HOST_CONTROL_RX_WATERMARK_OFFSET = 0"
definition SPI_HOST_CONTROL_RX_WATERMARK_FIELD :: bitfield_field32_t where [reg_defs]:
  "SPI_HOST_CONTROL_RX_WATERMARK_FIELD = mk_field SPI_HOST_CONTROL_RX_WATERMARK_MASK SPI_HOST_CONTROL_RX_WATERMARK_OFFSET"
definition SPI_HOST_CONTROL_TX_WATERMARK_MASK :: u32 where [reg_defs]: "SPI_HOST_CONTROL_TX_WATERMARK_MASK = 0xff"
definition SPI_HOST_CONTROL_TX_WATERMARK_OFFSET :: u32 where [reg_defs]: "SPI_HOST_CONTROL_TX_WATERMARK_OFFSET = 8"
definition SPI_HOST_CONTROL_TX_WATERMARK_FIELD :: bitfield_field32_t where [reg_defs]:
  "SPI_HOST_CONTROL_TX_WATERMARK_FIELD = mk_field SPI_HOST_CONTROL_TX_WATERMARK_MASK SPI_HOST_CONTROL_TX_WATERMARK_OFFSET"
definition SPI_HOST_CONTROL_OUTPUT_EN_BIT :: u32 where [reg_defs]: "SPI_HOST_CONTROL_OUTPUT_EN_BIT = 29"
definition SPI_HOST_CONTROL_SW_RST_BIT :: u32 where [reg_defs]: "SPI_HOST_CONTROL_SW_RST_BIT = 30"
definition SPI_HOST_CONTROL_SPIEN_BIT :: u32 where [reg_defs]: "SPI_HOST_CONTROL_SPIEN_BIT = 31"
definition SPI_HOST_STATUS_REG_OFFSET :: u32 where [reg_defs]: "SPI_HOST_STATUS_REG_OFFSET = 0x14"
definition SPI_HOST_STATUS_TXQD_MASK :: u32 where [reg_defs]: "SPI_HOST_STATUS_TXQD_MASK = 0xff"
definition SPI_HOST_STATUS_TXQD_OFFSET :: u32 where [reg_defs]: "SPI_HOST_STATUS_TXQD_OFFSET = 0"
definition SPI_HOST_STATUS_TXQD_FIELD :: bitfield_field32_t where [reg_defs]:
  "SPI_HOST_STATUS_TXQD_FIELD = mk_field SPI_HOST_STATUS_TXQD_MASK SPI_HOST_STATUS_TXQD_OFFSET"
definition SPI_HOST_STATUS_RXQD_MASK :: u32 where [reg_defs]: "SPI_HOST_STATUS_RXQD_MASK = 0xff"
definition SPI_HOST_STATUS_RXQD_OFFSET :: u32 where [reg_defs]: "SPI_HOST_STATUS_RXQD_OFFSET = 8"
definition SPI_HOST_STATUS_RXQD_FIELD :: bitfield_field32_t where [reg_defs]:
  "SPI_HOST_STATUS_RXQD_FIELD = mk_field SPI_HOST_STATUS_RXQD_MASK SPI_HOST_STATUS_RXQD_OFFSET"
definition SPI_HOST_STATUS_RXWM_BIT :: u32 where [reg_defs]: "SPI_HOST_STATUS_RXWM_BIT = 20"
definition SPI_HOST_STATUS_RXSTALL_BIT :: u32 where [reg_defs]: "SPI_HOST_STATUS_RXSTALL_BIT = 23"
definition SPI_HOST_STATUS_RXEMPTY_BIT :: u32 where [reg_defs]: "SPI_HOST_STATUS_RXEMPTY_BIT = 24"
definition SPI_HOST_STATUS_RXFULL_BIT :: u32 where [reg_defs]: "SPI_HOST_STATUS_RXFULL_BIT = 25"
definition SPI_HOST_STATUS_TXWM_BIT :: u32 where [reg_defs]: "SPI_HOST_STATUS_TXWM_BIT = 26"
definition SPI_HOST_STATUS_TXSTALL_BIT :: u32 where [reg_defs]: "SPI_HOST_STATUS_TXSTALL_BIT = 27"
definition SPI_HOST_STATUS_TXEMPTY_BIT :: u32 where [reg_defs]: "SPI_HOST_STATUS_TXEMPTY_BIT = 28"
definition SPI_HOST_STATUS_TXFULL_BIT :: u32 where [reg_defs]: "SPI_HOST_STATUS_TXFULL_BIT = 29"
definition SPI_HOST_STATUS_ACTIVE_BIT :: u32 where [reg_defs]: "SPI_HOST_STATUS_ACTIVE_BIT = 30"
definition SPI_HOST_STATUS_READY_BIT :: u32 where [reg_defs]: "SPI_HOST_STATUS_READY_BIT = 31"
definition SPI_HOST_CONFIGOPTS_0_REG_OFFSET :: u32 where [reg_defs]: "SPI_HOST_CONFIGOPTS_0_REG_OFFSET = 0x18"
definition SPI_HOST_CONFIGOPTS_0_CLKDIV_0_MASK :: u32 where [reg_defs]: "SPI_HOST_CONFIGOPTS_0_CLKDIV_0_MASK = 0xffff"
definition SPI_HOST_CONFIGOPTS_0_CLKDIV_0_OFFSET :: u32 where [reg_defs]: "SPI_HOST_CONFIGOPTS_0_CLKDIV_0_OFFSET = 0"
definition SPI_HOST_CONFIGOPTS_0_CLKDIV_0_FIELD :: bitfield_field32_t where [reg_defs]:
  "SPI_HOST_CONFIGOPTS_0_CLKDIV_0_FIELD = mk_field SPI_HOST_CONFIGOPTS_0_CLKDIV_0_MASK SPI_HOST_CONFIGOPTS_0_CLKDIV_0_OFFSET"
definition SPI_HOST_CONFIGOPTS_0_CSNIDLE_0_MASK :: u32 where [reg_defs]: "SPI_HOST_CONFIGOPTS_0_CSNIDLE_0_MASK = 0xf"
definition SPI_HOST_CONFIGOPTS_0_CSNIDLE_0_OFFSET :: u32 where [reg_defs]: "SPI_HOST_CONFIGOPTS_0_CSNIDLE_0_OFFSET = 16"
definition SPI_HOST_CONFIGOPTS_0_CSNIDLE_0_FIELD :: bitfield_field32_t where [reg_defs]:
  "SPI_HOST_CONFIGOPTS_0_CSNIDLE_0_FIELD = mk_field SPI_HOST_CONFIGOPTS_0_CSNIDLE_0_MASK SPI_HOST_CONFIGOPTS_0_CSNIDLE_0_OFFSET"
definition SPI_HOST_CONFIGOPTS_0_CSNTRAIL_0_MASK :: u32 where [reg_defs]: "SPI_HOST_CONFIGOPTS_0_CSNTRAIL_0_MASK = 0xf"
definition SPI_HOST_CONFIGOPTS_0_CSNTRAIL_0_OFFSET :: u32 where [reg_defs]: "SPI_HOST_CONFIGOPTS_0_CSNTRAIL_0_OFFSET = 20"
definition SPI_HOST_CONFIGOPTS_0_CSNTRAIL_0_FIELD :: bitfield_field32_t where [reg_defs]:
  "SPI_HOST_CONFIGOPTS_0_CSNTRAIL_0_FIELD = mk_field SPI_HOST_CONFIGOPTS_0_CSNTRAIL_0_MASK SPI_HOST_CONFIGOPTS_0_CSNTRAIL_0_OFFSET"
definition SPI_HOST_CONFIGOPTS_0_CSNLEAD_0_MASK :: u32 where [reg_defs]: "SPI_HOST_CONFIGOPTS_0_CSNLEAD_0_MASK = 0xf"
definition SPI_HOST_CONFIGOPTS_0_CSNLEAD_0_OFFSET :: u32 where [reg_defs]: "SPI_HOST_CONFIGOPTS_0_CSNLEAD_0_OFFSET = 24"
definition SPI_HOST_CONFIGOPTS_0_CSNLEAD_0_FIELD :: bitfield_field32_t where [reg_defs]:
  "SPI_HOST_CONFIGOPTS_0_CSNLEAD_0_FIELD = mk_field SPI_HOST_CONFIGOPTS_0_CSNLEAD_0_MASK SPI_HOST_CONFIGOPTS_0_CSNLEAD_0_OFFSET"
definition SPI_HOST_CONFIGOPTS_0_FULLCYC_0_BIT :: u32 where [reg_defs]: "SPI_HOST_CONFIGOPTS_0_FULLCYC_0_BIT = 29"
definition SPI_HOST_CONFIGOPTS_0_CPHA_0_BIT :: u32 where [reg_defs]: "SPI_HOST_CONFIGOPTS_0_CPHA_0_BIT = 30"
definition SPI_HOST_CONFIGOPTS_0_CPOL_0_BIT :: u32 where [reg_defs]: "SPI_HOST_CONFIGOPTS_0_CPOL_0_BIT = 31"
definition SPI_HOST_CSID_REG_OFFSET :: u32 where [reg_defs]: "SPI_HOST_CSID_REG_OFFSET = 0x20"
definition SPI_HOST_COMMAND_REG_OFFSET :: u32 where [reg_defs]: "SPI_HOST_COMMAND_REG_OFFSET = 0x24"
definition SPI_HOST_COMMAND_LEN_MASK :: u32 where [reg_defs]: "SPI_HOST_COMMAND_LEN_MASK = 0xffffff"
definition SPI_HOST_COMMAND_LEN_OFFSET :: u32 where [reg_defs]: "SPI_HOST_COMMAND_LEN_OFFSET = 0"
definition SPI_HOST_COMMAND_LEN_FIELD :: bitfield_field32_t where [reg_defs]:
  "SPI_HOST_COMMAND_LEN_FIELD = mk_field SPI_HOST_COMMAND_LEN_MASK SPI_HOST_COMMAND_LEN_OFFSET"
definition SPI_HOST_COMMAND_CSAAT_BIT :: u32 where [reg_defs]: "SPI_HOST_COMMAND_CSAAT_BIT = 24"
definition SPI_HOST_COMMAND_SPEED_MASK :: u32 where [reg_defs]: "SPI_HOST_COMMAND_SPEED_MASK = 0x3"
definition SPI_HOST_COMMAND_SPEED_OFFSET :: u32 where [reg_defs]: "SPI_HOST_COMMAND_SPEED_OFFSET = 25"
definition SPI_HOST_COMMAND_SPEED_FIELD :: bitfield_field32_t where [reg_defs]:
  "SPI_HOST_COMMAND_SPEED_FIELD = mk_field SPI_HOST_COMMAND_SPEED_MASK SPI_HOST_COMMAND_SPEED_OFFSET"
definition SPI_HOST_COMMAND_DIRECTION_MASK :: u32 where [reg_defs]: "SPI_HOST_COMMAND_DIRECTION_MASK = 0x3"
definition SPI_HOST_COMMAND_DIRECTION_OFFSET :: u32 where [reg_defs]: "SPI_HOST_COMMAND_DIRECTION_OFFSET = 27"
definition SPI_HOST_COMMAND_DIRECTION_FIELD :: bitfield_field32_t where [reg_defs]:
  "SPI_HOST_COMMAND_DIRECTION_FIELD = mk_field SPI_HOST_COMMAND_DIRECTION_MASK SPI_HOST_COMMAND_DIRECTION_OFFSET"
definition SPI_HOST_RXDATA_REG_OFFSET :: u32 where [reg_defs]: "SPI_HOST_RXDATA_REG_OFFSET = 0x28"
definition SPI_HOST_TXDATA_REG_OFFSET :: u32 where [reg_defs]: "SPI_HOST_TXDATA_REG_OFFSET = 0x2c"
definition SPI_HOST_EVENT_ENABLE_REG_OFFSET :: u32 where [reg_defs]: "SPI_HOST_EVENT_ENABLE_REG_OFFSET = 0x38"
definition SPI_HOST_EVENT_ENABLE_TXEMPTY_BIT :: u32 where [reg_defs]: "SPI_HOST_EVENT_ENABLE_TXEMPTY_BIT = 1"
definition SPI_HOST_EVENT_ENABLE_RXWM_BIT :: u32 where [reg_defs]: "SPI_HOST_EVENT_ENABLE_RXWM_BIT = 2"

record spi_host_t =
  spi_base :: mmio_region_t

record spi_ch_status_t =
  ch_empty :: bool
  ch_full :: bool
  ch_wm :: bool
  ch_stall :: bool

datatype spi_speed_e = kSpiSpeedStandard | kSpiSpeedDual | kSpiSpeedQuad
datatype spi_dir_e = kSpiDirDummy | kSpiDirRxOnly | kSpiDirTxOnly | kSpiDirBidir

record spi_configopts_t =
  clkdiv :: u16
  csnidle :: "4 word"
  csntrail :: "4 word"
  csnlead :: "4 word"
  rsvd0 :: bool
  fullcyc :: bool
  cpha :: bool
  cpol :: bool

record spi_command_t =
  cmd_len :: "24 word"
  csaat :: bool
  speed :: spi_speed_e
  direction :: spi_dir_e

fun speed_value :: "spi_speed_e \<Rightarrow> u32" where
  "speed_value kSpiSpeedStandard = 0"
| "speed_value kSpiSpeedDual = 1"
| "speed_value kSpiSpeedQuad = 2"

fun direction_value :: "spi_dir_e \<Rightarrow> u32" where
  "direction_value kSpiDirDummy = 0"
| "direction_value kSpiDirRxOnly = 1"
| "direction_value kSpiDirTxOnly = 2"
| "direction_value kSpiDirBidir = 3"

subsection \<open>Status\<close>

definition spi_get_status :: "device \<Rightarrow> spi_host_t \<Rightarrow> hist \<Rightarrow> u32 \<times> hist" where
  "spi_get_status dev spi h = mmio_region_read32 dev (spi_base spi) SPI_HOST_STATUS_REG_OFFSET h"

definition spi_get_tx_queue_depth :: "device \<Rightarrow> spi_host_t \<Rightarrow> hist \<Rightarrow> u8 \<times> hist" where
  "spi_get_tx_queue_depth dev spi h =
     (let (status_reg, h1) = spi_get_status dev spi h
      in (ucast (bitfield_field32_read status_reg SPI_HOST_STATUS_TXQD_FIELD), h1))"

definition spi_get_tx_channel_status :: "device \<Rightarrow> spi_host_t \<Rightarrow> hist \<Rightarrow> spi_ch_status_t \<times> hist" where
  "spi_get_tx_channel_status dev spi h =
     (let (status_reg, h1) = spi_get_status dev spi h
      in (\<lparr>ch_empty = bitfield_bit32_read status_reg SPI_HOST_STATUS_TXEMPTY_BIT,
           ch_full = bitfield_bit32_read status_reg SPI_HOST_STATUS_TXFULL_BIT,
           ch_wm = bitfield_bit32_read status_reg SPI_HOST_STATUS_TXWM_BIT,
           ch_stall = bitfield_bit32_read status_reg SPI_HOST_STATUS_TXSTALL_BIT\<rparr>, h1))"

definition spi_get_rx_queue_depth :: "device \<Rightarrow> spi_host_t \<Rightarrow> hist \<Rightarrow> u8 \<times> hist" where
  "spi_get_rx_queue_depth dev spi h =
     (let (status_reg, h1) = spi_get_status dev spi h
      in (ucast (bitfield_field32_read status_reg SPI_HOST_STATUS_RXQD_FIELD), h1))"

definition spi_get_rx_channel_status :: "device \<Rightarrow> spi_host_t \<Rightarrow> hist \<Rightarrow> spi_ch_status_t \<times> hist" where
  "spi_get_rx_channel_status dev spi h =
     (let (status_reg, h1) = spi_get_status dev spi h
      in (\<lparr>ch_empty = bitfield_bit32_read status_reg SPI_HOST_STATUS_RXEMPTY_BIT,
           ch_full = bitfield_bit32_read status_reg SPI_HOST_STATUS_RXFULL_BIT,
           ch_wm = bitfield_bit32_read status_reg SPI_HOST_STATUS_RXWM_BIT,
           ch_stall = bitfield_bit32_read status_reg SPI_HOST_STATUS_RXSTALL_BIT\<rparr>, h1))"

definition spi_get_csid :: "device \<Rightarrow> spi_host_t \<Rightarrow> hist \<Rightarrow> u32 \<times> hist" where
  "spi_get_csid dev spi h = mmio_region_read32 dev (spi_base spi) SPI_HOST_CSID_REG_OFFSET h"

definition spi_get_active :: "device \<Rightarrow> spi_host_t \<Rightarrow> hist \<Rightarrow> bool \<times> hist" where
  "spi_get_active dev spi h =
     (let (status_reg, h1) = spi_get_status dev spi h in (bitfield_bit32_read status_reg SPI_HOST_STATUS_ACTIVE_BIT, h1))"

definition spi_get_ready :: "device \<Rightarrow> spi_host_t \<Rightarrow> hist \<Rightarrow> bool \<times> hist" where
  "spi_get_ready dev spi h =
     (let (status_reg, h1) = spi_get_status dev spi h in (bitfield_bit32_read status_reg SPI_HOST_STATUS_READY_BIT, h1))"

subsection \<open>Control\<close>

definition spi_sw_reset :: "device \<Rightarrow> spi_host_t \<Rightarrow> hist \<Rightarrow> hist" where
  "spi_sw_reset dev spi h =
     (let (ctrl_reg, h1) = mmio_region_read32 dev (spi_base spi) SPI_HOST_CONTROL_REG_OFFSET h
      in mmio_region_write32 (spi_base spi) SPI_HOST_CONTROL_REG_OFFSET
           (bitfield_bit32_write ctrl_reg SPI_HOST_CONTROL_SW_RST_BIT True) h1)"

definition spi_set_enable :: "device \<Rightarrow> spi_host_t \<Rightarrow> bool \<Rightarrow> hist \<Rightarrow> hist" where
  "spi_set_enable dev spi enable h =
     (let (ctrl_reg, h1) = mmio_region_read32 dev (spi_base spi) SPI_HOST_CONTROL_REG_OFFSET h
      in mmio_region_write32 (spi_base spi) SPI_HOST_CONTROL_REG_OFFSET
           (bitfield_bit32_write ctrl_reg SPI_HOST_CONTROL_SPIEN_BIT enable) h1)"

definition spi_set_tx_watermark :: "device \<Rightarrow> spi_host_t \<Rightarrow> u8 \<Rightarrow> hist \<Rightarrow> hist" where
  "spi_set_tx_watermark dev spi watermark h =
     (let (ctrl_reg, h1) = mmio_region_read32 dev (spi_base spi) SPI_HOST_CONTROL_REG_OFFSET h
      in mmio_region_write32 (spi_base spi) SPI_HOST_CONTROL_REG_OFFSET
           (bitfield_field32_write ctrl_reg SPI_HOST_CONTROL_TX_WATERMARK_FIELD (ucast watermark)) h1)"

definition spi_set_rx_watermark :: "device \<Rightarrow> spi_host_t \<Rightarrow> u8 \<Rightarrow> hist \<Rightarrow> hist" where
  "spi_set_rx_watermark dev spi watermark h =
     (let (ctrl_reg, h1) = mmio_region_read32 dev (spi_base spi) SPI_HOST_CONTROL_REG_OFFSET h
      in mmio_region_write32 (spi_base spi) SPI_HOST_CONTROL_REG_OFFSET
           (bitfield_field32_write ctrl_reg SPI_HOST_CONTROL_RX_WATERMARK_FIELD (ucast watermark)) h1)"

definition spi_set_configopts :: "spi_host_t \<Rightarrow> u32 \<Rightarrow> u32 \<Rightarrow> hist \<Rightarrow> hist" where
  "spi_set_configopts spi csid conf_reg h =
     mmio_region_write32 (spi_base spi) (4 * csid + SPI_HOST_CONFIGOPTS_0_REG_OFFSET) conf_reg h"

definition spi_set_csid :: "spi_host_t \<Rightarrow> u32 \<Rightarrow> hist \<Rightarrow> hist" where
  "spi_set_csid spi csid h = mmio_region_write32 (spi_base spi) SPI_HOST_CSID_REG_OFFSET csid h"

definition spi_set_command :: "spi_host_t \<Rightarrow> u32 \<Rightarrow> hist \<Rightarrow> hist" where
  "spi_set_command spi cmd_reg h = mmio_region_write32 (spi_base spi) SPI_HOST_COMMAND_REG_OFFSET cmd_reg h"

definition spi_write_word :: "spi_host_t \<Rightarrow> u32 \<Rightarrow> hist \<Rightarrow> hist" where
  "spi_write_word spi wdata h = mmio_region_write32 (spi_base spi) SPI_HOST_TXDATA_REG_OFFSET wdata h"

definition spi_read_word :: "device \<Rightarrow> spi_host_t \<Rightarrow> hist \<Rightarrow> u32 \<times> hist" where
  "spi_read_word dev spi h = mmio_region_read32 dev (spi_base spi) SPI_HOST_RXDATA_REG_OFFSET h"

subsection \<open>Interrupts and output\<close>

definition spi_enable_evt_intr :: "device \<Rightarrow> spi_host_t \<Rightarrow> bool \<Rightarrow> hist \<Rightarrow> hist" where
  "spi_enable_evt_intr dev spi enable h =
     (let (intr_enable_reg, h1) = mmio_region_read32 dev (spi_base spi) SPI_HOST_INTR_ENABLE_REG_OFFSET h
      in mmio_region_write32 (spi_base spi) SPI_HOST_INTR_ENABLE_REG_OFFSET
           (bitfield_bit32_write intr_enable_reg SPI_HOST_INTR_ENABLE_SPI_EVENT_BIT enable) h1)"

definition spi_enable_error_intr :: "device \<Rightarrow> spi_host_t \<Rightarrow> bool \<Rightarrow> hist \<Rightarrow> hist" where
  "spi_enable_error_intr dev spi enable h =
     (let (intr_enable_reg, h1) = mmio_region_read32 dev (spi_base spi) SPI_HOST_INTR_ENABLE_REG_OFFSET h
      in mmio_region_write32 (spi_base spi) SPI_HOST_INTR_ENABLE_REG_OFFSET
           (bitfield_bit32_write intr_enable_reg SPI_HOST_INTR_STATE_ERROR_BIT enable) h1)"

definition spi_enable_rxwm_intr :: "device \<Rightarrow> spi_host_t \<Rightarrow> bool \<Rightarrow> hist \<Rightarrow> hist" where
  "spi_enable_rxwm_intr dev spi enable h =
     (let (intr_enable_reg, h1) = mmio_region_read32 dev (spi_base spi) SPI_HOST_EVENT_ENABLE_REG_OFFSET h
      in mmio_region_write32 (spi_base spi) SPI_HOST_EVENT_ENABLE_REG_OFFSET
           (bitfield_bit32_write intr_enable_reg SPI_HOST_EVENT_ENABLE_RXWM_BIT enable) h1)"

definition spi_enable_txempty_intr :: "device \<Rightarrow> spi_host_t \<Rightarrow> bool \<Rightarrow> hist \<Rightarrow> hist" where
  "spi_enable_txempty_intr dev spi enable h =
     (let (intr_enable_reg, h1) = mmio_region_read32 dev (spi_base spi) SPI_HOST_EVENT_ENABLE_REG_OFFSET h
      in mmio_region_write32 (spi_base spi) SPI_HOST_EVENT_ENABLE_REG_OFFSET
           (bitfield_bit32_write intr_enable_reg SPI_HOST_EVENT_ENABLE_TXEMPTY_BIT enable) h1)"

definition spi_output_enable :: "device \<Rightarrow> spi_host_t \<Rightarrow> bool \<Rightarrow> hist \<Rightarrow> hist" where
  "spi_output_enable dev spi enable h =
     (let (output_enable_reg, h1) = mmio_region_read32 dev (spi_base spi) SPI_HOST_CONTROL_REG_OFFSET h
      in mmio_region_write32 (spi_base spi) SPI_HOST_CONTROL_REG_OFFSET
           (bitfield_bit32_write output_enable_reg SPI_HOST_CONTROL_OUTPUT_EN_BIT enable) h1)"

subsection \<open>Waiting\<close>

definition spi_wait_for_ready :: "device \<Rightarrow> spi_host_t \<Rightarrow> hist \<Rightarrow> hist option" where
  "spi_wait_for_ready dev spi h = wait_while (\<lambda>h. let (b, h1) = spi_get_ready dev spi h in (\<not> b, h1)) h"

definition spi_wait_for_tx_watermark :: "device \<Rightarrow> spi_host_t \<Rightarrow> hist \<Rightarrow> hist option" where
  "spi_wait_for_tx_watermark dev spi h = wait_while (\<lambda>h. let (b, h1) =
     mmio_region_get_bit32 dev (spi_base spi) SPI_HOST_STATUS_REG_OFFSET SPI_HOST_STATUS_TXWM_BIT h in (\<not> b, h1)) h"

definition spi_wait_for_tx_empty :: "device \<Rightarrow> spi_host_t \<Rightarrow> hist \<Rightarrow> hist option" where
  "spi_wait_for_tx_empty dev spi h = wait_while (\<lambda>h. let (b, h1) =
     mmio_region_get_bit32 dev (spi_base spi) SPI_HOST_STATUS_REG_OFFSET SPI_HOST_STATUS_TXEMPTY_BIT h in (\<not> b, h1)) h"

definition spi_wait_for_tx_not_empty :: "device \<Rightarrow> spi_host_t \<Rightarrow> hist \<Rightarrow> hist option" where
  "spi_wait_for_tx_not_empty dev spi h = wait_while
     (mmio_region_get_bit32 dev (spi_base spi) SPI_HOST_STATUS_REG_OFFSET SPI_HOST_STATUS_TXEMPTY_BIT) h"

definition spi_wait_for_rx_watermark :: "device \<Rightarrow> spi_host_t \<Rightarrow> hist \<Rightarrow> hist option" where
  "spi_wait_for_rx_watermark dev spi h = wait_while (\<lambda>h. let (b, h1) =
     mmio_region_get_bit32 dev (spi_base spi) SPI_HOST_STATUS_REG_OFFSET SPI_HOST_STATUS_RXWM_BIT h in (\<not> b, h1)) h"

lemmas spi_defs =
  spi_get_status_def spi_get_ready_def spi_set_enable_def spi_set_configopts_def spi_set_csid_def spi_set_command_def
  spi_write_word_def spi_enable_evt_intr_def spi_enable_rxwm_intr_def spi_enable_txempty_intr_def spi_output_enable_def

text \<open>Every wait polls one bit of the status register.\<close>

definition status_bit :: "device \<Rightarrow> spi_host_t \<Rightarrow> u32 \<Rightarrow> bool \<Rightarrow> hist \<Rightarrow> bool \<times> hist" where
  "status_bit dev spi k b = reg_cond dev (spi_base spi) SPI_HOST_STATUS_REG_OFFSET (\<lambda>v. bit v (unat k) \<noteq> b)"

lemma spi_waits:
  "spi_wait_for_ready dev spi = wait_while (status_bit dev spi SPI_HOST_STATUS_READY_BIT True)"
  "spi_wait_for_tx_watermark dev spi = wait_while (status_bit dev spi SPI_HOST_STATUS_TXWM_BIT True)"
  "spi_wait_for_tx_empty dev spi = wait_while (status_bit dev spi SPI_HOST_STATUS_TXEMPTY_BIT True)"
  "spi_wait_for_tx_not_empty dev spi = wait_while (status_bit dev spi SPI_HOST_STATUS_TXEMPTY_BIT False)"
  "spi_wait_for_rx_watermark dev spi = wait_while (status_bit dev spi SPI_HOST_STATUS_RXWM_BIT True)"
proof -
  have g: "(\<lambda>h. let (b, h1) = mmio_region_get_bit32 dev (spi_base spi) SPI_HOST_STATUS_REG_OFFSET k h in (\<not> b, h1)) =
      status_bit dev spi k True"
    "mmio_region_get_bit32 dev (spi_base spi) SPI_HOST_STATUS_REG_OFFSET k = status_bit dev spi k False"
    "(\<lambda>h. let (b, h1) = spi_get_ready dev spi h in (\<not> b, h1)) = status_bit dev spi SPI_HOST_STATUS_READY_BIT True" for k
    by (simp_all add: fun_eq_iff status_bit_def reg_cond_def mmio_region_get_bit32_def spi_get_ready_def spi_get_status_def
        bit32_read_bit case_prod_beta Let_def)
  have n: "(\<lambda>h. let (b, h1) = status_bit dev spi k False h in (\<not> b, h1)) = status_bit dev spi k True" for k
    by (simp add: fun_eq_iff status_bit_def reg_cond_def case_prod_beta Let_def)
  show "spi_wait_for_ready dev spi = wait_while (status_bit dev spi SPI_HOST_STATUS_READY_BIT True)"
    "spi_wait_for_tx_watermark dev spi = wait_while (status_bit dev spi SPI_HOST_STATUS_TXWM_BIT True)"
    "spi_wait_for_tx_empty dev spi = wait_while (status_bit dev spi SPI_HOST_STATUS_TXEMPTY_BIT True)"
    "spi_wait_for_tx_not_empty dev spi = wait_while (status_bit dev spi SPI_HOST_STATUS_TXEMPTY_BIT False)"
    "spi_wait_for_rx_watermark dev spi = wait_while (status_bit dev spi SPI_HOST_STATUS_RXWM_BIT True)"
    unfolding fun_eq_iff spi_wait_for_ready_def spi_wait_for_tx_watermark_def spi_wait_for_tx_empty_def
      spi_wait_for_tx_not_empty_def spi_wait_for_rx_watermark_def g n by simp_all
qed

subsection \<open>Configuration and command words\<close>

definition spi_create_configopts :: "spi_configopts_t \<Rightarrow> u32" where
  "spi_create_configopts configopts =
     (let conf_reg = 0;
          conf_reg = bitfield_field32_write conf_reg SPI_HOST_CONFIGOPTS_0_CLKDIV_0_FIELD (ucast (clkdiv configopts));
          conf_reg = bitfield_field32_write conf_reg SPI_HOST_CONFIGOPTS_0_CSNIDLE_0_FIELD (ucast (csnidle configopts));
          conf_reg = bitfield_field32_write conf_reg SPI_HOST_CONFIGOPTS_0_CSNTRAIL_0_FIELD (ucast (csntrail configopts));
          conf_reg = bitfield_field32_write conf_reg SPI_HOST_CONFIGOPTS_0_CSNLEAD_0_FIELD (ucast (csnlead configopts));
          conf_reg = bitfield_bit32_write conf_reg SPI_HOST_CONFIGOPTS_0_FULLCYC_0_BIT (fullcyc configopts);
          conf_reg = bitfield_bit32_write conf_reg SPI_HOST_CONFIGOPTS_0_CPHA_0_BIT (cpha configopts);
          conf_reg = bitfield_bit32_write conf_reg SPI_HOST_CONFIGOPTS_0_CPOL_0_BIT (cpol configopts)
      in conf_reg)"

definition spi_create_command :: "spi_command_t \<Rightarrow> u32" where
  "spi_create_command command =
     (let cmd_reg = 0;
          cmd_reg = bitfield_field32_write cmd_reg SPI_HOST_COMMAND_LEN_FIELD (ucast (cmd_len command));
          cmd_reg = bitfield_bit32_write cmd_reg SPI_HOST_COMMAND_CSAAT_BIT (csaat command);
          cmd_reg = bitfield_field32_write cmd_reg SPI_HOST_COMMAND_SPEED_FIELD (speed_value (speed command));
          cmd_reg = bitfield_field32_write cmd_reg SPI_HOST_COMMAND_DIRECTION_FIELD (direction_value (direction command))
      in cmd_reg)"

lemma mask_values:
  "(0xffffff :: u32) = mask 24" "(0xffff :: u32) = mask 16" "(0xff :: u32) = mask 8" "(0xf :: u32) = mask 4" "(3 :: u32) = mask 2"
  "(1 :: u32) = mask 1"
  by (simp_all add: mask_eq_exp_minus_1)

lemma bit_field_mask:
  assumes "n < 32" "m \<le> 32"
  shows "bit (bitfield_field32_write b \<lparr>bf_mask = mask m, bf_index = i\<rparr> v) n =
    (if unat i \<le> n \<and> n < unat i + m then bit v (n - unat i) else bit b n)"
  using assms by (auto simp: bit_field32_write bit_field_bits bit_mask_iff)

lemma enum_bits:
  "bit (speed_value s) n \<Longrightarrow> n < 2" "bit (direction_value d) n \<Longrightarrow> n < 2"
proof -
  have "take_bit 2 (speed_value s) = speed_value s" "take_bit 2 (direction_value d) = direction_value d"
    by (cases s; cases d; simp add: take_bit_eq_mod)+
  then show "bit (speed_value s) n \<Longrightarrow> n < 2" "bit (direction_value d) n \<Longrightarrow> n < 2" by (metis bit_take_bit_iff)+
qed

lemma enum_values_inj: "speed_value s = speed_value t \<longleftrightarrow> s = t" "direction_value d = direction_value e \<longleftrightarrow> d = e"
proof -
  show "speed_value s = speed_value t \<longleftrightarrow> s = t" by (cases s; cases t) simp_all
  show "direction_value d = direction_value e \<longleftrightarrow> d = e" by (cases d; cases e) simp_all
qed

lemma command_bits:
  "bit (spi_create_command c) n \<longleftrightarrow>
     (if n < 24 then bit (cmd_len c) n else if n = 24 then csaat c else if n < 27 then bit (speed_value (speed c)) (n - 25)
      else if n < 29 then bit (direction_value (direction c)) (n - 27) else False)"
proof (cases "n < 32")
  case True
  have u: "unat (24 :: u32) = 24" "unat (25 :: u32) = 25" "unat (27 :: u32) = 27" by simp_all
  show ?thesis
    using True unfolding spi_create_command_def reg_defs mask_values(1,5) Let_def
    by (auto simp: bit_field_mask bit32_write_bit bit_ucast_iff u)
next
  case False
  then have "\<not> bit (spi_create_command c) n" using bit_imp_le_length [of "spi_create_command c" n] by auto
  with False show ?thesis by simp
qed

lemma configopts_bits:
  "bit (spi_create_configopts c) n \<longleftrightarrow>
     (if n < 16 then bit (clkdiv c) n else if n < 20 then bit (csnidle c) (n - 16) else if n < 24 then bit (csntrail c) (n - 20)
      else if n < 28 then bit (csnlead c) (n - 24) else if n = 28 then False else if n = 29 then fullcyc c
      else if n = 30 then cpha c else if n = 31 then cpol c else False)"
proof (cases "n < 32")
  case True
  have u: "unat (16 :: u32) = 16" "unat (20 :: u32) = 20" "unat (24 :: u32) = 24" "unat (29 :: u32) = 29"
    "unat (30 :: u32) = 30" "unat (31 :: u32) = 31" by simp_all
  show ?thesis
    using True unfolding spi_create_configopts_def reg_defs mask_values(2,4) Let_def
    by (auto simp: bit_field_mask bit32_write_bit bit_ucast_iff u)
next
  case False
  then have "\<not> bit (spi_create_configopts c) n" using bit_imp_le_length [of "spi_create_configopts c" n] by auto
  with False show ?thesis by simp
qed

text \<open>No two commands share a command word: the length, the chip-select flag, the speed and the direction each have bits of
  their own, and nothing is lost; the configuration word determines every
  member but the reserved one, whose bit is always zero.\<close>

theorem spi_words_faithful:
  "(spi_create_command c = spi_create_command d \<longleftrightarrow> c = d) \<and>
   (spi_create_configopts a = spi_create_configopts b \<longleftrightarrow> a\<lparr>rsvd0 := False\<rparr> = b\<lparr>rsvd0 := False\<rparr>) \<and>
   \<not> bit (spi_create_configopts a) 28"
proof -
  have bits: "bit x n = bit y n" if "x = y" for x y :: u32 and n using that by simp
  have "c = d" if e: "spi_create_command c = spi_create_command d"
  proof -
    note b = bits [OF e, unfolded command_bits]
    have "cmd_len c = cmd_len d"
    proof (rule bit_word_eqI)
      fix n assume "n < LENGTH(24)"
      then show "bit (cmd_len c) n = bit (cmd_len d) n" using b [of n] by simp
    qed
    moreover have "csaat c = csaat d" using b [of 24] by simp
    moreover have "speed_value (speed c) = speed_value (speed d)"
    proof (rule bit_word_eqI)
      fix n show "bit (speed_value (speed c)) n = bit (speed_value (speed d)) n"
        using b [of "n + 25"] enum_bits(1) [of _ n] by (cases "n < 2") auto
    qed
    moreover have "direction_value (direction c) = direction_value (direction d)"
    proof (rule bit_word_eqI)
      fix n show "bit (direction_value (direction c)) n = bit (direction_value (direction d)) n"
        using b [of "n + 27"] enum_bits(2) [of _ n] by (cases "n < 2") auto
    qed
    ultimately show ?thesis by (simp add: enum_values_inj)
  qed
  moreover have "a\<lparr>rsvd0 := False\<rparr> = b\<lparr>rsvd0 := False\<rparr>" if e: "spi_create_configopts a = spi_create_configopts b"
  proof -
    note b = bits [OF e, unfolded configopts_bits]
    have "clkdiv a = clkdiv b"
    proof (rule bit_word_eqI)
      fix n assume "n < LENGTH(16)"
      then show "bit (clkdiv a) n = bit (clkdiv b) n" using b [of n] by simp
    qed
    moreover have "csnidle a = csnidle b"
    proof (rule bit_word_eqI)
      fix n assume "n < LENGTH(4)"
      then show "bit (csnidle a) n = bit (csnidle b) n" using b [of "n + 16"] by simp
    qed
    moreover have "csntrail a = csntrail b"
    proof (rule bit_word_eqI)
      fix n assume "n < LENGTH(4)"
      then show "bit (csntrail a) n = bit (csntrail b) n" using b [of "n + 20"] by simp
    qed
    moreover have "csnlead a = csnlead b"
    proof (rule bit_word_eqI)
      fix n assume "n < LENGTH(4)"
      then show "bit (csnlead a) n = bit (csnlead b) n" using b [of "n + 24"] by simp
    qed
    moreover have "fullcyc a = fullcyc b" "cpha a = cpha b" "cpol a = cpol b" using b [of 29] b [of 30] b [of 31] by simp_all
    ultimately show ?thesis by simp
  qed
  moreover have "spi_create_configopts a = spi_create_configopts b" if "a\<lparr>rsvd0 := False\<rparr> = b\<lparr>rsvd0 := False\<rparr>"
    using arg_cong [OF that, of spi_create_configopts] by (simp add: spi_create_configopts_def)
  moreover have "\<not> bit (spi_create_configopts a) 28" by (simp add: configopts_bits)
  ultimately show ?thesis by blast
qed

end
