(* ===== verification/Small_Drivers.thy ===== *)
theory Small_Drivers
  imports Regs
begin

text \<open>
  The drivers whose operations are one register access each: the DMA controller (\<^verbatim>\<open>dma.c\<close>), the pad multiplexer
  (\<^verbatim>\<open>pad_control.c\<close>) and the fast interrupt controller (\<^verbatim>\<open>fast_intr_ctrl.c\<close>), all under \<^verbatim>\<open>sw/riscv/lib/hal\<close>.
\<close>

subsection \<open>DMA\<close>

definition DMA_PTR_IN_REG_OFFSET :: u32 where [reg_defs]: "DMA_PTR_IN_REG_OFFSET = 0x0"
definition DMA_PTR_OUT_REG_OFFSET :: u32 where [reg_defs]: "DMA_PTR_OUT_REG_OFFSET = 0x4"
definition DMA_DMA_START_REG_OFFSET :: u32 where [reg_defs]: "DMA_DMA_START_REG_OFFSET = 0x8"
definition DMA_DONE_REG_OFFSET :: u32 where [reg_defs]: "DMA_DONE_REG_OFFSET = 0xc"
definition DMA_SRC_PTR_INC_REG_OFFSET :: u32 where [reg_defs]: "DMA_SRC_PTR_INC_REG_OFFSET = 0x10"
definition DMA_DST_PTR_INC_REG_OFFSET :: u32 where [reg_defs]: "DMA_DST_PTR_INC_REG_OFFSET = 0x14"
definition DMA_SPI_MODE_REG_OFFSET :: u32 where [reg_defs]: "DMA_SPI_MODE_REG_OFFSET = 0x18"
definition DMA_DATA_TYPE_REG_OFFSET :: u32 where [reg_defs]: "DMA_DATA_TYPE_REG_OFFSET = 0x1c"

record dma_t =
  dma_base :: mmio_region_t

definition dma_set_read_ptr :: "dma_t \<Rightarrow> u32 \<Rightarrow> hist \<Rightarrow> hist" where
  "dma_set_read_ptr dma read_ptr h = mmio_region_write32 (dma_base dma) DMA_PTR_IN_REG_OFFSET read_ptr h"

definition dma_set_write_ptr :: "dma_t \<Rightarrow> u32 \<Rightarrow> hist \<Rightarrow> hist" where
  "dma_set_write_ptr dma write_ptr h = mmio_region_write32 (dma_base dma) DMA_PTR_OUT_REG_OFFSET write_ptr h"

definition dma_set_cnt_start :: "dma_t \<Rightarrow> u32 \<Rightarrow> hist \<Rightarrow> hist" where
  "dma_set_cnt_start dma copy_size h = mmio_region_write32 (dma_base dma) DMA_DMA_START_REG_OFFSET copy_size h"

text \<open>The result is the register's word, read by the caller as a signed number.\<close>

definition dma_get_done :: "device \<Rightarrow> dma_t \<Rightarrow> hist \<Rightarrow> u32 \<times> hist" where
  "dma_get_done dev dma h = mmio_region_read32 dev (dma_base dma) DMA_DONE_REG_OFFSET h"

definition dma_set_read_ptr_inc :: "dma_t \<Rightarrow> u32 \<Rightarrow> hist \<Rightarrow> hist" where
  "dma_set_read_ptr_inc dma read_ptr_inc h = mmio_region_write32 (dma_base dma) DMA_SRC_PTR_INC_REG_OFFSET read_ptr_inc h"

definition dma_set_write_ptr_inc :: "dma_t \<Rightarrow> u32 \<Rightarrow> hist \<Rightarrow> hist" where
  "dma_set_write_ptr_inc dma write_ptr_inc h = mmio_region_write32 (dma_base dma) DMA_DST_PTR_INC_REG_OFFSET write_ptr_inc h"

definition dma_set_spi_mode :: "dma_t \<Rightarrow> u32 \<Rightarrow> hist \<Rightarrow> hist" where
  "dma_set_spi_mode dma spi_mode h = mmio_region_write32 (dma_base dma) DMA_SPI_MODE_REG_OFFSET spi_mode h"

definition dma_set_data_type :: "dma_t \<Rightarrow> u32 \<Rightarrow> hist \<Rightarrow> hist" where
  "dma_set_data_type dma data_type h = mmio_region_write32 (dma_base dma) DMA_DATA_TYPE_REG_OFFSET data_type h"

lemmas dma_defs =
  dma_set_read_ptr_def dma_set_write_ptr_def dma_set_cnt_start_def dma_get_done_def dma_set_read_ptr_inc_def
  dma_set_write_ptr_inc_def dma_set_spi_mode_def dma_set_data_type_def

subsection \<open>Pad multiplexer\<close>

record pad_control_t =
  pad_base :: mmio_region_t

definition pad_control_set_mux :: "pad_control_t \<Rightarrow> u32 \<Rightarrow> u8 \<Rightarrow> hist \<Rightarrow> hist" where
  "pad_control_set_mux pad_control mux_addr_offset select h =
     mmio_region_write32 (pad_base pad_control) mux_addr_offset (ucast select) h"

definition pad_control_get_mux :: "device \<Rightarrow> pad_control_t \<Rightarrow> u32 \<Rightarrow> hist \<Rightarrow> u8 \<times> hist" where
  "pad_control_get_mux dev pad_control mux_addr_offset h =
     (let (v, h1) = mmio_region_read32 dev (pad_base pad_control) mux_addr_offset h in (ucast v, h1))"

definition pad_control_set_attribute :: "pad_control_t \<Rightarrow> u32 \<Rightarrow> u8 \<Rightarrow> hist \<Rightarrow> hist" where
  "pad_control_set_attribute pad_control attribute_addr_offset value h =
     mmio_region_write32 (pad_base pad_control) attribute_addr_offset (ucast value) h"

definition pad_control_get_attribute :: "device \<Rightarrow> pad_control_t \<Rightarrow> u32 \<Rightarrow> hist \<Rightarrow> u8 \<times> hist" where
  "pad_control_get_attribute dev pad_control attribute_addr_offset h =
     (let (v, h1) = mmio_region_read32 dev (pad_base pad_control) attribute_addr_offset h in (ucast v, h1))"

lemma pad_mux_reads_back:
  "fst (pad_control_get_mux (storage_dev m0) pad off (pad_control_set_mux pad off sel h)) = sel"
proof -
  have "ucast (ucast sel :: u32) = sel" by (rule bit_word_eqI) (simp add: bit_ucast_iff)
  then show ?thesis by (simp add: pad_control_get_mux_def pad_control_set_mux_def mmio_defs)
qed

subsection \<open>Fast interrupt controller\<close>

definition FAST_INTR_CTRL_FAST_INTR_CLEAR_REG_OFFSET :: u32 where [reg_defs]: "FAST_INTR_CTRL_FAST_INTR_CLEAR_REG_OFFSET = 0x4"

record fast_intr_ctrl_t =
  fic_base :: mmio_region_t

datatype fast_intr_ctrl_result_t = kFastIntrCtrlOk_e | kFastIntrCtrlError_e

datatype fast_intr_ctrl_fast_interrupt_t =
    kTimer_1_fic_e | kTimer_2_fic_e | kTimer_3_fic_e | kDma_fic_e | kSpi_fic_e | kSpiFlash_fic_e
  | kGpio_0_fic_e | kGpio_1_fic_e | kGpio_2_fic_e | kGpio_3_fic_e | kGpio_4_fic_e | kGpio_5_fic_e | kGpio_6_fic_e | kGpio_7_fic_e

fun fic_index :: "fast_intr_ctrl_fast_interrupt_t \<Rightarrow> u32" where
  "fic_index kTimer_1_fic_e = 0"
| "fic_index kTimer_2_fic_e = 1"
| "fic_index kTimer_3_fic_e = 2"
| "fic_index kDma_fic_e = 3"
| "fic_index kSpi_fic_e = 4"
| "fic_index kSpiFlash_fic_e = 5"
| "fic_index kGpio_0_fic_e = 6"
| "fic_index kGpio_1_fic_e = 7"
| "fic_index kGpio_2_fic_e = 8"
| "fic_index kGpio_3_fic_e = 9"
| "fic_index kGpio_4_fic_e = 10"
| "fic_index kGpio_5_fic_e = 11"
| "fic_index kGpio_6_fic_e = 12"
| "fic_index kGpio_7_fic_e = 13"

definition clear_fast_interrupt ::
  "fast_intr_ctrl_t \<Rightarrow> fast_intr_ctrl_fast_interrupt_t \<Rightarrow> hist \<Rightarrow> fast_intr_ctrl_result_t \<times> hist" where
  "clear_fast_interrupt fast_intr_ctrl fast_interrupt h =
     (let reg = 0; reg = bitfield_bit32_write reg (fic_index fast_interrupt) True
      in (kFastIntrCtrlOk_e, mmio_region_write32 (fic_base fast_intr_ctrl) FAST_INTR_CTRL_FAST_INTR_CLEAR_REG_OFFSET reg h))"

text \<open>Exactly the bit of the given interrupt is written.\<close>

lemma clear_fast_interrupt_bit:
  "\<exists>v. snd (clear_fast_interrupt fic i h) = h @ [Wr32 (reg_addr (fic_base fic) FAST_INTR_CTRL_FAST_INTR_CLEAR_REG_OFFSET) v] \<and>
     (\<forall>n. bit v n \<longleftrightarrow> n = unat (fic_index i))"
proof -
  have "bit (bitfield_bit32_write 0 (fic_index i) True) n \<longleftrightarrow> n = unat (fic_index i)" for n
  proof (cases "n < 32")
    case True
    then show ?thesis by (simp add: bit32_write_bit)
  next
    case False
    have "unat (fic_index i) < 32" by (cases i) simp_all
    then show ?thesis using False bit_imp_le_length [of "bitfield_bit32_write 0 (fic_index i) True" n] by auto
  qed
  then show ?thesis by (auto simp: clear_fast_interrupt_def mmio_defs)
qed

end
