(* ===== verification/Board_Tests.thy ===== *)
theory Board_Tests
  imports App Gpio Regs
begin

text \<open>
  The small programs of \<^verbatim>\<open>sw/riscv/apps\<close> that exercise the emulated board: the pins
  (\<^verbatim>\<open>virtual_gpio_read\<close>, \<^verbatim>\<open>virtual_gpio_write\<close>), the external bus slave (\<^verbatim>\<open>virtual_obi_read\<close>, \<^verbatim>\<open>virtual_obi_write\<close>), the external memory
  (\<^verbatim>\<open>virtual_ddr\<close>), and \<^verbatim>\<open>hello_world\<close> with its variants that mark the measured region on a pin. A program is its exit
  status, the text it prints and its accesses.
\<close>

definition EXIT_SUCCESS :: int where "EXIT_SUCCESS = 0"
definition EXIT_FAILURE :: int where "EXIT_FAILURE = 1"

definition GPIO_START_ADDRESS :: u32 where "GPIO_START_ADDRESS = 0x30000000 + 0x00020000"
definition EXT_SLAVE_START_ADDRESS :: u32 where "EXT_SLAVE_START_ADDRESS = 0xF0000000"

definition lf_cr :: string where "lf_cr = [CHR 0x0A, CHR 0x0D]"

definition fmt_int :: "int \<Rightarrow> string" where
  "fmt_int i = (if i < 0 then CHR ''-'' # fmt_u 10 (nat (- i)) else fmt_u 10 (nat i))"

definition fmt_upper_hex :: "u32 \<Rightarrow> string" where
  "fmt_upper_hex v = map (\<lambda>c. if of_char c \<ge> (97 :: nat) then char_of (of_char c - (32 :: nat)) else c) (fmt_u 16 (unat v))"

definition fmt_upper_hex8 :: "u32 \<Rightarrow> string" where
  "fmt_upper_hex8 v = (let d = fmt_upper_hex v in replicate (8 - length d) (CHR ''0'') @ d)"

type_synonym run = "int \<times> string \<times> hist"

subsection \<open>Pins\<close>

definition init_gpio :: "u32 \<Rightarrow> gpio_t option" where
  "init_gpio base = snd (gpio_init (mmio_region_from_addr base) (Some \<lparr>gpio_base = \<lparr>mr_base = 0\<rparr>\<rparr>))"

text \<open>One of the two loops of the reading program: \<open>Some\<close> message when it stops at a pin.\<close>

fun read_pins :: "device \<Rightarrow> u32 \<Rightarrow> string \<Rightarrow> nat list \<Rightarrow> hist \<Rightarrow> string option \<times> hist" where
  "read_pins dev base name [] h = (None, h)"
| "read_pins dev base name (i # is) h =
     (let gpio = init_gpio base;
          (gpio_res, h) = gpio_input_enabled dev gpio (of_nat i) kGpioToggleEnabled h;
          (gpio_res, read_from_pin, h) = gpio_read dev gpio (of_nat i) (Some False) h
      in if read_from_pin \<noteq> Some True
         then (Some (''An element does not match!'' @ ''Not matching at '' @ name @ '' at pin '' @ fmt_u 10 i), h)
         else read_pins dev base name is h)"

definition gpio_read_main :: "device \<Rightarrow> hist \<Rightarrow> run" where
  "gpio_read_main dev h =
     (case read_pins dev GPIO_AO_START_ADDRESS ''GPIO-AO'' [2..<8] h of
        (Some msg, h) \<Rightarrow> (EXIT_FAILURE, msg, h)
      | (None, h) \<Rightarrow>
          (case read_pins dev GPIO_START_ADDRESS ''GPIO'' [8..<32] h of
             (Some msg, h) \<Rightarrow> (EXIT_FAILURE, msg, h)
           | (None, h) \<Rightarrow> (EXIT_SUCCESS, ''Read operation successful.'', h)))"

fun write_pins :: "device \<Rightarrow> u32 \<Rightarrow> nat list \<Rightarrow> hist \<Rightarrow> string \<times> hist" where
  "write_pins dev base [] h = ([], h)"
| "write_pins dev base (i # is) h =
     (let gpio = init_gpio base;
          (gpio_res, h) = gpio_output_set_enabled dev gpio (of_nat i) kGpioToggleEnabled h;
          (gpio_res, h) = gpio_write dev gpio (of_nat i) (i mod 2 = 0) h;
          (rest, h) = write_pins dev base is h
      in (''Written '' @ (if i mod 2 = 0 then ''true'' else ''false'') @ '' to pin '' @ fmt_u 10 i @ '' '' @ [CHR 0x0A] @ rest, h))"

definition gpio_write_main :: "device \<Rightarrow> hist \<Rightarrow> run" where
  "gpio_write_main dev h =
     (let (t1, h) = write_pins dev GPIO_AO_START_ADDRESS [2..<8] h;
          (t2, h) = write_pins dev GPIO_START_ADDRESS [8..<32] h
      in (EXIT_SUCCESS, t1 @ t2 @ ''Write operation successful.'', h))"

subsection \<open>External slave\<close>

definition bus_read :: "device \<Rightarrow> u32 \<Rightarrow> hist \<Rightarrow> u32 \<times> hist" where
  "bus_read dev a h = (dev32 dev h a, h @ [Rd32 a (dev32 dev h a)])"

text \<open>The elements from \<open>i\<close> on, \<open>n\<close> of them; the pointer advances by one word.\<close>

fun obi_check :: "device \<Rightarrow> u32 \<Rightarrow> nat \<Rightarrow> nat \<Rightarrow> hist \<Rightarrow> run" where
  "obi_check dev pointer i 0 h = (EXIT_SUCCESS, ''Read operation successful.'', h)"
| "obi_check dev pointer i (Suc n) h =
     (let (value, h) = bus_read dev pointer h
      in if value \<noteq> of_nat (i * i)
         then (EXIT_FAILURE, ''An element does not match!'' @ ''Not matching: '' @ fmt_int (sint value) @ '' -- '' @ fmt_u 10 (i * i), h)
         else obi_check dev (pointer + 4) (i + 1) n h)"

definition obi_read_main :: "device \<Rightarrow> hist \<Rightarrow> run" where
  "obi_read_main dev h = (let (value, h) = bus_read dev EXT_SLAVE_START_ADDRESS h in obi_check dev EXT_SLAVE_START_ADDRESS 0 1024 h)"

fun obi_fill :: "u32 \<Rightarrow> nat \<Rightarrow> nat \<Rightarrow> hist \<Rightarrow> hist" where
  "obi_fill pointer i 0 h = h"
| "obi_fill pointer i (Suc n) h = obi_fill (pointer + 4) (i + 1) n (h @ [Wr32 pointer (of_nat (i * i))])"

definition obi_write_main :: "hist \<Rightarrow> run" where
  "obi_write_main h = (EXIT_SUCCESS, ''Done.'' @ lf_cr, obi_fill EXT_SLAVE_START_ADDRESS 0 1024 h)"

subsection \<open>External memory, and hello world\<close>

text \<open>The contents of the array when it is printed; the loader fills it with \<open>test_array_init\<close>.\<close>

definition test_array_init :: "u32 list" where
  "test_array_init = replicate 4096 0xABABABAB"

definition ddr_main :: "u32 list \<Rightarrow> int \<times> string" where
  "ddr_main test_array = (EXIT_SUCCESS, concat (map (\<lambda>v. ''0x'' @ fmt_upper_hex v) test_array))"

definition hello_world_main :: "int \<times> string" where
  "hello_world_main = (EXIT_SUCCESS, ''Hello World!'' @ lf_cr)"

definition measured_main :: "device \<Rightarrow> hist \<Rightarrow> run" where
  "measured_main dev h =
     (let gpio = init_gpio GPIO_AO_START_ADDRESS;
          (gpio_res, h) = gpio_output_set_enabled dev gpio 1 kGpioToggleEnabled h;
          (gpio_res, h) = gpio_write dev gpio 1 True h;
          (gpio_res, h) = gpio_write dev gpio 1 False h
      in (EXIT_SUCCESS, ''Hello World!'' @ lf_cr, h))"

subsection \<open>Writing and reading back\<close>

definition squares :: "nat \<Rightarrow> nat \<Rightarrow> (nat \<times> u32) list" where
  "squares i n = map (\<lambda>k. (4 * k, of_nat (k * k))) [i..<i + n]"

lemma obi_fill_writes: "obi_fill (at_off base (4 * i)) i n h = h @ writes base (squares i n)"
proof (induction n arbitrary: i h)
  case (Suc n)
  have s: "squares i (Suc n) = (4 * i, of_nat (i * i)) # squares (Suc i) n"
    by (simp add: squares_def upt_conv_Cons del: upt_Suc)
  have a: "at_off base (4 * i) + 4 = at_off base (4 * Suc i)" by (simp add: at_off_def)
  show ?case using Suc.IH [of "Suc i"] unfolding obi_fill.simps a s by simp
qed (simp add: squares_def)

lemma obi_check_succeeds:
  assumes "\<forall>k. i \<le> k \<and> k < i + n \<longrightarrow> regs_after m0 h (at_off base (4 * k)) = of_nat (k * k)"
  shows "\<exists>h'. obi_check (storage_dev m0) (at_off base (4 * i)) i n h = (EXIT_SUCCESS, ''Read operation successful.'', h')"
  using assms
proof (induction n arbitrary: i h)
  case (Suc n)
  have a: "at_off base (4 * i) + 4 = at_off base (4 * Suc i)" by (simp add: at_off_def)
  let ?h = "h @ [Rd32 (at_off base (4 * i)) (regs_after m0 h (at_off base (4 * i)))]"
  have "\<forall>k. Suc i \<le> k \<and> k < Suc i + n \<longrightarrow> regs_after m0 ?h (at_off base (4 * k)) = of_nat (k * k)"
    using Suc.prems by simp
  from Suc.IH [OF this] obtain h' where
    "obi_check (storage_dev m0) (at_off base (4 * Suc i)) (Suc i) n ?h = (EXIT_SUCCESS, ''Read operation successful.'', h')" by blast
  moreover have "regs_after m0 h (at_off base (4 * i)) = of_nat (i * i)" using Suc.prems by simp
  ultimately show ?case unfolding obi_check.simps a by (simp add: bus_read_def)
qed simp

text \<open>The two programs for the external slave fit together: on a slave that is memory, whatever it held and
  whatever was accessed before, the reading program run after the writing program finds every one of the 1024 elements and ends
  with success.\<close>

theorem obi_roundtrip:
  "\<exists>h'. obi_read_main (storage_dev m0) (snd (snd (obi_write_main h))) = (EXIT_SUCCESS, ''Read operation successful.'', h')"
proof -
  define base where "base = \<lparr>mr_base = EXT_SLAVE_START_ADDRESS\<rparr>"
  have p: "EXT_SLAVE_START_ADDRESS = at_off base (4 * 0)" by (simp add: base_def at_off_def)
  have w: "snd (snd (obi_write_main h)) = h @ writes base (squares 0 1024)"
    unfolding obi_write_main_def p obi_fill_writes by simp
  have "regs_after m0 (h @ writes base (squares 0 1024)) (at_off base (4 * k)) = of_nat (k * k)" if "k < 1024" for k
    unfolding regs_after_append using that by (intro writes_agree) (auto simp: squares_def)
  then have "\<exists>h'. obi_check (storage_dev m0) (at_off base (4 * 0)) 0 1024
      (snd (bus_read (storage_dev m0) EXT_SLAVE_START_ADDRESS (h @ writes base (squares 0 1024)))) =
      (EXIT_SUCCESS, ''Read operation successful.'', h')"
    by (intro obi_check_succeeds) (simp add: bus_read_def)
  then show ?thesis unfolding w obi_read_main_def p [symmetric] by (simp add: case_prod_beta Let_def)
qed

end
