(* ===== verification/Flash_Apps.thy ===== *)
theory Flash_Apps
  imports Spi_Host Small_Drivers Hart Board_Tests
begin

text \<open>
  The four programs of \<^verbatim>\<open>sw/riscv/apps\<close> that move 128 bytes between memory and the emulated flash or converter by DMA over SPI:
  \<^verbatim>\<open>virtual_flash_write\<close>, \<^verbatim>\<open>virtual_adc_write\<close>, \<^verbatim>\<open>virtual_flash_read\<close> and \<^verbatim>\<open>virtual_adc_read\<close>. The two programs
  of a direction differ in the controller, the interrupt and the DMA set-up, which are arguments here. Each ends in a loop that sleeps until
  its interrupt handler has set a flag; the loop runs beside the handler, and is a step relation. Printed text is part of the result.
\<close>

definition SPI_FLASH_START_ADDRESS :: u32 where [reg_defs]: "SPI_FLASH_START_ADDRESS = AO_PERIPHERAL_START_ADDRESS + 0x00020000"
definition SPI_HOST_START_ADDRESS :: u32 where [reg_defs]: "SPI_HOST_START_ADDRESS = AO_PERIPHERAL_START_ADDRESS + 0x00030000"
definition DMA_START_ADDRESS :: u32 where [reg_defs]: "DMA_START_ADDRESS = AO_PERIPHERAL_START_ADDRESS + 0x00060000"
definition FAST_INTR_CTRL_START_ADDRESS :: u32 where [reg_defs]:
  "FAST_INTR_CTRL_START_ADDRESS = AO_PERIPHERAL_START_ADDRESS + 0x00070000"

definition FLASH_ADDR :: u32 where "FLASH_ADDR = 0"
definition FLASH_CLK_MAX_HZ :: u32 where "FLASH_CLK_MAX_HZ = 133 * 1000 * 1000"

subsection \<open>The clock divider\<close>

definition flash_clk_div :: "u32 \<Rightarrow> u16" where
  "flash_clk_div core_clk =
     (if FLASH_CLK_MAX_HZ < core_clk div 2
      then let clk_div = ucast ((core_clk div FLASH_CLK_MAX_HZ - 2) div 2) :: u16
           in if core_clk div (2 + 2 * ucast clk_div) > FLASH_CLK_MAX_HZ then clk_div + 1 else clk_div
      else 0)"

definition flash_configopts :: "u32 \<Rightarrow> spi_configopts_t" where
  "flash_configopts core_clk =
     \<lparr>clkdiv = flash_clk_div core_clk, csnidle = 0xF, csntrail = 0xF, csnlead = 0xF, rsvd0 = False, fullcyc = False,
      cpha = False, cpol = False\<rparr>"

subsection \<open>Commands to the memory\<close>

definition tx_command :: "24 word \<Rightarrow> bool \<Rightarrow> u32" where
  "tx_command len keep = spi_create_command \<lparr>cmd_len = len, csaat = keep, speed = kSpiSpeedStandard, direction = kSpiDirTxOnly\<rparr>"

text \<open>A word into the transmit FIFO, its command, and the wait for the host.\<close>

definition send_word :: "device \<Rightarrow> spi_host_t \<Rightarrow> u32 \<Rightarrow> 24 word \<Rightarrow> bool \<Rightarrow> hist \<Rightarrow> hist option" where
  "send_word dev spi w len keep h =
     spi_wait_for_ready dev spi (spi_set_command spi (tx_command len keep) (spi_write_word spi w h))"

text \<open>In the reading programs the host is waited for between the word and its command as well.\<close>

definition send_word_slow :: "device \<Rightarrow> spi_host_t \<Rightarrow> u32 \<Rightarrow> 24 word \<Rightarrow> bool \<Rightarrow> hist \<Rightarrow> hist option" where
  "send_word_slow dev spi w len keep h =
     do { h \<leftarrow> spi_wait_for_ready dev spi (spi_write_word spi w h);
          spi_wait_for_ready dev spi (spi_set_command spi (tx_command len keep) h) }"

subsection \<open>Writing\<close>

text \<open>The statements of \<^verbatim>\<open>write_to_flash\<close> before its final loop, in order; an interrupt may be taken between any two.\<close>

definition write_statements ::
  "device \<Rightarrow> u32 \<Rightarrow> u32 \<Rightarrow> u32 \<Rightarrow> spi_host_t \<Rightarrow> dma_t \<Rightarrow> u32 \<Rightarrow> u32 \<Rightarrow> u32 \<Rightarrow> (hist \<Rightarrow> hist option) list" where
  "write_statements dev inc mode dtype SPI DMA data byte_count addr =
     [send_word dev SPI 0x02 0 True,
      send_word dev SPI (bitfield_byteswap32 addr) 3 True,
      Some \<circ> dma_set_read_ptr_inc DMA inc,
      Some \<circ> dma_set_write_ptr_inc DMA 0,
      Some \<circ> dma_set_read_ptr DMA data,
      Some \<circ> dma_set_write_ptr DMA (mr_base (spi_base SPI) + SPI_HOST_TXDATA_REG_OFFSET),
      Some \<circ> dma_set_spi_mode DMA mode,
      Some \<circ> dma_set_data_type DMA dtype,
      Some \<circ> dma_set_cnt_start DMA byte_count,
      spi_wait_for_tx_not_empty dev SPI,
      Some \<circ> spi_enable_evt_intr dev SPI True,
      Some \<circ> spi_enable_txempty_intr dev SPI True,
      Some \<circ> spi_set_command SPI (tx_command (ucast (byte_count - 1)) False),
      spi_wait_for_ready dev SPI]"

definition flash_write_statements :: "device \<Rightarrow> spi_host_t \<Rightarrow> dma_t \<Rightarrow> u32 \<Rightarrow> u32 \<Rightarrow> u32 \<Rightarrow> (hist \<Rightarrow> hist option) list" where
  "flash_write_statements dev = write_statements dev 2 4 1"

definition adc_write_statements :: "device \<Rightarrow> spi_host_t \<Rightarrow> dma_t \<Rightarrow> u32 \<Rightarrow> u32 \<Rightarrow> u32 \<Rightarrow> (hist \<Rightarrow> hist option) list" where
  "adc_write_statements dev = write_statements dev 4 2 0"

text \<open>The handlers, without the flag they set.\<close>

definition write_handler :: "device \<Rightarrow> spi_host_t \<Rightarrow> fast_intr_ctrl_fast_interrupt_t \<Rightarrow> hist \<Rightarrow> hist" where
  "write_handler dev spi_host_flash irq h =
     (let h = spi_enable_evt_intr dev spi_host_flash False h;
          h = spi_enable_rxwm_intr dev spi_host_flash False h;
          fast_intr_ctrl = \<lparr>fic_base = mmio_region_from_addr FAST_INTR_CTRL_START_ADDRESS\<rparr>
      in snd (clear_fast_interrupt fast_intr_ctrl irq h))"

subsection \<open>Reading\<close>

definition read_statements ::
  "device \<Rightarrow> u32 \<Rightarrow> spi_host_t \<Rightarrow> dma_t \<Rightarrow> u32 \<Rightarrow> u32 \<Rightarrow> u32 \<Rightarrow> (hist \<Rightarrow> hist option) list" where
  "read_statements dev mode SPI DMA data byte_count addr =
     [send_word dev SPI 0x0b 0 True,
      send_word_slow dev SPI 0 3 True,
      send_word_slow dev SPI 0 3 True,
      send_word_slow dev SPI 0 0 True,
      Some \<circ> dma_set_read_ptr_inc DMA 0,
      Some \<circ> dma_set_write_ptr_inc DMA 4,
      Some \<circ> dma_set_read_ptr DMA (mr_base (spi_base SPI) + SPI_HOST_RXDATA_REG_OFFSET),
      Some \<circ> dma_set_write_ptr DMA data,
      Some \<circ> dma_set_spi_mode DMA mode,
      Some \<circ> dma_set_data_type DMA 0,
      Some \<circ> dma_set_cnt_start DMA byte_count,
      Some \<circ> spi_set_command SPI (spi_create_command
        \<lparr>cmd_len = ucast (byte_count - 1), csaat = False, speed = kSpiSpeedStandard, direction = kSpiDirRxOnly\<rparr>),
      spi_wait_for_ready dev SPI]"

definition flash_read_statements :: "device \<Rightarrow> spi_host_t \<Rightarrow> dma_t \<Rightarrow> u32 \<Rightarrow> u32 \<Rightarrow> u32 \<Rightarrow> (hist \<Rightarrow> hist option) list" where
  "flash_read_statements dev = read_statements dev 3"

definition adc_read_statements :: "device \<Rightarrow> spi_host_t \<Rightarrow> dma_t \<Rightarrow> u32 \<Rightarrow> u32 \<Rightarrow> u32 \<Rightarrow> (hist \<Rightarrow> hist option) list" where
  "adc_read_statements dev = read_statements dev 1"

definition read_handler :: "hist \<Rightarrow> hist" where
  "read_handler h =
     (let fast_intr_ctrl = \<lparr>fic_base = mmio_region_from_addr FAST_INTR_CTRL_START_ADDRESS\<rparr>
      in snd (clear_fast_interrupt fast_intr_ctrl kDma_fic_e h))"

subsection \<open>The set-up of \<^verbatim>\<open>main\<close>\<close>

definition csr_set_bits :: "csr \<Rightarrow> u32 \<Rightarrow> (csr \<Rightarrow> u32) \<Rightarrow> csr \<Rightarrow> u32" where
  "csr_set_bits c m cs = cs(c := cs c OR m)"

text \<open>The device part up to the transfer: the controller is selected and enabled, the clock set, and two commands sent.\<close>

definition flash_setup :: "device \<Rightarrow> u32 \<Rightarrow> hist \<Rightarrow> (spi_host_t \<times> hist) option" where
  "flash_setup dev start h =
     do { let soc_ctrl = \<lparr>soc_base = mmio_region_from_addr SOC_CTRL_START_ADDRESS\<rparr>;
          let h = soc_ctrl_select_spi_host soc_ctrl h;
          let (core_clk, h) = soc_ctrl_get_frequency dev soc_ctrl h;
          let spi = \<lparr>spi_base = mmio_region_from_addr start\<rparr>;
          let h = spi_set_enable dev spi True h;
          let h = spi_output_enable dev spi True h;
          let h = spi_set_configopts spi 0 (spi_create_configopts (flash_configopts core_clk)) h;
          let h = spi_set_csid spi 0 h;
          h \<leftarrow> send_word dev spi 0x11 0 True h;
          h \<leftarrow> send_word dev spi 0x07 0 False h;
          Some (spi, h) }"

definition the_dma :: dma_t where
  "the_dma = \<lparr>dma_base = mmio_region_from_addr DMA_START_ADDRESS\<rparr>"

text \<open>The interrupt enables: globally, the program's fast interrupt, and for the writing programs the machine timer.\<close>

definition write_csrs :: "nat \<Rightarrow> (csr \<Rightarrow> u32) \<Rightarrow> csr \<Rightarrow> u32" where
  "write_csrs fast cs = csr_set_bits MIE (push_bit 7 1) (csr_set_bits MIE (push_bit fast 1) (csr_set_bits MSTATUS 0x8 cs))"

definition read_csrs :: "(csr \<Rightarrow> u32) \<Rightarrow> csr \<Rightarrow> u32" where
  "read_csrs cs = csr_set_bits MIE (push_bit 19 1) (csr_set_bits MIE (push_bit 19 1) (csr_set_bits MSTATUS 0x8 cs))"

text \<open>The arrays before the transfer.\<close>

definition write_results :: "u32 list" where
  "write_results = map of_nat [0..<32]"

definition read_results :: "u32 list" where
  "read_results = replicate 32 0"

text \<open>What the programs print at their end: \<open>results\<close> is what the DMA has left in memory.\<close>

definition write_report :: string where
  "write_report = ''Done.'' @ lf_cr"

definition read_report :: "u32 list \<Rightarrow> string" where
  "read_report results = concat (map (\<lambda>i. fmt_u 10 i @ '': 0x'' @ fmt_upper_hex8 (results ! i) @ lf_cr) [0..<32])"

subsection \<open>The clock is right\<close>

lemma divider_values:
  assumes "133000000 < unat core_clk div 2"
  defines "q \<equiv> unat core_clk div 133000000"
  shows "unat (ucast ((core_clk div FLASH_CLK_MAX_HZ - 2) div 2) :: u16) = (q - 2) div 2" "2 \<le> q" "q \<le> 32"
proof -
  have "unat core_clk \<le> 4294967295" using unat_lt32 [of core_clk] by simp
  from div_le_mono [OF this, of 133000000] have u32: "q \<le> 32" unfolding q_def by simp
  have "266000000 \<le> unat core_clk" using assms(1) by simp
  from div_le_mono [OF this, of 133000000] have u2: "2 \<le> q" unfolding q_def by simp
  show q: "q \<le> 32" "2 \<le> q" by (fact u32, fact u2)
  have m: "unat FLASH_CLK_MAX_HZ = 133000000" by (simp add: FLASH_CLK_MAX_HZ_def)
  have u: "unat (core_clk div FLASH_CLK_MAX_HZ) = q" by (simp add: unat_div m q_def)
  then have "2 \<le> core_clk div FLASH_CLK_MAX_HZ" using q by (simp add: word_le_nat_alt)
  then have "unat (core_clk div FLASH_CLK_MAX_HZ - 2) = q - 2" using u by (simp add: unat_sub)
  then have "unat ((core_clk div FLASH_CLK_MAX_HZ - 2) div 2) = (q - 2) div 2" by (simp add: unat_div)
  moreover have "(q - 2) div 2 < 2 ^ 16" using q by simp
  ultimately show "unat (ucast ((core_clk div FLASH_CLK_MAX_HZ - 2) div 2) :: u16) = (q - 2) div 2"
    by (simp add: unsigned_ucast_eq take_bit_nat_eq_self)
qed

lemma divider_arith:
  fixes c :: nat
  assumes "133000000 < c div 2" "q = c div 133000000" "2 \<le> q" "q \<le> 32" "k = (q - 2) div 2"
  shows "c div (2 + 2 * (k + 1)) \<le> 133000000" "d < k \<Longrightarrow> c div (2 + 2 * d) > 133000000"
proof -
  have c: "133000000 * q \<le> c" "c < 133000000 * q + 133000000" using assms(2) by auto
  have k: "2 * k \<le> q - 2" "q - 3 \<le> 2 * k" using assms(5) by auto
  have "c < 133000001 * (2 + 2 * (k + 1))" using c k assms(3) by simp
  then show "c div (2 + 2 * (k + 1)) \<le> 133000000" by (simp add: div_less_iff_less_mult flip: less_Suc_eq_le)
  assume "d < k"
  then have "133000001 * (2 + 2 * d) \<le> c" using c k assms(3,4) by simp
  then show "c div (2 + 2 * d) > 133000000" by (simp add: less_eq_div_iff_mult_less_eq flip: Suc_le_eq)
qed

text \<open>The divider the programs compute is, for every value of the frequency register, the smallest that brings the SPI
  clock (half the core clock over one more than the divider) down to at most 133 MHz.\<close>

theorem flash_clk_div_least:
  "unat (flash_clk_div core_clk) = (LEAST d. unat core_clk div (2 + 2 * d) \<le> 133000000)"
proof (cases "133000000 < unat core_clk div 2")
  case False
  then have "flash_clk_div core_clk = 0" by (simp add: flash_clk_div_def FLASH_CLK_MAX_HZ_def word_less_nat_alt unat_div)
  then show ?thesis using False by (intro Least_equality [symmetric]) simp_all
next
  case True
  define q where "q = unat core_clk div 133000000"
  define cd where "cd = (ucast ((core_clk div FLASH_CLK_MAX_HZ - 2) div 2) :: u16)"
  define k where "k = (q - 2) div 2"
  note v = divider_values [OF True, folded q_def cd_def, folded k_def]
  note a = divider_arith [OF True q_def v(2,3) k_def]
  have "k < 16" using v(3) by (simp add: k_def)
  then have "unat (2 + 2 * ucast cd :: u32) = 2 + 2 * k"
    by (simp add: unat_word_ariths v(1) unsigned_ucast_eq take_bit_nat_eq_self)
  then have t: "core_clk div (2 + 2 * ucast cd) > FLASH_CLK_MAX_HZ \<longleftrightarrow> unat core_clk div (2 + 2 * k) > 133000000"
    by (simp add: word_less_nat_alt unat_div FLASH_CLK_MAX_HZ_def)
  have "FLASH_CLK_MAX_HZ < core_clk div 2" using True by (simp add: word_less_nat_alt unat_div FLASH_CLK_MAX_HZ_def)
  then have "flash_clk_div core_clk = (if unat core_clk div (2 + 2 * k) > 133000000 then cd + 1 else cd)"
    by (simp add: flash_clk_div_def Let_def cd_def [symmetric] t)
  moreover have "unat (cd + 1) = k + 1" using \<open>k < 16\<close> by (simp add: unat_word_ariths v(1))
  ultimately have r: "unat (flash_clk_div core_clk) = (if unat core_clk div (2 + 2 * k) > 133000000 then k + 1 else k)"
    using v(1) by simp
  show ?thesis
  proof (rule Least_equality [symmetric])
    show "unat core_clk div (2 + 2 * unat (flash_clk_div core_clk)) \<le> 133000000" using a(1) unfolding r by auto
    fix d assume "unat core_clk div (2 + 2 * d) \<le> 133000000"
    then show "unat (flash_clk_div core_clk) \<le> d"
      using a(2) [of d] unfolding r by (cases "d < k"; cases "d = k"; simp)
  qed
qed

subsection \<open>Waiting for the interrupt\<close>

text \<open>
  Where the core is: before the \<open>k\<close>th statement of the transfer, at the test of the flag, past the test but before \<^verbatim>\<open>wfi\<close>, in \<^verbatim>\<open>wfi\<close>,
  or out of the loop. The device raises its event once, at some moment at which it is \<open>armed\<close>, a parameter; the interrupt
  then stays pending until the handler clears it. In \<^verbatim>\<open>wfi\<close> a pending interrupt wakes the core, and since interrupts are enabled the
  handler runs before the loop goes on.
\<close>

datatype location = Statement nat | Test | Before_wfi | In_wfi | Left_loop

record app_state =
  loc :: location
  bus :: hist
  intr_flag :: u8
  waiting :: bool
  raised :: bool

definition app_start :: "hist \<Rightarrow> app_state" where
  "app_start h = \<lparr>loc = Statement 0, bus = h, intr_flag = 0, waiting = False, raised = False\<rparr>"

definition take_interrupt :: "(hist \<Rightarrow> hist) \<Rightarrow> app_state \<Rightarrow> app_state" where
  "take_interrupt handler s = s\<lparr>bus := handler (bus s), intr_flag := 1, waiting := False\<rparr>"

inductive app_step ::
  "(hist \<Rightarrow> hist option) list \<Rightarrow> (hist \<Rightarrow> hist) \<Rightarrow> (hist \<Rightarrow> bool) \<Rightarrow> app_state \<Rightarrow> app_state \<Rightarrow> bool"
  for prog :: "(hist \<Rightarrow> hist option) list" and handler :: "hist \<Rightarrow> hist" and armed :: "hist \<Rightarrow> bool" where
  statement: "loc s = Statement k \<Longrightarrow> k < length prog \<Longrightarrow> (prog ! k) (bus s) = Some h \<Longrightarrow>
     app_step prog handler armed s (s\<lparr>loc := Statement (Suc k), bus := h\<rparr>)"
| enter: "loc s = Statement (length prog) \<Longrightarrow> app_step prog handler armed s (s\<lparr>loc := Test\<rparr>)"
| test_zero: "loc s = Test \<Longrightarrow> intr_flag s = 0 \<Longrightarrow> app_step prog handler armed s (s\<lparr>loc := Before_wfi\<rparr>)"
| test_set: "loc s = Test \<Longrightarrow> intr_flag s \<noteq> 0 \<Longrightarrow> app_step prog handler armed s (s\<lparr>loc := Left_loop\<rparr>)"
| wfi: "loc s = Before_wfi \<Longrightarrow> app_step prog handler armed s (s\<lparr>loc := In_wfi\<rparr>)"
| wake: "loc s = In_wfi \<Longrightarrow> waiting s \<Longrightarrow> app_step prog handler armed s ((take_interrupt handler s)\<lparr>loc := Test\<rparr>)"
| trap: "loc s \<noteq> In_wfi \<Longrightarrow> loc s \<noteq> Left_loop \<Longrightarrow> waiting s \<Longrightarrow> app_step prog handler armed s (take_interrupt handler s)"
| event: "\<not> raised s \<Longrightarrow> armed (bus s) \<Longrightarrow> app_step prog handler armed s (s\<lparr>waiting := True, raised := True\<rparr>)"

inductive_cases app_stepE: "app_step prog handler armed s t"

text \<open>The statements one after the other, without interrupts.\<close>

fun run_all :: "(hist \<Rightarrow> hist option) list \<Rightarrow> hist \<Rightarrow> hist option" where
  "run_all [] h = Some h"
| "run_all (c # cs) h = do { h \<leftarrow> c h; run_all cs h }"

definition app_ok :: "app_state \<Rightarrow> bool" where
  "app_ok s \<longleftrightarrow> intr_flag s = (if raised s \<and> \<not> waiting s then 1 else 0) \<and> (waiting s \<longrightarrow> raised s) \<and>
     (loc s = Left_loop \<longrightarrow> intr_flag s = 1)"

lemma app_step_ok: "app_step prog handler armed s t \<Longrightarrow> app_ok s \<Longrightarrow> app_ok t"
  by (induction rule: app_step.induct) (auto simp: app_ok_def take_interrupt_def split: if_splits)

lemma app_reachable_ok: "(app_step prog handler armed)\<^sup>*\<^sup>* (app_start h) s \<Longrightarrow> app_ok s"
proof (induction rule: rtranclp_induct)
  case base
  show ?case by (simp add: app_ok_def app_start_def)
next
  case (step s t)
  then show ?case by (blast intro: app_step_ok)
qed

lemma app_reachable_loc: "(app_step prog handler armed)\<^sup>*\<^sup>* (app_start h) s \<Longrightarrow> loc s = Statement k \<Longrightarrow> k \<le> length prog"
proof (induction arbitrary: k rule: rtranclp_induct)
  case base
  then show ?case by (simp add: app_start_def)
next
  case (step s t)
  from step.hyps(2) show ?case
  proof cases
    case (statement j h)
    then show ?thesis using step.prems by simp
  qed (use step.IH step.prems in \<open>auto simp: take_interrupt_def\<close>)
qed

lemma app_stuck:
  assumes "app_ok s" "\<nexists>t. app_step prog handler armed s t"
  shows "loc s = Left_loop \<or> (loc s = In_wfi \<and> \<not> waiting s \<and> (intr_flag s = 1 \<or> \<not> armed (bus s))) \<or>
    (\<exists>k. loc s = Statement k \<and> k \<noteq> length prog \<and> (k < length prog \<longrightarrow> (prog ! k) (bus s) = None))"
proof (cases "loc s")
  case (Statement k)
  have "k \<noteq> length prog" using assms(2) Statement by (metis app_step.enter)
  moreover have "(prog ! k) (bus s) = None" if "k < length prog" 
    using assms(2) Statement that by (metis app_step.statement not_None_eq)
  ultimately show ?thesis using Statement by blast
next
  case Test
  then show ?thesis using assms(2) by (metis app_step.test_zero app_step.test_set)
next
  case Before_wfi
  then show ?thesis using assms(2) by (metis app_step.wfi)
next
  case In_wfi
  then have "\<not> waiting s" using assms(2) by (metis app_step.wake)
  moreover have "intr_flag s = 1 \<or> \<not> armed (bus s)"
    using assms \<open>\<not> waiting s\<close> by (metis app_ok_def app_step.event)
  ultimately show ?thesis using In_wfi by blast
qed simp

lemma app_runs:
  assumes "run_all (drop k prog) (bus s) = Some h" "loc s = Statement k" "k \<le> length prog"
  shows "(app_step prog handler armed)\<^sup>*\<^sup>* s (s\<lparr>loc := Statement (length prog), bus := h\<rparr>)"
  using assms
proof (induction "length prog - k" arbitrary: k s)
  case 0
  then have "s\<lparr>loc := Statement (length prog), bus := h\<rparr> = s" by (cases s) simp
  then show ?case by simp
next
  case (Suc n)
  then have k: "k < length prog" by simp
  then have d: "drop k prog = prog ! k # drop (Suc k) prog" by (simp add: Cons_nth_drop_Suc)
  obtain h1 where h1: "(prog ! k) (bus s) = Some h1" "run_all (drop (Suc k) prog) h1 = Some h"
    using Suc.prems(1) unfolding d by (auto split: bind_splits)
  let ?s = "s\<lparr>loc := Statement (Suc k), bus := h1\<rparr>"
  have "app_step prog handler armed s ?s" using Suc.prems(2) k h1(1) by (rule app_step.statement)
  moreover have "(app_step prog handler armed)\<^sup>*\<^sup>* ?s (?s\<lparr>loc := Statement (length prog), bus := h\<rparr>)"
    using Suc.hyps(2) k h1(2) by (intro Suc.hyps(1)) auto
  ultimately show ?case by (simp add: converse_rtranclp_into_rtranclp)
qed

text \<open>The schedule in which the event comes between the test and \<^verbatim>\<open>wfi\<close>.\<close>

lemma app_lost_wakeup:
  assumes "run_all prog h = Some h'" "armed h'"
  shows "\<exists>s. (app_step prog handler armed)\<^sup>*\<^sup>* (app_start h) s \<and> loc s = In_wfi \<and> intr_flag s = 1 \<and>
    (\<nexists>t. app_step prog handler armed s t)"
proof -
  let ?R = "app_step prog handler armed"
  define s0 where "s0 = \<lparr>loc = Statement (length prog), bus = h', intr_flag = 0, waiting = False, raised = False\<rparr>"
  have "?R\<^sup>*\<^sup>* (app_start h) s0"
    using app_runs [of 0 prog "app_start h" h'] assms(1) by (simp add: app_start_def s0_def)
  also have "?R s0 (s0\<lparr>loc := Test\<rparr>)" by (rule app_step.enter) (simp add: s0_def)
  also have "?R (s0\<lparr>loc := Test\<rparr>) (s0\<lparr>loc := Before_wfi\<rparr>)"
    using app_step.test_zero [of "s0\<lparr>loc := Test\<rparr>"] by (simp add: s0_def)
  also have "?R (s0\<lparr>loc := Before_wfi\<rparr>) (s0\<lparr>loc := Before_wfi, waiting := True, raised := True\<rparr>)"
    using app_step.event [of "s0\<lparr>loc := Before_wfi\<rparr>" armed] assms(2) by (simp add: s0_def)
  also have "?R (s0\<lparr>loc := Before_wfi, waiting := True, raised := True\<rparr>)
      (s0\<lparr>loc := Before_wfi, raised := True, bus := handler h', intr_flag := 1\<rparr>)"
    using app_step.trap [of "s0\<lparr>loc := Before_wfi, waiting := True, raised := True\<rparr>"]
    by (simp add: s0_def take_interrupt_def)
  also have "?R (s0\<lparr>loc := Before_wfi, raised := True, bus := handler h', intr_flag := 1\<rparr>)
      (s0\<lparr>loc := In_wfi, raised := True, bus := handler h', intr_flag := 1\<rparr>)"
    using app_step.wfi [of "s0\<lparr>loc := Before_wfi, raised := True, bus := handler h', intr_flag := 1\<rparr>"] by (simp add: s0_def)
  finally have "?R\<^sup>*\<^sup>* (app_start h) (s0\<lparr>loc := In_wfi, raised := True, bus := handler h', intr_flag := 1\<rparr>)" .
  moreover have "\<nexists>t. ?R (s0\<lparr>loc := In_wfi, raised := True, bus := handler h', intr_flag := 1\<rparr>) t"
    by (auto simp: s0_def elim: app_stepE)
  ultimately show ?thesis by (intro exI [of _ "s0\<lparr>loc := In_wfi, raised := True, bus := handler h', intr_flag := 1\<rparr>"]) simp
qed

text \<open>
  The programs up to their transfer: the control registers, the statements of the transfer, and the state they start from. The
  address of the array on the stack is a parameter.
\<close>

type_synonym prepared = "(csr \<Rightarrow> u32) \<times> (hist \<Rightarrow> hist option) list \<times> app_state"

definition flash_write_main :: "device \<Rightarrow> u32 \<Rightarrow> (csr \<Rightarrow> u32) \<Rightarrow> hist \<Rightarrow> prepared option" where
  "flash_write_main dev results cs h =
     do { (spi, h) \<leftarrow> flash_setup dev SPI_FLASH_START_ADDRESS h;
          Some (write_csrs 21 cs, flash_write_statements dev spi the_dma results (4 * 32) FLASH_ADDR, app_start h) }"

definition adc_write_main :: "device \<Rightarrow> u32 \<Rightarrow> (csr \<Rightarrow> u32) \<Rightarrow> hist \<Rightarrow> prepared option" where
  "adc_write_main dev results cs h =
     do { (spi, h) \<leftarrow> flash_setup dev SPI_HOST_START_ADDRESS h;
          Some (write_csrs 20 cs, adc_write_statements dev spi the_dma results (4 * 32) FLASH_ADDR, app_start h) }"

definition flash_read_main :: "device \<Rightarrow> u32 \<Rightarrow> (csr \<Rightarrow> u32) \<Rightarrow> hist \<Rightarrow> prepared option" where
  "flash_read_main dev results cs h =
     do { (spi, h) \<leftarrow> flash_setup dev SPI_FLASH_START_ADDRESS h;
          Some (read_csrs cs, flash_read_statements dev spi the_dma results (4 * 32) FLASH_ADDR, app_start h) }"

definition adc_read_main :: "device \<Rightarrow> u32 \<Rightarrow> (csr \<Rightarrow> u32) \<Rightarrow> hist \<Rightarrow> prepared option" where
  "adc_read_main dev results cs h =
     do { (spi, h) \<leftarrow> flash_setup dev SPI_HOST_START_ADDRESS h;
          Some (read_csrs cs, adc_read_statements dev spi the_dma results (4 * 32) FLASH_ADDR, app_start h) }"

subsection \<open>The writing program\<close>

text \<open>The SPI host can raise its event when the interrupt and the empty-FIFO event are both enabled by the registers last written.\<close>

definition spi_event_armed :: "spi_host_t \<Rightarrow> hist \<Rightarrow> bool" where
  "spi_event_armed spi h \<longleftrightarrow>
     bit (regs_after (\<lambda>_. 0) h (reg_addr (spi_base spi) SPI_HOST_INTR_ENABLE_REG_OFFSET)) (unat SPI_HOST_INTR_ENABLE_SPI_EVENT_BIT) \<and>
     bit (regs_after (\<lambda>_. 0) h (reg_addr (spi_base spi) SPI_HOST_EVENT_ENABLE_REG_OFFSET)) (unat SPI_HOST_EVENT_ENABLE_TXEMPTY_BIT)"

lemma reads_keep_regs: "regs_after m (h @ map (Rd32 a) vs @ [Rd32 a v]) = regs_after m h"
proof -
  have "fold step_mem (map (Rd32 a) vs) n = n" for n :: "u32 \<Rightarrow> u32" by (induction vs arbitrary: n) simp_all
  then show ?thesis by simp
qed

lemma wait_keeps_regs:
  assumes "spi_wait_for_ready dev spi h = Some h'"
  shows "regs_after m h' = regs_after m h"
proof -
  from wait_reg_trace [OF assms [unfolded spi_waits status_bit_def]] obtain vs v where
    "h' = h @ map (Rd32 (reg_addr (spi_base spi) SPI_HOST_STATUS_REG_OFFSET)) vs @
      [Rd32 (reg_addr (spi_base spi) SPI_HOST_STATUS_REG_OFFSET) v]" by blast
  then show ?thesis by (simp only: reads_keep_regs)
qed

lemma run_all_append: "run_all (as @ bs) h = do { h \<leftarrow> run_all as h; run_all bs h }"
  by (induction as arbitrary: h) (auto split: bind_splits)

lemma write_tail:
  "write_statements dev inc mode dtype SPI DMA data n addr =
     take 10 (write_statements dev inc mode dtype SPI DMA data n addr) @
     [Some \<circ> spi_enable_evt_intr dev SPI True, Some \<circ> spi_enable_txempty_intr dev SPI True,
      Some \<circ> spi_set_command SPI (tx_command (ucast (n - 1)) False), spi_wait_for_ready dev SPI]"
  by (simp add: write_statements_def)

lemma write_arms:
  assumes "run_all (write_statements dev inc mode dtype SPI DMA data n addr) h = Some h'"
  shows "spi_event_armed SPI h'"
proof -
  obtain h0 where "spi_wait_for_ready dev SPI (spi_set_command SPI (tx_command (ucast (n - 1)) False)
      (spi_enable_txempty_intr dev SPI True (spi_enable_evt_intr dev SPI True h0))) = Some h'"
    using assms by (subst (asm) write_tail) (auto simp: run_all_append split: bind_splits)
  from wait_keeps_regs [OF this, of "\<lambda>_. 0"] show ?thesis
    by (simp add: spi_event_armed_def spi_defs mmio_defs bit32_write_bit) (simp add: reg_addr_def reg_defs bit32_write_bit)
qed

text \<open>C23: The wait of the writing programs can sleep for ever after the transfer is done. Whatever the device answers,
  if the statements of the transfer return, then there is a schedule in which the event
  is raised and its handler run after the loop has tested the flag and before \<^verbatim>\<open>wfi\<close>: the program then sits in \<^verbatim>\<open>wfi\<close> with the flag
  set, and no step is left.\<close>

theorem flash_write_lost_wakeup:
  assumes "run_all (flash_write_statements dev SPI DMA data n addr) h = Some h'"
  shows "\<exists>s. (app_step (flash_write_statements dev SPI DMA data n addr) (write_handler dev SPI kSpiFlash_fic_e)
      (spi_event_armed SPI))\<^sup>*\<^sup>* (app_start h) s \<and> loc s = In_wfi \<and> intr_flag s = 1 \<and>
    (\<nexists>t. app_step (flash_write_statements dev SPI DMA data n addr) (write_handler dev SPI kSpiFlash_fic_e) (spi_event_armed SPI) s t)"
  using write_arms [OF assms [unfolded flash_write_statements_def]] assms by (intro app_lost_wakeup)

text \<open>A host that is always ready and whose transmit FIFO is never empty.\<close>

definition ready_host :: device where
  "ready_host = \<lparr>dev32 = (\<lambda>_ _. 0x80000000), dev8 = (\<lambda>_ _. 0)\<rparr>"

lemma ready_host_waits: "\<exists>h'. spi_wait_for_ready ready_host spi h = Some h'" "\<exists>h'. spi_wait_for_tx_not_empty ready_host spi h = Some h'"
proof -
  have "bit (0x80000000 :: u32) k \<longleftrightarrow> k = 31" for k
  proof -
    have "(0x80000000 :: u32) = push_bit 31 1" by (simp add: push_bit_eq_mult)
    then show ?thesis by (simp only: bit_push_bit_iff bit_1_iff) auto
  qed
  then have b: "bit (dev32 ready_host h a) (unat SPI_HOST_STATUS_READY_BIT)" "\<not> bit (dev32 ready_host h a) (unat SPI_HOST_STATUS_TXEMPTY_BIT)"
    for h a by (simp_all add: ready_host_def reg_defs)
  show "\<exists>h'. spi_wait_for_ready ready_host spi h = Some h'"
    unfolding spi_waits status_bit_def by (subst wait_while_step) (simp add: b)
  show "\<exists>h'. spi_wait_for_tx_not_empty ready_host spi h = Some h'"
    unfolding spi_waits status_bit_def by (subst wait_while_step) (simp add: b)
qed

lemma ready_host_runs: "\<exists>h'. run_all (flash_write_statements ready_host SPI DMA data n addr) h = Some h'"
proof -
  obtain r t where r: "\<And>h. spi_wait_for_ready ready_host SPI h = Some (r h)" and
    t: "\<And>h. spi_wait_for_tx_not_empty ready_host SPI h = Some (t h)" using ready_host_waits by metis
  show ?thesis
    unfolding flash_write_statements_def write_statements_def run_all.simps send_word_def o_def r t bind.bind_lunit by blast
qed

lemma flash_write_lost_wakeup_witness:
  "\<exists>s. (app_step (flash_write_statements ready_host \<lparr>spi_base = \<lparr>mr_base = 0x20020000\<rparr>\<rparr> the_dma 0x100 128 0)
      (write_handler ready_host \<lparr>spi_base = \<lparr>mr_base = 0x20020000\<rparr>\<rparr> kSpiFlash_fic_e)
      (spi_event_armed \<lparr>spi_base = \<lparr>mr_base = 0x20020000\<rparr>\<rparr>))\<^sup>*\<^sup>* (app_start []) s \<and> loc s = In_wfi \<and> intr_flag s = 1"
proof -
  obtain h' where "run_all (flash_write_statements ready_host \<lparr>spi_base = \<lparr>mr_base = 0x20020000\<rparr>\<rparr> the_dma 0x100 128 0) [] = Some h'"
    using ready_host_runs by blast
  from flash_write_lost_wakeup [OF this] show ?thesis by blast
qed



end
