(* ===== verification/Spec2Isabelle.thy ===== *)
theory Spec2Isabelle
  imports Prelude Bitfield Mmio Polling Uart Scpi_Fifo Scpi_Types Scpi_Status Scpi_Error Scpi_Lexer
    Scpi_Unit Scpi_Match Scpi_Result Scpi_Param Scpi_Parser Scpi_Array Scpi_Expr Scpi_Number Scpi_Commands Scpi_Heap Scpi_Info Scpi_Info_Plain Scpi_Dtostre Gpio Memory Syscalls Scpi_Events App Hart Tee Machine
    Startup Boot Editor Standalone
    Regs Rv_Plic Rv_Timer I2c Power_Manager Power_Gate Spi_Host Small_Drivers Board_Tests Flash_Apps
begin

text \<open>
  A verification library for the x-heep FEMU SDK (\<^verbatim>\<open>src/sw/riscv\<close>): the software of a small
  RISC-V system that answers SCPI commands over a UART from user mode, and the drivers and runtime below it.

  \<^bold>\<open>The program.\<close> \<^verbatim>\<open>apps/tflite_scpi/main.c\<close> sets up the UART and the SCPI parser, opens one memory
  region to user mode with the physical memory protection, and jumps to a line editor that runs there. The
  editor reads and echoes characters and hands each line over by system calls, which
  \<^verbatim>\<open>lib/runtime/handler.c\<close> checks and serves in machine mode: a line goes to the SCPI library
  (\<^verbatim>\<open>scpi-parser/libscpi\<close>), which splits it into units, looks up the command, reads its parameters and calls
  back into the application; answers and errors go through the interface callbacks to the UART driver, and printed text
  through \<^verbatim>\<open>_write\<close> of \<^verbatim>\<open>lib/runtime/syscalls.c\<close>. The drivers reach the devices through the register
  accessors of \<^verbatim>\<open>lib/base/mmio.h\<close> and the bit fields of \<^verbatim>\<open>lib/base/bitfield.h\<close>.

  \<^bold>\<open>How code becomes definitions.\<close> A C function is a definition of the same name; a structure a record, an enumeration a
  datatype, a 32-bit integer a word of 32 bits. A driver acts on the history of register
  accesses: a device is a function from the history and an address to the value read, so that every behaviour a device
  may have is covered. A loop that polls a device is a partial function, \<open>None\<close> when it never ends; the loops on doubles in \<^verbatim>\<open>scpi_ecvt\<close> are partial too and shown to end; every other
  loop is total, by recursion on its data or with a termination proof. Strings are lists of characters; pointers into the SCPI
  input buffer are indices. A function pointer that the parser calls through its
  interface is an event in the context's log, to which the application theory gives its meaning. Pointers that may be null are
  options. Fuel is used nowhere.

  \<^bold>\<open>The theories.\<close>
  \<^item> \<^verbatim>\<open>Prelude\<close>: words, options, characters and lists shared by all.
  \<^item> \<^verbatim>\<open>Bitfield\<close>, \<^verbatim>\<open>Mmio\<close>: the bit field inlines and the register accessors, with the word-wise copies between
    memory and registers at any alignment. \<^verbatim>\<open>Polling\<close>: polling loops and the locale of byte sinks.
  \<^item> \<^verbatim>\<open>Uart\<close>: the UART driver and the SoC control registers; what is sent, under which status, and when the calls return.
    \<^verbatim>\<open>Gpio\<close>: the GPIO driver. Further drivers, and the programs on top of them: \<^verbatim>\<open>Regs\<close>: runs of register writes;
    \<^verbatim>\<open>Rv_Plic\<close>: the interrupt controller, as a refinement of its settings;
    \<^verbatim>\<open>Rv_Timer\<close>: the timers: tick parameters, reading the running counter, arming,
    reset; \<^verbatim>\<open>I2c\<close>: the I2C host: bus timing and the bytes of a transaction;
    \<^verbatim>\<open>Power_Manager\<close>: gating of the power domains;
    \<^verbatim>\<open>Power_Gate\<close>: the assembly that saves the core, loses power and restores it;
    \<^verbatim>\<open>Spi_Host\<close>: the SPI host: waits, configuration and command words;
    \<^verbatim>\<open>Small_Drivers\<close>: DMA, pads and fast interrupts;
    \<^verbatim>\<open>Board_Tests\<close>: the small test programs for pins, bus slave and external memory;
    \<^verbatim>\<open>Flash_Apps\<close>: the four transfer programs over SPI and DMA, and how their wait for
    the interrupt interleaves with the handler.
  \<^item> \<^verbatim>\<open>Memory\<close>: \<^verbatim>\<open>memcpy\<close> and its relatives on a byte memory. \<^verbatim>\<open>Syscalls\<close>: the calls behind the C library, above all
    writing to the console and leaving the program.
  \<^item> \<^verbatim>\<open>Scpi_Fifo\<close> (\<^verbatim>\<open>fifo.c\<close>), \<^verbatim>\<open>Scpi_Types\<close> (\<^verbatim>\<open>types.h\<close>), \<^verbatim>\<open>Scpi_Status\<close> (registers of \<^verbatim>\<open>ieee488.c\<close>),
    \<^verbatim>\<open>Scpi_Error\<close> (\<^verbatim>\<open>error.c\<close>), \<^verbatim>\<open>Scpi_Lexer\<close> (\<^verbatim>\<open>lexer.c\<close>), \<^verbatim>\<open>Scpi_Unit\<close> (message units of \<^verbatim>\<open>parser.c\<close>),
    \<^verbatim>\<open>Scpi_Match\<close> (patterns of \<^verbatim>\<open>utils.c\<close>), \<^verbatim>\<open>Scpi_Result\<close> and \<^verbatim>\<open>Scpi_Param\<close> (results and parameters),
    \<^verbatim>\<open>Scpi_Array\<close> (arrays and 64-bit numbers), \<^verbatim>\<open>Scpi_Expr\<close> (lists of numbers and channels, \<^verbatim>\<open>expression.c\<close>), \<^verbatim>\<open>Scpi_Number\<close> (floating point and units, \<^verbatim>\<open>units.c\<close>), \<^verbatim>\<open>Scpi_Parser\<close> (the command loop), \<^verbatim>\<open>Scpi_Commands\<close> (the standard
    commands), \<^verbatim>\<open>Scpi_Events\<close> (what the library calls through its interface). The library's other build, whose errors carry
    texts: \<^verbatim>\<open>Scpi_Heap\<close> (the ring of texts in \<^verbatim>\<open>utils.c\<close>), \<^verbatim>\<open>Scpi_Info\<close> (queue and ring as one list, and what
    \<^verbatim>\<open>SYSTem:ERRor?\<close> prints), \<^verbatim>\<open>Scpi_Info_Plain\<close> (against the build without texts). \<^verbatim>\<open>Scpi_Dtostre\<close>: the library's own printing of doubles, byte
    by byte in its buffer.
  \<^item> \<^verbatim>\<open>App\<close>: the three commands of the application and the way from events to the UART. \<^verbatim>\<open>Hart\<close>: the inline assembly, with
    the trap frame, the memory protection and the switch to user mode. \<^verbatim>\<open>Tee\<close>: the system calls and the
    exception dispatch. \<^verbatim>\<open>Machine\<close>: one call as a whole, and the reachable states of the machine. \<^verbatim>\<open>Startup\<close>:
    \<^verbatim>\<open>main\<close>. \<^verbatim>\<open>Boot\<close>: the start-up code before it, and the vector table. \<^verbatim>\<open>Editor\<close>: the user program. \<^verbatim>\<open>Standalone\<close>: the application without user mode,
    \<^verbatim>\<open>apps/tflite_scpi_m\<close>, with whole sessions at its terminal.

  \<^bold>\<open>Interfaces.\<close> Contracts between components are locales, each interpreted on the code's own definitions: byte sinks
  (the UART's transmit path), register storage and copies, the queue of errors, the tokenizers of the lexer, views of the context that the register operations respect, the
  callbacks of the parser (the standard commands, the application's commands) with their extension by a predicate on
  events, what a call of the C library keeps, and the terminal of the line editor (the system calls over the UART driver, and the driver itself).

  \<^bold>\<open>What is shown.\<close> Drivers: the exact accesses of an operation on every branch, that writing sends exactly the
  given bytes and only into a FIFO with room, when polling returns, copies and their round trip; that a power domain is isolated whenever it is off and a gated core
  comes back with its registers; that the words sent to the SPI and I2C hosts carry what was asked for. Transfer programs: the clock
  divider is the best one, and the wait for the interrupt ends only after the handler but can lose its wake-up. SCPI: scanning
  stays inside the buffer and progresses; the matcher agrees with the short and long forms; numbers, lists, text and blocks that are written are read back; what a printed double looks like, and which digits it can lose;
  errors are queued in order with the overflow rule, and the status byte agrees with the queue after
  every sequence of operations; error texts stay whole while their error waits and change nothing else; collecting input always returns and keeps the parser consistent. Application: a typed line reaches the parser
  byte for byte, what the commands answer appears on the UART in order, an image sent as a block is the
  network's input; without user mode, a whole session up to the exit command. Machine: the exact condition under which a user buffer is accepted, the register
  and memory effect of a call, the region the protection opens, that every reachable state keeps
  memory outside that region, and in which state the start-up code enters \<^verbatim>\<open>main\<close>.

  \<^bold>\<open>Parameters and hypotheses.\<close> Not under \<^verbatim>\<open>src/\<close> are the devices, what the C library and the processor do with floating-point numbers, the neural network, the buffering of \<^verbatim>\<open>printf\<close> and the linker's
  addresses; they are arguments of the definitions. Where a property needs more of them it says so: the signs and ranges of double arithmetic; a device
  that eventually frees its FIFO, a frequency register with a usable value, a C library that writes complete lines to a terminal at once.

  \<^bold>\<open>Not modelled.\<close> The interpreter of the network, a submodule, and its weights;
  the memory-mapped flash controller, a header without an operation; the test that prints the control
  registers; the copies of the library; the Python and notebook side; register layouts no driver
  uses. Compiled code between the inline assembly of the exception handler is taken to keep the stack pointer and the frame.
\<close>

end
